(* ===== verification/Prelude.thy ===== *)
theory Prelude
  imports
    Main
    "HOL-Library.Word"
    "HOL-Library.Finite_Map"
    "HOL-Library.Signed_Division"
    "HOL-Library.Char_ord"
    "HOL-Library.List_Lexorder"
    "HOL-Library.Product_Lexorder"
begin

text \<open>
  What every component shares: Go's integer types and \<open>math.Int\<close> division, the shape of a
  keeper method (it reads and writes the store and returns a value or an error), its proof
  rules, ordered key-value stores and sums over them.

  A Go method \<open>func (k Keeper) F(ctx, ...) (T, error)\<close> is a function from the state before to
  the error or value it returns and the state it leaves. The state is kept on an error too: a
  transaction throws it away (\<open>atomic\<close>), but the block hooks of the modules log an error and go
  on with the writes made so far.
\<close>

named_theorems run_simps "equations that run a keeper method to its result"
named_theorems keepsR_intros "the same for runs that end without an error"
named_theorems keeps_intros "preservation of an invariant, one rule per program construct"

section \<open>Integers\<close>

type_synonym byte = "8 word"
type_synonym u32 = "32 word"
type_synonym u64 = "64 word"

text \<open>Go's \<open>int64\<close> wraps around silently.\<close>

definition wrap64 :: "int \<Rightarrow> int" where
  "wrap64 x = (x + 2 ^ 63) mod 2 ^ 64 - 2 ^ 63"

definition in_i64 :: "int \<Rightarrow> bool" where
  "in_i64 x \<longleftrightarrow> - (2 ^ 63) \<le> x \<and> x < 2 ^ 63"

abbreviation add64 :: "int \<Rightarrow> int \<Rightarrow> int" where
  "add64 a b \<equiv> wrap64 (a + b)"

abbreviation sub64 :: "int \<Rightarrow> int \<Rightarrow> int" where
  "sub64 a b \<equiv> wrap64 (a - b)"

lemma wrap64_in_i64: "in_i64 (wrap64 x)"
proof -
  have "0 \<le> (x + 2 ^ 63) mod 2 ^ 64" "(x + 2 ^ 63) mod 2 ^ 64 < 2 ^ 64"
    by (rule pos_mod_sign, simp) (rule pos_mod_bound, simp)
  then show ?thesis by (simp add: wrap64_def in_i64_def)
qed

lemma wrap64_id: "in_i64 x \<Longrightarrow> wrap64 x = x"
  by (simp add: in_i64_def wrap64_def)

lemma wrap64_nonneg_id: "0 \<le> x \<Longrightarrow> x < 2 ^ 63 \<Longrightarrow> wrap64 x = x"
  by (rule wrap64_id) (simp add: in_i64_def)

lemma unat_add_small: "unat (a::u64) + unat b < 2 ^ 64 \<Longrightarrow> unat (a + b) = unat a + unat b"
  using unat_add_lem [of a b] by simp

text \<open>\<open>math.Int.Quo\<close> truncates towards zero.\<close>

definition quo :: "int \<Rightarrow> int \<Rightarrow> int" where
  "quo a b = a sdiv b"

text \<open>
  A \<open>math.Int\<close> has at most 256 bits; an operation whose result has more panics. Where a state can
  hold amounts for which that matters, the definitions test the result.
\<close>

definition int_fits :: "int \<Rightarrow> bool" where
  "int_fits x \<longleftrightarrow> \<bar>x\<bar> < 2 ^ 256"

lemma int_fits_product:
  assumes "0 \<le> a" "a < 2 ^ n" "0 \<le> b" "b \<le> 2 ^ m" "n + m \<le> 256"
  shows "int_fits (a * b)"
proof -
  have "a * b \<le> a * 2 ^ m" using assms by (intro mult_left_mono) auto
  also have "\<dots> < 2 ^ n * 2 ^ m" using assms(2) by (intro mult_strict_right_mono) auto
  also have "\<dots> = (2 :: int) ^ (n + m)" by (simp add: power_add)
  also have "\<dots> \<le> 2 ^ 256" using assms(5) by (intro power_increasing) simp_all
  finally show ?thesis using assms(1,3) by (simp add: int_fits_def)
qed

lemma quo_nonneg [simp]: "0 \<le> a \<Longrightarrow> 0 \<le> b \<Longrightarrow> quo a b = a div b"
  by (auto simp: quo_def signed_divide_int_def sgn_if)

lemma div_mult_le_int:
  assumes "0 \<le> (a::int)" "b \<le> c" "0 < c"
  shows "a * b div c \<le> a"
proof -
  from assms have "a * b \<le> a * c" by (simp add: mult_left_mono)
  with assms have "a * b div c \<le> a * c div c" by (intro zdiv_mono1)
  with assms show ?thesis by simp
qed

section \<open>Methods that read and write the store\<close>

type_synonym ('e, 's, 'a) run = "'s \<Rightarrow> ('e + 'a) \<times> 's"

definition ret :: "'a \<Rightarrow> ('e, 's, 'a) run" where
  "ret x = (\<lambda>s. (Inr x, s))"

definition fail :: "'e \<Rightarrow> ('e, 's, 'a) run" where
  "fail e = (\<lambda>s. (Inl e, s))"

text \<open>\<open>x, err := m(); if err != nil { return err }; ... f(x)\<close>\<close>

definition bindM :: "('e, 's, 'a) run \<Rightarrow> ('a \<Rightarrow> ('e, 's, 'b) run) \<Rightarrow> ('e, 's, 'b) run" where
  "bindM m f = (\<lambda>s. case m s of (Inl e, t) \<Rightarrow> (Inl e, t) | (Inr x, t) \<Rightarrow> f x t)"

definition seqM :: "('e, 's, unit) run \<Rightarrow> ('e, 's, 'b) run \<Rightarrow> ('e, 's, 'b) run" where
  "seqM m n = bindM m (\<lambda>_. n)"

text \<open>\<open>if !b { return e }\<close>\<close>

definition check :: "bool \<Rightarrow> 'e \<Rightarrow> ('e, 's, unit) run" where
  "check b e = (if b then ret () else fail e)"

definition gets :: "('s \<Rightarrow> 'a) \<Rightarrow> ('e, 's, 'a) run" where
  "gets f = (\<lambda>s. (Inr (f s), s))"

definition modify :: "('s \<Rightarrow> 's) \<Rightarrow> ('e, 's, unit) run" where
  "modify f = (\<lambda>s. (Inr (), f s))"

text \<open>A pure result, and a lookup whose failure is the error \<open>e\<close>.\<close>

definition lift :: "'e + 'a \<Rightarrow> ('e, 's, 'a) run" where
  "lift r = (\<lambda>s. (r, s))"

definition need :: "'a option \<Rightarrow> 'e \<Rightarrow> ('e, 's, 'a) run" where
  "need v e = (case v of None \<Rightarrow> fail e | Some x \<Rightarrow> ret x)"

definition whenM :: "bool \<Rightarrow> ('e, 's, unit) run \<Rightarrow> ('e, 's, unit) run" where
  "whenM b m = (if b then m else ret ())"

text \<open>The caller looks at \<open>err\<close> and goes on; the writes made before the error stay.\<close>

definition attempt :: "('e, 's, 'a) run \<Rightarrow> ('e, 's, 'e + 'a) run" where
  "attempt m = (\<lambda>s. case m s of (r, t) \<Rightarrow> (Inr r, t))"

text \<open>A transaction: the cached context is written back on success only.\<close>

definition atomic :: "('e, 's, 'a) run \<Rightarrow> ('e, 's, 'a) run" where
  "atomic m = (\<lambda>s. case m s of (Inl e, t) \<Rightarrow> (Inl e, s) | (Inr x, t) \<Rightarrow> (Inr x, t))"

text \<open>\<open>for _, x := range xs { if err := f(x); err != nil { return err } }\<close>\<close>

primrec forM :: "'b list \<Rightarrow> ('b \<Rightarrow> ('e, 's, unit) run) \<Rightarrow> ('e, 's, unit) run" where
  "forM [] f = ret ()"
| "forM (x # xs) f = seqM (f x) (forM xs f)"

text \<open>The same loop with a variable that the body updates.\<close>

primrec foldM :: "'b list \<Rightarrow> 'a \<Rightarrow> ('b \<Rightarrow> 'a \<Rightarrow> ('e, 's, 'a) run) \<Rightarrow> ('e, 's, 'a) run" where
  "foldM [] a f = ret a"
| "foldM (x # xs) a f = bindM (f x a) (\<lambda>a'. foldM xs a' f)"

subsection \<open>Results of a run\<close>

lemma ret_run [run_simps, simp]: "ret x s = (r, t) \<longleftrightarrow> r = Inr x \<and> t = s"
  by (auto simp: ret_def)

lemma fail_run [run_simps, simp]: "fail e s = (r, t) \<longleftrightarrow> r = Inl e \<and> t = s"
  by (auto simp: fail_def)

lemma bindM_Inr [run_simps]:
  "bindM m f s = (Inr x, t) \<longleftrightarrow> (\<exists>y u. m s = (Inr y, u) \<and> f y u = (Inr x, t))"
  by (auto simp: bindM_def split: prod.splits sum.splits)

lemma bindM_Inl:
  "bindM m f s = (Inl e, t) \<longleftrightarrow>
     m s = (Inl e, t) \<or> (\<exists>y u. m s = (Inr y, u) \<and> f y u = (Inl e, t))"
  by (auto simp: bindM_def split: prod.splits sum.splits)

lemma seqM_Inr [run_simps]:
  "seqM m n s = (Inr x, t) \<longleftrightarrow> (\<exists>u. m s = (Inr (), u) \<and> n u = (Inr x, t))"
  by (simp add: seqM_def bindM_Inr)

lemma seqM_Inl:
  "seqM m n s = (Inl e, t) \<longleftrightarrow>
     m s = (Inl e, t) \<or> (\<exists>u. m s = (Inr (), u) \<and> n u = (Inl e, t))"
  by (simp add: seqM_def bindM_Inl)

lemma check_Inr [run_simps, simp]: "check b e s = (Inr u, t) \<longleftrightarrow> b \<and> t = s"
  by (auto simp: check_def)

lemma check_Inl [run_simps, simp]: "check b e s = (Inl e', t) \<longleftrightarrow> \<not> b \<and> e' = e \<and> t = s"
  by (auto simp: check_def)

lemma gets_run [run_simps, simp]: "gets f s = (r, t) \<longleftrightarrow> r = Inr (f s) \<and> t = s"
  by (auto simp: gets_def)

lemma modify_run [run_simps, simp]: "modify f s = (r, t) \<longleftrightarrow> r = Inr () \<and> t = f s"
  by (auto simp: modify_def)

lemma lift_run [run_simps, simp]: "lift r s = (r', t) \<longleftrightarrow> r' = r \<and> t = s"
  by (auto simp: lift_def)

lemma need_Inr [run_simps, simp]: "need v e s = (Inr x, t) \<longleftrightarrow> v = Some x \<and> t = s"
  by (auto simp: need_def split: option.splits)

lemma need_Inl [run_simps, simp]: "need v e s = (Inl e', t) \<longleftrightarrow> v = None \<and> e' = e \<and> t = s"
  by (auto simp: need_def split: option.splits)

lemma whenM_Inr [run_simps]:
  "whenM b m s = (Inr u, t) \<longleftrightarrow> (if b then m s = (Inr u, t) else t = s)"
  by (auto simp: whenM_def)

lemma attempt_run [run_simps]:
  "attempt m s = (r, t) \<longleftrightarrow> (\<exists>r'. m s = (r', t) \<and> r = Inr r')"
  by (auto simp: attempt_def split: prod.splits)

lemma atomic_Inr [run_simps]: "atomic m s = (Inr x, t) \<longleftrightarrow> m s = (Inr x, t)"
  by (auto simp: atomic_def split: prod.splits sum.splits)

lemma atomic_Inl: "atomic m s = (Inl e, t) \<longleftrightarrow> t = s \<and> (\<exists>u. m s = (Inl e, u))"
  by (auto simp: atomic_def split: prod.splits sum.splits)



text \<open>Forward execution: what a construct does in a given state.\<close>

lemma bindM_step: "m s = (Inr y, u) \<Longrightarrow> bindM m f s = f y u"
  by (simp add: bindM_def)

lemma bindM_stop: "m s = (Inl e, u) \<Longrightarrow> bindM m f s = (Inl e, u)"
  by (simp add: bindM_def)

lemma exec_simps:
  "bindM (ret x) f s = f x s"
  "bindM (fail e) f s = (Inl e, s)"
  "bindM (gets g) f s = f (g s) s"
  "bindM (modify h) f' s = f' () (h s)"
  "bindM (lift (Inr x)) f s = f x s"
  "bindM (lift (Inl e)) f s = (Inl e, s)"
  "bindM (need (Some x) e) f s = f x s"
  "bindM (need None e) f s = (Inl e, s)"
  "seqM (check True e) n s = n s"
  "seqM (check False e) n s = (Inl e, s)"
  "seqM (modify h) n s = n (h s)"
  "seqM (ret ()) n s = n s"
  "seqM (fail e) n s = (Inl e, s)"
  "ret x s = (Inr x, s)"
  "fail e s = (Inl e, s)"
  "modify h s = (Inr (), h s)"
  "gets g s = (Inr (g s), s)"
  by (simp_all add: bindM_def seqM_def ret_def fail_def gets_def modify_def lift_def need_def check_def)

lemmas monad_defs =
  bindM_def seqM_def ret_def fail_def gets_def modify_def lift_def need_def check_def whenM_def attempt_def atomic_def

subsection \<open>Invariants\<close>

text \<open>
  \<open>keeps I m\<close>: whatever the outcome, \<open>m\<close> leaves \<open>I\<close> true; \<open>keepsR I m\<close>: when it returns
  without an error. The rules follow the shape of the program.
\<close>

definition keeps :: "('s \<Rightarrow> bool) \<Rightarrow> ('e, 's, 'a) run \<Rightarrow> bool" where
  "keeps I m \<longleftrightarrow> (\<forall>s. I s \<longrightarrow> I (snd (m s)))"

definition keepsR :: "('s \<Rightarrow> bool) \<Rightarrow> ('e, 's, 'a) run \<Rightarrow> bool" where
  "keepsR I m \<longleftrightarrow> (\<forall>s x t. I s \<longrightarrow> m s = (Inr x, t) \<longrightarrow> I t)"

lemma keepsD: "keeps I m \<Longrightarrow> I s \<Longrightarrow> m s = (r, t) \<Longrightarrow> I t"
  by (metis keeps_def snd_conv)

lemma keepsRD: "keepsR I m \<Longrightarrow> I s \<Longrightarrow> m s = (Inr x, t) \<Longrightarrow> I t"
  by (simp add: keepsR_def)

lemma keepsI: "(\<And>s r t. I s \<Longrightarrow> m s = (r, t) \<Longrightarrow> I t) \<Longrightarrow> keeps I m"
  by (metis keeps_def prod.collapse)

lemma keepsRI: "(\<And>s x t. I s \<Longrightarrow> m s = (Inr x, t) \<Longrightarrow> I t) \<Longrightarrow> keepsR I m"
  by (simp add: keepsR_def)

lemma keeps_keepsR: "keeps I m \<Longrightarrow> keepsR I m"
  by (metis keepsD keepsRI)

lemma keepsR_bindM [keepsR_intros]: "keepsR I m \<Longrightarrow> (\<And>x. keepsR I (f x)) \<Longrightarrow> keepsR I (bindM m f)"
  by (rule keepsRI) (auto simp: bindM_Inr dest: keepsRD)

lemma keepsR_seqM [keepsR_intros]: "keepsR I m \<Longrightarrow> keepsR I n \<Longrightarrow> keepsR I (seqM m n)"
  by (simp add: seqM_def keepsR_bindM)

lemma keepsR_pure [keepsR_intros]: "keepsR I (ret y)" "keepsR I (check b e)" "keepsR I (gets g)" "keepsR I (fail e)"
  "keepsR I (lift r)" "keepsR I (need v e)"
  by (auto intro!: keepsRI)

lemma keepsR_whenM [keepsR_intros]: "(b \<Longrightarrow> keepsR I m) \<Longrightarrow> keepsR I (whenM b m)"
  by (simp add: whenM_def keepsR_pure)

lemma keepsR_forM [keepsR_intros]: "(\<And>x. keepsR I (f x)) \<Longrightarrow> keepsR I (forM xs f)"
  by (induction xs) (auto intro: keepsR_intros)

lemma keepsR_foldM [keepsR_intros]: "(\<And>x a. keepsR I (f x a)) \<Longrightarrow> keepsR I (foldM xs a f)"
  by (induction xs arbitrary: a) (auto intro: keepsR_intros)

lemma keepsR_cases [keepsR_intros]:
  "(b \<Longrightarrow> keepsR I m) \<Longrightarrow> (\<not> b \<Longrightarrow> keepsR I n) \<Longrightarrow> keepsR I (if b then m else n)"
  "(v = None \<Longrightarrow> keepsR I m) \<Longrightarrow> (\<And>x. v = Some x \<Longrightarrow> keepsR I (f x)) \<Longrightarrow> keepsR I (case v of None \<Rightarrow> m | Some x \<Rightarrow> f x)"
  "(\<And>e. r = Inl e \<Longrightarrow> keepsR I (g e)) \<Longrightarrow> (\<And>x. r = Inr x \<Longrightarrow> keepsR I (h x)) \<Longrightarrow>
    keepsR I (case r of Inl e \<Rightarrow> g e | Inr x \<Rightarrow> h x)"
  "(\<And>a b. p = (a, b) \<Longrightarrow> keepsR I (k a b)) \<Longrightarrow> keepsR I (case p of (a, b) \<Rightarrow> k a b)"
  by (auto split: option.split sum.split prod.split)

lemma keepsR_modify: "(\<And>s. I s \<Longrightarrow> I (h s)) \<Longrightarrow> keepsR I (modify h)"
  by (auto simp: keepsR_def)

lemma atomic_keeps: "keepsR I m \<Longrightarrow> keeps I (atomic m)"
  by (rule keepsI) (auto simp: atomic_def keepsR_def split: prod.splits sum.splits)

lemma keeps_ret [keeps_intros]: "keeps I (ret x)"
  and keeps_fail [keeps_intros]: "keeps I (fail e)"
  and keeps_check [keeps_intros]: "keeps I (check b e)"
  and keeps_gets [keeps_intros]: "keeps I (gets f)"
  and keeps_lift [keeps_intros]: "keeps I (lift r)"
  and keeps_need [keeps_intros]: "keeps I (need v e)"
  by (auto simp: keeps_def ret_def fail_def check_def gets_def lift_def need_def split: option.splits)

lemma keeps_modify: "(\<And>s. I s \<Longrightarrow> I (h s)) \<Longrightarrow> keeps I (modify h)"
  by (simp add: keeps_def modify_def)

lemma keeps_bindM [keeps_intros]:
  assumes "keeps I m" and "\<And>x. keeps I (f x)"
  shows "keeps I (bindM m f)"
proof (rule keepsI)
  fix s r t assume I: "I s" and run: "bindM m f s = (r, t)"
  show "I t"
  proof (cases r)
    case (Inl e)
    with run I assms show ?thesis by (auto simp: bindM_Inl dest: keepsD)
  next
    case (Inr x)
    with run I assms show ?thesis by (auto simp: bindM_Inr dest: keepsD)
  qed
qed

lemma keeps_seqM [keeps_intros]: "keeps I m \<Longrightarrow> keeps I n \<Longrightarrow> keeps I (seqM m n)"
  by (simp add: seqM_def keeps_bindM)

lemma keeps_whenM [keeps_intros]: "(b \<Longrightarrow> keeps I m) \<Longrightarrow> keeps I (whenM b m)"
  by (simp add: whenM_def keeps_ret)

lemma keeps_attempt [keeps_intros]: "keeps I m \<Longrightarrow> keeps I (attempt m)"
  by (auto simp: keeps_def attempt_def split: prod.splits)

lemma keeps_atomic [keeps_intros]: "keeps I m \<Longrightarrow> keeps I (atomic m)"
  by (auto simp: keeps_def atomic_def split: prod.splits sum.splits)

lemma keeps_forM [keeps_intros]: "(\<And>x. keeps I (f x)) \<Longrightarrow> keeps I (forM xs f)"
  by (induction xs) (auto intro: keeps_intros)

lemma keeps_foldM [keeps_intros]: "(\<And>x a. keeps I (f x a)) \<Longrightarrow> keeps I (foldM xs a f)"
  by (induction xs arbitrary: a) (auto intro: keeps_intros)

lemma keeps_if [keeps_intros]: "(b \<Longrightarrow> keeps I m) \<Longrightarrow> (\<not> b \<Longrightarrow> keeps I n) \<Longrightarrow> keeps I (if b then m else n)"
  by simp

lemma keeps_case_option [keeps_intros]:
  "(v = None \<Longrightarrow> keeps I m) \<Longrightarrow> (\<And>x. v = Some x \<Longrightarrow> keeps I (f x)) \<Longrightarrow>
   keeps I (case v of None \<Rightarrow> m | Some x \<Rightarrow> f x)"
  by (cases v) auto

lemma keeps_case_sum [keeps_intros]:
  "(\<And>e. v = Inl e \<Longrightarrow> keeps I (f e)) \<Longrightarrow> (\<And>x. v = Inr x \<Longrightarrow> keeps I (g x)) \<Longrightarrow>
   keeps I (case v of Inl e \<Rightarrow> f e | Inr x \<Rightarrow> g x)"
  by (cases v) auto

lemma keeps_case_prod [keeps_intros]:
  "(\<And>a b. v = (a, b) \<Longrightarrow> keeps I (f a b)) \<Longrightarrow> keeps I (case v of (a, b) \<Rightarrow> f a b)"
  by (cases v) auto

lemma keeps_Let [keeps_intros]: "(\<And>x. x = v \<Longrightarrow> keeps I (f x)) \<Longrightarrow> keeps I (let x = v in f x)"
  by simp

section \<open>Key-value stores\<close>

text \<open>
  A \<open>collections.Map\<close> is a finite map; \<open>Walk\<close> visits its entries in the order of the encoded
  keys, which for the codecs used here (big-endian integers, sign-flipped \<open>int64\<close>, byte strings,
  pairs and triples of these) is the order of the keys.
\<close>

abbreviation entries :: "('k::linorder, 'v) fmap \<Rightarrow> ('k \<times> 'v) list" where
  "entries \<equiv> sorted_list_of_fmap"

lemma set_entries: "(k, v) \<in> set (entries m) \<longleftrightarrow> fmlookup m k = Some v"
  by (auto simp: sorted_list_of_fmap_def fmlookup_dom_iff image_iff)

lemma distinct_entries: "distinct (map fst (entries m))"
  by (simp add: sorted_list_of_fmap_def sorted_list_of_fset.rep_eq o_def)

lemma sorted_entries: "sorted (map fst (entries m))"
  by (simp add: sorted_list_of_fmap_def sorted_list_of_fset.rep_eq o_def)

lemma fmap_of_entries [simp]: "fmap_of_list (entries m) = m"
  by (rule fmap_ext) (simp add: fmlookup_of_list)

lemma entries_empty [simp]: "entries fmempty = []"
  by (simp add: sorted_list_of_fmap_def sorted_list_of_fset.rep_eq)

text \<open>The sum of a quantity over the entries of a store.\<close>

definition kv_sum :: "('k \<Rightarrow> 'v \<Rightarrow> int) \<Rightarrow> ('k, 'v) fmap \<Rightarrow> int" where
  "kv_sum f m = (\<Sum>k \<in> fset (fmdom m). f k (the (fmlookup m k)))"

definition kv_at :: "('k \<Rightarrow> 'v \<Rightarrow> int) \<Rightarrow> ('k, 'v) fmap \<Rightarrow> 'k \<Rightarrow> int" where
  "kv_at f m k = (case fmlookup m k of None \<Rightarrow> 0 | Some v \<Rightarrow> f k v)"

lemma kv_sum_empty [simp]: "kv_sum f fmempty = 0"
  by (simp add: kv_sum_def)

lemma kv_sum_drop: "kv_sum f (fmdrop k m) = kv_sum f m - kv_at f m k"
proof (cases "fmlookup m k")
  case None
  then have "k |\<notin>| fmdom m" by (auto simp: fmlookup_dom_iff)
  then show ?thesis using None by (simp add: fmdrop_idle kv_at_def)
next
  case (Some v)
  then have k: "k \<in> fset (fmdom m)" by (auto simp: fmlookup_dom_iff)
  have "kv_sum f (fmdrop k m) = (\<Sum>x \<in> fset (fmdom m) - {k}. f x (the (fmlookup m x)))"
    unfolding kv_sum_def by (rule sum.cong) (auto simp: fmlookup_drop)
  also have "\<dots> = kv_sum f m - f k v"
    using k Some by (simp add: kv_sum_def sum_diff1)
  finally show ?thesis using Some by (simp add: kv_at_def)
qed

lemma kv_sum_upd: "kv_sum f (fmupd k v m) = kv_sum f m - kv_at f m k + f k v"
proof -
  have "kv_sum f (fmupd k v m) = kv_sum f (fmupd k v (fmdrop k m))"
    by (rule arg_cong [where f = "kv_sum f"], rule fmap_ext) simp
  also have "\<dots> = f k v + kv_sum f (fmdrop k m)"
  proof -
    have dom: "fset (fmdom (fmupd k v (fmdrop k m))) = insert k (fset (fmdom (fmdrop k m)))"
      by simp
    show ?thesis
      unfolding kv_sum_def dom by (subst sum.insert) (auto intro!: sum.cong split: if_splits)
  qed
  finally show ?thesis by (simp add: kv_sum_drop)
qed

lemma kv_sum_nonneg: "(\<And>k v. fmlookup m k = Some v \<Longrightarrow> 0 \<le> f k v) \<Longrightarrow> 0 \<le> kv_sum f m"
  unfolding kv_sum_def by (rule sum_nonneg) (auto simp: fmlookup_dom_iff)

lemma kv_sum_ge: "fmpred (\<lambda>k v. 0 \<le> f k v) m \<Longrightarrow> kv_at f m k \<le> kv_sum f m"
proof -
  assume "fmpred (\<lambda>k v. 0 \<le> f k v) m"
  then have "0 \<le> kv_sum f (fmdrop k m)"
    by (intro kv_sum_nonneg) (auto simp: fmlookup_drop fmpred_iff split: if_splits)
  then show ?thesis by (simp add: kv_sum_drop)
qed

lemma kv_sum_entries: "kv_sum f m = (\<Sum>(k, v) \<leftarrow> entries m. f k v)"
  by (simp add: kv_sum_def sorted_list_of_fmap_def sorted_list_of_fset.rep_eq o_def
      sum_list_distinct_conv_sum_set split_def)

text \<open>Loops that only write: \<open>InitGenesis\<close> puts back what \<open>ExportGenesis\<close> lists.\<close>

lemma forM_modify: "forM xs (\<lambda>x. modify (h x)) s = (Inr (), foldl (\<lambda>s x. h x s) s xs)"
  by (induction xs arbitrary: s) (simp_all add: seqM_def bindM_def modify_def ret_def)

lemma forM_modify_fun:
  "forM xs (\<lambda>x. modify (h x)) = modify (\<lambda>s. foldl (\<lambda>s x. h x s) s xs)"
  by (rule ext) (simp only: forM_modify, simp add: modify_def)

lemma foldl_fmupd:
  "distinct (map key xs) \<Longrightarrow>
   fmlookup (foldl (\<lambda>m x. fmupd (key x) (val x) m) m xs) k =
     (case map_of (map (\<lambda>x. (key x, val x)) xs) k of Some v \<Rightarrow> Some v | None \<Rightarrow> fmlookup m k)"
proof (induction xs arbitrary: m)
  case (Cons x xs)
  then have "key x = k \<Longrightarrow> map_of (map (\<lambda>x. (key x, val x)) xs) k = None"
    by (auto simp: map_of_eq_None_iff image_iff)
  with Cons show ?case by (auto split: option.splits)
qed simp

lemma restore_entries:
  assumes "\<And>k v. fmlookup m k = Some v \<Longrightarrow> key (enc (k, v)) = k \<and> val (enc (k, v)) = v"
  shows "foldl (\<lambda>m y. fmupd (key y) (val y) m) fmempty (map enc (entries m)) = m"
proof (rule fmap_ext)
  fix k
  have e: "key (enc p) = fst p" "val (enc p) = snd p" if "p \<in> set (entries m)" for p
    using that assms [of "fst p" "snd p"] set_entries [of "fst p" "snd p" m] by auto
  then have ks: "map key (map enc (entries m)) = map fst (entries m)" by simp
  have kv: "map (\<lambda>y. (key y, val y)) (map enc (entries m)) = entries m"
    using e by (auto intro!: map_idI)
  have "map_of (entries m) k = fmlookup m k"
    by (metis fmap_of_entries fmlookup_of_list)
  then show "fmlookup (foldl (\<lambda>m y. fmupd (key y) (val y) m) fmempty (map enc (entries m))) k = fmlookup m k"
    using distinct_entries [of m] by (simp only: foldl_fmupd ks kv) (simp split: option.splits)
qed

end
