(* ===== verification/ChainTypes.thy ===== *)
theory ChainTypes
  imports Prelude
begin

text \<open>
  The data of the three modules of the chain: the protobuf messages of
  \<open>chain/x/{settle,apps,council}/types/*.pb.go\<close> as records, the registered errors of
  \<open>types/errors.go\<close>, the stores of the keepers (\<open>collections\<close> maps, key sets and items) and the
  chain state that a block's \<open>sdk.Context\<close> gives access to. The modules the chain only calls
  (bank, staking, slashing, EVM, bech32, keccak) are the fields of \<open>env\<close>.
\<close>

section \<open>Addresses and coins\<close>

text \<open>\<open>sdk.AccAddress\<close> and \<open>common.Address\<close> are byte strings; denoms and bech32 texts are strings.\<close>

type_synonym addr = "byte list"
type_synonym denom = string

record coin =
  coin_Denom :: denom
  coin_Amount :: int

type_synonym coins = "(denom, int) fmap"

definition AmountOf :: "coins \<Rightarrow> denom \<Rightarrow> int" where
  "AmountOf cs d = (case fmlookup cs d of None \<Rightarrow> 0 | Some a \<Rightarrow> a)"

text \<open>\<open>sdk.NewCoins(c)\<close> drops a zero coin; \<open>Coins.Add\<close> sums per denom.\<close>

definition coins1 :: "denom \<Rightarrow> int \<Rightarrow> coins" where
  "coins1 d a = (if a = 0 then fmempty else fmupd d a fmempty)"

definition coins_add :: "coins \<Rightarrow> denom \<Rightarrow> int \<Rightarrow> coins" where
  "coins_add cs d a =
     (let n = AmountOf cs d + a in if n = 0 then fmdrop d cs else fmupd d n cs)"

lemma AmountOf_empty [simp]: "AmountOf fmempty d = 0"
  by (simp add: AmountOf_def)

lemma AmountOf_coins1 [simp]: "AmountOf (coins1 d a) d' = (if d' = d then a else 0)"
  by (simp add: AmountOf_def coins1_def)

lemma AmountOf_coins_add [simp]:
  "AmountOf (coins_add cs d a) d' = AmountOf cs d' + (if d' = d then a else 0)"
  by (simp add: AmountOf_def coins_add_def Let_def split: option.splits)

section \<open>Texts\<close>

text \<open>\<open>[]byte(s)\<close>, \<open>hex.EncodeToString\<close>, \<open>strings.HasPrefix\<close> and \<open>strings.TrimPrefix\<close>.\<close>

definition string_bytes :: "string \<Rightarrow> byte list" where
  "string_bytes s = map (\<lambda>c. of_nat (of_char c)) s"

definition hex_digit :: "nat \<Rightarrow> char" where
  "hex_digit n = ''0123456789abcdef'' ! n"

definition hex_EncodeToString :: "byte list \<Rightarrow> string" where
  "hex_EncodeToString bs = concat (map (\<lambda>b. [hex_digit (unat b div 16), hex_digit (unat b mod 16)]) bs)"

definition HasPrefix :: "string \<Rightarrow> string \<Rightarrow> bool" where
  "HasPrefix s p \<longleftrightarrow> take (length p) s = p"

definition TrimPrefix :: "string \<Rightarrow> string \<Rightarrow> string" where
  "TrimPrefix s p = (if HasPrefix s p then drop (length p) s else s)"

text \<open>Decimal texts: \<open>\%d\<close> of an unsigned integer and \<open>math.Int.String\<close>.\<close>

fun decimal :: "nat \<Rightarrow> string" where
  "decimal n = (if n < 10 then [hex_digit n] else decimal (n div 10) @ [hex_digit (n mod 10)])"

declare decimal.simps [simp del]

definition int_String :: "int \<Rightarrow> string" where
  "int_String i = (if i < 0 then CHR ''-'' # decimal (nat (- i)) else decimal (nat i))"

section \<open>EVM values\<close>

text \<open>
  A decoded argument or a value to encode: an \<open>interface{}\<close> holding one of the types of the ABI. A
  \<open>*big.Int\<close> may be nil.
\<close>

datatype abi_val =
    VAddress addr | VBig "int option" | VUint64 u64 | VUint32 u32 | VBool bool | VString string
  | VBytes32 "byte list"

text \<open>\<open>common.Address{}\<close>\<close>

definition zero_address :: addr where "zero_address = replicate 20 0"

text \<open>\<open>big.Int.BitLen\<close>\<close>

fun BitLen :: "nat \<Rightarrow> nat" where
  "BitLen n = (if n = 0 then 0 else Suc (BitLen (n div 2)))"

declare BitLen.simps [simp del]

lemma BitLen_le: "BitLen n \<le> k \<longleftrightarrow> n < 2 ^ k"
proof (induction n arbitrary: k rule: BitLen.induct)
  case (1 n)
  show ?case
  proof (cases "n = 0")
    case True
    then show ?thesis by (simp add: BitLen.simps)
  next
    case False
    then have b: "BitLen n = Suc (BitLen (n div 2))" by (simp add: BitLen.simps)
    show ?thesis
    proof (cases k)
      case 0
      with False b show ?thesis by simp
    next
      case (Suc k')
      with 1 [OF False, of k'] b show ?thesis by auto
    qed
  qed
qed

section \<open>Errors\<close>

datatype settle_err =
    SErrUnauthorized | SErrAssetNotAllowed | SErrPaused | SErrInvalidAmount | SErrInvalidRecipient
  | SErrInsufficientPool | SErrAllowance | SErrTabNotFound | SErrCreditsDisabled | SErrInvalidParams
  | SErrRelayerCap | SErrAppRevoked | SErrNothingToClaim | SErrInvariantViolation | SErrSelfPayment

datatype apps_err =
    AErrUnauthorized | AErrAppNotFound | AErrInvalidProof | AErrAlreadyBound | AErrTooManyContracts
  | AErrNotBound | AErrNoPendingMove | AErrNoPendingClaim | AErrInvalidParams | AErrInvalidField
  | AErrAppInactive | AErrMovePending | AErrNotContract | AErrNoPendingOwner | AErrBondingDisabled
  | AErrInvalidBond | AErrInsufficientBond

datatype council_err =
    CErrUnauthorized | CErrNotAdmitted | CErrRemoved | CErrInvalidPower | CErrInvalidTarget
  | CErrForeignDelegation | CErrInvalidParams | CErrProvenanceMismatch | CErrPaused
  | CErrGuardianCannotUnset

datatype precompile_err = PErrBadArgs | PErrAmountTooWide | PErrNotBankNative | PErrNeedApp
  | PErrNotEnabled | PErrReverted | PErrUnknownEvent | PErrUnknownMethod

text \<open>
  \<open>EBank\<close> and \<open>EExternal\<close> are errors of called modules, \<open>EBech32\<close> and \<open>EDenom\<close> the parse errors
  of \<open>AccAddressFromBech32\<close> and \<open>ValidateDenom\<close>, \<open>EGenesis\<close> the \<open>fmt.Errorf\<close> of genesis
  validation, \<open>EPanic\<close> a Go panic that the code can run into.
\<close>

datatype err =
    ESettle settle_err | EApps apps_err | ECouncil council_err | EPrecompile precompile_err
  | EBank nat | EExternal nat | EBech32 | EDenom | EGenesis | EPanic

section \<open>Messages of x/settle\<close>

record fee_asset =
  fa_Denom :: denom
  fa_Enabled :: bool
  fa_MinFee :: "int option"
  fa_MaxFee :: "int option"
  fa_MicroThreshold :: "int option"
  fa_TabSettleThreshold :: "int option"
  fa_QuotaWeight :: "int option"
  fa_CreditPrice :: "int option"
  fa_Symbol :: string
  fa_Decimals :: u32

record split_bps =
  sp_AppBps :: u32
  sp_ValidatorBps :: u32
  sp_RelayerBps :: u32
  sp_TreasuryBps :: u32

record settle_params =
  sp_FeeBps :: u32
  sp_Split :: split_bps
  sp_Assets :: "fee_asset list"
  sp_TreasuryAdmin :: string
  sp_RelayerAdmin :: string
  sp_RelayerRecipients :: "string list"
  sp_RelayerPayoutCap :: coins
  sp_SponsoredSenders :: "string list"
  sp_SponsoredLaneMaxBps :: u32
  sp_ValidatorPayoutIntervalBlocks :: int
  sp_CreditsEnabled :: bool
  sp_MaxTabAgeBlocks :: int
  sp_GasBurnBps :: u32

record tab =
  tab_AppId :: u64
  tab_Payer :: string
  tab_Payee :: string
  tab_Denom :: denom
  tab_Amount :: int
  tab_OpenedHeight :: int
  tab_Entries :: u64

record totals =
  tot_Denom :: denom
  tot_Volume :: int
  tot_Fees :: int
  tot_Payments :: u64

section \<open>Messages of x/apps\<close>

datatype app_status =
    APP_STATUS_UNSPECIFIED | APP_STATUS_ACTIVE | APP_STATUS_PAUSED | APP_STATUS_REVOKED

datatype proof_type =
    PROOF_TYPE_UNSPECIFIED | PROOF_TYPE_DEPLOYER_CREATE | PROOF_TYPE_DEPLOYER_CREATE2
  | PROOF_TYPE_OWNABLE | PROOF_TYPE_SELF_CLAIM

record apps_params =
  ap_RegistrationFee :: coin
  ap_MaxContractsPerApp :: u32
  ap_ContractMoveDelayBlocks :: int
  ap_EpochLengthBlocks :: int
  ap_MaxGasPerEpoch :: u64
  ap_DiversityTarget :: u32
  ap_MaxReferrerBps :: u32
  ap_BondDenom :: denom
  ap_GasPerBondedUnit :: u64
  ap_UnbondingBlocks :: int

record contract_binding =
  cb_Contract :: string
  cb_AppId :: u64
  cb_ProofType :: proof_type
  cb_AddedHeight :: int
  cb_Version :: u32

record app =
  app_AppId :: u64
  app_Owner :: string
  app_PendingOwner :: string
  app_RevenueRecipient :: string
  app_MetadataUri :: string
  app_Domain :: string
  app_ReferrerBps :: u32
  app_Status :: app_status
  app_Version :: u32
  app_CreatedHeight :: int
  app_ContractCount :: u32

record pending_move =
  pm_Contract :: string
  pm_FromAppId :: u64
  pm_ToAppId :: u64
  pm_ProofType :: proof_type
  pm_UnlockHeight :: int

record pending_claim =
  pc_Contract :: string
  pc_AppId :: u64
  pc_ClaimedHeight :: int

record epoch_stats =
  es_AppId :: u64
  es_Epoch :: u64
  es_FeeWeight :: int
  es_Payments :: u64
  es_Hll :: "byte list"

record quota =
  q_AppId :: u64
  q_Epoch :: u64
  q_Gas :: u64
  q_UniquePayersEstimate :: u64
  q_DiversityBps :: u32

record ownership_proof =
  pr_Type :: proof_type
  pr_Nonce :: u64
  pr_Salt :: string
  pr_InitCodeHash :: string

section \<open>Messages of x/council\<close>

record council_params =
  cp_Guardians :: "string list"
  cp_GuardianPauseMaxBlocks :: u64
  cp_MaxPowerPerValidator :: "int option"

record admission =
  ad_Operator :: string
  ad_PowerGranted :: "int option"
  ad_AdmittedHeight :: int
  ad_Removed :: bool
  ad_Memo :: string

record pause =
  pa_Target :: string
  pa_SetBy :: string
  pa_SetHeight :: int
  pa_ExpiresHeight :: int
  pa_Reason :: string

record provenance =
  pv_Fingerprint :: string
  pv_Seal :: string
  pv_Owner :: string
  pv_Notice :: string

section \<open>Events\<close>

text \<open>One constructor per \<open>sdk.NewEvent\<close>, with its attributes before they are rendered as text.\<close>

record settled =
  ev_AppId :: u64
  ev_Payer :: addr
  ev_Payee :: addr
  ev_Denom :: denom
  ev_Amount :: int
  ev_Fee :: int
  ev_Net :: int
  ev_AppShare :: int
  ev_Referrer :: addr
  ev_ReferrerShare :: int
  ev_ValidatorShare :: int
  ev_RelayerShare :: int
  ev_TreasuryShare :: int

datatype event =
    EvSettled settled
  | EvAppApproval addr u64 denom int
  | EvTabDeposit u64 addr addr denom int int
  | EvTabClosed u64 string string denom int u64
  | EvRevenueClaimed u64 addr coins
  | EvCreditsBought addr addr coin coin
  | EvTreasuryWithdrawn string addr coins
  | EvRelayerDisbursed string addr coin coin
  | EvGasBurned denom int
  | EvValidatorPayout denom int nat
  | EvInvariantBroken string
  | EvAdmitValidator addr int int
  | EvRemoveValidator addr string
  | EvPauseExpired string
  | EvUnpause string
  | EvPause string string string
  | EvAppRegistered u64 string string
  | EvAppUpdated u64
  | EvOwnershipTransferred u64 string string
  | EvMoveScheduled string u64 u64 int
  | EvContractBound string u64 proof_type
  | EvMoveDropped string u64
  | EvStatusChanged u64 app_status
  | EvBonded u64 coin int u64
  | EvUnbonding u64 string coin int
  | EvUnbonded u64 string denom int
  | EvEpochRollover u64

section \<open>Stores\<close>

record council_store =
  c_Params :: "council_params option"
  Admissions :: "(string, admission) fmap"
  Pauses :: "(string, pause) fmap"
  ProvenanceItem :: "provenance option"

record apps_store =
  a_Params :: "apps_params option"
  NextAppID :: u64
  Apps :: "(u64, app) fmap"
  Bindings :: "(string, contract_binding) fmap"
  AppContracts :: "(u64 \<times> string) fset"
  PendingMoves :: "(string, pending_move) fmap"
  MovesByUnlock :: "(int \<times> string) fset"
  PendingClaims :: "(u64 \<times> string, pending_claim) fmap"
  EpochStats :: "(u64 \<times> u64, epoch_stats) fmap"
  Quotas :: "(u64, quota) fmap"
  Bonds :: "(u64, int) fmap"
  Unbondings :: "(int \<times> u64 \<times> string, int) fmap"
  EpochNumber :: "u64 option"
  EpochStart :: "int option"

record settle_store =
  s_Params :: "settle_params option"
  Claimables :: "(u64 \<times> denom, int) fmap"
  Pools :: "(string \<times> denom, int) fmap"
  Tabs :: "(string, tab) fmap"
  Allowances :: "(string \<times> u64 \<times> denom, int) fmap"
  Totals :: "(denom, totals) fmap"
  CreditsMinted :: "int option"
  GenesisCreditSupply :: "int option"
  LedgerTotal :: "(denom, int) fmap"
  RelayerPaid :: "(denom, int) fmap"
  LastPayout :: "int option"

text \<open>
  The chain state of one block: \<open>ext\<close> is the state of the modules that are not modelled, of a
  type the development never fixes.
\<close>

record 'x chain =
  ext :: 'x
  height :: int
  chain_id :: string
  council :: council_store
  apps :: apps_store
  settle :: settle_store
  events :: "event list"

type_synonym ('x, 'a) call = "(err, 'x chain, 'a) run"

section \<open>The modules the chain calls\<close>

text \<open>A staking validator as the code reads it: \<open>GetConsensusPower\<close> at the chain's power
  reduction, \<open>GetConsAddr\<close> (\<open>None\<close> for an error), \<open>GetOperator\<close>, \<open>IsJailed\<close>.\<close>

record validator =
  v_Power :: int
  v_ConsAddr :: "addr option"
  v_Operator :: string
  v_Jailed :: bool

record 'x env =
  \<comment> \<open>keeper wiring: governance authority, gas-credit denom, module accounts (\<open>[]\<close>: no such module)\<close>
  authority :: string
  creditDenom :: denom
  ModuleAddress :: "string \<Rightarrow> addr"
  \<comment> \<open>bank\<close>
  BlockedAddr :: "addr \<Rightarrow> bool"
  BankA2M :: "addr \<Rightarrow> string \<Rightarrow> coins \<Rightarrow> 'x \<Rightarrow> nat + 'x"
  BankM2A :: "string \<Rightarrow> addr \<Rightarrow> coins \<Rightarrow> 'x \<Rightarrow> nat + 'x"
  BankM2M :: "string \<Rightarrow> string \<Rightarrow> coins \<Rightarrow> 'x \<Rightarrow> nat + 'x"
  BankMint :: "string \<Rightarrow> coins \<Rightarrow> 'x \<Rightarrow> nat + 'x"
  BankBurn :: "string \<Rightarrow> coins \<Rightarrow> 'x \<Rightarrow> nat + 'x"
  BankBalance :: "'x \<Rightarrow> addr \<Rightarrow> denom \<Rightarrow> int"
  BankSupply :: "'x \<Rightarrow> denom \<Rightarrow> int"
  \<comment> \<open>texts: bech32, denoms, hexadecimal addresses\<close>
  AccFromBech32 :: "string \<Rightarrow> addr option"
  AccString :: "addr \<Rightarrow> string"
  ValFromBech32 :: "string \<Rightarrow> addr option"
  ValidDenom :: "denom \<Rightarrow> bool"
  NewIntFromString :: "string \<Rightarrow> int option"
  IsHexAddress :: "string \<Rightarrow> bool"
  HexToAddress :: "string \<Rightarrow> addr"
  AddressHex :: "addr \<Rightarrow> string"
  FromHex :: "string \<Rightarrow> byte list"
  BytesToAddress :: "byte list \<Rightarrow> addr"
  \<comment> \<open>staking and slashing\<close>
  BondedValidators :: "'x \<Rightarrow> nat + validator list"
  GetValidator :: "'x \<Rightarrow> addr \<Rightarrow> validator option"
  SignedBlocksWindow :: "'x \<Rightarrow> nat + int"
  MissedBlocks :: "'x \<Rightarrow> addr \<Rightarrow> int option"
  JailVal :: "addr \<Rightarrow> 'x \<Rightarrow> nat + 'x"
  TombstoneVal :: "addr \<Rightarrow> 'x \<Rightarrow> nat + 'x"
  IsTombstoned :: "'x \<Rightarrow> addr \<Rightarrow> bool"
  HasSigningInfo :: "'x \<Rightarrow> addr \<Rightarrow> bool"
  \<comment> \<open>EVM, keccak and SHA-256\<close>
  IsContract :: "'x \<Rightarrow> addr \<Rightarrow> bool"
  GetModuleAccount :: "string \<Rightarrow> 'x \<Rightarrow> addr \<times> 'x"
  CallOwner :: "'x \<Rightarrow> addr \<Rightarrow> addr \<Rightarrow> nat + byte list"
  CreateAddress :: "addr \<Rightarrow> u64 \<Rightarrow> addr"
  CreateAddress2 :: "addr \<Rightarrow> byte list \<Rightarrow> byte list \<Rightarrow> addr"
  Sha256 :: "byte list \<Rightarrow> byte list"

text \<open>Calls into the bank: an error of the bank is an error of the caller.\<close>

definition callx :: "('x \<Rightarrow> nat + 'x) \<Rightarrow> ('x, unit) call" where
  "callx f = (\<lambda>s. case f (ext s) of Inl e \<Rightarrow> (Inl (EBank e), s) | Inr x \<Rightarrow> (Inr (), s\<lparr>ext := x\<rparr>))"

abbreviation SendCoinsFromAccountToModule :: "'x env \<Rightarrow> addr \<Rightarrow> string \<Rightarrow> coins \<Rightarrow> ('x, unit) call" where
  "SendCoinsFromAccountToModule E from m cs \<equiv> callx (BankA2M E from m cs)"

abbreviation SendCoinsFromModuleToAccount :: "'x env \<Rightarrow> string \<Rightarrow> addr \<Rightarrow> coins \<Rightarrow> ('x, unit) call" where
  "SendCoinsFromModuleToAccount E m to cs \<equiv> callx (BankM2A E m to cs)"

abbreviation SendCoinsFromModuleToModule :: "'x env \<Rightarrow> string \<Rightarrow> string \<Rightarrow> coins \<Rightarrow> ('x, unit) call" where
  "SendCoinsFromModuleToModule E m m' cs \<equiv> callx (BankM2M E m m' cs)"

abbreviation MintCoins :: "'x env \<Rightarrow> string \<Rightarrow> coins \<Rightarrow> ('x, unit) call" where
  "MintCoins E m cs \<equiv> callx (BankMint E m cs)"

abbreviation BurnCoins :: "'x env \<Rightarrow> string \<Rightarrow> coins \<Rightarrow> ('x, unit) call" where
  "BurnCoins E m cs \<equiv> callx (BankBurn E m cs)"

definition emit :: "event \<Rightarrow> ('x, unit) call" where
  "emit e = modify (\<lambda>s. s\<lparr>events := events s @ [e]\<rparr>)"

definition AccAddressFromBech32 :: "'x env \<Rightarrow> string \<Rightarrow> ('x, addr) call" where
  "AccAddressFromBech32 E a = need (AccFromBech32 E a) EBech32"

lemma callx_Inr [run_simps]: "callx f s = (Inr u, t) \<longleftrightarrow> (\<exists>x. f (ext s) = Inr x \<and> t = s\<lparr>ext := x\<rparr>)"
  by (auto simp: callx_def split: sum.splits)

lemma callx_Inl: "callx f s = (Inl e, t) \<longleftrightarrow> (\<exists>n. f (ext s) = Inl n \<and> e = EBank n \<and> t = s)"
  by (auto simp: callx_def split: sum.splits)

lemma emit_run [run_simps, simp]: "emit e s = (r, t) \<longleftrightarrow> r = Inr () \<and> t = s\<lparr>events := events s @ [e]\<rparr>"
  by (simp add: emit_def)

lemma AccAddressFromBech32_Inr [run_simps, simp]:
  "AccAddressFromBech32 E a s = (Inr x, t) \<longleftrightarrow> AccFromBech32 E a = Some x \<and> t = s"
  by (simp add: AccAddressFromBech32_def)

lemma AccAddressFromBech32_Inl [simp]:
  "AccAddressFromBech32 E a s = (Inl e, t) \<longleftrightarrow> AccFromBech32 E a = None \<and> e = EBech32 \<and> t = s"
  by (simp add: AccAddressFromBech32_def)

lemma keeps_callx: "(\<And>s x. I s \<Longrightarrow> f (ext s) = Inr x \<Longrightarrow> I (s\<lparr>ext := x\<rparr>)) \<Longrightarrow> keeps I (callx f)"
  by (rule keepsI) (auto simp: callx_def split: sum.splits)

lemma keeps_emit: "(\<And>s. I (s\<lparr>events := events s @ [e]\<rparr>) = I s) \<Longrightarrow> keeps I (emit e)"
  by (simp add: emit_def keeps_modify)

lemma keepsR_callx: "(\<And>s x. I s \<Longrightarrow> f (ext s) = Inr x \<Longrightarrow> I (s\<lparr>ext := x\<rparr>)) \<Longrightarrow> keepsR I (callx f)"
  by (rule keepsRI) (auto simp: callx_Inr)

lemma keepsR_bech32 [keepsR_intros]: "keepsR I (AccAddressFromBech32 E a)"
  by (simp add: AccAddressFromBech32_def keepsR_pure)

lemma keeps_bech32 [keeps_intros]: "keeps I (AccAddressFromBech32 E a)"
  by (simp add: AccAddressFromBech32_def keeps_need)

subsection \<open>What the chain relies on\<close>

text \<open>
  The documented behaviour of the bank: a transfer that succeeds moves exactly the coins it is
  given, a send to an account never reaches a blocked address, minting and burning change the
  supply and the module's balance by the amount, and balances and supply are not negative.
  \<open>move m from to cs\<close> is the change of a balance; a self-transfer changes nothing.
\<close>

definition moved :: "addr \<Rightarrow> addr \<Rightarrow> coins \<Rightarrow> addr \<Rightarrow> denom \<Rightarrow> int" where
  "moved from to cs a d =
     (if a = to then AmountOf cs d else 0) - (if a = from then AmountOf cs d else 0)"

definition bank_laws :: "'x env \<Rightarrow> bool" where
  "bank_laws E \<longleftrightarrow>
     (\<forall>from m cs x x'. BankA2M E from m cs x = Inr x' \<longrightarrow>
        (\<forall>a d. BankBalance E x' a d = BankBalance E x a d + moved from (ModuleAddress E m) cs a d) \<and>
        (\<forall>d. BankSupply E x' d = BankSupply E x d)) \<and>
     (\<forall>m to cs x x'. BankM2A E m to cs x = Inr x' \<longrightarrow>
        \<not> BlockedAddr E to \<and>
        (\<forall>a d. BankBalance E x' a d = BankBalance E x a d + moved (ModuleAddress E m) to cs a d) \<and>
        (\<forall>d. BankSupply E x' d = BankSupply E x d)) \<and>
     (\<forall>m m' cs x x'. BankM2M E m m' cs x = Inr x' \<longrightarrow>
        (\<forall>a d. BankBalance E x' a d =
           BankBalance E x a d + moved (ModuleAddress E m) (ModuleAddress E m') cs a d) \<and>
        (\<forall>d. BankSupply E x' d = BankSupply E x d)) \<and>
     (\<forall>m cs x x'. BankMint E m cs x = Inr x' \<longrightarrow>
        (\<forall>a d. BankBalance E x' a d =
           BankBalance E x a d + (if a = ModuleAddress E m then AmountOf cs d else 0)) \<and>
        (\<forall>d. BankSupply E x' d = BankSupply E x d + AmountOf cs d)) \<and>
     (\<forall>m cs x x'. BankBurn E m cs x = Inr x' \<longrightarrow>
        (\<forall>a d. BankBalance E x' a d =
           BankBalance E x a d - (if a = ModuleAddress E m then AmountOf cs d else 0)) \<and>
        (\<forall>d. BankSupply E x' d = BankSupply E x d - AmountOf cs d))"

text \<open>
  Addresses and their texts: an account is an address whose text parses back to it; a text that
  parses names an account and does not contain the separator of the tab keys.
\<close>

definition is_account :: "'x env \<Rightarrow> addr \<Rightarrow> bool" where
  "is_account E a \<longleftrightarrow> AccFromBech32 E (AccString E a) = Some a"

definition text_laws :: "'x env \<Rightarrow> bool" where
  "text_laws E \<longleftrightarrow> (\<forall>t a. AccFromBech32 E t = Some a \<longrightarrow> CHR ''|'' \<notin> set t \<and> is_account E a)"

lemma account_text: "text_laws E \<Longrightarrow> is_account E a \<Longrightarrow> CHR ''|'' \<notin> set (AccString E a)"
  unfolding text_laws_def is_account_def by blast

lemma parsed_account: "text_laws E \<Longrightarrow> AccFromBech32 E t = Some a \<Longrightarrow> is_account E a"
  unfolding text_laws_def by blast

lemma account_eq: "is_account E a \<Longrightarrow> is_account E b \<Longrightarrow> AccString E a = AccString E b \<longleftrightarrow> a = b"
  by (metis is_account_def option.inject)

lemma bank_A2M:
  assumes "bank_laws E" "BankA2M E from m cs x = Inr x'"
  shows "BankBalance E x' a d = BankBalance E x a d + moved from (ModuleAddress E m) cs a d"
    and "BankSupply E x' d = BankSupply E x d"
  using assms by (simp_all add: bank_laws_def)

lemma bank_M2A:
  assumes "bank_laws E" "BankM2A E m to cs x = Inr x'"
  shows "\<not> BlockedAddr E to"
    and "BankBalance E x' a d = BankBalance E x a d + moved (ModuleAddress E m) to cs a d"
    and "BankSupply E x' d = BankSupply E x d"
  using assms by (simp_all add: bank_laws_def)

lemma bank_M2M:
  assumes "bank_laws E" "BankM2M E m m' cs x = Inr x'"
  shows "BankBalance E x' a d =
      BankBalance E x a d + moved (ModuleAddress E m) (ModuleAddress E m') cs a d"
    and "BankSupply E x' d = BankSupply E x d"
  using assms by (simp_all add: bank_laws_def)

lemma bank_Mint:
  assumes "bank_laws E" "BankMint E m cs x = Inr x'"
  shows "BankBalance E x' a d =
      BankBalance E x a d + (if a = ModuleAddress E m then AmountOf cs d else 0)"
    and "BankSupply E x' d = BankSupply E x d + AmountOf cs d"
  using assms by (simp_all add: bank_laws_def)

lemma bank_Burn:
  assumes "bank_laws E" "BankBurn E m cs x = Inr x'"
  shows "BankBalance E x' a d =
      BankBalance E x a d - (if a = ModuleAddress E m then AmountOf cs d else 0)"
    and "BankSupply E x' d = BankSupply E x d - AmountOf cs d"
  using assms by (simp_all add: bank_laws_def)

end
