(* ===== verification/RefEnv.thy ===== *)
theory RefEnv
  imports ChainTypes
begin

text \<open>
  One concrete environment: a bank that keeps its balances in a function, texts that are their
  own addresses, and small answers of staking, slashing and the EVM. The concrete runs that show
  the properties apply use it; no property is about it.
\<close>

record ref_ext =
  x_bal :: "addr \<Rightarrow> denom \<Rightarrow> nat"
  x_sup :: "denom \<Rightarrow> int"
  x_vals :: "validator list"
  x_jailed :: "addr list"
  x_tomb :: "addr list"

definition addr_text :: "addr \<Rightarrow> string" where
  "addr_text a = map (\<lambda>b. char_of (unat b)) a"

definition ref_module :: "string \<Rightarrow> addr" where
  "ref_module m = string_bytes (CHR ''!'' # m)"

definition ref_move :: "addr \<Rightarrow> addr \<Rightarrow> coins \<Rightarrow> ref_ext \<Rightarrow> nat + ref_ext" where
  "ref_move from to cs x =
     (if list_all (\<lambda>(d, a). 0 \<le> a \<and> a \<le> int (x_bal x from d)) (entries cs)
      then Inr (x\<lparr>x_bal := \<lambda>a d. nat (int (x_bal x a d) + moved from to cs a d)\<rparr>)
      else Inl 5)"

definition ref_change :: "addr \<Rightarrow> int \<Rightarrow> coins \<Rightarrow> ref_ext \<Rightarrow> nat + ref_ext" where
  "ref_change m sign cs x =
     (if list_all (\<lambda>(d, a). 0 \<le> a \<and> 0 \<le> int (x_bal x m d) + sign * a) (entries cs)
      then Inr (x\<lparr>x_bal := \<lambda>a d. nat (int (x_bal x a d) + (if a = m then sign * AmountOf cs d else 0)),
                  x_sup := \<lambda>d. x_sup x d + sign * AmountOf cs d\<rparr>)
      else Inl 5)"

definition ref_int :: "string \<Rightarrow> int option" where
  "ref_int s =
     (if s \<noteq> [] \<and> list_all (\<lambda>c. CHR ''0'' \<le> c \<and> c \<le> CHR ''9'') s
      then Some (foldl (\<lambda>n c. 10 * n + int (of_char c - of_char (CHR ''0''))) 0 s) else None)"

definition ref_env :: "ref_ext env" where
  "ref_env =
     \<lparr>authority = ''gov'', creditDenom = ''acredit'', ModuleAddress = ref_module,
      BlockedAddr = (\<lambda>a. take 1 a = [33]),
      BankA2M = (\<lambda>from m cs. ref_move from (ref_module m) cs),
      BankM2A = (\<lambda>m to cs x. if take 1 to = [33] then Inl 4 else ref_move (ref_module m) to cs x),
      BankM2M = (\<lambda>m m' cs. ref_move (ref_module m) (ref_module m') cs),
      BankMint = (\<lambda>m. ref_change (ref_module m) 1),
      BankBurn = (\<lambda>m. ref_change (ref_module m) (- 1)),
      BankBalance = (\<lambda>x a d. int (x_bal x a d)), BankSupply = x_sup,
      AccFromBech32 = (\<lambda>s. if s = [] \<or> CHR ''|'' \<in> set s then None else Some (string_bytes s)),
      AccString = addr_text,
      ValFromBech32 = (\<lambda>s. if s = [] then None else Some (string_bytes s)),
      ValidDenom = (\<lambda>d. 3 \<le> length d),
      NewIntFromString = ref_int,
      IsHexAddress = (\<lambda>s. take 2 s = ''0x''),
      HexToAddress = string_bytes, AddressHex = addr_text, FromHex = string_bytes, BytesToAddress = (\<lambda>b. b),
      BondedValidators = (\<lambda>x. Inr (x_vals x)),
      GetValidator = (\<lambda>x a. List.find (\<lambda>v. string_bytes (v_Operator v) = a) (x_vals x)),
      SignedBlocksWindow = (\<lambda>x. Inr 100), MissedBlocks = (\<lambda>x a. Some 0),
      JailVal = (\<lambda>a x. Inr (x\<lparr>x_jailed := a # x_jailed x\<rparr>)),
      TombstoneVal = (\<lambda>a x. Inr (x\<lparr>x_tomb := a # x_tomb x\<rparr>)),
      IsTombstoned = (\<lambda>x a. a \<in> set (x_tomb x)), HasSigningInfo = (\<lambda>x a. True),
      IsContract = (\<lambda>x a. True),
      GetModuleAccount = (\<lambda>m x. (ref_module m, x)),
      CallOwner = (\<lambda>x from c. Inr (replicate 12 0 @ c)),
      CreateAddress = (\<lambda>a n. a @ [ucast n]),
      CreateAddress2 = (\<lambda>a salt h. a @ salt @ h),
      Sha256 = (\<lambda>bs. rev bs)\<rparr>"

section \<open>Running it\<close>

text \<open>
  How the environment answers, for \<open>simp\<close>: addresses are texts, so two addresses are compared as
  texts.
\<close>

named_theorems ref_run "answers of the concrete environment"

lemma char_byte [simp]: "unat (of_nat (of_char c) :: byte) = of_char c"
  by (simp add: unat_of_nat take_bit_nat_eq_self)

lemma string_bytes_inj [simp]: "string_bytes s = string_bytes t \<longleftrightarrow> s = t"
proof -
  have "inj (\<lambda>c. of_nat (of_char c) :: byte)"
  proof (rule injI)
    fix c d :: char assume "(of_nat (of_char c) :: byte) = of_nat (of_char d)"
    then have "(of_char c :: nat) = of_char d" using char_byte by metis
    then show "c = d" by simp
  qed
  then show ?thesis by (simp add: string_bytes_def inj_map_eq_map)
qed

lemma addr_text_bytes [simp]: "addr_text (string_bytes s) = s"
  by (simp add: addr_text_def string_bytes_def o_def)

lemma entries_coins1 [ref_run]: "entries (coins1 d a) = (if a = 0 then [] else [(d, a)])"
  by (simp add: coins1_def sorted_list_of_fmap_def sorted_list_of_fset.rep_eq)

lemma bang_prefix [ref_run]: "take (Suc 0) (string_bytes (c # s)) = [33] \<longleftrightarrow> c = CHR ''!''"
proof -
  have "string_bytes [c] = string_bytes ''!'' \<longleftrightarrow> c = CHR ''!''" by simp
  then show ?thesis by (simp add: string_bytes_def)
qed

lemma ref_answers [ref_run]:
  "authority ref_env = ''gov''" "creditDenom ref_env = ''acredit''" "ModuleAddress ref_env m = string_bytes (CHR ''!'' # m)"
  "BlockedAddr ref_env a \<longleftrightarrow> take 1 a = [33]"
  "BankA2M ref_env from m cs = ref_move from (string_bytes (CHR ''!'' # m)) cs"
  "BankM2A ref_env m to cs x = (if take 1 to = [33] then Inl 4 else ref_move (string_bytes (CHR ''!'' # m)) to cs x)"
  "BankM2M ref_env m m' cs = ref_move (string_bytes (CHR ''!'' # m)) (string_bytes (CHR ''!'' # m')) cs"
  "BankMint ref_env m = ref_change (string_bytes (CHR ''!'' # m)) 1"
  "BankBurn ref_env m = ref_change (string_bytes (CHR ''!'' # m)) (- 1)"
  "BankBalance ref_env x a d = int (x_bal x a d)" "BankSupply ref_env = x_sup"
  "AccFromBech32 ref_env t = (if t = [] \<or> CHR ''|'' \<in> set t then None else Some (string_bytes t))" "AccString ref_env = addr_text"
  "ValidDenom ref_env d \<longleftrightarrow> 3 \<le> length d" "IsHexAddress ref_env t \<longleftrightarrow> take 2 t = ''0x''"
  "HexToAddress ref_env = string_bytes" "AddressHex ref_env = addr_text" "BytesToAddress ref_env b = b"
  by (simp_all add: ref_env_def ref_module_def)

lemma ref_move1 [ref_run]:
  "ref_move from to (coins1 d n) x =
     (if n = 0 \<or> 0 \<le> n \<and> n \<le> int (x_bal x from d)
      then Inr (x\<lparr>x_bal := \<lambda>a d'. nat (int (x_bal x a d') + moved from to (coins1 d n) a d')\<rparr>) else Inl 5)"
  by (simp add: ref_move_def entries_coins1)

lemma ref_change1 [ref_run]:
  "ref_change m sign (coins1 d n) x =
     (if n = 0 \<or> 0 \<le> n \<and> 0 \<le> int (x_bal x m d) + sign * n
      then Inr (x\<lparr>x_bal := \<lambda>a d'. nat (int (x_bal x a d') + (if a = m then sign * AmountOf (coins1 d n) d' else 0)),
                  x_sup := \<lambda>d'. x_sup x d' + sign * AmountOf (coins1 d n) d'\<rparr>)
      else Inl 5)"
  by (cases x) (auto simp: ref_change_def entries_coins1 fun_eq_iff)

lemma ref_text_laws: "text_laws ref_env"
  by (auto simp: text_laws_def is_account_def ref_run split: if_splits)

section \<open>It is a bank\<close>

lemma ref_amounts:
  "list_all (\<lambda>(d, a). P d a) (entries cs) \<Longrightarrow> P d 0 \<Longrightarrow> P d (AmountOf cs d)"
  by (auto simp: list_all_iff AmountOf_def set_entries split: option.splits)

lemma ref_move_balance:
  assumes "ref_move from to cs x = Inr x'"
  shows "int (x_bal x' a d) = int (x_bal x a d) + moved from to cs a d" "x_sup x' = x_sup x"
proof -
  from assms have ok: "list_all (\<lambda>(d, a). 0 \<le> a \<and> a \<le> int (x_bal x from d)) (entries cs)"
    and x': "x' = x\<lparr>x_bal := \<lambda>a d. nat (int (x_bal x a d) + moved from to cs a d)\<rparr>"
    by (auto simp: ref_move_def split: if_splits)
  have "0 \<le> AmountOf cs d \<and> AmountOf cs d \<le> int (x_bal x from d)" using ref_amounts [OF ok, of d] by simp
  then show "int (x_bal x' a d) = int (x_bal x a d) + moved from to cs a d" by (simp add: x' moved_def)
  show "x_sup x' = x_sup x" by (simp add: x')
qed

lemma ref_change_balance:
  assumes "ref_change m sign cs x = Inr x'"
  shows "int (x_bal x' a d) = int (x_bal x a d) + (if a = m then sign * AmountOf cs d else 0)"
    "x_sup x' d = x_sup x d + sign * AmountOf cs d"
proof -
  from assms have ok: "list_all (\<lambda>(d, a). 0 \<le> a \<and> 0 \<le> int (x_bal x m d) + sign * a) (entries cs)"
    and x': "x' = x\<lparr>x_bal := \<lambda>a d. nat (int (x_bal x a d) + (if a = m then sign * AmountOf cs d else 0)),
                  x_sup := \<lambda>d. x_sup x d + sign * AmountOf cs d\<rparr>"
    by (auto simp: ref_change_def split: if_splits)
  have "0 \<le> int (x_bal x m d) + sign * AmountOf cs d" using ref_amounts [OF ok, of d] by simp
  then show "int (x_bal x' a d) = int (x_bal x a d) + (if a = m then sign * AmountOf cs d else 0)" by (simp add: x')
  show "x_sup x' d = x_sup x d + sign * AmountOf cs d" by (simp add: x')
qed

lemma ref_bank_laws: "bank_laws ref_env"
  by (auto simp: bank_laws_def ref_env_def ref_move_balance ref_change_balance split: if_splits)

definition ref_genesis :: "(addr \<times> denom \<times> int) list \<Rightarrow> ref_ext" where
  "ref_genesis bs =
     \<lparr>x_bal = (\<lambda>a d. nat (\<Sum>(a', d', n) \<leftarrow> bs. if a' = a \<and> d' = d then n else 0)),
      x_sup = (\<lambda>d. (\<Sum>(a', d', n) \<leftarrow> bs. if d' = d then n else 0)),
      x_vals = [], x_jailed = [], x_tomb = []\<rparr>"

definition ref_chain :: "ref_ext \<Rightarrow> ref_ext chain" where
  "ref_chain x =
     \<lparr>ext = x, height = 100, chain_id = ''vaporchain-1'',
      council = \<lparr>c_Params = None, Admissions = fmempty, Pauses = fmempty, ProvenanceItem = None\<rparr>,
      apps = \<lparr>a_Params = None, NextAppID = 0, Apps = fmempty, Bindings = fmempty, AppContracts = {||},
        PendingMoves = fmempty, MovesByUnlock = {||}, PendingClaims = fmempty, EpochStats = fmempty,
        Quotas = fmempty, Bonds = fmempty, Unbondings = fmempty, EpochNumber = None, EpochStart = None\<rparr>,
      settle = \<lparr>s_Params = None, Claimables = fmempty, Pools = fmempty, Tabs = fmempty,
        Allowances = fmempty, Totals = fmempty, CreditsMinted = None, GenesisCreditSupply = None,
        LedgerTotal = fmempty, RelayerPaid = fmempty, LastPayout = None\<rparr>,
      events = []\<rparr>"

end
