(* ===== verification/Fees.thy ===== *)
theory Fees
  imports RefEnv
begin

text \<open>
  The settlement fee and its division: \<open>chain/x/settle/types/fees.go\<close>, the validation of the
  module's parameters (\<open>params.go\<close>), and what they promise about every amount.
\<close>

section \<open>Fee formula\<close>

definition MaxBps :: int where "MaxBps = 10000"

definition MaxFeeBps :: u32 where "MaxFeeBps = 1000"

definition MaxSponsoredLaneBps :: u32 where "MaxSponsoredLaneBps = 9000"

text \<open>
  \<open>ComputeFee\<close>: the three assignments to \<open>fee\<close> after the percentage, in order. A nil \<open>math.Int\<close>
  switches a rule off.
\<close>

definition fee_floor :: "int \<Rightarrow> fee_asset \<Rightarrow> int \<Rightarrow> int" where
  "fee_floor amount asset fee =
     (case fa_MicroThreshold asset of
        None \<Rightarrow> fee
      | Some thr \<Rightarrow>
          if thr \<le> amount
          then (case fa_MinFee asset of None \<Rightarrow> fee | Some m \<Rightarrow> if fee < m then m else fee)
          else fee)"

definition fee_cap :: "fee_asset \<Rightarrow> int \<Rightarrow> int" where
  "fee_cap asset fee =
     (case fa_MaxFee asset of
        None \<Rightarrow> fee
      | Some m \<Rightarrow> if 0 < m \<and> m < fee then m else fee)"

definition ComputeFee :: "int \<Rightarrow> fee_asset \<Rightarrow> u32 \<Rightarrow> int" where
  "ComputeFee amount asset feeBps =
     (if \<not> 0 < amount then 0
      else
        let fee = quo (amount * uint feeBps) MaxBps;
            fee = fee_floor amount asset fee;
            fee = fee_cap asset fee
        in if amount < fee then amount else fee)"

section \<open>Split\<close>

record split_result =
  sr_App :: int
  sr_Referrer :: int
  sr_Validator :: int
  sr_Relayer :: int
  sr_Treasury :: int

definition split_Total :: "split_result \<Rightarrow> int" where
  "split_Total r = sr_App r + sr_Referrer r + sr_Validator r + sr_Relayer r + sr_Treasury r"

definition ComputeSplit :: "int \<Rightarrow> split_bps \<Rightarrow> bool \<Rightarrow> bool \<Rightarrow> u32 \<Rightarrow> split_result" where
  "ComputeSplit fee spl hasApp hasReferrer referrerBps =
     (let bps = (\<lambda>b::u32. quo (fee * uint b) MaxBps);
          appS = bps (sp_AppBps spl);
          val = bps (sp_ValidatorBps spl);
          rel = bps (sp_RelayerBps spl);
          treas = fee - appS - val - rel
      in if \<not> hasApp
         then \<lparr>sr_App = 0, sr_Referrer = 0, sr_Validator = val, sr_Relayer = rel,
               sr_Treasury = treas + appS\<rparr>
         else if hasReferrer \<and> 0 < referrerBps
         then let ref = quo (appS * uint referrerBps) MaxBps
              in \<lparr>sr_App = appS - ref, sr_Referrer = ref, sr_Validator = val, sr_Relayer = rel,
                  sr_Treasury = treas\<rparr>
         else \<lparr>sr_App = appS, sr_Referrer = 0, sr_Validator = val, sr_Relayer = rel,
               sr_Treasury = treas\<rparr>)"

section \<open>Parameters\<close>

definition split_Validate :: "split_bps \<Rightarrow> bool" where
  "split_Validate s \<longleftrightarrow>
     uint (sp_AppBps s) + uint (sp_ValidatorBps s) + uint (sp_RelayerBps s) + uint (sp_TreasuryBps s)
       = MaxBps"

definition nonneg :: "int option \<Rightarrow> bool" where
  "nonneg v \<longleftrightarrow> (case v of None \<Rightarrow> False | Some x \<Rightarrow> 0 \<le> x)"

text \<open>\<open>Validate\<close> answers \<open>nil\<close> or an error; all errors of one function are the same registered
  error with another text, so a Boolean says which.\<close>

definition fee_asset_Validate :: "'x env \<Rightarrow> fee_asset \<Rightarrow> bool" where
  "fee_asset_Validate E a \<longleftrightarrow>
     ValidDenom E (fa_Denom a) \<and>
     \<not> HasPrefix (fa_Denom a) ''erc20/'' \<and>
     nonneg (fa_MinFee a) \<and> nonneg (fa_MaxFee a) \<and> nonneg (fa_MicroThreshold a) \<and>
     nonneg (fa_TabSettleThreshold a) \<and> nonneg (fa_QuotaWeight a) \<and> nonneg (fa_CreditPrice a) \<and>
     (0 < the (fa_MaxFee a) \<longrightarrow> the (fa_MinFee a) \<le> the (fa_MaxFee a)) \<and>
     0 < the (fa_TabSettleThreshold a) \<and>
     fa_Decimals a \<le> 36"

definition validateOptionalBech32 :: "'x env \<Rightarrow> string \<Rightarrow> bool" where
  "validateOptionalBech32 E v \<longleftrightarrow> v = [] \<or> AccFromBech32 E v \<noteq> None"

text \<open>\<open>Coins.Validate\<close>: the map form is sorted and free of duplicates; denoms are valid and
  amounts positive.\<close>

definition coins_Validate :: "'x env \<Rightarrow> coins \<Rightarrow> bool" where
  "coins_Validate E cs \<longleftrightarrow> list_all (\<lambda>(d, a). ValidDenom E d \<and> 0 < a) (entries cs)"

text \<open>The loop over the sponsored senders keys the set by the parsed address.\<close>

fun senders_ok :: "'x env \<Rightarrow> addr list \<Rightarrow> string list \<Rightarrow> bool" where
  "senders_ok E seen [] = True"
| "senders_ok E seen (s # ss) =
     (IsHexAddress E s \<and> HexToAddress E s \<notin> set seen \<and> senders_ok E (HexToAddress E s # seen) ss)"

fun assets_ok :: "'x env \<Rightarrow> denom list \<Rightarrow> fee_asset list \<Rightarrow> bool" where
  "assets_ok E seen [] = True"
| "assets_ok E seen (a # as) =
     (fee_asset_Validate E a \<and> fa_Denom a \<notin> set seen \<and> assets_ok E (fa_Denom a # seen) as)"

definition settle_params_Validate :: "'x env \<Rightarrow> settle_params \<Rightarrow> bool" where
  "settle_params_Validate E p \<longleftrightarrow>
     sp_FeeBps p \<le> MaxFeeBps \<and>
     split_Validate (sp_Split p) \<and>
     assets_ok E [] (sp_Assets p) \<and>
     validateOptionalBech32 E (sp_TreasuryAdmin p) \<and>
     validateOptionalBech32 E (sp_RelayerAdmin p) \<and>
     list_all (\<lambda>r. AccFromBech32 E r \<noteq> None) (sp_RelayerRecipients p) \<and>
     coins_Validate E (sp_RelayerPayoutCap p) \<and>
     senders_ok E [] (sp_SponsoredSenders p) \<and>
     sp_SponsoredLaneMaxBps p \<le> MaxSponsoredLaneBps \<and>
     10 \<le> sp_ValidatorPayoutIntervalBlocks p \<and>
     1 \<le> sp_MaxTabAgeBlocks p \<and>
     sp_GasBurnBps p \<le> 10000"

definition settle_DefaultParams :: settle_params where
  "settle_DefaultParams =
     \<lparr>sp_FeeBps = 100,
      sp_Split = \<lparr>sp_AppBps = 5000, sp_ValidatorBps = 2000, sp_RelayerBps = 1000, sp_TreasuryBps = 2000\<rparr>,
      sp_Assets = [], sp_TreasuryAdmin = [], sp_RelayerAdmin = [], sp_RelayerRecipients = [],
      sp_RelayerPayoutCap = fmempty, sp_SponsoredSenders = [], sp_SponsoredLaneMaxBps = 5000,
      sp_ValidatorPayoutIntervalBlocks = 86400, sp_CreditsEnabled = True,
      sp_MaxTabAgeBlocks = 604800, sp_GasBurnBps = 10000\<rparr>"

definition Asset :: "settle_params \<Rightarrow> denom \<Rightarrow> fee_asset option" where
  "Asset p d = List.find (\<lambda>a. fa_Denom a = d) (sp_Assets p)"

definition IsRelayerRecipient :: "settle_params \<Rightarrow> string \<Rightarrow> bool" where
  "IsRelayerRecipient p a \<longleftrightarrow> a \<in> set (sp_RelayerRecipients p)"

definition SponsoredSenderSet :: "'x env \<Rightarrow> settle_params \<Rightarrow> addr set" where
  "SponsoredSenderSet E p = set (map (HexToAddress E) (sp_SponsoredSenders p))"

section \<open>What the fee promises\<close>

lemma pct_nonneg [simp]: "0 \<le> amount \<Longrightarrow> 0 \<le> quo (amount * uint (b::u32)) MaxBps"
  by (simp add: MaxBps_def pos_imp_zdiv_nonneg_iff)

lemma pct_mono: "0 \<le> x \<Longrightarrow> x \<le> y \<Longrightarrow> quo (x * uint (b::u32)) MaxBps \<le> quo (y * uint b) MaxBps"
  by (simp add: MaxBps_def zdiv_mono1 mult_right_mono)

lemma pct_le: "0 \<le> x \<Longrightarrow> b \<le> 10000 \<Longrightarrow> quo (x * uint (b::u32)) MaxBps \<le> x"
  using div_mult_le_int [of x "uint b" 10000] by (simp add: MaxBps_def word_le_def)

lemma fee_floor_ge: "fee \<le> fee_floor amount a fee"
  by (simp add: fee_floor_def split: option.splits)

lemma fee_floor_mono: "x \<le> y \<Longrightarrow> f \<le> g \<Longrightarrow> fee_floor x a f \<le> fee_floor y a g"
  by (auto simp: fee_floor_def split: option.splits)

lemma fee_cap_mono: "f \<le> g \<Longrightarrow> fee_cap a f \<le> fee_cap a g"
  by (auto simp: fee_cap_def split: option.splits)

lemma fee_cap_nonneg: "0 \<le> f \<Longrightarrow> 0 \<le> fee_cap a f"
  by (auto simp: fee_cap_def split: option.splits)

lemma fee_cap_le: "fee_cap a f \<le> f"
  by (auto simp: fee_cap_def split: option.splits)

lemma fee_nonneg: "0 \<le> ComputeFee amount a b"
proof (cases "0 < amount")
  case True
  let ?p = "quo (amount * uint b) MaxBps"
  have "0 \<le> fee_floor amount a ?p" using True fee_floor_ge [of ?p amount a] pct_nonneg [of amount b] by linarith
  with True show ?thesis by (simp add: ComputeFee_def Let_def fee_cap_nonneg)
qed (simp add: ComputeFee_def)

lemma fee_le_amount: "0 \<le> amount \<Longrightarrow> ComputeFee amount a b \<le> amount"
  by (auto simp: ComputeFee_def Let_def)

text \<open>
  The fee of a payment is never negative and never more than the payment, and a positive
  \<open>max_fee\<close> of the asset caps it, whatever the parameters are.
\<close>

theorem ComputeFee_bounds:
  "0 \<le> ComputeFee amount asset feeBps \<and> ComputeFee amount asset feeBps \<le> max 0 amount \<and>
   (case fa_MaxFee asset of None \<Rightarrow> True | Some m \<Rightarrow> m \<le> 0 \<or> ComputeFee amount asset feeBps \<le> m)"
proof -
  have "ComputeFee amount asset feeBps \<le> max 0 amount"
    by (cases "0 < amount") (simp_all add: ComputeFee_def Let_def)
  moreover have "m \<le> 0 \<or> ComputeFee amount asset feeBps \<le> m" if "fa_MaxFee asset = Some m" for m
    using that by (auto simp: ComputeFee_def Let_def fee_cap_def)
  ultimately show ?thesis by (simp add: fee_nonneg split: option.splits)
qed

text \<open>
  The fee is the formula of the comment of \<open>ComputeFee\<close> for a validated asset, it grows with
  the amount, and below the micro threshold it is the plain percentage: with a fee rate that
  \<open>Params.Validate\<close> accepts, at most a tenth of the amount.
\<close>

theorem ComputeFee_formula:
  assumes "fee_asset_Validate E asset" and "0 < amount" and "feeBps \<le> MaxFeeBps"
  shows "ComputeFee amount asset feeBps =
      (let pct = amount * uint feeBps div 10000;
           floored = (if the (fa_MicroThreshold asset) \<le> amount then max pct (the (fa_MinFee asset)) else pct);
           capped = (if 0 < the (fa_MaxFee asset) then min floored (the (fa_MaxFee asset)) else floored)
       in min capped amount) \<and>
    (amount < the (fa_MicroThreshold asset) \<longrightarrow> 10 * ComputeFee amount asset feeBps \<le> amount) \<and>
    (\<forall>more. 0 \<le> more \<longrightarrow> ComputeFee amount asset feeBps \<le> ComputeFee (amount + more) asset feeBps)"
proof -
  let ?f = "ComputeFee amount asset feeBps" and ?p = "quo (amount * uint feeBps) MaxBps"
  from assms(1) obtain mn mx th where a:
    "fa_MinFee asset = Some mn" "fa_MaxFee asset = Some mx" "fa_MicroThreshold asset = Some th"
    by (auto simp: fee_asset_Validate_def nonneg_def split: option.splits)
  have p: "?p = amount * uint feeBps div 10000" using assms(2) by (simp add: MaxBps_def)
  have 1: "?f = (let pct = amount * uint feeBps div 10000;
           floored = (if th \<le> amount then max pct mn else pct);
           capped = (if 0 < mx then min floored mx else floored) in min capped amount)"
    using assms(2) by (simp add: ComputeFee_def p a fee_floor_def fee_cap_def Let_def min_def max_def)
  have "uint feeBps \<le> 1000" using assms(3) by (simp add: MaxFeeBps_def word_le_def)
  then have "amount * uint feeBps \<le> amount * 1000" using assms(2) by (simp add: mult_left_mono)
  then have "10 * ?p \<le> amount" unfolding p by simp
  then have 2: "10 * ?f \<le> amount" if "amount < th"
    using that fee_cap_le [of asset ?p] assms(2) by (simp add: ComputeFee_def fee_floor_def a Let_def)
  have 3: "?f \<le> ComputeFee (amount + m) asset feeBps" if "0 \<le> m" for m
  proof -
    have "fee_cap asset (fee_floor amount asset ?p) \<le>
        fee_cap asset (fee_floor (amount + m) asset (quo ((amount + m) * uint feeBps) MaxBps))"
      using that assms(2) by (intro fee_cap_mono fee_floor_mono pct_mono) auto
    with that assms(2) show ?thesis by (simp add: ComputeFee_def Let_def)
  qed
  from 1 2 3 show ?thesis unfolding a option.sel by blast
qed

text \<open>The asset of the witnesses: USDC with six decimals.\<close>

definition usdc :: fee_asset where
  "usdc = \<lparr>fa_Denom = ''uusdc'', fa_Enabled = True, fa_MinFee = Some 2000, fa_MaxFee = Some 5000000,
     fa_MicroThreshold = Some 100000, fa_TabSettleThreshold = Some 1000000, fa_QuotaWeight = Some 1,
     fa_CreditPrice = Some 2, fa_Symbol = ''USDC'', fa_Decimals = 6\<rparr>"


theorem ComputeFee_formula_witness:
  "ComputeFee 50000 usdc 100 \<le> ComputeFee 150000 usdc 100 \<and>
   10 * ComputeFee 50000 usdc 100 \<le> 50000 \<and> ComputeFee 150000 usdc 100 = 2000"
proof -
  have v: "fee_asset_Validate ref_env usdc" by code_simp
  have b: "(100::u32) \<le> MaxFeeBps" by code_simp
  have p: "(0::int) < 50000" by simp
  have t: "(50000::int) < the (fa_MicroThreshold usdc)" by (simp add: usdc_def)
  note a = ComputeFee_formula [OF v p b, THEN conjunct2]
  have "ComputeFee 50000 usdc 100 \<le> ComputeFee (50000 + 100000) usdc 100"
    using a by (blast intro: zero_le_numeral)
  moreover have "10 * ComputeFee 50000 usdc 100 \<le> 50000" using a t by blast
  moreover have "ComputeFee 150000 usdc 100 = 2000" by code_simp
  ultimately show ?thesis by simp
qed

section \<open>What the split promises\<close>

lemma split_parts:
  assumes "split_Validate spl" "0 \<le> fee"
  shows "0 \<le> quo (fee * uint (sp_AppBps spl)) MaxBps" "0 \<le> quo (fee * uint (sp_ValidatorBps spl)) MaxBps"
    "0 \<le> quo (fee * uint (sp_RelayerBps spl)) MaxBps"
    "quo (fee * uint (sp_TreasuryBps spl)) MaxBps \<le>
      fee - quo (fee * uint (sp_AppBps spl)) MaxBps - quo (fee * uint (sp_ValidatorBps spl)) MaxBps
        - quo (fee * uint (sp_RelayerBps spl)) MaxBps"
proof -
  let ?q = "\<lambda>b::u32. quo (fee * uint b) MaxBps"
  have q: "?q b * 10000 \<le> fee * uint b" for b
    using assms(2) by (simp add: MaxBps_def)
  have "fee * uint (sp_AppBps spl) + fee * uint (sp_ValidatorBps spl) + fee * uint (sp_RelayerBps spl)
      + fee * uint (sp_TreasuryBps spl) = fee * 10000"
    using assms(1) by (simp add: split_Validate_def MaxBps_def flip: distrib_left)
  with q [of "sp_AppBps spl"] q [of "sp_ValidatorBps spl"] q [of "sp_RelayerBps spl"] q [of "sp_TreasuryBps spl"]
  show "?q (sp_TreasuryBps spl) \<le> fee - ?q (sp_AppBps spl) - ?q (sp_ValidatorBps spl) - ?q (sp_RelayerBps spl)"
    by linarith
qed (use assms in auto)

lemma split_sum: "split_Total (ComputeSplit fee spl a r b) = fee"
  by (simp add: split_Total_def ComputeSplit_def Let_def)

lemma split_nonneg:
  fixes hasApp hasRef :: bool
  assumes "split_Validate spl" "0 \<le> fee" "b \<le> 10000"
  defines "r \<equiv> ComputeSplit fee spl hasApp hasRef b"
  shows "0 \<le> sr_App r" "0 \<le> sr_Referrer r" "0 \<le> sr_Validator r" "0 \<le> sr_Relayer r" "0 \<le> sr_Treasury r"
proof -
  note p = split_parts [OF assms(1,2)]
  have t: "0 \<le> quo (fee * uint (sp_TreasuryBps spl)) MaxBps" using assms(2) by simp
  have q: "quo (quo (fee * uint (sp_AppBps spl)) MaxBps * uint b) MaxBps \<le> quo (fee * uint (sp_AppBps spl)) MaxBps"
    using p(1) assms(3) by (rule pct_le)
  show "0 \<le> sr_App r" "0 \<le> sr_Referrer r" "0 \<le> sr_Validator r" "0 \<le> sr_Relayer r" "0 \<le> sr_Treasury r"
    using p q t unfolding r_def ComputeSplit_def Let_def by (simp_all del: quo_nonneg split: if_splits)
qed

lemma split_no_app: "sr_App (ComputeSplit fee spl False r b) = 0" "sr_Referrer (ComputeSplit fee spl False r b) = 0"
  by (simp_all add: ComputeSplit_def Let_def)

lemma split_no_ref: "sr_Referrer (ComputeSplit fee spl a False b) = 0"
  by (simp add: ComputeSplit_def Let_def)

text \<open>What is left of the fee after the three percentages, and how far it is above the fourth.\<close>

definition split_rest :: "split_bps \<Rightarrow> int \<Rightarrow> int" where
  "split_rest spl fee = fee - fee * uint (sp_AppBps spl) div 10000 - fee * uint (sp_ValidatorBps spl) div 10000
     - fee * uint (sp_RelayerBps spl) div 10000"

lemma split_dust:
  assumes "split_Validate spl" "0 \<le> fee"
  shows "fee * uint (sp_TreasuryBps spl) div 10000 \<le> split_rest spl fee"
    and "split_rest spl fee \<le> fee * uint (sp_TreasuryBps spl) div 10000 + 3"
proof -
  have q: "fee * uint b div 10000 * 10000 \<le> fee * uint b \<and> fee * uint b < fee * uint b div 10000 * 10000 + 10000" for b :: u32
    by presburger
  have "fee * uint (sp_AppBps spl) + fee * uint (sp_ValidatorBps spl) + fee * uint (sp_RelayerBps spl)
      + fee * uint (sp_TreasuryBps spl) = fee * 10000"
    using assms(1) by (simp add: split_Validate_def MaxBps_def flip: distrib_left)
  with q [of "sp_AppBps spl"] q [of "sp_ValidatorBps spl"] q [of "sp_RelayerBps spl"] q [of "sp_TreasuryBps spl"]
  show "fee * uint (sp_TreasuryBps spl) div 10000 \<le> split_rest spl fee"
    "split_rest spl fee \<le> fee * uint (sp_TreasuryBps spl) div 10000 + 3"
    unfolding split_rest_def by linarith+
qed

text \<open>
  C33. The parts of a fee, to the unit. With a split that \<open>Split.Validate\<close> accepts and a referrer
  rate of at most 100\%, validators and relayers get their percentage of the fee rounded down; with
  an app, a referrer gets its rate of the app share rounded down and the app the rest of that share,
  without one nobody gets either; the treasury gets its percentage, the app share of a payment
  without an app, and the rounding dust, which is at most three units and goes nowhere else. No part
  is negative, and they sum to the fee.
\<close>

theorem ComputeSplit_exact:
  assumes "split_Validate spl" and "0 \<le> fee" and "referrerBps \<le> 10000"
  shows "let r = ComputeSplit fee spl hasApp hasReferrer referrerBps;
             pct = (\<lambda>b::u32. fee * uint b div 10000);
             appShare = pct (sp_AppBps spl);
             ref = (if hasApp \<and> hasReferrer then appShare * uint referrerBps div 10000 else 0);
             dust = sr_Treasury r - pct (sp_TreasuryBps spl) - (if hasApp then 0 else appShare)
         in split_Total r = fee \<and>
            sr_Validator r = pct (sp_ValidatorBps spl) \<and> sr_Relayer r = pct (sp_RelayerBps spl) \<and>
            sr_Referrer r = ref \<and> sr_App r = (if hasApp then appShare - ref else 0) \<and>
            0 \<le> dust \<and> dust \<le> 3 \<and>
            0 \<le> sr_App r \<and> 0 \<le> sr_Referrer r \<and> 0 \<le> sr_Validator r \<and> 0 \<le> sr_Relayer r \<and> 0 \<le> sr_Treasury r"
proof -
  let ?r = "ComputeSplit fee spl hasApp hasReferrer referrerBps"
  let ?app = "fee * uint (sp_AppBps spl) div 10000"
  have q: "quo (x * uint b) MaxBps = x * uint b div 10000" if "0 \<le> x" for x and b :: u32
    using that by (simp add: MaxBps_def)
  have nn: "0 \<le> ?app" using assms(2) by (simp add: pos_imp_zdiv_nonneg_iff)
  have none: "\<not> 0 < referrerBps \<Longrightarrow> referrerBps = 0" by (simp add: word_gt_0)
  let ?ref = "if hasApp \<and> hasReferrer then ?app * uint referrerBps div 10000 else 0"
  have parts: "sr_Validator ?r = fee * uint (sp_ValidatorBps spl) div 10000" "sr_Relayer ?r = fee * uint (sp_RelayerBps spl) div 10000"
    "sr_Referrer ?r = ?ref" "sr_App ?r = (if hasApp then ?app - ?ref else 0)"
    using none assms(2) q [OF nn] by (auto simp: ComputeSplit_def Let_def q)
  have treasury: "sr_Treasury ?r = split_rest spl fee + (if hasApp then 0 else ?app)"
    using assms(2) by (auto simp: ComputeSplit_def Let_def q split_rest_def)
  have dust: "0 \<le> sr_Treasury ?r - fee * uint (sp_TreasuryBps spl) div 10000 - (if hasApp then 0 else ?app)"
    "sr_Treasury ?r - fee * uint (sp_TreasuryBps spl) div 10000 - (if hasApp then 0 else ?app) \<le> 3"
    unfolding treasury using split_dust [OF assms(1,2)] by linarith+
  show ?thesis
    unfolding Let_def by (intro conjI split_sum parts dust split_nonneg [OF assms])
qed

theorem ComputeSplit_exact_witness:
  "split_Total (ComputeSplit 333 (sp_Split settle_DefaultParams) True True 2500) = 333 \<and>
   ComputeSplit 333 (sp_Split settle_DefaultParams) True True 2500 =
     \<lparr>sr_App = 125, sr_Referrer = 41, sr_Validator = 66, sr_Relayer = 33, sr_Treasury = 68\<rparr>"
proof -
  have v: "split_Validate (sp_Split settle_DefaultParams)" by code_simp
  have b: "(2500::u32) \<le> 10000" by code_simp
  have "split_Total (ComputeSplit 333 (sp_Split settle_DefaultParams) True True 2500) = 333"
    using ComputeSplit_exact [OF v _ b, of 333 True True] by (simp add: Let_def)
  moreover have "ComputeSplit 333 (sp_Split settle_DefaultParams) True True 2500 =
     \<lparr>sr_App = 125, sr_Referrer = 41, sr_Validator = 66, sr_Relayer = 33, sr_Treasury = 68\<rparr>"
    by code_simp
  ultimately show ?thesis by simp
qed

end
