(* ===== verification/Hll.thy ===== *)
theory Hll
  imports RefEnv
begin

text \<open>
  The HyperLogLog sketch of \<open>chain/x/apps/types/hll.go\<close>: 64 registers of one byte, the rank of
  an element's hash in each, and the integer estimator. SHA-256 is the environment's function; the
  properties hold for every hash.
\<close>

definition hllM :: nat where "hllM = 64"

definition hllBits :: nat where "hllBits = 6"

definition hllMaxRank :: byte where "hllMaxRank = 32"

definition hllSalt :: "byte list" where
  "hllSalt = string_bytes (''vaporchain/hll/'' @ ''6eabb1be532bdef432109abc178d88669ab33aed940f18cd5169887d215c1fcf'')"

definition linearCounting :: "u64 list" where
  "linearCounting =
    [0, 266, 222, 196, 177, 163, 151, 142, 133, 126, 119, 113, 107, 102, 97, 93, 89, 85, 81, 78, 74, 71,
     68, 65, 63, 60, 58, 55, 53, 51, 48, 46, 44, 42, 40, 39, 37, 35, 33, 32, 30, 28, 27, 25, 24, 23, 21,
     20, 18, 17, 16, 15, 13, 12, 11, 10, 9, 7, 6, 5, 4, 3, 2, 1, 0]"

definition NewHLL :: "byte list" where
  "NewHLL = replicate hllM 0"

text \<open>\<open>binary.BigEndian.Uint64\<close>, \<open>bits.LeadingZeros64\<close> and Go's shift, which gives 0 when the
  count reaches the width.\<close>

definition BigEndian_Uint64 :: "byte list \<Rightarrow> u64" where
  "BigEndian_Uint64 bs = foldl (\<lambda>a b. push_bit 8 a + ucast b) 0 (take 8 bs)"

definition LeadingZeros64 :: "u64 \<Rightarrow> nat" where
  "LeadingZeros64 x = length (takeWhile (\<lambda>i. \<not> bit x i) (rev [0..<64]))"

definition shl64 :: "u64 \<Rightarrow> u64 \<Rightarrow> u64" where
  "shl64 x n = (if n < 64 then push_bit (unat n) x else 0)"

text \<open>The two halves of \<open>HLLAdd\<close>'s hash: the register and the rank, at most \<open>hllMaxRank\<close>.\<close>

definition hll_hash :: "'x env \<Rightarrow> byte list \<Rightarrow> u64" where
  "hll_hash E element = BigEndian_Uint64 (Sha256 E (hllSalt @ element))"

definition hll_idx :: "'x env \<Rightarrow> byte list \<Rightarrow> nat" where
  "hll_idx E element = unat (drop_bit (64 - hllBits) (hll_hash E element))"

definition hll_rank :: "'x env \<Rightarrow> byte list \<Rightarrow> byte" where
  "hll_rank E element =
     (let rest = push_bit hllBits (hll_hash E element);
          rank = of_nat (LeadingZeros64 rest) + 1
      in if hllMaxRank < rank then hllMaxRank else rank)"

definition HLLAdd :: "'x env \<Rightarrow> byte list \<Rightarrow> byte list \<Rightarrow> byte list" where
  "HLLAdd E sketch element =
     (let sketch = (if length sketch \<noteq> hllM then NewHLL else sketch);
          idx = hll_idx E element;
          rank = hll_rank E element
      in if sketch ! idx < rank then sketch[idx := rank] else sketch)"

text \<open>\<open>None\<close> is the panic of a division by zero.\<close>

definition hll_z :: "byte list \<Rightarrow> u64" where
  "hll_z sketch = foldl (\<lambda>z r. z + shl64 1 (32 - ucast r)) 0 sketch"

definition hll_zeros :: "byte list \<Rightarrow> nat" where
  "hll_zeros sketch = length (filter (\<lambda>r. r = 0) sketch)"

definition HLLEstimate :: "byte list \<Rightarrow> u64 option" where
  "HLLEstimate sketch =
     (if length sketch \<noteq> hllM then Some 0
      else
        let z = hll_z sketch; zeros = hll_zeros sketch
        in if zeros = hllM then Some 0
           else if 1000 * z = 0 then None
           else let est = push_bit 32 (709 * 4096) div (1000 * z)
                in if est \<le> 160 \<and> 0 < zeros then Some (linearCounting ! zeros) else Some est)"

section \<open>The sketch is the set of its elements\<close>

text \<open>What the code builds: 64 registers of rank at most 32.\<close>

definition hll_ok :: "byte list \<Rightarrow> bool" where
  "hll_ok sketch \<longleftrightarrow> length sketch = hllM \<and> (\<forall>r \<in> set sketch. r \<le> hllMaxRank)"

lemma hll_ok_New [simp, intro]: "hll_ok NewHLL"
  by (simp add: hll_ok_def NewHLL_def hllMaxRank_def)

lemma hll_idx_lt: "hll_idx E e < hllM"
proof -
  have "unat (hll_hash E e) < 2 ^ 64" using unsigned_less [of "hll_hash E e", where 'a = nat] by simp
  then have "unat (hll_hash E e) div 2 ^ 58 < 2 ^ 6"
    by (simp add: less_mult_imp_div_less)
  then show ?thesis
    by (simp add: hll_idx_def hllM_def hllBits_def unat_drop_bit_eq drop_bit_eq_div unat_div_distrib)
qed

lemma hll_rank_pos: "0 < hll_rank E e" and hll_rank_le: "hll_rank E e \<le> hllMaxRank"
proof -
  let ?n = "LeadingZeros64 (push_bit hllBits (hll_hash E e))"
  have "?n \<le> 64" unfolding LeadingZeros64_def by (rule order_trans [OF length_takeWhile_le]) simp
  then have "unat (of_nat (?n + 1) :: byte) = ?n + 1"
    by (simp only: unat_of_nat) simp
  then have "unat (of_nat ?n + 1 :: byte) = ?n + 1" by (simp add: add.commute)
  then have "0 < (of_nat ?n + 1 :: byte)" by (simp add: word_less_nat_alt)
  then show "0 < hll_rank E e" by (simp add: hll_rank_def Let_def hllMaxRank_def)
  show "hll_rank E e \<le> hllMaxRank" by (simp add: hll_rank_def Let_def not_less)
qed

lemma hll_add_ok:
  "hll_ok s \<Longrightarrow> HLLAdd E s e = s[hll_idx E e := max (s ! hll_idx E e) (hll_rank E e)]"
  using hll_idx_lt [of E e] by (auto simp: hll_ok_def HLLAdd_def Let_def max_def)

lemma hll_ok_add [simp, intro]: "hll_ok s \<Longrightarrow> hll_ok (HLLAdd E s e)"
  using hll_idx_lt [of E e] hll_rank_le [of E e]
  by (auto simp: hll_add_ok hll_ok_def max_def dest!: set_update_subset_insert [THEN subsetD] nth_mem)

definition hll_all :: "'x env \<Rightarrow> byte list list \<Rightarrow> byte list" where
  "hll_all E es = foldl (HLLAdd E) NewHLL es"

definition reg_of :: "'x env \<Rightarrow> byte list list \<Rightarrow> nat \<Rightarrow> byte" where
  "reg_of E es i = Max (insert 0 (hll_rank E ` {e \<in> set es. hll_idx E e = i}))"

lemma hll_all_snoc: "hll_all E (es @ [e]) = HLLAdd E (hll_all E es) e"
  by (simp add: hll_all_def)

lemma hll_all_ok: "hll_ok (hll_all E es)"
  by (induction es rule: rev_induct) (simp_all add: hll_all_def hll_ok_add)

lemma reg_of_snoc:
  "reg_of E (es @ [e]) i = (if hll_idx E e = i then max (reg_of E es i) (hll_rank E e) else reg_of E es i)"
proof -
  let ?R = "hll_rank E ` {x \<in> set es. hll_idx E x = i}"
  have "{x \<in> set (es @ [e]). hll_idx E x = i} =
      (if hll_idx E e = i then insert e {x \<in> set es. hll_idx E x = i} else {x \<in> set es. hll_idx E x = i})"
    by auto
  then have "insert 0 (hll_rank E ` {x \<in> set (es @ [e]). hll_idx E x = i}) =
      (if hll_idx E e = i then insert (hll_rank E e) (insert 0 ?R) else insert 0 ?R)"
    by auto
  then show ?thesis by (simp add: reg_of_def max.commute del: insert_iff Max_insert flip: Max_insert)
qed

lemma hll_all_regs: "hll_all E es = map (reg_of E es) [0..<hllM]"
proof (induction es rule: rev_induct)
  case Nil
  show ?case by (rule nth_equalityI) (simp_all add: hll_all_def NewHLL_def reg_of_def)
next
  case (snoc e es)
  have "length (hll_all E (es @ [e])) = hllM"
    using hll_all_ok [of E "es @ [e]"] by (simp add: hll_ok_def)
  moreover have "hll_all E (es @ [e]) ! i = reg_of E (es @ [e]) i" if "i < hllM" for i
  proof -
    have "hll_all E es ! j = reg_of E es j" if "j < hllM" for j using snoc that by simp
    moreover have "length (hll_all E es) = hllM" using hll_all_ok [of E es] by (simp add: hll_ok_def)
    ultimately show ?thesis
      using that hll_idx_lt [of E e]
      by (simp add: hll_all_snoc hll_add_ok [OF hll_all_ok] nth_list_update reg_of_snoc)
  qed
  ultimately show ?case by (intro nth_equalityI) auto
qed

lemma reg_of_pos: "reg_of E es i \<noteq> 0 \<longleftrightarrow> i \<in> hll_idx E ` set es"
proof -
  have "reg_of E es i = 0 \<longleftrightarrow> (\<forall>r \<in> hll_rank E ` {e \<in> set es. hll_idx E e = i}. r = 0)"
    unfolding reg_of_def by (subst Max_eq_iff) (auto simp: word_le_nat_alt unat_eq_0)
  also have "\<dots> \<longleftrightarrow> i \<notin> hll_idx E ` set es"
    using hll_rank_pos [of E] by (auto simp: word_neq_0_conv [symmetric])
  finally show ?thesis by blast
qed

text \<open>
  The sketch is a function of the set of payers alone: register \<open>i\<close> holds the highest rank of
  the payers hashed to it, so neither the order nor the number of their payments matters, and the
  registers stay in the range the estimator relies on.
\<close>

theorem HLLAdd_set:
  "foldl (HLLAdd E) NewHLL es =
     map (\<lambda>i. Max (insert 0 {hll_rank E e | e. e \<in> set es \<and> hll_idx E e = i})) [0..<hllM] \<and>
   hll_ok (foldl (HLLAdd E) NewHLL es)"
proof -
  have "hll_rank E ` {e \<in> set es. hll_idx E e = i} = {hll_rank E e | e. e \<in> set es \<and> hll_idx E e = i}" for i
    by auto
  then show ?thesis
    using hll_all_regs [of E es] hll_all_ok [of E es] by (simp add: reg_of_def [abs_def] hll_all_def)
qed

section \<open>The estimate\<close>

definition hll_Z :: "byte list \<Rightarrow> nat" where
  "hll_Z s = (\<Sum>r \<leftarrow> s. 2 ^ (32 - unat r))"

lemma unat_shl64_rank: "r \<le> hllMaxRank \<Longrightarrow> unat (shl64 1 (32 - ucast r)) = 2 ^ (32 - unat r)"
proof -
  assume "r \<le> hllMaxRank"
  then have r: "unat r \<le> 32" by (simp add: hllMaxRank_def word_le_nat_alt)
  have u: "unat (ucast r :: u64) = unat r"
    by (simp add: unsigned_ucast_eq take_bit_nat_eq_self [OF order_less_trans [OF unsigned_less]])
  have n: "unat (32 - ucast r :: u64) = 32 - unat r"
    by (subst unat_sub) (use r in \<open>auto simp: word_le_nat_alt u\<close>)
  have "(2::nat) ^ (32 - unat r) \<le> 2 ^ 32" by (rule power_increasing) auto
  then have lt: "(2::nat) ^ (32 - unat r) < 2 ^ 64" by (rule order_le_less_trans) simp
  have "unat (of_nat (2 ^ (32 - unat r)) :: u64) = 2 ^ (32 - unat r) mod 2 ^ 64"
    by (simp only: unat_of_nat) simp
  with lt have "unat (2 ^ (32 - unat r) :: u64) = 2 ^ (32 - unat r)" by simp
  then show ?thesis by (simp add: shl64_def word_less_nat_alt n push_bit_eq_mult)
qed

lemma hll_z_exact:
  "\<forall>r \<in> set s. r \<le> hllMaxRank \<Longrightarrow> length s \<le> 64 \<Longrightarrow>
   unat (hll_z s) = hll_Z s \<and> hll_Z s \<le> length s * 2 ^ 32"
proof (induction s rule: rev_induct)
  case Nil
  then show ?case by (simp add: hll_z_def hll_Z_def)
next
  case (snoc r s)
  then have IH: "unat (hll_z s) = hll_Z s" "hll_Z s \<le> length s * 2 ^ 32" by auto
  have p: "(2::nat) ^ (32 - unat r) \<le> 2 ^ 32" by (rule power_increasing) auto
  have Z: "hll_Z (s @ [r]) = hll_Z s + 2 ^ (32 - unat r)" by (simp add: hll_Z_def)
  with IH p have le: "hll_Z (s @ [r]) \<le> length (s @ [r]) * 2 ^ 32" by simp
  also have "\<dots> \<le> 64 * 2 ^ 32" using snoc.prems by (intro mult_right_mono) auto
  finally have "hll_Z s + 2 ^ (32 - unat r) < 2 ^ LENGTH(64)" unfolding Z by simp
  moreover have "hll_z (s @ [r]) = hll_z s + shl64 1 (32 - ucast r)" by (simp add: hll_z_def)
  ultimately have "unat (hll_z (s @ [r])) = hll_Z (s @ [r])"
    using snoc.prems by (simp add: unat_plus_simple [THEN iffD1] Z IH unat_shl64_rank unat_word_ariths)
  with le show ?case by simp
qed

lemma hll_Z_ge: "hll_zeros s * 2 ^ 32 + (length s - hll_zeros s) \<le> hll_Z s"
proof (induction s)
  case (Cons r s)
  have "hll_zeros s \<le> length s" by (simp add: hll_zeros_def)
  moreover have "hll_zeros (r # s) = (if r = 0 then Suc (hll_zeros s) else hll_zeros s)"
    "hll_Z (r # s) = (if r = 0 then 2 ^ 32 else 2 ^ (32 - unat r)) + hll_Z s"
    by (simp_all add: hll_zeros_def hll_Z_def)
  moreover obtain p :: nat where "2 ^ (32 - unat r) = p" "1 \<le> p" by simp
  ultimately show ?case using Cons by (simp split: if_splits)
qed (simp add: hll_Z_def hll_zeros_def)

definition hll_estimate :: "byte list \<Rightarrow> nat" where
  "hll_estimate s =
     (if hll_zeros s = hllM then 0
      else let est = 709 * 4096 * 2 ^ 32 div (1000 * hll_Z s)
           in if est \<le> 160 \<and> 0 < hll_zeros s then unat (linearCounting ! hll_zeros s) else est)"

lemma HLLEstimate_ok:
  assumes "hll_ok s"
  shows "\<exists>n. HLLEstimate s = Some n \<and> unat n = hll_estimate s"
proof -
  from assms have l: "length s = 64" and z: "unat (hll_z s) = hll_Z s" "hll_Z s \<le> 64 * 2 ^ 32"
    using hll_z_exact [of s] by (auto simp: hll_ok_def hllM_def)
  have pos: "0 < hll_Z s" using hll_Z_ge [of s] l by (cases "hll_zeros s = 0") auto
  have "unat (1000 * hll_z s) = 1000 * hll_Z s"
    using z by (simp add: unat_word_ariths)
  moreover from this have "1000 * hll_z s \<noteq> 0" using pos by (metis mult_is_0 neq0_conv unat_0 zero_neq_numeral)
  moreover have "unat (push_bit 32 (709 * 4096 :: u64)) = 709 * 4096 * 2 ^ 32" by simp
  ultimately show ?thesis
    using l by (auto simp: HLLEstimate_def hll_estimate_def Let_def hllM_def unat_div_distrib word_le_nat_alt)
qed

text \<open>
  C40. The integer estimator is exact arithmetic on every sketch the code builds: no addition or
  shift wraps, the division is never by zero, and the result is the documented formula with its
  small-range correction.
\<close>

theorem HLLEstimate_exact:
  "\<exists>n. HLLEstimate (foldl (HLLAdd E) NewHLL es) = Some n \<and>
     (let s = foldl (HLLAdd E) NewHLL es;
          Z = (\<Sum>r \<leftarrow> s. 2 ^ (32 - unat r));
          zeros = length (filter (\<lambda>r. r = 0) s);
          est = 709 * 4096 * 2 ^ 32 div (1000 * Z)
      in unat n = (if zeros = hllM then 0
                   else if est \<le> 160 \<and> 0 < zeros then unat (linearCounting ! zeros) else est))"
  using HLLEstimate_ok [OF hll_all_ok, of E es]
  unfolding hll_estimate_def hll_Z_def hll_zeros_def hll_all_def Let_def .

lemma hll_zeros_all: "hll_zeros (hll_all E es) = hllM - card (hll_idx E ` set es)"
proof -
  have "hll_zeros (hll_all E es) = length (filter (\<lambda>i. reg_of E es i = 0) [0..<hllM])"
    by (simp add: hll_zeros_def hll_all_regs filter_map o_def)
  also have "\<dots> = card (set (filter (\<lambda>i. reg_of E es i = 0) [0..<hllM]))"
    by (rule distinct_card [symmetric]) simp
  also have "set (filter (\<lambda>i. reg_of E es i = 0) [0..<hllM]) = {..<hllM} - hll_idx E ` set es"
    using reg_of_pos [of E es] by auto
  also have "card \<dots> = hllM - card (hll_idx E ` set es)"
    using hll_idx_lt [of E] by (subst card_Diff_subset) auto
  finally show ?thesis .
qed

lemma linearCounting_le: "k < 46 \<Longrightarrow> unat (linearCounting ! (64 - k)) \<le> 2 * k"
proof -
  have "list_all (\<lambda>k. unat (linearCounting ! (64 - k)) \<le> 2 * k) [0..<46]" by code_simp
  then show "k < 46 \<Longrightarrow> ?thesis" by (simp add: list_all_iff)
qed

text \<open>
  Wash trading is not rewarded: payments from at most 45 distinct payers, however many there
  are, are estimated as at most twice the number of payers; no payer at all is estimated as 0.
\<close>

theorem HLLEstimate_few_payers:
  assumes "card (set es) \<le> 45"
  shows "\<exists>n. HLLEstimate (foldl (HLLAdd E) NewHLL es) = Some n \<and> unat n \<le> 2 * card (set es)"
proof -
  let ?s = "hll_all E es" and ?k = "card (hll_idx E ` set es)"
  have k: "?k \<le> card (set es)" by (rule card_image_le) simp
  with assms have k45: "?k \<le> 45" by simp
  then have z: "hll_zeros ?s = 64 - ?k" by (simp add: hll_zeros_all hllM_def)
  have "length ?s = 64" using hll_all_ok [of E es] by (simp add: hll_ok_def hllM_def)
  then have "(64 - ?k) * 2 ^ 32 \<le> hll_Z ?s" using hll_Z_ge [of ?s] z by simp
  moreover have "19 * 2 ^ 32 \<le> (64 - ?k) * (2::nat) ^ 32" using k45 by (intro mult_right_mono) auto
  ultimately have "709 * 4096 * 2 ^ 32 div (1000 * hll_Z ?s) \<le> 709 * 4096 * 2 ^ 32 div (1000 * (19 * 2 ^ 32))"
    by (intro div_le_mono2) auto
  then have "709 * 4096 * 2 ^ 32 div (1000 * hll_Z ?s) \<le> 160" by (rule order_trans) simp
  then have "hll_estimate ?s = 0 \<or> hll_estimate ?s = unat (linearCounting ! (64 - ?k))"
    using k45 unfolding hll_estimate_def z hllM_def Let_def by simp
  moreover have "unat (linearCounting ! (64 - ?k)) \<le> 2 * ?k"
    using linearCounting_le [of ?k] k45 by simp
  ultimately have "hll_estimate ?s \<le> 2 * ?k" by (elim disjE) simp_all
  then show ?thesis
    using HLLEstimate_ok [OF hll_all_ok, of E es] k by (auto simp: hll_all_def)
qed

theorem HLLEstimate_few_payers_witness:
  "\<exists>n. HLLEstimate (foldl (HLLAdd ref_env) NewHLL [[1,2,3,4,5,6,7,8], [9,2,3,4,5,6,7,8], [1,2,3,4,5,6,7,8]]) = Some n
     \<and> unat n \<le> 4"
proof -
  let ?es = "[[1,2,3,4,5,6,7,8], [9,2,3,4,5,6,7,8], [1,2,3,4,5,6,7,8::byte]]"
  have c: "card (set ?es) = 2" by code_simp
  then have "card (set ?es) \<le> 45" by simp
  from HLLEstimate_few_payers [OF this, of ref_env] show ?thesis unfolding c by simp
qed

end
