(* ===== verification/Council.thy ===== *)
theory Council
  imports Fees
begin

text \<open>
  \<open>x/council\<close>: the proof-of-authority council. Its keeper (\<open>chain/x/council/keeper\<close>) keeps the
  validator admissions and the emergency pauses; the message server decides who may change them,
  the staking hooks refuse validators that were not admitted, and the end blocker drops expired
  pauses. At the end: what governance, the guardians and time can and cannot change.
\<close>

section \<open>Constants and parameters\<close>

definition PowerDenom :: denom where "PowerDenom = ''avpower''"

definition TargetSettle :: string where "TargetSettle = ''settle''"
definition TargetSettlePrefix :: string where "TargetSettlePrefix = ''settle:''"
definition TargetIBC :: string where "TargetIBC = ''ibc''"
definition TargetIBCPrefix :: string where "TargetIBCPrefix = ''ibc:''"

definition council_DefaultParams :: council_params where
  "council_DefaultParams =
     \<lparr>cp_Guardians = [], cp_GuardianPauseMaxBlocks = 86400, cp_MaxPowerPerValidator = Some (1000 * 10 ^ 18)\<rparr>"

fun guardians_ok :: "'x env \<Rightarrow> string list \<Rightarrow> string list \<Rightarrow> bool" where
  "guardians_ok E seen [] = True"
| "guardians_ok E seen (g # gs) =
     (AccFromBech32 E g \<noteq> None \<and> g \<notin> set seen \<and> guardians_ok E (g # seen) gs)"

definition council_params_Validate :: "'x env \<Rightarrow> council_params \<Rightarrow> bool" where
  "council_params_Validate E p \<longleftrightarrow>
     guardians_ok E [] (cp_Guardians p) \<and>
     cp_GuardianPauseMaxBlocks p \<noteq> 0 \<and>
     (case cp_MaxPowerPerValidator p of None \<Rightarrow> False | Some m \<Rightarrow> 0 < m)"

definition IsGuardian :: "council_params \<Rightarrow> string \<Rightarrow> bool" where
  "IsGuardian p a \<longleftrightarrow> list_ex (\<lambda>g. g = a) (cp_Guardians p)"

definition ValidateTarget :: "'x env \<Rightarrow> string \<Rightarrow> err option" where
  "ValidateTarget E t =
     (if t = TargetSettle \<or> t = TargetIBC then None
      else if HasPrefix t TargetSettlePrefix
      then if ValidDenom E (TrimPrefix t TargetSettlePrefix) then None else Some EDenom
      else if HasPrefix t TargetIBCPrefix
      then let d = TrimPrefix t TargetIBCPrefix
           in if d = [] \<or> 256 < length d then Some (ECouncil CErrInvalidTarget) else None
      else Some (ECouncil CErrInvalidTarget))"

text \<open>\<open>strings.TrimSpace\<close> on UTF-8 text: the encodings of the Unicode white space characters.\<close>

definition utf8_spaces :: "string list" where
  "utf8_spaces =
     map (\<lambda>c. [c]) [CHR 0x09, CHR 0x0A, CHR 0x0B, CHR 0x0C, CHR 0x0D, CHR 0x20] @
     [[CHR 0xC2, CHR 0x85], [CHR 0xC2, CHR 0xA0], [CHR 0xE1, CHR 0x9A, CHR 0x80]] @
     map (\<lambda>c. [CHR 0xE2, CHR 0x80, c])
       [CHR 0x80, CHR 0x81, CHR 0x82, CHR 0x83, CHR 0x84, CHR 0x85, CHR 0x86, CHR 0x87, CHR 0x88,
        CHR 0x89, CHR 0x8A, CHR 0xA8, CHR 0xA9, CHR 0xAF] @
     [[CHR 0xE2, CHR 0x81, CHR 0x9F], [CHR 0xE3, CHR 0x80, CHR 0x80]]"

function trim_left :: "string list \<Rightarrow> string \<Rightarrow> string" where
  "trim_left ps s =
     (case List.find (\<lambda>p. p \<noteq> [] \<and> HasPrefix s p) ps of
        None \<Rightarrow> s
      | Some p \<Rightarrow> trim_left ps (drop (length p) s))"
  by pat_completeness auto
termination
proof (relation "measure (\<lambda>(ps, s). length s)")
  fix ps s p
  assume "List.find (\<lambda>p. p \<noteq> [] \<and> HasPrefix s p) ps = Some p"
  then have "p \<noteq> []" "take (length p) s = p" by (auto simp: find_Some_iff HasPrefix_def)
  then show "((ps, drop (length p) s), (ps, s)) \<in> measure (\<lambda>(ps, s). length s)"
    by (cases s) auto
qed simp

declare trim_left.simps [simp del]

definition normalizeTarget :: "string \<Rightarrow> string" where
  "normalizeTarget t = rev (trim_left (map rev utf8_spaces) (rev (trim_left utf8_spaces t)))"

section \<open>Keeper\<close>

definition council_GetParams :: "'x chain \<Rightarrow> council_params" where
  "council_GetParams s =
     (case c_Params (council s) of None \<Rightarrow> council_DefaultParams | Some p \<Rightarrow> p)"

definition IsAdmitted :: "'x env \<Rightarrow> 'x chain \<Rightarrow> addr \<Rightarrow> bool" where
  "IsAdmitted E s operator =
     (case fmlookup (Admissions (council s)) (AccString E operator) of
        None \<Rightarrow> False | Some a \<Rightarrow> \<not> ad_Removed a)"

definition IsRemoved :: "'x env \<Rightarrow> 'x chain \<Rightarrow> addr \<Rightarrow> bool" where
  "IsRemoved E s operator =
     (case fmlookup (Admissions (council s)) (AccString E operator) of
        None \<Rightarrow> False | Some a \<Rightarrow> ad_Removed a)"

definition isPauseActive :: "'x chain \<Rightarrow> pause \<Rightarrow> bool" where
  "isPauseActive s p \<longleftrightarrow> pa_ExpiresHeight p = 0 \<or> height s < pa_ExpiresHeight p"

definition IsPaused :: "'x chain \<Rightarrow> string \<Rightarrow> bool" where
  "IsPaused s target =
     (case fmlookup (Pauses (council s)) target of None \<Rightarrow> False | Some p \<Rightarrow> isPauseActive s p)"

definition IsSettlePaused :: "'x chain \<Rightarrow> denom \<Rightarrow> bool" where
  "IsSettlePaused s d \<longleftrightarrow> IsPaused s TargetSettle \<or> IsPaused s (TargetSettlePrefix @ d)"

definition IsIBCPaused :: "'x chain \<Rightarrow> denom list \<Rightarrow> bool" where
  "IsIBCPaused s ds \<longleftrightarrow>
     IsPaused s TargetIBC \<or> list_ex (\<lambda>d. d \<noteq> [] \<and> IsPaused s (TargetIBCPrefix @ d)) ds"

abbreviation on_council :: "(council_store \<Rightarrow> council_store) \<Rightarrow> ('x, unit) call" where
  "on_council f \<equiv> modify (\<lambda>s. s\<lparr>council := f (council s)\<rparr>)"

definition lift_check :: "err option \<Rightarrow> ('x, unit) call" where
  "lift_check e = (case e of None \<Rightarrow> ret () | Some x \<Rightarrow> fail x)"

definition keeper_SetPause :: "'x env \<Rightarrow> string \<Rightarrow> string \<Rightarrow> string \<Rightarrow> int \<Rightarrow> ('x, unit) call" where
  "keeper_SetPause E target setBy reason expires =
     seqM (lift_check (ValidateTarget E target))
     (bindM (gets height) (\<lambda>h.
      on_council (\<lambda>c. c\<lparr>Pauses := fmupd target
        \<lparr>pa_Target = target, pa_SetBy = setBy, pa_SetHeight = h, pa_ExpiresHeight = expires,
         pa_Reason = reason\<rparr> (Pauses c)\<rparr>)))"

definition put_admission :: "string \<Rightarrow> admission \<Rightarrow> ('x, unit) call" where
  "put_admission op adm = on_council (\<lambda>c. c\<lparr>Admissions := fmupd op adm (Admissions c)\<rparr>)"

definition keeper_AdmitValidator :: "'x env \<Rightarrow> addr \<Rightarrow> int option \<Rightarrow> string \<Rightarrow> ('x, unit) call" where
  "keeper_AdmitValidator E operator pwr memo =
     bindM (gets council_GetParams) (\<lambda>params.
     bindM (need pwr (ECouncil CErrInvalidPower)) (\<lambda>pw.
     seqM (check (0 < pw) (ECouncil CErrInvalidPower))
     (bindM (need (cp_MaxPowerPerValidator params) EPanic) (\<lambda>cap.
     seqM (check (pw \<le> cap) (ECouncil CErrInvalidPower))
     (bindM (gets (\<lambda>s. (height s, fmlookup (Admissions (council s)) (AccString E operator)))) (\<lambda>(h, found).
     bindM (case found of
              None \<Rightarrow> ret \<lparr>ad_Operator = AccString E operator, ad_PowerGranted = Some 0,
                           ad_AdmittedHeight = h, ad_Removed = False, ad_Memo = []\<rparr>
            | Some adm \<Rightarrow> if ad_Removed adm then fail (ECouncil CErrRemoved) else ret adm) (\<lambda>adm.
     bindM (need (ad_PowerGranted adm) EPanic) (\<lambda>granted.
     let total = granted + pw in
     seqM (check (total \<le> cap) (ECouncil CErrInvalidPower))
     (seqM (MintCoins E ''council'' (coins1 PowerDenom pw))
     (seqM (SendCoinsFromModuleToAccount E ''council'' operator (coins1 PowerDenom pw))
     (seqM (put_admission (AccString E operator) (adm\<lparr>ad_PowerGranted := Some total, ad_Memo := memo\<rparr>))
     (emit (EvAdmitValidator operator pw total)))))))))))))"

definition force_out :: "'x env \<Rightarrow> addr \<Rightarrow> ('x, unit) call" where
  "force_out E operator =
     bindM (gets (\<lambda>s. GetValidator E (ext s) operator)) (\<lambda>v.
     case v of
       None \<Rightarrow> ret ()
     | Some val \<Rightarrow>
         bindM (need (v_ConsAddr val) (EExternal 0)) (\<lambda>consAddr.
         seqM (whenM (\<not> v_Jailed val) (callx (JailVal E consAddr)))
         (bindM (gets (\<lambda>s. HasSigningInfo E (ext s) consAddr \<and> \<not> IsTombstoned E (ext s) consAddr)) (\<lambda>b.
          whenM b (callx (TombstoneVal E consAddr))))))"

definition keeper_RemoveValidator :: "'x env \<Rightarrow> addr \<Rightarrow> string \<Rightarrow> ('x, unit) call" where
  "keeper_RemoveValidator E operator reason =
     bindM (gets (\<lambda>s. fmlookup (Admissions (council s)) (AccString E operator))) (\<lambda>found.
     bindM (need found (ECouncil CErrNotAdmitted)) (\<lambda>adm.
     seqM (check (\<not> ad_Removed adm) (ECouncil CErrRemoved))
     (seqM (put_admission (AccString E operator) (adm\<lparr>ad_Removed := True, ad_Memo := reason\<rparr>))
     (seqM (force_out E operator)
     (emit (EvRemoveValidator operator reason))))))"

definition PruneExpiredPauses :: "('x, unit) call" where
  "PruneExpiredPauses =
     bindM (gets (\<lambda>s. map fst (filter (\<lambda>(k, p). \<not> isPauseActive s p) (entries (Pauses (council s)))))) (\<lambda>expired.
     forM expired (\<lambda>key.
       seqM (on_council (\<lambda>c. c\<lparr>Pauses := fmdrop key (Pauses c)\<rparr>)) (emit (EvPauseExpired key))))"

section \<open>Provenance, genesis, queries\<close>

definition Fingerprint :: string where
  "Fingerprint = ''6eabb1be532bdef432109abc178d88669ab33aed940f18cd5169887d215c1fcf''"

definition Canary :: string where "Canary = ''vapor-canary-f915edb4136beb9b''"

definition Seal :: "'x env \<Rightarrow> string \<Rightarrow> string" where
  "Seal E chainID =
     hex_EncodeToString (Sha256 E (string_bytes (Fingerprint @ ''|'' @ chainID @ ''|'' @ Canary)))"

definition DefaultProvenance :: "'x env \<Rightarrow> string \<Rightarrow> provenance" where
  "DefaultProvenance E chainID =
     \<lparr>pv_Fingerprint = Fingerprint, pv_Seal = Seal E chainID, pv_Owner = ''VaporChain / muthu2201'',
      pv_Notice = ''Copyright (c) 2026 VaporChain / muthu2201. Licensed under AGPL-3.0-only; see NOTICE.''\<rparr>"

definition no_provenance :: provenance where
  "no_provenance = \<lparr>pv_Fingerprint = [], pv_Seal = [], pv_Owner = [], pv_Notice = []\<rparr>"

definition ProvenanceRecord :: "'x chain \<Rightarrow> provenance" where
  "ProvenanceRecord s = (case ProvenanceItem (council s) of None \<Rightarrow> no_provenance | Some p \<Rightarrow> p)"

record council_genesis =
  cg_Params :: council_params
  cg_Admissions :: "admission list"
  cg_Pauses :: "pause list"
  cg_Provenance :: provenance

fun admissions_check :: "'x env \<Rightarrow> string list \<Rightarrow> admission list \<Rightarrow> err option" where
  "admissions_check E seen [] = None"
| "admissions_check E seen (a # as) =
     (if AccFromBech32 E (ad_Operator a) = None then Some EGenesis
      else if ad_Operator a \<in> set seen then Some EGenesis
      else if (case ad_PowerGranted a of None \<Rightarrow> True | Some p \<Rightarrow> p < 0) then Some EGenesis
      else admissions_check E (ad_Operator a # seen) as)"

fun first_error :: "('a \<Rightarrow> err option) \<Rightarrow> 'a list \<Rightarrow> err option" where
  "first_error f [] = None"
| "first_error f (x # xs) = (case f x of None \<Rightarrow> first_error f xs | Some e \<Rightarrow> Some e)"

definition council_genesis_Validate :: "'x env \<Rightarrow> council_genesis \<Rightarrow> err option" where
  "council_genesis_Validate E gs =
     (if \<not> council_params_Validate E (cg_Params gs) then Some (ECouncil CErrInvalidParams)
      else case admissions_check E [] (cg_Admissions gs) of
        Some e \<Rightarrow> Some e
      | None \<Rightarrow>
          case first_error (\<lambda>p. ValidateTarget E (pa_Target p)) (cg_Pauses gs) of
            Some e \<Rightarrow> Some e
          | None \<Rightarrow>
              if pv_Fingerprint (cg_Provenance gs) \<noteq> [] \<and>
                 pv_Fingerprint (cg_Provenance gs) \<noteq> Fingerprint
              then Some (ECouncil CErrProvenanceMismatch) else None)"

definition council_InitGenesis :: "'x env \<Rightarrow> council_genesis \<Rightarrow> ('x, unit) call" where
  "council_InitGenesis E gs =
     seqM (on_council (\<lambda>c. c\<lparr>c_Params := Some (cg_Params gs)\<rparr>))
     (seqM (forM (cg_Admissions gs) (\<lambda>a. put_admission (ad_Operator a) a))
     (seqM (forM (cg_Pauses gs) (\<lambda>p. on_council (\<lambda>c. c\<lparr>Pauses := fmupd (pa_Target p) p (Pauses c)\<rparr>)))
     (bindM (gets chain_id) (\<lambda>cid.
      on_council (\<lambda>c. c\<lparr>ProvenanceItem := Some
        (if pv_Fingerprint (cg_Provenance gs) = [] then DefaultProvenance E cid else cg_Provenance gs)\<rparr>)))))"

definition council_ExportGenesis :: "'x chain \<Rightarrow> council_genesis" where
  "council_ExportGenesis s =
     \<lparr>cg_Params = council_GetParams s,
      cg_Admissions = map snd (entries (Admissions (council s))),
      cg_Pauses = map snd (entries (Pauses (council s))),
      cg_Provenance = ProvenanceRecord s\<rparr>"

definition query_Admissions :: "'x chain \<Rightarrow> admission list" where
  "query_Admissions s = map snd (entries (Admissions (council s)))"

definition query_Pauses :: "'x chain \<Rightarrow> pause list" where
  "query_Pauses s = filter (isPauseActive s) (map snd (entries (Pauses (council s))))"

section \<open>Message server and staking hooks\<close>

definition requireAuthority :: "'x env \<Rightarrow> string \<Rightarrow> ('x, unit) call" where
  "requireAuthority E a = check (a = authority E) (ECouncil CErrUnauthorized)"

definition msg_AdmitValidator ::
  "'x env \<Rightarrow> string \<Rightarrow> string \<Rightarrow> int option \<Rightarrow> string \<Rightarrow> ('x, unit) call" where
  "msg_AdmitValidator E auth operator pwr memo =
     seqM (requireAuthority E auth)
     (bindM (AccAddressFromBech32 E operator) (\<lambda>op.
      keeper_AdmitValidator E op pwr memo))"

definition msg_RemoveValidator :: "'x env \<Rightarrow> string \<Rightarrow> string \<Rightarrow> string \<Rightarrow> ('x, unit) call" where
  "msg_RemoveValidator E auth operator reason =
     seqM (requireAuthority E auth)
     (bindM (AccAddressFromBech32 E operator) (\<lambda>op.
      keeper_RemoveValidator E op reason))"

definition msg_SetPause :: "'x env \<Rightarrow> string \<Rightarrow> string \<Rightarrow> bool \<Rightarrow> string \<Rightarrow> ('x, unit) call" where
  "msg_SetPause E signer raw_target paused reason =
     (let target = normalizeTarget raw_target in
      seqM (lift_check (ValidateTarget E target))
      (seqM (check (length reason \<le> 512) (ECouncil CErrInvalidTarget))
      (bindM (gets (\<lambda>s. (height s, council_GetParams s))) (\<lambda>(h, params).
       let isAuthority = (signer = authority E); isGuardian = IsGuardian params signer in
       seqM (check (isAuthority \<or> isGuardian) (ECouncil CErrUnauthorized))
       (if \<not> paused
        then seqM (check isAuthority (ECouncil CErrGuardianCannotUnset))
             (seqM (on_council (\<lambda>c. c\<lparr>Pauses := fmdrop target (Pauses c)\<rparr>))
              (emit (EvUnpause target)))
        else let expires = (if isAuthority then 0
                            else add64 h (wrap64 (uint (cp_GuardianPauseMaxBlocks params))))
             in seqM (keeper_SetPause E target signer reason expires)
                (emit (EvPause target signer reason)))))))"

definition msg_council_UpdateParams :: "'x env \<Rightarrow> string \<Rightarrow> council_params \<Rightarrow> ('x, unit) call" where
  "msg_council_UpdateParams E auth p =
     seqM (requireAuthority E auth)
     (seqM (check (council_params_Validate E p) (ECouncil CErrInvalidParams))
      (on_council (\<lambda>c. c\<lparr>c_Params := Some p\<rparr>)))"

text \<open>The hooks with a body of their own; \<open>sdk.ValAddress\<close> and \<open>sdk.AccAddress\<close> are the same bytes.\<close>

definition AfterValidatorCreated :: "'x env \<Rightarrow> addr \<Rightarrow> ('x, unit) call" where
  "AfterValidatorCreated E valAddr =
     bindM (gets (\<lambda>s. IsRemoved E s valAddr)) (\<lambda>removed.
     seqM (check (\<not> removed) (ECouncil CErrRemoved))
     (bindM (gets (\<lambda>s. IsAdmitted E s valAddr)) (\<lambda>ok.
      check ok (ECouncil CErrNotAdmitted))))"

definition BeforeDelegationCreated :: "addr \<Rightarrow> addr \<Rightarrow> ('x, unit) call" where
  "BeforeDelegationCreated delAddr valAddr = check (delAddr = valAddr) (ECouncil CErrForeignDelegation)"

datatype council_msg =
    MsgAdmitValidator string string "int option" string
  | MsgRemoveValidator string string string
  | MsgSetPause string string bool string
  | MsgCouncilUpdateParams string council_params

fun council_handle :: "'x env \<Rightarrow> council_msg \<Rightarrow> ('x, unit) call" where
  "council_handle E (MsgAdmitValidator a op pw memo) = atomic (msg_AdmitValidator E a op pw memo)"
| "council_handle E (MsgRemoveValidator a op reason) = atomic (msg_RemoveValidator E a op reason)"
| "council_handle E (MsgSetPause signer t paused reason) = atomic (msg_SetPause E signer t paused reason)"
| "council_handle E (MsgCouncilUpdateParams a p) = atomic (msg_council_UpdateParams E a p)"

section \<open>Removed for ever\<close>

definition removed :: "string \<Rightarrow> 'x chain \<Rightarrow> bool" where
  "removed k s \<longleftrightarrow> (\<exists>a. fmlookup (Admissions (council s)) k = Some a \<and> ad_Removed a)"

lemma IsRemoved_iff: "IsRemoved E s op \<longleftrightarrow> removed (AccString E op) s"
  by (auto simp: IsRemoved_def removed_def split: option.splits)

lemma removed_put: "removed k s \<Longrightarrow> ad_Removed a \<or> key \<noteq> k \<Longrightarrow>
    removed k (s\<lparr>council := (council s)\<lparr>Admissions := fmupd key a (Admissions (council s))\<rparr>\<rparr>)"
  by (auto simp: removed_def)

lemmas council_runs = run_simps lift_check_def put_admission_def

lemma admit_run:
  assumes "keeper_AdmitValidator E op pw memo s = (Inr (), t)"
  shows "\<exists>p cap g adm x1 x2. pw = Some p \<and> 0 < p \<and> cp_MaxPowerPerValidator (council_GetParams s) = Some cap \<and>
    \<not> removed (AccString E op) s \<and>
    (fmlookup (Admissions (council s)) (AccString E op) = Some adm \<or>
     fmlookup (Admissions (council s)) (AccString E op) = None \<and>
       adm = \<lparr>ad_Operator = AccString E op, ad_PowerGranted = Some 0, ad_AdmittedHeight = height s,
              ad_Removed = False, ad_Memo = []\<rparr> \<and> g = 0) \<and>
    \<not> ad_Removed adm \<and> ad_PowerGranted adm = Some g \<and> g + p \<le> cap \<and>
    BankMint E ''council'' (coins1 PowerDenom p) (ext s) = Inr x1 \<and>
    BankM2A E ''council'' op (coins1 PowerDenom p) x1 = Inr x2 \<and>
    t = s\<lparr>ext := x2,
          council := (council s)\<lparr>Admissions := fmupd (AccString E op)
            (adm\<lparr>ad_PowerGranted := Some (g + p), ad_Memo := memo\<rparr>) (Admissions (council s))\<rparr>,
          events := events s @ [EvAdmitValidator op p (g + p)]\<rparr>"
  using assms
  by (auto simp: keeper_AdmitValidator_def council_runs removed_def Let_def split: option.splits if_splits)

lemma prune_keeps:
  assumes "\<And>s k. I s \<Longrightarrow> I (s\<lparr>council := (council s)\<lparr>Pauses := fmdrop k (Pauses (council s))\<rparr>\<rparr>)"
    and "\<And>s e. I s \<Longrightarrow> I (s\<lparr>events := e\<rparr>)"
  shows "keeps I PruneExpiredPauses"
  unfolding PruneExpiredPauses_def emit_def by (intro keeps_intros keeps_modify assms)

lemma setpause_run:
  "keeper_SetPause E t by why ex s = (r, u) \<longleftrightarrow>
   (case ValidateTarget E t of
      Some e \<Rightarrow> r = Inl e \<and> u = s
    | None \<Rightarrow> r = Inr () \<and> u = s\<lparr>council := (council s)\<lparr>Pauses := fmupd t
        \<lparr>pa_Target = t, pa_SetBy = by, pa_SetHeight = height s, pa_ExpiresHeight = ex, pa_Reason = why\<rparr>
        (Pauses (council s))\<rparr>\<rparr>)"
  by (auto simp: keeper_SetPause_def lift_check_def seqM_def bindM_def fail_def ret_def gets_def modify_def
      split: option.splits)

lemma remove_run:
  assumes "keeper_RemoveValidator E op reason s = (Inr (), t)"
  shows "\<exists>adm x. fmlookup (Admissions (council s)) (AccString E op) = Some adm \<and> \<not> ad_Removed adm \<and>
    t = s\<lparr>ext := x,
          council := (council s)\<lparr>Admissions := fmupd (AccString E op)
            (adm\<lparr>ad_Removed := True, ad_Memo := reason\<rparr>) (Admissions (council s))\<rparr>,
          events := events s @ [EvRemoveValidator op reason]\<rparr>"
proof -
  have out: "\<exists>x. u = s'\<lparr>ext := x\<rparr>" if "force_out E op s' = (Inr (), u)" for s' u
    using that by (auto simp: force_out_def council_runs split: option.splits if_splits)
       (metis chain.surjective chain.update_convs(1))+
  from assms obtain adm u where adm:
      "fmlookup (Admissions (council s)) (AccString E op) = Some adm" "\<not> ad_Removed adm"
      "force_out E op (s\<lparr>council := (council s)\<lparr>Admissions := fmupd (AccString E op)
         (adm\<lparr>ad_Removed := True, ad_Memo := reason\<rparr>) (Admissions (council s))\<rparr>\<rparr>) = (Inr (), u)"
      "t = u\<lparr>events := events u @ [EvRemoveValidator op reason]\<rparr>"
    by (auto simp: keeper_RemoveValidator_def council_runs)
  from out [OF adm(3)] obtain x where "u = s\<lparr>council := (council s)\<lparr>Admissions := fmupd (AccString E op)
         (adm\<lparr>ad_Removed := True, ad_Memo := reason\<rparr>) (Admissions (council s))\<rparr>, ext := x\<rparr>" by blast
  with adm show ?thesis by (intro exI [of _ adm] exI [of _ x]) simp
qed

text \<open>A successful message of the council, by case: what the store becomes.\<close>

lemma handle_admit:
  assumes "msg_AdmitValidator E a opr pw memo s = (Inr (), t)"
  shows "a = authority E" "\<exists>op. AccFromBech32 E opr = Some op \<and> keeper_AdmitValidator E op pw memo s = (Inr (), t)"
  using assms by (auto simp: msg_AdmitValidator_def requireAuthority_def run_simps)

lemma handle_remove:
  assumes "msg_RemoveValidator E a opr reason s = (Inr (), t)"
  shows "a = authority E" "\<exists>op. AccFromBech32 E opr = Some op \<and> keeper_RemoveValidator E op reason s = (Inr (), t)"
  using assms by (auto simp: msg_RemoveValidator_def requireAuthority_def run_simps)

lemma handle_params:
  assumes "msg_council_UpdateParams E a p s = (Inr (), t)"
  shows "a = authority E" "council_params_Validate E p" "t = s\<lparr>council := (council s)\<lparr>c_Params := Some p\<rparr>\<rparr>"
  using assms by (auto simp: msg_council_UpdateParams_def requireAuthority_def run_simps)

lemma handle_pause:
  assumes "msg_SetPause E signer raw paused why s = (Inr (), t)"
  defines "tg \<equiv> normalizeTarget raw"
  shows "ValidateTarget E tg = None" "signer = authority E \<or> IsGuardian (council_GetParams s) signer"
    "\<not> paused \<Longrightarrow> signer = authority E \<and>
       t = s\<lparr>council := (council s)\<lparr>Pauses := fmdrop tg (Pauses (council s))\<rparr>,
             events := events s @ [EvUnpause tg]\<rparr>"
    "paused \<Longrightarrow>
       t = s\<lparr>council := (council s)\<lparr>Pauses := fmupd tg
             \<lparr>pa_Target = tg, pa_SetBy = signer, pa_SetHeight = height s,
              pa_ExpiresHeight = (if signer = authority E then 0 else
                add64 (height s) (wrap64 (uint (cp_GuardianPauseMaxBlocks (council_GetParams s))))),
              pa_Reason = why\<rparr> (Pauses (council s))\<rparr>,
            events := events s @ [EvPause tg signer why]\<rparr>"
  using assms(1)
  by (auto simp: msg_SetPause_def council_runs Let_def tg_def[symmetric] setpause_run
      split: option.splits if_splits)

section \<open>What the council's state can do\<close>

text \<open>
  One step of the chain as the council sees it: a message, the pause that \<open>x/settle\<close> sets in safe
  mode, the end blocker, and whatever the rest of the chain does in between, which leaves the
  council's store alone and never lowers the height.
\<close>

inductive council_step :: "'x env \<Rightarrow> 'x chain \<Rightarrow> 'x chain \<Rightarrow> bool" for E where
  message: "council_handle E m s = (r, t) \<Longrightarrow> council_step E s t"
| safe_mode: "keeper_SetPause E TargetSettle by why 0 s = (r, t) \<Longrightarrow> council_step E s t"
| end_block: "PruneExpiredPauses s = (r, t) \<Longrightarrow> council_step E s t"
| other: "council t = council s \<Longrightarrow> height s \<le> height t \<Longrightarrow> council_step E s t"

inductive_cases council_stepE: "council_step E s t"

text \<open>An invariant of successful handlers, of safe mode and of pruning is one of every step.\<close>

lemma council_handle_keeps:
  assumes "\<And>a opr pw memo. keepsR I (msg_AdmitValidator E a opr pw memo)"
    and "\<And>a opr why. keepsR I (msg_RemoveValidator E a opr why)"
    and "\<And>g tg b why. keepsR I (msg_SetPause E g tg b why)"
    and "\<And>a p. keepsR I (msg_council_UpdateParams E a p)"
  shows "keeps I (council_handle E m)"
  by (cases m) (simp_all add: atomic_keeps assms)

lemma council_handle_atomic: "council_handle E m s = (Inl e, t) \<Longrightarrow> t = s"
  by (cases m) (auto simp: atomic_Inl)

lemma removed_keepsR:
  "keepsR (removed k) (msg_AdmitValidator E a opr pw memo)"
  "keepsR (removed k) (msg_RemoveValidator E a opr why)"
  "keepsR (removed k) (msg_SetPause E g tg b why)"
  "keepsR (removed k) (msg_council_UpdateParams E a p)"
proof -
  show "keepsR (removed k) (msg_AdmitValidator E a opr pw memo)"
    by (rule keepsRI) (auto simp: removed_def dest!: handle_admit(2) admit_run split: if_splits)
  show "keepsR (removed k) (msg_RemoveValidator E a opr why)"
    by (rule keepsRI) (auto simp: removed_def dest!: handle_remove(2) remove_run)
  show "keepsR (removed k) (msg_SetPause E g tg b why)"
    by (rule keepsRI, cases b) (auto simp: removed_def dest: handle_pause(3,4))
  show "keepsR (removed k) (msg_council_UpdateParams E a p)"
    by (rule keepsRI) (auto simp: removed_def dest: handle_params(3))
qed

lemma removed_step: "council_step E s t \<Longrightarrow> removed k s \<Longrightarrow> removed k t"
proof (induction rule: council_step.induct)
  case (message m s r t)
  from keepsD [OF council_handle_keeps [OF removed_keepsR] message(2,1)] show ?case .
next
  case (safe_mode "by" why s r t)
  then show ?case by (auto simp: setpause_run removed_def split: option.splits)
next
  case (end_block s r t)
  have "keeps (removed k) PruneExpiredPauses" by (rule prune_keeps) (simp_all add: removed_def)
  from keepsD [OF this end_block(2,1)] show ?case .
qed (simp add: removed_def)

lemma removed_steps: "(council_step E)\<^sup>*\<^sup>* s t \<Longrightarrow> removed k s \<Longrightarrow> removed k t"
  by (induction rule: rtranclp_induct) (auto dest: removed_step)

lemma admit_removed: "removed (AccString E op) t \<Longrightarrow> \<exists>e. fst (keeper_AdmitValidator E op pw memo t) = Inl e"
proof (cases "fst (keeper_AdmitValidator E op pw memo t)")
  case (Inr u)
  then have "keeper_AdmitValidator E op pw memo t = (Inr (), snd (keeper_AdmitValidator E op pw memo t))"
    by (metis (full_types) old.unit.exhaust prod.collapse)
  from admit_run [OF this] show "removed (AccString E op) t \<Longrightarrow> ?thesis" by blast
qed simp

text \<open>
  C21. A removed operator stays removed in every later state: it is never admitted again, the
  staking hook refuses its validator with \<open>ErrRemoved\<close>, and no admission of it can succeed.
\<close>

theorem removed_for_ever:
  assumes "(council_step E)\<^sup>*\<^sup>* s t" and "IsRemoved E s op"
  shows "IsRemoved E t op \<and> \<not> IsAdmitted E t op \<and>
    AfterValidatorCreated E op t = (Inl (ECouncil CErrRemoved), t) \<and>
    (\<exists>e. fst (keeper_AdmitValidator E op pw memo t) = Inl e)"
proof -
  have "removed (AccString E op) s" using assms(2) by (rule IsRemoved_iff [THEN iffD1])
  with assms(1) have r: "removed (AccString E op) t" by (rule removed_steps)
  then have "IsRemoved E t op" by (simp add: IsRemoved_iff)
  moreover from r have "\<not> IsAdmitted E t op" by (auto simp: IsAdmitted_def removed_def)
  moreover have "AfterValidatorCreated E op t = (Inl (ECouncil CErrRemoved), t)"
    using \<open>IsRemoved E t op\<close>
    by (simp add: AfterValidatorCreated_def bindM_def seqM_def gets_def check_def fail_def)
  ultimately show ?thesis using admit_removed [OF r] by blast
qed

definition council_ex :: "ref_ext chain" where
  "council_ex = (ref_chain (ref_genesis []))\<lparr>council := \<lparr>c_Params = Some (council_DefaultParams\<lparr>cp_Guardians := [''guard'']\<rparr>),
     Admissions = fmupd ''val'' \<lparr>ad_Operator = ''val'', ad_PowerGranted = Some 5, ad_AdmittedHeight = 1,
       ad_Removed = False, ad_Memo = []\<rparr> fmempty, Pauses = fmempty, ProvenanceItem = None\<rparr>\<rparr>"

definition council_ex_removed :: "ref_ext chain" where
  "council_ex_removed = snd (council_handle ref_env (MsgRemoveValidator ''gov'' ''val'' ''key leaked'') council_ex)"

theorem removed_for_ever_witness:
  "IsAdmitted ref_env council_ex (string_bytes ''val'') \<and>
   \<not> IsAdmitted ref_env (council_ex_removed\<lparr>height := 500\<rparr>) (string_bytes ''val'') \<and>
   AfterValidatorCreated ref_env (string_bytes ''val'') (council_ex_removed\<lparr>height := 500\<rparr>) =
     (Inl (ECouncil CErrRemoved), council_ex_removed\<lparr>height := 500\<rparr>)"
proof -
  have "council_step ref_env council_ex_removed (council_ex_removed\<lparr>height := 500\<rparr>)"
    by (rule council_step.other) (simp, code_simp)
  then have "(council_step ref_env)\<^sup>*\<^sup>* council_ex_removed (council_ex_removed\<lparr>height := 500\<rparr>)" by blast
  moreover have "IsRemoved ref_env council_ex_removed (string_bytes ''val'')" by code_simp
  moreover have "IsAdmitted ref_env council_ex (string_bytes ''val'')" by code_simp
  ultimately show ?thesis using removed_for_ever by blast
qed

text \<open>
  Only governance and the guardians change the council, and the guardians can only add pauses:
  a message that is not signed by the authority leaves admissions, parameters and the provenance
  record alone; if it changes the pauses it was signed by a guardian, and it set exactly one pause,
  which ends after the guardian limit of the parameters.
\<close>

theorem council_authority:
  assumes "council_handle E m s = (r, t)" and "council t \<noteq> council s"
    and "\<forall>a op pw memo. m = MsgAdmitValidator a op pw memo \<longrightarrow> a \<noteq> authority E"
    and "\<forall>a op why. m = MsgRemoveValidator a op why \<longrightarrow> a \<noteq> authority E"
    and "\<forall>g tg b why. m = MsgSetPause g tg b why \<longrightarrow> g \<noteq> authority E"
    and "\<forall>a p. m = MsgCouncilUpdateParams a p \<longrightarrow> a \<noteq> authority E"
  shows "\<exists>g raw why. m = MsgSetPause g raw True why \<and> r = Inr () \<and> IsGuardian (council_GetParams s) g \<and>
    council t = (council s)\<lparr>Pauses := fmupd (normalizeTarget raw)
      \<lparr>pa_Target = normalizeTarget raw, pa_SetBy = g, pa_SetHeight = height s,
       pa_ExpiresHeight = add64 (height s) (wrap64 (uint (cp_GuardianPauseMaxBlocks (council_GetParams s)))),
       pa_Reason = why\<rparr> (Pauses (council s))\<rparr>"
proof -
  from assms(1,2) have r: "r = Inr ()" by (cases r) (auto dest: council_handle_atomic)
  show ?thesis
  proof (cases m)
    case (MsgSetPause g tg b why)
    then have run: "msg_SetPause E g tg b why s = (Inr (), t)" and g: "g \<noteq> authority E"
      using assms(1,5) r by (auto simp: atomic_Inr)
    then show ?thesis
      using handle_pause [OF run] MsgSetPause r by (cases b) auto
  qed (use assms r in \<open>auto simp: atomic_Inr dest: handle_admit(1) handle_remove(1) handle_params(1)\<close>)
qed

theorem council_authority_witness:
  "\<exists>t. council_handle ref_env (MsgSetPause ''guard'' '' settle '' True ''bug'') council_ex = (Inr (), t) \<and>
     pa_ExpiresHeight (the (fmlookup (Pauses (council t)) ''settle'')) = 86500"
proof -
  let ?m = "MsgSetPause ''guard'' '' settle '' True ''bug''"
  obtain r t where run: "council_handle ref_env ?m council_ex = (r, t)" by (cases "council_handle ref_env ?m council_ex")
  have "Pauses (council (snd (council_handle ref_env ?m council_ex))) \<noteq> Pauses (council council_ex)" by code_simp
  with run have "council t \<noteq> council council_ex" by auto
  moreover have "''guard'' \<noteq> authority ref_env" by code_simp
  ultimately have "r = Inr ()" "council t = (council council_ex)\<lparr>Pauses := fmupd (normalizeTarget '' settle '')
      \<lparr>pa_Target = normalizeTarget '' settle '', pa_SetBy = ''guard'', pa_SetHeight = height council_ex,
       pa_ExpiresHeight = add64 (height council_ex) (wrap64 (uint (cp_GuardianPauseMaxBlocks (council_GetParams council_ex)))),
       pa_Reason = ''bug''\<rparr> (Pauses (council council_ex))\<rparr>"
    using council_authority [OF run] by auto
  moreover have "normalizeTarget '' settle '' = ''settle''" by code_simp
  moreover have "add64 (height council_ex) (wrap64 (uint (cp_GuardianPauseMaxBlocks (council_GetParams council_ex)))) = 86500"
    by code_simp
  ultimately show ?thesis using run by simp
qed

section \<open>Pauses\<close>

lemma IsPaused_council: "council t = council s \<Longrightarrow> height t = height s \<Longrightarrow> IsPaused t x = IsPaused s x"
  by (simp add: IsPaused_def isPauseActive_def split: option.splits)

lemma IsPaused_set:
  "IsPaused (s\<lparr>council := (council s)\<lparr>Pauses := fmupd k p (Pauses (council s))\<rparr>, events := ev, height := h\<rparr>) x \<longleftrightarrow>
     (if x = k then pa_ExpiresHeight p = 0 \<or> h < pa_ExpiresHeight p else IsPaused (s\<lparr>height := h\<rparr>) x)"
  by (simp add: IsPaused_def isPauseActive_def split: option.splits)

text \<open>
  Governance pauses and unpauses exactly the target it names, for good: after a successful
  message of the authority the target is paused (or not), at this and at every later height, and
  no other target has changed.
\<close>

theorem governance_pause_exact:
  assumes "council_handle E (MsgSetPause (authority E) raw paused why) s = (Inr (), t)"
  shows "IsPaused (t\<lparr>height := h\<rparr>) x \<longleftrightarrow>
    (if x = normalizeTarget raw then paused else IsPaused (s\<lparr>height := h\<rparr>) x)"
proof -
  from assms have run: "msg_SetPause E (authority E) raw paused why s = (Inr (), t)" by (simp add: atomic_Inr)
  show ?thesis
  proof (cases paused)
    case True
    with handle_pause(4) [OF run] show ?thesis by (simp add: IsPaused_set)
  next
    case False
    with handle_pause(3) [OF run] show ?thesis
      by (simp add: IsPaused_def isPauseActive_def split: option.splits)
  qed
qed

theorem governance_pause_exact_witness:
  "\<exists>t. council_handle ref_env (MsgSetPause (authority ref_env) ''settle:uusdc'' True []) council_ex = (Inr (), t) \<and>
     IsPaused (t\<lparr>height := 1000000\<rparr>) ''settle:uusdc'' \<and> \<not> IsPaused (t\<lparr>height := 100\<rparr>) ''settle''"
proof -
  let ?m = "MsgSetPause (authority ref_env) ''settle:uusdc'' True []"
  have "fst (council_handle ref_env ?m council_ex) = Inr ()" by code_simp
  then obtain t where t: "council_handle ref_env ?m council_ex = (Inr (), t)" by (metis prod.collapse)
  have "normalizeTarget ''settle:uusdc'' = ''settle:uusdc''" by code_simp
  moreover have "\<not> IsPaused (council_ex\<lparr>height := 100\<rparr>) ''settle''" by code_simp
  ultimately show ?thesis
    using t governance_pause_exact [OF t, of 1000000 "''settle:uusdc''"] governance_pause_exact [OF t, of 100 "''settle''"]
    by (auto simp del: council_handle.simps)
qed

text \<open>
  A guardian's pause ends by itself: whenever the limit keeps the expiry in range, the target
  is paused exactly for the next \<open>guardian_pause_max_blocks\<close> heights.
\<close>

theorem guardian_pause_expires:
  assumes "council_handle E (MsgSetPause g raw True why) s = (Inr (), t)"
    and "g \<noteq> authority E"
    and "0 \<le> height s"
    and "height s + uint (cp_GuardianPauseMaxBlocks (council_GetParams s)) < 2 ^ 63"
    and "council_params_Validate E (council_GetParams s)"
  shows "IsPaused (t\<lparr>height := h\<rparr>) (normalizeTarget raw) \<longleftrightarrow>
    h < height s + uint (cp_GuardianPauseMaxBlocks (council_GetParams s))"
proof -
  let ?n = "uint (cp_GuardianPauseMaxBlocks (council_GetParams s))"
  from assms(1) have run: "msg_SetPause E g raw True why s = (Inr (), t)" by (simp add: atomic_Inr)
  have n: "0 < ?n" using assms(5) by (simp add: council_params_Validate_def uint_0_iff order_less_le)
  have "wrap64 ?n = ?n" "add64 (height s) ?n = height s + ?n"
    using assms(3,4) n by (auto intro!: wrap64_nonneg_id)
  with handle_pause(4) [OF run] assms(2,3) n show ?thesis by (simp add: IsPaused_set)
qed

theorem guardian_pause_expires_witness:
  "\<exists>t. council_handle ref_env (MsgSetPause ''guard'' ''ibc'' True []) council_ex = (Inr (), t) \<and>
     IsPaused (t\<lparr>height := 86499\<rparr>) (normalizeTarget ''ibc'') \<and>
     \<not> IsPaused (t\<lparr>height := 86500\<rparr>) (normalizeTarget ''ibc'')"
proof -
  let ?m = "MsgSetPause ''guard'' ''ibc'' True []"
  have "fst (council_handle ref_env ?m council_ex) = Inr ()" by code_simp
  then obtain t where t: "council_handle ref_env ?m council_ex = (Inr (), t)" by (metis prod.collapse)
  have n: "uint (cp_GuardianPauseMaxBlocks (council_GetParams council_ex)) = 86400" by code_simp
  have h: "height council_ex = 100" by code_simp
  have "''guard'' \<noteq> authority ref_env" by code_simp
  moreover have "council_params_Validate ref_env (council_GetParams council_ex)" by code_simp
  ultimately show ?thesis
    using t guardian_pause_expires [OF t, of 86499] guardian_pause_expires [OF t, of 86500]
    unfolding n h by (auto simp del: council_handle.simps)
qed

definition council_ex_paused :: "ref_ext chain" where
  "council_ex_paused = snd (council_handle ref_env (MsgSetPause ''gov'' ''settle'' True ''audit'') council_ex)"

definition council_ex_downgraded :: "ref_ext chain" where
  "council_ex_downgraded = snd (council_handle ref_env (MsgSetPause ''guard'' ''settle'' True []) council_ex_paused)"

text \<open>
  A guardian's message replaces a pause that is already there: a permanent pause of \<open>settle\<close>
  that governance set ends when the guardian's pause ends, without a message of governance.
\<close>

theorem guardian_ends_permanent_pause:
  "(\<forall>h. IsPaused (council_ex_paused\<lparr>height := h\<rparr>) TargetSettle) \<and>
   council_handle ref_env (MsgSetPause ''guard'' ''settle'' True []) council_ex_paused = (Inr (), council_ex_downgraded) \<and>
   \<not> IsPaused (council_ex_downgraded\<lparr>height := 86500\<rparr>) TargetSettle"
proof -
  have "case fmlookup (Pauses (council council_ex_paused)) TargetSettle of None \<Rightarrow> False | Some p \<Rightarrow> pa_ExpiresHeight p = 0"
    by code_simp
  then have "IsPaused (council_ex_paused\<lparr>height := h\<rparr>) TargetSettle" for h
    by (auto simp: IsPaused_def isPauseActive_def split: option.splits)
  moreover have "fst (council_handle ref_env (MsgSetPause ''guard'' ''settle'' True []) council_ex_paused) = Inr ()"
    by code_simp
  then have "council_handle ref_env (MsgSetPause ''guard'' ''settle'' True []) council_ex_paused = (Inr (), council_ex_downgraded)"
    unfolding council_ex_downgraded_def by (metis prod.collapse)
  moreover have "\<not> IsPaused (council_ex_downgraded\<lparr>height := 86500\<rparr>) TargetSettle" by code_simp
  ultimately show ?thesis by blast
qed

lemma drop_pauses_run:
  "forM ks (\<lambda>key. seqM (on_council (\<lambda>c. c\<lparr>Pauses := fmdrop key (Pauses c)\<rparr>)) (emit (EvPauseExpired key))) s =
   (Inr (), s\<lparr>council := (council s)\<lparr>Pauses := fmfilter (\<lambda>k. k \<notin> set ks) (Pauses (council s))\<rparr>,
              events := events s @ map EvPauseExpired ks\<rparr>)"
proof (induction ks arbitrary: s)
  case (Cons k ks)
  have "fmfilter (\<lambda>x. x \<notin> set ks) (fmdrop k m) = fmfilter (\<lambda>x. x \<notin> set (k # ks)) m" for m :: "(string, pause) fmap"
    by (rule fmap_ext) simp
  with Cons show ?case
    by (simp add: seqM_def bindM_def modify_def emit_def cong del: fmfilter_cong)
qed (simp add: ret_def)

lemma prune_run:
  "PruneExpiredPauses s =
    (let gone = map fst (filter (\<lambda>(k, p). \<not> isPauseActive s p) (entries (Pauses (council s))))
     in (Inr (), s\<lparr>council := (council s)\<lparr>Pauses := fmfilter (\<lambda>k. k \<notin> set gone) (Pauses (council s))\<rparr>,
                   events := events s @ map EvPauseExpired gone\<rparr>))"
  by (simp add: PruneExpiredPauses_def bindM_def gets_def drop_pauses_run Let_def)

text \<open>
  The end blocker's pruning never fails and is invisible: every target is paused exactly as
  before, at this and at every later height, and only active pauses are left in the store.
\<close>

theorem prune_invisible:
  "\<exists>t. PruneExpiredPauses s = (Inr (), t) \<and>
    (\<forall>k p. fmlookup (Pauses (council t)) k = Some p \<longrightarrow> isPauseActive s p \<and> fmlookup (Pauses (council s)) k = Some p) \<and>
    (\<forall>n x. IsPaused (t\<lparr>height := height s + int n\<rparr>) x = IsPaused (s\<lparr>height := height s + int n\<rparr>) x)"
proof -
  let ?gone = "set (map fst (filter (\<lambda>(k, p). \<not> isPauseActive s p) (entries (Pauses (council s)))))"
  have gone: "k \<in> ?gone \<longleftrightarrow> \<not> isPauseActive s p" if "fmlookup (Pauses (council s)) k = Some p" for k p
    using that by (force simp: set_entries)
  then have "IsPaused (snd (PruneExpiredPauses s)\<lparr>height := height s + int n\<rparr>) x = IsPaused (s\<lparr>height := height s + int n\<rparr>) x" for n x
    by (auto simp: prune_run Let_def IsPaused_def isPauseActive_def split: option.splits)
  moreover have "isPauseActive s p \<and> fmlookup (Pauses (council s)) k = Some p"
    if "fmlookup (Pauses (council (snd (PruneExpiredPauses s)))) k = Some p" for k p
    using that gone by (auto simp: prune_run Let_def split: if_splits)
  moreover have "PruneExpiredPauses s = (Inr (), snd (PruneExpiredPauses s))" by (simp add: prune_run Let_def)
  ultimately show ?thesis by blast
qed

text \<open>The witness that pruning has something to do: an expired pause goes, an active one stays.\<close>

theorem prune_invisible_witness:
  "\<exists>t. PruneExpiredPauses (council_ex_downgraded\<lparr>height := 86500\<rparr>) = (Inr (), t) \<and>
     \<not> IsPaused (t\<lparr>height := 86500 + int 7\<rparr>) TargetSettle"
proof -
  have "\<not> IsPaused (council_ex_downgraded\<lparr>height := 86507\<rparr>) TargetSettle" by code_simp
  moreover obtain t where t: "PruneExpiredPauses (council_ex_downgraded\<lparr>height := 86500\<rparr>) = (Inr (), t)"
      "\<And>n. IsPaused (t\<lparr>height := 86500 + int n\<rparr>) TargetSettle =
            IsPaused (council_ex_downgraded\<lparr>height := 86500 + int n\<rparr>) TargetSettle"
    using prune_invisible [of "council_ex_downgraded\<lparr>height := 86500\<rparr>"] by auto
  ultimately show ?thesis using t(2) [of 7] by auto
qed

section \<open>Power\<close>

definition power_of :: "admission \<Rightarrow> int" where
  "power_of a = (case ad_PowerGranted a of None \<Rightarrow> 0 | Some g \<Rightarrow> g)"

definition granted :: "'x chain \<Rightarrow> int" where
  "granted s = kv_sum (\<lambda>_. power_of) (Admissions (council s))"

text \<open>
  Validator power is exactly what governance granted: a successful admission mints the power
  it names and nothing else, the operator receives it, the council's records grow by the same
  amount, and the operator's total stays within the cap of the parameters.
\<close>

theorem admission_mints_power:
  assumes "bank_laws E"
    and "council_handle E (MsgAdmitValidator a opr pw memo) s = (Inr (), t)"
  shows "\<exists>op p cap. a = authority E \<and> AccFromBech32 E opr = Some op \<and> pw = Some p \<and> 0 < p \<and>
    BankSupply E (ext t) PowerDenom - granted t = BankSupply E (ext s) PowerDenom - granted s \<and>
    granted t = granted s + p \<and>
    BankBalance E (ext t) op PowerDenom = BankBalance E (ext s) op PowerDenom + p \<and>
    cp_MaxPowerPerValidator (council_GetParams s) = Some cap \<and>
    power_of (the (fmlookup (Admissions (council t)) (AccString E op))) \<le> cap \<and> IsAdmitted E t op"
proof -
  from assms(2) have run: "msg_AdmitValidator E a opr pw memo s = (Inr (), t)" by (simp add: atomic_Inr)
  from handle_admit [OF run] obtain op where op: "a = authority E" "AccFromBech32 E opr = Some op"
    and "keeper_AdmitValidator E op pw memo s = (Inr (), t)" by blast
  from admit_run [OF this(3)] obtain p cap g adm x1 x2 where
    r: "pw = Some p" "0 < p" "cp_MaxPowerPerValidator (council_GetParams s) = Some cap"
      "ad_PowerGranted adm = Some g" "g + p \<le> cap" "\<not> ad_Removed adm"
      "BankMint E ''council'' (coins1 PowerDenom p) (ext s) = Inr x1"
      "BankM2A E ''council'' op (coins1 PowerDenom p) x1 = Inr x2"
      "t = s\<lparr>ext := x2, council := (council s)\<lparr>Admissions := fmupd (AccString E op)
            (adm\<lparr>ad_PowerGranted := Some (g + p), ad_Memo := memo\<rparr>) (Admissions (council s))\<rparr>,
          events := events s @ [EvAdmitValidator op p (g + p)]\<rparr>"
    and old: "fmlookup (Admissions (council s)) (AccString E op) = Some adm \<or>
      fmlookup (Admissions (council s)) (AccString E op) = None \<and> g = 0"
    by blast
  note b = bank_Mint [OF assms(1) r(7)] bank_M2A [OF assms(1) r(8)]
  have at: "kv_at (\<lambda>_. power_of) (Admissions (council s)) (AccString E op) = g"
    using old r(4) by (auto simp: kv_at_def power_of_def)
  have "granted t = granted s + p"
    by (simp add: granted_def r(9) kv_sum_upd at) (simp add: power_of_def)
  moreover have "BankSupply E (ext t) PowerDenom = BankSupply E (ext s) PowerDenom + p"
    by (simp add: r(9) b)
  moreover have "BankBalance E (ext t) op PowerDenom = BankBalance E (ext s) op PowerDenom + p"
    by (simp add: r(9) b moved_def)
  moreover have "IsAdmitted E t op" "power_of (the (fmlookup (Admissions (council t)) (AccString E op))) \<le> cap"
    using r by (simp_all add: IsAdmitted_def power_of_def)
  ultimately show ?thesis using op r(1-3) by auto
qed

theorem admission_mints_power_witness:
  "\<exists>t. council_handle ref_env (MsgAdmitValidator ''gov'' ''val'' (Some 7) []) council_ex = (Inr (), t) \<and>
     granted t = 12 \<and> IsAdmitted ref_env t (string_bytes ''val'')"
proof -
  let ?m = "MsgAdmitValidator ''gov'' ''val'' (Some 7) []"
  have "fst (council_handle ref_env ?m council_ex) = Inr ()" by code_simp
  then obtain t where t: "council_handle ref_env ?m council_ex = (Inr (), t)" by (metis prod.collapse)
  have "granted council_ex = 5" by (simp add: granted_def kv_sum_entries) code_simp
  moreover have "AccFromBech32 ref_env ''val'' = Some (string_bytes ''val'')" by code_simp
  ultimately show ?thesis
    using t admission_mints_power [OF ref_bank_laws t] by (auto simp del: council_handle.simps)
qed

section \<open>Genesis\<close>

text \<open>What the store of a started chain looks like: every entry under its own key, parameters and
  a provenance record present.\<close>

definition council_wf :: "'x chain \<Rightarrow> bool" where
  "council_wf s \<longleftrightarrow>
     (\<forall>k a. fmlookup (Admissions (council s)) k = Some a \<longrightarrow> ad_Operator a = k) \<and>
     (\<forall>k p. fmlookup (Pauses (council s)) k = Some p \<longrightarrow> pa_Target p = k) \<and>
     c_Params (council s) \<noteq> None \<and>
     (\<exists>p. ProvenanceItem (council s) = Some p \<and> pv_Fingerprint p \<noteq> [])"

lemma council_wf_keepsR:
  "keepsR council_wf (msg_AdmitValidator E a opr pw memo)"
  "keepsR council_wf (msg_RemoveValidator E a opr why)"
  "keepsR council_wf (msg_SetPause E g tg b why)"
  "keepsR council_wf (msg_council_UpdateParams E a p)"
proof -
  show "keepsR council_wf (msg_AdmitValidator E a opr pw memo)"
    by (rule keepsRI) (auto simp: council_wf_def dest!: handle_admit(2) admit_run split: if_splits)
  show "keepsR council_wf (msg_RemoveValidator E a opr why)"
    by (rule keepsRI) (auto simp: council_wf_def dest!: handle_remove(2) remove_run split: if_splits)
  show "keepsR council_wf (msg_SetPause E g tg b why)"
  proof (rule keepsRI)
    fix s x t assume wf: "council_wf s" and "msg_SetPause E g tg b why s = (Inr x, t)"
    then have run: "msg_SetPause E g tg b why s = (Inr (), t)" by simp
    from wf show "council_wf t"
      by (cases b) (auto simp: council_wf_def handle_pause(4) [OF run] dest: handle_pause(3) [OF run] split: if_splits)
  qed
  show "keepsR council_wf (msg_council_UpdateParams E a p)"
    by (rule keepsRI) (auto simp: council_wf_def dest: handle_params(3))
qed

lemma council_wf_step: "council_step E s t \<Longrightarrow> council_wf s \<Longrightarrow> council_wf t"
proof (induction rule: council_step.induct)
  case (message m s r t)
  from keepsD [OF council_handle_keeps [OF council_wf_keepsR] message(2,1)] show ?case .
next
  case (safe_mode "by" why s r t)
  then show ?case by (auto simp: setpause_run council_wf_def split: option.splits)
next
  case (end_block s r t)
  have "keeps council_wf PruneExpiredPauses" by (rule prune_keeps) (auto simp: council_wf_def)
  from keepsD [OF this end_block(2,1)] show ?case .
qed (simp add: council_wf_def)

lemma foldl_admissions:
  "foldl (\<lambda>s a. s\<lparr>council := (council s)\<lparr>Admissions := fmupd (ad_Operator a) a (Admissions (council s))\<rparr>\<rparr>) s as =
   s\<lparr>council := (council s)\<lparr>Admissions := foldl (\<lambda>m a. fmupd (ad_Operator a) a m) (Admissions (council s)) as\<rparr>\<rparr>"
  by (induction as arbitrary: s) simp_all

lemma foldl_pauses:
  "foldl (\<lambda>s p. s\<lparr>council := (council s)\<lparr>Pauses := fmupd (pa_Target p) p (Pauses (council s))\<rparr>\<rparr>) s ps =
   s\<lparr>council := (council s)\<lparr>Pauses := foldl (\<lambda>m p. fmupd (pa_Target p) p m) (Pauses (council s)) ps\<rparr>\<rparr>"
  by (induction ps arbitrary: s) simp_all

lemma council_init_run:
  "council_InitGenesis E gs s = (Inr (), s\<lparr>council :=
     \<lparr>c_Params = Some (cg_Params gs),
      Admissions = foldl (\<lambda>m a. fmupd (ad_Operator a) a m) (Admissions (council s)) (cg_Admissions gs),
      Pauses = foldl (\<lambda>m p. fmupd (pa_Target p) p m) (Pauses (council s)) (cg_Pauses gs),
      ProvenanceItem = Some (if pv_Fingerprint (cg_Provenance gs) = [] then DefaultProvenance E (chain_id s)
                             else cg_Provenance gs)\<rparr>\<rparr>)"
  unfolding council_InitGenesis_def put_admission_def forM_modify_fun foldl_admissions foldl_pauses
  by (simp add: exec_simps)

lemma council_init_wf:
  assumes "council_InitGenesis E gs s = (r, t)" "Admissions (council s) = fmempty" "Pauses (council s) = fmempty"
  shows "council_wf t"
proof -
  have adm: "\<forall>k a. fmlookup (foldl (\<lambda>m a. fmupd (ad_Operator a) a m) fmempty as) k = Some a \<longrightarrow> ad_Operator a = k" for as
    by (induction as rule: rev_induct) auto
  have pau: "\<forall>k p. fmlookup (foldl (\<lambda>m p. fmupd (pa_Target p) p m) fmempty ps) k = Some p \<longrightarrow> pa_Target p = k" for ps
    by (induction ps rule: rev_induct) auto
  show ?thesis
    using assms adm [of "cg_Admissions gs"] pau [of "cg_Pauses gs"]
    by (auto simp: council_init_run council_wf_def DefaultProvenance_def Fingerprint_def)
qed

lemma council_restore:
  assumes "council_wf s" "Admissions (council u) = fmempty" "Pauses (council u) = fmempty"
  shows "council_InitGenesis E (council_ExportGenesis s) u = (Inr (), u\<lparr>council := council s\<rparr>)"
proof -
  have "foldl (\<lambda>m a. fmupd (ad_Operator a) a m) fmempty (map snd (entries (Admissions (council s)))) = Admissions (council s)"
    using assms(1) restore_entries [of "Admissions (council s)" ad_Operator snd id]
    by (simp add: council_wf_def)
  moreover have "foldl (\<lambda>m p. fmupd (pa_Target p) p m) fmempty (map snd (entries (Pauses (council s)))) = Pauses (council s)"
    using assms(1) restore_entries [of "Pauses (council s)" pa_Target snd id]
    by (simp add: council_wf_def)
  ultimately show ?thesis
    using assms
    by (auto simp: council_init_run council_ExportGenesis_def council_GetParams_def ProvenanceRecord_def council_wf_def
        intro!: council_store.equality)
qed

text \<open>
  A chain can be exported and restarted: from every state a started chain can reach, importing
  the exported council genesis into an empty store gives back the same council state, admissions,
  bans, pauses and provenance included.
\<close>

theorem council_genesis_roundtrip:
  assumes "council_InitGenesis E gs s0 = (Inr (), s)"
    and "Admissions (council s0) = fmempty" and "Pauses (council s0) = fmempty"
    and "(council_step E)\<^sup>*\<^sup>* s t"
    and "Admissions (council u) = fmempty" and "Pauses (council u) = fmempty"
  shows "council_InitGenesis E (council_ExportGenesis t) u = (Inr (), u\<lparr>council := council t\<rparr>)"
proof -
  have "council_wf s" using council_init_wf [OF assms(1-3)] .
  with assms(4) have "council_wf t" by (induction rule: rtranclp_induct) (auto dest: council_wf_step)
  with assms(5,6) show ?thesis by (intro council_restore)
qed

definition council_ex_genesis :: council_genesis where
  "council_ex_genesis = \<lparr>cg_Params = council_DefaultParams, cg_Admissions = [], cg_Pauses = [], cg_Provenance = no_provenance\<rparr>"

theorem council_genesis_roundtrip_witness:
  "\<exists>s t. council_InitGenesis ref_env council_ex_genesis (ref_chain (ref_genesis [])) = (Inr (), s) \<and>
     council_handle ref_env (MsgAdmitValidator ''gov'' ''val'' (Some 9) ''first'') s = (Inr (), t) \<and>
     council_InitGenesis ref_env (council_ExportGenesis t) (ref_chain (ref_genesis [])) =
       (Inr (), (ref_chain (ref_genesis []))\<lparr>council := council t\<rparr>)"
proof -
  let ?s0 = "ref_chain (ref_genesis [])" and ?m = "MsgAdmitValidator ''gov'' ''val'' (Some 9) ''first''"
  define s where "s = snd (council_InitGenesis ref_env council_ex_genesis ?s0)"
  have init: "council_InitGenesis ref_env council_ex_genesis ?s0 = (Inr (), s)"
    by (simp add: council_init_run s_def)
  have "fst (council_handle ref_env ?m (snd (council_InitGenesis ref_env council_ex_genesis ?s0))) = Inr ()"
    by code_simp
  then obtain t where t: "council_handle ref_env ?m s = (Inr (), t)" unfolding s_def by (metis prod.collapse)
  have empty: "Admissions (council ?s0) = fmempty" "Pauses (council ?s0) = fmempty" by (simp_all add: ref_chain_def)
  have "(council_step ref_env)\<^sup>*\<^sup>* s t" using council_step.message [OF t] by blast
  from council_genesis_roundtrip [OF init empty this empty] init t show ?thesis by blast
qed

end
