(* ===== verification/AnteGuard.thy ===== *)
theory AnteGuard
  imports Council
begin

text \<open>
  The council's ante check, \<open>chain/app/ante.go\<close>: before a transaction runs, its messages and the
  messages nested in \<open>authz.MsgExec\<close> are searched for an unjail of a removed validator. A message
  is what the type switch sees of it; \<open>MsgExec\<close> carries \<open>None\<close> when \<open>GetMessages\<close> fails.
\<close>

datatype sdk_msg =
    MsgUnjail string
  | MsgExec "sdk_msg list option"
  | OtherMsg

definition maxAuthzNesting :: nat where "maxAuthzNesting = 6"

fun checkMsgs :: "'x env \<Rightarrow> 'x chain \<Rightarrow> sdk_msg list \<Rightarrow> nat \<Rightarrow> err option"
  and checkMsg :: "'x env \<Rightarrow> 'x chain \<Rightarrow> sdk_msg \<Rightarrow> nat \<Rightarrow> err option"
  and checkList :: "'x env \<Rightarrow> 'x chain \<Rightarrow> sdk_msg list \<Rightarrow> nat \<Rightarrow> err option" where
  "checkMsgs E s msgs depth =
     (if maxAuthzNesting < depth then Some (ECouncil CErrUnauthorized) else checkList E s msgs depth)"
| "checkList E s [] depth = None"
| "checkList E s (m # ms) depth =
     (case checkMsg E s m depth of None \<Rightarrow> checkList E s ms depth | Some e \<Rightarrow> Some e)"
| "checkMsg E s (MsgUnjail v) depth =
     (case ValFromBech32 E v of
        None \<Rightarrow> Some EBech32
      | Some a \<Rightarrow> if IsRemoved E s a then Some (ECouncil CErrRemoved) else None)"
| "checkMsg E s (MsgExec None) depth = Some (EExternal 1)"
| "checkMsg E s (MsgExec (Some inner)) depth = checkMsgs E s inner (depth + 1)"
| "checkMsg E s OtherMsg depth = None"

text \<open>\<open>NewCouncilGuardAnte\<close>: the wrapped handler runs only when the check passes.\<close>

definition CouncilGuardAnte :: "'x env \<Rightarrow> (sdk_msg list \<Rightarrow> ('x, unit) call) \<Rightarrow> sdk_msg list \<Rightarrow> ('x, unit) call" where
  "CouncilGuardAnte E nxt msgs =
     (\<lambda>s. case checkMsgs E s msgs 0 of Some e \<Rightarrow> (Inl e, s) | None \<Rightarrow> nxt msgs s)"

text \<open>\<open>within n m ms\<close>: \<open>m\<close> is in \<open>ms\<close>, below \<open>n\<close> layers of \<open>MsgExec\<close>.\<close>

inductive within :: "nat \<Rightarrow> sdk_msg \<Rightarrow> sdk_msg list \<Rightarrow> bool" where
  here: "m \<in> set ms \<Longrightarrow> within 0 m ms"
| nested: "MsgExec (Some inner) \<in> set ms \<Longrightarrow> within n m inner \<Longrightarrow> within (Suc n) m ms"

inductive_simps within_0: "within 0 m ms"
inductive_simps within_Suc: "within (Suc n) m ms"

text \<open>What a message must be, apart from the ones nested in it.\<close>

definition msg_ok :: "'x env \<Rightarrow> 'x chain \<Rightarrow> nat \<Rightarrow> sdk_msg \<Rightarrow> bool" where
  "msg_ok E s depth m \<longleftrightarrow>
     (case m of
        MsgUnjail v \<Rightarrow> (\<exists>a. ValFromBech32 E v = Some a \<and> \<not> IsRemoved E s a)
      | MsgExec inner \<Rightarrow> inner \<noteq> None \<and> depth < maxAuthzNesting
      | OtherMsg \<Rightarrow> True)"

lemma checkList_all: "checkList E s ms d = None \<longleftrightarrow> (\<forall>m \<in> set ms. checkMsg E s m d = None)"
  by (induction ms) (auto split: option.splits)

lemma checkMsgs_within:
  "d \<le> maxAuthzNesting \<Longrightarrow> checkMsgs E s ms d = None \<Longrightarrow> within n m ms \<Longrightarrow> msg_ok E s (d + n) m"
proof (induction n arbitrary: d ms)
  case 0
  then have "checkMsg E s m d = None" by (auto simp: within_0 checkList_all)
  then show ?case
    using 0 by (cases m) (auto simp: msg_ok_def split: option.splits if_splits
        elim: checkMsg.elims)
next
  case (Suc n)
  then obtain inner where i: "MsgExec (Some inner) \<in> set ms" "within n m inner" by (auto simp: within_Suc)
  from Suc.prems have "checkList E s ms d = None" by (simp split: if_splits)
  with i(1) have "checkMsg E s (MsgExec (Some inner)) d = None" by (simp add: checkList_all del: checkMsg.simps)
  then have "checkMsgs E s inner (d + 1) = None" by (simp del: checkMsgs.simps)
  moreover from this have "d + 1 \<le> maxAuthzNesting" by (auto split: if_splits)
  ultimately show ?case using Suc.IH [OF _ _ i(2)] by fastforce
qed

lemma within_Cons: "within n m [x] \<Longrightarrow> x \<in> set ms \<Longrightarrow> within n m ms"
  by (cases n) (auto simp: within_0 within_Suc)

lemma within_checkMsgs:
  "d \<le> maxAuthzNesting \<Longrightarrow> (\<And>n m. within n m ms \<Longrightarrow> msg_ok E s (d + n) m) \<Longrightarrow> checkMsgs E s ms d = None"
  "d \<le> maxAuthzNesting \<Longrightarrow> (\<And>n m'. within n m' [m] \<Longrightarrow> msg_ok E s (d + n) m') \<Longrightarrow> checkMsg E s m d = None"
  "d \<le> maxAuthzNesting \<Longrightarrow> (\<And>n m. within n m ms \<Longrightarrow> msg_ok E s (d + n) m) \<Longrightarrow> checkList E s ms d = None"
proof (induction E s ms d and E s m d and E s ms d rule: checkMsgs_checkMsg_checkList.induct)
  case (3 E s m ms depth)
  have "checkMsg E s m depth = None"
  proof (rule 3(1) [OF 3(3)])
    fix n m' assume "within n m' [m]"
    then have "within n m' (m # ms)" by (rule within_Cons) simp
    then show "msg_ok E s (depth + n) m'" by (rule 3(4))
  qed
  moreover from this have "checkList E s ms depth = None"
  proof (rule 3(2) [OF _ 3(3)])
    fix n m' assume "within n m' ms"
    then have "within n m' (m # ms)" by (cases n) (auto simp: within_0 within_Suc)
    then show "msg_ok E s (depth + n) m'" by (rule 3(4))
  qed
  ultimately show ?case by simp
next
  case (4 E s v depth)
  have "msg_ok E s (depth + 0) (MsgUnjail v)" by (rule 4(2)) (simp add: within_0)
  then show ?case by (auto simp: msg_ok_def)
next
  case (5 E s depth)
  have "msg_ok E s (depth + 0) (MsgExec None)" by (rule 5(2)) (simp add: within_0)
  then show ?case by (simp add: msg_ok_def)
next
  case (6 E s inner depth)
  have "msg_ok E s (depth + 0) (MsgExec (Some inner))" by (rule 6(3)) (simp add: within_0)
  then have "depth + 1 \<le> maxAuthzNesting" by (simp add: msg_ok_def)
  then have "checkMsgs E s inner (depth + 1) = None"
  proof (rule 6(1))
    fix n m assume "within n m inner"
    then have "within (Suc n) m [MsgExec (Some inner)]" by (auto simp: within_Suc)
    from 6(3) [OF this] show "msg_ok E s (depth + 1 + n) m" by simp
  qed
  then show ?case by simp
qed auto

text \<open>
  C25. The ante check is exact: the wrapped handler runs if and only if every message of the
  transaction, at any depth of \<open>MsgExec\<close>, is acceptable: an unjail names a valid operator that the
  council has not removed, and no \<open>MsgExec\<close> is undecodable or nested deeper than the limit.
  Otherwise the transaction is refused and nothing changes.
\<close>

theorem ante_exact:
  "(if \<forall>n m. within n m msgs \<longrightarrow> msg_ok E s n m
    then CouncilGuardAnte E nxt msgs s = nxt msgs s
    else \<exists>e. CouncilGuardAnte E nxt msgs s = (Inl e, s)) \<and>
   (\<forall>n v a. within n (MsgUnjail v) msgs \<and> ValFromBech32 E v = Some a \<and> IsRemoved E s a \<longrightarrow>
      (\<exists>e. CouncilGuardAnte E nxt msgs s = (Inl e, s)))"
proof -
  have all: "checkMsgs E s msgs 0 = None \<longleftrightarrow> (\<forall>n m. within n m msgs \<longrightarrow> msg_ok E s n m)"
    using checkMsgs_within [of 0 E s msgs] within_checkMsgs(1) [of 0 msgs E s] by auto
  moreover have "\<not> msg_ok E s n (MsgUnjail v)" if "ValFromBech32 E v = Some a" "IsRemoved E s a" for n v a
    using that by (simp add: msg_ok_def)
  then have "\<exists>e. checkMsgs E s msgs 0 = Some e"
    if "within n (MsgUnjail v) msgs" "ValFromBech32 E v = Some a" "IsRemoved E s a" for n v a
    using that all by (meson not_None_eq)
  ultimately show ?thesis
    by (cases "checkMsgs E s msgs 0") (fastforce simp: CouncilGuardAnte_def simp del: checkMsgs.simps)+
qed

theorem ante_exact_witness:
  "within 2 (MsgUnjail ''val'') [OtherMsg, MsgExec (Some [MsgExec (Some [MsgUnjail ''val''])])] \<and>
   (\<exists>e. CouncilGuardAnte ref_env (\<lambda>_. ret ()) [OtherMsg, MsgExec (Some [MsgExec (Some [MsgUnjail ''val''])])] council_ex_removed =
     (Inl e, council_ex_removed)) \<and>
   CouncilGuardAnte ref_env (\<lambda>_. ret ()) [MsgUnjail ''val''] council_ex = (Inr (), council_ex)"
proof -
  let ?ms = "[OtherMsg, MsgExec (Some [MsgExec (Some [MsgUnjail ''val''])])]"
  have w: "within 2 (MsgUnjail ''val'') ?ms"
    by (simp add: numeral_2_eq_2 within_Suc within_0)
  moreover have "ValFromBech32 ref_env ''val'' = Some (string_bytes ''val'')" by code_simp
  moreover have "IsRemoved ref_env council_ex_removed (string_bytes ''val'')" by code_simp
  ultimately have "\<exists>e. CouncilGuardAnte ref_env (\<lambda>_. ret ()) ?ms council_ex_removed = (Inl e, council_ex_removed)"
    using ante_exact [of ?ms ref_env council_ex_removed "\<lambda>_. ret ()"] by blast
  moreover have "checkMsgs ref_env council_ex [MsgUnjail ''val''] 0 = None" by code_simp
  then have "CouncilGuardAnte ref_env (\<lambda>_. ret ()) [MsgUnjail ''val''] council_ex = (Inr (), council_ex)"
    by (simp add: CouncilGuardAnte_def ret_def del: checkMsgs.simps)
  ultimately show ?thesis using w by blast
qed

end
