(* ===== verification/IbcGuard.thy ===== *)
theory IbcGuard
  imports Council
begin

text \<open>
  The ICS-20 circuit breaker, \<open>chain/x/council/ibcguard/middleware.go\<close>. The packages of ibc-go are
  parameters: how a packet is decoded, how a denom path is split (\<open>ibc_env\<close>), and the wrapped
  application and ICS-4 wrapper (the functions the handlers take). The middleware asks a
  \<open>PauseChecker\<close> interface whether a transfer is paused; the locale states what it relies on, and
  the council's \<open>IsIBCPaused\<close> provides it.
\<close>

record trace_denom =
  d_Base :: string
  d_Path :: string
  d_IBCDenom :: string

record packet =
  p_SourcePort :: string
  p_SourceChannel :: string
  p_DestPort :: string
  p_DestChannel :: string
  p_Data :: "byte list"

text \<open>\<open>UnmarshalPacket\<close> gives the denom of a fungible token packet, the one field that is used.\<close>

record ibc_env =
  UnmarshalPacket :: "byte list \<Rightarrow> string option"
  ExtractDenomFromPath :: "string \<Rightarrow> trace_denom"

definition CreditDenom :: denom where "CreditDenom = ''acredit''"

definition neverLeaves :: "string \<Rightarrow> bool" where
  "neverLeaves b \<longleftrightarrow> b = CreditDenom \<or> b = PowerDenom"

definition ibc_parse :: "ibc_env \<Rightarrow> byte list \<Rightarrow> string option" where
  "ibc_parse I bz = UnmarshalPacket I bz"

definition sendDenoms :: "ibc_env \<Rightarrow> string \<Rightarrow> string list" where
  "sendDenoms I dn = (let d = ExtractDenomFromPath I dn in [d_Base d, d_Path d, d_IBCDenom d])"

definition recvDenoms :: "ibc_env \<Rightarrow> packet \<Rightarrow> string \<Rightarrow> string list" where
  "recvDenoms I p dn =
     (let d = ExtractDenomFromPath I dn;
          prefix = p_SourcePort p @ ''/'' @ p_SourceChannel p @ ''/'';
          local = (if HasPrefix dn prefix
                   then ExtractDenomFromPath I (TrimPrefix dn prefix)
                   else ExtractDenomFromPath I (p_DestPort p @ ''/'' @ p_DestChannel p @ ''/'' @ dn))
      in [d_Base d, d_Path d, d_IBCDenom local])"

text \<open>An acknowledgement: an error, or what the application answers.\<close>

datatype 'a ack = ErrorAck err | AppAck 'a

definition OnRecvPacket ::
  "ibc_env \<Rightarrow> ('s \<Rightarrow> string list \<Rightarrow> bool) \<Rightarrow> (packet \<Rightarrow> 's \<Rightarrow> 'a ack \<times> 's) \<Rightarrow> packet \<Rightarrow> 's \<Rightarrow> 'a ack \<times> 's" where
  "OnRecvPacket I guard app p s =
     (case ibc_parse I (p_Data p) of
        None \<Rightarrow> app p s
      | Some dn \<Rightarrow>
          if guard s (recvDenoms I p dn) then (ErrorAck (ECouncil CErrPaused), s) else app p s)"

definition OnAcknowledgementPacket :: "(packet \<Rightarrow> byte list \<Rightarrow> (err, 's, unit) run) \<Rightarrow> packet \<Rightarrow> byte list \<Rightarrow> (err, 's, unit) run" where
  "OnAcknowledgementPacket app p a = app p a"

definition OnTimeoutPacket :: "(packet \<Rightarrow> (err, 's, unit) run) \<Rightarrow> packet \<Rightarrow> (err, 's, unit) run" where
  "OnTimeoutPacket app p = app p"

definition SendPacket ::
  "ibc_env \<Rightarrow> ('s \<Rightarrow> string list \<Rightarrow> bool) \<Rightarrow> (byte list \<Rightarrow> (err, 's, u64) run) \<Rightarrow> byte list \<Rightarrow> (err, 's, u64) run" where
  "SendPacket I guard ics4 bz =
     (\<lambda>s. case ibc_parse I bz of
        None \<Rightarrow> ics4 bz s
      | Some dn \<Rightarrow>
          let denoms = sendDenoms I dn
          in if neverLeaves (denoms ! 0) \<and> denoms ! 0 = denoms ! 2 then (Inl (ECouncil CErrPaused), s)
             else if guard s denoms then (Inl (ECouncil CErrPaused), s)
             else ics4 bz s)"

section \<open>The interface\<close>

text \<open>A list of spellings is paused when everything is, or when one of the spellings is.\<close>

locale pause_checker =
  fixes is_paused :: "'s \<Rightarrow> string list \<Rightarrow> bool"
  assumes any_spelling: "is_paused s ds \<longleftrightarrow> is_paused s [] \<or> (\<exists>d \<in> set ds. is_paused s [d])"
begin

lemma send_refused:
  assumes "ibc_parse I bz = Some dn" "d \<in> set (sendDenoms I dn)" "is_paused s [d]"
  shows "SendPacket I is_paused ics4 bz s = (Inl (ECouncil CErrPaused), s)"
  using assms any_spelling [of s "sendDenoms I dn"] by (auto simp: SendPacket_def Let_def)

lemma send_passes:
  assumes "ibc_parse I bz = Some dn" "\<not> neverLeaves (d_Base (ExtractDenomFromPath I dn))"
    "\<not> is_paused s []" "\<forall>d \<in> set (sendDenoms I dn). \<not> is_paused s [d]"
  shows "SendPacket I is_paused ics4 bz s = ics4 bz s"
  using assms any_spelling [of s "sendDenoms I dn"] by (auto simp: SendPacket_def Let_def sendDenoms_def)

lemma recv_refused:
  assumes "ibc_parse I (p_Data p) = Some dn" "d \<in> set (recvDenoms I p dn)" "is_paused s [d]"
  shows "OnRecvPacket I is_paused app p s = (ErrorAck (ECouncil CErrPaused), s)"
  using assms any_spelling [of s "recvDenoms I p dn"] by (auto simp: OnRecvPacket_def)

lemma recv_passes:
  assumes "ibc_parse I (p_Data p) = Some dn"
    "\<not> is_paused s []" "\<forall>d \<in> set (recvDenoms I p dn). \<not> is_paused s [d]"
  shows "OnRecvPacket I is_paused app p s = app p s"
  using assms any_spelling [of s "recvDenoms I p dn"] by (auto simp: OnRecvPacket_def)

lemma all_refused:
  assumes "is_paused s []"
  shows "ibc_parse I bz = Some dn \<Longrightarrow> SendPacket I is_paused ics4 bz s = (Inl (ECouncil CErrPaused), s)"
    and "ibc_parse I (p_Data p) = Some dn \<Longrightarrow> OnRecvPacket I is_paused app p s = (ErrorAck (ECouncil CErrPaused), s)"
  using assms any_spelling [of s "recvDenoms I p dn"] any_spelling [of s "sendDenoms I dn"]
  by (auto simp: SendPacket_def OnRecvPacket_def Let_def)

end

lemma ibc_paused_any:
  "IsIBCPaused s ds \<longleftrightarrow> IsIBCPaused s [] \<or> (\<exists>d \<in> set ds. IsIBCPaused s [d])"
  by (auto simp: IsIBCPaused_def list_ex_iff)

interpretation ibcp: pause_checker IsIBCPaused
  by unfold_locales (rule ibc_paused_any)

section \<open>Spellings of a denom\<close>

text \<open>
  What a transfer is about, independent of the lists of the code. Outwards: the base denom, the full
  path and the denom on this chain. Inwards the packet names the token as the sender knows it, and
  ICS-20 says what the receiver is credited: a token whose path starts with the sender's port and
  channel comes home, and is the rest of its path here; any other becomes a voucher, with the
  receiving port and channel in front.
\<close>

definition leaves_as :: "ibc_env \<Rightarrow> string \<Rightarrow> string \<Rightarrow> bool" where
  "leaves_as I dn d \<longleftrightarrow>
     (\<exists>x. x = ExtractDenomFromPath I dn \<and> (d = d_Base x \<or> d = d_Path x \<or> d = d_IBCDenom x))"

definition credited :: "ibc_env \<Rightarrow> packet \<Rightarrow> string \<Rightarrow> string \<Rightarrow> bool" where
  "credited I p dn d \<longleftrightarrow>
     (\<exists>rest. dn = p_SourcePort p @ ''/'' @ p_SourceChannel p @ ''/'' @ rest \<and> d = d_IBCDenom (ExtractDenomFromPath I rest)) \<or>
     (\<nexists>rest. dn = p_SourcePort p @ ''/'' @ p_SourceChannel p @ ''/'' @ rest) \<and>
       d = d_IBCDenom (ExtractDenomFromPath I (p_DestPort p @ ''/'' @ p_DestChannel p @ ''/'' @ dn))"

definition arrives_as :: "ibc_env \<Rightarrow> packet \<Rightarrow> string \<Rightarrow> string \<Rightarrow> bool" where
  "arrives_as I p dn d \<longleftrightarrow>
     d = d_Base (ExtractDenomFromPath I dn) \<or> d = d_Path (ExtractDenomFromPath I dn) \<or> credited I p dn d"

lemma prefix_rest: "HasPrefix dn pre \<longleftrightarrow> (\<exists>rest. dn = pre @ rest)"
  unfolding HasPrefix_def by (metis append_eq_conv_conj append_take_drop_id)

lemma send_spellings: "d \<in> set (sendDenoms I dn) \<longleftrightarrow> leaves_as I dn d"
  by (auto simp: sendDenoms_def leaves_as_def Let_def)

lemma recv_spellings: "d \<in> set (recvDenoms I p dn) \<longleftrightarrow> arrives_as I p dn d"
proof (cases "HasPrefix dn (p_SourcePort p @ ''/'' @ p_SourceChannel p @ ''/'')")
  case True
  then obtain rest where dn: "dn = p_SourcePort p @ ''/'' @ p_SourceChannel p @ ''/'' @ rest" by (auto simp: prefix_rest)
  then have "TrimPrefix dn (p_SourcePort p @ ''/'' @ p_SourceChannel p @ ''/'') = rest"
    using True by (simp add: TrimPrefix_def)
  then show ?thesis
    using True dn by (auto simp: recvDenoms_def arrives_as_def credited_def Let_def)
next
  case False
  then have "\<nexists>rest. dn = p_SourcePort p @ ''/'' @ p_SourceChannel p @ ''/'' @ rest" by (simp add: prefix_rest)
  with False show ?thesis by (auto simp: recvDenoms_def arrives_as_def credited_def Let_def)
qed

section \<open>Properties\<close>

text \<open>
  C26. The gas credit and the validator power never leave the chain, and a pause of \<open>ibc\<close> or of any
  spelling of the denom stops the transfer before the wrapped application runs and with no change of
  state: outwards of its base, its path and its denom on this chain; inwards of the base and the path
  in the packet and of the denom the receiver would be credited, which is the voucher of this
  channel, or the original token when it comes home. Every other packet reaches the application, and
  acknowledgements and timeouts, which refund senders, always do.
\<close>

theorem ibc_circuit_breaker:
  assumes "ibc_parse I (p_Data p) = Some dn"
  shows "(neverLeaves (d_Base (ExtractDenomFromPath I dn)) \<and>
      d_IBCDenom (ExtractDenomFromPath I dn) = d_Base (ExtractDenomFromPath I dn) \<longrightarrow>
        SendPacket I IsIBCPaused ics4 (p_Data p) s = (Inl (ECouncil CErrPaused), s)) \<and>
    (IsPaused s TargetIBC \<or> (\<exists>d. leaves_as I dn d \<and> d \<noteq> [] \<and> IsPaused s (TargetIBCPrefix @ d)) \<longrightarrow>
        SendPacket I IsIBCPaused ics4 (p_Data p) s = (Inl (ECouncil CErrPaused), s)) \<and>
    (\<not> IsPaused s TargetIBC \<and> (\<forall>d. leaves_as I dn d \<and> d \<noteq> [] \<longrightarrow> \<not> IsPaused s (TargetIBCPrefix @ d)) \<and>
        \<not> neverLeaves (d_Base (ExtractDenomFromPath I dn)) \<longrightarrow>
        SendPacket I IsIBCPaused ics4 (p_Data p) s = ics4 (p_Data p) s) \<and>
    (IsPaused s TargetIBC \<or> (\<exists>d. arrives_as I p dn d \<and> d \<noteq> [] \<and> IsPaused s (TargetIBCPrefix @ d)) \<longrightarrow>
        OnRecvPacket I IsIBCPaused app p s = (ErrorAck (ECouncil CErrPaused), s)) \<and>
    (\<not> IsPaused s TargetIBC \<and> (\<forall>d. arrives_as I p dn d \<and> d \<noteq> [] \<longrightarrow> \<not> IsPaused s (TargetIBCPrefix @ d)) \<longrightarrow>
        OnRecvPacket I IsIBCPaused app p s = app p s) \<and>
    OnAcknowledgementPacket on_ack p a = on_ack p a \<and> OnTimeoutPacket on_timeout p = on_timeout p"
  (is "?internal \<and> ?out_stop \<and> ?out_pass \<and> ?in_stop \<and> ?in_pass \<and> ?refunds")
  unfolding send_spellings [symmetric] recv_spellings [symmetric]
proof (intro conjI)
  show ?internal using assms by (simp add: SendPacket_def sendDenoms_def Let_def)
  show "IsPaused s TargetIBC \<or> (\<exists>d. d \<in> set (sendDenoms I dn) \<and> d \<noteq> [] \<and> IsPaused s (TargetIBCPrefix @ d)) \<longrightarrow>
      SendPacket I IsIBCPaused ics4 (p_Data p) s = (Inl (ECouncil CErrPaused), s)"
    using ibcp.send_refused [OF assms, of _ s ics4] ibcp.all_refused(1) [of s I "p_Data p" dn ics4] assms
    by (auto simp: IsIBCPaused_def)
  show "\<not> IsPaused s TargetIBC \<and> (\<forall>d. d \<in> set (sendDenoms I dn) \<and> d \<noteq> [] \<longrightarrow> \<not> IsPaused s (TargetIBCPrefix @ d)) \<and>
      \<not> neverLeaves (d_Base (ExtractDenomFromPath I dn)) \<longrightarrow>
      SendPacket I IsIBCPaused ics4 (p_Data p) s = ics4 (p_Data p) s"
    using ibcp.send_passes [OF assms, of s ics4] by (auto simp: IsIBCPaused_def)
  show "IsPaused s TargetIBC \<or> (\<exists>d. d \<in> set (recvDenoms I p dn) \<and> d \<noteq> [] \<and> IsPaused s (TargetIBCPrefix @ d)) \<longrightarrow>
      OnRecvPacket I IsIBCPaused app p s = (ErrorAck (ECouncil CErrPaused), s)"
    using ibcp.recv_refused [OF assms, of _ s app] ibcp.all_refused(2) [of s I p dn app] assms
    by (auto simp: IsIBCPaused_def)
  show "\<not> IsPaused s TargetIBC \<and> (\<forall>d. d \<in> set (recvDenoms I p dn) \<and> d \<noteq> [] \<longrightarrow> \<not> IsPaused s (TargetIBCPrefix @ d)) \<longrightarrow>
      OnRecvPacket I IsIBCPaused app p s = app p s"
    using ibcp.recv_passes [OF assms, of s app] by (auto simp: IsIBCPaused_def)
qed (simp_all add: OnAcknowledgementPacket_def OnTimeoutPacket_def)

text \<open>A reference instance: the base is what follows the last slash, a path with a slash is a voucher.\<close>

definition ref_ibc :: ibc_env where
  "ref_ibc = \<lparr>UnmarshalPacket = (\<lambda>bz. if bz = [] then None else Some (addr_text bz)),
     ExtractDenomFromPath = (\<lambda>dn. \<lparr>d_Base = rev (takeWhile (\<lambda>c. c \<noteq> CHR ''/'') (rev dn)), d_Path = dn,
       d_IBCDenom = (if CHR ''/'' \<in> set dn then ''ibc/'' @ dn else dn)\<rparr>)\<rparr>"

definition ref_packet :: "string \<Rightarrow> packet" where
  "ref_packet dn = \<lparr>p_SourcePort = ''transfer'', p_SourceChannel = ''channel-0'',
     p_DestPort = ''transfer'', p_DestChannel = ''channel-1'', p_Data = string_bytes dn\<rparr>"

text \<open>Two pauses: of the voucher for \<open>uatom\<close> on the receiving channel, and of \<open>uusdc\<close>.\<close>

definition ibc_pause :: "string \<Rightarrow> pause" where
  "ibc_pause d = \<lparr>pa_Target = TargetIBCPrefix @ d, pa_SetBy = ''gov'', pa_SetHeight = 1, pa_ExpiresHeight = 0, pa_Reason = []\<rparr>"

definition ibc_ex :: "ref_ext chain" where
  "ibc_ex = council_ex\<lparr>council := (council council_ex)\<lparr>Pauses :=
     fmupd (TargetIBCPrefix @ ''ibc/transfer/channel-1/uatom'') (ibc_pause ''ibc/transfer/channel-1/uatom'')
       (fmupd (TargetIBCPrefix @ ''uusdc'') (ibc_pause ''uusdc'') fmempty)\<rparr>\<rparr>"

lemma ibc_ex_paused:
  "IsPaused ibc_ex t \<longleftrightarrow> t = TargetIBCPrefix @ ''ibc/transfer/channel-1/uatom'' \<or> t = TargetIBCPrefix @ ''uusdc''"
  by (simp add: IsPaused_def isPauseActive_def ibc_ex_def ibc_pause_def)

lemma ref_parse: "dn \<noteq> [] \<Longrightarrow> ibc_parse ref_ibc (p_Data (ref_packet dn)) = Some dn"
  by (simp add: ibc_parse_def ref_ibc_def ref_packet_def) (simp add: string_bytes_def)

theorem ibc_circuit_breaker_witness:
  "OnRecvPacket ref_ibc IsIBCPaused (\<lambda>_ s. (AppAck (), s)) (ref_packet ''uatom'') ibc_ex = (ErrorAck (ECouncil CErrPaused), ibc_ex) \<and>
   OnRecvPacket ref_ibc IsIBCPaused (\<lambda>_ s. (AppAck (), s)) (ref_packet ''transfer/channel-0/uusdc'') ibc_ex =
     (ErrorAck (ECouncil CErrPaused), ibc_ex) \<and>
   OnRecvPacket ref_ibc IsIBCPaused (\<lambda>_ s. (AppAck (), s)) (ref_packet ''uosmo'') ibc_ex = (AppAck (), ibc_ex) \<and>
   SendPacket ref_ibc IsIBCPaused (\<lambda>_. ret 1) (p_Data (ref_packet ''transfer/channel-1/uatom'')) ibc_ex =
     (Inl (ECouncil CErrPaused), ibc_ex) \<and>
   SendPacket ref_ibc IsIBCPaused (\<lambda>_. ret 1) (p_Data (ref_packet ''acredit'')) ibc_ex = (Inl (ECouncil CErrPaused), ibc_ex) \<and>
   SendPacket ref_ibc IsIBCPaused (\<lambda>_. ret 1) (p_Data (ref_packet ''uosmo'')) ibc_ex = (Inr 1, ibc_ex)"
proof -
  note b = ibc_circuit_breaker [of ref_ibc, OF ref_parse, where s = ibc_ex]
  note internal = b [THEN conjunct1, THEN mp]
  note out_stop = b [THEN conjunct2, THEN conjunct1, THEN mp]
  note out_pass = b [THEN conjunct2, THEN conjunct2, THEN conjunct1, THEN mp]
  note in_stop = b [THEN conjunct2, THEN conjunct2, THEN conjunct2, THEN conjunct1, THEN mp]
  note in_pass = b [THEN conjunct2, THEN conjunct2, THEN conjunct2, THEN conjunct2, THEN conjunct1, THEN mp]
  have x: "ExtractDenomFromPath ref_ibc dn = \<lparr>d_Base = rev (takeWhile (\<lambda>c. c \<noteq> CHR ''/'') (rev dn)), d_Path = dn,
       d_IBCDenom = (if CHR ''/'' \<in> set dn then ''ibc/'' @ dn else dn)\<rparr>" for dn
    by (simp add: ref_ibc_def)
  have in1: "arrives_as ref_ibc (ref_packet ''uatom'') ''uatom'' ''ibc/transfer/channel-1/uatom''"
    by (simp add: arrives_as_def credited_def x ref_packet_def)
  have in2: "arrives_as ref_ibc (ref_packet ''transfer/channel-0/uusdc'') ''transfer/channel-0/uusdc'' ''uusdc''"
    by (simp add: arrives_as_def x)
  have in3: "arrives_as ref_ibc (ref_packet ''uosmo'') ''uosmo'' d \<Longrightarrow> d = ''uosmo'' \<or> d = ''ibc/transfer/channel-1/uosmo''" for d
    by (auto simp: arrives_as_def credited_def x ref_packet_def)
  have out1: "leaves_as ref_ibc ''transfer/channel-1/uatom'' ''ibc/transfer/channel-1/uatom''"
    by (simp add: leaves_as_def x)
  have out2: "leaves_as ref_ibc ''uosmo'' d \<Longrightarrow> d = ''uosmo''" for d by (auto simp: leaves_as_def x)
  have off: "\<not> IsPaused ibc_ex TargetIBC" by (simp add: ibc_ex_paused TargetIBC_def TargetIBCPrefix_def)
  have paused: "IsPaused ibc_ex (TargetIBCPrefix @ ''ibc/transfer/channel-1/uatom'')" "IsPaused ibc_ex (TargetIBCPrefix @ ''uusdc'')"
    by (simp_all add: ibc_ex_paused)
  have open1: "\<not> IsPaused ibc_ex (TargetIBCPrefix @ ''uosmo'')" "\<not> IsPaused ibc_ex (TargetIBCPrefix @ ''ibc/transfer/channel-1/uosmo'')"
    by (simp_all add: ibc_ex_paused)
  have recv_stop: "OnRecvPacket ref_ibc IsIBCPaused (\<lambda>_ s. (AppAck (), s)) (ref_packet dn) ibc_ex = (ErrorAck (ECouncil CErrPaused), ibc_ex)"
    if "dn \<noteq> []" "arrives_as ref_ibc (ref_packet dn) dn d" "d \<noteq> []" "IsPaused ibc_ex (TargetIBCPrefix @ d)" for dn d
    using that by (intro in_stop) blast+
  have recv_pass: "OnRecvPacket ref_ibc IsIBCPaused (\<lambda>_ s. (AppAck (), s)) (ref_packet ''uosmo'') ibc_ex = (AppAck (), ibc_ex)"
    using off open1 in3 by (subst in_pass) (simp, blast, simp)
  have send_stop: "SendPacket ref_ibc IsIBCPaused (\<lambda>_. ret 1) (p_Data (ref_packet ''transfer/channel-1/uatom'')) ibc_ex =
     (Inl (ECouncil CErrPaused), ibc_ex)"
    by (rule out_stop [of "''transfer/channel-1/uatom''"]) (simp, use out1 paused(1) in blast)
  have "neverLeaves (d_Base (ExtractDenomFromPath ref_ibc ''acredit'')) \<and>
      d_IBCDenom (ExtractDenomFromPath ref_ibc ''acredit'') = d_Base (ExtractDenomFromPath ref_ibc ''acredit'')"
    by (simp add: x neverLeaves_def CreditDenom_def)
  then have send_never: "SendPacket ref_ibc IsIBCPaused (\<lambda>_. ret 1) (p_Data (ref_packet ''acredit'')) ibc_ex =
     (Inl (ECouncil CErrPaused), ibc_ex)"
    by (intro internal) simp_all
  have "\<not> neverLeaves (d_Base (ExtractDenomFromPath ref_ibc ''uosmo''))"
    by (simp add: x neverLeaves_def CreditDenom_def PowerDenom_def)
  then have "SendPacket ref_ibc IsIBCPaused (\<lambda>_. ret 1) (p_Data (ref_packet ''uosmo'')) ibc_ex = ret 1 ibc_ex"
    using off open1(1) out2 by (intro out_pass) (simp, blast)
  then have send_pass: "SendPacket ref_ibc IsIBCPaused (\<lambda>_. ret 1) (p_Data (ref_packet ''uosmo'')) ibc_ex = (Inr 1, ibc_ex)"
    by (simp only: ret_def)
  have "OnRecvPacket ref_ibc IsIBCPaused (\<lambda>_ s. (AppAck (), s)) (ref_packet ''uatom'') ibc_ex = (ErrorAck (ECouncil CErrPaused), ibc_ex)"
    by (rule recv_stop [OF _ in1 _ paused(1)]) simp_all
  moreover have "OnRecvPacket ref_ibc IsIBCPaused (\<lambda>_ s. (AppAck (), s)) (ref_packet ''transfer/channel-0/uusdc'') ibc_ex =
     (ErrorAck (ECouncil CErrPaused), ibc_ex)"
    by (rule recv_stop [OF _ in2 _ paused(2)]) simp_all
  ultimately show ?thesis using recv_pass send_stop send_never send_pass by blast
qed

end
