(* ===== verification/AppsRegistry.thy ===== *)
theory AppsRegistry
  imports Fees
begin

text \<open>
  \<open>x/apps\<close>, first half: the registry of applications and of the contracts bound to them
  (\<open>chain/x/apps/keeper/keeper.go\<close>, \<open>types/params.go\<close>): registration and ownership, ownership
  proofs of contracts, the binding index, claims and the timelocked moves between apps.
\<close>

section \<open>Constants and parameters\<close>

definition MaxMetadataURILen :: nat where "MaxMetadataURILen = 512"
definition MaxDomainLen :: nat where "MaxDomainLen = 253"
definition NoApp :: u64 where "NoApp = 0"

definition apps_DefaultParams :: apps_params where
  "apps_DefaultParams =
     \<lparr>ap_RegistrationFee = \<lparr>coin_Denom = ''acredit'', coin_Amount = 2 * 10 ^ 17\<rparr>,
      ap_MaxContractsPerApp = 100, ap_ContractMoveDelayBlocks = 604800, ap_EpochLengthBlocks = 86400,
      ap_MaxGasPerEpoch = 5000000000, ap_DiversityTarget = 5, ap_MaxReferrerBps = 1000,
      ap_BondDenom = ''uusdc'', ap_GasPerBondedUnit = 2500, ap_UnbondingBlocks = 1814400\<rparr>"

definition apps_params_Validate :: "'x env \<Rightarrow> apps_params \<Rightarrow> bool" where
  "apps_params_Validate E p \<longleftrightarrow>
     ValidDenom E (coin_Denom (ap_RegistrationFee p)) \<and> 0 \<le> coin_Amount (ap_RegistrationFee p) \<and>
     ap_MaxContractsPerApp p \<noteq> 0 \<and> ap_MaxContractsPerApp p \<le> 10000 \<and>
     0 \<le> ap_ContractMoveDelayBlocks p \<and>
     10 \<le> ap_EpochLengthBlocks p \<and>
     ap_DiversityTarget p \<noteq> 0 \<and> ap_DiversityTarget p \<le> 10000 \<and>
     ap_MaxReferrerBps p \<le> 10000 \<and>
     (ap_BondDenom p \<noteq> [] \<longrightarrow>
        ValidDenom E (ap_BondDenom p) \<and> ap_EpochLengthBlocks p \<le> ap_UnbondingBlocks p)"

text \<open>\<open>NormalizeContract\<close>; \<open>common.Bytes2Hex\<close> is \<open>hex.EncodeToString\<close>.\<close>

definition NormalizeContract :: "'x env \<Rightarrow> string \<Rightarrow> string" where
  "NormalizeContract E a = ''0x'' @ hex_EncodeToString (HexToAddress E a)"

section \<open>Access to the store\<close>

definition apps_GetParams :: "'x chain \<Rightarrow> apps_params" where
  "apps_GetParams s = (case a_Params (apps s) of None \<Rightarrow> apps_DefaultParams | Some p \<Rightarrow> p)"

abbreviation on_apps :: "(apps_store \<Rightarrow> apps_store) \<Rightarrow> ('x, unit) call" where
  "on_apps f \<equiv> modify (\<lambda>s. s\<lparr>apps := f (apps s)\<rparr>)"

definition SetParams :: "'x env \<Rightarrow> apps_params \<Rightarrow> ('x, unit) call" where
  "SetParams E p =
     seqM (check (apps_params_Validate E p) (EApps AErrInvalidParams))
     (on_apps (\<lambda>c. c\<lparr>a_Params := Some p\<rparr>))"

definition put_app :: "u64 \<Rightarrow> app \<Rightarrow> ('x, unit) call" where
  "put_app i a = on_apps (\<lambda>c. c\<lparr>Apps := fmupd i a (Apps c)\<rparr>)"

definition find_app :: "'x chain \<Rightarrow> u64 \<Rightarrow> app option" where
  "find_app s i = fmlookup (Apps (apps s)) i"

definition GetApp :: "u64 \<Rightarrow> ('x, app) call" where
  "GetApp i = bindM (gets (\<lambda>s. find_app s i)) (\<lambda>a. need a (EApps AErrAppNotFound))"

definition ownedApp :: "string \<Rightarrow> u64 \<Rightarrow> ('x, app) call" where
  "ownedApp owner i =
     bindM (GetApp i) (\<lambda>a.
     seqM (check (app_Owner a = owner) (EApps AErrUnauthorized))
     (seqM (check (app_Status a \<noteq> APP_STATUS_REVOKED) (EApps AErrAppInactive))
     (ret a)))"

section \<open>Apps\<close>

definition validateURI :: "string \<Rightarrow> bool" where
  "validateURI uri \<longleftrightarrow> length uri \<le> MaxMetadataURILen"

definition domain_char :: "char \<Rightarrow> bool" where
  "domain_char c \<longleftrightarrow> c = CHR ''.'' \<or> c = CHR ''-'' \<or> (CHR ''a'' \<le> c \<and> c \<le> CHR ''z'') \<or> (CHR ''0'' \<le> c \<and> c \<le> CHR ''9'')"

definition validateDomain :: "string \<Rightarrow> bool" where
  "validateDomain d \<longleftrightarrow>
     d = [] \<or> (length d \<le> MaxDomainLen \<and> CHR ''.'' \<in> set d \<and> list_all domain_char d)"

definition validateRecipient :: "'x env \<Rightarrow> string \<Rightarrow> bool" where
  "validateRecipient E a \<longleftrightarrow>
     (case AccFromBech32 E a of None \<Rightarrow> False | Some acc \<Rightarrow> \<not> BlockedAddr E acc)"

text \<open>\<open>collections.Sequence.Next\<close>: the current number, which is then increased.\<close>

definition NextID :: "('x, u64) call" where
  "NextID = bindM (gets (\<lambda>s. NextAppID (apps s))) (\<lambda>n.
     seqM (on_apps (\<lambda>c. c\<lparr>NextAppID := n + 1\<rparr>)) (ret n))"

definition RegisterApp :: "'x env \<Rightarrow> addr \<Rightarrow> string \<Rightarrow> string \<Rightarrow> string \<Rightarrow> u32 \<Rightarrow> ('x, u64) call" where
  "RegisterApp E owner recipient0 metadataURI domain referrerBps =
     bindM (gets apps_GetParams) (\<lambda>params.
     let recipient = (if recipient0 = [] then AccString E owner else recipient0);
         fee = ap_RegistrationFee params;
         fees = coins1 (coin_Denom fee) (coin_Amount fee) in
     seqM (check (validateRecipient E recipient) (EApps AErrInvalidField))
     (seqM (check (validateURI metadataURI) (EApps AErrInvalidField))
     (seqM (check (validateDomain domain) (EApps AErrInvalidField))
     (seqM (check (referrerBps \<le> ap_MaxReferrerBps params) (EApps AErrInvalidField))
     (seqM (whenM (0 < coin_Amount fee)
        (seqM (SendCoinsFromAccountToModule E owner ''apps'' fees) (BurnCoins E ''apps'' fees)))
     (bindM NextID (\<lambda>id0.
     bindM (if id0 = 0 then NextID else ret id0) (\<lambda>i.
     bindM (gets height) (\<lambda>h.
     seqM (put_app i
        \<lparr>app_AppId = i, app_Owner = AccString E owner, app_PendingOwner = [],
         app_RevenueRecipient = recipient, app_MetadataUri = metadataURI, app_Domain = domain,
         app_ReferrerBps = referrerBps, app_Status = APP_STATUS_ACTIVE, app_Version = 1,
         app_CreatedHeight = h, app_ContractCount = 0\<rparr>)
     (seqM (emit (EvAppRegistered i (AccString E owner) recipient))
     (ret i)))))))))))"

definition UpdateApp :: "'x env \<Rightarrow> string \<Rightarrow> u64 \<Rightarrow> string \<Rightarrow> string \<Rightarrow> string \<Rightarrow> u32 \<Rightarrow> ('x, unit) call" where
  "UpdateApp E owner i recipient metadataURI domain referrerBps =
     bindM (ownedApp owner i) (\<lambda>a0.
     bindM (gets apps_GetParams) (\<lambda>params.
     seqM (check (recipient = [] \<or> validateRecipient E recipient) (EApps AErrInvalidField))
     (let a = (if recipient \<noteq> [] then a0\<lparr>app_RevenueRecipient := recipient\<rparr> else a0) in
      seqM (check (validateURI metadataURI) (EApps AErrInvalidField))
      (seqM (check (validateDomain domain) (EApps AErrInvalidField))
      (seqM (check (referrerBps \<le> ap_MaxReferrerBps params) (EApps AErrInvalidField))
      (seqM (put_app i (a\<lparr>app_MetadataUri := metadataURI, app_Domain := domain,
               app_ReferrerBps := referrerBps, app_Version := app_Version a + 1\<rparr>))
      (emit (EvAppUpdated i))))))))"

definition TransferOwnership :: "'x env \<Rightarrow> string \<Rightarrow> u64 \<Rightarrow> string \<Rightarrow> ('x, unit) call" where
  "TransferOwnership E owner i newOwner =
     bindM (ownedApp owner i) (\<lambda>a.
     seqM (check (AccFromBech32 E newOwner \<noteq> None) (EApps AErrInvalidField))
     (put_app i (a\<lparr>app_PendingOwner := newOwner\<rparr>)))"

definition AcceptOwnership :: "string \<Rightarrow> u64 \<Rightarrow> ('x, unit) call" where
  "AcceptOwnership newOwner i =
     bindM (GetApp i) (\<lambda>a.
     seqM (check (app_PendingOwner a \<noteq> [] \<and> app_PendingOwner a = newOwner) (EApps AErrNoPendingOwner))
     (seqM (put_app i (a\<lparr>app_Owner := newOwner, app_PendingOwner := [], app_Version := app_Version a + 1\<rparr>))
     (emit (EvOwnershipTransferred i (app_Owner a) newOwner))))"

definition SetAppStatus :: "u64 \<Rightarrow> app_status \<Rightarrow> ('x, unit) call" where
  "SetAppStatus i status =
     seqM (check (status \<noteq> APP_STATUS_UNSPECIFIED) (EApps AErrInvalidField))
     (bindM (GetApp i) (\<lambda>a.
      seqM (check (app_Status a \<noteq> APP_STATUS_REVOKED) (EApps AErrAppInactive))
      (seqM (put_app i (a\<lparr>app_Status := status, app_Version := app_Version a + 1\<rparr>))
      (emit (EvStatusChanged i status)))))"

section \<open>Contracts\<close>

text \<open>
  \<open>copy(s32[:], salt)\<close> copies all 32 bytes, as the length was checked. The \<open>owner()\<close> call runs in a
  branch of the context, so it reads the state and writes nothing; \<open>GetModuleAccount\<close> may create
  the module account.
\<close>

definition VerifyProof :: "'x env \<Rightarrow> addr \<Rightarrow> addr \<Rightarrow> ownership_proof \<Rightarrow> ('x, unit) call" where
  "VerifyProof E signer contract proof =
     (case pr_Type proof of
        PROOF_TYPE_DEPLOYER_CREATE \<Rightarrow>
          check (CreateAddress E signer (pr_Nonce proof) = contract) (EApps AErrInvalidProof)
      | PROOF_TYPE_DEPLOYER_CREATE2 \<Rightarrow>
          (let salt = FromHex E (pr_Salt proof); ich = FromHex E (pr_InitCodeHash proof) in
           seqM (check (length salt = 32 \<and> length ich = 32) (EApps AErrInvalidProof))
           (check (CreateAddress2 E signer salt ich = contract) (EApps AErrInvalidProof)))
      | PROOF_TYPE_OWNABLE \<Rightarrow>
          bindM (gets (\<lambda>s. IsContract E (ext s) contract)) (\<lambda>is_contract.
          seqM (check is_contract (EApps AErrNotContract))
          (bindM (\<lambda>s. case GetModuleAccount E ''apps'' (ext s) of (a, x) \<Rightarrow> (Inr a, s\<lparr>ext := x\<rparr>)) (\<lambda>acc.
           bindM (gets (\<lambda>s. CallOwner E (ext s) (BytesToAddress E acc) contract)) (\<lambda>res.
           case res of
             Inl e \<Rightarrow> fail (EApps AErrInvalidProof)
           | Inr r \<Rightarrow>
               seqM (check (32 \<le> length r) (EApps AErrInvalidProof))
               (check (BytesToAddress E (drop 12 (take 32 r)) = signer) (EApps AErrInvalidProof))))))
      | _ \<Rightarrow> fail (EApps AErrInvalidProof))"

definition setBinding :: "string \<Rightarrow> u64 \<Rightarrow> proof_type \<Rightarrow> ('x, unit) call" where
  "setBinding contract i ptype =
     bindM (GetApp i) (\<lambda>a.
     bindM (gets height) (\<lambda>h.
     seqM (on_apps (\<lambda>c. c\<lparr>Bindings := fmupd contract
        \<lparr>cb_Contract = contract, cb_AppId = i, cb_ProofType = ptype, cb_AddedHeight = h,
         cb_Version = app_Version a\<rparr> (Bindings c)\<rparr>))
     (seqM (on_apps (\<lambda>c. c\<lparr>AppContracts := finsert (i, contract) (AppContracts c)\<rparr>))
     (seqM (put_app i (a\<lparr>app_ContractCount := app_ContractCount a + 1\<rparr>))
     (emit (EvContractBound contract i ptype))))))"

definition unbind :: "string \<Rightarrow> u64 \<Rightarrow> ('x, unit) call" where
  "unbind contract i =
     seqM (on_apps (\<lambda>c. c\<lparr>Bindings := fmdrop contract (Bindings c)\<rparr>))
     (seqM (on_apps (\<lambda>c. c\<lparr>AppContracts := AppContracts c |-| {|(i, contract)|}\<rparr>))
     (bindM (GetApp i) (\<lambda>a.
      put_app i (if 0 < app_ContractCount a then a\<lparr>app_ContractCount := app_ContractCount a - 1\<rparr> else a))))"

definition bindContract :: "string \<Rightarrow> u64 \<Rightarrow> proof_type \<Rightarrow> ('x, bool \<times> int) call" where
  "bindContract contract i ptype =
     bindM (gets apps_GetParams) (\<lambda>params.
     bindM (GetApp i) (\<lambda>a.
     seqM (check (app_ContractCount a < ap_MaxContractsPerApp params) (EApps AErrTooManyContracts))
     (bindM (gets (\<lambda>s. fmlookup (Bindings (apps s)) contract)) (\<lambda>existing.
      case existing of
        None \<Rightarrow> seqM (setBinding contract i ptype) (ret (False, 0))
      | Some b \<Rightarrow>
          seqM (check (cb_AppId b \<noteq> i) (EApps AErrAlreadyBound))
          (bindM (gets (\<lambda>s. (height s, fmlookup (PendingMoves (apps s)) contract))) (\<lambda>(h, pending).
           seqM (check (pending = None) (EApps AErrMovePending))
           (let unlock = add64 h (ap_ContractMoveDelayBlocks params) in
            seqM (on_apps (\<lambda>c. c\<lparr>PendingMoves := fmupd contract
              \<lparr>pm_Contract = contract, pm_FromAppId = cb_AppId b, pm_ToAppId = i, pm_ProofType = ptype,
               pm_UnlockHeight = unlock\<rparr> (PendingMoves c)\<rparr>))
            (seqM (on_apps (\<lambda>c. c\<lparr>MovesByUnlock := finsert (unlock, contract) (MovesByUnlock c)\<rparr>))
            (seqM (emit (EvMoveScheduled contract (cb_AppId b) i unlock))
            (ret (True, unlock)))))))))))"

definition AddContract :: "'x env \<Rightarrow> addr \<Rightarrow> u64 \<Rightarrow> string \<Rightarrow> ownership_proof \<Rightarrow> ('x, bool \<times> int) call" where
  "AddContract E owner i contractHex proof =
     bindM (ownedApp (AccString E owner) i) (\<lambda>_.
     seqM (check (IsHexAddress E contractHex) (EApps AErrInvalidField))
     (seqM (check (pr_Type proof \<noteq> PROOF_TYPE_SELF_CLAIM) (EApps AErrInvalidProof))
     (seqM (VerifyProof E (BytesToAddress E owner) (HexToAddress E contractHex) proof)
     (bindContract (NormalizeContract E contractHex) i (pr_Type proof)))))"

definition ClaimRegistration :: "'x env \<Rightarrow> addr \<Rightarrow> u64 \<Rightarrow> ('x, unit) call" where
  "ClaimRegistration E contract i =
     bindM (GetApp i) (\<lambda>a.
     seqM (check (app_Status a = APP_STATUS_ACTIVE) (EApps AErrAppInactive))
     (let c = NormalizeContract E (AddressHex E contract) in
      bindM (gets height) (\<lambda>h.
      on_apps (\<lambda>st. st\<lparr>PendingClaims := fmupd (i, c)
        \<lparr>pc_Contract = c, pc_AppId = i, pc_ClaimedHeight = h\<rparr> (PendingClaims st)\<rparr>))))"

definition AcceptContractClaim :: "'x env \<Rightarrow> string \<Rightarrow> u64 \<Rightarrow> string \<Rightarrow> ('x, bool \<times> int) call" where
  "AcceptContractClaim E owner i contractHex =
     bindM (ownedApp owner i) (\<lambda>_.
     let c = NormalizeContract E contractHex in
     bindM (gets (\<lambda>s. fmlookup (PendingClaims (apps s)) (i, c))) (\<lambda>claim.
     seqM (check (claim \<noteq> None) (EApps AErrNoPendingClaim))
     (seqM (on_apps (\<lambda>st. st\<lparr>PendingClaims := fmdrop (i, c) (PendingClaims st)\<rparr>))
     (bindContract c i PROOF_TYPE_SELF_CLAIM))))"

definition drop_move :: "string \<Rightarrow> pending_move \<Rightarrow> ('x, unit) call" where
  "drop_move c mv =
     seqM (on_apps (\<lambda>st. st\<lparr>MovesByUnlock := MovesByUnlock st |-| {|(pm_UnlockHeight mv, c)|}\<rparr>))
     (on_apps (\<lambda>st. st\<lparr>PendingMoves := fmdrop c (PendingMoves st)\<rparr>))"

definition RemoveContract :: "'x env \<Rightarrow> string \<Rightarrow> u64 \<Rightarrow> string \<Rightarrow> ('x, unit) call" where
  "RemoveContract E owner i contractHex =
     bindM (ownedApp owner i) (\<lambda>_.
     let c = NormalizeContract E contractHex in
     bindM (gets (\<lambda>s. (fmlookup (Bindings (apps s)) c, fmlookup (PendingMoves (apps s)) c))) (\<lambda>(b, mv).
     seqM (check (case b of None \<Rightarrow> False | Some x \<Rightarrow> cb_AppId x = i) (EApps AErrNotBound))
     (seqM (case mv of None \<Rightarrow> ret () | Some m \<Rightarrow> drop_move c m)
     (unbind c i))))"

definition CancelContractMove :: "'x env \<Rightarrow> string \<Rightarrow> string \<Rightarrow> ('x, unit) call" where
  "CancelContractMove E owner contractHex =
     (let c = NormalizeContract E contractHex in
      bindM (gets (\<lambda>s. fmlookup (PendingMoves (apps s)) c)) (\<lambda>found.
      bindM (need found (EApps AErrNoPendingMove)) (\<lambda>mv.
      bindM (GetApp (pm_FromAppId mv)) (\<lambda>frm.
      bindM (gets (\<lambda>s. find_app s (pm_ToAppId mv))) (\<lambda>to.
      seqM (check (app_Owner frm = owner \<or> (case to of None \<Rightarrow> [] | Some t \<Rightarrow> app_Owner t) = owner)
             (EApps AErrUnauthorized))
      (drop_move c mv))))))"

text \<open>One iteration of the loop of \<open>finalizeMoves\<close>, and the range of keys that are due.\<close>

definition finalize_move :: "int \<times> string \<Rightarrow> ('x, unit) call" where
  "finalize_move key =
     (let c = snd key in
      seqM (on_apps (\<lambda>st. st\<lparr>MovesByUnlock := MovesByUnlock st |-| {|key|}\<rparr>))
      (bindM (gets (\<lambda>s. fmlookup (PendingMoves (apps s)) c)) (\<lambda>found.
       case found of
         None \<Rightarrow> ret ()
       | Some mv \<Rightarrow>
           seqM (on_apps (\<lambda>st. st\<lparr>PendingMoves := fmdrop c (PendingMoves st)\<rparr>))
           (bindM (gets (\<lambda>s. find_app s (pm_ToAppId mv))) (\<lambda>dest.
            case dest of
              None \<Rightarrow> ret ()
            | Some to \<Rightarrow>
                if app_Status to = APP_STATUS_REVOKED then ret ()
                else bindM (gets apps_GetParams) (\<lambda>params.
                  if ap_MaxContractsPerApp params \<le> app_ContractCount to
                  then emit (EvMoveDropped c (pm_ToAppId mv))
                  else bindM (gets (\<lambda>s. fmlookup (Bindings (apps s)) c)) (\<lambda>b.
                    seqM (case b of None \<Rightarrow> ret () | Some x \<Rightarrow> unbind c (cb_AppId x))
                    (setBinding c (pm_ToAppId mv) (pm_ProofType mv)))))))))"

definition due_moves :: "'x chain \<Rightarrow> (int \<times> string) list" where
  "due_moves s =
     filter (\<lambda>k. k \<le> (height s, [CHR 0xFF])) (sorted_list_of_fset (MovesByUnlock (apps s)))"

definition finalizeMoves :: "('x, unit) call" where
  "finalizeMoves = bindM (gets due_moves) (\<lambda>due. forM due finalize_move)"

definition AppOfContract :: "'x env \<Rightarrow> 'x chain \<Rightarrow> addr \<Rightarrow> app option" where
  "AppOfContract E s contract =
     (case fmlookup (Bindings (apps s)) (NormalizeContract E (AddressHex E contract)) of
        None \<Rightarrow> None
      | Some b \<Rightarrow>
          (case find_app s (cb_AppId b) of
             None \<Rightarrow> None
           | Some a \<Rightarrow> if app_Status a = APP_STATUS_ACTIVE then Some a else None))"

end
