(* ===== verification/AppsQuota.thy ===== *)
theory AppsQuota
  imports AppsRegistry Hll
begin

text \<open>
  \<open>x/apps\<close>, second half: settlement statistics, sponsorship quotas, bonded capital, epochs, the end
  blocker, genesis, the message server and the queries (\<open>chain/x/apps/keeper\<close>).
\<close>

section \<open>Quotas\<close>

definition CurrentEpoch :: "'x chain \<Rightarrow> u64 \<times> int" where
  "CurrentEpoch s =
     ((case EpochNumber (apps s) of None \<Rightarrow> 0 | Some n \<Rightarrow> n),
      (case EpochStart (apps s) of None \<Rightarrow> height s | Some h \<Rightarrow> h))"

definition RecordSettlement :: "'x env \<Rightarrow> u64 \<Rightarrow> addr \<Rightarrow> int \<Rightarrow> ('x, unit) call" where
  "RecordSettlement E i payer feeWeight =
     (if i = NoApp then ret ()
      else bindM (gets CurrentEpoch) (\<lambda>(epoch, _).
        bindM (gets (\<lambda>s. fmlookup (EpochStats (apps s)) (epoch, i))) (\<lambda>found.
        let st = (case found of
              None \<Rightarrow> \<lparr>es_AppId = i, es_Epoch = epoch, es_FeeWeight = 0, es_Payments = 0, es_Hll = NewHLL\<rparr>
            | Some x \<Rightarrow> x);
            st' = st\<lparr>es_FeeWeight := es_FeeWeight st + feeWeight, es_Payments := es_Payments st + 1,
                     es_Hll := HLLAdd E (es_Hll st) payer\<rparr>
        in on_apps (\<lambda>c. c\<lparr>EpochStats := fmupd (epoch, i) st' (EpochStats c)\<rparr>))))"

text \<open>
  \<open>None\<close> is a panic: the division by zero of \<open>HLLEstimate\<close>, a product or sum of \<open>math.Int\<close> with more
  than 256 bits, or \<open>Uint64\<close> of a negative number.
\<close>

definition ComputeQuota :: "apps_params \<Rightarrow> epoch_stats \<Rightarrow> u64 \<Rightarrow> quota option" where
  "ComputeQuota params st base =
     (case HLLEstimate (es_Hll st) of
        None \<Rightarrow> None
      | Some estimate \<Rightarrow>
          let unique = (if es_Payments st < estimate then es_Payments st else estimate);
              diversityBps =
                (if 0 < es_Payments st
                 then let d = unique * ucast (ap_DiversityTarget params) * 10000 div es_Payments st
                      in if 10000 < d then 10000 else d
                 else 0);
              product = es_FeeWeight st * uint diversityBps;
              earned = quo product MaxBps;
              sum = uint base + earned;
              maxQ = uint (ap_MaxGasPerEpoch params);
              total = (if maxQ < sum then maxQ else sum)
          in if \<not> int_fits product \<or> \<not> int_fits sum \<or> total < 0 then None
             else Some \<lparr>q_AppId = es_AppId st, q_Epoch = 0, q_Gas = of_int total,
                        q_UniquePayersEstimate = unique, q_DiversityBps = ucast diversityBps\<rparr>)"

definition BondUnit :: int where "BondUnit = 1000000"

definition BaseQuota :: "apps_params \<Rightarrow> int \<Rightarrow> u64" where
  "BaseQuota params bonded =
     (if ap_BondDenom params = [] \<or> \<not> 0 < bonded then 0
      else let gas = quo (bonded * uint (ap_GasPerBondedUnit params)) BondUnit
           in if uint (ap_MaxGasPerEpoch params) < gas then ap_MaxGasPerEpoch params else of_int gas)"

text \<open>
  The product of \<open>BaseQuota\<close> panics when it has more than 256 bits. The message that bonds and the
  rollover of the epoch test it first; the queries, which a panic answers with an error, do not.
\<close>

definition BaseQuota_fits :: "apps_params \<Rightarrow> int \<Rightarrow> bool" where
  "BaseQuota_fits params bonded \<longleftrightarrow>
     ap_BondDenom params = [] \<or> \<not> 0 < bonded \<or> int_fits (bonded * uint (ap_GasPerBondedUnit params))"

definition BondOf :: "'x chain \<Rightarrow> u64 \<Rightarrow> int" where
  "BondOf s i = (case fmlookup (Bonds (apps s)) i of None \<Rightarrow> 0 | Some v \<Rightarrow> v)"

definition BondInfo :: "'x chain \<Rightarrow> u64 \<Rightarrow> int \<times> u64" where
  "BondInfo s i = (let bonded = BondOf s i in (bonded, BaseQuota (apps_GetParams s) bonded))"

definition QuotaFor :: "'x chain \<Rightarrow> u64 \<Rightarrow> quota" where
  "QuotaFor s i =
     (let epoch = fst (CurrentEpoch s);
          none = \<lparr>q_AppId = i, q_Epoch = epoch, q_Gas = 0, q_UniquePayersEstimate = 0, q_DiversityBps = 0\<rparr>
      in case find_app s i of
           None \<Rightarrow> none
         | Some a \<Rightarrow>
             if app_Status a \<noteq> APP_STATUS_ACTIVE then none
             else case fmlookup (Quotas (apps s)) i of
                    Some q \<Rightarrow> if q_Epoch q = epoch then q
                              else none\<lparr>q_Gas := BaseQuota (apps_GetParams s) (BondOf s i)\<rparr>
                  | None \<Rightarrow> none\<lparr>q_Gas := BaseQuota (apps_GetParams s) (BondOf s i)\<rparr>)"

section \<open>Bonds\<close>

definition BondApp :: "'x env \<Rightarrow> string \<Rightarrow> u64 \<Rightarrow> coin \<Rightarrow> ('x, unit) call" where
  "BondApp E owner i amount =
     bindM (gets apps_GetParams) (\<lambda>params.
     seqM (check (ap_BondDenom params \<noteq> []) (EApps AErrBondingDisabled))
     (seqM (check (coin_Denom amount = ap_BondDenom params \<and> 0 < coin_Amount amount) (EApps AErrInvalidBond))
     (bindM (ownedApp owner i) (\<lambda>a.
      seqM (check (app_Status a = APP_STATUS_ACTIVE) (EApps AErrAppInactive))
      (bindM (need (AccFromBech32 E owner) (EApps AErrUnauthorized)) (\<lambda>frm.
       seqM (SendCoinsFromAccountToModule E frm ''apps'' (coins1 (coin_Denom amount) (coin_Amount amount)))
       (bindM (gets (\<lambda>s. BondOf s i)) (\<lambda>old.
        let bonded = old + coin_Amount amount in
        seqM (on_apps (\<lambda>c. c\<lparr>Bonds := fmupd i bonded (Bonds c)\<rparr>))
        (seqM (check (BaseQuota_fits params bonded) EPanic)
        (emit (EvBonded i amount bonded (BaseQuota params bonded))))))))))))"

definition UnbondApp :: "'x env \<Rightarrow> string \<Rightarrow> u64 \<Rightarrow> coin \<Rightarrow> ('x, int) call" where
  "UnbondApp E owner i amount =
     bindM (gets apps_GetParams) (\<lambda>params.
     seqM (check (ap_BondDenom params \<noteq> []) (EApps AErrBondingDisabled))
     (seqM (check (coin_Denom amount = ap_BondDenom params \<and> 0 < coin_Amount amount) (EApps AErrInvalidBond))
     (bindM (GetApp i) (\<lambda>a.
      seqM (check (app_Owner a = owner) (EApps AErrUnauthorized))
      (bindM (gets (\<lambda>s. (height s, BondOf s i))) (\<lambda>(h, bonded).
       seqM (check (coin_Amount amount \<le> bonded) (EApps AErrInsufficientBond))
       (let left = bonded - coin_Amount amount;
            release = add64 h (ap_UnbondingBlocks params);
            key = (release, i, owner)
        in seqM (on_apps (\<lambda>c. c\<lparr>Bonds := (if left = 0 then fmdrop i (Bonds c) else fmupd i left (Bonds c))\<rparr>))
           (bindM (gets (\<lambda>s. case fmlookup (Unbondings (apps s)) key of None \<Rightarrow> 0 | Some v \<Rightarrow> v)) (\<lambda>pending.
            seqM (on_apps (\<lambda>c. c\<lparr>Unbondings := fmupd key (pending + coin_Amount amount) (Unbondings c)\<rparr>))
            (seqM (emit (EvUnbonding i owner amount release))
            (ret release)))))))))))"

text \<open>\<open>sdk.NewCoin\<close> panics on an invalid denom or a negative amount; the error of the payout itself
  is only logged.\<close>

definition release_one :: "'x env \<Rightarrow> denom \<Rightarrow> (int \<times> u64 \<times> string) \<times> int \<Rightarrow> ('x, unit) call" where
  "release_one E d kv =
     (case kv of ((rel, i, owner), amount) \<Rightarrow>
        bindM (case AccFromBech32 E owner of
                 None \<Rightarrow> ret False
               | Some to \<Rightarrow>
                   seqM (check (ValidDenom E d \<and> 0 \<le> amount) EPanic)
                   (bindM (attempt (SendCoinsFromModuleToAccount E ''apps'' to (coins1 d amount))) (\<lambda>r.
                    ret (case r of Inl e \<Rightarrow> False | Inr u \<Rightarrow> True)))) (\<lambda>ok.
        whenM ok
          (seqM (on_apps (\<lambda>c. c\<lparr>Unbondings := fmdrop (rel, i, owner) (Unbondings c)\<rparr>))
           (emit (EvUnbonded i owner d amount)))))"

definition ready_unbondings :: "'x chain \<Rightarrow> ((int \<times> u64 \<times> string) \<times> int) list" where
  "ready_unbondings s = takeWhile (\<lambda>(k, _). fst k \<le> height s) (entries (Unbondings (apps s)))"

definition releaseUnbondings :: "'x env \<Rightarrow> ('x, unit) call" where
  "releaseUnbondings E =
     bindM (gets (\<lambda>s. (ap_BondDenom (apps_GetParams s), ready_unbondings s))) (\<lambda>(d, ready).
     forM ready (release_one E d))"

definition BondedTotal :: "'x chain \<Rightarrow> int" where
  "BondedTotal s =
     (let total = foldl (\<lambda>t (_, v). t + v) 0 (entries (Bonds (apps s)))
      in foldl (\<lambda>t (_, v). t + v) total (entries (Unbondings (apps s))))"

section \<open>Epochs and the end blocker\<close>

definition roll_app :: "apps_params \<Rightarrow> u64 \<Rightarrow> epoch_stats \<Rightarrow> ('x, unit) call" where
  "roll_app params nxt st =
     bindM (gets (\<lambda>s. (find_app s (es_AppId st), BondOf s (es_AppId st)))) (\<lambda>(a, bonded).
     case a of
       None \<Rightarrow> ret ()
     | Some x \<Rightarrow>
         if app_Status x \<noteq> APP_STATUS_ACTIVE then ret ()
         else seqM (check (BaseQuota_fits params bonded) EPanic)
           (bindM (need (ComputeQuota params st (BaseQuota params bonded)) EPanic) (\<lambda>q.
           on_apps (\<lambda>c. c\<lparr>Quotas := fmupd (es_AppId st) (q\<lparr>q_Epoch := nxt\<rparr>) (Quotas c)\<rparr>))))"

definition epoch_stats_of :: "'x chain \<Rightarrow> u64 \<Rightarrow> ((u64 \<times> u64) \<times> epoch_stats) list" where
  "epoch_stats_of s n = filter (\<lambda>(k, _). fst k = n) (entries (EpochStats (apps s)))"

definition rolloverEpoch :: "('x, unit) call" where
  "rolloverEpoch =
     bindM (gets (\<lambda>s. (apps_GetParams s, CurrentEpoch s, height s))) (\<lambda>(params, (epoch, start), h).
     if h < sub64 (add64 start (ap_EpochLengthBlocks params)) 1 then ret ()
     else
       let nxt = epoch + 1 in
       bindM (gets (\<lambda>s. map snd (epoch_stats_of s epoch))) (\<lambda>sts.
       seqM (forM sts (roll_app params nxt))
       (bindM (gets (\<lambda>s. if 0 < epoch then map fst (epoch_stats_of s (epoch - 1)) else [])) (\<lambda>stale.
        seqM (forM stale (\<lambda>key. on_apps (\<lambda>c. c\<lparr>EpochStats := fmdrop key (EpochStats c)\<rparr>)))
        (seqM (on_apps (\<lambda>c. c\<lparr>EpochNumber := Some nxt\<rparr>))
        (seqM (on_apps (\<lambda>c. c\<lparr>EpochStart := Some (add64 h 1)\<rparr>))
        (emit (EvEpochRollover nxt))))))))"

definition apps_EndBlock :: "'x env \<Rightarrow> ('x, unit) call" where
  "apps_EndBlock E = seqM finalizeMoves (seqM (releaseUnbondings E) rolloverEpoch)"

section \<open>Message server\<close>

datatype apps_msg =
    MsgRegisterApp string string string string u32
  | MsgUpdateApp string u64 string string string u32
  | MsgTransferOwnership string u64 string
  | MsgAcceptOwnership string u64
  | MsgAddContract string u64 string ownership_proof
  | MsgAcceptContractClaim string u64 string
  | MsgRemoveContract string u64 string
  | MsgCancelContractMove string string
  | MsgBondApp string u64 coin
  | MsgUnbondApp string u64 coin
  | MsgSetAppStatus string u64 app_status
  | MsgAppsUpdateParams string apps_params

datatype apps_response = RespAppId u64 | RespMove bool int | RespRelease int | RespOk

definition msg_RegisterApp :: "'x env \<Rightarrow> string \<Rightarrow> string \<Rightarrow> string \<Rightarrow> string \<Rightarrow> u32 \<Rightarrow> ('x, apps_response) call" where
  "msg_RegisterApp E owner recipient uri domain referrerBps =
     bindM (AccAddressFromBech32 E owner) (\<lambda>a.
     bindM (RegisterApp E a recipient uri domain referrerBps) (\<lambda>i. ret (RespAppId i)))"

definition msg_AddContract :: "'x env \<Rightarrow> string \<Rightarrow> u64 \<Rightarrow> string \<Rightarrow> ownership_proof \<Rightarrow> ('x, apps_response) call" where
  "msg_AddContract E owner i contract proof =
     bindM (AccAddressFromBech32 E owner) (\<lambda>a.
     bindM (AddContract E a i contract proof) (\<lambda>(p, u). ret (RespMove p u)))"

definition msg_AcceptContractClaim :: "'x env \<Rightarrow> string \<Rightarrow> u64 \<Rightarrow> string \<Rightarrow> ('x, apps_response) call" where
  "msg_AcceptContractClaim E owner i contract =
     bindM (AcceptContractClaim E owner i contract) (\<lambda>(p, u). ret (RespMove p u))"

definition msg_UnbondApp :: "'x env \<Rightarrow> string \<Rightarrow> u64 \<Rightarrow> coin \<Rightarrow> ('x, apps_response) call" where
  "msg_UnbondApp E owner i amount = bindM (UnbondApp E owner i amount) (\<lambda>r. ret (RespRelease r))"

definition msg_SetAppStatus :: "'x env \<Rightarrow> string \<Rightarrow> u64 \<Rightarrow> app_status \<Rightarrow> ('x, unit) call" where
  "msg_SetAppStatus E auth i status =
     seqM (check (auth = authority E) (EApps AErrUnauthorized)) (SetAppStatus i status)"

definition msg_apps_UpdateParams :: "'x env \<Rightarrow> string \<Rightarrow> apps_params \<Rightarrow> ('x, unit) call" where
  "msg_apps_UpdateParams E auth p =
     seqM (check (auth = authority E) (EApps AErrUnauthorized))
     (seqM (check (apps_params_Validate E p) (EApps AErrInvalidParams))
     (bindM (gets (\<lambda>s. ap_BondDenom p \<noteq> ap_BondDenom (apps_GetParams s) \<and> 0 < BondedTotal s)) (\<lambda>stranded.
      seqM (check (\<not> stranded) (EApps AErrInvalidParams))
      (on_apps (\<lambda>c. c\<lparr>a_Params := Some p\<rparr>)))))"

definition done_ok :: "('x, unit) call \<Rightarrow> ('x, apps_response) call" where
  "done_ok m = seqM m (ret RespOk)"

fun apps_run :: "'x env \<Rightarrow> apps_msg \<Rightarrow> ('x, apps_response) call" where
  "apps_run E (MsgRegisterApp ow r u d b) = msg_RegisterApp E ow r u d b"
| "apps_run E (MsgUpdateApp ow i r u d b) = done_ok (UpdateApp E ow i r u d b)"
| "apps_run E (MsgTransferOwnership ow i n) = done_ok (TransferOwnership E ow i n)"
| "apps_run E (MsgAcceptOwnership n i) = done_ok (AcceptOwnership n i)"
| "apps_run E (MsgAddContract ow i c p) = msg_AddContract E ow i c p"
| "apps_run E (MsgAcceptContractClaim ow i c) = msg_AcceptContractClaim E ow i c"
| "apps_run E (MsgRemoveContract ow i c) = done_ok (RemoveContract E ow i c)"
| "apps_run E (MsgCancelContractMove ow c) = done_ok (CancelContractMove E ow c)"
| "apps_run E (MsgBondApp ow i a) = done_ok (BondApp E ow i a)"
| "apps_run E (MsgUnbondApp ow i a) = msg_UnbondApp E ow i a"
| "apps_run E (MsgSetAppStatus a i st) = done_ok (msg_SetAppStatus E a i st)"
| "apps_run E (MsgAppsUpdateParams a p) = done_ok (msg_apps_UpdateParams E a p)"

definition apps_handle :: "'x env \<Rightarrow> apps_msg \<Rightarrow> ('x, apps_response) call" where
  "apps_handle E m = atomic (apps_run E m)"

end
