(* ===== verification/AppsGenesis.thy ===== *)
theory AppsGenesis
  imports AppsQuota
begin

text \<open>
  Genesis and queries of \<open>x/apps\<close>: \<open>types/genesis.go\<close>, \<open>keeper/genesis.go\<close>,
  \<open>keeper/grpc_query.go\<close>.
\<close>

record app_bond =
  ab_AppId :: u64
  ab_Amount :: int

record unbonding =
  ub_AppId :: u64
  ub_Owner :: string
  ub_Amount :: int
  ub_ReleaseHeight :: int

record apps_genesis =
  ag_Params :: apps_params
  ag_NextAppId :: u64
  ag_Apps :: "app list"
  ag_Bindings :: "contract_binding list"
  ag_PendingMoves :: "pending_move list"
  ag_PendingClaims :: "pending_claim list"
  ag_EpochStats :: "epoch_stats list"
  ag_Quotas :: "quota list"
  ag_Bonds :: "app_bond list"
  ag_Unbondings :: "unbonding list"

fun app_ids_ok :: "u64 \<Rightarrow> u64 list \<Rightarrow> app list \<Rightarrow> bool" where
  "app_ids_ok nxt seen [] = True"
| "app_ids_ok nxt seen (a # as) =
     (app_AppId a \<noteq> 0 \<and> app_AppId a < nxt \<and> app_AppId a \<notin> set seen \<and>
      app_ids_ok nxt (app_AppId a # seen) as)"

fun bindings_ok :: "'x env \<Rightarrow> u64 list \<Rightarrow> string list \<Rightarrow> contract_binding list \<Rightarrow> bool" where
  "bindings_ok E ids seen [] = True"
| "bindings_ok E ids seen (b # bs) =
     (IsHexAddress E (cb_Contract b) \<and> NormalizeContract E (cb_Contract b) \<notin> set seen \<and>
      cb_AppId b \<in> set ids \<and>
      bindings_ok E ids (NormalizeContract E (cb_Contract b) # seen) bs)"

fun bonds_ok :: "u64 list \<Rightarrow> u64 list \<Rightarrow> app_bond list \<Rightarrow> bool" where
  "bonds_ok ids seen [] = True"
| "bonds_ok ids seen (b # bs) =
     (ab_AppId b \<in> set ids \<and> ab_AppId b \<notin> set seen \<and> 0 < ab_Amount b \<and>
      bonds_ok ids (ab_AppId b # seen) bs)"

definition apps_genesis_Validate :: "'x env \<Rightarrow> apps_genesis \<Rightarrow> bool" where
  "apps_genesis_Validate E gs \<longleftrightarrow>
     apps_params_Validate E (ag_Params gs) \<and>
     ag_NextAppId gs \<noteq> 0 \<and>
     app_ids_ok (ag_NextAppId gs) [] (ag_Apps gs) \<and>
     (let ids = map app_AppId (ag_Apps gs) in
      bindings_ok E ids [] (ag_Bindings gs) \<and>
      bonds_ok ids [] (ag_Bonds gs) \<and>
      list_all (\<lambda>u. AccFromBech32 E (ub_Owner u) \<noteq> None \<and> 0 < ub_Amount u) (ag_Unbondings gs))"

definition apps_DefaultGenesis :: apps_genesis where
  "apps_DefaultGenesis =
     \<lparr>ag_Params = apps_DefaultParams, ag_NextAppId = 1, ag_Apps = [], ag_Bindings = [], ag_PendingMoves = [],
      ag_PendingClaims = [], ag_EpochStats = [], ag_Quotas = [], ag_Bonds = [], ag_Unbondings = []\<rparr>"

definition init_binding :: "'x env \<Rightarrow> contract_binding \<Rightarrow> ('x, unit) call" where
  "init_binding E b =
     (let c = NormalizeContract E (cb_Contract b) in
      seqM (on_apps (\<lambda>st. st\<lparr>Bindings := fmupd c (b\<lparr>cb_Contract := c\<rparr>) (Bindings st)\<rparr>))
      (on_apps (\<lambda>st. st\<lparr>AppContracts := finsert (cb_AppId b, c) (AppContracts st)\<rparr>)))"

definition init_move :: "pending_move \<Rightarrow> ('x, unit) call" where
  "init_move m =
     seqM (on_apps (\<lambda>st. st\<lparr>PendingMoves := fmupd (pm_Contract m) m (PendingMoves st)\<rparr>))
     (on_apps (\<lambda>st. st\<lparr>MovesByUnlock := finsert (pm_UnlockHeight m, pm_Contract m) (MovesByUnlock st)\<rparr>))"

definition init_unbonding :: "unbonding \<Rightarrow> ('x, unit) call" where
  "init_unbonding u =
     (let key = (ub_ReleaseHeight u, ub_AppId u, ub_Owner u) in
      bindM (gets (\<lambda>s. case fmlookup (Unbondings (apps s)) key of None \<Rightarrow> 0 | Some v \<Rightarrow> v)) (\<lambda>prev.
      on_apps (\<lambda>st. st\<lparr>Unbondings := fmupd key (prev + ub_Amount u) (Unbondings st)\<rparr>)))"

definition apps_InitGenesis :: "'x env \<Rightarrow> apps_genesis \<Rightarrow> ('x, unit) call" where
  "apps_InitGenesis E gs =
     seqM (on_apps (\<lambda>st. st\<lparr>a_Params := Some (ag_Params gs)\<rparr>))
     (seqM (on_apps (\<lambda>st. st\<lparr>NextAppID := ag_NextAppId gs\<rparr>))
     (seqM (forM (ag_Apps gs) (\<lambda>a. put_app (app_AppId a) a))
     (seqM (forM (ag_Bindings gs) (init_binding E))
     (seqM (forM (ag_PendingMoves gs) init_move)
     (seqM (forM (ag_PendingClaims gs)
        (\<lambda>c. on_apps (\<lambda>st. st\<lparr>PendingClaims := fmupd (pc_AppId c, pc_Contract c) c (PendingClaims st)\<rparr>)))
     (seqM (forM (ag_EpochStats gs)
        (\<lambda>x. on_apps (\<lambda>st. st\<lparr>EpochStats := fmupd (es_Epoch x, es_AppId x) x (EpochStats st)\<rparr>)))
     (seqM (forM (ag_Quotas gs) (\<lambda>q. on_apps (\<lambda>st. st\<lparr>Quotas := fmupd (q_AppId q) q (Quotas st)\<rparr>)))
     (seqM (forM (ag_Bonds gs) (\<lambda>b. on_apps (\<lambda>st. st\<lparr>Bonds := fmupd (ab_AppId b) (ab_Amount b) (Bonds st)\<rparr>)))
     (seqM (forM (ag_Unbondings gs) init_unbonding)
     (seqM (on_apps (\<lambda>st. st\<lparr>EpochNumber := Some 0\<rparr>))
     (bindM (gets height) (\<lambda>h. on_apps (\<lambda>st. st\<lparr>EpochStart := Some h\<rparr>)))))))))))))"

definition apps_ExportGenesis :: "'x chain \<Rightarrow> apps_genesis" where
  "apps_ExportGenesis s =
     \<lparr>ag_Params = apps_GetParams s, ag_NextAppId = NextAppID (apps s),
      ag_Apps = map snd (entries (Apps (apps s))),
      ag_Bindings = map snd (entries (Bindings (apps s))),
      ag_PendingMoves = map snd (entries (PendingMoves (apps s))),
      ag_PendingClaims = map snd (entries (PendingClaims (apps s))),
      ag_EpochStats = map snd (entries (EpochStats (apps s))),
      ag_Quotas = map snd (entries (Quotas (apps s))),
      ag_Bonds = map (\<lambda>(i, v). \<lparr>ab_AppId = i, ab_Amount = v\<rparr>) (entries (Bonds (apps s))),
      ag_Unbondings = map (\<lambda>((h, i, w), v). \<lparr>ub_AppId = i, ub_Owner = w, ub_Amount = v, ub_ReleaseHeight = h\<rparr>)
        (entries (Unbondings (apps s)))\<rparr>"

section \<open>Queries\<close>

definition query_AppByContract :: "'x env \<Rightarrow> 'x chain \<Rightarrow> string \<Rightarrow> err + contract_binding \<times> app" where
  "query_AppByContract E s contract =
     (if \<not> IsHexAddress E contract then Inl (EApps AErrInvalidField)
      else case fmlookup (Bindings (apps s)) (NormalizeContract E contract) of
        None \<Rightarrow> Inl (EApps AErrNotBound)
      | Some b \<Rightarrow>
          (case find_app s (cb_AppId b) of
             None \<Rightarrow> Inl (EApps AErrAppNotFound)
           | Some a \<Rightarrow> Inr (b, a)))"

definition query_Contracts :: "'x chain \<Rightarrow> u64 \<Rightarrow> contract_binding list" where
  "query_Contracts s i =
     List.map_filter (\<lambda>(j, c). fmlookup (Bindings (apps s)) c)
       (filter (\<lambda>(j, c). j = i) (sorted_list_of_fset (AppContracts (apps s))))"

definition query_Quota :: "'x chain \<Rightarrow> u64 \<Rightarrow> err + quota \<times> epoch_stats \<times> int" where
  "query_Quota s i =
     (case find_app s i of
        None \<Rightarrow> Inl (EApps AErrAppNotFound)
      | Some a \<Rightarrow>
          let (epoch, start) = CurrentEpoch s;
              st = (case fmlookup (EpochStats (apps s)) (epoch, i) of
                      Some x \<Rightarrow> x
                    | None \<Rightarrow> \<lparr>es_AppId = i, es_Epoch = epoch, es_FeeWeight = 0, es_Payments = 0, es_Hll = []\<rparr>)
          in Inr (QuotaFor s i, st, sub64 (add64 start (ap_EpochLengthBlocks (apps_GetParams s))) 1))"

definition query_PendingMoves :: "'x chain \<Rightarrow> pending_move list" where
  "query_PendingMoves s = take 1000 (map snd (entries (PendingMoves (apps s))))"

definition query_PendingClaims :: "'x chain \<Rightarrow> u64 \<Rightarrow> pending_claim list" where
  "query_PendingClaims s i =
     take 1000 (map snd (filter (\<lambda>((j, c), _). j = i) (entries (PendingClaims (apps s)))))"

definition query_CurrentEpoch :: "'x chain \<Rightarrow> u64 \<times> int \<times> int" where
  "query_CurrentEpoch s =
     (let (epoch, start) = CurrentEpoch s
      in (epoch, start, sub64 (add64 start (ap_EpochLengthBlocks (apps_GetParams s))) 1))"

definition query_Bond :: "'x chain \<Rightarrow> u64 \<Rightarrow> err + denom \<times> int \<times> u64 \<times> unbonding list" where
  "query_Bond s i =
     (case find_app s i of
        None \<Rightarrow> Inl (EApps AErrAppNotFound)
      | Some a \<Rightarrow>
          let params = apps_GetParams s; bonded = BondOf s i
          in Inr (ap_BondDenom params, bonded, BaseQuota params bonded,
               map (\<lambda>((h, j, w), v). \<lparr>ub_AppId = j, ub_Owner = w, ub_Amount = v, ub_ReleaseHeight = h\<rparr>)
                 (filter (\<lambda>((h, j, w), v). j = i) (entries (Unbondings (apps s))))))"

end
