(* ===== verification/AppsInvariant.thy ===== *)
theory AppsInvariant
  imports AppsGenesis
begin

text \<open>
  The invariant of the registry: every binding is indexed under its app, every app counts its
  bindings, every scheduled move is of a bound contract and indexed by its unlock height. One lemma
  per change of the store, then every operation preserves it.
\<close>

section \<open>The invariant\<close>

definition contracts_of :: "apps_store \<Rightarrow> u64 \<Rightarrow> string set" where
  "contracts_of st i = {c. \<exists>b. fmlookup (Bindings st) c = Some b \<and> cb_AppId b = i}"

definition app_ok :: "apps_store \<Rightarrow> u64 \<Rightarrow> app \<Rightarrow> bool" where
  "app_ok st i a \<longleftrightarrow>
     app_AppId a = i \<and> i \<noteq> 0 \<and> i < NextAppID st \<and> unat (app_ContractCount a) = card (contracts_of st i)"

definition move_ok :: "apps_store \<Rightarrow> string \<Rightarrow> pending_move \<Rightarrow> bool" where
  "move_ok st c mv \<longleftrightarrow>
     pm_Contract mv = c \<and> (pm_UnlockHeight mv, c) |\<in>| MovesByUnlock st \<and>
     fmlookup (Apps st) (pm_ToAppId mv) \<noteq> None \<and> pm_FromAppId mv \<noteq> pm_ToAppId mv \<and>
     c \<in> contracts_of st (pm_FromAppId mv)"

definition registry_ok :: "apps_store \<Rightarrow> bool" where
  "registry_ok st \<longleftrightarrow>
     (\<forall>i a. fmlookup (Apps st) i = Some a \<longrightarrow> app_ok st i a) \<and>
     (\<forall>c b. fmlookup (Bindings st) c = Some b \<longrightarrow>
        cb_Contract b = c \<and> fmlookup (Apps st) (cb_AppId b) \<noteq> None) \<and>
     (\<forall>i c. (i, c) |\<in>| AppContracts st \<longleftrightarrow> c \<in> contracts_of st i) \<and>
     (\<forall>c mv. fmlookup (PendingMoves st) c = Some mv \<longrightarrow> move_ok st c mv) \<and>
     (\<forall>u c. (u, c) |\<in>| MovesByUnlock st \<longrightarrow>
        (\<exists>mv. fmlookup (PendingMoves st) c = Some mv \<and> pm_UnlockHeight mv = u))"

lemma registry_okI:
  assumes "\<And>i a. fmlookup (Apps st) i = Some a \<Longrightarrow> app_ok st i a"
    and "\<And>c b. fmlookup (Bindings st) c = Some b \<Longrightarrow> cb_Contract b = c \<and> (\<exists>a. fmlookup (Apps st) (cb_AppId b) = Some a)"
    and "\<And>i c. (i, c) |\<in>| AppContracts st \<longleftrightarrow> c \<in> contracts_of st i"
    and "\<And>c mv. fmlookup (PendingMoves st) c = Some mv \<Longrightarrow> move_ok st c mv"
    and "\<And>u c. (u, c) |\<in>| MovesByUnlock st \<Longrightarrow> \<exists>mv. fmlookup (PendingMoves st) c = Some mv \<and> pm_UnlockHeight mv = u"
  shows "registry_ok st"
  unfolding registry_ok_def using assms by simp

lemma reg_app: "registry_ok st \<Longrightarrow> fmlookup (Apps st) i = Some a \<Longrightarrow> app_ok st i a"
  and reg_binding: "registry_ok st \<Longrightarrow> fmlookup (Bindings st) c = Some b \<Longrightarrow>
    cb_Contract b = c \<and> (\<exists>a. fmlookup (Apps st) (cb_AppId b) = Some a)"
  and reg_index: "registry_ok st \<Longrightarrow> (i, c) |\<in>| AppContracts st \<longleftrightarrow> c \<in> contracts_of st i"
  and reg_move: "registry_ok st \<Longrightarrow> fmlookup (PendingMoves st) c = Some mv \<Longrightarrow> move_ok st c mv"
  and reg_unlock: "registry_ok st \<Longrightarrow> (u, c) |\<in>| MovesByUnlock st \<Longrightarrow>
    \<exists>mv. fmlookup (PendingMoves st) c = Some mv \<and> pm_UnlockHeight mv = u"
  by (simp_all add: registry_ok_def)

lemma finite_contracts_of [simp]: "finite (contracts_of st i)"
proof (rule finite_subset)
  show "contracts_of st i \<subseteq> fset (fmdom (Bindings st))"
    by (auto simp: contracts_of_def fmlookup_dom_iff)
qed simp

lemma registry_ok_other [simp]:
  "registry_ok (st\<lparr>a_Params := p\<rparr>) = registry_ok st"
  "registry_ok (st\<lparr>PendingClaims := pc\<rparr>) = registry_ok st"
  "registry_ok (st\<lparr>EpochStats := es\<rparr>) = registry_ok st"
  "registry_ok (st\<lparr>Quotas := q\<rparr>) = registry_ok st"
  "registry_ok (st\<lparr>Bonds := b\<rparr>) = registry_ok st"
  "registry_ok (st\<lparr>Unbondings := u\<rparr>) = registry_ok st"
  "registry_ok (st\<lparr>EpochNumber := n\<rparr>) = registry_ok st"
  "registry_ok (st\<lparr>EpochStart := h\<rparr>) = registry_ok st"
  by (simp_all add: registry_ok_def app_ok_def move_ok_def contracts_of_def)

text \<open>Changes of an app that keep its id and count, and a new app under the next id.\<close>

lemma contracts_of_other [simp]:
  "contracts_of (st\<lparr>Apps := x\<rparr>) = contracts_of st"
  "contracts_of (st\<lparr>NextAppID := n\<rparr>) = contracts_of st"
  "contracts_of (st\<lparr>PendingMoves := pm\<rparr>) = contracts_of st"
  "contracts_of (st\<lparr>MovesByUnlock := mu\<rparr>) = contracts_of st"
  by (simp_all add: contracts_of_def [abs_def])

lemma registry_ok_app:
  assumes ok: "registry_ok st" and a: "fmlookup (Apps st) i = Some a"
    and eq: "app_AppId a' = app_AppId a" "app_ContractCount a' = app_ContractCount a"
  shows "registry_ok (st\<lparr>Apps := fmupd i a' (Apps st)\<rparr>)" (is "registry_ok ?st")
proof -
  show ?thesis
  proof (rule registry_okI)
    show "app_ok ?st j x" if "fmlookup (Apps ?st) j = Some x" for j x
    proof (cases "j = i")
      case True
      with that eq reg_app [OF ok a] show ?thesis by (simp add: app_ok_def)
    next
      case False
      with that reg_app [OF ok, of j x] show ?thesis by (simp add: app_ok_def)
    qed
    show "move_ok ?st d mv" if "fmlookup (PendingMoves ?st) d = Some mv" for d mv
      using that reg_move [OF ok, of d mv] by (auto simp: move_ok_def)
    show "cb_Contract x = d \<and> (\<exists>y. fmlookup (Apps ?st) (cb_AppId x) = Some y)"
      if "fmlookup (Bindings ?st) d = Some x" for d x
      using that reg_binding [OF ok, of d x] by (auto split: if_splits)
    show "(j, d) |\<in>| AppContracts ?st \<longleftrightarrow> d \<in> contracts_of ?st j" for j d
      using reg_index [OF ok, of j d] by simp
    show "\<exists>mv. fmlookup (PendingMoves ?st) d = Some mv \<and> pm_UnlockHeight mv = u"
      if "(u, d) |\<in>| MovesByUnlock ?st" for u d
      using that reg_unlock [OF ok] by simp
  qed
qed

lemma no_contracts: "registry_ok st \<Longrightarrow> fmlookup (Apps st) i = None \<Longrightarrow> contracts_of st i = {}"
  using reg_binding by (fastforce simp: contracts_of_def)

lemma fresh_id: "registry_ok st \<Longrightarrow> NextAppID st \<le> i \<Longrightarrow> fmlookup (Apps st) i = None"
  using reg_app [of st i] by (cases "fmlookup (Apps st) i") (auto simp: app_ok_def)

lemma registry_ok_new:
  assumes ok: "registry_ok st" and i: "NextAppID st \<le> i" "i \<noteq> 0" "i < n"
    and a: "app_AppId a = i" "app_ContractCount a = 0"
  shows "registry_ok (st\<lparr>NextAppID := n, Apps := fmupd i a (Apps st)\<rparr>)" (is "registry_ok ?st")
proof -
  show ?thesis
  proof (rule registry_okI)
    show "app_ok ?st j x" if "fmlookup (Apps ?st) j = Some x" for j x
    proof (cases "j = i")
      case True
      with that i a no_contracts [OF ok fresh_id [OF ok i(1)]] show ?thesis by (simp add: app_ok_def)
    next
      case False
      with that have "app_ok st j x" using reg_app [OF ok] by simp
      moreover from this have "j < n" using i unfolding app_ok_def by (meson order_less_le_trans order_less_trans)
      ultimately show ?thesis by (simp add: app_ok_def)
    qed
    show "move_ok ?st d mv" if "fmlookup (PendingMoves ?st) d = Some mv" for d mv
      using that reg_move [OF ok, of d mv] by (auto simp: move_ok_def)
    show "cb_Contract x = d \<and> (\<exists>y. fmlookup (Apps ?st) (cb_AppId x) = Some y)"
      if "fmlookup (Bindings ?st) d = Some x" for d x
      using that reg_binding [OF ok, of d x] by (auto split: if_splits)
    show "(j, d) |\<in>| AppContracts ?st \<longleftrightarrow> d \<in> contracts_of ?st j" for j d
      using reg_index [OF ok, of j d] by simp
    show "\<exists>mv. fmlookup (PendingMoves ?st) d = Some mv \<and> pm_UnlockHeight mv = u"
      if "(u, d) |\<in>| MovesByUnlock ?st" for u d
      using that reg_unlock [OF ok] by simp
  qed
qed

text \<open>Binding, unbinding, scheduling a move and dropping one.\<close>

definition bind_st :: "string \<Rightarrow> contract_binding \<Rightarrow> app \<Rightarrow> apps_store \<Rightarrow> apps_store" where
  "bind_st c b a st = st\<lparr>Bindings := fmupd c b (Bindings st),
     AppContracts := finsert (cb_AppId b, c) (AppContracts st),
     Apps := fmupd (cb_AppId b) (a\<lparr>app_ContractCount := app_ContractCount a + 1\<rparr>) (Apps st)\<rparr>"

definition unbind_st :: "string \<Rightarrow> u64 \<Rightarrow> app \<Rightarrow> apps_store \<Rightarrow> apps_store" where
  "unbind_st c i a st = st\<lparr>Bindings := fmdrop c (Bindings st),
     AppContracts := AppContracts st |-| {|(i, c)|},
     Apps := fmupd i (if 0 < app_ContractCount a then a\<lparr>app_ContractCount := app_ContractCount a - 1\<rparr> else a) (Apps st)\<rparr>"

lemma bind_st_sel [simp]:
  "Bindings (bind_st c b a st) = fmupd c b (Bindings st)"
  "AppContracts (bind_st c b a st) = finsert (cb_AppId b, c) (AppContracts st)"
  "Apps (bind_st c b a st) = fmupd (cb_AppId b) (a\<lparr>app_ContractCount := app_ContractCount a + 1\<rparr>) (Apps st)"
  "PendingMoves (bind_st c b a st) = PendingMoves st" "MovesByUnlock (bind_st c b a st) = MovesByUnlock st"
  "NextAppID (bind_st c b a st) = NextAppID st"
  by (simp_all add: bind_st_def)

lemma unbind_st_sel [simp]:
  "Bindings (unbind_st c i a st) = fmdrop c (Bindings st)"
  "AppContracts (unbind_st c i a st) = AppContracts st |-| {|(i, c)|}"
  "Apps (unbind_st c i a st) =
     fmupd i (if 0 < app_ContractCount a then a\<lparr>app_ContractCount := app_ContractCount a - 1\<rparr> else a) (Apps st)"
  "PendingMoves (unbind_st c i a st) = PendingMoves st" "MovesByUnlock (unbind_st c i a st) = MovesByUnlock st"
  "NextAppID (unbind_st c i a st) = NextAppID st"
  by (simp_all add: unbind_st_def)

lemma contracts_bind:
  "fmlookup (Bindings st) c = None \<Longrightarrow> contracts_of (bind_st c b a st) j =
     (if j = cb_AppId b then insert c (contracts_of st j) else contracts_of st j)"
  by (auto simp: contracts_of_def)

lemma contracts_unbind:
  "fmlookup (Bindings st) c = Some b \<Longrightarrow> contracts_of (unbind_st c (cb_AppId b) a st) j = contracts_of st j - {c}"
  by (auto simp: contracts_of_def split: if_splits)

lemma unat_suc: "(x::'w::len word) < m \<Longrightarrow> unat (x + 1) = Suc (unat x)"
proof -
  assume "x < m"
  moreover have "unat m < 2 ^ LENGTH('w)" by (rule unsigned_less)
  ultimately have "unat x + 1 < 2 ^ LENGTH('w)" unfolding word_less_nat_alt by linarith
  then show ?thesis by (simp add: unat_word_ariths)
qed

lemma unat_pred: "0 < (x::'w::len word) \<Longrightarrow> unat (x - 1) = unat x - 1"
  by (simp add: unat_minus_one word_less_nat_alt unat_eq_0 [symmetric])

lemma registry_ok_bind:
  assumes ok: "registry_ok st" and a: "fmlookup (Apps st) (cb_AppId b) = Some a"
    and free: "fmlookup (Bindings st) c = None" and b: "cb_Contract b = c" and m: "app_ContractCount a < m"
  shows "registry_ok (bind_st c b a st)" (is "registry_ok ?st")
proof (rule registry_okI)
  note c = contracts_bind [OF free]
  have new: "c \<notin> contracts_of st (cb_AppId b)" using free by (simp add: contracts_of_def)
  have "app_ok ?st (cb_AppId b) (a\<lparr>app_ContractCount := app_ContractCount a + 1\<rparr>)"
    using reg_app [OF ok a] new by (simp add: app_ok_def c unat_suc [OF m])
  then show "app_ok ?st j x" if "fmlookup (Apps ?st) j = Some x" for j x
    using that reg_app [OF ok, of j x] by (auto simp: app_ok_def c split: if_splits)
  show "cb_Contract x = d \<and> (\<exists>y. fmlookup (Apps ?st) (cb_AppId x) = Some y)"
    if "fmlookup (Bindings ?st) d = Some x" for d x
    using that b reg_binding [OF ok, of d x] by (auto split: if_splits)
  show "(j, d) |\<in>| AppContracts ?st \<longleftrightarrow> d \<in> contracts_of ?st j" for j d
    using reg_index [OF ok, of j d] by (auto simp: c)
  show "move_ok ?st d mv" if "fmlookup (PendingMoves ?st) d = Some mv" for d mv
    using that reg_move [OF ok, of d mv] by (auto simp: move_ok_def c)
  show "\<exists>mv. fmlookup (PendingMoves ?st) d = Some mv \<and> pm_UnlockHeight mv = u"
    if "(u, d) |\<in>| MovesByUnlock ?st" for u d
    using that reg_unlock [OF ok] by simp
qed

lemma registry_ok_unbind:
  assumes ok: "registry_ok st" and b: "fmlookup (Bindings st) c = Some b"
    and a: "fmlookup (Apps st) (cb_AppId b) = Some a" and free: "fmlookup (PendingMoves st) c = None"
  shows "registry_ok (unbind_st c (cb_AppId b) a st)" (is "registry_ok ?st")
proof (rule registry_okI)
  note c = contracts_unbind [OF b]
  have mem: "c \<in> contracts_of st (cb_AppId b)" using b by (simp add: contracts_of_def)
  have cnt: "unat (app_ContractCount a) = card (contracts_of st (cb_AppId b))"
    using reg_app [OF ok a] by (simp add: app_ok_def)
  moreover have "0 < card (contracts_of st (cb_AppId b))" using mem by (auto simp: card_gt_0_iff)
  ultimately have pos: "0 < app_ContractCount a" by (simp add: word_less_nat_alt)
  have "app_ok ?st (cb_AppId b) (a\<lparr>app_ContractCount := app_ContractCount a - 1\<rparr>)"
    using reg_app [OF ok a] mem by (simp add: app_ok_def c unat_pred [OF pos])
  moreover have "contracts_of ?st j = contracts_of st j" if "j \<noteq> cb_AppId b" for j
    using that b by (auto simp: c contracts_of_def)
  ultimately show "app_ok ?st j x" if "fmlookup (Apps ?st) j = Some x" for j x
    using that pos reg_app [OF ok, of j x] by (auto simp: app_ok_def split: if_splits)
  show "cb_Contract x = d \<and> (\<exists>y. fmlookup (Apps ?st) (cb_AppId x) = Some y)"
    if "fmlookup (Bindings ?st) d = Some x" for d x
    using that reg_binding [OF ok, of d x] by (auto split: if_splits)
  show "(j, d) |\<in>| AppContracts ?st \<longleftrightarrow> d \<in> contracts_of ?st j" for j d
    using reg_index [OF ok, of j d] b by (auto simp: c contracts_of_def)
  show "move_ok ?st d mv" if "fmlookup (PendingMoves ?st) d = Some mv" for d mv
    using that reg_move [OF ok, of d mv] free by (auto simp: move_ok_def c)
  show "\<exists>mv. fmlookup (PendingMoves ?st) d = Some mv \<and> pm_UnlockHeight mv = u"
    if "(u, d) |\<in>| MovesByUnlock ?st" for u d
    using that reg_unlock [OF ok] by simp
qed

definition schedule_st :: "string \<Rightarrow> pending_move \<Rightarrow> apps_store \<Rightarrow> apps_store" where
  "schedule_st c mv st = st\<lparr>PendingMoves := fmupd c mv (PendingMoves st),
     MovesByUnlock := finsert (pm_UnlockHeight mv, c) (MovesByUnlock st)\<rparr>"

definition drop_move_st :: "string \<Rightarrow> pending_move \<Rightarrow> apps_store \<Rightarrow> apps_store" where
  "drop_move_st c mv st = st\<lparr>MovesByUnlock := MovesByUnlock st |-| {|(pm_UnlockHeight mv, c)|},
     PendingMoves := fmdrop c (PendingMoves st)\<rparr>"

lemma schedule_st_sel [simp]:
  "Bindings (schedule_st c mv st) = Bindings st" "AppContracts (schedule_st c mv st) = AppContracts st"
  "Apps (schedule_st c mv st) = Apps st" "NextAppID (schedule_st c mv st) = NextAppID st"
  "PendingMoves (schedule_st c mv st) = fmupd c mv (PendingMoves st)"
  "MovesByUnlock (schedule_st c mv st) = finsert (pm_UnlockHeight mv, c) (MovesByUnlock st)"
  "contracts_of (schedule_st c mv st) = contracts_of st"
  by (simp_all add: schedule_st_def)

lemma drop_move_st_sel [simp]:
  "Bindings (drop_move_st c mv st) = Bindings st" "AppContracts (drop_move_st c mv st) = AppContracts st"
  "Apps (drop_move_st c mv st) = Apps st" "NextAppID (drop_move_st c mv st) = NextAppID st"
  "PendingMoves (drop_move_st c mv st) = fmdrop c (PendingMoves st)"
  "MovesByUnlock (drop_move_st c mv st) = MovesByUnlock st |-| {|(pm_UnlockHeight mv, c)|}"
  "contracts_of (drop_move_st c mv st) = contracts_of st"
  by (simp_all add: drop_move_st_def)

lemma registry_ok_schedule:
  assumes ok: "registry_ok st" and mv: "pm_Contract mv = c" "fmlookup (Apps st) (pm_ToAppId mv) = Some a"
    "pm_FromAppId mv \<noteq> pm_ToAppId mv" "c \<in> contracts_of st (pm_FromAppId mv)"
    and free: "fmlookup (PendingMoves st) c = None"
  shows "registry_ok (schedule_st c mv st)" (is "registry_ok ?st")
proof (rule registry_okI)
  show "app_ok ?st j x" if "fmlookup (Apps ?st) j = Some x" for j x
    using that reg_app [OF ok, of j x] by (simp add: app_ok_def)
  show "cb_Contract x = d \<and> (\<exists>y. fmlookup (Apps ?st) (cb_AppId x) = Some y)"
    if "fmlookup (Bindings ?st) d = Some x" for d x
    using that reg_binding [OF ok, of d x] by simp
  show "(j, d) |\<in>| AppContracts ?st \<longleftrightarrow> d \<in> contracts_of ?st j" for j d
    using reg_index [OF ok, of j d] by simp
  show "move_ok ?st d m" if "fmlookup (PendingMoves ?st) d = Some m" for d m
    using that mv reg_move [OF ok, of d m] by (auto simp: move_ok_def split: if_splits)
  show "\<exists>m. fmlookup (PendingMoves ?st) d = Some m \<and> pm_UnlockHeight m = u"
    if "(u, d) |\<in>| MovesByUnlock ?st" for u d
    using that reg_unlock [OF ok, of u d] free by auto
qed

lemma registry_ok_drop_move:
  assumes ok: "registry_ok st" and mv: "fmlookup (PendingMoves st) c = Some mv"
  shows "registry_ok (drop_move_st c mv st)" (is "registry_ok ?st")
proof (rule registry_okI)
  show "app_ok ?st j x" if "fmlookup (Apps ?st) j = Some x" for j x
    using that reg_app [OF ok, of j x] by (simp add: app_ok_def)
  show "cb_Contract x = d \<and> (\<exists>y. fmlookup (Apps ?st) (cb_AppId x) = Some y)"
    if "fmlookup (Bindings ?st) d = Some x" for d x
    using that reg_binding [OF ok, of d x] by simp
  show "(j, d) |\<in>| AppContracts ?st \<longleftrightarrow> d \<in> contracts_of ?st j" for j d
    using reg_index [OF ok, of j d] by simp
  show "move_ok ?st d m" if "fmlookup (PendingMoves ?st) d = Some m" for d m
    using that reg_move [OF ok, of d m] by (auto simp: move_ok_def split: if_splits)
  show "\<exists>m. fmlookup (PendingMoves ?st) d = Some m \<and> pm_UnlockHeight m = u"
    if "(u, d) |\<in>| MovesByUnlock ?st" for u d
    using that reg_unlock [OF ok, of u d] mv by auto
qed

section \<open>Runs\<close>

lemma GetApp_Inr [run_simps]: "GetApp i s = (Inr a, t) \<longleftrightarrow> find_app s i = Some a \<and> t = s"
  by (auto simp: GetApp_def run_simps)

lemma GetApp_step: "find_app s i = Some a \<Longrightarrow> bindM (GetApp i) f s = f a s"
  by (simp add: GetApp_def exec_simps bindM_def gets_def need_def ret_def)

lemma GetApp_stop: "find_app s i = None \<Longrightarrow> bindM (GetApp i) f s = (Inl (EApps AErrAppNotFound), s)"
  by (simp add: GetApp_def bindM_def gets_def need_def fail_def)

lemma ownedApp_Inr [run_simps]:
  "ownedApp ow i s = (Inr a, t) \<longleftrightarrow>
     find_app s i = Some a \<and> app_Owner a = ow \<and> app_Status a \<noteq> APP_STATUS_REVOKED \<and> t = s"
  by (auto simp: ownedApp_def run_simps)

lemma setBinding_run:
  assumes "find_app s i = Some a"
  shows "setBinding c i p s = (Inr (), s\<lparr>apps := bind_st c
      \<lparr>cb_Contract = c, cb_AppId = i, cb_ProofType = p, cb_AddedHeight = height s, cb_Version = app_Version a\<rparr> a (apps s),
      events := events s @ [EvContractBound c i p]\<rparr>)"
  using assms by (simp add: setBinding_def GetApp_step exec_simps put_app_def emit_def bind_st_def)

lemma setBinding_Inr [run_simps]:
  "setBinding c i p s = (Inr u, t) \<longleftrightarrow> (\<exists>a. find_app s i = Some a \<and> t = s\<lparr>apps := bind_st c
      \<lparr>cb_Contract = c, cb_AppId = i, cb_ProofType = p, cb_AddedHeight = height s, cb_Version = app_Version a\<rparr> a (apps s),
      events := events s @ [EvContractBound c i p]\<rparr>)"
proof (cases "find_app s i")
  case None
  then have "setBinding c i p s = (Inl (EApps AErrAppNotFound), s)"
    by (simp add: setBinding_def GetApp_stop)
  with None show ?thesis by simp
qed (auto simp: setBinding_run)

lemma unbind_Inr [run_simps]:
  "unbind c i s = (Inr u, t) \<longleftrightarrow> (\<exists>a. find_app s i = Some a \<and> t = s\<lparr>apps := unbind_st c i a (apps s)\<rparr>)"
  by (auto simp: unbind_def run_simps put_app_def find_app_def unbind_st_def)

lemma drop_move_run [run_simps]: "drop_move c mv s = (r, t) \<longleftrightarrow> r = Inr () \<and> t = s\<lparr>apps := drop_move_st c mv (apps s)\<rparr>"
  by (auto simp: drop_move_def drop_move_st_def seqM_def bindM_def modify_def)

section \<open>Every operation preserves it\<close>

abbreviation apps_ok :: "'x chain \<Rightarrow> bool" where
  "apps_ok s \<equiv> registry_ok (apps s)"

lemma put_app_run [run_simps]: "put_app i a s = (r, t) \<longleftrightarrow> r = Inr () \<and> t = s\<lparr>apps := (apps s)\<lparr>Apps := fmupd i a (Apps (apps s))\<rparr>\<rparr>"
  by (simp add: put_app_def)

lemma RegisterApp_Inr:
  assumes "RegisterApp E ow rec uri dm bps s = (Inr i, t)"
  shows "\<exists>x n a. t = s\<lparr>ext := x, apps := (apps s)\<lparr>NextAppID := n, Apps := fmupd i a (Apps (apps s))\<rparr>,
      events := events s @ [EvAppRegistered i (AccString E ow) (app_RevenueRecipient a)]\<rparr> \<and>
    (i = NextAppID (apps s) \<and> i \<noteq> 0 \<or> NextAppID (apps s) = 0 \<and> i = 1) \<and> n = i + 1 \<and>
    a = \<lparr>app_AppId = i, app_Owner = AccString E ow, app_PendingOwner = [],
         app_RevenueRecipient = (if rec = [] then AccString E ow else rec), app_MetadataUri = uri, app_Domain = dm,
         app_ReferrerBps = bps, app_Status = APP_STATUS_ACTIVE, app_Version = 1,
         app_CreatedHeight = height s, app_ContractCount = 0\<rparr> \<and>
    validateRecipient E (app_RevenueRecipient a) \<and> validateURI uri \<and> validateDomain dm \<and>
    bps \<le> ap_MaxReferrerBps (apps_GetParams s) \<and>
    (let fee = ap_RegistrationFee (apps_GetParams s); cs = coins1 (coin_Denom fee) (coin_Amount fee) in
     if 0 < coin_Amount fee
     then \<exists>y. BankA2M E ow ''apps'' cs (ext s) = Inr y \<and> BankBurn E ''apps'' cs y = Inr x
     else x = ext s)"
proof -
  have next_id: "(NextID s1 = (Inr j, s2)) = (j = NextAppID (apps s1) \<and>
      s2 = s1\<lparr>apps := (apps s1)\<lparr>NextAppID := NextAppID (apps s1) + 1\<rparr>\<rparr>)" for s1 s2 :: "'a chain" and j
    by (auto simp: NextID_def run_simps)
  let ?fee = "ap_RegistrationFee (apps_GetParams s)"
  let ?cs = "coins1 (coin_Denom ?fee) (coin_Amount ?fee)"
  let ?rec = "if rec = [] then AccString E ow else rec"
  from assms obtain s1 where
    pre: "validateRecipient E ?rec" "validateURI uri" "validateDomain dm" "bps \<le> ap_MaxReferrerBps (apps_GetParams s)"
    and pay: "whenM (0 < coin_Amount ?fee)
      (seqM (SendCoinsFromAccountToModule E ow ''apps'' ?cs) (BurnCoins E ''apps'' ?cs)) s = (Inr (), s1)"
    and rest: "bindM NextID (\<lambda>id0. bindM (if id0 = 0 then NextID else ret id0) (\<lambda>i.
       bindM (gets height) (\<lambda>h. seqM (put_app i \<lparr>app_AppId = i, app_Owner = AccString E ow, app_PendingOwner = [],
         app_RevenueRecipient = ?rec, app_MetadataUri = uri, app_Domain = dm,
         app_ReferrerBps = bps, app_Status = APP_STATUS_ACTIVE, app_Version = 1,
         app_CreatedHeight = h, app_ContractCount = 0\<rparr>)
       (seqM (emit (EvAppRegistered i (AccString E ow) ?rec)) (ret i))))) s1 = (Inr i, t)"
    unfolding RegisterApp_def Let_def seqM_Inr bindM_Inr gets_run check_Inr by blast
  have "\<exists>x. s1 = s\<lparr>ext := x\<rparr> \<and> (if 0 < coin_Amount ?fee
      then \<exists>y. BankA2M E ow ''apps'' ?cs (ext s) = Inr y \<and> BankBurn E ''apps'' ?cs y = Inr x else x = ext s)"
  proof (cases "0 < coin_Amount ?fee")
    case True
    with pay show ?thesis by (auto simp: run_simps)
  next
    case False
    with pay show ?thesis by (intro exI [of _ "ext s"]) (simp add: run_simps)
  qed
  then obtain x where s1: "s1 = s\<lparr>ext := x\<rparr>" and x: "if 0 < coin_Amount ?fee
      then \<exists>y. BankA2M E ow ''apps'' ?cs (ext s) = Inr y \<and> BankBurn E ''apps'' ?cs y = Inr x else x = ext s" by blast
  from rest obtain n where n: "i = NextAppID (apps s) \<and> i \<noteq> 0 \<or> NextAppID (apps s) = 0 \<and> i = 1" "n = i + 1"
    and t: "t = s\<lparr>ext := x, apps := (apps s)\<lparr>NextAppID := n, Apps := fmupd i
        \<lparr>app_AppId = i, app_Owner = AccString E ow, app_PendingOwner = [],
         app_RevenueRecipient = ?rec, app_MetadataUri = uri, app_Domain = dm,
         app_ReferrerBps = bps, app_Status = APP_STATUS_ACTIVE, app_Version = 1,
         app_CreatedHeight = height s, app_ContractCount = 0\<rparr> (Apps (apps s))\<rparr>,
      events := events s @ [EvAppRegistered i (AccString E ow) ?rec]\<rparr>"
    by (auto simp: run_simps next_id s1 split: if_splits)
  let ?a = "\<lparr>app_AppId = i, app_Owner = AccString E ow, app_PendingOwner = [],
         app_RevenueRecipient = ?rec, app_MetadataUri = uri, app_Domain = dm,
         app_ReferrerBps = bps, app_Status = APP_STATUS_ACTIVE, app_Version = 1,
         app_CreatedHeight = height s, app_ContractCount = 0\<rparr>"
  show ?thesis
    using t n pre x by (intro exI [of _ x] exI [of _ n] exI [of _ ?a]) (simp add: Let_def)
qed

lemma bindContract_Inr:
  assumes "bindContract c i p s = (Inr r, t)"
  shows "\<exists>a. find_app s i = Some a \<and> app_ContractCount a < ap_MaxContractsPerApp (apps_GetParams s) \<and>
    (fmlookup (Bindings (apps s)) c = None \<and> r = (False, 0) \<and>
       t = s\<lparr>apps := bind_st c \<lparr>cb_Contract = c, cb_AppId = i, cb_ProofType = p, cb_AddedHeight = height s,
              cb_Version = app_Version a\<rparr> a (apps s),
             events := events s @ [EvContractBound c i p]\<rparr> \<or>
     (\<exists>b. let unlock = add64 (height s) (ap_ContractMoveDelayBlocks (apps_GetParams s)) in
       fmlookup (Bindings (apps s)) c = Some b \<and> cb_AppId b \<noteq> i \<and>
       fmlookup (PendingMoves (apps s)) c = None \<and> r = (True, unlock) \<and>
       t = s\<lparr>apps := schedule_st c \<lparr>pm_Contract = c, pm_FromAppId = cb_AppId b, pm_ToAppId = i,
              pm_ProofType = p, pm_UnlockHeight = unlock\<rparr> (apps s),
             events := events s @ [EvMoveScheduled c (cb_AppId b) i unlock]\<rparr>))"
  using assms
  by (auto simp: bindContract_def run_simps Let_def schedule_st_def split: option.splits)

lemma VerifyProof_Inr: "VerifyProof E sg c pr s = (Inr u, t) \<Longrightarrow> \<exists>x. t = s\<lparr>ext := x\<rparr>"
  by (auto simp: VerifyProof_def run_simps Let_def split: proof_type.splits prod.splits sum.splits intro: exI [of _ "ext s"])

lemma find_app_sel: "find_app s i = fmlookup (Apps (apps s)) i"
  by (simp add: find_app_def)

lemma ok_bindContract: "keepsR apps_ok (bindContract c i p)"
proof (rule keepsRI)
  fix s r and t :: "'b chain" assume ok: "apps_ok s" and run: "bindContract c i p s = (Inr r, t)"
  from bindContract_Inr [OF run] obtain a where a: "find_app s i = Some a"
      "app_ContractCount a < ap_MaxContractsPerApp (apps_GetParams s)"
    and c: "fmlookup (Bindings (apps s)) c = None \<and> (\<exists>b. apps t = bind_st c b a (apps s) \<and> cb_AppId b = i \<and> cb_Contract b = c) \<or>
     (\<exists>b mv. fmlookup (Bindings (apps s)) c = Some b \<and> cb_AppId b \<noteq> i \<and> fmlookup (PendingMoves (apps s)) c = None \<and>
        apps t = schedule_st c mv (apps s) \<and> pm_Contract mv = c \<and> pm_FromAppId mv = cb_AppId b \<and> pm_ToAppId mv = i)"
    by (fastforce simp: Let_def)
  from c show "apps_ok t"
  proof (elim disjE exE conjE)
    fix b assume "fmlookup (Bindings (apps s)) c = None" "apps t = bind_st c b a (apps s)" "cb_AppId b = i" "cb_Contract b = c"
    with registry_ok_bind [OF ok, of b a c] a show ?thesis by (simp add: find_app_def)
  next
    fix b mv assume "fmlookup (Bindings (apps s)) c = Some b" "cb_AppId b \<noteq> i" "fmlookup (PendingMoves (apps s)) c = None"
      "apps t = schedule_st c mv (apps s)" "pm_Contract mv = c" "pm_FromAppId mv = cb_AppId b" "pm_ToAppId mv = i"
    with registry_ok_schedule [OF ok, of mv c a] a show ?thesis
      by (auto simp: find_app_def contracts_of_def)
  qed
qed

lemma ok_RegisterApp:
  assumes "apps_ok s" "NextAppID (apps s) \<noteq> - 1" "RegisterApp E ow rec uri dm bps s = (Inr i, t)"
  shows "apps_ok t"
proof -
  from RegisterApp_Inr [OF assms(3)] obtain n a where
    t: "apps t = (apps s)\<lparr>NextAppID := n, Apps := fmupd i a (Apps (apps s))\<rparr>"
    and i: "i = NextAppID (apps s) \<and> i \<noteq> 0 \<or> NextAppID (apps s) = 0 \<and> i = 1"
    and n: "n = i + 1" "app_AppId a = i" "app_ContractCount a = 0"
    by auto
  have "(1::u64) \<noteq> - 1" by (simp add: word_eq_iff_unsigned unsigned_minus_1_eq_mask mask_eq_exp_minus_1)
  with i assms(2) have "i \<noteq> - 1" by auto
  then have "i < - 1" by (simp add: word_order.not_eq_extremum)
  then have "i < n" using n(1) unat_suc [of i "- 1"] by (simp add: word_less_nat_alt)
  with registry_ok_new [OF assms(1), of i n a] i n show ?thesis by (auto simp: t)
qed

lemma ok_apps_eq: "registry_ok (apps s) \<Longrightarrow> apps t = apps s \<Longrightarrow> registry_ok (apps t)"
  by simp

text \<open>Programs that leave the store of the apps alone, or change it in ways that do not matter here.\<close>

lemma ok_other:
  "keepsR apps_ok (VerifyProof E sg c pr)" "keepsR apps_ok (ownedApp ow i)" "keepsR apps_ok (GetApp i)"
  "keepsR apps_ok (AccAddressFromBech32 E x)"
  by (auto simp: keepsR_def run_simps dest!: VerifyProof_Inr)

lemma ok_put_app:
  "apps_ok s \<Longrightarrow> find_app s i = Some a \<Longrightarrow> app_AppId a' = app_AppId a \<Longrightarrow> app_ContractCount a' = app_ContractCount a \<Longrightarrow>
   registry_ok ((apps s)\<lparr>Apps := fmupd i a' (Apps (apps s))\<rparr>)"
  by (simp add: find_app_def registry_ok_app)

lemma ok_UpdateApp: "keepsR apps_ok (UpdateApp E ow i rec uri dm bps)"
proof (rule keepsRI)
  fix s r and t :: "'a chain" assume ok: "apps_ok s" and "UpdateApp E ow i rec uri dm bps s = (Inr r, t)"
  then obtain a0 where a0: "find_app s i = Some a0"
    and t: "apps t = (apps s)\<lparr>Apps := fmupd i
      ((if rec \<noteq> [] then a0\<lparr>app_RevenueRecipient := rec\<rparr> else a0)
         \<lparr>app_MetadataUri := uri, app_Domain := dm, app_ReferrerBps := bps,
          app_Version := app_Version (if rec \<noteq> [] then a0\<lparr>app_RevenueRecipient := rec\<rparr> else a0) + 1\<rparr>)
      (Apps (apps s))\<rparr>"
    unfolding UpdateApp_def Let_def by (simp only: run_simps) auto
  show "apps_ok t" unfolding t by (rule ok_put_app [OF ok a0]) simp_all
qed

lemma ok_TransferOwnership: "keepsR apps_ok (TransferOwnership E ow i nw)"
  by (rule keepsRI) (auto simp: TransferOwnership_def run_simps intro!: ok_put_app)

lemma ok_AcceptOwnership: "keepsR apps_ok (AcceptOwnership nw i)"
  by (rule keepsRI) (auto simp: AcceptOwnership_def run_simps intro!: ok_put_app)

lemma ok_SetAppStatus: "keepsR apps_ok (SetAppStatus i st)"
  by (rule keepsRI) (auto simp: SetAppStatus_def run_simps intro!: ok_put_app)

lemma ok_AddContract: "keepsR apps_ok (AddContract E ow i c pr)"
  unfolding AddContract_def by (intro keepsR_intros ok_other ok_bindContract)

lemma ok_AcceptContractClaim: "keepsR apps_ok (AcceptContractClaim E ow i c)"
proof (rule keepsRI)
  fix s r and t :: "'a chain" assume ok: "apps_ok s" and run: "AcceptContractClaim E ow i c s = (Inr r, t)"
  let ?c = "NormalizeContract E c"
  let ?u = "s\<lparr>apps := (apps s)\<lparr>PendingClaims := fmdrop (i, ?c) (PendingClaims (apps s))\<rparr>\<rparr>"
  from run have "bindContract ?c i PROOF_TYPE_SELF_CLAIM ?u = (Inr r, t)"
    by (auto simp: AcceptContractClaim_def run_simps Let_def)
  moreover have "apps_ok ?u" using ok by simp
  ultimately show "apps_ok t" using keepsRD [OF ok_bindContract] by blast
qed

lemma ok_RemoveContract: "keepsR apps_ok (RemoveContract E ow i c)"
proof (rule keepsRI)
  fix s r and t :: "'a chain" assume ok: "apps_ok s" and run: "RemoveContract E ow i c s = (Inr r, t)"
  let ?c = "NormalizeContract E c"
  define u where "u = (case fmlookup (PendingMoves (apps s)) ?c of None \<Rightarrow> apps s | Some m \<Rightarrow> drop_move_st ?c m (apps s))"
  from run obtain b a where b: "fmlookup (Bindings (apps s)) ?c = Some b" "cb_AppId b = i"
      "fmlookup (Apps (apps s)) i = Some a" "apps t = unbind_st ?c i a u"
    by (auto simp: RemoveContract_def run_simps Let_def find_app_def u_def split: option.splits)
  have "registry_ok u" "fmlookup (PendingMoves u) ?c = None" "Bindings u = Bindings (apps s)" "Apps u = Apps (apps s)"
    using ok registry_ok_drop_move by (auto simp: u_def split: option.splits)
  with registry_ok_unbind [of u ?c b a] b show "apps_ok t" by simp
qed

lemma ok_CancelContractMove: "keepsR apps_ok (CancelContractMove E ow c)"
  by (auto simp: keepsR_def CancelContractMove_def run_simps Let_def intro: registry_ok_drop_move)

lemma ok_ClaimRegistration: "keepsR apps_ok (ClaimRegistration E c i)"
  by (auto simp: keepsR_def ClaimRegistration_def run_simps Let_def)

lemma ok_RecordSettlement: "keeps apps_ok (RecordSettlement E i p w)"
  unfolding RecordSettlement_def Let_def
  by (intro keeps_intros keeps_modify) auto

lemma ok_BondApp: "keepsR apps_ok (BondApp E ow i am)"
  and ok_UnbondApp: "keepsR apps_ok (UnbondApp E ow i am)"
  by (auto simp: keepsR_def BondApp_def UnbondApp_def run_simps Let_def)

lemma ok_UpdateParams: "keepsR apps_ok (msg_apps_UpdateParams E au p)"
  by (auto simp: keepsR_def msg_apps_UpdateParams_def run_simps)

section \<open>Finalizing moves\<close>

text \<open>What the loop of \<open>finalizeMoves\<close> leaves alone: everything but the bindings, their counts and
  the scheduled moves.\<close>

definition bare :: "app \<Rightarrow> app" where
  "bare a = a\<lparr>app_ContractCount := 0\<rparr>"

definition moves_only :: "'x chain \<Rightarrow> 'x chain \<Rightarrow> bool" where
  "moves_only s t \<longleftrightarrow>
     ext t = ext s \<and> height t = height s \<and> chain_id t = chain_id s \<and> council t = council s \<and> settle t = settle s \<and>
     a_Params (apps t) = a_Params (apps s) \<and> NextAppID (apps t) = NextAppID (apps s) \<and>
     PendingClaims (apps t) = PendingClaims (apps s) \<and> EpochStats (apps t) = EpochStats (apps s) \<and>
     Quotas (apps t) = Quotas (apps s) \<and> Bonds (apps t) = Bonds (apps s) \<and>
     Unbondings (apps t) = Unbondings (apps s) \<and> EpochNumber (apps t) = EpochNumber (apps s) \<and>
     EpochStart (apps t) = EpochStart (apps s) \<and>
     (\<forall>i. map_option bare (fmlookup (Apps (apps t)) i) = map_option bare (fmlookup (Apps (apps s)) i))"

lemma moves_only_refl [simp]: "moves_only s s"
  by (simp add: moves_only_def)

lemma moves_only_trans: "moves_only s t \<Longrightarrow> moves_only t u \<Longrightarrow> moves_only s u"
  by (simp add: moves_only_def)

lemma bare_count [simp]: "bare (a\<lparr>app_ContractCount := n\<rparr>) = bare a"
  by (simp add: bare_def)

text \<open>The contracts that may have changed hands: those whose move was due.\<close>

definition moved_by :: "(int \<times> string) set \<Rightarrow> 'x chain \<Rightarrow> 'x chain \<Rightarrow> bool" where
  "moved_by ks s t \<longleftrightarrow>
     (\<forall>c. case fmlookup (Bindings (apps s)) c of
        None \<Rightarrow> fmlookup (Bindings (apps t)) c = None
      | Some b \<Rightarrow> \<exists>b'. fmlookup (Bindings (apps t)) c = Some b' \<and>
          (b' = b \<or> (\<exists>mv. fmlookup (PendingMoves (apps s)) c = Some mv \<and> (pm_UnlockHeight mv, c) \<in> ks \<and>
             cb_AppId b' = pm_ToAppId mv)))"

lemma finalize_move_run:
  assumes ok: "apps_ok s" and key: "(u, c) |\<in>| MovesByUnlock (apps s)"
  shows "\<exists>t. finalize_move (u, c) s = (Inr (), t) \<and> apps_ok t \<and> moves_only s t \<and> moved_by {(u, c)} s t \<and>
    PendingMoves (apps t) = fmdrop c (PendingMoves (apps s)) \<and>
    MovesByUnlock (apps t) = MovesByUnlock (apps s) |-| {|(u, c)|}"
proof -
  from reg_unlock [OF ok key] obtain mv where mv: "fmlookup (PendingMoves (apps s)) c = Some mv" "pm_UnlockHeight mv = u"
    by blast
  from reg_move [OF ok mv(1)] obtain to b where
    to: "fmlookup (Apps (apps s)) (pm_ToAppId mv) = Some to" "pm_FromAppId mv \<noteq> pm_ToAppId mv"
    and b: "fmlookup (Bindings (apps s)) c = Some b" "cb_AppId b = pm_FromAppId mv"
    by (auto simp: move_ok_def contracts_of_def)
  from reg_binding [OF ok b(1)] obtain frm where frm: "fmlookup (Apps (apps s)) (cb_AppId b) = Some frm" by blast
  let ?s1 = "s\<lparr>apps := drop_move_st c mv (apps s)\<rparr>"
  let ?params = "apps_GetParams s"
  have ok1: "apps_ok ?s1" using registry_ok_drop_move [OF ok mv(1)] by simp
  have start: "finalize_move (u, c) s =
      (if app_Status to = APP_STATUS_REVOKED then (Inr (), ?s1)
       else if ap_MaxContractsPerApp ?params \<le> app_ContractCount to
       then (Inr (), ?s1\<lparr>events := events s @ [EvMoveDropped c (pm_ToAppId mv)]\<rparr>)
       else seqM (unbind c (cb_AppId b)) (setBinding c (pm_ToAppId mv) (pm_ProofType mv)) ?s1)"
    using mv to(1) b
    by (simp add: finalize_move_def exec_simps find_app_def drop_move_st_def emit_def Let_def apps_GetParams_def)
  have drop_props: "moves_only s (?s1\<lparr>events := ev\<rparr>)" "moved_by {(u, c)} s (?s1\<lparr>events := ev\<rparr>)"
      "PendingMoves (apps (?s1\<lparr>events := ev\<rparr>)) = fmdrop c (PendingMoves (apps s))"
      "MovesByUnlock (apps (?s1\<lparr>events := ev\<rparr>)) = MovesByUnlock (apps s) |-| {|(u, c)|}"
      "apps_ok (?s1\<lparr>events := ev\<rparr>)" for ev
    using ok1 by (auto simp: moves_only_def moved_by_def drop_move_st_def mv(2) split: option.splits)
  show ?thesis
  proof (cases "app_Status to = APP_STATUS_REVOKED \<or> ap_MaxContractsPerApp ?params \<le> app_ContractCount to")
    case True
    then have "\<exists>ev. finalize_move (u, c) s = (Inr (), ?s1\<lparr>events := ev\<rparr>)"
      using start by (auto intro: exI [of _ "events s"])
    with drop_props show ?thesis by blast
  next
    case False
    then have m: "app_ContractCount to < ap_MaxContractsPerApp ?params" by auto
    let ?u = "unbind_st c (cb_AppId b) frm (drop_move_st c mv (apps s))"
    let ?nb = "\<lparr>cb_Contract = c, cb_AppId = pm_ToAppId mv, cb_ProofType = pm_ProofType mv,
        cb_AddedHeight = height s, cb_Version = app_Version to\<rparr>"
    let ?t = "s\<lparr>apps := bind_st c ?nb to ?u, events := events s @ [EvContractBound c (pm_ToAppId mv) (pm_ProofType mv)]\<rparr>"
    have "unbind c (cb_AppId b) ?s1 = (Inr (), s\<lparr>apps := ?u\<rparr>)"
      by (simp add: unbind_Inr find_app_def frm)
    moreover have "find_app (s\<lparr>apps := ?u\<rparr>) (pm_ToAppId mv) = Some to"
      using to b(2) by (simp add: find_app_def)
    then have "setBinding c (pm_ToAppId mv) (pm_ProofType mv) (s\<lparr>apps := ?u\<rparr>) = (Inr (), ?t)"
      by (simp add: setBinding_run)
    ultimately have run: "finalize_move (u, c) s = (Inr (), ?t)"
      using start False by (simp add: seqM_def bindM_def)
    have "registry_ok ?u"
      using registry_ok_unbind [of "drop_move_st c mv (apps s)" c b frm] ok1 b frm by simp
    then have "apps_ok ?t"
      using registry_ok_bind [of ?u ?nb to c "ap_MaxContractsPerApp ?params"] m to b(2) by simp
    moreover have "moves_only s ?t"
      using to frm b(2) by (auto simp: moves_only_def bind_st_def unbind_st_def drop_move_st_def)
    moreover have "moved_by {(u, c)} s ?t"
      using b mv by (auto simp: moved_by_def split: option.splits)
    moreover have "PendingMoves (apps ?t) = fmdrop c (PendingMoves (apps s))"
      "MovesByUnlock (apps ?t) = MovesByUnlock (apps s) |-| {|(u, c)|}"
      by (simp_all add: mv(2))
    ultimately show ?thesis using run by blast
  qed
qed

lemma moved_by_trans:
  assumes "moved_by {k} s t" "moved_by ks t u" "snd k \<notin> snd ` ks"
    "\<forall>c. c \<noteq> snd k \<longrightarrow> fmlookup (PendingMoves (apps t)) c = fmlookup (PendingMoves (apps s)) c"
  shows "moved_by (insert k ks) s u"
  unfolding moved_by_def
proof (intro allI)
  fix c
  have st: "case fmlookup (Bindings (apps s)) c of None \<Rightarrow> fmlookup (Bindings (apps t)) c = None
      | Some b \<Rightarrow> \<exists>b'. fmlookup (Bindings (apps t)) c = Some b' \<and>
          (b' = b \<or> (\<exists>mv. fmlookup (PendingMoves (apps s)) c = Some mv \<and> (pm_UnlockHeight mv, c) \<in> {k} \<and> cb_AppId b' = pm_ToAppId mv))"
    using assms(1) by (simp add: moved_by_def)
  have tu: "case fmlookup (Bindings (apps t)) c of None \<Rightarrow> fmlookup (Bindings (apps u)) c = None
      | Some b \<Rightarrow> \<exists>b'. fmlookup (Bindings (apps u)) c = Some b' \<and>
          (b' = b \<or> (\<exists>mv. fmlookup (PendingMoves (apps t)) c = Some mv \<and> (pm_UnlockHeight mv, c) \<in> ks \<and> cb_AppId b' = pm_ToAppId mv))"
    using assms(2) by (simp add: moved_by_def)
  show "case fmlookup (Bindings (apps s)) c of None \<Rightarrow> fmlookup (Bindings (apps u)) c = None
      | Some b \<Rightarrow> \<exists>b'. fmlookup (Bindings (apps u)) c = Some b' \<and>
          (b' = b \<or> (\<exists>mv. fmlookup (PendingMoves (apps s)) c = Some mv \<and> (pm_UnlockHeight mv, c) \<in> insert k ks \<and> cb_AppId b' = pm_ToAppId mv))"
  proof (cases "c = snd k")
    case True
    with assms(3) have "(x, c) \<notin> ks" for x by (metis image_eqI snd_conv)
    with st tu show ?thesis by (auto split: option.splits)
  next
    case False
    then have "(x, c) \<noteq> k" for x by auto
    with st tu assms(4) False show ?thesis by (auto split: option.splits)
  qed
qed

lemma finalize_loop:
  "distinct ks \<Longrightarrow> set ks \<subseteq> fset (MovesByUnlock (apps s)) \<Longrightarrow> apps_ok s \<Longrightarrow>
   \<exists>t. forM ks finalize_move s = (Inr (), t) \<and> apps_ok t \<and> moves_only s t \<and> moved_by (set ks) s t"
proof (induction ks arbitrary: s)
  case Nil
  then show ?case by (auto simp: moved_by_def ret_def split: option.splits)
next
  case (Cons k ks)
  obtain u c where k: "k = (u, c)" by (cases k)
  with Cons.prems have "(u, c) |\<in>| MovesByUnlock (apps s)" by simp
  from finalize_move_run [OF Cons.prems(3) this] obtain t where t:
    "finalize_move k s = (Inr (), t)" "apps_ok t" "moves_only s t" "moved_by {k} s t"
    "PendingMoves (apps t) = fmdrop c (PendingMoves (apps s))"
    "MovesByUnlock (apps t) = MovesByUnlock (apps s) |-| {|k|}"
    by (auto simp: k)
  have "set ks \<subseteq> fset (MovesByUnlock (apps t))" using Cons.prems by (auto simp: t(6))
  with Cons.IH [of t] Cons.prems(1) t(2) obtain v where v:
    "forM ks finalize_move t = (Inr (), v)" "apps_ok v" "moves_only t v" "moved_by (set ks) t v"
    by auto
  have "c \<notin> snd ` set ks"
  proof
    assume "c \<in> snd ` set ks"
    then obtain w where w: "(w, c) \<in> set ks" by auto
    with Cons.prems(2) have "(w, c) |\<in>| MovesByUnlock (apps s)" by auto
    with reg_unlock [OF Cons.prems(3) this] reg_unlock [OF Cons.prems(3) \<open>(u, c) |\<in>| MovesByUnlock (apps s)\<close>]
    have "w = u" by auto
    with w k Cons.prems(1) show False by auto
  qed
  with moved_by_trans [OF t(4) v(4)] have "moved_by (set (k # ks)) s v" by (simp add: k t(5))
  moreover have "forM (k # ks) finalize_move s = (Inr (), v)" using t(1) v(1) by (simp add: seqM_def bindM_def)
  ultimately show ?case using v(2) moves_only_trans [OF t(3) v(3)] by blast
qed

lemma due_moves_set: "distinct (due_moves s)" "set (due_moves s) \<subseteq> fset (MovesByUnlock (apps s))"
  "k \<in> set (due_moves s) \<Longrightarrow> fst k \<le> height s"
  by (auto simp: due_moves_def sorted_list_of_fset.rep_eq less_eq_prod_def)

lemma finalizeMoves_run:
  assumes "apps_ok s"
  shows "\<exists>t. finalizeMoves s = (Inr (), t) \<and> apps_ok t \<and> moves_only s t \<and> moved_by (set (due_moves s)) s t"
  using finalize_loop [OF due_moves_set(1,2) assms] by (simp add: finalizeMoves_def exec_simps)

end
