(* ===== verification/AppsBonds.thy ===== *)
theory AppsBonds
  imports AppsInvariant
begin

text \<open>
  Quotas, bonds and the end blocker of \<open>x/apps\<close>: what a quota can be, that the end blocker never
  fails (an error there would halt the chain), and that the module account always holds the bonded
  capital.
\<close>

section \<open>Quotas\<close>

lemma BaseQuota_le: "BaseQuota params bonded \<le> ap_MaxGasPerEpoch params"
proof -
  have "of_int (bonded * uint (ap_GasPerBondedUnit params) div 1000000) \<le> ap_MaxGasPerEpoch params"
    if "0 < bonded" "bonded * uint (ap_GasPerBondedUnit params) div 1000000 \<le> uint (ap_MaxGasPerEpoch params)"
  proof -
    let ?g = "bonded * uint (ap_GasPerBondedUnit params) div 1000000"
    have "0 \<le> ?g" using that(1) by (simp add: pos_imp_zdiv_nonneg_iff)
    then have "uint (of_int ?g :: u64) = ?g"
      using that(2) unsigned_less [of "ap_MaxGasPerEpoch params", where 'a = int]
      by (simp add: uint_word_of_int_eq take_bit_int_eq_self)
    with that(2) show ?thesis by (simp add: word_le_def)
  qed
  then show ?thesis by (auto simp: BaseQuota_def Let_def BondUnit_def)
qed

text \<open>The value of a quota below the cap.\<close>

lemma uint_BaseQuota:
  "uint (BaseQuota params bonded) =
     (if ap_BondDenom params = [] \<or> bonded \<le> 0 then 0
      else min (bonded * uint (ap_GasPerBondedUnit params) div 1000000) (uint (ap_MaxGasPerEpoch params)))"
proof (cases "ap_BondDenom params = [] \<or> bonded \<le> 0")
  case False
  let ?g = "bonded * uint (ap_GasPerBondedUnit params) div 1000000"
  have g: "0 \<le> ?g" using False by (simp add: pos_imp_zdiv_nonneg_iff)
  have "uint (of_int ?g :: u64) = ?g" if "?g \<le> uint (ap_MaxGasPerEpoch params)"
    using g that unsigned_less [of "ap_MaxGasPerEpoch params", where 'a = int]
    by (simp add: uint_word_of_int_eq take_bit_int_eq_self)
  with False g show ?thesis by (auto simp: BaseQuota_def Let_def BondUnit_def min_def)
qed (auto simp: BaseQuota_def)

text \<open>
  Splitting a bond over many apps buys no more sponsored gas, as long as the whole bond stays
  below the cap of an app: the quotas of the parts sum to at most the quota of the whole.
\<close>

theorem BaseQuota_no_sybil:
  assumes "\<forall>b \<in> set bonds. 0 \<le> b"
    and "sum_list bonds * uint (ap_GasPerBondedUnit params) div 1000000 \<le> uint (ap_MaxGasPerEpoch params)"
  shows "(\<Sum>b \<leftarrow> bonds. uint (BaseQuota params b)) \<le> uint (BaseQuota params (sum_list bonds))"
proof -
  let ?r = "uint (ap_GasPerBondedUnit params)"
  have "(\<Sum>b \<leftarrow> bonds. uint (BaseQuota params b)) \<le>
      (if ap_BondDenom params = [] then 0 else sum_list bonds * ?r div 1000000) \<and> 0 \<le> sum_list bonds"
    using assms(1)
  proof (induction bonds)
    case (Cons b bs)
    have "uint (BaseQuota params b) \<le> (if ap_BondDenom params = [] then 0 else b * ?r div 1000000)"
      using Cons.prems by (auto simp: uint_BaseQuota pos_imp_zdiv_nonneg_iff)
    moreover have "b * ?r div 1000000 + sum_list bs * ?r div 1000000 \<le> (b + sum_list bs) * ?r div 1000000"
      by (simp add: distrib_right div_add1_eq [of "b * ?r"] pos_imp_zdiv_nonneg_iff)
    ultimately show ?case using Cons by (auto split: if_splits)
  qed simp
  with assms(2) show ?thesis by (auto simp: uint_BaseQuota min_def split: if_splits)
qed

theorem BaseQuota_no_sybil_witness:
  "uint (BaseQuota apps_DefaultParams 1500000) + uint (BaseQuota apps_DefaultParams 2500000)
     \<le> uint (BaseQuota apps_DefaultParams 4000000) \<and> BaseQuota apps_DefaultParams 4000000 = 10000"
proof -
  have "\<forall>b \<in> set [1500000, 2500000::int]. 0 \<le> b" by simp
  moreover have "sum_list [1500000, 2500000] * uint (ap_GasPerBondedUnit apps_DefaultParams) div 1000000
      \<le> uint (ap_MaxGasPerEpoch apps_DefaultParams)" by code_simp
  ultimately have "(\<Sum>b \<leftarrow> [1500000, 2500000]. uint (BaseQuota apps_DefaultParams b))
      \<le> uint (BaseQuota apps_DefaultParams (sum_list [1500000, 2500000]))"
    by (rule BaseQuota_no_sybil)
  moreover have "BaseQuota apps_DefaultParams 4000000 = 10000" by code_simp
  ultimately show ?thesis by simp
qed

text \<open>
  The documentation of \<open>BaseQuota\<close> says that one bond gets exactly what any number of apps
  sharing it get. Above the cap of an app it does not: with the default parameters, a bond of four
  million USDC split over two apps buys twice the gas it buys behind one.
\<close>

theorem BaseQuota_cap_is_per_app:
  "BaseQuota apps_DefaultParams 4000000000000 = 5000000000 \<and>
   BaseQuota apps_DefaultParams 2000000000000 + BaseQuota apps_DefaultParams 2000000000000 = 10000000000"
  by (intro conjI) code_simp+

lemma diversity_le: "uint (if (10000::u64) < d then 10000 else d) \<le> 10000"
  by (auto simp: word_le_def word_less_def)

lemma quota_fits:
  assumes "0 \<le> w" "w < 2 ^ 192" "uint (d::u64) \<le> 10000"
  shows "int_fits (w * uint d)" "int_fits (uint (b::u64) + quo (w * uint d) MaxBps)"
proof -
  show p: "int_fits (w * uint d)" using assms by (intro int_fits_product [of w 192 "uint d" 14]) simp_all
  have "quo (w * uint d) MaxBps \<le> w" "0 \<le> quo (w * uint d) MaxBps"
    using assms div_mult_le_int [of w "uint d" 10000] by (simp_all add: MaxBps_def pos_imp_zdiv_nonneg_iff)
  moreover have "uint b < 2 ^ 64" using unsigned_less [of b, where 'a = int] by simp
  ultimately show "int_fits (uint b + quo (w * uint d) MaxBps)" using assms(2) by (simp add: int_fits_def)
qed

text \<open>
  A quota is between nothing and the cap of the parameters, counts at most one unique payer per
  payment, and its diversity is at most 100\%; with a sketch the code built it never panics, it is
  at least the base quota the bond buys (or the cap), and washing payments between few payers is
  discounted: the earned part is at most the fee weight. A fee weight of fewer than 192 bits keeps
  the products within \<open>math.Int\<close>.
\<close>

theorem ComputeQuota_bounds:
  assumes "hll_ok (es_Hll st)" and "0 \<le> es_FeeWeight st" and "es_FeeWeight st < 2 ^ 192"
  shows "\<exists>q. ComputeQuota params st base = Some q \<and> q_AppId q = es_AppId st \<and>
    q_Gas q \<le> ap_MaxGasPerEpoch params \<and> q_UniquePayersEstimate q \<le> es_Payments st \<and>
    q_DiversityBps q \<le> 10000 \<and>
    min (uint base) (uint (ap_MaxGasPerEpoch params)) \<le> uint (q_Gas q) \<and>
    uint (q_Gas q) \<le> uint base + es_FeeWeight st"
proof -
  from HLLEstimate_ok [OF assms(1)] obtain e where e: "HLLEstimate (es_Hll st) = Some e" by blast
  define unique where "unique = (if es_Payments st < e then es_Payments st else e)"
  define d :: u64 where "d = (if 0 < es_Payments st
      then let d = unique * ucast (ap_DiversityTarget params) * 10000 div es_Payments st in if 10000 < d then 10000 else d
      else 0)"
  define earned where "earned = quo (es_FeeWeight st * uint d) MaxBps"
  define total where "total = (if uint (ap_MaxGasPerEpoch params) < uint base + earned
      then uint (ap_MaxGasPerEpoch params) else uint base + earned)"
  have d: "uint d \<le> 10000" "0 \<le> uint d" by (auto simp: d_def Let_def word_le_def word_less_def)
  have earned: "0 \<le> earned" "earned \<le> es_FeeWeight st"
    using assms(2) d div_mult_le_int [of "es_FeeWeight st" "uint d" 10000]
    by (simp_all add: earned_def MaxBps_def pos_imp_zdiv_nonneg_iff)
  have nonneg: "0 \<le> total" using earned by (simp add: total_def)
  have fits: "int_fits (es_FeeWeight st * uint d)" "int_fits (uint base + earned)"
    using quota_fits [OF assms(2,3) d(1)] by (simp_all add: earned_def)
  have total: "total \<le> uint (ap_MaxGasPerEpoch params)" "min (uint base) (uint (ap_MaxGasPerEpoch params)) \<le> total"
      "total \<le> uint base + es_FeeWeight st"
    using earned by (auto simp: total_def)
  have q: "ComputeQuota params st base =
      Some \<lparr>q_AppId = es_AppId st, q_Epoch = 0, q_Gas = of_int total, q_UniquePayersEstimate = unique,
            q_DiversityBps = ucast d\<rparr>"
    using nonneg fits unfolding ComputeQuota_def e unique_def d_def earned_def total_def Let_def by simp
  have gas: "uint (of_int total :: u64) = total"
    using nonneg total(1) unsigned_less [of "ap_MaxGasPerEpoch params", where 'a = int]
    by (simp add: uint_word_of_int_eq take_bit_int_eq_self)
  have "ucast d \<le> (10000 :: u32)"
  proof -
    have "uint (ucast d :: u32) \<le> uint d" by (simp add: unsigned_ucast_eq take_bit_int_less_eq_self_iff)
    with d show ?thesis by (simp add: word_le_def)
  qed
  moreover have "unique \<le> es_Payments st" by (simp add: unique_def not_less)
  moreover have "of_int total \<le> ap_MaxGasPerEpoch params" using total(1) gas by (simp add: word_le_def)
  ultimately show ?thesis using total by (simp add: q gas)
qed

theorem ComputeQuota_bounds_witness:
  "\<exists>q. ComputeQuota apps_DefaultParams
      \<lparr>es_AppId = 7, es_Epoch = 0, es_FeeWeight = 900, es_Payments = 12, es_Hll = NewHLL\<rparr> 5000 = Some q \<and>
     5000 \<le> uint (q_Gas q) \<and> uint (q_Gas q) \<le> 5900"
proof -
  let ?st = "\<lparr>es_AppId = 7, es_Epoch = 0, es_FeeWeight = 900, es_Payments = 12, es_Hll = NewHLL\<rparr>"
  have "hll_ok (es_Hll ?st)" "0 \<le> es_FeeWeight ?st" "es_FeeWeight ?st < 2 ^ 192" by simp_all
  from ComputeQuota_bounds [OF this, of apps_DefaultParams 5000] show ?thesis
    by (auto simp: apps_DefaultParams_def)
qed

section \<open>The whole invariant\<close>

definition stats_ok :: "apps_store \<Rightarrow> bool" where
  "stats_ok st \<longleftrightarrow> (\<forall>k x. fmlookup (EpochStats st) k = Some x \<longrightarrow>
     k = (es_Epoch x, es_AppId x) \<and> hll_ok (es_Hll x) \<and> 0 \<le> es_FeeWeight x)"

definition bonds_pos :: "apps_store \<Rightarrow> bool" where
  "bonds_pos st \<longleftrightarrow> fmpred (\<lambda>_ v. 0 < v) (Bonds st) \<and> fmpred (\<lambda>_ v. 0 < v) (Unbondings st)"

definition apps_inv :: "'x env \<Rightarrow> 'x chain \<Rightarrow> bool" where
  "apps_inv E s \<longleftrightarrow> apps_ok s \<and> stats_ok (apps s) \<and> bonds_pos (apps s) \<and>
     apps_params_Validate E (apps_GetParams s) \<and>
     (ap_BondDenom (apps_GetParams s) = [] \<longrightarrow> Bonds (apps s) = fmempty \<and> Unbondings (apps s) = fmempty)"

abbreviation vsum :: "('k, int) fmap \<Rightarrow> int" where
  "vsum m \<equiv> kv_sum (\<lambda>_ v. v) m"

lemma foldl_vsum: "foldl (\<lambda>t (_, v). t + v) a xs = a + (\<Sum>(_, v) \<leftarrow> xs. v)" for a :: int
  by (induction xs arbitrary: a) auto

lemma BondedTotal_vsum: "BondedTotal s = vsum (Bonds (apps s)) + vsum (Unbondings (apps s))"
  by (simp add: BondedTotal_def foldl_vsum kv_sum_entries)

lemma vsum_pos_empty: "fmpred (\<lambda>_ v. 0 < v) m \<Longrightarrow> vsum m \<le> 0 \<Longrightarrow> m = fmempty" for m :: "('k, int) fmap"
proof (rule ccontr)
  assume pos: "fmpred (\<lambda>_ v. 0 < v) m" and le: "vsum m \<le> 0" and "m \<noteq> fmempty"
  then obtain k v where kv: "fmlookup m k = Some v" by (metis fmap_ext fmempty_lookup not_None_eq)
  have "kv_at (\<lambda>_ v. v) m k \<le> vsum m"
    by (rule kv_sum_ge) (use pos in \<open>auto simp: fmpred_iff intro: less_imp_le\<close>)
  then have "v \<le> vsum m" by (simp add: kv_at_def kv)
  moreover have "0 < v" using pos kv by (simp add: fmpred_iff)
  ultimately show False using le by simp
qed

lemma vsum_nonneg: "fmpred (\<lambda>_ v. 0 < v) m \<Longrightarrow> 0 \<le> vsum m" for m :: "('k, int) fmap"
  by (rule kv_sum_nonneg) (auto simp: fmpred_iff intro: less_imp_le)

lemma bonds_pos_sums: "bonds_pos st \<Longrightarrow> 0 \<le> vsum (Bonds st)" "bonds_pos st \<Longrightarrow> 0 \<le> vsum (Unbondings st)"
  by (simp_all add: bonds_pos_def vsum_nonneg)

lemma no_bonds:
  assumes "bonds_pos (apps s)" "\<not> 0 < BondedTotal s"
  shows "Bonds (apps s) = fmempty" "Unbondings (apps s) = fmempty"
proof -
  have "vsum (Bonds (apps s)) \<le> 0" "vsum (Unbondings (apps s)) \<le> 0"
    using assms(2) bonds_pos_sums [OF assms(1)] by (simp_all add: BondedTotal_vsum)
  then show "Bonds (apps s) = fmempty" "Unbondings (apps s) = fmempty"
    using assms(1) by (auto simp: bonds_pos_def intro: vsum_pos_empty)
qed

section \<open>The end blocker\<close>

text \<open>What \<open>releaseUnbondings\<close> changes: unbondings that were due are paid and dropped.\<close>

definition surplus :: "'x env \<Rightarrow> denom \<Rightarrow> 'x chain \<Rightarrow> int" where
  "surplus E d s = BankBalance E (ext s) (ModuleAddress E ''apps'') d - BondedTotal s"

definition released :: "'x env \<Rightarrow> denom \<Rightarrow> 'x chain \<Rightarrow> 'x chain \<Rightarrow> bool" where
  "released E d s t \<longleftrightarrow>
     (\<exists>x U ev. t = s\<lparr>ext := x, apps := (apps s)\<lparr>Unbondings := U\<rparr>, events := ev\<rparr>) \<and>
     (\<forall>k v. fmlookup (Unbondings (apps t)) k = Some v \<longrightarrow> fmlookup (Unbondings (apps s)) k = Some v) \<and>
     (bank_laws E \<longrightarrow> (\<forall>v k. fmlookup (Unbondings (apps s)) k = Some v \<longrightarrow> 0 \<le> v) \<longrightarrow> surplus E d s \<le> surplus E d t)"

lemma released_refl: "released E d s s"
  unfolding released_def by (intro conjI exI [of _ "ext s"] exI [of _ "Unbondings (apps s)"] exI [of _ "events s"]) auto

lemma released_trans: "released E d s t \<Longrightarrow> released E d t u \<Longrightarrow> released E d s u"
  unfolding released_def by (elim conjE exE, intro conjI) (fastforce+)

lemma release_one_run:
  assumes "ValidDenom E d" "fmlookup (Unbondings (apps s)) k = Some v" "0 \<le> v"
  shows "\<exists>t. release_one E d (k, v) s = (Inr (), t) \<and> released E d s t \<and>
    (\<forall>j. j \<noteq> k \<longrightarrow> fmlookup (Unbondings (apps t)) j = fmlookup (Unbondings (apps s)) j)"
proof -
  obtain rel i w where k: "k = (rel, i, w)" by (cases k)
  show ?thesis
  proof (cases "AccFromBech32 E w")
    case None
    then have "release_one E d (k, v) s = (Inr (), s)" by (simp add: release_one_def k exec_simps whenM_def)
    then show ?thesis using released_refl by blast
  next
    case (Some to)
    show ?thesis
    proof (cases "BankM2A E ''apps'' to (coins1 d v) (ext s)")
      case (Inl e)
      then have "release_one E d (k, v) s = (Inr (), s)"
        using Some assms(1,3)
        by (simp add: release_one_def k exec_simps whenM_def attempt_def callx_def bindM_def seqM_def check_def ret_def)
      then show ?thesis using released_refl by blast
    next
      case (Inr x)
      let ?t = "s\<lparr>ext := x, apps := (apps s)\<lparr>Unbondings := fmdrop k (Unbondings (apps s))\<rparr>,
        events := events s @ [EvUnbonded i w d v]\<rparr>"
      have run: "release_one E d (k, v) s = (Inr (), ?t)"
        using Some Inr assms(1,3)
        by (simp add: release_one_def k whenM_def attempt_def callx_def bindM_def seqM_def check_def ret_def modify_def emit_def)
      have "surplus E d s \<le> surplus E d ?t" if "bank_laws E"
      proof -
        have "BankBalance E x (ModuleAddress E ''apps'') d =
            BankBalance E (ext s) (ModuleAddress E ''apps'') d +
            moved (ModuleAddress E ''apps'') to (coins1 d v) (ModuleAddress E ''apps'') d"
          by (rule bank_M2A(2) [OF that Inr])
        then show ?thesis
          using assms(2,3) by (simp add: surplus_def BondedTotal_vsum kv_sum_drop kv_at_def moved_def)
      qed
      then have "released E d s ?t" unfolding released_def by (auto split: if_splits)
      with run show ?thesis by auto
    qed
  qed
qed

lemma release_loop:
  assumes "ValidDenom E d"
  shows "distinct (map fst kvs) \<Longrightarrow> (\<forall>(k, v) \<in> set kvs. fmlookup (Unbondings (apps s)) k = Some v \<and> 0 \<le> v) \<Longrightarrow>
    \<exists>t. forM kvs (release_one E d) s = (Inr (), t) \<and> released E d s t"
proof (induction kvs arbitrary: s)
  case Nil
  then show ?case using released_refl by (auto simp: ret_def)
next
  case (Cons kv kvs)
  obtain k v where kv: "kv = (k, v)" by (cases kv)
  with Cons.prems have "fmlookup (Unbondings (apps s)) k = Some v" "0 \<le> v" by auto
  from release_one_run [OF assms this] obtain t where t: "release_one E d kv s = (Inr (), t)" "released E d s t"
    "\<And>j. j \<noteq> k \<Longrightarrow> fmlookup (Unbondings (apps t)) j = fmlookup (Unbondings (apps s)) j"
    by (auto simp: kv)
  have "\<forall>(j, v) \<in> set kvs. fmlookup (Unbondings (apps t)) j = Some v \<and> 0 \<le> v"
  proof clarify
    fix a b c and u assume m: "((a, b, c), u) \<in> set kvs"
    then have "(a, b, c) \<noteq> k" using Cons.prems(1) by (force simp: kv)
    with m t(3) Cons.prems(2) show "fmlookup (Unbondings (apps t)) (a, b, c) = Some u \<and> 0 \<le> u" by auto
  qed
  with Cons.IH [of t] Cons.prems(1) obtain u where "forM kvs (release_one E d) t = (Inr (), u)" "released E d t u" by auto
  with t show ?case using released_trans by (fastforce simp: seqM_def bindM_def)
qed

lemma ready_props:
  "distinct (map fst (ready_unbondings s))"
  "(k, v) \<in> set (ready_unbondings s) \<Longrightarrow> fmlookup (Unbondings (apps s)) k = Some v"
proof -
  have eq: "ready_unbondings s = take (length (ready_unbondings s)) (entries (Unbondings (apps s)))"
    unfolding ready_unbondings_def by (rule takeWhile_eq_take)
  show "distinct (map fst (ready_unbondings s))"
    by (subst eq) (simp add: take_map [symmetric] distinct_take distinct_entries)
  show "fmlookup (Unbondings (apps s)) k = Some v" if "(k, v) \<in> set (ready_unbondings s)"
    using that by (subst (asm) eq) (auto dest!: in_set_takeD simp: set_entries)
qed

lemma releaseUnbondings_run:
  assumes "bonds_pos (apps s)" "ready_unbondings s \<noteq> [] \<Longrightarrow> ValidDenom E (ap_BondDenom (apps_GetParams s))"
  shows "\<exists>t. releaseUnbondings E s = (Inr (), t) \<and> released E (ap_BondDenom (apps_GetParams s)) s t"
proof (cases "ready_unbondings s = []")
  case True
  then show ?thesis using released_refl by (auto simp: releaseUnbondings_def exec_simps)
next
  case False
  have "\<forall>(k, v) \<in> set (ready_unbondings s). fmlookup (Unbondings (apps s)) k = Some v \<and> 0 \<le> v"
  proof clarify
    fix a b c v assume "((a, b, c), v) \<in> set (ready_unbondings s)"
    from ready_props(2) [OF this] have "fmlookup (Unbondings (apps s)) (a, b, c) = Some v" .
    with assms(1) show "fmlookup (Unbondings (apps s)) (a, b, c) = Some v \<and> 0 \<le> v"
      by (auto simp: bonds_pos_def fmpred_iff intro: less_imp_le)
  qed
  from release_loop [OF assms(2) [OF False] ready_props(1) this] show ?thesis
    by (simp add: releaseUnbondings_def exec_simps)
qed

text \<open>What \<open>rolloverEpoch\<close> changes: quotas, old statistics and the epoch.\<close>

definition rolled :: "'x chain \<Rightarrow> 'x chain \<Rightarrow> bool" where
  "rolled s t \<longleftrightarrow>
     (\<exists>q es n h ev. t = s\<lparr>apps := (apps s)\<lparr>Quotas := q, EpochStats := es, EpochNumber := n, EpochStart := h\<rparr>, events := ev\<rparr>) \<and>
     (\<forall>k x. fmlookup (EpochStats (apps t)) k = Some x \<longrightarrow> fmlookup (EpochStats (apps s)) k = Some x)"

lemma quotas_same: "\<exists>q. s = s\<lparr>apps := (apps s)\<lparr>Quotas := q\<rparr>\<rparr>"
  by (rule exI [of _ "Quotas (apps s)"]) simp

text \<open>The rollover writes quotas only, also when a quota panics; below 192 bits none does.\<close>

definition amounts_small :: "'x chain \<Rightarrow> bool" where
  "amounts_small s \<longleftrightarrow> (\<forall>k x. fmlookup (EpochStats (apps s)) k = Some x \<longrightarrow> es_FeeWeight x < 2 ^ 192) \<and> (\<forall>i. BondOf s i < 2 ^ 192)"

lemma roll_app_writes: "roll_app params nxt st s = (r, t) \<Longrightarrow> \<exists>q. t = s\<lparr>apps := (apps s)\<lparr>Quotas := q\<rparr>\<rparr>"
  using quotas_same [of s] by (auto simp: roll_app_def monad_defs split: option.splits if_splits)

lemma roll_loop_writes: "forM sts (roll_app params nxt) s = (r, t) \<Longrightarrow> \<exists>q. t = s\<lparr>apps := (apps s)\<lparr>Quotas := q\<rparr>\<rparr>"
proof (induction sts arbitrary: s)
  case Nil
  then show ?case using quotas_same [of s] by (auto simp: ret_def)
next
  case (Cons st sts)
  obtain r1 u where 1: "roll_app params nxt st s = (r1, u)" by (cases "roll_app params nxt st s")
  then obtain q where q: "u = s\<lparr>apps := (apps s)\<lparr>Quotas := q\<rparr>\<rparr>" using roll_app_writes by blast
  show ?case
  proof (cases r1)
    case (Inl e)
    with Cons.prems 1 q show ?thesis by (auto simp: seqM_def bindM_def)
  next
    case (Inr x)
    with Cons.prems 1 have "forM sts (roll_app params nxt) u = (r, t)" by (simp add: seqM_def bindM_def)
    from Cons.IH [OF this] show ?thesis by (auto simp: q)
  qed
qed

lemma base_fits: "b < 2 ^ 192 \<Longrightarrow> BaseQuota_fits params b"
  using unsigned_less [of "ap_GasPerBondedUnit params", where 'a = int]
  by (auto simp: BaseQuota_fits_def intro!: int_fits_product [of b 192 _ 64])

lemma roll_app_run:
  assumes "hll_ok (es_Hll st)" "0 \<le> es_FeeWeight st" "es_FeeWeight st < 2 ^ 192" "BondOf s (es_AppId st) < 2 ^ 192"
  shows "\<exists>t. roll_app params nxt st s = (Inr (), t)"
proof -
  obtain q where "ComputeQuota params st (BaseQuota params (BondOf s (es_AppId st))) = Some q"
    using ComputeQuota_bounds [OF assms(1-3)] by blast
  with base_fits [OF assms(4), of params] show ?thesis
    by (auto simp: roll_app_def monad_defs split: option.splits)
qed

lemma roll_loop:
  "\<forall>st \<in> set sts. hll_ok (es_Hll st) \<and> 0 \<le> es_FeeWeight st \<and> es_FeeWeight st < 2 ^ 192 \<Longrightarrow> \<forall>i. BondOf s i < 2 ^ 192 \<Longrightarrow>
   \<exists>t. forM sts (roll_app params nxt) s = (Inr (), t)"
proof (induction sts arbitrary: s)
  case Nil
  show ?case by (simp add: ret_def)
next
  case (Cons st sts)
  then obtain u where u: "roll_app params nxt st s = (Inr (), u)" using roll_app_run [of st s params nxt] by auto
  then have "\<forall>i. BondOf u i < 2 ^ 192" using roll_app_writes [OF u] Cons.prems(2) by (auto simp: BondOf_def)
  then obtain t where "forM sts (roll_app params nxt) u = (Inr (), t)" using Cons.IH [of u] Cons.prems(1) by auto
  with u show ?case by (simp add: seqM_def bindM_def)
qed

lemma foldl_drop_stats:
  "foldl (\<lambda>s key. s\<lparr>apps := (apps s)\<lparr>EpochStats := fmdrop key (EpochStats (apps s))\<rparr>\<rparr>) s ks =
   s\<lparr>apps := (apps s)\<lparr>EpochStats := foldl (\<lambda>m key. fmdrop key m) (EpochStats (apps s)) ks\<rparr>\<rparr>"
  by (induction ks arbitrary: s) simp_all

lemma foldl_drop_sub: "fmlookup (foldl (\<lambda>m key. fmdrop key m) m ks) k = Some x \<Longrightarrow> fmlookup m k = Some x"
proof (induction ks arbitrary: m)
  case (Cons a ks)
  from Cons.IH [of "fmdrop a m"] Cons.prems show ?case by (simp split: if_splits)
qed simp

lemma rolled_refl: "rolled s s"
  unfolding rolled_def by (intro conjI exI [of _ "Quotas (apps s)"] exI [of _ "EpochStats (apps s)"]
    exI [of _ "EpochNumber (apps s)"] exI [of _ "EpochStart (apps s)"] exI [of _ "events s"]) auto

lemma rolled_quotas: "rolled s (s\<lparr>apps := (apps s)\<lparr>Quotas := q\<rparr>\<rparr>)"
  unfolding rolled_def by (intro conjI exI [of _ q] exI [of _ "EpochStats (apps s)"]
    exI [of _ "EpochNumber (apps s)"] exI [of _ "EpochStart (apps s)"] exI [of _ "events s"]) auto

lemma rolloverEpoch_writes:
  assumes "rolloverEpoch s = (r, t)"
  shows "rolled s t"
proof -
  obtain epoch start where ep: "CurrentEpoch s = (epoch, start)" by (cases "CurrentEpoch s")
  let ?params = "apps_GetParams s"
  show ?thesis
  proof (cases "height s < sub64 (add64 start (ap_EpochLengthBlocks ?params)) 1")
    case True
    with assms rolled_refl show ?thesis by (auto simp: rolloverEpoch_def exec_simps ep)
  next
    case False
    let ?sts = "map snd (epoch_stats_of s epoch)"
    obtain r1 u where u: "forM ?sts (roll_app ?params (epoch + 1)) s = (r1, u)" by (cases "forM ?sts (roll_app ?params (epoch + 1)) s")
    then obtain q where q: "u = s\<lparr>apps := (apps s)\<lparr>Quotas := q\<rparr>\<rparr>" using roll_loop_writes by blast
    let ?stale = "if 0 < epoch then map fst (epoch_stats_of s (epoch - 1)) else []"
    have same: "epoch_stats_of (s\<lparr>apps := (apps s)\<lparr>Quotas := q\<rparr>\<rparr>) n = epoch_stats_of s n" for n
      by (simp add: epoch_stats_of_def)
    show ?thesis
    proof (cases r1)
      case (Inl e)
      with assms False u have "t = u"
        unfolding rolloverEpoch_def by (simp add: exec_simps ep Let_def seqM_def bindM_def gets_def)
      then show ?thesis using rolled_quotas by (simp add: q)
    next
      case (Inr x)
      with assms False u have "t = s\<lparr>apps := (apps s)\<lparr>Quotas := q,
          EpochStats := foldl (\<lambda>m key. fmdrop key m) (EpochStats (apps s)) ?stale,
          EpochNumber := Some (epoch + 1), EpochStart := Some (add64 (height s) 1)\<rparr>,
          events := events s @ [EvEpochRollover (epoch + 1)]\<rparr>"
        unfolding rolloverEpoch_def forM_modify_fun foldl_drop_stats
        by (cases "0 < epoch") (simp_all add: exec_simps ep Let_def seqM_def bindM_def emit_def modify_def gets_def same q)
      then show ?thesis unfolding rolled_def by (intro conjI) (blast, auto dest: foldl_drop_sub)
    qed
  qed
qed

lemma rolloverEpoch_run:
  assumes "stats_ok (apps s)" "amounts_small s"
  shows "\<exists>t. rolloverEpoch s = (Inr (), t)"
proof -
  obtain epoch start where ep: "CurrentEpoch s = (epoch, start)" by (cases "CurrentEpoch s")
  let ?sts = "map snd (epoch_stats_of s epoch)"
  have "\<forall>st \<in> set ?sts. hll_ok (es_Hll st) \<and> 0 \<le> es_FeeWeight st \<and> es_FeeWeight st < 2 ^ 192"
    using assms by (auto simp: epoch_stats_of_def set_entries stats_ok_def amounts_small_def)
  moreover have "\<forall>i. BondOf s i < 2 ^ 192" using assms(2) by (simp add: amounts_small_def)
  ultimately obtain u where "forM ?sts (roll_app (apps_GetParams s) (epoch + 1)) s = (Inr (), u)"
    using roll_loop [of ?sts s "apps_GetParams s" "epoch + 1"] by blast
  then show ?thesis
    unfolding rolloverEpoch_def forM_modify_fun
    by (auto simp: exec_simps ep Let_def seqM_def bindM_def emit_def modify_def gets_def)
qed

lemma GetParams_cong: "a_Params (apps t) = a_Params (apps s) \<Longrightarrow> apps_GetParams t = apps_GetParams s"
  by (simp add: apps_GetParams_def)

lemma inv_moves:
  assumes "apps_inv E s" "apps_ok t" "moves_only s t"
  shows "apps_inv E t"
  using assms GetParams_cong [of t s]
  by (auto simp: apps_inv_def moves_only_def stats_ok_def bonds_pos_def)

lemma inv_released:
  assumes "apps_inv E s" "released E d s t"
  shows "apps_inv E t"
proof -
  from assms(2) obtain x U ev where t: "t = s\<lparr>ext := x, apps := (apps s)\<lparr>Unbondings := U\<rparr>, events := ev\<rparr>"
    unfolding released_def by blast
  have sub: "fmlookup U k = Some v \<Longrightarrow> fmlookup (Unbondings (apps s)) k = Some v" for k v
    by (cases k) (use assms(2) in \<open>simp add: released_def t\<close>)
  have "U = fmempty" if "Unbondings (apps s) = fmempty"
  proof (rule fmap_ext)
    fix k from sub [of k] that show "fmlookup U k = fmlookup fmempty k" by (cases "fmlookup U k") auto
  qed
  moreover have "fmpred (\<lambda>_ v. 0 < v) U"
  proof (rule fmpredI)
    fix k v assume "fmlookup U k = Some v"
    from sub [OF this] assms(1) show "0 < v" unfolding apps_inv_def bonds_pos_def by (metis fmpredD)
  qed
  ultimately show ?thesis
    using assms(1) by (auto simp: apps_inv_def t stats_ok_def bonds_pos_def apps_GetParams_def)
qed

lemma inv_rolled:
  assumes "apps_inv E s" "rolled s t"
  shows "apps_inv E t"
proof -
  from assms(2) obtain q es n h ev where
    t: "t = s\<lparr>apps := (apps s)\<lparr>Quotas := q, EpochStats := es, EpochNumber := n, EpochStart := h\<rparr>, events := ev\<rparr>"
    unfolding rolled_def by blast
  have sub: "fmlookup es k = Some x \<Longrightarrow> fmlookup (EpochStats (apps s)) k = Some x" for k x
    by (cases k) (use assms(2) in \<open>simp add: rolled_def t\<close>)
  have "stats_ok (apps t)"
    unfolding stats_ok_def
  proof (intro allI impI)
    fix k x assume "fmlookup (EpochStats (apps t)) k = Some x"
    then have "fmlookup (EpochStats (apps s)) k = Some x" using sub by (simp add: t)
    with assms(1) show "k = (es_Epoch x, es_AppId x) \<and> hll_ok (es_Hll x) \<and> 0 \<le> es_FeeWeight x"
      unfolding apps_inv_def stats_ok_def by blast
  qed
  then show ?thesis using assms(1) by (auto simp: apps_inv_def t bonds_pos_def apps_GetParams_def)
qed

text \<open>What one end blocker does: the moves that were due, then the unbondings, then the epoch.\<close>

lemma EndBlock_stages:
  assumes inv: "apps_inv E s"
  shows "\<exists>u v. finalizeMoves s = (Inr (), u) \<and> releaseUnbondings E u = (Inr (), v) \<and> apps_EndBlock E s = rolloverEpoch v \<and>
    apps_inv E v \<and> moves_only s u \<and> moved_by (set (due_moves s)) s u \<and> released E (ap_BondDenom (apps_GetParams u)) u v"
proof -
  from inv have "apps_ok s" by (simp add: apps_inv_def)
  from finalizeMoves_run [OF this] obtain u where u: "finalizeMoves s = (Inr (), u)" "apps_ok u" "moves_only s u"
    "moved_by (set (due_moves s)) s u" by blast
  with inv have iu: "apps_inv E u" by (blast intro: inv_moves)
  have "ValidDenom E (ap_BondDenom (apps_GetParams u))" if "ready_unbondings u \<noteq> []"
  proof -
    from that ready_props(2) [of _ _ u] have "Unbondings (apps u) \<noteq> fmempty"
      by (metis fmempty_lookup list.set_intros(1) neq_Nil_conv old.prod.exhaust option.distinct(1))
    with iu show ?thesis by (auto simp: apps_inv_def apps_params_Validate_def)
  qed
  with iu releaseUnbondings_run [of u E] obtain v where
    v: "releaseUnbondings E u = (Inr (), v)" "released E (ap_BondDenom (apps_GetParams u)) u v"
    by (auto simp: apps_inv_def)
  with iu have "apps_inv E v" by (blast intro: inv_released)
  with u v show ?thesis by (fastforce simp: apps_EndBlock_def seqM_def bindM_def)
qed

lemma EndBlock_writes:
  assumes "apps_inv E s" "apps_EndBlock E s = (r, t)"
  shows "\<exists>u v. apps_inv E t \<and> moves_only s u \<and> moved_by (set (due_moves s)) s u \<and>
    released E (ap_BondDenom (apps_GetParams u)) u v \<and> rolled v t"
proof -
  from EndBlock_stages [OF assms(1)] obtain u v where uv: "apps_EndBlock E s = rolloverEpoch v" "apps_inv E v" "moves_only s u"
    "moved_by (set (due_moves s)) s u" "released E (ap_BondDenom (apps_GetParams u)) u v" by blast
  with assms(2) have "rolled v t" by (intro rolloverEpoch_writes) simp
  with uv inv_rolled show ?thesis by blast
qed

lemma EndBlock_run:
  assumes inv: "apps_inv E s" and small: "amounts_small s"
  shows "\<exists>t. apps_EndBlock E s = (Inr (), t)"
proof -
  from EndBlock_stages [OF inv] obtain u v where uv: "apps_EndBlock E s = rolloverEpoch v" "apps_inv E v" "moves_only s u"
    "released E (ap_BondDenom (apps_GetParams u)) u v" by blast
  have "Bonds (apps v) = Bonds (apps s)" "EpochStats (apps v) = EpochStats (apps s)"
    using uv(3,4) by (auto simp: moves_only_def released_def)
  with small have "amounts_small v" by (simp add: amounts_small_def BondOf_def)
  with rolloverEpoch_run [of v] uv(1,2) show ?thesis by (simp add: apps_inv_def)
qed

section \<open>Steps\<close>

text \<open>
  One step of the chain as the apps store sees it: a message, the claim and the settlement record
  that the precompile and \<open>x/settle\<close> make, the end blocker, and anything else that leaves the store
  alone and takes no coins from the module's account. Signers are not the module's own account, which has no key, and the sequence of app ids
  has not run through all \<open>2 ^ 64\<close> values.
\<close>

fun signer_of :: "apps_msg \<Rightarrow> string" where
  "signer_of (MsgRegisterApp ow r u d b) = ow"
| "signer_of (MsgUpdateApp ow i r u d b) = ow"
| "signer_of (MsgTransferOwnership ow i n) = ow"
| "signer_of (MsgAcceptOwnership n i) = n"
| "signer_of (MsgAddContract ow i c p) = ow"
| "signer_of (MsgAcceptContractClaim ow i c) = ow"
| "signer_of (MsgRemoveContract ow i c) = ow"
| "signer_of (MsgCancelContractMove ow c) = ow"
| "signer_of (MsgBondApp ow i a) = ow"
| "signer_of (MsgUnbondApp ow i a) = ow"
| "signer_of (MsgSetAppStatus a i st) = a"
| "signer_of (MsgAppsUpdateParams a p) = a"

inductive apps_step :: "'x env \<Rightarrow> 'x chain \<Rightarrow> 'x chain \<Rightarrow> bool" for E where
  message: "apps_handle E m s = (r, t) \<Longrightarrow> NextAppID (apps s) \<noteq> - 1 \<Longrightarrow>
    AccFromBech32 E (signer_of m) \<noteq> Some (ModuleAddress E ''apps'') \<Longrightarrow> apps_step E s t"
| claim: "atomic (ClaimRegistration E c i) s = (r, t) \<Longrightarrow> apps_step E s t"
| settlement: "0 \<le> w \<Longrightarrow> RecordSettlement E i p w s = (r, t) \<Longrightarrow> apps_step E s t"
| end_block: "apps_EndBlock E s = (r, t) \<Longrightarrow> apps_step E s t"
| other: "apps t = apps s \<Longrightarrow>
    (\<forall>d. BankBalance E (ext s) (ModuleAddress E ''apps'') d \<le> BankBalance E (ext t) (ModuleAddress E ''apps'') d) \<Longrightarrow>
    apps_step E s t"

text \<open>Looking up a module account, creating it if needed, moves no coins.\<close>

definition account_laws :: "'x env \<Rightarrow> bool" where
  "account_laws E \<longleftrightarrow> (\<forall>m x. BankBalance E (snd (GetModuleAccount E m x)) = BankBalance E x)"

text \<open>What the operations of the registry leave alone: bonds, statistics, parameters and the
  balances of the module account.\<close>

definition money :: "'x env \<Rightarrow> 'x chain \<Rightarrow> 'x chain \<Rightarrow> bool" where
  "money E s t \<longleftrightarrow>
     Bonds (apps t) = Bonds (apps s) \<and> Unbondings (apps t) = Unbondings (apps s) \<and>
     EpochStats (apps t) = EpochStats (apps s) \<and> a_Params (apps t) = a_Params (apps s) \<and>
     (account_laws E \<longrightarrow> BankBalance E (ext t) (ModuleAddress E ''apps'') = BankBalance E (ext s) (ModuleAddress E ''apps''))"

lemma money_refl [simp]: "money E s s"
  by (simp add: money_def)

lemma money_apps [simp]:
  "money E s0 (s\<lparr>events := ev\<rparr>) = money E s0 s"
  "money E s0 (s\<lparr>apps := (apps s)\<lparr>Apps := x1\<rparr>\<rparr>) = money E s0 s"
  "money E s0 (s\<lparr>apps := (apps s)\<lparr>Bindings := x2\<rparr>\<rparr>) = money E s0 s"
  "money E s0 (s\<lparr>apps := (apps s)\<lparr>AppContracts := x3\<rparr>\<rparr>) = money E s0 s"
  "money E s0 (s\<lparr>apps := (apps s)\<lparr>PendingMoves := x4\<rparr>\<rparr>) = money E s0 s"
  "money E s0 (s\<lparr>apps := (apps s)\<lparr>MovesByUnlock := x5\<rparr>\<rparr>) = money E s0 s"
  "money E s0 (s\<lparr>apps := (apps s)\<lparr>PendingClaims := x6\<rparr>\<rparr>) = money E s0 s"
  by (simp_all add: money_def)

lemma money_modify [keeps_intros]:
  "keeps (money E s0) (put_app i a)" "keeps (money E s0) (emit e)"
  "keeps (money E s0) (on_apps (\<lambda>c. c\<lparr>Bindings := f2 c\<rparr>))"
  "keeps (money E s0) (on_apps (\<lambda>c. c\<lparr>AppContracts := f3 c\<rparr>))"
  "keeps (money E s0) (on_apps (\<lambda>c. c\<lparr>PendingMoves := f4 c\<rparr>))"
  "keeps (money E s0) (on_apps (\<lambda>c. c\<lparr>MovesByUnlock := f5 c\<rparr>))"
  "keeps (money E s0) (on_apps (\<lambda>c. c\<lparr>PendingClaims := f6 c\<rparr>))"
  by (simp_all add: put_app_def emit_def keeps_modify)

lemma money_account [keeps_intros]:
  "keeps (money E s0) (\<lambda>s. case GetModuleAccount E m (ext s) of (a, x) \<Rightarrow> (Inr a, s\<lparr>ext := x\<rparr>))"
  by (auto simp: keeps_def money_def account_laws_def split: prod.splits) (metis snd_conv)

lemma money_registry [keeps_intros]:
  "keeps (money E s0) (GetApp i)" "keeps (money E s0) (ownedApp ow i)"
  unfolding GetApp_def ownedApp_def by (intro keeps_intros)+

lemma money_bind [keeps_intros]:
  "keeps (money E s0) (setBinding c i p)" "keeps (money E s0) (unbind c i)" "keeps (money E s0) (drop_move c mv)"
  unfolding setBinding_def unbind_def drop_move_def by (intro keeps_intros)+

lemma money_proof [keeps_intros]: "keeps (money E s0) (VerifyProof E sg c pr)"
  unfolding VerifyProof_def Let_def by (cases "pr_Type pr") (simp_all, (intro keeps_intros)+)

lemma money_bindContract [keeps_intros]: "keeps (money E s0) (bindContract c i p)"
  unfolding bindContract_def Let_def by (intro keeps_intros)

lemma money_ops:
  "keeps (money E s0) (UpdateApp E ow i rec uri dm bps)" "keeps (money E s0) (TransferOwnership E ow i nw)"
  "keeps (money E s0) (AcceptOwnership nw i)" "keeps (money E s0) (SetAppStatus i st)"
  "keeps (money E s0) (AddContract E a i c pr)" "keeps (money E s0) (AcceptContractClaim E ow i c)"
  "keeps (money E s0) (RemoveContract E ow i c)" "keeps (money E s0) (CancelContractMove E ow c)"
  "keeps (money E s0) (ClaimRegistration E a i)"
  unfolding UpdateApp_def TransferOwnership_def AcceptOwnership_def SetAppStatus_def AddContract_def
    AcceptContractClaim_def RemoveContract_def CancelContractMove_def ClaimRegistration_def Let_def
  by (intro keeps_intros)+

lemma money_RegisterApp:
  assumes "bank_laws E" "ow \<noteq> ModuleAddress E ''apps''"
    "RegisterApp E ow rec uri dm bps s = (Inr i, t)"
  shows "money E s t"
proof -
  from RegisterApp_Inr [OF assms(3)] obtain x n a where
    t: "t = s\<lparr>ext := x, apps := (apps s)\<lparr>NextAppID := n, Apps := fmupd i a (Apps (apps s))\<rparr>,
      events := events s @ [EvAppRegistered i (AccString E ow) (app_RevenueRecipient a)]\<rparr>"
    and pay: "let fee = ap_RegistrationFee (apps_GetParams s); cs = coins1 (coin_Denom fee) (coin_Amount fee) in
     if 0 < coin_Amount fee
     then \<exists>y. BankA2M E ow ''apps'' cs (ext s) = Inr y \<and> BankBurn E ''apps'' cs y = Inr x
     else x = ext s"
    by blast
  have "BankBalance E x (ModuleAddress E ''apps'') = BankBalance E (ext s) (ModuleAddress E ''apps'')"
  proof (cases "0 < coin_Amount (ap_RegistrationFee (apps_GetParams s))")
    case True
    with pay obtain y cs where y: "BankA2M E ow ''apps'' cs (ext s) = Inr y" "BankBurn E ''apps'' cs y = Inr x"
      by (auto simp: Let_def)
    show ?thesis
      by (rule ext) (use assms(2) in \<open>simp add: bank_A2M(1) [OF assms(1) y(1)] bank_Burn(1) [OF assms(1) y(2)] moved_def\<close>)
  next
    case False
    with pay show ?thesis by (simp add: Let_def)
  qed
  then show ?thesis by (simp add: money_def t)
qed

lemma BondApp_Inr:
  assumes "BondApp E ow i am s = (Inr u, t)"
  shows "\<exists>frm x. ap_BondDenom (apps_GetParams s) \<noteq> [] \<and> coin_Denom am = ap_BondDenom (apps_GetParams s) \<and>
    0 < coin_Amount am \<and> AccFromBech32 E ow = Some frm \<and>
    BankA2M E frm ''apps'' (coins1 (coin_Denom am) (coin_Amount am)) (ext s) = Inr x \<and>
    t = s\<lparr>ext := x, apps := (apps s)\<lparr>Bonds := fmupd i (BondOf s i + coin_Amount am) (Bonds (apps s))\<rparr>,
          events := events s @ [EvBonded i am (BondOf s i + coin_Amount am)
            (BaseQuota (apps_GetParams s) (BondOf s i + coin_Amount am))]\<rparr>"
  using assms by (auto simp: BondApp_def run_simps Let_def BondOf_def)

lemma UnbondApp_Inr:
  assumes "UnbondApp E ow i am s = (Inr h, t)"
  shows "\<exists>a ev. let left = BondOf s i - coin_Amount am; key = (h, i, ow);
      pending = (case fmlookup (Unbondings (apps s)) key of None \<Rightarrow> 0 | Some v \<Rightarrow> v) in
    find_app s i = Some a \<and> app_Owner a = ow \<and>
    ap_BondDenom (apps_GetParams s) \<noteq> [] \<and> 0 < coin_Amount am \<and> coin_Amount am \<le> BondOf s i \<and>
    h = add64 (height s) (ap_UnbondingBlocks (apps_GetParams s)) \<and>
    t = s\<lparr>apps := (apps s)\<lparr>Bonds := (if left = 0 then fmdrop i (Bonds (apps s)) else fmupd i left (Bonds (apps s))),
            Unbondings := fmupd key (pending + coin_Amount am) (Unbondings (apps s))\<rparr>, events := ev\<rparr>"
  using assms by (auto simp: UnbondApp_def run_simps Let_def BondOf_def)

lemma BondOf_at: "BondOf s i = kv_at (\<lambda>_ v. v) (Bonds (apps s)) i"
  by (simp add: BondOf_def kv_at_def)

lemma fmpred_upd: "fmpred P m \<Longrightarrow> P k v \<Longrightarrow> fmpred P (fmupd k v m)"
  by (auto simp: fmpred_iff split: if_splits)

lemma fmpred_drop': "fmpred P m \<Longrightarrow> fmpred P (fmdrop k m)"
  by (rule fmpredI) (auto dest: fmpredD split: if_splits)

lemma inv_money: "apps_inv E s \<Longrightarrow> apps_ok t \<Longrightarrow> money E s t \<Longrightarrow> apps_inv E t"
  using GetParams_cong [of t s] by (simp add: apps_inv_def money_def stats_ok_def bonds_pos_def)

lemma BondOf_nonneg: "bonds_pos (apps s) \<Longrightarrow> 0 \<le> BondOf s i"
  by (auto simp: BondOf_def bonds_pos_def split: option.splits dest!: fmpredD intro: less_imp_le)

lemma bond_backed:
  assumes inv: "apps_inv E s" and run: "BondApp E ow i am s = (Inr u, t)"
    and key: "AccFromBech32 E ow \<noteq> Some (ModuleAddress E ''apps'')"
  shows "apps_inv E t" "bank_laws E \<Longrightarrow> surplus E (ap_BondDenom (apps_GetParams s)) t = surplus E (ap_BondDenom (apps_GetParams s)) s"
    "apps_GetParams t = apps_GetParams s"
proof -
  from BondApp_Inr [OF run] obtain frm x ev where
    d: "ap_BondDenom (apps_GetParams s) \<noteq> []" "coin_Denom am = ap_BondDenom (apps_GetParams s)" "0 < coin_Amount am"
    and frm: "AccFromBech32 E ow = Some frm"
      "BankA2M E frm ''apps'' (coins1 (coin_Denom am) (coin_Amount am)) (ext s) = Inr x"
    and t: "t = s\<lparr>ext := x, apps := (apps s)\<lparr>Bonds := fmupd i (BondOf s i + coin_Amount am) (Bonds (apps s))\<rparr>, events := ev\<rparr>"
    by auto
  have pos: "bonds_pos (apps s)" using inv by (simp add: apps_inv_def)
  have ps: "apps_GetParams t = apps_GetParams s" by (simp add: t apps_GetParams_def)
  show "apps_GetParams t = apps_GetParams s" by (fact ps)
  have "fmpred (\<lambda>_ v. 0 < v) (fmupd i (BondOf s i + coin_Amount am) (Bonds (apps s)))"
    using pos BondOf_nonneg [OF pos, of i] d(3) by (intro fmpred_upd) (simp_all add: bonds_pos_def)
  then show "apps_inv E t" using inv ps d(1) by (simp add: apps_inv_def t bonds_pos_def stats_ok_def)
  show "surplus E (ap_BondDenom (apps_GetParams s)) t = surplus E (ap_BondDenom (apps_GetParams s)) s" if "bank_laws E"
  proof -
    have "frm \<noteq> ModuleAddress E ''apps''" using key frm(1) by auto
    with bank_A2M(1) [OF that frm(2)] show ?thesis
      by (simp add: surplus_def t BondedTotal_vsum kv_sum_upd BondOf_at d(2) moved_def)
  qed
qed

lemma unbond_backed:
  assumes inv: "apps_inv E s" and run: "UnbondApp E ow i am s = (Inr h, t)"
  shows "apps_inv E t" "surplus E d t = surplus E d s" "apps_GetParams t = apps_GetParams s" "ext t = ext s"
proof -
  define left where "left = BondOf s i - coin_Amount am"
  define pending where "pending = (case fmlookup (Unbondings (apps s)) (h, i, ow) of None \<Rightarrow> 0 | Some v \<Rightarrow> v)"
  from UnbondApp_Inr [OF run] obtain ev where
    d: "ap_BondDenom (apps_GetParams s) \<noteq> []" "0 < coin_Amount am" "coin_Amount am \<le> BondOf s i"
    and t: "t = s\<lparr>apps := (apps s)\<lparr>Bonds := (if left = 0 then fmdrop i (Bonds (apps s)) else fmupd i left (Bonds (apps s))),
            Unbondings := fmupd (h, i, ow) (pending + coin_Amount am) (Unbondings (apps s))\<rparr>, events := ev\<rparr>"
    unfolding Let_def left_def [symmetric] pending_def [symmetric] by blast
  have pos: "bonds_pos (apps s)" using inv by (simp add: apps_inv_def)
  show ps: "apps_GetParams t = apps_GetParams s" by (simp add: t apps_GetParams_def)
  show "ext t = ext s" by (simp add: t)
  have left: "0 \<le> left" using d(3) by (simp add: left_def)
  have pend: "0 \<le> pending" using pos
    by (auto simp: pending_def bonds_pos_def split: option.splits dest!: fmpredD intro: less_imp_le)
  have "bonds_pos (apps t)"
    using pos left pend d(2) by (auto simp: bonds_pos_def t intro!: fmpred_upd fmpred_drop')
  with inv ps d(1) show "apps_inv E t" by (simp add: apps_inv_def t stats_ok_def)
  have "pending = kv_at (\<lambda>_ v. v) (Unbondings (apps s)) (h, i, ow)"
    by (simp add: pending_def kv_at_def)
  then show "surplus E d t = surplus E d s"
    by (simp add: surplus_def t BondedTotal_vsum kv_sum_upd kv_sum_drop left_def BondOf_at)
qed

section \<open>Reachable states\<close>

definition bank_nonneg :: "'x env \<Rightarrow> bool" where
  "bank_nonneg E \<longleftrightarrow> (\<forall>x a d. 0 \<le> BankBalance E x a d)"

abbreviation bond_denom :: "'x chain \<Rightarrow> denom" where
  "bond_denom s \<equiv> ap_BondDenom (apps_GetParams s)"

definition apps_good :: "'x env \<Rightarrow> 'x chain \<Rightarrow> bool" where
  "apps_good E s \<longleftrightarrow> apps_inv E s \<and> 0 \<le> surplus E (bond_denom s) s"

lemma good_money:
  assumes "account_laws E" "apps_good E s" "apps_ok t" "money E s t"
  shows "apps_good E t"
proof -
  have "apps_GetParams t = apps_GetParams s" using assms(4) by (intro GetParams_cong) (simp add: money_def)
  with assms inv_money [of E s t] show ?thesis
    by (simp add: apps_good_def surplus_def BondedTotal_vsum money_def)
qed

lemma good_params:
  assumes "bank_nonneg E" "apps_good E s" "msg_apps_UpdateParams E au p s = (Inr u, t)"
  shows "apps_good E t"
proof -
  from assms(3) have v: "apps_params_Validate E p" "ap_BondDenom p \<noteq> bond_denom s \<Longrightarrow> \<not> 0 < BondedTotal s"
    and t: "t = s\<lparr>apps := (apps s)\<lparr>a_Params := Some p\<rparr>\<rparr>"
    by (auto simp: msg_apps_UpdateParams_def run_simps)
  have pos: "bonds_pos (apps s)" using assms(2) by (simp add: apps_good_def apps_inv_def)
  have ps: "apps_GetParams t = p" by (simp add: t apps_GetParams_def)
  have empty: "Bonds (apps s) = fmempty \<and> Unbondings (apps s) = fmempty" if "ap_BondDenom p \<noteq> bond_denom s"
    using no_bonds [OF pos] v(2) that by blast
  have "apps_inv E t"
    using assms(2) v(1) empty by (auto simp: apps_good_def apps_inv_def ps) (auto simp: t stats_ok_def bonds_pos_def)
  moreover have "0 \<le> surplus E (ap_BondDenom p) t"
  proof (cases "ap_BondDenom p = bond_denom s")
    case True
    with assms(2) show ?thesis by (simp add: apps_good_def surplus_def BondedTotal_vsum t)
  next
    case False
    with empty assms(1) show ?thesis by (simp add: surplus_def BondedTotal_vsum t bank_nonneg_def)
  qed
  ultimately show ?thesis by (simp add: apps_good_def ps)
qed

lemma good_message:
  assumes laws: "bank_laws E" "account_laws E" "bank_nonneg E" and good: "apps_good E s"
    and run: "apps_handle E m s = (r, t)" and n: "NextAppID (apps s) \<noteq> - 1"
    and key: "AccFromBech32 E (signer_of m) \<noteq> Some (ModuleAddress E ''apps'')"
  shows "apps_good E t"
proof (cases r)
  case (Inl e)
  with run good show ?thesis by (auto simp: apps_handle_def atomic_Inl)
next
  case (Inr y)
  with run have ok_run: "apps_run E m s = (Inr y, t)" by (simp add: apps_handle_def atomic_Inr)
  have ok: "apps_ok s" using good by (simp add: apps_good_def apps_inv_def)
  have reg: "apps_good E t" if "op s = (Inr z, t)" "keepsR apps_ok op" "keeps (money E s) op" for op :: "('a, 'z) call" and z
    by (rule good_money [OF laws(2) good])
       (use that ok keepsRD [OF that(2)] keepsD [OF that(3) money_refl] in blast)+
  show ?thesis
  proof (cases m)
    case (MsgRegisterApp ow rc uri dm b)
    with ok_run key obtain a i where a: "AccFromBech32 E ow = Some a" "RegisterApp E a rc uri dm b s = (Inr i, t)"
      "a \<noteq> ModuleAddress E ''apps''"
      by (auto simp: msg_RegisterApp_def run_simps)
    show ?thesis
      by (rule good_money [OF laws(2) good ok_RegisterApp [OF ok n a(2)] money_RegisterApp [OF laws(1) a(3,2)]])
  next
    case (MsgBondApp ow i am)
    with ok_run key have run: "BondApp E ow i am s = (Inr (), t)" "AccFromBech32 E ow \<noteq> Some (ModuleAddress E ''apps'')"
      by (auto simp: done_ok_def run_simps)
    have inv: "apps_inv E s" using good by (simp add: apps_good_def)
    from bond_backed [OF inv run] laws(1) good show ?thesis by (simp add: apps_good_def)
  next
    case (MsgUnbondApp ow i am)
    with ok_run obtain h where run: "UnbondApp E ow i am s = (Inr h, t)"
      by (auto simp: msg_UnbondApp_def run_simps)
    have inv: "apps_inv E s" using good by (simp add: apps_good_def)
    from unbond_backed [OF inv run] good show ?thesis by (simp add: apps_good_def)
  next
    case (MsgAppsUpdateParams a p)
    with ok_run show ?thesis using good_params [OF laws(3) good] by (auto simp: done_ok_def run_simps)
  next
    case (MsgUpdateApp ow i rc uri dm b)
    with ok_run show ?thesis using reg [OF _ ok_UpdateApp money_ops(1)] by (auto simp: done_ok_def run_simps)
  next
    case (MsgTransferOwnership ow i nw)
    with ok_run show ?thesis using reg [OF _ ok_TransferOwnership money_ops(2)] by (auto simp: done_ok_def run_simps)
  next
    case (MsgAcceptOwnership nw i)
    with ok_run show ?thesis using reg [OF _ ok_AcceptOwnership money_ops(3)] by (auto simp: done_ok_def run_simps)
  next
    case (MsgSetAppStatus a i st)
    with ok_run show ?thesis using reg [OF _ ok_SetAppStatus money_ops(4)]
      by (auto simp: done_ok_def msg_SetAppStatus_def run_simps)
  next
    case (MsgAddContract ow i c pr)
    with ok_run show ?thesis using reg [OF _ ok_AddContract money_ops(5)]
      by (auto simp: msg_AddContract_def run_simps split: prod.splits)
  next
    case (MsgAcceptContractClaim ow i c)
    with ok_run show ?thesis using reg [OF _ ok_AcceptContractClaim money_ops(6)]
      by (auto simp: msg_AcceptContractClaim_def run_simps split: prod.splits)
  next
    case (MsgRemoveContract ow i c)
    with ok_run show ?thesis using reg [OF _ ok_RemoveContract money_ops(7)] by (auto simp: done_ok_def run_simps)
  next
    case (MsgCancelContractMove ow c)
    with ok_run show ?thesis using reg [OF _ ok_CancelContractMove money_ops(8)] by (auto simp: done_ok_def run_simps)
  qed
qed

end
