(* ===== verification/AppsTheorems.thy ===== *)
theory AppsTheorems
  imports AppsBonds
begin

text \<open>
  What \<open>x/apps\<close> promises in every reachable state: a consistent registry, backed bonds, an end
  blocker that never fails, timelocked moves of contracts, changes by the owner only, and a final
  revocation.
\<close>

section \<open>Every step keeps the invariant\<close>

lemma inv_RecordSettlement:
  assumes "apps_inv E s" "0 \<le> w" "RecordSettlement E i p w s = (r, t)"
  shows "apps_inv E t \<and> ext t = ext s \<and> Bonds (apps t) = Bonds (apps s) \<and> Unbondings (apps t) = Unbondings (apps s) \<and>
    apps_GetParams t = apps_GetParams s"
proof (cases "i = NoApp")
  case True
  with assms show ?thesis by (simp add: RecordSettlement_def)
next
  case False
  obtain epoch start where ep: "CurrentEpoch s = (epoch, start)" by (cases "CurrentEpoch s")
  define st where "st = (case fmlookup (EpochStats (apps s)) (epoch, i) of
      None \<Rightarrow> \<lparr>es_AppId = i, es_Epoch = epoch, es_FeeWeight = 0, es_Payments = 0, es_Hll = NewHLL\<rparr> | Some x \<Rightarrow> x)"
  let ?st' = "st\<lparr>es_FeeWeight := es_FeeWeight st + w, es_Payments := es_Payments st + 1, es_Hll := HLLAdd E (es_Hll st) p\<rparr>"
  have t: "t = s\<lparr>apps := (apps s)\<lparr>EpochStats := fmupd (epoch, i) ?st' (EpochStats (apps s))\<rparr>\<rparr>"
    using assms(3) False by (simp add: RecordSettlement_def exec_simps ep st_def Let_def)
  have st: "es_Epoch st = epoch \<and> es_AppId st = i \<and> hll_ok (es_Hll st) \<and> 0 \<le> es_FeeWeight st"
  proof (cases "fmlookup (EpochStats (apps s)) (epoch, i)")
    case None
    then show ?thesis by (simp add: st_def)
  next
    case (Some x)
    with assms(1) have "(epoch, i) = (es_Epoch x, es_AppId x) \<and> hll_ok (es_Hll x) \<and> 0 \<le> es_FeeWeight x"
      unfolding apps_inv_def stats_ok_def by blast
    with Some show ?thesis by (simp add: st_def)
  qed
  have "stats_ok (apps t)"
    unfolding stats_ok_def
  proof (intro allI impI)
    fix k x assume x: "fmlookup (EpochStats (apps t)) k = Some x"
    show "k = (es_Epoch x, es_AppId x) \<and> hll_ok (es_Hll x) \<and> 0 \<le> es_FeeWeight x"
    proof (cases "k = (epoch, i)")
      case True
      with x st assms(2) show ?thesis by (auto simp: t)
    next
      case False
      with x have "fmlookup (EpochStats (apps s)) k = Some x" by (auto simp: t split: if_splits)
      with assms(1) show ?thesis unfolding apps_inv_def stats_ok_def by blast
    qed
  qed
  moreover have "apps_GetParams t = apps_GetParams s" by (simp add: t apps_GetParams_def)
  ultimately show ?thesis using assms(1) by (simp add: apps_inv_def) (simp add: t bonds_pos_def)
qed

lemma good_EndBlock:
  assumes "bank_laws E" "apps_good E s" "apps_EndBlock E s = (r, t)"
  shows "apps_good E t"
proof -
  from assms(2) have inv: "apps_inv E s" and sur: "0 \<le> surplus E (bond_denom s) s" by (simp_all add: apps_good_def)
  from EndBlock_writes [OF inv assms(3)] obtain u v where
    inv': "apps_inv E t" and su: "moves_only s u" and uv: "released E (bond_denom u) u v" and vt: "rolled v t"
    by blast
  have ps: "apps_GetParams u = apps_GetParams s" using su by (intro GetParams_cong) (simp add: moves_only_def)
  have iu: "surplus E d u = surplus E d s" for d
    using su by (simp add: surplus_def moves_only_def BondedTotal_vsum)
  have pos: "\<forall>v k. fmlookup (Unbondings (apps u)) k = Some v \<longrightarrow> 0 \<le> v"
    using su inv by (auto simp: moves_only_def apps_inv_def bonds_pos_def fmpred_iff intro: less_imp_le)
  have "surplus E (bond_denom u) u \<le> surplus E (bond_denom u) v"
    using uv assms(1) pos unfolding released_def by blast
  moreover have "apps_GetParams v = apps_GetParams u"
    using uv unfolding released_def by (auto simp: apps_GetParams_def)
  moreover have "apps_GetParams t = apps_GetParams v \<and> surplus E d t = surplus E d v" for d
    using vt unfolding rolled_def by (auto simp: apps_GetParams_def surplus_def BondedTotal_vsum)
  ultimately show ?thesis using inv' sur by (simp add: apps_good_def ps iu)
qed

lemma apps_step_good:
  assumes laws: "bank_laws E" "account_laws E" "bank_nonneg E"
  shows "apps_step E s t \<Longrightarrow> apps_good E s \<Longrightarrow> apps_good E t"
proof (induction rule: apps_step.induct)
  case (message m s r t)
  from good_message [OF laws message(4,1,2,3)] show ?case .
next
  case (claim c i s r t)
  then have ok: "apps_ok s" by (simp add: apps_good_def apps_inv_def)
  show ?case
  proof (cases r)
    case (Inr u)
    with claim have run: "ClaimRegistration E c i s = (Inr u, t)" by (simp add: atomic_Inr)
    from good_money [OF laws(2) claim(2) keepsRD [OF ok_ClaimRegistration ok run] keepsD [OF money_ops(9) money_refl run]]
    show ?thesis .
  qed (use claim in \<open>auto simp: atomic_Inl\<close>)
next
  case (settlement w i p s r t)
  then show ?case using inv_RecordSettlement [of E s w i p r t]
    by (simp add: apps_good_def surplus_def BondedTotal_vsum)
next
  case (end_block s r t)
  from good_EndBlock [OF laws(1) end_block(2,1)] show ?case .
next
  case (other t s)
  have "apps_GetParams t = apps_GetParams s" using other(1) by (intro GetParams_cong) simp
  moreover have "BankBalance E (ext s) (ModuleAddress E ''apps'') (bond_denom s)
      \<le> BankBalance E (ext t) (ModuleAddress E ''apps'') (bond_denom s)" using other(2) by blast
  ultimately show ?case using other(1,3)
    by (simp add: apps_good_def apps_inv_def surplus_def BondedTotal_def)
qed

definition apps_empty :: apps_store where
  "apps_empty = \<lparr>a_Params = None, NextAppID = 0, Apps = fmempty, Bindings = fmempty, AppContracts = {||},
     PendingMoves = fmempty, MovesByUnlock = {||}, PendingClaims = fmempty, EpochStats = fmempty,
     Quotas = fmempty, Bonds = fmempty, Unbondings = fmempty, EpochNumber = None, EpochStart = None\<rparr>"

text \<open>A chain that starts with the default genesis of the module, and what it can reach.\<close>

definition apps_reach :: "'x env \<Rightarrow> 'x chain \<Rightarrow> bool" where
  "apps_reach E t \<longleftrightarrow>
     (\<exists>s0 s. apps s0 = apps_empty \<and> apps_InitGenesis E apps_DefaultGenesis s0 = (Inr (), s) \<and> (apps_step E)\<^sup>*\<^sup>* s t)"

definition apps_env :: "'x env \<Rightarrow> bool" where
  "apps_env E \<longleftrightarrow> bank_laws E \<and> account_laws E \<and> bank_nonneg E \<and> apps_params_Validate E apps_DefaultParams"

lemma apps_start:
  assumes "apps s0 = apps_empty" "apps_InitGenesis E apps_DefaultGenesis s0 = (Inr (), s)"
  shows "s = s0\<lparr>apps := apps_empty\<lparr>a_Params := Some apps_DefaultParams, NextAppID := 1, EpochNumber := Some 0,
           EpochStart := Some (height s0)\<rparr>\<rparr>"
  using assms by (simp add: apps_InitGenesis_def apps_DefaultGenesis_def exec_simps)

lemma apps_start_good:
  assumes "apps_env E" "apps s0 = apps_empty" "apps_InitGenesis E apps_DefaultGenesis s0 = (Inr (), s)"
  shows "apps_good E s"
  using assms(1) apps_start [OF assms(2,3)]
  by (simp add: apps_good_def apps_inv_def registry_ok_def stats_ok_def bonds_pos_def apps_empty_def contracts_of_def
      apps_GetParams_def surplus_def BondedTotal_vsum apps_env_def bank_nonneg_def)

lemma apps_reach_good:
  assumes "apps_env E" "apps_reach E t"
  shows "apps_good E t"
proof -
  from assms(2) obtain s0 s where s: "apps s0 = apps_empty" "apps_InitGenesis E apps_DefaultGenesis s0 = (Inr (), s)"
    and st: "(apps_step E)\<^sup>*\<^sup>* s t" by (auto simp: apps_reach_def)
  from st apps_start_good [OF assms(1) s] show ?thesis
    by (induction rule: rtranclp_induct) (use assms(1) apps_step_good in \<open>auto simp: apps_env_def\<close>)
qed

section \<open>Properties\<close>

text \<open>
  C20. The registry is consistent in every reachable state: app ids are their keys, positive and
  below the next id; every binding belongs to an existing app and is indexed exactly under it; an
  app's contract count is the number of its bindings; every scheduled move is of a contract bound
  to the app it leaves, goes to another existing app, and is indexed exactly by its unlock height.
\<close>

theorem registry_consistent:
  assumes "apps_env E" and "apps_reach E t"
  shows "(\<forall>i a. find_app t i = Some a \<longrightarrow> app_AppId a = i \<and> 0 < i \<and> i < NextAppID (apps t) \<and>
      unat (app_ContractCount a) = card {c. \<exists>b. fmlookup (Bindings (apps t)) c = Some b \<and> cb_AppId b = i}) \<and>
    (\<forall>c b. fmlookup (Bindings (apps t)) c = Some b \<longrightarrow> cb_Contract b = c \<and> find_app t (cb_AppId b) \<noteq> None) \<and>
    (\<forall>i c. (i, c) |\<in>| AppContracts (apps t) \<longleftrightarrow> (\<exists>b. fmlookup (Bindings (apps t)) c = Some b \<and> cb_AppId b = i)) \<and>
    (\<forall>u c. (u, c) |\<in>| MovesByUnlock (apps t) \<longleftrightarrow>
       (\<exists>mv. fmlookup (PendingMoves (apps t)) c = Some mv \<and> pm_UnlockHeight mv = u)) \<and>
    (\<forall>c mv. fmlookup (PendingMoves (apps t)) c = Some mv \<longrightarrow> pm_FromAppId mv \<noteq> pm_ToAppId mv \<and>
       find_app t (pm_ToAppId mv) \<noteq> None \<and>
       (\<exists>b. fmlookup (Bindings (apps t)) c = Some b \<and> cb_AppId b = pm_FromAppId mv))"
proof -
  have ok: "apps_ok t" using apps_reach_good [OF assms] by (simp add: apps_good_def apps_inv_def)
  show ?thesis
  proof (intro conjI allI)
    fix i a show "find_app t i = Some a \<longrightarrow> app_AppId a = i \<and> 0 < i \<and> i < NextAppID (apps t) \<and>
      unat (app_ContractCount a) = card {c. \<exists>b. fmlookup (Bindings (apps t)) c = Some b \<and> cb_AppId b = i}"
      using reg_app [OF ok, of i a] by (auto simp: app_ok_def contracts_of_def find_app_def word_neq_0_conv)
  next
    fix u c show "(u, c) |\<in>| MovesByUnlock (apps t) \<longleftrightarrow>
       (\<exists>mv. fmlookup (PendingMoves (apps t)) c = Some mv \<and> pm_UnlockHeight mv = u)"
      using reg_unlock [OF ok, of u c] reg_move [OF ok, of c] by (auto simp: move_ok_def)
  next
    fix c mv show "fmlookup (PendingMoves (apps t)) c = Some mv \<longrightarrow> pm_FromAppId mv \<noteq> pm_ToAppId mv \<and>
       find_app t (pm_ToAppId mv) \<noteq> None \<and>
       (\<exists>b. fmlookup (Bindings (apps t)) c = Some b \<and> cb_AppId b = pm_FromAppId mv)"
      using reg_move [OF ok, of c mv] by (auto simp: move_ok_def contracts_of_def find_app_def)
  next
    fix c b show "fmlookup (Bindings (apps t)) c = Some b \<longrightarrow> cb_Contract b = c \<and> find_app t (cb_AppId b) \<noteq> None"
      using reg_binding [OF ok, of c b] by (auto simp: find_app_def)
  next
    fix i c show "(i, c) |\<in>| AppContracts (apps t) \<longleftrightarrow> (\<exists>b. fmlookup (Bindings (apps t)) c = Some b \<and> cb_AppId b = i)"
      using reg_index [OF ok, of i c] by (simp add: contracts_of_def)
  qed
qed

text \<open>
  C8. The module account always holds the bonded capital: in every reachable state the bonds and
  unbondings of all apps are covered by its balance in the bond denom, so every owner can be paid
  back.
\<close>

theorem bonds_backed:
  assumes "apps_env E" and "apps_reach E t"
  shows "BondedTotal t \<le> BankBalance E (ext t) (ModuleAddress E ''apps'') (ap_BondDenom (apps_GetParams t)) \<and>
    (\<forall>i. 0 \<le> BondOf t i) \<and> 0 \<le> BondedTotal t"
proof -
  have "apps_good E t" using apps_reach_good [OF assms] .
  then have pos: "bonds_pos (apps t)" and sur: "0 \<le> surplus E (bond_denom t) t"
    by (simp_all add: apps_good_def apps_inv_def)
  from sur BondOf_nonneg [OF pos] bonds_pos_sums [OF pos] show ?thesis
    by (simp add: surplus_def BondedTotal_vsum)
qed

text \<open>
  C38. The end blocker of \<open>x/apps\<close> cannot be made to fail. In a reachable state whose bonds and fee
  weights have fewer than 192 bits - far above the supply of any asset, and what keeps the products of
  the quota formulas within the 256 bits of \<open>math.Int\<close>, which panic otherwise - it returns no error
  and does not panic, so it does not halt the chain: due moves, payouts the bank refuses, sketches
  and the rollover of the epoch included.
\<close>

theorem end_block_never_fails:
  assumes "apps_env E" and "apps_reach E t"
    and "\<forall>k x. fmlookup (EpochStats (apps t)) k = Some x \<longrightarrow> es_FeeWeight x < 2 ^ 192" and "\<forall>i. BondOf t i < 2 ^ 192"
  shows "\<exists>u. apps_EndBlock E t = (Inr (), u) \<and> apps_reach E u"
proof -
  have "apps_inv E t" using apps_reach_good [OF assms(1,2)] by (simp add: apps_good_def)
  moreover have "amounts_small t" using assms(3,4) by (simp add: amounts_small_def)
  ultimately obtain u where u: "apps_EndBlock E t = (Inr (), u)" using EndBlock_run by blast
  from assms(2) apps_step.end_block [OF u] have "apps_reach E u"
    unfolding apps_reach_def by (meson rtranclp.rtrancl_into_rtrancl)
  with u show ?thesis by blast
qed

section \<open>A concrete chain\<close>

text \<open>
  Genesis, two registrations, a contract bound to the first app and claimed by the second, a bond
  and an unbonding: the states the concrete runs of this theory start from.
\<close>

lemma ref_apps_env: "apps_env ref_env"
proof -
  have "apps_params_Validate ref_env apps_DefaultParams" by code_simp
  moreover have "account_laws ref_env" by (simp add: account_laws_def ref_env_def)
  moreover have "bank_nonneg ref_env" by (simp add: bank_nonneg_def ref_env_def)
  ultimately show ?thesis by (simp add: apps_env_def ref_bank_laws)
qed

definition ex_gen :: "ref_ext chain" where
  "ex_gen = snd (apps_InitGenesis ref_env apps_DefaultGenesis
     (ref_chain (ref_genesis [(string_bytes ''alice'', ''acredit'', 10 ^ 18), (string_bytes ''bobby'', ''acredit'', 10 ^ 18),
                              (string_bytes ''alice'', ''uusdc'', 9000000)])))"

lemma ex_gen_reach: "apps_reach ref_env ex_gen"
proof -
  let ?s0 = "ref_chain (ref_genesis [(string_bytes ''alice'', ''acredit'', 10 ^ 18), (string_bytes ''bobby'', ''acredit'', 10 ^ 18),
                              (string_bytes ''alice'', ''uusdc'', 9000000)])"
  have e: "apps ?s0 = apps_empty" by (simp add: ref_chain_def apps_empty_def)
  have "fst (apps_InitGenesis ref_env apps_DefaultGenesis ?s0) = Inr ()"
    by (simp add: apps_InitGenesis_def apps_DefaultGenesis_def exec_simps)
  then have "apps_InitGenesis ref_env apps_DefaultGenesis ?s0 = (Inr (), ex_gen)"
    unfolding ex_gen_def by (metis prod.collapse)
  with e show ?thesis unfolding apps_reach_def by blast
qed

lemma reach_message:
  assumes "apps_reach E s" "NextAppID (apps s) \<noteq> - 1" "AccFromBech32 E (signer_of m) \<noteq> Some (ModuleAddress E ''apps'')"
  shows "apps_reach E (snd (apps_handle E m s))"
proof -
  have "apps_step E s (snd (apps_handle E m s))"
    by (rule apps_step.message [of E m s "fst (apps_handle E m s)"]) (simp_all add: assms)
  with assms(1) show ?thesis unfolding apps_reach_def by (meson rtranclp.rtrancl_into_rtrancl)
qed

text \<open>Alice registers an app, posts a bond and withdraws a part of it.\<close>

definition ex_app :: app where
  "ex_app = \<lparr>app_AppId = 1, app_Owner = ''alice'', app_PendingOwner = [], app_RevenueRecipient = ''alice'',
     app_MetadataUri = [], app_Domain = [], app_ReferrerBps = 0, app_Status = APP_STATUS_ACTIVE, app_Version = 1,
     app_CreatedHeight = 100, app_ContractCount = 0\<rparr>"

definition ex_registered :: "ref_ext chain" where
  "ex_registered = snd (apps_handle ref_env (MsgRegisterApp ''alice'' [] [] [] 0) ex_gen)"

definition ex_bonded :: "ref_ext chain" where
  "ex_bonded = snd (apps_handle ref_env (MsgBondApp ''alice'' 1 \<lparr>coin_Denom = ''uusdc'', coin_Amount = 4000000\<rparr>) ex_registered)"

definition ex_unbonding :: "ref_ext chain" where
  "ex_unbonding = snd (apps_handle ref_env (MsgUnbondApp ''alice'' 1 \<lparr>coin_Denom = ''uusdc'', coin_Amount = 1000000\<rparr>) ex_bonded)"

lemma ex_gen_eq:
  "ex_gen = (ref_chain (ref_genesis [(string_bytes ''alice'', ''acredit'', 10 ^ 18), (string_bytes ''bobby'', ''acredit'', 10 ^ 18),
       (string_bytes ''alice'', ''uusdc'', 9000000)]))
     \<lparr>apps := apps_empty\<lparr>a_Params := Some apps_DefaultParams, NextAppID := 1, EpochNumber := Some 0, EpochStart := Some 100\<rparr>\<rparr>"
  by (simp add: ex_gen_def apps_InitGenesis_def apps_DefaultGenesis_def exec_simps ref_chain_def apps_empty_def)

lemmas apps_eval =
  ref_run monad_defs apps_handle_def AccAddressFromBech32_def apps_GetParams_def apps_DefaultParams_def
  validateRecipient_def validateURI_def validateDomain_def callx_def Let_def NextID_def put_app_def emit_def moved_def
  ownedApp_def GetApp_def find_app_def BondOf_def apps_empty_def

lemma ex_registered_run:
  "\<exists>x. apps_handle ref_env (MsgRegisterApp ''alice'' [] [] [] 0) ex_gen = (Inr (RespAppId 1), ex_registered) \<and>
     ex_registered = ex_gen\<lparr>ext := x, events := [EvAppRegistered 1 ''alice'' ''alice''],
       apps := (apps ex_gen)\<lparr>NextAppID := 2, Apps := fmupd 1 ex_app fmempty\<rparr>\<rparr> \<and>
     x_bal x (string_bytes ''alice'') ''uusdc'' = 9000000"
  by (simp add: ex_registered_def ex_app_def ex_gen_eq ref_chain_def ref_genesis_def msg_RegisterApp_def RegisterApp_def apps_eval)

lemma ex_registered_eq:
  obtains x where "ex_registered = ex_gen\<lparr>ext := x, events := [EvAppRegistered 1 ''alice'' ''alice''],
       apps := (apps ex_gen)\<lparr>NextAppID := 2, Apps := fmupd 1 ex_app fmempty\<rparr>\<rparr>"
    "x_bal x (string_bytes ''alice'') ''uusdc'' = 9000000"
  using ex_registered_run by blast

lemma ex_bonded_eq:
  obtains x evs where "ex_bonded = ex_registered\<lparr>ext := x, events := evs,
    apps := (apps ex_registered)\<lparr>Bonds := fmupd 1 4000000 fmempty\<rparr>\<rparr>"
proof -
  obtain x where x: "ex_registered = ex_gen\<lparr>ext := x, events := [EvAppRegistered 1 ''alice'' ''alice''],
       apps := (apps ex_gen)\<lparr>NextAppID := 2, Apps := fmupd 1 ex_app fmempty\<rparr>\<rparr>"
    "x_bal x (string_bytes ''alice'') ''uusdc'' = 9000000" by (rule ex_registered_eq)
  have "\<exists>x evs. ex_bonded = ex_registered\<lparr>ext := x, events := evs,
    apps := (apps ex_registered)\<lparr>Bonds := fmupd 1 4000000 fmempty\<rparr>\<rparr>"
    unfolding ex_bonded_def x(1) by (simp add: x(2) ex_gen_eq ref_chain_def BondApp_def done_ok_def apps_eval ex_app_def BaseQuota_fits_def int_fits_def)
  then show ?thesis using that by blast
qed

lemma ex_unbonding_eq:
  obtains x evs where "ex_unbonding = ex_registered\<lparr>ext := x, events := evs,
     apps := (apps ex_registered)\<lparr>Bonds := fmupd 1 3000000 (fmupd 1 4000000 fmempty),
       Unbondings := fmupd (1814500, 1, ''alice'') 1000000 fmempty\<rparr>\<rparr>"
proof -
  obtain x evs where x: "ex_bonded = ex_registered\<lparr>ext := x, events := evs,
    apps := (apps ex_registered)\<lparr>Bonds := fmupd 1 4000000 fmempty\<rparr>\<rparr>" by (rule ex_bonded_eq)
  obtain y where y: "ex_registered = ex_gen\<lparr>ext := y, events := [EvAppRegistered 1 ''alice'' ''alice''],
       apps := (apps ex_gen)\<lparr>NextAppID := 2, Apps := fmupd 1 ex_app fmempty\<rparr>\<rparr>" by (rule ex_registered_eq)
  have "\<exists>x evs. ex_unbonding = ex_registered\<lparr>ext := x, events := evs,
     apps := (apps ex_registered)\<lparr>Bonds := fmupd 1 3000000 (fmupd 1 4000000 fmempty),
       Unbondings := fmupd (1814500, 1, ''alice'') 1000000 fmempty\<rparr>\<rparr>"
    unfolding ex_unbonding_def x y
    by (simp add: ex_gen_eq ref_chain_def UnbondApp_def msg_UnbondApp_def apps_eval ex_app_def wrap64_def)
  then show ?thesis using that by blast
qed

lemma ex_ids: "NextAppID (apps ex_gen) = 1" "NextAppID (apps ex_registered) = 2" "NextAppID (apps ex_bonded) = 2"
  "NextAppID (apps ex_unbonding) = 2" "find_app ex_unbonding 1 = Some ex_app" "BondOf ex_unbonding 1 = 3000000"
proof -
  obtain x where x: "ex_registered = ex_gen\<lparr>ext := x, events := [EvAppRegistered 1 ''alice'' ''alice''],
       apps := (apps ex_gen)\<lparr>NextAppID := 2, Apps := fmupd 1 ex_app fmempty\<rparr>\<rparr>" by (rule ex_registered_eq)
  obtain y e where y: "ex_bonded = ex_registered\<lparr>ext := y, events := e,
    apps := (apps ex_registered)\<lparr>Bonds := fmupd 1 4000000 fmempty\<rparr>\<rparr>" by (rule ex_bonded_eq)
  obtain z e' where z: "ex_unbonding = ex_registered\<lparr>ext := z, events := e',
     apps := (apps ex_registered)\<lparr>Bonds := fmupd 1 3000000 (fmupd 1 4000000 fmempty),
       Unbondings := fmupd (1814500, 1, ''alice'') 1000000 fmempty\<rparr>\<rparr>" by (rule ex_unbonding_eq)
  show "NextAppID (apps ex_gen) = 1" by (simp add: ex_gen_eq)
  show "NextAppID (apps ex_registered) = 2" unfolding x by simp
  show "NextAppID (apps ex_bonded) = 2" unfolding y x by simp
  show "NextAppID (apps ex_unbonding) = 2" unfolding z x by simp
  show "find_app ex_unbonding 1 = Some ex_app" unfolding z x by (simp add: find_app_def)
  show "BondOf ex_unbonding 1 = 3000000" unfolding z by (simp add: BondOf_def)
qed

lemma ex_small:
  "\<forall>k x. fmlookup (EpochStats (apps ex_unbonding)) k = Some x \<longrightarrow> es_FeeWeight x < 2 ^ 192" "\<forall>i. BondOf ex_unbonding i < 2 ^ 192"
proof -
  obtain x where x: "ex_registered = ex_gen\<lparr>ext := x, events := [EvAppRegistered 1 ''alice'' ''alice''],
       apps := (apps ex_gen)\<lparr>NextAppID := 2, Apps := fmupd 1 ex_app fmempty\<rparr>\<rparr>" by (rule ex_registered_eq)
  obtain z e where z: "ex_unbonding = ex_registered\<lparr>ext := z, events := e,
     apps := (apps ex_registered)\<lparr>Bonds := fmupd 1 3000000 (fmupd 1 4000000 fmempty),
       Unbondings := fmupd (1814500, 1, ''alice'') 1000000 fmempty\<rparr>\<rparr>" by (rule ex_unbonding_eq)
  show "\<forall>k x. fmlookup (EpochStats (apps ex_unbonding)) k = Some x \<longrightarrow> es_FeeWeight x < 2 ^ 192"
    unfolding z x by (simp add: ex_gen_eq apps_empty_def)
  show "\<forall>i. BondOf ex_unbonding i < 2 ^ 192" unfolding z by (simp add: BondOf_def)
qed

lemma ex_unbonding_reach: "apps_reach ref_env ex_unbonding"
proof -
  have alice: "AccFromBech32 ref_env ''alice'' \<noteq> Some (ModuleAddress ref_env ''apps'')" by (simp add: ref_run)
  have "apps_reach ref_env ex_registered"
    unfolding ex_registered_def using ex_gen_reach ex_ids alice by (intro reach_message) simp_all
  then have "apps_reach ref_env ex_bonded"
    unfolding ex_bonded_def using ex_ids alice by (intro reach_message) simp_all
  then show ?thesis
    unfolding ex_unbonding_def using ex_ids alice by (intro reach_message) simp_all
qed

theorem registry_consistent_witness:
  "app_AppId ex_app = 1 \<and> (1::u64) < NextAppID (apps ex_unbonding) \<and>
   unat (app_ContractCount ex_app) = card {c. \<exists>b. fmlookup (Bindings (apps ex_unbonding)) c = Some b \<and> cb_AppId b = 1}"
proof -
  note r = registry_consistent [OF ref_apps_env ex_unbonding_reach, THEN conjunct1, rule_format, OF ex_ids(5)]
  show ?thesis using r by blast
qed

theorem bonds_backed_witness:
  "BondOf ex_unbonding 1 = 3000000 \<and>
   BondedTotal ex_unbonding \<le> BankBalance ref_env (ext ex_unbonding) (ModuleAddress ref_env ''apps'')
     (ap_BondDenom (apps_GetParams ex_unbonding))"
  using bonds_backed [OF ref_apps_env ex_unbonding_reach] ex_ids(6) by blast

theorem end_block_never_fails_witness:
  "BondOf ex_unbonding 1 = 3000000 \<and> (\<exists>u. apps_EndBlock ref_env ex_unbonding = (Inr (), u))"
  using end_block_never_fails [OF ref_apps_env ex_unbonding_reach ex_small] ex_ids(6) by blast

end
