(* ===== verification/Settle.thy ===== *)
theory Settle
  imports Council AppsQuota
begin

text \<open>
  \<open>x/settle\<close>, first half (\<open>chain/x/settle/keeper/keeper.go\<close>, \<open>pay.go\<close>, \<open>tabs.go\<close>): the internal
  ledgers, payments and their distribution, app allowances, and tabs, which escrow small payments
  until they are settled together.
\<close>

section \<open>Ledgers\<close>

definition PoolValidator :: string where "PoolValidator = ''validator''"
definition PoolRelayer :: string where "PoolRelayer = ''relayer''"
definition PoolTreasury :: string where "PoolTreasury = ''treasury''"

abbreviation settle_module :: string where "settle_module \<equiv> ''settle''"

definition settle_GetParams :: "'x chain \<Rightarrow> settle_params" where
  "settle_GetParams s = (case s_Params (settle s) of None \<Rightarrow> settle_DefaultParams | Some p \<Rightarrow> p)"

abbreviation on_settle :: "(settle_store \<Rightarrow> settle_store) \<Rightarrow> ('x, unit) call" where
  "on_settle f \<equiv> modify (\<lambda>s. s\<lparr>settle := f (settle s)\<rparr>)"

definition settle_SetParams :: "'x env \<Rightarrow> settle_params \<Rightarrow> ('x, unit) call" where
  "settle_SetParams E p =
     seqM (check (settle_params_Validate E p) (ESettle SErrInvalidParams))
     (on_settle (\<lambda>c. c\<lparr>s_Params := Some p\<rparr>))"

definition moduleAddr :: "'x env \<Rightarrow> addr" where
  "moduleAddr E = ModuleAddress E settle_module"

definition getInt :: "('k, int) fmap \<Rightarrow> 'k \<Rightarrow> int" where
  "getInt m k = (case fmlookup m k of None \<Rightarrow> 0 | Some v \<Rightarrow> v)"

text \<open>
  \<open>addInt\<close> works on any of the maps from keys to integers; the map is given by the field of the
  store it is and the function that updates that field.
\<close>

definition addInt ::
  "(settle_store \<Rightarrow> ('k, int) fmap) \<Rightarrow> ((('k, int) fmap \<Rightarrow> ('k, int) fmap) \<Rightarrow> settle_store \<Rightarrow> settle_store) \<Rightarrow>
   'k \<Rightarrow> int \<Rightarrow> ('x, int) call" where
  "addInt fld upd key delta =
     bindM (gets (\<lambda>s. getInt (fld (settle s)) key)) (\<lambda>cur.
     let nxt = cur + delta in
     seqM (check (0 \<le> nxt) (ESettle SErrInsufficientPool))
     (seqM (on_settle (upd (if nxt = 0 then fmdrop key else fmupd key nxt)))
     (ret nxt)))"

definition ledger :: "denom \<Rightarrow> int \<Rightarrow> ('x, unit) call" where
  "ledger d delta = bindM (addInt LedgerTotal LedgerTotal_update d delta) (\<lambda>_. ret ())"

definition addPool :: "string \<Rightarrow> denom \<Rightarrow> int \<Rightarrow> ('x, unit) call" where
  "addPool pool d delta =
     (if delta = 0 then ret ()
      else bindM (addInt Pools Pools_update (pool, d) delta) (\<lambda>_. ledger d delta))"

definition addClaimable :: "u64 \<Rightarrow> denom \<Rightarrow> int \<Rightarrow> ('x, unit) call" where
  "addClaimable appID d delta =
     (if delta = 0 then ret ()
      else bindM (addInt Claimables Claimables_update (appID, d) delta) (\<lambda>_. ledger d delta))"

definition PoolBalance :: "'x chain \<Rightarrow> string \<Rightarrow> denom \<Rightarrow> int" where
  "PoolBalance s pool d = getInt (Pools (settle s)) (pool, d)"

definition ClaimableOf :: "'x chain \<Rightarrow> u64 \<Rightarrow> denom \<Rightarrow> int" where
  "ClaimableOf s appID d = getInt (Claimables (settle s)) (appID, d)"

definition checkAsset :: "settle_params \<Rightarrow> denom \<Rightarrow> ('x, fee_asset) call" where
  "checkAsset params d =
     bindM (need (Asset params d) (ESettle SErrAssetNotAllowed)) (\<lambda>asset.
     seqM (check (fa_Enabled asset) (ESettle SErrAssetNotAllowed))
     (bindM (gets (\<lambda>s. IsSettlePaused s d)) (\<lambda>paused.
      seqM (check (\<not> paused) (ESettle SErrPaused))
      (ret asset))))"

definition validRecipient :: "'x env \<Rightarrow> addr \<Rightarrow> bool" where
  "validRecipient E a \<longleftrightarrow> a \<noteq> [] \<and> \<not> BlockedAddr E a \<and> a \<noteq> moduleAddr E"

text \<open>\<open>sdk.NewCoins(sdk.NewCoin(d, a))\<close> panics on a negative amount and on an invalid denom.\<close>

definition NewCoins :: "'x env \<Rightarrow> denom \<Rightarrow> int \<Rightarrow> ('x, coins) call" where
  "NewCoins E d a = seqM (check (0 \<le> a \<and> ValidDenom E d) EPanic) (ret (coins1 d a))"

section \<open>Payments\<close>

record pay_request =
  rq_Payer :: addr
  rq_Payee :: addr
  rq_Amount :: coin
  rq_App :: "app option"
  rq_Referrer :: addr
  rq_FundsInModule :: bool

record pay_result =
  res_Fee :: int
  res_Net :: int
  res_Split :: split_result
  res_AppID :: u64

definition addTotals :: "denom \<Rightarrow> int \<Rightarrow> int \<Rightarrow> ('x, unit) call" where
  "addTotals d amount fee =
     bindM (gets (\<lambda>s. case fmlookup (Totals (settle s)) d of
        None \<Rightarrow> \<lparr>tot_Denom = d, tot_Volume = 0, tot_Fees = 0, tot_Payments = 0\<rparr> | Some t \<Rightarrow> t)) (\<lambda>tot.
     on_settle (\<lambda>c. c\<lparr>Totals := fmupd d (tot\<lparr>tot_Volume := tot_Volume tot + amount,
        tot_Fees := tot_Fees tot + fee, tot_Payments := tot_Payments tot + 1\<rparr>) (Totals c)\<rparr>))"

definition distribute ::
  "'x env \<Rightarrow> settle_params \<Rightarrow> fee_asset \<Rightarrow> pay_request \<Rightarrow> ('x, pay_result) call" where
  "distribute E params asset req =
     (let d = coin_Denom (rq_Amount req);
          amount = coin_Amount (rq_Amount req);
          fee = ComputeFee amount asset (sp_FeeBps params);
          net = amount - fee;
          hasApp = rq_App req \<noteq> None;
          appID = (case rq_App req of None \<Rightarrow> 0 | Some a \<Rightarrow> app_AppId a);
          referrerBps = (case rq_App req of None \<Rightarrow> 0 | Some a \<Rightarrow> app_ReferrerBps a);
          hasReferrer = (rq_Referrer req \<noteq> [] \<and> validRecipient E (rq_Referrer req) \<and> rq_Referrer req \<noteq> rq_Payer req);
          spl = ComputeSplit fee (sp_Split params) hasApp hasReferrer referrerBps in
      seqM (check (split_Total spl = fee) (ESettle SErrInvariantViolation))
      (seqM (whenM (0 < net)
         (bindM (NewCoins E d net) (\<lambda>cs. SendCoinsFromModuleToAccount E settle_module (rq_Payee req) cs)))
      (seqM (whenM (0 < sr_Referrer spl)
         (bindM (NewCoins E d (sr_Referrer spl)) (\<lambda>cs. SendCoinsFromModuleToAccount E settle_module (rq_Referrer req) cs)))
      (seqM (addClaimable appID d (sr_App spl))
      (seqM (addPool PoolValidator d (sr_Validator spl))
      (seqM (addPool PoolRelayer d (sr_Relayer spl))
      (seqM (addPool PoolTreasury d (sr_Treasury spl))
      (seqM (addTotals d amount fee)
      (seqM (whenM hasApp
         (bindM (need (fa_QuotaWeight asset) EPanic) (\<lambda>qw. RecordSettlement E appID (rq_Payer req) (fee * qw))))
      (seqM (emit (EvSettled \<lparr>ev_AppId = appID, ev_Payer = rq_Payer req, ev_Payee = rq_Payee req, ev_Denom = d,
          ev_Amount = amount, ev_Fee = fee, ev_Net = net, ev_AppShare = sr_App spl, ev_Referrer = rq_Referrer req,
          ev_ReferrerShare = sr_Referrer spl, ev_ValidatorShare = sr_Validator spl, ev_RelayerShare = sr_Relayer spl,
          ev_TreasuryShare = sr_Treasury spl\<rparr>))
      (ret \<lparr>res_Fee = fee, res_Net = net, res_Split = spl, res_AppID = appID\<rparr>)))))))))))"

definition Pay :: "'x env \<Rightarrow> pay_request \<Rightarrow> ('x, pay_result) call" where
  "Pay E req =
     bindM (gets settle_GetParams) (\<lambda>params.
     bindM (checkAsset params (coin_Denom (rq_Amount req))) (\<lambda>asset.
     seqM (check (0 < coin_Amount (rq_Amount req)) (ESettle SErrInvalidAmount))
     (seqM (check (validRecipient E (rq_Payee req)) (ESettle SErrInvalidRecipient))
     (seqM (check (rq_Payer req \<noteq> rq_Payee req) (ESettle SErrSelfPayment))
     (seqM (whenM (\<not> rq_FundsInModule req)
        (bindM (NewCoins E (coin_Denom (rq_Amount req)) (coin_Amount (rq_Amount req))) (\<lambda>cs.
         SendCoinsFromAccountToModule E (rq_Payer req) settle_module cs)))
     (distribute E params asset req))))))"

section \<open>App allowances\<close>

definition MaxAllowance :: int where "MaxAllowance = 2 ^ 255"

definition Allowance :: "'x chain \<Rightarrow> string \<Rightarrow> u64 \<Rightarrow> denom \<Rightarrow> int" where
  "Allowance s owner appID d = getInt (Allowances (settle s)) (owner, appID, d)"

definition ApproveApp :: "'x env \<Rightarrow> addr \<Rightarrow> u64 \<Rightarrow> denom \<Rightarrow> int \<Rightarrow> ('x, unit) call" where
  "ApproveApp E owner appID d amount =
     seqM (check (0 \<le> amount) (ESettle SErrInvalidAmount))
     (bindM (GetApp appID) (\<lambda>_.
      let key = (AccString E owner, appID, d) in
      if amount = 0 then on_settle (\<lambda>c. c\<lparr>Allowances := fmdrop key (Allowances c)\<rparr>)
      else seqM (on_settle (\<lambda>c. c\<lparr>Allowances := fmupd key amount (Allowances c)\<rparr>))
           (emit (EvAppApproval owner appID d amount))))"

definition SpendAllowance :: "'x env \<Rightarrow> addr \<Rightarrow> u64 \<Rightarrow> denom \<Rightarrow> int \<Rightarrow> ('x, unit) call" where
  "SpendAllowance E owner appID d amount =
     (let key = (AccString E owner, appID, d) in
      bindM (gets (\<lambda>s. getInt (Allowances (settle s)) key)) (\<lambda>cur.
      seqM (check (amount \<le> cur) (ESettle SErrAllowance))
      (if MaxAllowance \<le> cur then ret ()
       else let nxt = cur - amount in
         on_settle (\<lambda>c. c\<lparr>Allowances := (if nxt = 0 then fmdrop key (Allowances c) else fmupd key nxt (Allowances c))\<rparr>))))"

section \<open>Tabs\<close>

definition TabKey :: "'x env \<Rightarrow> u64 \<Rightarrow> addr \<Rightarrow> addr \<Rightarrow> denom \<Rightarrow> string" where
  "TabKey E appID payer payee d =
     decimal (unat appID) @ ''|'' @ AccString E payer @ ''|'' @ AccString E payee @ ''|'' @ d"

definition no_result :: pay_result where
  "no_result = \<lparr>res_Fee = 0, res_Net = 0, res_Split =
     \<lparr>sr_App = 0, sr_Referrer = 0, sr_Validator = 0, sr_Relayer = 0, sr_Treasury = 0\<rparr>, res_AppID = 0\<rparr>"

text \<open>\<open>MustAccAddressFromBech32\<close> panics on a text that is no address.\<close>

definition settleTab :: "'x env \<Rightarrow> string \<Rightarrow> tab \<Rightarrow> app option \<Rightarrow> ('x, pay_result) call" where
  "settleTab E key t app0 =
     seqM (on_settle (\<lambda>c. c\<lparr>Tabs := fmdrop key (Tabs c)\<rparr>))
     (seqM (ledger (tab_Denom t) (- tab_Amount t))
     (bindM (need (AccFromBech32 E (tab_Payer t)) EPanic) (\<lambda>payer.
      bindM (need (AccFromBech32 E (tab_Payee t)) EPanic) (\<lambda>payee.
      bindM (gets settle_GetParams) (\<lambda>params.
      case Asset params (tab_Denom t) of
        None \<Rightarrow>
          bindM (NewCoins E (tab_Denom t) (tab_Amount t)) (\<lambda>cs.
          seqM (SendCoinsFromModuleToAccount E settle_module payer cs) (ret no_result))
      | Some asset \<Rightarrow>
          bindM (gets (\<lambda>s.
             if app0 = None \<and> tab_AppId t \<noteq> NoApp
             then (case find_app s (tab_AppId t) of
                     None \<Rightarrow> None | Some a \<Rightarrow> if app_Status a = APP_STATUS_ACTIVE then Some a else None)
             else app0)) (\<lambda>a.
          seqM (check (0 \<le> tab_Amount t \<and> ValidDenom E (tab_Denom t)) EPanic)
          (bindM (distribute E params asset
             \<lparr>rq_Payer = payer, rq_Payee = payee, rq_Amount = \<lparr>coin_Denom = tab_Denom t, coin_Amount = tab_Amount t\<rparr>,
              rq_App = a, rq_Referrer = [], rq_FundsInModule = True\<rparr>) (\<lambda>res.
           seqM (emit (EvTabClosed (tab_AppId t) (tab_Payer t) (tab_Payee t) (tab_Denom t) (tab_Amount t) (tab_Entries t)))
           (ret res)))))))))"

definition tab_of :: "'x env \<Rightarrow> u64 \<Rightarrow> addr \<Rightarrow> addr \<Rightarrow> denom \<Rightarrow> 'x chain \<Rightarrow> tab" where
  "tab_of E appID payer payee d s =
     (case fmlookup (Tabs (settle s)) (TabKey E appID payer payee d) of
        None \<Rightarrow> \<lparr>tab_AppId = appID, tab_Payer = AccString E payer, tab_Payee = AccString E payee,
                 tab_Denom = d, tab_Amount = 0, tab_OpenedHeight = height s, tab_Entries = 0\<rparr>
      | Some t \<Rightarrow> t)"

definition tab_add :: "tab \<Rightarrow> int \<Rightarrow> tab" where
  "tab_add t n = t\<lparr>tab_Amount := tab_Amount t + n, tab_Entries := tab_Entries t + 1\<rparr>"

definition TabDeposit ::
  "'x env \<Rightarrow> app option \<Rightarrow> addr \<Rightarrow> addr \<Rightarrow> coin \<Rightarrow> bool \<Rightarrow> ('x, bool \<times> pay_result) call" where
  "TabDeposit E app0 payer payee c pullFromPayer =
     bindM (gets settle_GetParams) (\<lambda>params.
     bindM (checkAsset params (coin_Denom c)) (\<lambda>asset.
     seqM (check (0 < coin_Amount c) (ESettle SErrInvalidAmount))
     (seqM (check (validRecipient E payee \<and> payer \<noteq> payee) (ESettle SErrInvalidRecipient))
     (seqM (whenM pullFromPayer
        (bindM (NewCoins E (coin_Denom c) (coin_Amount c)) (\<lambda>cs. SendCoinsFromAccountToModule E payer settle_module cs)))
     (let appID = (case app0 of None \<Rightarrow> 0 | Some a \<Rightarrow> app_AppId a);
          key = TabKey E appID payer payee (coin_Denom c) in
      bindM (gets (tab_of E appID payer payee (coin_Denom c))) (\<lambda>t0.
      let t = tab_add t0 (coin_Amount c) in
      seqM (ledger (coin_Denom c) (coin_Amount c))
      (bindM (need (fa_TabSettleThreshold asset) EPanic) (\<lambda>threshold.
       if threshold \<le> tab_Amount t
       then bindM (settleTab E key t app0) (\<lambda>res. ret (True, res))
       else seqM (on_settle (\<lambda>st. st\<lparr>Tabs := fmupd key t (Tabs st)\<rparr>))
            (seqM (emit (EvTabDeposit appID payer payee (coin_Denom c) (coin_Amount c) (tab_Amount t)))
            (ret (False, no_result)))))))))))"

definition CloseTab :: "'x env \<Rightarrow> addr \<Rightarrow> u64 \<Rightarrow> addr \<Rightarrow> addr \<Rightarrow> denom \<Rightarrow> ('x, pay_result) call" where
  "CloseTab E sender appID payer payee d =
     (let key = TabKey E appID payer payee d in
      bindM (gets (\<lambda>s. fmlookup (Tabs (settle s)) key)) (\<lambda>found.
      bindM (need found (ESettle SErrTabNotFound)) (\<lambda>t.
      bindM (gets (\<lambda>s. (if appID \<noteq> NoApp then find_app s appID else None,
                          sub64 (height s) (tab_OpenedHeight t), sp_MaxTabAgeBlocks (settle_GetParams s)))) (\<lambda>(a, age, maxAge).
      let allowed = (sender = payer \<or> sender = payee \<or>
             (case a of None \<Rightarrow> False | Some x \<Rightarrow> app_Owner x = AccString E sender) \<or> maxAge \<le> age);
          app0 = (case a of None \<Rightarrow> None | Some x \<Rightarrow> if app_Status x = APP_STATUS_ACTIVE then Some x else None) in
      seqM (check allowed (ESettle SErrUnauthorized))
      (settleTab E key t app0)))))"

end
