(* ===== verification/SettleTreasury.thy ===== *)
theory SettleTreasury
  imports Settle
begin

text \<open>
  \<open>x/settle\<close>, second half (\<open>keeper/treasury.go\<close>, \<open>payout.go\<close>, \<open>invariants.go\<close>, \<open>msg_server.go\<close>):
  revenue claims, gas credits, the treasury and relayer pools, the burning of gas fees, the payout
  of validators, the on-chain invariant checks with their safe mode, and the message server.
\<close>

section \<open>Revenue\<close>

definition claim_denom :: "'x env \<Rightarrow> u64 \<Rightarrow> denom \<Rightarrow> coins \<times> denom list \<Rightarrow> ('x, coins \<times> denom list) call" where
  "claim_denom E appID d acc =
     (case acc of (claimed, seen) \<Rightarrow>
        if d \<in> set seen then ret (claimed, seen)
        else bindM (gets (\<lambda>s. ClaimableOf s appID d)) (\<lambda>amt.
          if \<not> 0 < amt then ret (claimed, d # seen)
          else seqM (addClaimable appID d (- amt))
               (seqM (check (ValidDenom E d) EPanic)
               (ret (coins_add claimed d amt, d # seen)))))"

definition ClaimRevenue :: "'x env \<Rightarrow> u64 \<Rightarrow> denom list \<Rightarrow> ('x, coins) call" where
  "ClaimRevenue E appID denoms0 =
     bindM (GetApp appID) (\<lambda>a.
     seqM (check (app_Status a \<noteq> APP_STATUS_REVOKED) (ESettle SErrAppRevoked))
     (bindM (AccAddressFromBech32 E (app_RevenueRecipient a)) (\<lambda>recipient.
      bindM (gets (\<lambda>s. if denoms0 = [] then map fa_Denom (sp_Assets (settle_GetParams s)) else denoms0)) (\<lambda>denoms.
      bindM (foldM denoms (fmempty, []) (claim_denom E appID)) (\<lambda>(claimed, _).
      seqM (check (\<not> list_all (\<lambda>(d, n). n = 0) (entries claimed)) (ESettle SErrNothingToClaim))
      (seqM (SendCoinsFromModuleToAccount E settle_module recipient claimed)
      (seqM (emit (EvRevenueClaimed appID recipient claimed))
      (ret claimed))))))))"

section \<open>Gas credits\<close>

definition QuoteCredits :: "denom \<Rightarrow> int \<Rightarrow> ('x, int) call" where
  "QuoteCredits d amount =
     bindM (gets settle_GetParams) (\<lambda>params.
     bindM (need (Asset params d) (ESettle SErrCreditsDisabled)) (\<lambda>asset.
     seqM (check (fa_Enabled asset \<and> sp_CreditsEnabled params) (ESettle SErrCreditsDisabled))
     (bindM (need (fa_CreditPrice asset) EPanic) (\<lambda>price.
      seqM (check (0 < price) (ESettle SErrCreditsDisabled))
      (ret (amount * price))))))"

definition mintCredits :: "'x env \<Rightarrow> addr \<Rightarrow> int \<Rightarrow> ('x, coin) call" where
  "mintCredits E to amount =
     bindM (NewCoins E (creditDenom E) amount) (\<lambda>cs.
     seqM (MintCoins E settle_module cs)
     (seqM (SendCoinsFromModuleToAccount E settle_module to cs)
     (bindM (gets (\<lambda>s. case CreditsMinted (settle s) of None \<Rightarrow> 0 | Some m \<Rightarrow> m)) (\<lambda>minted.
      seqM (on_settle (\<lambda>c. c\<lparr>CreditsMinted := Some (minted + amount)\<rparr>))
      (ret \<lparr>coin_Denom = creditDenom E, coin_Amount = amount\<rparr>)))))"

definition BuyCredits :: "'x env \<Rightarrow> addr \<Rightarrow> addr \<Rightarrow> coin \<Rightarrow> ('x, coin) call" where
  "BuyCredits E buyer recipient0 payment =
     seqM (check (0 < coin_Amount payment) (ESettle SErrInvalidAmount))
     (bindM (gets (\<lambda>s. IsSettlePaused s (coin_Denom payment))) (\<lambda>paused.
      seqM (check (\<not> paused) (ESettle SErrPaused))
      (bindM (QuoteCredits (coin_Denom payment) (coin_Amount payment)) (\<lambda>credits.
       let recipient = (if recipient0 = [] then buyer else recipient0) in
       seqM (check (validRecipient E recipient) (ESettle SErrInvalidRecipient))
       (bindM (NewCoins E (coin_Denom payment) (coin_Amount payment)) (\<lambda>cs.
        seqM (SendCoinsFromAccountToModule E buyer settle_module cs)
        (seqM (addPool PoolTreasury (coin_Denom payment) (coin_Amount payment))
        (bindM (mintCredits E recipient credits) (\<lambda>out.
         seqM (emit (EvCreditsBought buyer recipient payment out))
         (ret out))))))))))"

section \<open>Treasury and relayer pool\<close>

text \<open>\<open>Coins.IsValid\<close>: valid denoms in strictly increasing order with positive amounts.\<close>

definition coins_IsValid :: "'x env \<Rightarrow> coin list \<Rightarrow> bool" where
  "coins_IsValid E cs \<longleftrightarrow>
     list_all (\<lambda>c. ValidDenom E (coin_Denom c) \<and> 0 < coin_Amount c) cs \<and> sorted_wrt (<) (map coin_Denom cs)"

definition coins_of :: "coin list \<Rightarrow> coins" where
  "coins_of cs = fmap_of_list (map (\<lambda>c. (coin_Denom c, coin_Amount c)) cs)"

definition WithdrawTreasury :: "'x env \<Rightarrow> string \<Rightarrow> addr \<Rightarrow> coin list \<Rightarrow> ('x, unit) call" where
  "WithdrawTreasury E signer recipient amount =
     bindM (gets settle_GetParams) (\<lambda>params.
     seqM (check (signer = authority E \<or> sp_TreasuryAdmin params \<noteq> [] \<and> signer = sp_TreasuryAdmin params)
            (ESettle SErrUnauthorized))
     (seqM (check (coins_IsValid E amount \<and> \<not> list_all (\<lambda>c. coin_Amount c = 0) amount) (ESettle SErrInvalidAmount))
     (seqM (check (validRecipient E recipient) (ESettle SErrInvalidRecipient))
     (seqM (forM amount (\<lambda>c.
        bindM (gets (\<lambda>s. PoolBalance s PoolTreasury (coin_Denom c))) (\<lambda>bal.
        seqM (check (coin_Amount c \<le> bal) (ESettle SErrInsufficientPool))
        (addPool PoolTreasury (coin_Denom c) (- coin_Amount c)))))
     (seqM (SendCoinsFromModuleToAccount E settle_module recipient (coins_of amount))
     (emit (EvTreasuryWithdrawn signer recipient (coins_of amount))))))))"

text \<open>The per-interval cap that binds the relayer admin, but not governance.\<close>

definition relayer_cap :: "'x env \<Rightarrow> settle_params \<Rightarrow> coin \<Rightarrow> ('x, unit) call" where
  "relayer_cap E params amount =
     bindM (gets (\<lambda>s. getInt (RelayerPaid (settle s)) (coin_Denom amount))) (\<lambda>paid.
     seqM (check (ValidDenom E (coin_Denom amount)) EPanic)
     (seqM (check (paid + coin_Amount amount \<le> AmountOf (sp_RelayerPayoutCap params) (coin_Denom amount))
            (ESettle SErrRelayerCap))
     (bindM (addInt RelayerPaid RelayerPaid_update (coin_Denom amount) (coin_Amount amount)) (\<lambda>_. ret ()))))"

definition DisburseRelayerPool :: "'x env \<Rightarrow> string \<Rightarrow> addr \<Rightarrow> coin \<Rightarrow> bool \<Rightarrow> ('x, coin) call" where
  "DisburseRelayerPool E signer recipient amount asCredits =
     bindM (gets settle_GetParams) (\<lambda>params.
     let isAuthority = (signer = authority E); d = coin_Denom amount in
     seqM (check (isAuthority \<or> sp_RelayerAdmin params \<noteq> [] \<and> signer = sp_RelayerAdmin params) (ESettle SErrUnauthorized))
     (seqM (check (0 < coin_Amount amount) (ESettle SErrInvalidAmount))
     (seqM (check (IsRelayerRecipient params (AccString E recipient)) (ESettle SErrInvalidRecipient))
     (bindM (gets (\<lambda>s. PoolBalance s PoolRelayer d)) (\<lambda>bal.
      seqM (check (coin_Amount amount \<le> bal) (ESettle SErrInsufficientPool))
      (seqM (whenM (\<not> isAuthority) (relayer_cap E params amount))
      (seqM (addPool PoolRelayer d (- coin_Amount amount))
      (bindM (if asCredits
              then bindM (QuoteCredits d (coin_Amount amount)) (\<lambda>credits.
                   seqM (addPool PoolTreasury d (coin_Amount amount)) (mintCredits E recipient credits))
              else bindM (NewCoins E d (coin_Amount amount)) (\<lambda>cs.
                   seqM (SendCoinsFromModuleToAccount E settle_module recipient cs) (ret amount))) (\<lambda>out.
       seqM (emit (EvRelayerDisbursed signer recipient amount out))
       (ret out))))))))))"

section \<open>Gas burn\<close>

abbreviation fee_collector :: string where "fee_collector \<equiv> ''fee_collector''"

definition BurnGasFees :: "'x env \<Rightarrow> ('x, unit) call" where
  "BurnGasFees E =
     bindM (gets (\<lambda>s. (sp_GasBurnBps (settle_GetParams s),
                        BankBalance E (ext s) (ModuleAddress E fee_collector) (creditDenom E)))) (\<lambda>(bps, bal).
     if bps = 0 \<or> ModuleAddress E fee_collector = [] \<or> \<not> 0 < bal then ret ()
     else let burn = (if uint bps < MaxBps then quo (bal * uint bps) MaxBps else bal) in
       if \<not> 0 < burn then ret ()
       else bindM (NewCoins E (creditDenom E) burn) (\<lambda>cs.
         bindM (attempt (SendCoinsFromModuleToModule E fee_collector settle_module cs)) (\<lambda>r.
         case r of Inl e \<Rightarrow> ret ()
         | Inr _ \<Rightarrow> bindM (attempt (BurnCoins E settle_module cs)) (\<lambda>r'.
             case r' of Inl e \<Rightarrow> ret () | Inr _ \<Rightarrow> emit (EvGasBurned (creditDenom E) burn)))))"

section \<open>Validator payout\<close>

text \<open>The weight of a validator: consensus power times uptime in basis points (\<open>int64\<close> arithmetic).\<close>

definition uptime_bps :: "'x env \<Rightarrow> 'x \<Rightarrow> int \<Rightarrow> validator \<Rightarrow> int" where
  "uptime_bps E x window v =
     (case v_ConsAddr v of
        None \<Rightarrow> MaxBps
      | Some c \<Rightarrow>
          (case MissedBlocks E x c of
             None \<Rightarrow> MaxBps
           | Some m \<Rightarrow>
               let missed = (if window < m then window else m)
               in sub64 MaxBps (quo (wrap64 (missed * MaxBps)) window)))"

definition payee_of :: "'x env \<Rightarrow> 'x \<Rightarrow> int \<Rightarrow> validator \<Rightarrow> (addr \<times> int) option" where
  "payee_of E x window v =
     (if v_Power v \<le> 0 \<or> uptime_bps E x window v \<le> 0 then None
      else case ValFromBech32 E (v_Operator v) of
        None \<Rightarrow> None
      | Some a \<Rightarrow> Some (a, v_Power v * uptime_bps E x window v))"

definition signing_window :: "'x env \<Rightarrow> 'x \<Rightarrow> int" where
  "signing_window E x = (case SignedBlocksWindow E x of Inl e \<Rightarrow> 1 | Inr w \<Rightarrow> if w \<le> 0 then 1 else w)"

definition payout_share :: "'x env \<Rightarrow> denom \<Rightarrow> int \<Rightarrow> int \<Rightarrow> addr \<times> int \<Rightarrow> int \<Rightarrow> ('x, int) call" where
  "payout_share E d bal tw p paid =
     (let share = quo (bal * snd p) tw in
      if \<not> 0 < share then ret paid
      else bindM (NewCoins E d share) (\<lambda>cs.
        seqM (SendCoinsFromModuleToAccount E settle_module (fst p) cs) (ret (paid + share))))"

definition payout_pool :: "'x env \<Rightarrow> (addr \<times> int) list \<Rightarrow> int \<Rightarrow> denom \<times> int \<Rightarrow> ('x, unit) call" where
  "payout_pool E payees tw e =
     bindM (foldM payees 0 (payout_share E (fst e) (snd e) tw)) (\<lambda>paidTotal.
     seqM (addPool PoolValidator (fst e) (- paidTotal))
     (emit (EvValidatorPayout (fst e) paidTotal (length payees))))"

definition pool_entries :: "'x chain \<Rightarrow> string \<Rightarrow> (denom \<times> int) list" where
  "pool_entries s pool = map (\<lambda>((p, d), n). (d, n)) (filter (\<lambda>((p, d), n). p = pool) (entries (Pools (settle s))))"

definition PayoutValidators :: "'x env \<Rightarrow> ('x, unit) call" where
  "PayoutValidators E =
     bindM (gets (\<lambda>s. (settle_GetParams s, case LastPayout (settle s) of None \<Rightarrow> 0 | Some n \<Rightarrow> n, height s))) (\<lambda>(params, last, h).
     if sub64 h last < sp_ValidatorPayoutIntervalBlocks params then ret ()
     else
       seqM (on_settle (\<lambda>c. c\<lparr>LastPayout := Some h\<rparr>))
       (seqM (on_settle (\<lambda>c. c\<lparr>RelayerPaid := fmempty\<rparr>))
       (bindM (gets ext) (\<lambda>x.
        case BondedValidators E x of
          Inl e \<Rightarrow> fail (EExternal e)
        | Inr vals \<Rightarrow>
            let payees = List.map_filter (payee_of E x (signing_window E x)) vals;
                tw = sum_list (map snd payees) in
            if vals = [] \<or> \<not> 0 < tw then ret ()
            else bindM (gets (\<lambda>s. pool_entries s PoolValidator)) (\<lambda>balances.
              forM balances (payout_pool E payees tw))))))"

section \<open>Invariant checks\<close>

definition InvariantCheckInterval :: int where "InvariantCheckInterval = 100"

text \<open>\<open>RecountLedger\<close>: the sum of claimables, pools and tabs of a denom from scratch.\<close>

definition RecountLedger :: "'x chain \<Rightarrow> denom \<Rightarrow> int" where
  "RecountLedger s d =
     (let out = foldl (\<lambda>n ((i, d'), v). if d' = d then n + v else n) 0 (entries (Claimables (settle s)));
          out = foldl (\<lambda>n ((p, d'), v). if d' = d then n + v else n) out (entries (Pools (settle s)))
      in foldl (\<lambda>n (k, t). if tab_Denom t = d then n + tab_Amount t else n) out (entries (Tabs (settle s))))"

definition broken_solvency :: "'x env \<Rightarrow> 'x chain \<Rightarrow> string list" where
  "broken_solvency E s =
     map (\<lambda>(d, owed). ''solvency: '' @ d @ '' balance '' @ int_String (BankBalance E (ext s) (moduleAddr E) d) @
            '' < ledger '' @ int_String owed)
       (filter (\<lambda>(d, owed). BankBalance E (ext s) (moduleAddr E) d < owed) (entries (LedgerTotal (settle s))))"

definition CheckInvariants :: "'x env \<Rightarrow> 'x chain \<Rightarrow> string list" where
  "CheckInvariants E s =
     broken_solvency E s @
     (case GenesisCreditSupply (settle s) of
        None \<Rightarrow> []
      | Some gen \<Rightarrow>
          let minted = (case CreditsMinted (settle s) of None \<Rightarrow> 0 | Some m \<Rightarrow> m);
              supply = BankSupply E (ext s) (creditDenom E)
          in if gen + minted < supply
             then [''credits: supply '' @ int_String supply @ '' > genesis '' @ int_String gen @
                   '' + minted '' @ int_String minted]
             else [])"

definition runInvariants :: "'x env \<Rightarrow> ('x, unit) call" where
  "runInvariants E =
     bindM (gets (\<lambda>s. (height s, CheckInvariants E s))) (\<lambda>(h, broken).
     if h mod InvariantCheckInterval \<noteq> 0 \<or> broken = [] then ret ()
     else seqM (forM broken (\<lambda>b. emit (EvInvariantBroken b)))
          (bindM (attempt (keeper_SetPause E ''settle'' settle_module (''invariant breach: '' @ hd broken) 0)) (\<lambda>_. ret ())))"

definition settle_BeginBlock :: "'x env \<Rightarrow> ('x, unit) call" where
  "settle_BeginBlock E = BurnGasFees E"

text \<open>An error of the payout is logged, with the writes made so far; a panic is not caught.\<close>

definition settle_EndBlock :: "'x env \<Rightarrow> ('x, unit) call" where
  "settle_EndBlock E =
     bindM (attempt (PayoutValidators E)) (\<lambda>r.
     case r of Inl EPanic \<Rightarrow> fail EPanic | _ \<Rightarrow> runInvariants E)"

section \<open>Message server\<close>

datatype settle_msg =
    MsgPay string string coin
  | MsgClaimRevenue u64 "denom list"
  | MsgBuyCredits string string coin
  | MsgCloseTab string u64 string string denom
  | MsgWithdrawTreasury string string "coin list"
  | MsgDisburseRelayerPool string string coin bool
  | MsgSettleUpdateParams string settle_params

datatype settle_response =
    RespFee coin coin | RespClaimed coins | RespCredits coin | RespPaid coin | RespSettled

definition msg_Pay :: "'x env \<Rightarrow> string \<Rightarrow> string \<Rightarrow> coin \<Rightarrow> ('x, settle_response) call" where
  "msg_Pay E payer payee amount =
     bindM (AccAddressFromBech32 E payer) (\<lambda>p.
     bindM (AccAddressFromBech32 E payee) (\<lambda>q.
     bindM (Pay E \<lparr>rq_Payer = p, rq_Payee = q, rq_Amount = amount, rq_App = None, rq_Referrer = [],
                   rq_FundsInModule = False\<rparr>) (\<lambda>res.
     ret (RespFee \<lparr>coin_Denom = coin_Denom amount, coin_Amount = res_Fee res\<rparr>
                  \<lparr>coin_Denom = coin_Denom amount, coin_Amount = res_Net res\<rparr>))))"

definition msg_BuyCredits :: "'x env \<Rightarrow> string \<Rightarrow> string \<Rightarrow> coin \<Rightarrow> ('x, settle_response) call" where
  "msg_BuyCredits E buyer recipient payment =
     bindM (AccAddressFromBech32 E buyer) (\<lambda>b.
     bindM (if recipient \<noteq> [] then AccAddressFromBech32 E recipient else ret []) (\<lambda>r.
     bindM (BuyCredits E b r payment) (\<lambda>out. ret (RespCredits out))))"

definition msg_CloseTab :: "'x env \<Rightarrow> string \<Rightarrow> u64 \<Rightarrow> string \<Rightarrow> string \<Rightarrow> denom \<Rightarrow> ('x, settle_response) call" where
  "msg_CloseTab E sender appID payer payee d =
     bindM (AccAddressFromBech32 E sender) (\<lambda>sn.
     bindM (AccAddressFromBech32 E payer) (\<lambda>p.
     bindM (AccAddressFromBech32 E payee) (\<lambda>q.
     bindM (CloseTab E sn appID p q d) (\<lambda>res.
     bindM (NewCoins E d (res_Fee res)) (\<lambda>_.
     bindM (NewCoins E d (res_Net res)) (\<lambda>_.
     ret (RespFee \<lparr>coin_Denom = d, coin_Amount = res_Fee res\<rparr> \<lparr>coin_Denom = d, coin_Amount = res_Net res\<rparr>)))))))"

definition msg_WithdrawTreasury :: "'x env \<Rightarrow> string \<Rightarrow> string \<Rightarrow> coin list \<Rightarrow> ('x, settle_response) call" where
  "msg_WithdrawTreasury E signer recipient amount =
     bindM (AccAddressFromBech32 E recipient) (\<lambda>to.
     seqM (WithdrawTreasury E signer to amount) (ret RespSettled))"

definition msg_DisburseRelayerPool ::
  "'x env \<Rightarrow> string \<Rightarrow> string \<Rightarrow> coin \<Rightarrow> bool \<Rightarrow> ('x, settle_response) call" where
  "msg_DisburseRelayerPool E signer recipient amount asCredits =
     bindM (AccAddressFromBech32 E recipient) (\<lambda>to.
     bindM (DisburseRelayerPool E signer to amount asCredits) (\<lambda>out. ret (RespPaid out)))"

definition msg_settle_UpdateParams :: "'x env \<Rightarrow> string \<Rightarrow> settle_params \<Rightarrow> ('x, settle_response) call" where
  "msg_settle_UpdateParams E auth p =
     seqM (check (auth = authority E) (ESettle SErrUnauthorized))
     (seqM (check (settle_params_Validate E p) (ESettle SErrInvalidParams))
     (seqM (on_settle (\<lambda>c. c\<lparr>s_Params := Some p\<rparr>)) (ret RespSettled)))"

fun settle_run :: "'x env \<Rightarrow> settle_msg \<Rightarrow> ('x, settle_response) call" where
  "settle_run E (MsgPay p q c) = msg_Pay E p q c"
| "settle_run E (MsgClaimRevenue i ds) = bindM (ClaimRevenue E i ds) (\<lambda>cs. ret (RespClaimed cs))"
| "settle_run E (MsgBuyCredits b r c) = msg_BuyCredits E b r c"
| "settle_run E (MsgCloseTab sn i p q d) = msg_CloseTab E sn i p q d"
| "settle_run E (MsgWithdrawTreasury sg r cs) = msg_WithdrawTreasury E sg r cs"
| "settle_run E (MsgDisburseRelayerPool sg r c b) = msg_DisburseRelayerPool E sg r c b"
| "settle_run E (MsgSettleUpdateParams a p) = msg_settle_UpdateParams E a p"

definition settle_handle :: "'x env \<Rightarrow> settle_msg \<Rightarrow> ('x, settle_response) call" where
  "settle_handle E m = atomic (settle_run E m)"

end
