(* ===== verification/SettleGenesis.thy ===== *)
theory SettleGenesis
  imports SettleTreasury
begin

text \<open>
  Genesis and queries of \<open>x/settle\<close>: \<open>types/genesis.go\<close>, \<open>types/keys.go\<close>, \<open>keeper/genesis.go\<close>,
  \<open>keeper/grpc_query.go\<close>. A decoded \<open>math.Int\<close> is never nil, so amounts of genesis entries are
  integers.
\<close>

record claimable =
  cl_AppId :: u64
  cl_Denom :: denom
  cl_Amount :: int

record pool_balance =
  pb_Pool :: string
  pb_Denom :: denom
  pb_Amount :: int

record app_allowance =
  aa_Owner :: string
  aa_AppId :: u64
  aa_Denom :: denom
  aa_Amount :: int

record settle_genesis =
  sg_Params :: settle_params
  sg_Claimables :: "claimable list"
  sg_Pools :: "pool_balance list"
  sg_Tabs :: "tab list"
  sg_Allowances :: "app_allowance list"
  sg_Totals :: "totals list"
  sg_RelayerPaidThisInterval :: coins
  sg_CreditsMinted :: int

definition ValidPool :: "string \<Rightarrow> bool" where
  "ValidPool name \<longleftrightarrow> name = PoolValidator \<or> name = PoolRelayer \<or> name = PoolTreasury"

definition settle_DefaultGenesis :: settle_genesis where
  "settle_DefaultGenesis =
     \<lparr>sg_Params = settle_DefaultParams, sg_Claimables = [], sg_Pools = [], sg_Tabs = [], sg_Allowances = [],
      sg_Totals = [], sg_RelayerPaidThisInterval = fmempty, sg_CreditsMinted = 0\<rparr>"

definition settle_genesis_Validate :: "'x env \<Rightarrow> settle_genesis \<Rightarrow> bool" where
  "settle_genesis_Validate E gs \<longleftrightarrow>
     settle_params_Validate E (sg_Params gs) \<and>
     0 \<le> sg_CreditsMinted gs \<and>
     list_all (\<lambda>p. ValidPool (pb_Pool p) \<and> 0 \<le> pb_Amount p) (sg_Pools gs) \<and>
     list_all (\<lambda>c. 0 \<le> cl_Amount c) (sg_Claimables gs) \<and>
     list_all (\<lambda>t. 0 \<le> tab_Amount t) (sg_Tabs gs)"

definition init_tab :: "'x env \<Rightarrow> tab \<Rightarrow> ('x, unit) call" where
  "init_tab E t =
     bindM (AccAddressFromBech32 E (tab_Payer t)) (\<lambda>payer.
     bindM (AccAddressFromBech32 E (tab_Payee t)) (\<lambda>payee.
     seqM (on_settle (\<lambda>c. c\<lparr>Tabs := fmupd (TabKey E (tab_AppId t) payer payee (tab_Denom t)) t (Tabs c)\<rparr>))
     (ledger (tab_Denom t) (tab_Amount t))))"

definition settle_InitGenesis :: "'x env \<Rightarrow> settle_genesis \<Rightarrow> ('x, unit) call" where
  "settle_InitGenesis E gs =
     seqM (on_settle (\<lambda>c. c\<lparr>s_Params := Some (sg_Params gs)\<rparr>))
     (seqM (forM (sg_Claimables gs) (\<lambda>c. addClaimable (cl_AppId c) (cl_Denom c) (cl_Amount c)))
     (seqM (forM (sg_Pools gs) (\<lambda>p. addPool (pb_Pool p) (pb_Denom p) (pb_Amount p)))
     (seqM (forM (sg_Tabs gs) (init_tab E))
     (seqM (forM (sg_Allowances gs) (\<lambda>a. on_settle (\<lambda>c. c\<lparr>Allowances :=
        fmupd (aa_Owner a, aa_AppId a, aa_Denom a) (aa_Amount a) (Allowances c)\<rparr>)))
     (seqM (forM (sg_Totals gs) (\<lambda>t. on_settle (\<lambda>c. c\<lparr>Totals := fmupd (tot_Denom t) t (Totals c)\<rparr>)))
     (seqM (forM (entries (sg_RelayerPaidThisInterval gs)) (\<lambda>p. on_settle (\<lambda>c. c\<lparr>RelayerPaid := fmupd (fst p) (snd p) (RelayerPaid c)\<rparr>)))
     (seqM (on_settle (\<lambda>c. c\<lparr>CreditsMinted := Some (sg_CreditsMinted gs)\<rparr>))
     (bindM (gets (\<lambda>s. (BankSupply E (ext s) (creditDenom E), height s))) (\<lambda>(supply, h).
      let base = supply - sg_CreditsMinted gs in
      seqM (on_settle (\<lambda>c. c\<lparr>GenesisCreditSupply := Some (if base < 0 then 0 else base)\<rparr>))
      (on_settle (\<lambda>c. c\<lparr>LastPayout := Some h\<rparr>)))))))))))"

definition settle_ExportGenesis :: "'x chain \<Rightarrow> settle_genesis" where
  "settle_ExportGenesis s =
     \<lparr>sg_Params = settle_GetParams s,
      sg_Claimables = map (\<lambda>((i, d), v). \<lparr>cl_AppId = i, cl_Denom = d, cl_Amount = v\<rparr>) (entries (Claimables (settle s))),
      sg_Pools = map (\<lambda>((p, d), v). \<lparr>pb_Pool = p, pb_Denom = d, pb_Amount = v\<rparr>) (entries (Pools (settle s))),
      sg_Tabs = map snd (entries (Tabs (settle s))),
      sg_Allowances = map (\<lambda>((w, i, d), v). \<lparr>aa_Owner = w, aa_AppId = i, aa_Denom = d, aa_Amount = v\<rparr>)
        (entries (Allowances (settle s))),
      sg_Totals = map snd (entries (Totals (settle s))),
      sg_RelayerPaidThisInterval = foldl (\<lambda>cs (d, v). coins_add cs d v) fmempty (entries (RelayerPaid (settle s))),
      sg_CreditsMinted = (case CreditsMinted (settle s) of None \<Rightarrow> 0 | Some m \<Rightarrow> m)\<rparr>"

section \<open>Queries\<close>

definition parseInt :: "'x env \<Rightarrow> string \<Rightarrow> err + int" where
  "parseInt E t =
     (case NewIntFromString E t of
        None \<Rightarrow> Inl (ESettle SErrInvalidAmount)
      | Some v \<Rightarrow> if v < 0 then Inl (ESettle SErrInvalidAmount) else Inr v)"

definition query_QuoteFee :: "'x env \<Rightarrow> 'x chain \<Rightarrow> denom \<Rightarrow> string \<Rightarrow> err + string \<times> string" where
  "query_QuoteFee E s d amount =
     (case parseInt E amount of
        Inl e \<Rightarrow> Inl e
      | Inr amt \<Rightarrow>
          let params = settle_GetParams s in
          (case Asset params d of
             None \<Rightarrow> Inl (ESettle SErrAssetNotAllowed)
           | Some asset \<Rightarrow>
               if \<not> fa_Enabled asset then Inl (ESettle SErrAssetNotAllowed)
               else let fee = ComputeFee amt asset (sp_FeeBps params)
                    in Inr (int_String fee, int_String (amt - fee))))"

definition query_Claimable :: "'x chain \<Rightarrow> u64 \<Rightarrow> coins" where
  "query_Claimable s i =
     foldl (\<lambda>cs ((j, d), v). coins_add cs d v) fmempty
       (filter (\<lambda>((j, d), v). j = i) (entries (Claimables (settle s))))"

definition query_Pools :: "'x chain \<Rightarrow> pool_balance list" where
  "query_Pools s = map (\<lambda>((p, d), v). \<lparr>pb_Pool = p, pb_Denom = d, pb_Amount = v\<rparr>) (entries (Pools (settle s)))"

definition query_Tab :: "'x env \<Rightarrow> 'x chain \<Rightarrow> u64 \<Rightarrow> string \<Rightarrow> string \<Rightarrow> denom \<Rightarrow> err + tab option" where
  "query_Tab E s i payer payee d =
     (case AccFromBech32 E payer of
        None \<Rightarrow> Inl EBech32
      | Some p \<Rightarrow>
          (case AccFromBech32 E payee of
             None \<Rightarrow> Inl EBech32
           | Some q \<Rightarrow> Inr (fmlookup (Tabs (settle s)) (TabKey E i p q d))))"

definition query_Allowance :: "'x chain \<Rightarrow> string \<Rightarrow> u64 \<Rightarrow> denom \<Rightarrow> string" where
  "query_Allowance s owner i d = int_String (Allowance s owner i d)"

definition query_Totals :: "'x chain \<Rightarrow> totals list \<times> string" where
  "query_Totals s =
     (map snd (entries (Totals (settle s))),
      int_String (case CreditsMinted (settle s) of None \<Rightarrow> 0 | Some m \<Rightarrow> m))"

definition query_QuoteCredits :: "'x env \<Rightarrow> 'x chain \<Rightarrow> denom \<Rightarrow> string \<Rightarrow> err + string" where
  "query_QuoteCredits E s d amount =
     (case parseInt E amount of
        Inl e \<Rightarrow> Inl e
      | Inr amt \<Rightarrow> (case fst (QuoteCredits d amt s) of Inl e \<Rightarrow> Inl e | Inr c \<Rightarrow> Inr (int_String c)))"

end
