(* ===== verification/SettleBooks.thy ===== *)
theory SettleBooks
  imports SettleGenesis
begin

text \<open>
  The accounts of \<open>x/settle\<close>. Two quantities per denom describe a state: how far the running
  ledger total is from the sum of claimables, pools and tabs (\<open>gap\<close>), and how much more the module
  account holds than the ledger says it owes (\<open>slack\<close>). Every operation keeps the first and never
  lowers the second; the lemmas here say what each step does to both.
\<close>

section \<open>Sums over the stores\<close>

definition in_denom :: "denom \<Rightarrow> 'k \<times> denom \<Rightarrow> int \<Rightarrow> int" where
  "in_denom d k v = (if snd k = d then v else 0)"

definition tab_in :: "denom \<Rightarrow> string \<Rightarrow> tab \<Rightarrow> int" where
  "tab_in d k t = (if tab_Denom t = d then tab_Amount t else 0)"

lemma foldl_sum: "foldl (\<lambda>n x. if P x then n + g x else n) n0 xs = n0 + (\<Sum>x \<leftarrow> xs. if P x then g x else (0::int))"
  by (induction xs arbitrary: n0) auto

lemma recount:
  "RecountLedger s d = kv_sum (in_denom d) (Claimables (settle s)) + kv_sum (in_denom d) (Pools (settle s)) +
     kv_sum (tab_in d) (Tabs (settle s))"
proof -
  have a: "foldl (\<lambda>n ((i, d'), v). if d' = d then n + v else n) n0 (entries m) = n0 + kv_sum (in_denom d) m"
    for n0 and m :: "('k::linorder \<times> denom, int) fmap"
    using foldl_sum [of "\<lambda>x. snd (fst x) = d" snd n0 "entries m"]
    by (simp add: kv_sum_entries in_denom_def split_def)
  have b: "foldl (\<lambda>n (k, t). if tab_Denom t = d then n + tab_Amount t else n) n0 (entries m) = n0 + kv_sum (tab_in d) m"
    for n0 and m :: "(string, tab) fmap"
    using foldl_sum [of "\<lambda>x. tab_Denom (snd x) = d" "\<lambda>x. tab_Amount (snd x)" n0 "entries m"]
    by (simp add: kv_sum_entries tab_in_def split_def)
  show ?thesis by (simp add: RecountLedger_def Let_def a b)
qed

definition setInt :: "('k, int) fmap \<Rightarrow> 'k \<Rightarrow> int \<Rightarrow> ('k, int) fmap" where
  "setInt m k n = (if n = 0 then fmdrop k m else fmupd k n m)"

lemma getInt_setInt [simp]: "getInt (setInt m k n) k' = (if k' = k then n else getInt m k')"
  by (simp add: getInt_def setInt_def)

lemma kv_sum_setInt:
  "f k 0 = 0 \<Longrightarrow> kv_sum f (setInt m k n) = kv_sum f m - f k (getInt m k) + f k n"
  by (auto simp: setInt_def kv_sum_drop kv_sum_upd kv_at_def getInt_def split: option.splits)

lemma setInt_pos: "fmpred (\<lambda>_ v. 0 < v) m \<Longrightarrow> 0 \<le> n \<Longrightarrow> fmpred (\<lambda>_ v. 0 < v) (setInt m k n)"
  by (auto simp: setInt_def fmpred_iff split: if_splits)

section \<open>Gap and slack\<close>

definition owed :: "'x chain \<Rightarrow> denom \<Rightarrow> int" where
  "owed s d = getInt (LedgerTotal (settle s)) d"

definition gap :: "'x chain \<Rightarrow> denom \<Rightarrow> int" where
  "gap s d = owed s d - RecountLedger s d"

definition slack :: "'x env \<Rightarrow> 'x chain \<Rightarrow> denom \<Rightarrow> int" where
  "slack E s d = BankBalance E (ext s) (moduleAddr E) d - owed s d"

definition at :: "denom \<Rightarrow> int \<Rightarrow> denom \<Rightarrow> int" where
  "at d n d' = (if d' = d then n else 0)"

text \<open>From \<open>s\<close> to \<open>t\<close> the ledger stays exact and the module pays at most \<open>c\<close>.\<close>

definition books :: "'x env \<Rightarrow> 'x chain \<Rightarrow> 'x chain \<Rightarrow> (denom \<Rightarrow> int) \<Rightarrow> bool" where
  "books E s t c \<longleftrightarrow> (\<forall>d. gap t d = gap s d \<and> slack E s d - c d \<le> slack E t d)"

lemma books_refl: "books E s s (\<lambda>d. 0)"
  by (simp add: books_def)

lemma books_trans: "books E s t c \<Longrightarrow> books E t u c' \<Longrightarrow> books E s u (\<lambda>d. c d + c' d)"
  unfolding books_def by (metis (no_types, lifting) add_diff_eq diff_diff_eq diff_le_eq order_trans)

lemma books_weaken: "books E s t c \<Longrightarrow> (\<And>d. c d \<le> c' d) \<Longrightarrow> books E s t c'"
  by (simp add: books_def) (meson diff_left_mono order_trans)

lemma books_same:
  assumes "ext t = ext s" "Claimables (settle t) = Claimables (settle s)" "Pools (settle t) = Pools (settle s)"
    "Tabs (settle t) = Tabs (settle s)" "LedgerTotal (settle t) = LedgerTotal (settle s)"
  shows "books E s t (\<lambda>d. 0)"
  using assms by (simp add: books_def gap_def slack_def owed_def recount)

section \<open>Primitive steps\<close>

lemma addInt_Inr:
  "addInt fld upd key delta s = (Inr n, t) \<longleftrightarrow>
     n = getInt (fld (settle s)) key + delta \<and> 0 \<le> n \<and>
     t = s\<lparr>settle := upd (\<lambda>m. setInt m key n) (settle s)\<rparr>"
  by (auto simp: addInt_def run_simps Let_def setInt_def)

lemma ledger_Inr:
  "ledger d delta s = (Inr u, t) \<longleftrightarrow>
     0 \<le> owed s d + delta \<and>
     t = s\<lparr>settle := (settle s)\<lparr>LedgerTotal := setInt (LedgerTotal (settle s)) d (owed s d + delta)\<rparr>\<rparr>"
  by (auto simp: ledger_def run_simps addInt_Inr owed_def)

lemma addPool_Inr:
  assumes "addPool pool d delta s = (Inr u, t)"
  shows "books E s t (at d delta)"
    and "t = s\<lparr>settle := (settle s)\<lparr>Pools := Pools (settle t), LedgerTotal := LedgerTotal (settle t)\<rparr>\<rparr>"
    and "PoolBalance t p' d' = PoolBalance s p' d' + (if p' = pool \<and> d' = d then delta else 0)"
    and "fmpred (\<lambda>_ v. 0 < v) (Pools (settle s)) \<Longrightarrow> fmpred (\<lambda>_ v. 0 < v) (Pools (settle t))"
    and "fmpred (\<lambda>_ v. 0 < v) (LedgerTotal (settle s)) \<Longrightarrow> fmpred (\<lambda>_ v. 0 < v) (LedgerTotal (settle t))"
proof -
  have "books E s t (at d delta) \<and>
    t = s\<lparr>settle := (settle s)\<lparr>Pools := Pools (settle t), LedgerTotal := LedgerTotal (settle t)\<rparr>\<rparr> \<and>
    PoolBalance t p' d' = PoolBalance s p' d' + (if p' = pool \<and> d' = d then delta else 0) \<and>
    (fmpred (\<lambda>_ v. 0 < v) (Pools (settle s)) \<longrightarrow> fmpred (\<lambda>_ v. 0 < v) (Pools (settle t))) \<and>
    (fmpred (\<lambda>_ v. 0 < v) (LedgerTotal (settle s)) \<longrightarrow> fmpred (\<lambda>_ v. 0 < v) (LedgerTotal (settle t)))"
  proof (cases "delta = 0")
    case True
    with assms have t: "t = s" by (simp add: addPool_def)
    show ?thesis unfolding t by (simp add: True at_def books_def)
  next
    case False
    let ?n = "getInt (Pools (settle s)) (pool, d) + delta"
    from assms False have t: "0 \<le> ?n" "0 \<le> owed s d + delta"
      "t = s\<lparr>settle := (settle s)\<lparr>Pools := setInt (Pools (settle s)) (pool, d) ?n,
         LedgerTotal := setInt (LedgerTotal (settle s)) d (owed s d + delta)\<rparr>\<rparr>"
      by (auto simp: addPool_def run_simps addInt_Inr ledger_Inr owed_def)
    have "books E s t (at d delta)"
      by (simp add: books_def gap_def slack_def owed_def recount t(3) kv_sum_setInt in_denom_def at_def)
    moreover have "t = s\<lparr>settle := (settle s)\<lparr>Pools := Pools (settle t), LedgerTotal := LedgerTotal (settle t)\<rparr>\<rparr>"
      by (simp add: t(3))
    moreover have "PoolBalance t p' d' = PoolBalance s p' d' + (if p' = pool \<and> d' = d then delta else 0)"
      by (simp add: t(3) PoolBalance_def)
    moreover have "fmpred (\<lambda>_ v. 0 < v) (Pools (settle s)) \<longrightarrow> fmpred (\<lambda>_ v. 0 < v) (Pools (settle t))"
      using t(1) by (simp add: t(3) setInt_pos)
    moreover have "fmpred (\<lambda>_ v. 0 < v) (LedgerTotal (settle s)) \<longrightarrow> fmpred (\<lambda>_ v. 0 < v) (LedgerTotal (settle t))"
      using t(2) by (simp add: t(3) setInt_pos)
    ultimately show ?thesis by blast
  qed
  then show "books E s t (at d delta)"
    "t = s\<lparr>settle := (settle s)\<lparr>Pools := Pools (settle t), LedgerTotal := LedgerTotal (settle t)\<rparr>\<rparr>"
    "PoolBalance t p' d' = PoolBalance s p' d' + (if p' = pool \<and> d' = d then delta else 0)"
    "fmpred (\<lambda>_ v. 0 < v) (Pools (settle s)) \<Longrightarrow> fmpred (\<lambda>_ v. 0 < v) (Pools (settle t))"
    "fmpred (\<lambda>_ v. 0 < v) (LedgerTotal (settle s)) \<Longrightarrow> fmpred (\<lambda>_ v. 0 < v) (LedgerTotal (settle t))"
    by blast+
qed

lemma addClaimable_Inr:
  assumes "addClaimable i d delta s = (Inr u, t)"
  shows "books E s t (at d delta)"
    and "t = s\<lparr>settle := (settle s)\<lparr>Claimables := Claimables (settle t), LedgerTotal := LedgerTotal (settle t)\<rparr>\<rparr>"
    and "ClaimableOf t i' d' = ClaimableOf s i' d' + (if i' = i \<and> d' = d then delta else 0)"
    and "fmpred (\<lambda>_ v. 0 < v) (Claimables (settle s)) \<Longrightarrow> fmpred (\<lambda>_ v. 0 < v) (Claimables (settle t))"
    and "fmpred (\<lambda>_ v. 0 < v) (LedgerTotal (settle s)) \<Longrightarrow> fmpred (\<lambda>_ v. 0 < v) (LedgerTotal (settle t))"
proof -
  have "books E s t (at d delta) \<and>
    t = s\<lparr>settle := (settle s)\<lparr>Claimables := Claimables (settle t), LedgerTotal := LedgerTotal (settle t)\<rparr>\<rparr> \<and>
    ClaimableOf t i' d' = ClaimableOf s i' d' + (if i' = i \<and> d' = d then delta else 0) \<and>
    (fmpred (\<lambda>_ v. 0 < v) (Claimables (settle s)) \<longrightarrow> fmpred (\<lambda>_ v. 0 < v) (Claimables (settle t))) \<and>
    (fmpred (\<lambda>_ v. 0 < v) (LedgerTotal (settle s)) \<longrightarrow> fmpred (\<lambda>_ v. 0 < v) (LedgerTotal (settle t)))"
  proof (cases "delta = 0")
    case True
    with assms have t: "t = s" by (simp add: addClaimable_def)
    show ?thesis unfolding t by (simp add: True at_def books_def)
  next
    case False
    let ?n = "getInt (Claimables (settle s)) (i, d) + delta"
    from assms False have t: "0 \<le> ?n" "0 \<le> owed s d + delta"
      "t = s\<lparr>settle := (settle s)\<lparr>Claimables := setInt (Claimables (settle s)) (i, d) ?n,
         LedgerTotal := setInt (LedgerTotal (settle s)) d (owed s d + delta)\<rparr>\<rparr>"
      by (auto simp: addClaimable_def run_simps addInt_Inr ledger_Inr owed_def)
    have "books E s t (at d delta)"
      by (simp add: books_def gap_def slack_def owed_def recount t(3) kv_sum_setInt in_denom_def at_def)
    then show ?thesis using t(1,2) by (simp add: t(3) ClaimableOf_def setInt_pos)
  qed
  then show "books E s t (at d delta)"
    "t = s\<lparr>settle := (settle s)\<lparr>Claimables := Claimables (settle t), LedgerTotal := LedgerTotal (settle t)\<rparr>\<rparr>"
    "ClaimableOf t i' d' = ClaimableOf s i' d' + (if i' = i \<and> d' = d then delta else 0)"
    "fmpred (\<lambda>_ v. 0 < v) (Claimables (settle s)) \<Longrightarrow> fmpred (\<lambda>_ v. 0 < v) (Claimables (settle t))"
    "fmpred (\<lambda>_ v. 0 < v) (LedgerTotal (settle s)) \<Longrightarrow> fmpred (\<lambda>_ v. 0 < v) (LedgerTotal (settle t))"
    by blast+
qed

lemma books_pull:
  assumes "bank_laws E" "from \<noteq> moduleAddr E" "BankA2M E from settle_module cs (ext s) = Inr x"
  shows "books E s (s\<lparr>ext := x\<rparr>) (\<lambda>d. - AmountOf cs d)"
  using assms bank_A2M(1) [OF assms(1,3)]
  by (simp add: books_def gap_def slack_def owed_def recount moved_def moduleAddr_def)

lemma books_send:
  assumes "bank_laws E" "\<And>d. 0 \<le> AmountOf cs d" "BankM2A E settle_module to cs (ext s) = Inr x"
  shows "books E s (s\<lparr>ext := x\<rparr>) (AmountOf cs)"
  using assms(2) bank_M2A(2) [OF assms(1,3)]
  by (simp add: books_def gap_def slack_def owed_def recount moved_def moduleAddr_def)

section \<open>Distribution of a payment\<close>

lemma NewCoins_Inr [run_simps]: "NewCoins E d a s = (Inr cs, t) \<longleftrightarrow> 0 \<le> a \<and> ValidDenom E d \<and> cs = coins1 d a \<and> t = s"
  by (auto simp: NewCoins_def run_simps)

lemma RecordSettlement_apps: "RecordSettlement E i p w s = (r, t) \<Longrightarrow> \<exists>a. t = s\<lparr>apps := a\<rparr>"
  by (auto simp: RecordSettlement_def bindM_def gets_def modify_def ret_def Let_def split: if_splits prod.splits)
    (metis chain.surjective chain.update_convs(5))

lemma addTotals_Inr: "addTotals d x y s = (Inr u, t) \<Longrightarrow> \<exists>m. t = s\<lparr>settle := (settle s)\<lparr>Totals := m\<rparr>\<rparr>"
  by (auto simp: addTotals_def run_simps)

text \<open>The parts of the fee of a request.\<close>

definition rq_fee :: "settle_params \<Rightarrow> fee_asset \<Rightarrow> pay_request \<Rightarrow> int" where
  "rq_fee params asset req = ComputeFee (coin_Amount (rq_Amount req)) asset (sp_FeeBps params)"

definition rq_refers :: "'x env \<Rightarrow> pay_request \<Rightarrow> bool" where
  "rq_refers E req \<longleftrightarrow> rq_Referrer req \<noteq> [] \<and> validRecipient E (rq_Referrer req) \<and> rq_Referrer req \<noteq> rq_Payer req"

definition rq_split :: "'x env \<Rightarrow> settle_params \<Rightarrow> fee_asset \<Rightarrow> pay_request \<Rightarrow> split_result" where
  "rq_split E params asset req =
     ComputeSplit (rq_fee params asset req) (sp_Split params) (rq_App req \<noteq> None) (rq_refers E req)
       (case rq_App req of None \<Rightarrow> 0 | Some a \<Rightarrow> app_ReferrerBps a)"

definition rq_AppID :: "pay_request \<Rightarrow> u64" where
  "rq_AppID req = (case rq_App req of None \<Rightarrow> 0 | Some a \<Rightarrow> app_AppId a)"

definition sends :: "'x env \<Rightarrow> addr \<Rightarrow> denom \<Rightarrow> int \<Rightarrow> 'x \<Rightarrow> 'x \<Rightarrow> bool" where
  "sends E to d n x x' \<longleftrightarrow> (if 0 < n then BankM2A E settle_module to (coins1 d n) x = Inr x' else x' = x)"

lemma when_send:
  "whenM (0 < n) (bindM (NewCoins E d n) (\<lambda>cs. SendCoinsFromModuleToAccount E settle_module to cs)) s = (Inr u, t) \<Longrightarrow>
   \<exists>x. sends E to d n (ext s) x \<and> t = s\<lparr>ext := x\<rparr>"
  by (auto simp: sends_def run_simps split: if_splits)

lemma distribute_Inr:
  assumes "distribute E params asset req s = (Inr res, t)"
  defines "d \<equiv> coin_Denom (rq_Amount req)" and "amount \<equiv> coin_Amount (rq_Amount req)"
    and "fee \<equiv> rq_fee params asset req" and "spl \<equiv> rq_split E params asset req"
  obtains x1 x2 s3 s4 s5 s6 tots a evs where
    "sends E (rq_Payee req) d (amount - fee) (ext s) x1" "sends E (rq_Referrer req) d (sr_Referrer spl) x1 x2"
    "addClaimable (rq_AppID req) d (sr_App spl) (s\<lparr>ext := x2\<rparr>) = (Inr (), s3)"
    "addPool PoolValidator d (sr_Validator spl) s3 = (Inr (), s4)" "addPool PoolRelayer d (sr_Relayer spl) s4 = (Inr (), s5)"
    "addPool PoolTreasury d (sr_Treasury spl) s5 = (Inr (), s6)"
    "t = s6\<lparr>settle := (settle s6)\<lparr>Totals := tots\<rparr>, apps := a, events := evs\<rparr>"
    "res = \<lparr>res_Fee = fee, res_Net = amount - fee, res_Split = spl, res_AppID = rq_AppID req\<rparr>"
proof -
  note r = assms(1) [unfolded distribute_def Let_def, folded rq_fee_def rq_refers_def rq_AppID_def,
      folded rq_split_def, folded d_def amount_def, folded fee_def spl_def]
  from r obtain s1 where 1: "whenM (0 < amount - fee) (bindM (NewCoins E d (amount - fee))
        (\<lambda>cs. SendCoinsFromModuleToAccount E settle_module (rq_Payee req) cs)) s = (Inr (), s1)"
    and r1: "\<exists>s2 s3 s4 s5 s6 s7 s8 s9. whenM (0 < sr_Referrer spl) (bindM (NewCoins E d (sr_Referrer spl))
        (\<lambda>cs. SendCoinsFromModuleToAccount E settle_module (rq_Referrer req) cs)) s1 = (Inr (), s2) \<and>
      addClaimable (rq_AppID req) d (sr_App spl) s2 = (Inr (), s3) \<and>
      addPool PoolValidator d (sr_Validator spl) s3 = (Inr (), s4) \<and>
      addPool PoolRelayer d (sr_Relayer spl) s4 = (Inr (), s5) \<and>
      addPool PoolTreasury d (sr_Treasury spl) s5 = (Inr (), s6) \<and>
      addTotals d amount fee s6 = (Inr (), s7) \<and>
      whenM (rq_App req \<noteq> None) (bindM (need (fa_QuotaWeight asset) EPanic)
        (\<lambda>qw. RecordSettlement E (rq_AppID req) (rq_Payer req) (fee * qw))) s7 = (Inr (), s8) \<and>
      emit s9 s8 = (Inr (), t) \<and>
      res = \<lparr>res_Fee = fee, res_Net = amount - fee, res_Split = spl, res_AppID = rq_AppID req\<rparr>"
    by (simp only: seqM_Inr check_Inr ret_run) blast
  from r1 obtain s2 s3 s4 s5 s6 s7 s8 ev where
    2: "whenM (0 < sr_Referrer spl) (bindM (NewCoins E d (sr_Referrer spl))
        (\<lambda>cs. SendCoinsFromModuleToAccount E settle_module (rq_Referrer req) cs)) s1 = (Inr (), s2)"
    and 3: "addClaimable (rq_AppID req) d (sr_App spl) s2 = (Inr (), s3)"
    and 4: "addPool PoolValidator d (sr_Validator spl) s3 = (Inr (), s4)" "addPool PoolRelayer d (sr_Relayer spl) s4 = (Inr (), s5)"
      "addPool PoolTreasury d (sr_Treasury spl) s5 = (Inr (), s6)"
    and 5: "addTotals d amount fee s6 = (Inr (), s7)"
    and 6: "whenM (rq_App req \<noteq> None) (bindM (need (fa_QuotaWeight asset) EPanic)
        (\<lambda>qw. RecordSettlement E (rq_AppID req) (rq_Payer req) (fee * qw))) s7 = (Inr (), s8)"
    and 7: "emit ev s8 = (Inr (), t)"
    and res: "res = \<lparr>res_Fee = fee, res_Net = amount - fee, res_Split = spl, res_AppID = rq_AppID req\<rparr>"
    by blast
  obtain x1 where x1: "sends E (rq_Payee req) d (amount - fee) (ext s) x1" "s1 = s\<lparr>ext := x1\<rparr>"
    using when_send [OF 1] by blast
  obtain x2 where x2: "sends E (rq_Referrer req) d (sr_Referrer spl) x1 x2" "s2 = s\<lparr>ext := x2\<rparr>"
    using when_send [OF 2] by (auto simp: x1(2))
  obtain m where m: "s7 = s6\<lparr>settle := (settle s6)\<lparr>Totals := m\<rparr>\<rparr>" using addTotals_Inr [OF 5] by blast
  have "\<exists>a. s8 = s7\<lparr>apps := a\<rparr>"
    using 6 by (auto simp: run_simps split: if_splits dest: RecordSettlement_apps intro: exI [of _ "apps s7"])
  then obtain a where a: "s8 = s7\<lparr>apps := a\<rparr>" by blast
  have "t = s6\<lparr>settle := (settle s6)\<lparr>Totals := m\<rparr>, apps := a, events := events s8 @ [ev]\<rparr>"
    using 7 by (simp add: a m)
  from that [OF x1(1) x2(1) 3 [unfolded x2(2)] 4 this res] show ?thesis .
qed

lemma split_Referrer_nonneg: "0 \<le> fee \<Longrightarrow> 0 \<le> sr_Referrer (ComputeSplit fee spl a r b)"
  by (simp add: ComputeSplit_def Let_def)

lemma rq_fee_bounds: "0 \<le> coin_Amount (rq_Amount req) \<Longrightarrow>
    0 \<le> rq_fee params asset req \<and> rq_fee params asset req \<le> coin_Amount (rq_Amount req)"
  by (simp add: rq_fee_def fee_nonneg fee_le_amount)

lemma rq_split_sum:
  "sr_App (rq_split E p a req) + sr_Referrer (rq_split E p a req) + sr_Validator (rq_split E p a req) +
     sr_Relayer (rq_split E p a req) + sr_Treasury (rq_split E p a req) = rq_fee p a req"
  using split_sum by (simp add: rq_split_def split_Total_def)

lemma sends_books:
  assumes "bank_laws E" "sends E to d n (ext s) x"
  shows "books E s (s\<lparr>ext := x\<rparr>) (at d (max 0 n))"
proof (cases "0 < n")
  case True
  with assms have "books E s (s\<lparr>ext := x\<rparr>) (AmountOf (coins1 d n))"
    by (intro books_send [of E _ to s x]) (auto simp: sends_def)
  with True show ?thesis by (simp add: at_def books_def)
next
  case False
  with assms have "s\<lparr>ext := x\<rparr> = s" by (simp add: sends_def)
  with False show ?thesis by (simp add: at_def books_def)
qed

lemma distribute_books:
  assumes laws: "bank_laws E" and pos: "0 \<le> coin_Amount (rq_Amount req)"
    and run: "distribute E params asset req s = (Inr res, t)"
  shows "books E s t (at (coin_Denom (rq_Amount req)) (coin_Amount (rq_Amount req)))"
proof -
  let ?d = "coin_Denom (rq_Amount req)" and ?n = "coin_Amount (rq_Amount req)"
  let ?fee = "rq_fee params asset req" and ?p = "rq_split E params asset req"
  from run obtain x1 x2 s3 s4 s5 s6 tots a evs where
    1: "sends E (rq_Payee req) ?d (?n - ?fee) (ext s) x1" "sends E (rq_Referrer req) ?d (sr_Referrer ?p) x1 x2"
    and 2: "addClaimable (rq_AppID req) ?d (sr_App ?p) (s\<lparr>ext := x2\<rparr>) = (Inr (), s3)"
    "addPool PoolValidator ?d (sr_Validator ?p) s3 = (Inr (), s4)" "addPool PoolRelayer ?d (sr_Relayer ?p) s4 = (Inr (), s5)"
    "addPool PoolTreasury ?d (sr_Treasury ?p) s5 = (Inr (), s6)"
    and t: "t = s6\<lparr>settle := (settle s6)\<lparr>Totals := tots\<rparr>, apps := a, events := evs\<rparr>"
    by (rule distribute_Inr)
  have b1: "books E s (s\<lparr>ext := x1\<rparr>) (at ?d (max 0 (?n - ?fee)))" using sends_books [OF laws 1(1)] .
  have b2: "books E (s\<lparr>ext := x1\<rparr>) (s\<lparr>ext := x2\<rparr>) (at ?d (max 0 (sr_Referrer ?p)))"
    using sends_books [OF laws, of "rq_Referrer req" ?d "sr_Referrer ?p" "s\<lparr>ext := x1\<rparr>" x2] 1(2) by simp
  note b3 = addClaimable_Inr(1) [OF 2(1), of E]
  note b4 = addPool_Inr(1) [OF 2(2), of E] addPool_Inr(1) [OF 2(3), of E] addPool_Inr(1) [OF 2(4), of E]
  have b5: "books E s6 t (\<lambda>d. 0)" by (rule books_same) (simp_all add: t)
  note b = books_trans [OF books_trans [OF books_trans [OF books_trans [OF books_trans [OF books_trans
    [OF b1 b2] b3] b4(1)] b4(2)] b4(3)] b5]
  have "0 \<le> sr_Referrer ?p" using rq_fee_bounds [OF pos] by (simp add: rq_split_def split_Referrer_nonneg)
  then show ?thesis
    using rq_fee_bounds [OF pos, of params asset] rq_split_sum [of E params asset req]
    by (intro books_weaken [OF b]) (simp add: at_def)
qed

lemma mintCredits_Inr:
  assumes "mintCredits E to n s = (Inr c, t)"
  obtains x y where "0 \<le> n" "BankMint E settle_module (coins1 (creditDenom E) n) (ext s) = Inr x"
    "BankM2A E settle_module to (coins1 (creditDenom E) n) x = Inr y"
    "t = s\<lparr>ext := y, settle := (settle s)\<lparr>CreditsMinted := Some ((case CreditsMinted (settle s) of None \<Rightarrow> 0 | Some m \<Rightarrow> m) + n)\<rparr>\<rparr>"
    "c = \<lparr>coin_Denom = creditDenom E, coin_Amount = n\<rparr>"
  using assms by (auto simp: mintCredits_def run_simps)

end
