(* ===== verification/SettleTabs.thy ===== *)
theory SettleTabs
  imports SettleBooks
begin

text \<open>
  Tabs: their keys name one app, payer, payee and denom each, and depositing, settling and closing
  keep the accounts.
\<close>

section \<open>Decimal texts\<close>

definition undigit :: "char \<Rightarrow> nat" where
  "undigit c = of_char c - 48"

definition undecimal :: "string \<Rightarrow> nat" where
  "undecimal s = foldl (\<lambda>n c. 10 * n + undigit c) 0 s"

lemma digit_cases: "n < 10 \<Longrightarrow> n = 0 \<or> n = 1 \<or> n = 2 \<or> n = 3 \<or> n = 4 \<or> n = 5 \<or> n = 6 \<or> n = 7 \<or> n = 8 \<or> n = (9::nat)"
  by auto

lemma undigit_hex: "n < 10 \<Longrightarrow> undigit (hex_digit n) = n \<and> hex_digit n \<noteq> CHR ''|''"
  using digit_cases [of n] by (auto simp: hex_digit_def undigit_def)

lemma undecimal_decimal: "undecimal (decimal n) = n"
proof (induction n rule: decimal.induct)
  case (1 n)
  then show ?case
    by (subst decimal.simps) (auto simp: undecimal_def undigit_hex)
qed

lemma decimal_no_bar: "CHR ''|'' \<notin> set (decimal n)"
proof (induction n rule: decimal.induct)
  case (1 n)
  then show ?case using undigit_hex [of n] undigit_hex [of "n mod 10"]
    by (subst decimal.simps) auto
qed

lemma decimal_eq: "decimal m = decimal n \<longleftrightarrow> m = n"
  by (metis undecimal_decimal)

lemma split_at_bar:
  "CHR ''|'' \<notin> set a \<Longrightarrow> CHR ''|'' \<notin> set b \<Longrightarrow> a @ CHR ''|'' # x = b @ CHR ''|'' # y \<longleftrightarrow> a = b \<and> x = y"
proof (induction a arbitrary: b)
  case Nil
  then show ?case by (cases b) auto
next
  case (Cons c a)
  then show ?case by (cases b) auto
qed

lemma TabKey_eq:
  assumes "text_laws E" "is_account E p" "is_account E q" "is_account E p'" "is_account E q'"
  shows "TabKey E i p q d = TabKey E i' p' q' d' \<longleftrightarrow> i = i' \<and> p = p' \<and> q = q' \<and> d = d'"
proof -
  have "TabKey E i p q d = TabKey E i' p' q' d' \<longleftrightarrow>
      decimal (unat i) = decimal (unat i') \<and> AccString E p = AccString E p' \<and> AccString E q = AccString E q' \<and> d = d'"
    using assms by (simp add: TabKey_def split_at_bar decimal_no_bar account_text)
  with assms show ?thesis by (simp add: decimal_eq account_eq word_unat_eq_iff)
qed

section \<open>The store of tabs\<close>

definition tab_ok :: "'x env \<Rightarrow> string \<Rightarrow> tab \<Rightarrow> bool" where
  "tab_ok E k t \<longleftrightarrow>
     0 < tab_Amount t \<and>
     (\<exists>p q. AccFromBech32 E (tab_Payer t) = Some p \<and> AccFromBech32 E (tab_Payee t) = Some q \<and>
        k = TabKey E (tab_AppId t) p q (tab_Denom t))"

definition tabs_ok :: "'x env \<Rightarrow> 'x chain \<Rightarrow> bool" where
  "tabs_ok E s \<longleftrightarrow> (\<forall>k t. fmlookup (Tabs (settle s)) k = Some t \<longrightarrow> tab_ok E k t)"

lemma tabs_okD:
  assumes "text_laws E" "tabs_ok E s" "fmlookup (Tabs (settle s)) (TabKey E i p q d) = Some t"
    "is_account E p" "is_account E q"
  shows "0 < tab_Amount t" "tab_AppId t = i" "tab_Denom t = d"
    "AccFromBech32 E (tab_Payer t) = Some p" "AccFromBech32 E (tab_Payee t) = Some q"
proof -
  from assms(2,3) have "tab_ok E (TabKey E i p q d) t" by (simp add: tabs_ok_def)
  then obtain p' q' where a: "0 < tab_Amount t" "AccFromBech32 E (tab_Payer t) = Some p'" "AccFromBech32 E (tab_Payee t) = Some q'"
    "TabKey E i p q d = TabKey E (tab_AppId t) p' q' (tab_Denom t)" by (auto simp: tab_ok_def)
  have b: "is_account E p'" "is_account E q'" using a parsed_account [OF assms(1)] by blast+
  from a(4) [unfolded TabKey_eq [OF assms(1) assms(4,5) b]] a(1-3)
  show "0 < tab_Amount t" "tab_AppId t = i" "tab_Denom t = d"
    "AccFromBech32 E (tab_Payer t) = Some p" "AccFromBech32 E (tab_Payee t) = Some q" by simp_all
qed

section \<open>Settling\<close>

definition tabs_at :: "'x chain \<Rightarrow> string \<Rightarrow> denom \<Rightarrow> int" where
  "tabs_at s key d = kv_at (tab_in d) (Tabs (settle s)) key"

text \<open>The state after the tab is removed and its amount taken off the ledger.\<close>

definition tab_released :: "string \<Rightarrow> tab \<Rightarrow> 'x chain \<Rightarrow> 'x chain" where
  "tab_released key t s =
     s\<lparr>settle := (settle s)\<lparr>Tabs := fmdrop key (Tabs (settle s)),
        LedgerTotal := setInt (LedgerTotal (settle s)) (tab_Denom t) (owed s (tab_Denom t) - tab_Amount t)\<rparr>\<rparr>"

lemma released_books:
  "gap (tab_released key t s) d = gap s d + tabs_at s key d - at (tab_Denom t) (tab_Amount t) d"
  "slack E (tab_released key t s) d = slack E s d + at (tab_Denom t) (tab_Amount t) d"
  by (simp_all add: tab_released_def gap_def slack_def owed_def recount kv_sum_drop tabs_at_def at_def)

definition tab_app :: "'x chain \<Rightarrow> tab \<Rightarrow> app option \<Rightarrow> app option" where
  "tab_app s t app0 =
     (if app0 = None \<and> tab_AppId t \<noteq> NoApp
      then (case find_app s (tab_AppId t) of
              None \<Rightarrow> None | Some a \<Rightarrow> if app_Status a = APP_STATUS_ACTIVE then Some a else None)
      else app0)"

definition tab_request :: "tab \<Rightarrow> addr \<Rightarrow> addr \<Rightarrow> app option \<Rightarrow> pay_request" where
  "tab_request t payer payee a =
     \<lparr>rq_Payer = payer, rq_Payee = payee, rq_Amount = \<lparr>coin_Denom = tab_Denom t, coin_Amount = tab_Amount t\<rparr>,
      rq_App = a, rq_Referrer = [], rq_FundsInModule = True\<rparr>"

lemma settleTab_Inr:
  assumes "settleTab E key t app0 s = (Inr res, u)"
  obtains payer payee where
    "AccFromBech32 E (tab_Payer t) = Some payer" "AccFromBech32 E (tab_Payee t) = Some payee"
    "0 \<le> tab_Amount t" "0 \<le> owed s (tab_Denom t) - tab_Amount t"
    "(case Asset (settle_GetParams s) (tab_Denom t) of
        None \<Rightarrow> res = no_result \<and> (\<exists>x. BankM2A E settle_module payer (coins1 (tab_Denom t) (tab_Amount t)) (ext s) = Inr x \<and>
                  u = (tab_released key t s)\<lparr>ext := x\<rparr>)
      | Some asset \<Rightarrow> \<exists>v ev. distribute E (settle_GetParams s) asset (tab_request t payer payee (tab_app s t app0))
           (tab_released key t s) = (Inr res, v) \<and> u = v\<lparr>events := ev\<rparr>)"
proof -
  have p: "settle_GetParams (tab_released key t s) = settle_GetParams s" "find_app (tab_released key t s) = find_app s"
    by (simp_all add: settle_GetParams_def tab_released_def find_app_def fun_eq_iff)
  have o: "owed (s\<lparr>settle := (settle s)\<lparr>Tabs := fmdrop key (Tabs (settle s))\<rparr>\<rparr>) d = owed s d" for d
    by (simp add: owed_def)
  from assms obtain payer payee where a: "AccFromBech32 E (tab_Payer t) = Some payer" "AccFromBech32 E (tab_Payee t) = Some payee"
    and l: "0 \<le> owed s (tab_Denom t) - tab_Amount t"
    and r: "(case Asset (settle_GetParams s) (tab_Denom t) of
        None \<Rightarrow> bindM (NewCoins E (tab_Denom t) (tab_Amount t)) (\<lambda>cs.
          seqM (SendCoinsFromModuleToAccount E settle_module payer cs) (ret no_result))
      | Some asset \<Rightarrow>
          bindM (gets (\<lambda>s. tab_app s t app0)) (\<lambda>a.
          seqM (check (0 \<le> tab_Amount t \<and> ValidDenom E (tab_Denom t)) EPanic)
          (bindM (distribute E (settle_GetParams s) asset (tab_request t payer payee a)) (\<lambda>res.
           seqM (emit (EvTabClosed (tab_AppId t) (tab_Payer t) (tab_Payee t) (tab_Denom t) (tab_Amount t) (tab_Entries t)))
           (ret res))))) (tab_released key t s) = (Inr res, u)"
  proof -
    from assms obtain v where l: "ledger (tab_Denom t) (- tab_Amount t) (s\<lparr>settle := (settle s)\<lparr>Tabs := fmdrop key (Tabs (settle s))\<rparr>\<rparr>) = (Inr (), v)"
      and r: "\<exists>payer payee. AccFromBech32 E (tab_Payer t) = Some payer \<and> AccFromBech32 E (tab_Payee t) = Some payee \<and>
        (case Asset (settle_GetParams v) (tab_Denom t) of
        None \<Rightarrow> bindM (NewCoins E (tab_Denom t) (tab_Amount t)) (\<lambda>cs.
          seqM (SendCoinsFromModuleToAccount E settle_module payer cs) (ret no_result))
      | Some asset \<Rightarrow>
          bindM (gets (\<lambda>s. tab_app s t app0)) (\<lambda>a.
          seqM (check (0 \<le> tab_Amount t \<and> ValidDenom E (tab_Denom t)) EPanic)
          (bindM (distribute E (settle_GetParams v) asset (tab_request t payer payee a)) (\<lambda>res.
           seqM (emit (EvTabClosed (tab_AppId t) (tab_Payer t) (tab_Payee t) (tab_Denom t) (tab_Amount t) (tab_Entries t)))
           (ret res))))) v = (Inr res, u)"
      unfolding settleTab_def tab_app_def [symmetric] tab_request_def [symmetric]
      by (auto simp only: seqM_Inr bindM_Inr modify_run need_Inr gets_run)
    from l have v: "v = tab_released key t s" "0 \<le> owed s (tab_Denom t) - tab_Amount t"
      by (auto simp: ledger_Inr o tab_released_def)
    from r [unfolded v(1) p(1)] show thesis using that v(2) by blast
  qed
  have f: "tab_app (tab_released key t s) t app0 = tab_app s t app0" by (simp add: tab_app_def p)
  show ?thesis
  proof (rule that [OF a _ l])
    show "0 \<le> tab_Amount t" using r by (auto simp: run_simps split: option.splits)
    show "case Asset (settle_GetParams s) (tab_Denom t) of
        None \<Rightarrow> res = no_result \<and> (\<exists>x. BankM2A E settle_module payer (coins1 (tab_Denom t) (tab_Amount t)) (ext s) = Inr x \<and>
                  u = (tab_released key t s)\<lparr>ext := x\<rparr>)
      | Some asset \<Rightarrow> \<exists>v ev. distribute E (settle_GetParams s) asset (tab_request t payer payee (tab_app s t app0))
           (tab_released key t s) = (Inr res, v) \<and> u = v\<lparr>events := ev\<rparr>"
      using r by (auto simp: run_simps f split: option.splits) (simp_all add: tab_released_def)
  qed
qed

lemma settleTab_books:
  assumes "bank_laws E" "settleTab E key t app0 s = (Inr res, u)"
  shows "gap u d = gap s d + tabs_at s key d - at (tab_Denom t) (tab_Amount t) d" "slack E s d \<le> slack E u d"
proof -
  let ?r = "tab_released key t s" and ?c = "at (tab_Denom t) (tab_Amount t)"
  have "books E ?r u ?c"
    using assms(2)
  proof (rule settleTab_Inr)
    fix payer payee
    assume n: "0 \<le> tab_Amount t"
      and c: "case Asset (settle_GetParams s) (tab_Denom t) of
        None \<Rightarrow> res = no_result \<and> (\<exists>x. BankM2A E settle_module payer (coins1 (tab_Denom t) (tab_Amount t)) (ext s) = Inr x \<and> u = ?r\<lparr>ext := x\<rparr>)
      | Some asset \<Rightarrow> \<exists>v ev. distribute E (settle_GetParams s) asset (tab_request t payer payee (tab_app s t app0)) ?r = (Inr res, v) \<and> u = v\<lparr>events := ev\<rparr>"
    show "books E ?r u ?c"
    proof (cases "Asset (settle_GetParams s) (tab_Denom t)")
      case None
      with c obtain x where x: "BankM2A E settle_module payer (coins1 (tab_Denom t) (tab_Amount t)) (ext s) = Inr x" "u = ?r\<lparr>ext := x\<rparr>"
        by auto
      from x(1) have "BankM2A E settle_module payer (coins1 (tab_Denom t) (tab_Amount t)) (ext ?r) = Inr x"
        by (simp add: tab_released_def)
      from books_send [OF assms(1) _ this] n have "books E ?r u (AmountOf (coins1 (tab_Denom t) (tab_Amount t)))"
        by (simp add: x(2))
      then show ?thesis by (simp add: at_def books_def)
    next
      case (Some asset)
      with c obtain v ev where v: "distribute E (settle_GetParams s) asset (tab_request t payer payee (tab_app s t app0)) ?r = (Inr res, v)"
        "u = v\<lparr>events := ev\<rparr>" by auto
      from distribute_books [OF assms(1) _ v(1)] n have b: "books E ?r v ?c" by (simp add: tab_request_def)
      have "books E v u (\<lambda>d. 0)" by (rule books_same) (simp_all add: v(2))
      with b have "books E ?r u (\<lambda>d. ?c d + 0)" by (rule books_trans)
      then show ?thesis by simp
    qed
  qed
  then show "gap u d = gap s d + tabs_at s key d - at (tab_Denom t) (tab_Amount t) d" "slack E s d \<le> slack E u d"
    unfolding books_def released_books by force+
qed

end
