(* ===== verification/SettleInvariant.thy ===== *)
theory SettleInvariant
  imports SettleTabs
begin

text \<open>
  Invariants of \<open>x/settle\<close>, proved once. The locale names what an invariant must survive - the
  bank transfers of the module and its own bookkeeping steps - and derives that every operation
  keeps it. It is interpreted for the well-formedness of the stores, for the bound on the supply of
  gas credits, and for the parts of the state that the module never touches.
\<close>

section \<open>The interface\<close>

text \<open>
  \<open>may_pull\<close> tells from which accounts the invariant survives a transfer into the module: all of
  them for a property of the module, all but one for a claim about that one's balance.
\<close>

locale settle_debits =
  fixes E :: "'x env" and I :: "'x chain \<Rightarrow> bool" and may_pull :: "addr \<Rightarrow> bool"
  assumes pull: "may_pull a \<Longrightarrow> I s \<Longrightarrow> BankA2M E a settle_module cs (ext s) = Inr x \<Longrightarrow> I (s\<lparr>ext := x\<rparr>)"
    and send: "I s \<Longrightarrow> BankM2A E settle_module a cs (ext s) = Inr x \<Longrightarrow> I (s\<lparr>ext := x\<rparr>)"
    and logged: "I s \<Longrightarrow> I (s\<lparr>events := evs\<rparr>)"
    and recorded: "I s \<Longrightarrow> RecordSettlement E i p w s = (Inr u, t) \<Longrightarrow> I t"
    and booked: "keepsR I (ledger d n)" "keepsR I (addPool pool d n)" "keepsR I (addClaimable i d n)"
      "keepsR I (addInt RelayerPaid RelayerPaid_update d n)"
    and counted: "keepsR I (addTotals d n f)"
    and dropped: "I s \<Longrightarrow> I (s\<lparr>settle := (settle s)\<lparr>Tabs := fmdrop k (Tabs (settle s))\<rparr>\<rparr>)"
    and minted: "keepsR I (mintCredits E a n)"
    and interval: "I s \<Longrightarrow> I (s\<lparr>settle := (settle s)\<lparr>LastPayout := l\<rparr>\<rparr>)"
      "I s \<Longrightarrow> I (s\<lparr>settle := (settle s)\<lparr>RelayerPaid := fmempty\<rparr>\<rparr>)"
    and params: "I s \<Longrightarrow> settle_params_Validate E pr \<Longrightarrow> I (s\<lparr>settle := (settle s)\<lparr>s_Params := Some pr\<rparr>\<rparr>)"
begin

lemma debit_pull: "may_pull a \<Longrightarrow> keepsR I (SendCoinsFromAccountToModule E a settle_module cs)"
  by (rule keepsR_callx) (rule pull)

lemma keepsR_send: "keepsR I (SendCoinsFromModuleToAccount E settle_module a cs)"
  by (rule keepsR_callx) (rule send)

lemma keepsR_emit: "keepsR I (emit e)"
  by (rule keepsRI) (auto intro: logged)

lemma keepsR_NewCoins: "keepsR I (NewCoins E d n)"
  by (simp add: NewCoins_def keepsR_intros)

lemma keepsR_record: "keepsR I (RecordSettlement E i p w)"
  by (rule keepsRI) (rule recorded)

lemmas steps = keepsR_intros keepsR_send keepsR_emit keepsR_NewCoins keepsR_record booked counted minted

lemma keepsR_distribute: "keepsR I (distribute E ps asset req)"
  unfolding distribute_def Let_def by (intro steps)

lemma keepsR_checkAsset: "keepsR I (checkAsset ps d)"
  unfolding checkAsset_def by (intro steps)

lemma keepsR_GetApp: "keepsR I (GetApp i)"
  unfolding GetApp_def by (intro steps)

lemma debit_Pay: "(\<not> rq_FundsInModule req \<Longrightarrow> may_pull (rq_Payer req)) \<Longrightarrow> keepsR I (Pay E req)"
  unfolding Pay_def by (intro steps debit_pull keepsR_distribute keepsR_checkAsset)

lemma keepsR_drop: "keepsR I (on_settle (\<lambda>c. c\<lparr>Tabs := fmdrop k (Tabs c)\<rparr>))"
  by (rule keepsR_modify) (rule dropped)

lemma keepsR_settleTab: "keepsR I (settleTab E key t a)"
  unfolding settleTab_def by (intro steps keepsR_distribute keepsR_drop)

lemma keepsR_CloseTab: "keepsR I (CloseTab E sn i p q d)"
  unfolding CloseTab_def Let_def by (intro steps keepsR_settleTab)

lemma keepsR_ClaimRevenue: "keepsR I (ClaimRevenue E i ds)"
  unfolding ClaimRevenue_def claim_denom_def by (intro steps keepsR_GetApp keepsR_bech32)

lemma keepsR_QuoteCredits: "keepsR I (QuoteCredits d n)"
  unfolding QuoteCredits_def by (intro steps)

lemma debit_BuyCredits: "may_pull a \<Longrightarrow> keepsR I (BuyCredits E a b c)"
  unfolding BuyCredits_def Let_def by (intro steps debit_pull keepsR_QuoteCredits)

end

locale settle_debits_tabs = settle_debits +
  assumes stored: "I s \<Longrightarrow> I (s\<lparr>settle := (settle s)\<lparr>Tabs := m\<rparr>\<rparr>)"
begin

lemma debit_TabDeposit: "(b \<Longrightarrow> may_pull p) \<Longrightarrow> keepsR I (TabDeposit E a p q c b)"
  unfolding TabDeposit_def Let_def
  by (intro steps debit_pull keepsR_checkAsset keepsR_settleTab keepsR_modify; (assumption | rule stored))

end

text \<open>An invariant that no transfer into the module endangers survives every message.\<close>

locale settle_invariant = settle_debits E I "\<lambda>_. True" for E :: "'x env" and I :: "'x chain \<Rightarrow> bool" +
  assumes allowed: "keepsR I (ApproveApp E a i d n)" "keepsR I (SpendAllowance E a i d n)"
begin

lemmas keepsR_Pay = debit_Pay [OF TrueI]

lemmas keepsR_BuyCredits = debit_BuyCredits [OF TrueI]

lemma keepsR_WithdrawTreasury: "keepsR I (WithdrawTreasury E sg a cs)"
  unfolding WithdrawTreasury_def by (intro steps)

lemma keepsR_DisburseRelayerPool: "keepsR I (DisburseRelayerPool E sg a c b)"
  unfolding DisburseRelayerPool_def relayer_cap_def Let_def by (intro steps keepsR_QuoteCredits)

lemma keepsR_PayoutValidators: "keepsR I (PayoutValidators E)"
  unfolding PayoutValidators_def payout_pool_def payout_share_def Let_def
  by (intro steps keepsR_modify interval)

lemma keepsR_UpdateParams: "keepsR I (msg_settle_UpdateParams E a p)"
  by (rule keepsRI) (auto simp: msg_settle_UpdateParams_def run_simps intro: params)

lemma keepsR_settle_run: "keepsR I (settle_run E m)"
  by (cases m)
    (auto simp: msg_Pay_def msg_BuyCredits_def msg_CloseTab_def msg_WithdrawTreasury_def msg_DisburseRelayerPool_def
      intro!: steps keepsR_bech32 keepsR_Pay keepsR_ClaimRevenue keepsR_BuyCredits keepsR_CloseTab
      keepsR_WithdrawTreasury keepsR_DisburseRelayerPool keepsR_UpdateParams)

lemma keeps_settle_handle: "I s \<Longrightarrow> settle_handle E m s = (r, t) \<Longrightarrow> I t"
  unfolding settle_handle_def by (rule keepsD [OF atomic_keeps [OF keepsR_settle_run]])

end

locale settle_invariant_tabs = settle_invariant E I + settle_debits_tabs E I "\<lambda>_. True"
  for E :: "'x env" and I :: "'x chain \<Rightarrow> bool"
begin

lemmas keepsR_TabDeposit = debit_TabDeposit [OF TrueI]

end

section \<open>Well-formed stores\<close>

definition positive :: "('k, int) fmap \<Rightarrow> bool" where
  "positive m \<longleftrightarrow> (\<forall>k v. fmlookup m k = Some v \<longrightarrow> 0 < v)"

definition amounts_ok :: "'x env \<Rightarrow> settle_store \<Rightarrow> bool" where
  "amounts_ok E c \<longleftrightarrow>
     positive (Claimables c) \<and> positive (Pools c) \<and> positive (LedgerTotal c) \<and> positive (RelayerPaid c) \<and>
     positive (Allowances c) \<and> (\<forall>d t. fmlookup (Totals c) d = Some t \<longrightarrow> tot_Denom t = d) \<and>
     (\<forall>k t. fmlookup (Tabs c) k = Some t \<longrightarrow> tab_ok E k t)"

abbreviation books_ok :: "'x env \<Rightarrow> 'x chain \<Rightarrow> bool" where
  "books_ok E s \<equiv> amounts_ok E (settle s)"

lemma positive_setInt: "positive m \<Longrightarrow> 0 \<le> n \<Longrightarrow> positive (setInt m k n)"
  by (auto simp: positive_def setInt_def split: if_splits)

lemma positive_upd: "positive m \<Longrightarrow> 0 < n \<Longrightarrow> positive (fmupd k n m)"
  by (auto simp: positive_def)

lemma positive_drop: "positive m \<Longrightarrow> positive (fmdrop k m)"
  by (auto simp: positive_def fmlookup_drop)

lemma positive_empty [simp]: "positive fmempty"
  by (simp add: positive_def)

lemma getInt_nonneg: "positive m \<Longrightarrow> 0 \<le> getInt m k"
  by (auto simp: positive_def getInt_def split: option.splits intro: less_imp_le)

lemma ok_ledger: "keepsR (books_ok E) (ledger d n)"
  by (rule keepsRI) (auto simp: ledger_Inr amounts_ok_def positive_setInt)

lemma ok_addInt:
  "keepsR (books_ok E) (addInt Pools Pools_update k1 n)" "keepsR (books_ok E) (addInt Claimables Claimables_update k2 n)"
  "keepsR (books_ok E) (addInt RelayerPaid RelayerPaid_update d n)"
  by (rule keepsRI, auto simp: addInt_Inr amounts_ok_def positive_setInt)+

interpretation stores: settle_invariant E "books_ok E" for E :: "'x env"
proof unfold_locales
  fix s t :: "'x chain" and i p w u assume "books_ok E s" "RecordSettlement E i p w s = (Inr u, t)"
  then show "books_ok E t" by (auto dest: RecordSettlement_apps)
next
  show "keepsR (books_ok E) (addPool pool d n)" "keepsR (books_ok E) (addClaimable i d n)" for pool d n i
    by (auto simp: addPool_def addClaimable_def intro!: keepsR_intros ok_ledger ok_addInt)
  show "keepsR (books_ok E) (ledger d n)" "keepsR (books_ok E) (addInt RelayerPaid RelayerPaid_update d n)" for d n
    by (rule ok_ledger, rule ok_addInt)
next
  show "keepsR (books_ok E) (mintCredits E a n)" for a n
    by (rule keepsRI, erule mintCredits_Inr) (simp add: amounts_ok_def)
next
  show "keepsR (books_ok E) (ApproveApp E a i d n)" for a i d n
    by (rule keepsRI) (auto simp: ApproveApp_def GetApp_def run_simps Let_def amounts_ok_def positive_upd positive_drop split: if_splits)
  show "keepsR (books_ok E) (SpendAllowance E a i d n)" for a i d n
    by (rule keepsRI) (auto simp: SpendAllowance_def run_simps Let_def amounts_ok_def positive_upd positive_drop split: if_splits)
next
  show "keepsR (books_ok E) (addTotals d n f)" for d n f
    by (rule keepsRI) (auto simp: addTotals_def run_simps amounts_ok_def split: option.splits)
qed (auto simp: amounts_ok_def fmlookup_drop not_less split: if_splits)

end
