(* ===== verification/SettleMoney.thy ===== *)
theory SettleMoney
  imports SettleInvariant
begin

text \<open>
  What each operation of \<open>x/settle\<close> does to the accounts: a run that succeeds leaves the ledger
  exact and the module at least as solvent as before.
\<close>

abbreviation balanced :: "'x env \<Rightarrow> 'x chain \<Rightarrow> 'x chain \<Rightarrow> bool" where
  "balanced E s t \<equiv> books E s t (\<lambda>d. 0)"

lemma balanced_trans: "balanced E s t \<Longrightarrow> balanced E t u \<Longrightarrow> balanced E s u"
  using books_trans [of E s t "\<lambda>d. 0" u "\<lambda>d. 0"] by simp

lemma books_cancel: "books E s t (\<lambda>d. - c d) \<Longrightarrow> books E t u c \<Longrightarrow> balanced E s u"
  using books_trans [of E s t "\<lambda>d. - c d" u c] by simp

lemma AmountOf_coins1_at: "AmountOf (coins1 d n) = at d n"
  by (simp add: fun_eq_iff at_def)

lemma pull_books:
  assumes "bank_laws E" "from \<noteq> moduleAddr E" "BankA2M E from settle_module (coins1 d n) (ext s) = Inr x"
  shows "books E s (s\<lparr>ext := x\<rparr>) (\<lambda>d'. - at d n d')"
  using books_pull [OF assms] by (simp add: AmountOf_coins1_at del: AmountOf_coins1)

lemma send_books:
  assumes "bank_laws E" "0 \<le> n" "BankM2A E settle_module to (coins1 d n) (ext s) = Inr x"
  shows "books E s (s\<lparr>ext := x\<rparr>) (at d n)"
  using books_send [OF assms(1) _ assms(3)] assms(2) by (simp add: AmountOf_coins1_at del: AmountOf_coins1) (simp add: at_def)

section \<open>Payments\<close>

lemma checkAsset_Inr:
  "checkAsset params d s = (Inr asset, t) \<longleftrightarrow>
     Asset params d = Some asset \<and> fa_Enabled asset \<and> \<not> IsSettlePaused s d \<and> t = s"
  by (auto simp: checkAsset_def run_simps)

lemma Pay_Inr:
  assumes "Pay E req s = (Inr res, t)"
  obtains asset x where
    "Asset (settle_GetParams s) (coin_Denom (rq_Amount req)) = Some asset" "fa_Enabled asset"
    "\<not> IsSettlePaused s (coin_Denom (rq_Amount req))" "0 < coin_Amount (rq_Amount req)"
    "validRecipient E (rq_Payee req)" "rq_Payer req \<noteq> rq_Payee req"
    "if rq_FundsInModule req then x = ext s
     else BankA2M E (rq_Payer req) settle_module (coins1 (coin_Denom (rq_Amount req)) (coin_Amount (rq_Amount req))) (ext s) = Inr x"
    "distribute E (settle_GetParams s) asset req (s\<lparr>ext := x\<rparr>) = (Inr res, t)"
proof -
  from assms obtain asset s' where
    1: "Asset (settle_GetParams s) (coin_Denom (rq_Amount req)) = Some asset" "fa_Enabled asset"
    "\<not> IsSettlePaused s (coin_Denom (rq_Amount req))" "0 < coin_Amount (rq_Amount req)"
    "validRecipient E (rq_Payee req)" "rq_Payer req \<noteq> rq_Payee req"
    and 2: "whenM (\<not> rq_FundsInModule req) (bindM (NewCoins E (coin_Denom (rq_Amount req)) (coin_Amount (rq_Amount req))) (\<lambda>cs.
         SendCoinsFromAccountToModule E (rq_Payer req) settle_module cs)) s = (Inr (), s')"
    and 3: "distribute E (settle_GetParams s) asset req s' = (Inr res, t)"
    by (auto simp: Pay_def run_simps checkAsset_Inr)
  from 2 obtain x where "if rq_FundsInModule req then x = ext s
     else BankA2M E (rq_Payer req) settle_module (coins1 (coin_Denom (rq_Amount req)) (coin_Amount (rq_Amount req))) (ext s) = Inr x"
    "s' = s\<lparr>ext := x\<rparr>"
    by (cases "rq_FundsInModule req") (auto simp: run_simps)
  with that 1 3 show ?thesis by blast
qed

lemma Pay_books:
  assumes "bank_laws E" "\<not> rq_FundsInModule req" "rq_Payer req \<noteq> moduleAddr E" "Pay E req s = (Inr res, t)"
  shows "balanced E s t"
  using assms(4)
proof (rule Pay_Inr)
  fix asset x
  assume n: "0 < coin_Amount (rq_Amount req)"
    and x: "if rq_FundsInModule req then x = ext s
     else BankA2M E (rq_Payer req) settle_module (coins1 (coin_Denom (rq_Amount req)) (coin_Amount (rq_Amount req))) (ext s) = Inr x"
    and run: "distribute E (settle_GetParams s) asset req (s\<lparr>ext := x\<rparr>) = (Inr res, t)"
  from x assms(2) have "books E s (s\<lparr>ext := x\<rparr>) (\<lambda>d. - at (coin_Denom (rq_Amount req)) (coin_Amount (rq_Amount req)) d)"
    by (intro pull_books [OF assms(1,3)]) simp
  from books_cancel [OF this distribute_books [OF assms(1) less_imp_le [OF n] run]] show ?thesis .
qed

section \<open>Tabs\<close>

lemma TabDeposit_books:
  assumes laws: "bank_laws E" "text_laws E" and ok: "books_ok E s" and acc: "is_account E payer" "is_account E payee"
    and payer: "payer \<noteq> moduleAddr E" and run: "TabDeposit E a payer payee c True s = (Inr r, t)"
  shows "balanced E s t \<and> books_ok E t"
proof -
  let ?d = "coin_Denom c" and ?i = "case a of None \<Rightarrow> 0 | Some x \<Rightarrow> app_AppId x"
  let ?key = "TabKey E ?i payer payee ?d"
  define t0 where "t0 = tab_of E ?i payer payee ?d s"
  define t1 where "t1 = tab_add t0 (coin_Amount c)"
  have t0_ext: "tab_of E ?i payer payee ?d (s\<lparr>ext := x\<rparr>) = t0" for x
    by (simp add: t0_def tab_of_def split: option.splits)
  from run obtain x s1 thr where n: "0 < coin_Amount c"
    and x: "BankA2M E payer settle_module (coins1 ?d (coin_Amount c)) (ext s) = Inr x"
    and l: "ledger ?d (coin_Amount c) (s\<lparr>ext := x\<rparr>) = (Inr (), s1)"
    and rest: "(if thr \<le> tab_Amount t1
       then bindM (settleTab E ?key t1 a) (\<lambda>res. ret (True, res))
       else seqM (on_settle (\<lambda>st. st\<lparr>Tabs := fmupd ?key t1 (Tabs st)\<rparr>))
            (seqM (emit (EvTabDeposit ?i payer payee ?d (coin_Amount c) (tab_Amount t1)))
            (ret (False, no_result)))) s1 = (Inr r, t)"
    unfolding TabDeposit_def Let_def
    by (auto simp only: bindM_Inr seqM_Inr whenM_Inr callx_Inr gets_run check_Inr checkAsset_Inr NewCoins_Inr need_Inr
        t0_ext t1_def [symmetric] if_True simp_thms)
  have tabs: "Tabs (settle s1) = Tabs (settle s)" and s1: "ext s1 = x"
    and own: "\<And>d. owed s1 d = owed s d + at ?d (coin_Amount c) d" and rc: "\<And>d. RecountLedger s1 d = RecountLedger s d"
    using l by (auto simp: ledger_Inr owed_def at_def recount)
  have ok1: "books_ok E s1" using keepsRD [OF ok_ledger _ l] ok by simp
  have pull: "slack E s1 d = slack E s d" "gap s1 d = gap s d + at ?d (coin_Amount c) d" for d
    using bank_A2M(1) [OF laws(1) x] payer
    by (simp_all add: slack_def gap_def own rc s1 moduleAddr_def moved_def at_def)
  have stored: "0 \<le> tab_Amount t0 \<and> tab_AppId t0 = ?i \<and> tab_Denom t0 = ?d \<and>
      AccFromBech32 E (tab_Payer t0) = Some payer \<and> AccFromBech32 E (tab_Payee t0) = Some payee \<and>
      (\<forall>d. tabs_at s ?key d = at ?d (tab_Amount t0) d)"
  proof (cases "fmlookup (Tabs (settle s)) ?key")
    case None
    then show ?thesis using acc by (simp add: t0_def tab_of_def is_account_def tabs_at_def kv_at_def at_def)
  next
    case (Some t')
    have "tabs_ok E s" using ok by (simp add: amounts_ok_def tabs_ok_def)
    from tabs_okD [OF laws(2) this Some acc] Some show ?thesis
      by (simp add: t0_def tab_of_def tabs_at_def kv_at_def tab_in_def at_def)
  qed
  have at1: "tabs_at s1 ?key d = at ?d (tab_Amount t0) d" for d using stored by (simp add: tabs_at_def tabs)
  show ?thesis
  proof (cases "thr \<le> tab_Amount t1")
    case True
    with rest obtain res where run: "settleTab E ?key t1 a s1 = (Inr res, t)" by (auto simp: run_simps)
    from settleTab_books [OF laws(1) run] keepsRD [OF stores.keepsR_settleTab ok1 run] show ?thesis
      using stored by (simp add: books_def pull at1 t1_def tab_add_def) (simp add: at_def)
  next
    case False
    with rest have t: "t = s1\<lparr>settle := (settle s1)\<lparr>Tabs := fmupd ?key t1 (Tabs (settle s1))\<rparr>,
        events := events s1 @ [EvTabDeposit ?i payer payee ?d (coin_Amount c) (tab_Amount t1)]\<rparr>"
      by (auto simp: run_simps)
    have "gap t d = gap s1 d - at ?d (coin_Amount c) d \<and> slack E t d = slack E s1 d" for d
      using at1 [of d] stored by (simp add: t gap_def slack_def owed_def recount kv_sum_upd tabs_at_def t1_def tab_add_def tab_in_def at_def)
    moreover have "tab_ok E ?key t1" using stored n by (auto simp: tab_ok_def t1_def tab_add_def)
    then have "books_ok E t" using ok1 by (auto simp: t amounts_ok_def)
    ultimately show ?thesis by (simp add: books_def pull)
  qed
qed

lemma CloseTab_Inr:
  assumes "CloseTab E sn i p q d s = (Inr res, t)"
  obtains tb app0 where "fmlookup (Tabs (settle s)) (TabKey E i p q d) = Some tb"
    "settleTab E (TabKey E i p q d) tb app0 s = (Inr res, t)"
    "sn = p \<or> sn = q \<or> (i \<noteq> NoApp \<and> (\<exists>x. find_app s i = Some x \<and> app_Owner x = AccString E sn)) \<or>
       sp_MaxTabAgeBlocks (settle_GetParams s) \<le> sub64 (height s) (tab_OpenedHeight tb)"
  using assms by (auto simp: CloseTab_def Let_def run_simps split: if_splits option.splits)

lemma CloseTab_books:
  assumes "bank_laws E" "text_laws E" "books_ok E s" "is_account E p" "is_account E q" "CloseTab E sn i p q d s = (Inr res, t)"
  shows "balanced E s t"
  using assms(6)
proof (rule CloseTab_Inr)
  fix tb app0
  assume tb: "fmlookup (Tabs (settle s)) (TabKey E i p q d) = Some tb"
    and run: "settleTab E (TabKey E i p q d) tb app0 s = (Inr res, t)"
  have "tabs_at s (TabKey E i p q d) d' = at (tab_Denom tb) (tab_Amount tb) d'" for d'
    by (simp add: tabs_at_def tb kv_at_def tab_in_def at_def)
  with settleTab_books [OF assms(1) run] show ?thesis by (simp add: books_def)
qed

section \<open>Revenue, credits, treasury\<close>

lemma books_add: "books E s t c \<Longrightarrow> books E t u c' \<Longrightarrow> (\<And>d. c d + c' d \<le> c'' d) \<Longrightarrow> books E s u c''"
  by (rule books_weaken [OF books_trans])

lemma claim_denom_books:
  assumes "claim_denom E i d (cl, seen) s = (Inr (cl', seen'), t)" "\<forall>e. 0 \<le> AmountOf cl e"
  shows "books E s t (\<lambda>e. AmountOf cl e - AmountOf cl' e) \<and> (\<forall>e. 0 \<le> AmountOf cl' e)"
proof (cases "d \<in> set seen \<or> \<not> 0 < ClaimableOf s i d")
  case True
  with assms show ?thesis by (auto simp: claim_denom_def run_simps books_def split: if_splits)
next
  case False
  with assms obtain u where a: "addClaimable i d (- ClaimableOf s i d) s = (Inr (), t)"
    "cl' = coins_add cl d (ClaimableOf s i d)"
    by (auto simp: claim_denom_def run_simps)
  have "books E s t (\<lambda>e. AmountOf cl e - AmountOf cl' e)"
    by (rule books_weaken [OF addClaimable_Inr(1) [OF a(1)]]) (simp add: a(2) at_def)
  moreover have "\<forall>e. 0 \<le> AmountOf cl' e" using assms(2) False by (simp add: a(2))
  ultimately show ?thesis by blast
qed

lemma claim_denoms_books:
  "foldM ds (cl, seen) (claim_denom E i) s = (Inr (cl', seen'), t) \<Longrightarrow> \<forall>e. 0 \<le> AmountOf cl e \<Longrightarrow>
   books E s t (\<lambda>e. AmountOf cl e - AmountOf cl' e) \<and> (\<forall>e. 0 \<le> AmountOf cl' e)"
proof (induction ds arbitrary: cl seen s)
  case Nil
  then show ?case by (auto simp: books_def)
next
  case (Cons d ds)
  from Cons.prems(1) obtain cl1 seen1 s1 where a: "claim_denom E i d (cl, seen) s = (Inr (cl1, seen1), s1)"
    "foldM ds (cl1, seen1) (claim_denom E i) s1 = (Inr (cl', seen'), t)" by (auto simp: run_simps)
  from claim_denom_books [OF a(1) Cons.prems(2)]
  have b: "books E s s1 (\<lambda>e. AmountOf cl e - AmountOf cl1 e)" "\<forall>e. 0 \<le> AmountOf cl1 e" by blast+
  from Cons.IH [OF a(2) b(2)]
  have c: "books E s1 t (\<lambda>e. AmountOf cl1 e - AmountOf cl' e)" "\<forall>e. 0 \<le> AmountOf cl' e" by blast+
  from books_add [OF b(1) c(1), of "\<lambda>e. AmountOf cl e - AmountOf cl' e"] c(2) show ?case by simp
qed

lemma balanced_events: "balanced E s t \<Longrightarrow> balanced E s (t\<lparr>events := e\<rparr>)"
  by (simp add: books_def gap_def slack_def owed_def recount)

lemma ClaimRevenue_books:
  assumes "bank_laws E" "ClaimRevenue E i ds s = (Inr cl, t)"
  shows "balanced E s t"
proof -
  from assms(2) obtain ds' seen s1 to x where
    1: "foldM ds' (fmempty, []) (claim_denom E i) s = (Inr (cl, seen), s1)"
    and 2: "BankM2A E settle_module to cl (ext s1) = Inr x" "t = s1\<lparr>ext := x, events := events s1 @ [EvRevenueClaimed i to cl]\<rparr>"
    by (auto simp: ClaimRevenue_def run_simps GetApp_def)
  from claim_denoms_books [OF 1] have b: "books E s s1 (\<lambda>e. - AmountOf cl e)" "\<forall>e. 0 \<le> AmountOf cl e" by simp_all
  from b(2) have "books E s1 (s1\<lparr>ext := x\<rparr>) (AmountOf cl)" by (intro books_send [OF assms(1) _ 2(1)]) blast
  from balanced_events [OF books_cancel [OF b(1) this]] show ?thesis by (simp add: 2(2))
qed

lemma mintCredits_books:
  assumes "bank_laws E" "mintCredits E to n s = (Inr c, t)"
  shows "balanced E s t"
  using assms(2)
proof (rule mintCredits_Inr)
  fix x y
  assume n: "0 \<le> n" and x: "BankMint E settle_module (coins1 (creditDenom E) n) (ext s) = Inr x"
    and y: "BankM2A E settle_module to (coins1 (creditDenom E) n) x = Inr y"
    and t: "t = s\<lparr>ext := y, settle := (settle s)\<lparr>CreditsMinted := Some ((case CreditsMinted (settle s) of None \<Rightarrow> 0 | Some m \<Rightarrow> m) + n)\<rparr>\<rparr>"
  have "slack E s d \<le> slack E t d" for d
    using bank_Mint(1) [OF assms(1) x, of "moduleAddr E" d] bank_M2A(2) [OF assms(1) y, of "moduleAddr E" d] n
    by (simp add: slack_def owed_def t moved_def moduleAddr_def)
  then show ?thesis by (simp add: books_def gap_def owed_def recount t)
qed

lemma QuoteCredits_Inr [run_simps]:
  "QuoteCredits d n s = (Inr c, t) \<longleftrightarrow>
     t = s \<and> (\<exists>a p. Asset (settle_GetParams s) d = Some a \<and> fa_Enabled a \<and> sp_CreditsEnabled (settle_GetParams s) \<and>
        fa_CreditPrice a = Some p \<and> 0 < p \<and> c = n * p)"
  by (auto simp: QuoteCredits_def run_simps)

lemma BuyCredits_Inr:
  assumes "BuyCredits E b r0 c s = (Inr out, t)"
  obtains x s1 s2 credits where "0 < coin_Amount c" "\<not> IsSettlePaused s (coin_Denom c)"
    "QuoteCredits (coin_Denom c) (coin_Amount c) s = (Inr credits, s)"
    "validRecipient E (if r0 = [] then b else r0)"
    "BankA2M E b settle_module (coins1 (coin_Denom c) (coin_Amount c)) (ext s) = Inr x"
    "addPool PoolTreasury (coin_Denom c) (coin_Amount c) (s\<lparr>ext := x\<rparr>) = (Inr (), s1)"
    "mintCredits E (if r0 = [] then b else r0) credits s1 = (Inr out, s2)"
    "t = s2\<lparr>events := events s2 @ [EvCreditsBought b (if r0 = [] then b else r0) c out]\<rparr>"
proof -
  from assms show ?thesis
    unfolding BuyCredits_def Let_def
    by (auto simp only: bindM_Inr seqM_Inr check_Inr gets_run callx_Inr NewCoins_Inr emit_run ret_run QuoteCredits_Inr sum.inject
        intro!: that) auto
qed

lemma BuyCredits_books:
  assumes "bank_laws E" "b \<noteq> moduleAddr E" "BuyCredits E b r0 c s = (Inr out, t)"
  shows "balanced E s t"
  using assms(3)
proof (rule BuyCredits_Inr)
  fix x s1 s2 credits
  assume x: "BankA2M E b settle_module (coins1 (coin_Denom c) (coin_Amount c)) (ext s) = Inr x"
    and p: "addPool PoolTreasury (coin_Denom c) (coin_Amount c) (s\<lparr>ext := x\<rparr>) = (Inr (), s1)"
    and m: "mintCredits E (if r0 = [] then b else r0) credits s1 = (Inr out, s2)"
    and t: "t = s2\<lparr>events := events s2 @ [EvCreditsBought b (if r0 = [] then b else r0) c out]\<rparr>"
  from books_cancel [OF pull_books [OF assms(1,2) x] addPool_Inr(1) [OF p]] mintCredits_books [OF assms(1) m]
  have "balanced E s s2" by (rule balanced_trans)
  from balanced_events [OF this] show ?thesis by (simp add: t)
qed

text \<open>Withdrawing a list of coins, one pool entry after the other.\<close>

definition listed :: "coin list \<Rightarrow> denom \<Rightarrow> int" where
  "listed cs d = (\<Sum>c \<leftarrow> cs. at (coin_Denom c) (coin_Amount c) d)"

lemma AmountOf_coins_of: "distinct (map coin_Denom cs) \<Longrightarrow> AmountOf (coins_of cs) d = listed cs d"
proof (induction cs)
  case Nil
  then show ?case by (simp add: coins_of_def listed_def)
next
  case (Cons c cs)
  have "listed cs d = 0" if "d \<notin> coin_Denom ` set cs"
    using that by (induction cs) (auto simp: listed_def at_def)
  with Cons show ?case
    by (auto simp: coins_of_def listed_def AmountOf_def at_def fmlookup_of_list split: if_splits)
qed

lemma withdraw_loop:
  "forM cs (\<lambda>c. bindM (gets (\<lambda>s. PoolBalance s PoolTreasury (coin_Denom c))) (\<lambda>bal.
        seqM (check (coin_Amount c \<le> bal) (ESettle SErrInsufficientPool))
        (addPool PoolTreasury (coin_Denom c) (- coin_Amount c)))) s = (Inr u, t) \<Longrightarrow>
   books E s t (\<lambda>d. - listed cs d) \<and> ext t = ext s"
proof (induction cs arbitrary: s)
  case Nil
  then show ?case by (simp add: books_def listed_def)
next
  case (Cons c cs)
  from Cons.prems obtain v where a: "addPool PoolTreasury (coin_Denom c) (- coin_Amount c) s = (Inr (), v)"
    and b: "forM cs (\<lambda>c. bindM (gets (\<lambda>s. PoolBalance s PoolTreasury (coin_Denom c))) (\<lambda>bal.
        seqM (check (coin_Amount c \<le> bal) (ESettle SErrInsufficientPool))
        (addPool PoolTreasury (coin_Denom c) (- coin_Amount c)))) v = (Inr u, t)"
    by (auto simp: run_simps)
  have "ext v = ext s" using addPool_Inr(2) [OF a] by (metis chain.ext_inject chain.surjective chain.update_convs(6))
  with Cons.IH [OF b] have c: "books E v t (\<lambda>d. - listed cs d)" "ext t = ext s" by simp_all
  from books_add [OF addPool_Inr(1) [OF a] c(1), of "\<lambda>d. - listed (c # cs) d"] c(2)
  show ?case by (simp add: listed_def at_def)
qed

lemma listed_nonneg: "list_all (\<lambda>c. 0 < coin_Amount c) cs \<Longrightarrow> 0 \<le> listed cs d"
  by (induction cs) (auto simp: listed_def at_def)

lemma WithdrawTreasury_books:
  assumes "bank_laws E" "WithdrawTreasury E sg to cs s = (Inr u, t)"
  shows "balanced E s t"
proof -
  from assms(2) obtain s1 x where v: "coins_IsValid E cs"
    and l: "forM cs (\<lambda>c. bindM (gets (\<lambda>s. PoolBalance s PoolTreasury (coin_Denom c))) (\<lambda>bal.
        seqM (check (coin_Amount c \<le> bal) (ESettle SErrInsufficientPool))
        (addPool PoolTreasury (coin_Denom c) (- coin_Amount c)))) s = (Inr (), s1)"
    and x: "BankM2A E settle_module to (coins_of cs) (ext s1) = Inr x"
    and t: "t = s1\<lparr>ext := x, events := events s1 @ [EvTreasuryWithdrawn sg to (coins_of cs)]\<rparr>"
    by (auto simp: WithdrawTreasury_def run_simps)
  from v have d: "AmountOf (coins_of cs) = listed cs"
    by (intro ext AmountOf_coins_of) (auto simp: coins_IsValid_def strict_sorted_iff)
  have pos: "0 \<le> listed cs d" for d using v by (intro listed_nonneg) (auto simp: coins_IsValid_def list_all_iff)
  have "books E s1 (s1\<lparr>ext := x\<rparr>) (AmountOf (coins_of cs))" by (rule books_send [OF assms(1) _ x]) (simp add: d pos)
  with withdraw_loop [OF l, of E] have "balanced E s (s1\<lparr>ext := x\<rparr>)" unfolding d by (blast intro: books_cancel)
  from balanced_events [OF this] show ?thesis by (simp add: t)
qed

section \<open>Relayer pool, gas burn, validator payout\<close>

lemma relayer_cap_Inr:
  assumes "relayer_cap E p c s = (Inr u, t)"
  shows "t = s\<lparr>settle := (settle s)\<lparr>RelayerPaid := setInt (RelayerPaid (settle s)) (coin_Denom c)
      (getInt (RelayerPaid (settle s)) (coin_Denom c) + coin_Amount c)\<rparr>\<rparr>"
    "getInt (RelayerPaid (settle s)) (coin_Denom c) + coin_Amount c \<le> AmountOf (sp_RelayerPayoutCap p) (coin_Denom c)"
  using assms by (auto simp: relayer_cap_def run_simps addInt_Inr)

lemma DisburseRelayerPool_Inr:
  assumes "DisburseRelayerPool E sg to c b s = (Inr out, t)"
  obtains s1 s2 s3 where
    "sg = authority E \<or> sp_RelayerAdmin (settle_GetParams s) \<noteq> [] \<and> sg = sp_RelayerAdmin (settle_GetParams s)"
    "0 < coin_Amount c" "IsRelayerRecipient (settle_GetParams s) (AccString E to)"
    "if sg = authority E then s1 = s else relayer_cap E (settle_GetParams s) c s = (Inr (), s1)"
    "addPool PoolRelayer (coin_Denom c) (- coin_Amount c) s1 = (Inr (), s2)"
    "if b then \<exists>credits v. QuoteCredits (coin_Denom c) (coin_Amount c) s2 = (Inr credits, s2) \<and>
        addPool PoolTreasury (coin_Denom c) (coin_Amount c) s2 = (Inr (), v) \<and> mintCredits E to credits v = (Inr out, s3)
     else \<exists>x. BankM2A E settle_module to (coins1 (coin_Denom c) (coin_Amount c)) (ext s2) = Inr x \<and> s3 = s2\<lparr>ext := x\<rparr> \<and> out = c"
    "t = s3\<lparr>events := events s3 @ [EvRelayerDisbursed sg to c out]\<rparr>"
proof -
  from assms obtain s1 s2 s3 where
    "sg = authority E \<or> sp_RelayerAdmin (settle_GetParams s) \<noteq> [] \<and> sg = sp_RelayerAdmin (settle_GetParams s)"
    "0 < coin_Amount c" "IsRelayerRecipient (settle_GetParams s) (AccString E to)"
    "whenM (sg \<noteq> authority E) (relayer_cap E (settle_GetParams s) c) s = (Inr (), s1)"
    "addPool PoolRelayer (coin_Denom c) (- coin_Amount c) s1 = (Inr (), s2)"
    and o: "(if b
              then bindM (QuoteCredits (coin_Denom c) (coin_Amount c)) (\<lambda>credits.
                   seqM (addPool PoolTreasury (coin_Denom c) (coin_Amount c)) (mintCredits E to credits))
              else bindM (NewCoins E (coin_Denom c) (coin_Amount c)) (\<lambda>cs.
                   seqM (SendCoinsFromModuleToAccount E settle_module to cs) (ret c))) s2 = (Inr out, s3)"
    and "t = s3\<lparr>events := events s3 @ [EvRelayerDisbursed sg to c out]\<rparr>"
    unfolding DisburseRelayerPool_def Let_def
    by (auto simp only: bindM_Inr seqM_Inr check_Inr gets_run emit_run ret_run)
  moreover from o have "if b then \<exists>credits v. QuoteCredits (coin_Denom c) (coin_Amount c) s2 = (Inr credits, s2) \<and>
        addPool PoolTreasury (coin_Denom c) (coin_Amount c) s2 = (Inr (), v) \<and> mintCredits E to credits v = (Inr out, s3)
     else \<exists>x. BankM2A E settle_module to (coins1 (coin_Denom c) (coin_Amount c)) (ext s2) = Inr x \<and> s3 = s2\<lparr>ext := x\<rparr> \<and> out = c"
    by (cases b) (auto simp: run_simps)
  ultimately show ?thesis using that [of s1 s2 s3] by (auto simp: whenM_Inr split: if_splits)
qed

lemma DisburseRelayerPool_books:
  assumes "bank_laws E" "DisburseRelayerPool E sg to c b s = (Inr out, t)"
  shows "balanced E s t"
  using assms(2)
proof (rule DisburseRelayerPool_Inr)
  fix s1 s2 s3
  assume n: "0 < coin_Amount c"
    and 1: "if sg = authority E then s1 = s else relayer_cap E (settle_GetParams s) c s = (Inr (), s1)"
    and 2: "addPool PoolRelayer (coin_Denom c) (- coin_Amount c) s1 = (Inr (), s2)"
    and 3: "if b then \<exists>credits v. QuoteCredits (coin_Denom c) (coin_Amount c) s2 = (Inr credits, s2) \<and>
        addPool PoolTreasury (coin_Denom c) (coin_Amount c) s2 = (Inr (), v) \<and> mintCredits E to credits v = (Inr out, s3)
     else \<exists>x. BankM2A E settle_module to (coins1 (coin_Denom c) (coin_Amount c)) (ext s2) = Inr x \<and> s3 = s2\<lparr>ext := x\<rparr> \<and> out = c"
    and t: "t = s3\<lparr>events := events s3 @ [EvRelayerDisbursed sg to c out]\<rparr>"
  have b1: "balanced E s s1"
  proof (cases "sg = authority E")
    case True
    with 1 show ?thesis by (simp add: books_def)
  next
    case False
    with 1 have "relayer_cap E (settle_GetParams s) c s = (Inr (), s1)" by simp
    from relayer_cap_Inr(1) [OF this] show ?thesis by (intro books_same) (auto simp: moduleAddr_def)
  qed
  have "books E s1 s2 (\<lambda>d. - at (coin_Denom c) (coin_Amount c) d)"
    by (rule books_weaken [OF addPool_Inr(1) [OF 2]]) (simp add: at_def)
  moreover have "books E s2 s3 (at (coin_Denom c) (coin_Amount c))"
  proof (cases b)
    case True
    with 3 obtain credits v where "addPool PoolTreasury (coin_Denom c) (coin_Amount c) s2 = (Inr (), v)"
      "mintCredits E to credits v = (Inr out, s3)" by auto
    from books_trans [OF addPool_Inr(1) [OF this(1)] mintCredits_books [OF assms(1) this(2)]] show ?thesis by simp
  next
    case False
    with 3 obtain x where "BankM2A E settle_module to (coins1 (coin_Denom c) (coin_Amount c)) (ext s2) = Inr x" "s3 = s2\<lparr>ext := x\<rparr>"
      by auto
    with send_books [OF assms(1) less_imp_le [OF n] this(1)] show ?thesis by simp
  qed
  ultimately have "balanced E s1 s3" by (rule books_cancel)
  from balanced_events [OF balanced_trans [OF b1 this]] show ?thesis by (simp add: t)
qed

lemma BurnGasFees_books:
  assumes "bank_laws E" "ModuleAddress E fee_collector \<noteq> moduleAddr E" "BurnGasFees E s = (r, t)"
  shows "balanced E s t"
proof (cases "t = s")
  case True
  then show ?thesis by (simp add: books_def)
next
  case False
  let ?c = "creditDenom E"
  from assms(3) False obtain n x where n: "0 < n"
    and x: "BankM2M E fee_collector settle_module (coins1 ?c n) (ext s) = Inr x"
    and t: "(ext t = x \<or> BankBurn E settle_module (coins1 ?c n) x = Inr (ext t)) \<and> settle t = settle s"
    by (auto simp: BurnGasFees_def bindM_def gets_def ret_def NewCoins_def seqM_def check_def fail_def attempt_def callx_def
        Let_def emit_def modify_def split: if_splits sum.splits prod.splits)
  have "slack E s d \<le> slack E t d" for d
    using bank_M2M(1) [OF assms(1) x, of "moduleAddr E" d] bank_Burn(1) [OF assms(1), of settle_module "coins1 ?c n" x "ext t" "moduleAddr E" d]
      t n assms(2)
    by (auto simp: slack_def owed_def moved_def moduleAddr_def)
  then show ?thesis using t by (simp add: books_def gap_def owed_def recount)
qed

lemma payout_shares:
  "foldM ps paid (payout_share E d bal tw) s = (Inr paid', t) \<Longrightarrow> bank_laws E \<Longrightarrow>
   books E s t (at d (paid' - paid)) \<and> (\<exists>x. t = s\<lparr>ext := x\<rparr>)"
proof (induction ps arbitrary: paid s)
  case Nil
  then show ?case by (auto simp: books_def at_def intro: exI [of _ "ext s"])
next
  case (Cons p ps)
  from Cons.prems(1) obtain paid1 s1 where a: "payout_share E d bal tw p paid s = (Inr paid1, s1)"
    and r: "foldM ps paid1 (payout_share E d bal tw) s1 = (Inr paid', t)" by (auto simp: run_simps)
  have "books E s s1 (at d (paid1 - paid)) \<and> (\<exists>x. s1 = s\<lparr>ext := x\<rparr>)"
  proof (cases "0 < quo (bal * snd p) tw")
    case True
    with a obtain x where "BankM2A E settle_module (fst p) (coins1 d (quo (bal * snd p) tw)) (ext s) = Inr x"
      "s1 = s\<lparr>ext := x\<rparr>" "paid1 = paid + quo (bal * snd p) tw"
      by (auto simp: payout_share_def Let_def run_simps)
    with send_books [OF Cons.prems(2) less_imp_le [OF True] this(1)] show ?thesis by auto
  next
    case False
    with a show ?thesis by (auto simp: payout_share_def Let_def books_def at_def intro: exI [of _ "ext s"])
  qed
  then obtain x where b: "books E s s1 (at d (paid1 - paid))" "s1 = s\<lparr>ext := x\<rparr>" by blast
  from Cons.IH [OF r Cons.prems(2)] obtain y where c: "books E s1 t (at d (paid' - paid1))" "t = s1\<lparr>ext := y\<rparr>" by blast
  have "books E s t (at d (paid' - paid))" by (rule books_add [OF b(1) c(1)]) (simp add: at_def)
  with b(2) c(2) show ?case by auto
qed

lemma payout_pool_books:
  assumes "bank_laws E" "payout_pool E ps tw e s = (Inr u, t)"
  shows "balanced E s t"
proof -
  from assms(2) obtain paid s1 s2 where a: "foldM ps 0 (payout_share E (fst e) (snd e) tw) s = (Inr paid, s1)"
    and b: "addPool PoolValidator (fst e) (- paid) s1 = (Inr (), s2)"
    and t: "t = s2\<lparr>events := events s2 @ [EvValidatorPayout (fst e) paid (length ps)]\<rparr>"
    by (auto simp: payout_pool_def run_simps)
  from payout_shares [OF a assms(1)] have "books E s s1 (at (fst e) paid)" by simp
  from books_add [OF this addPool_Inr(1) [OF b], of "\<lambda>d. 0"] have "balanced E s s2" by (simp add: at_def)
  from balanced_events [OF this] show ?thesis by (simp add: t)
qed

lemma payout_pools_books:
  "forM es (payout_pool E ps tw) s = (Inr u, t) \<Longrightarrow> bank_laws E \<Longrightarrow> balanced E s t"
proof (induction es arbitrary: s)
  case Nil
  then show ?case by (simp add: books_def)
next
  case (Cons e es)
  then obtain s1 where "payout_pool E ps tw e s = (Inr (), s1)" "balanced E s1 t" by (auto simp: run_simps)
  with payout_pool_books [OF Cons.prems(2)] show ?case by (blast intro: balanced_trans)
qed

text \<open>The state at the start of a payout, and the payees with their weights.\<close>

definition interval_started :: "'x chain \<Rightarrow> 'x chain" where
  "interval_started s = s\<lparr>settle := (settle s)\<lparr>LastPayout := Some (height s), RelayerPaid := fmempty\<rparr>\<rparr>"

definition payout_due :: "'x chain \<Rightarrow> bool" where
  "payout_due s \<longleftrightarrow> sp_ValidatorPayoutIntervalBlocks (settle_GetParams s) \<le>
     sub64 (height s) (case LastPayout (settle s) of None \<Rightarrow> 0 | Some n \<Rightarrow> n)"

definition payees_of :: "'x env \<Rightarrow> 'x \<Rightarrow> validator list \<Rightarrow> (addr \<times> int) list" where
  "payees_of E x vals = List.map_filter (payee_of E x (signing_window E x)) vals"

lemma PayoutValidators_run:
  "PayoutValidators E s =
     (if \<not> payout_due s then (Inr (), s)
      else case BondedValidators E (ext s) of
        Inl e \<Rightarrow> (Inl (EExternal e), interval_started s)
      | Inr vals \<Rightarrow>
          if vals = [] \<or> \<not> 0 < sum_list (map snd (payees_of E (ext s) vals)) then (Inr (), interval_started s)
          else forM (pool_entries s PoolValidator)
            (payout_pool E (payees_of E (ext s) vals) (sum_list (map snd (payees_of E (ext s) vals)))) (interval_started s))"
proof -
  have "pool_entries (interval_started s) PoolValidator = pool_entries s PoolValidator"
    by (simp add: pool_entries_def interval_started_def)
  then show ?thesis
    by (simp add: PayoutValidators_def payout_due_def bindM_def gets_def seqM_def modify_def Let_def ret_def fail_def
        interval_started_def payees_of_def not_less split: sum.splits)
qed

lemma interval_started_books: "balanced E s (interval_started s)"
  by (rule books_same) (simp_all add: interval_started_def)

lemma PayoutValidators_books:
  assumes "bank_laws E" "PayoutValidators E s = (Inr u, t)"
  shows "balanced E s t"
proof (cases "\<exists>es ps tw. forM es (payout_pool E ps tw) (interval_started s) = (Inr u, t)")
  case True
  then show ?thesis using balanced_trans [OF interval_started_books payout_pools_books [OF _ assms(1)]] by blast
next
  case False
  with assms(2) have "t = s \<or> t = interval_started s"
    by (auto simp: PayoutValidators_run split: if_splits sum.splits)
  then show ?thesis using interval_started_books by (auto simp: books_refl)
qed

lemma emit_all: "forM bs (\<lambda>b. emit (f b)) s = (Inr (), s\<lparr>events := events s @ map f bs\<rparr>)"
  by (induction bs arbitrary: s) (simp_all add: seqM_def bindM_def emit_def modify_def ret_def)

text \<open>Safe mode: what \<open>runInvariants\<close> does when a check fails.\<close>

definition safe_mode :: "'x env \<Rightarrow> 'x chain \<Rightarrow> 'x chain" where
  "safe_mode E s =
     s\<lparr>events := events s @ map EvInvariantBroken (CheckInvariants E s),
       council := (council s)\<lparr>Pauses := fmupd ''settle''
         \<lparr>pa_Target = ''settle'', pa_SetBy = settle_module, pa_SetHeight = height s, pa_ExpiresHeight = 0,
          pa_Reason = ''invariant breach: '' @ hd (CheckInvariants E s)\<rparr> (Pauses (council s))\<rparr>\<rparr>"

lemma runInvariants_run:
  "runInvariants E s =
     (Inr (), if height s mod InvariantCheckInterval \<noteq> 0 \<or> CheckInvariants E s = [] then s else safe_mode E s)"
proof -
  have v: "ValidateTarget E ''settle'' = None" by (simp add: ValidateTarget_def TargetSettle_def)
  show ?thesis
    by (simp add: runInvariants_def bindM_def gets_def ret_def seqM_def emit_all attempt_def keeper_SetPause_def lift_check_def
        v modify_def safe_mode_def)
qed

lemma settle_EndBlock_books:
  assumes "bank_laws E" "PayoutValidators E s = (Inr u, v)" "settle_EndBlock E s = (r, t)"
  shows "balanced E s t"
proof -
  from assms(2,3) have "runInvariants E v = (r, t)" by (simp add: settle_EndBlock_def bindM_def attempt_def)
  then have t: "t = v \<or> t = safe_mode E v" by (auto simp: runInvariants_run split: if_splits)
  have "balanced E v t" using t by (intro books_same) (auto simp: safe_mode_def)
  with PayoutValidators_books [OF assms(1,2)] show ?thesis by (rule balanced_trans)
qed

end
