(* ===== verification/SettlePayout.thy ===== *)
theory SettlePayout
  imports SettleMoney
begin

text \<open>
  The payout of validators in detail: what each account gets when it succeeds, and what a payout
  that fails in the middle leaves behind. The end of the block logs such a failure and keeps the
  writes made so far, so the states after it are states of the chain like all others.
\<close>

section \<open>Shares\<close>

text \<open>What one validator gets of a pool of \<open>bal\<close>, and what the owners of an address get together.\<close>

definition payout_part :: "int \<Rightarrow> int \<Rightarrow> int \<Rightarrow> int" where
  "payout_part bal tw w = bal * w div tw"

definition paid_out :: "(addr \<times> int) list \<Rightarrow> int \<Rightarrow> int \<Rightarrow> int" where
  "paid_out ps tw bal = (\<Sum>p \<leftarrow> ps. payout_part bal tw (snd p))"

lemma paid_out_bounds:
  assumes "0 \<le> bal" "\<forall>p \<in> set ps. 0 < snd p" "tw = sum_list (map snd ps)" "ps \<noteq> []"
  shows "0 \<le> paid_out ps tw bal" "paid_out ps tw bal \<le> bal" "bal < paid_out ps tw bal + int (length ps)"
proof -
  have tw: "0 < tw"
  proof (cases ps)
    case (Cons q qs)
    have "0 \<le> sum_list (map snd qs)" using assms(2) Cons by (intro sum_list_nonneg) (auto intro: less_imp_le)
    then show ?thesis using assms(2,3) Cons by simp
  qed (use assms(4) in simp)
  have f: "paid_out qs tw bal * tw \<le> bal * sum_list (map snd qs) \<and> bal * sum_list (map snd qs) < (paid_out qs tw bal + int (length qs)) * tw"
    if "qs \<noteq> []" for qs
    using that
  proof (induction qs)
    case (Cons q qs)
    have q: "payout_part bal tw (snd q) * tw \<le> bal * snd q \<and> bal * snd q < (payout_part bal tw (snd q) + 1) * tw"
      using div_mult_mod_eq [of "bal * snd q" tw] pos_mod_bound [OF tw, of "bal * snd q"] pos_mod_sign [OF tw, of "bal * snd q"]
      unfolding payout_part_def distrib_right by linarith
    show ?case
    proof (cases "qs = []")
      case True
      with q show ?thesis by (simp add: paid_out_def)
    next
      case False
      with q Cons.IH show ?thesis by (simp add: paid_out_def algebra_simps)
    qed
  qed simp
  have "paid_out ps tw bal * tw \<le> bal * tw" "bal * tw < (paid_out ps tw bal + int (length ps)) * tw"
    using f [OF assms(4)] assms(3) by simp_all
  with tw show "paid_out ps tw bal \<le> bal" "bal < paid_out ps tw bal + int (length ps)"
    by (simp_all add: mult_less_cancel_right_pos)
  show "0 \<le> paid_out ps tw bal"
    unfolding paid_out_def using assms(1,2) tw
    by (intro sum_list_nonneg) (auto simp: payout_part_def intro!: pos_imp_zdiv_nonneg_iff [THEN iffD2])
qed

lemma quo_part: "0 \<le> bal \<Longrightarrow> 0 < w \<Longrightarrow> 0 < tw \<Longrightarrow> quo (bal * w) tw = payout_part bal tw w \<and> 0 \<le> payout_part bal tw w"
  by (simp add: payout_part_def pos_imp_zdiv_nonneg_iff)

lemma shares_exact:
  "foldM ps paid (payout_share E d bal tw) s = (Inr paid', t) \<Longrightarrow> bank_laws E \<Longrightarrow> 0 \<le> bal \<Longrightarrow> 0 < tw \<Longrightarrow> \<forall>p \<in> set ps. 0 < snd p \<Longrightarrow>
   paid' = paid + paid_out ps tw bal \<and> settle t = settle s \<and>
   (\<forall>a d'. a \<noteq> moduleAddr E \<longrightarrow> BankBalance E (ext t) a d' =
      BankBalance E (ext s) a d' + at d (paid_out (filter (\<lambda>p. fst p = a) ps) tw bal) d')"
proof (induction ps arbitrary: paid s)
  case Nil
  then show ?case by (simp add: paid_out_def at_def)
next
  case (Cons p ps)
  from Cons.prems(1) obtain paid1 s1 where a: "payout_share E d bal tw p paid s = (Inr paid1, s1)"
    and r: "foldM ps paid1 (payout_share E d bal tw) s1 = (Inr paid', t)" by (auto simp: run_simps)
  have q: "quo (bal * snd p) tw = payout_part bal tw (snd p)" "0 \<le> payout_part bal tw (snd p)"
    using quo_part [of bal "snd p" tw] Cons.prems by simp_all
  have s1: "paid1 = paid + payout_part bal tw (snd p) \<and> settle s1 = settle s \<and>
    (\<forall>b d'. b \<noteq> moduleAddr E \<longrightarrow> BankBalance E (ext s1) b d' = BankBalance E (ext s) b d' +
       (if fst p = b then at d (payout_part bal tw (snd p)) d' else 0))"
  proof (cases "0 < payout_part bal tw (snd p)")
    case True
    with a q obtain x where x: "BankM2A E settle_module (fst p) (coins1 d (payout_part bal tw (snd p))) (ext s) = Inr x"
      "s1 = s\<lparr>ext := x\<rparr>" "paid1 = paid + payout_part bal tw (snd p)"
      by (auto simp: payout_share_def run_simps Let_def)
    show ?thesis
      using bank_M2A(2) [OF Cons.prems(2) x(1)] by (simp add: x(2,3) moved_def moduleAddr_def at_def)
  next
    case False
    with a q show ?thesis by (simp add: payout_share_def Let_def at_def)
  qed
  with Cons.IH [OF r] Cons.prems(2-5) show ?case by (auto simp: paid_out_def at_def)
qed

lemma pools_exact:
  "forM es (payout_pool E ps tw) s = (Inr (), t) \<Longrightarrow> bank_laws E \<Longrightarrow> \<forall>e \<in> set es. 0 \<le> snd e \<Longrightarrow> 0 < tw \<Longrightarrow> \<forall>p \<in> set ps. 0 < snd p \<Longrightarrow>
   distinct (map fst es) \<Longrightarrow>
   PoolBalance t pool d = PoolBalance s pool d -
     (if pool = PoolValidator then (case map_of es d of None \<Rightarrow> 0 | Some n \<Rightarrow> paid_out ps tw n) else 0) \<and>
   (\<forall>a. a \<noteq> moduleAddr E \<longrightarrow> BankBalance E (ext t) a d = BankBalance E (ext s) a d +
      (case map_of es d of None \<Rightarrow> 0 | Some n \<Rightarrow> paid_out (filter (\<lambda>p. fst p = a) ps) tw n))"
proof (induction es arbitrary: s)
  case Nil
  then show ?case by simp
next
  case (Cons e es)
  from Cons.prems(1) obtain s1 where 1: "payout_pool E ps tw e s = (Inr (), s1)" and r: "forM es (payout_pool E ps tw) s1 = (Inr (), t)"
    by (auto simp: run_simps)
  from 1 obtain paid s2 s3 where a: "foldM ps 0 (payout_share E (fst e) (snd e) tw) s = (Inr paid, s2)"
    and b: "addPool PoolValidator (fst e) (- paid) s2 = (Inr (), s3)"
    and s1: "s1 = s3\<lparr>events := events s3 @ [EvValidatorPayout (fst e) paid (length ps)]\<rparr>"
    by (auto simp: payout_pool_def run_simps)
  have sh: "paid = paid_out ps tw (snd e) \<and> settle s2 = settle s \<and> (\<forall>a d'. a \<noteq> moduleAddr E \<longrightarrow> BankBalance E (ext s2) a d' =
      BankBalance E (ext s) a d' + at (fst e) (paid_out (filter (\<lambda>p. fst p = a) ps) tw (snd e)) d')"
    using shares_exact [OF a Cons.prems(2)] Cons.prems(3-5) by simp
  have "ext s3 = ext s2" using arg_cong [OF addPool_Inr(2) [OF b], of ext] by simp
  moreover have "PoolBalance s2 pool d = PoolBalance s pool d" using sh by (simp add: PoolBalance_def)
  ultimately have 1: "PoolBalance s1 pool d = PoolBalance s pool d - (if pool = PoolValidator \<and> d = fst e then paid_out ps tw (snd e) else 0)"
    "a \<noteq> moduleAddr E \<Longrightarrow> BankBalance E (ext s1) a d = BankBalance E (ext s) a d +
       at (fst e) (paid_out (filter (\<lambda>p. fst p = a) ps) tw (snd e)) d" for a
    using addPool_Inr(3) [OF b, of pool d] sh by (simp_all add: s1 PoolBalance_def)
  have "map_of es (fst e) = None" using Cons.prems(6) by (simp add: map_of_eq_None_iff)
  with Cons.IH [OF r Cons.prems(2)] Cons.prems(3-6) 1 show ?case by (cases e) (auto simp: at_def)
qed

lemma set_pool_entries: "(d, n) \<in> set (pool_entries s pool) \<longleftrightarrow> fmlookup (Pools (settle s)) (pool, d) = Some n"
  by (force simp: pool_entries_def set_entries)

lemma distinct_pool_entries: "distinct (map fst (pool_entries s pool))"
proof -
  have "inj_on (\<lambda>((p, d), n). (d, n)) (set (filter (\<lambda>((p, d), n). p = pool) (entries (Pools (settle s)))))"
    by (auto simp: inj_on_def)
  moreover have "distinct (entries (Pools (settle s)))" using distinct_entries [of "Pools (settle s)"] by (simp add: distinct_map)
  ultimately have "distinct (pool_entries s pool)" by (simp add: pool_entries_def distinct_map)
  moreover have "inj_on fst (set (pool_entries s pool))"
    by (rule inj_onI) (auto simp: set_pool_entries)
  ultimately show ?thesis by (simp add: distinct_map)
qed

lemma map_of_pool_entries: "map_of (pool_entries s pool) d = fmlookup (Pools (settle s)) (pool, d)"
  by (cases "fmlookup (Pools (settle s)) (pool, d)")
    (auto simp: map_of_eq_Some_iff [OF distinct_pool_entries] set_pool_entries map_of_eq_None_iff image_iff)

lemma payee_weight: "p \<in> set (payees_of E x vals) \<Longrightarrow> 0 < snd p"
  by (auto simp: payees_of_def List.map_filter_def payee_of_def split: if_splits option.splits)

section \<open>A payout that fails\<close>

lemma foldM_Inl:
  "foldM xs a f s = (Inl e, t) \<Longrightarrow>
   \<exists>ys x zs b u. xs = ys @ x # zs \<and> foldM ys a f s = (Inr b, u) \<and> f x b u = (Inl e, t)"
proof (induction xs arbitrary: a s)
  case Nil
  then show ?case by simp
next
  case (Cons x xs)
  show ?case
  proof (cases "f x a s")
    case (Pair r u)
    show ?thesis
    proof (cases r)
      case (Inl e')
      with Cons.prems Pair show ?thesis by (intro exI [of _ "[]"]) (auto simp: bindM_def)
    next
      case (Inr b)
      with Cons.prems Pair have "foldM xs b f u = (Inl e, t)" by (simp add: bindM_def)
      from Cons.IH [OF this] obtain ys y zs c v where
        "xs = ys @ y # zs" "foldM ys b f u = (Inr c, v)" "f y c v = (Inl e, t)" by blast
      with Pair Inr have "x # xs = (x # ys) @ y # zs \<and> foldM (x # ys) a f s = (Inr c, v) \<and> f y c v = (Inl e, t)"
        by (simp add: bindM_def)
      then show ?thesis by blast
    qed
  qed
qed

lemma forM_foldM: "forM xs f = foldM xs () (\<lambda>x _. f x)"
  by (induction xs) (simp_all add: seqM_def)

lemma forM_Inl:
  "forM xs f s = (Inl e, t) \<Longrightarrow> \<exists>ys x zs u. xs = ys @ x # zs \<and> forM ys f s = (Inr (), u) \<and> f x u = (Inl e, t)"
  unfolding forM_foldM by (drule foldM_Inl) auto

lemma share_fails: "payout_share E d bal tw p paid s = (Inl e, t) \<Longrightarrow> t = s"
  by (auto simp: payout_share_def Let_def NewCoins_def bindM_Inl seqM_Inl seqM_Inr callx_Inl split: if_splits)

lemma addPool_owed: "addPool p d n s = (Inr u, t) \<Longrightarrow> owed t d' = owed s d' + at d n d'"
  by (auto simp: addPool_def run_simps addInt_Inr ledger_Inr owed_def at_def split: if_splits)

lemma pool_in_ledger: "books_ok E s \<Longrightarrow> PoolBalance s p d \<le> RecountLedger s d"
proof -
  assume ok: "books_ok E s"
  have nn: "0 \<le> kv_sum (in_denom d) m" if "positive m" for m :: "('k \<times> denom, int) fmap"
    using that by (intro kv_sum_nonneg) (auto simp: positive_def in_denom_def less_imp_le)
  have "0 \<le> kv_sum (tab_in d) (Tabs (settle s))"
    using ok by (intro kv_sum_nonneg) (auto simp: amounts_ok_def tab_in_def tab_ok_def less_imp_le)
  moreover have "0 \<le> kv_sum (in_denom d) (Claimables (settle s))" using ok by (intro nn) (simp add: amounts_ok_def)
  moreover have "kv_at (in_denom d) (Pools (settle s)) (p, d) \<le> kv_sum (in_denom d) (Pools (settle s))"
    using ok by (intro kv_sum_ge) (auto simp: fmpred_iff amounts_ok_def positive_def in_denom_def less_imp_le)
  moreover have "kv_at (in_denom d) (Pools (settle s)) (p, d) = PoolBalance s p d"
    by (simp add: kv_at_def PoolBalance_def getInt_def in_denom_def split: option.splits)
  ultimately show ?thesis by (simp add: recount)
qed

lemma addPool_runs:
  assumes "books_ok E s" "gap s d = 0" "0 \<le> n" "n \<le> PoolBalance s p d"
  shows "\<exists>t. addPool p d (- n) s = (Inr (), t)"
proof -
  have "n \<le> owed s d" using pool_in_ledger [OF assms(1), of p d] assms(2,4) by (simp add: gap_def)
  with assms(4) show ?thesis
    by (auto simp: addPool_def PoolBalance_def owed_def addInt_def ledger_def monad_defs Let_def)
qed

text \<open>Every invariant of the module survives the part of a payout that was done.\<close>

context settle_invariant begin

lemma keepsR_payout_share: "keepsR I (payout_share E d bal tw p paid)"
  unfolding payout_share_def Let_def by (intro steps)

lemma keepsR_payout_pool: "keepsR I (payout_pool E ps tw en)"
  unfolding payout_pool_def by (intro steps keepsR_payout_share)

lemma part_kept:
  assumes "I s" "forM ys (payout_pool E ps tw) (interval_started s) = (Inr (), u)"
    and "foldM qs 0 (payout_share E d bal tw) u = (Inr paid, v)"
  shows "I u" "I v" "I (interval_started s)"
proof -
  show i: "I (interval_started s)" using interval(2) [OF interval(1) [OF assms(1)]] by (simp add: interval_started_def)
  show u: "I u" by (rule keepsRD [OF keepsR_forM [OF keepsR_payout_pool] i assms(2)])
  show "I v" by (rule keepsRD [OF keepsR_foldM [OF keepsR_payout_share] u assms(3)])
qed

end

lemma interval_started_parts [simp]:
  "PoolBalance (interval_started s) p d = PoolBalance s p d" "ext (interval_started s) = ext s" "owed (interval_started s) d = owed s d"
  "Claimables (settle (interval_started s)) = Claimables (settle s)" "Tabs (settle (interval_started s)) = Tabs (settle s)"
  "gap (interval_started s) d = gap s d"
  by (simp_all add: interval_started_def PoolBalance_def owed_def gap_def recount)

lemma paid_prefix:
  assumes "0 \<le> bal" "\<forall>p \<in> set ps. 0 < snd p" "tw = sum_list (map snd ps)" "0 < tw"
  shows "0 \<le> paid_out (take k ps) tw bal" "paid_out (take k ps) tw bal \<le> bal"
proof -
  have part: "0 \<le> payout_part bal tw (snd p)" if "p \<in> set ps" for p
    using quo_part [of bal "snd p" tw] assms that by simp
  have nn: "0 \<le> paid_out qs tw bal" if "set qs \<subseteq> set ps" for qs
    unfolding paid_out_def using part that by (intro sum_list_nonneg) auto
  show "0 \<le> paid_out (take k ps) tw bal" by (rule nn) (rule set_take_subset)
  have "paid_out ps tw bal = paid_out (take k ps @ drop k ps) tw bal" by simp
  also have "\<dots> = paid_out (take k ps) tw bal + paid_out (drop k ps) tw bal" by (simp add: paid_out_def del: append_take_drop_id)
  finally have "paid_out ps tw bal = paid_out (take k ps) tw bal + paid_out (drop k ps) tw bal" .
  moreover have "0 \<le> paid_out (drop k ps) tw bal" by (rule nn) (rule set_drop_subset)
  moreover have "paid_out ps tw bal \<le> bal"
    using assms by (intro paid_out_bounds) auto
  ultimately show "paid_out (take k ps) tw bal \<le> bal" by linarith
qed

text \<open>
  A payout that fails has paid some pools whole, and some of the payees of the next one: the
  bookkeeping of a pool, which comes after its transfers, cannot fail.
\<close>

lemma pools_paid:
  assumes "forM ys (payout_pool E ps tw) (interval_started s) = (Inr (), u)" "bank_laws E" "books_ok E s"
    and "pool_entries s PoolValidator = ys @ en # zs" "0 < tw" "\<forall>p \<in> set ps. 0 < snd p"
  shows "PoolBalance u PoolValidator (fst en) = snd en" "PoolBalance s PoolValidator (fst en) = snd en"
    "\<forall>a. a \<noteq> moduleAddr E \<longrightarrow> BankBalance E (ext u) a (fst en) = BankBalance E (ext s) a (fst en)"
    "pool \<noteq> PoolValidator \<Longrightarrow> PoolBalance u pool d = PoolBalance s pool d"
proof -
  have d: "distinct (map fst ys)" "fst en \<notin> fst ` set ys"
    using distinct_pool_entries [of s PoolValidator] unfolding assms(4) by auto
  have "(fst en, snd en) \<in> set (pool_entries s PoolValidator)" unfolding assms(4) by simp
  then show p: "PoolBalance s PoolValidator (fst en) = snd en"
    unfolding set_pool_entries by (simp add: PoolBalance_def getInt_def)
  have pos: "\<forall>e \<in> set ys. 0 \<le> snd e"
  proof
    fix e assume "e \<in> set ys"
    then have "(fst e, snd e) \<in> set (pool_entries s PoolValidator)" unfolding assms(4) by simp
    then have "fmlookup (Pools (settle s)) (PoolValidator, fst e) = Some (snd e)" unfolding set_pool_entries .
    then show "0 \<le> snd e" using assms(3) unfolding amounts_ok_def positive_def by (blast intro: less_imp_le)
  qed
  have none: "map_of ys (fst en) = None" using d(2) by (simp add: map_of_eq_None_iff)
  note e = pools_exact [OF assms(1,2) pos assms(5,6) d(1)]
  show "PoolBalance u PoolValidator (fst en) = snd en"
    "\<forall>a. a \<noteq> moduleAddr E \<longrightarrow> BankBalance E (ext u) a (fst en) = BankBalance E (ext s) a (fst en)"
    using e [of PoolValidator "fst en"] by (simp_all add: none p)
  show "PoolBalance u pool d = PoolBalance s pool d" if "pool \<noteq> PoolValidator"
    using e [of pool d] that by simp
qed

lemma payout_fails:
  assumes laws: "bank_laws E" and ok: "books_ok E s" and exact: "\<forall>d. gap s d = 0" and run: "PayoutValidators E s = (Inl e, v)"
  obtains n where "BondedValidators E (ext s) = Inl n" "v = interval_started s"
  | vals ps tw ys d n zs k u paid where "BondedValidators E (ext s) = Inr vals"
    "ps = payees_of E (ext s) vals" "tw = sum_list (map snd ps)" "0 < tw" "pool_entries s PoolValidator = ys @ (d, n) # zs"
    "forM ys (payout_pool E ps tw) (interval_started s) = (Inr (), u)"
    "k < length ps" "foldM (take k ps) 0 (payout_share E d n tw) u = (Inr paid, v)"
proof (cases "BondedValidators E (ext s)")
  case (Inl n)
  with run that(1) show ?thesis by (auto simp: PayoutValidators_run split: if_splits)
next
  case (Inr vals)
  define ps where "ps = payees_of E (ext s) vals"
  define tw where "tw = sum_list (map snd ps)"
  from run Inr have tw: "0 < tw" and loop: "forM (pool_entries s PoolValidator) (payout_pool E ps tw) (interval_started s) = (Inl e, v)"
    by (auto simp: PayoutValidators_run ps_def tw_def split: if_splits)
  from forM_Inl [OF loop] obtain ys en zs u where split: "pool_entries s PoolValidator = ys @ en # zs"
    and u: "forM ys (payout_pool E ps tw) (interval_started s) = (Inr (), u)" and stop: "payout_pool E ps tw en u = (Inl e, v)" by blast
  have w: "\<forall>p \<in> set ps. 0 < snd p" unfolding ps_def by (intro ballI payee_weight)
  note paid = pools_paid [OF u laws ok split tw w]
  have nn: "0 \<le> snd en" using paid(2) ok by (metis PoolBalance_def amounts_ok_def getInt_nonneg)
  consider (share) "foldM ps 0 (payout_share E (fst en) (snd en) tw) u = (Inl e, v)"
    | (book) sum x where "foldM ps 0 (payout_share E (fst en) (snd en) tw) u = (Inr sum, x)"
        "addPool PoolValidator (fst en) (- sum) x = (Inl e, v)"
    using stop by (auto simp: payout_pool_def bindM_Inl seqM_Inl emit_def)
  then show ?thesis
  proof cases
    case share
    from foldM_Inl [OF this] obtain qs p rs sum x where q: "ps = qs @ p # rs"
      "foldM qs 0 (payout_share E (fst en) (snd en) tw) u = (Inr sum, x)"
      "payout_share E (fst en) (snd en) tw p sum x = (Inl e, v)" by blast
    from share_fails [OF q(3)] q(2) have "foldM (take (length qs) ps) 0 (payout_share E (fst en) (snd en) tw) u = (Inr sum, v)"
      by (simp add: q(1))
    with that(2) [OF Inr ps_def tw_def tw, of ys "fst en" "snd en" zs u "length qs" sum] split u show ?thesis
      by (simp add: q(1))
  next
    case (book sum x)
    have "0 \<le> sum" "sum \<le> PoolBalance x PoolValidator (fst en)"
      using shares_exact [OF book(1) laws nn tw w] paid_prefix [OF nn w tw_def tw, of "length ps"] paid(1)
      by (simp_all add: PoolBalance_def)
    moreover have "books_ok E x" by (rule stores.part_kept(2) [OF ok u book(1)])
    moreover have "gap x (fst en) = 0"
      using payout_shares [OF book(1) laws] payout_pools_books [OF u laws] exact by (simp add: books_def)
    ultimately show ?thesis using addPool_runs book(2) by (metis Inl_Inr_False prod.inject)
  qed
qed

section \<open>What a failed payout leaves\<close>

text \<open>
  The coins of denom \<open>d\<close> that a failing payout at the end of the block sent without booking them:
  what left the module's account beyond what left the validator pool.
\<close>

definition stranded :: "'x env \<Rightarrow> 'x chain \<Rightarrow> denom \<Rightarrow> int" where
  "stranded E s d =
     (case PayoutValidators E s of
        (Inr _, _) \<Rightarrow> 0
      | (Inl _, v) \<Rightarrow> max 0 (BankBalance E (ext s) (moduleAddr E) d - BankBalance E (ext v) (moduleAddr E) d
          - (PoolBalance s PoolValidator d - PoolBalance v PoolValidator d)))"

lemma stranded_nonneg: "0 \<le> stranded E s d"
  by (simp add: stranded_def split: prod.splits sum.splits)

definition besides_pool :: "'x chain \<Rightarrow> 'x chain \<Rightarrow> bool" where
  "besides_pool s t \<longleftrightarrow> Claimables (settle t) = Claimables (settle s) \<and> Tabs (settle t) = Tabs (settle s) \<and>
     (\<forall>d. owed t d - PoolBalance t PoolValidator d = owed s d - PoolBalance s PoolValidator d)"

lemma shares_besides: "foldM ps a (payout_share E d bal tw) s = (Inr paid, t) \<Longrightarrow> bank_laws E \<Longrightarrow> settle t = settle s"
  using payout_shares by fastforce

lemma pool_besides:
  assumes "bank_laws E" "payout_pool E ps tw en s = (Inr (), t)"
  shows "besides_pool s t"
proof -
  from assms(2) obtain paid s1 s2 where a: "foldM ps 0 (payout_share E (fst en) (snd en) tw) s = (Inr paid, s1)"
    and b: "addPool PoolValidator (fst en) (- paid) s1 = (Inr (), s2)"
    and t: "settle t = settle s2" by (auto simp: payout_pool_def run_simps)
  have "Claimables (settle s2) = Claimables (settle s1)" "Tabs (settle s2) = Tabs (settle s1)"
    using arg_cong [OF addPool_Inr(2) [OF b], of "\<lambda>z. Claimables (settle z)"]
      arg_cong [OF addPool_Inr(2) [OF b], of "\<lambda>z. Tabs (settle z)"] by simp_all
  then show ?thesis
    using addPool_owed [OF b] addPool_Inr(3) [OF b] shares_besides [OF a assms(1)]
    by (simp add: besides_pool_def t owed_def PoolBalance_def at_def)
qed

lemma pools_besides:
  "forM es (payout_pool E ps tw) s = (Inr u, t) \<Longrightarrow> bank_laws E \<Longrightarrow> besides_pool s t"
proof (induction es arbitrary: s)
  case Nil
  then show ?case by (simp add: besides_pool_def)
next
  case (Cons en es)
  then obtain s1 where "payout_pool E ps tw en s = (Inr (), s1)" "besides_pool s1 t" by (auto simp: run_simps)
  with pool_besides [OF Cons.prems(2)] show ?case by (fastforce simp: besides_pool_def)
qed



lemma part_paid:
  assumes laws: "bank_laws E" and ok: "books_ok E s" and exact: "\<forall>d. gap s d = 0"
    and ps: "ps = payees_of E (ext s) vals" and tw: "tw = sum_list (map snd ps)" "0 < tw"
    and split: "pool_entries s PoolValidator = ys @ (d, n) # zs"
    and u: "forM ys (payout_pool E ps tw) (interval_started s) = (Inr (), u)"
    and v: "foldM (take k ps) 0 (payout_share E d n tw) u = (Inr paid, v)"
  shows "paid = paid_out (take k ps) tw n" "0 \<le> paid" "paid \<le> n" "PoolBalance s PoolValidator d = n" "PoolBalance v PoolValidator d = n"
    and "gap v d' = 0" "slack E s d' - at d paid d' \<le> slack E v d'" "besides_pool s v"
    and "pool \<noteq> PoolValidator \<Longrightarrow> PoolBalance v pool d' = PoolBalance s pool d'"
    and "a \<noteq> moduleAddr E \<Longrightarrow> BankBalance E (ext v) a d = BankBalance E (ext s) a d + paid_out (filter (\<lambda>p. fst p = a) (take k ps)) tw n"
proof -
  have w: "\<forall>p \<in> set ps. 0 < snd p" unfolding ps by (intro ballI payee_weight)
  then have wk: "\<forall>p \<in> set (take k ps). 0 < snd p" by (meson in_set_takeD)
  note p = pools_paid [OF u laws ok split tw(2) w, unfolded fst_conv snd_conv]
  have nn: "0 \<le> n" using p(2) ok by (metis PoolBalance_def amounts_ok_def getInt_nonneg)
  note sh = shares_exact [OF v laws nn tw(2) wk]
  show paid: "paid = paid_out (take k ps) tw n" using sh by simp
  show "0 \<le> paid" "paid \<le> n" unfolding paid by (rule paid_prefix [OF nn w tw])+
  show "PoolBalance s PoolValidator d = n" by (rule p(2))
  show "PoolBalance v PoolValidator d = n" using p(1) sh by (simp add: PoolBalance_def)
  have b: "books E s v (at d paid)"
    using books_add [OF balanced_trans [OF interval_started_books payout_pools_books [OF u laws]] conjunct1 [OF payout_shares [OF v laws]]]
    by simp
  then show "gap v d' = 0" "slack E s d' - at d paid d' \<le> slack E v d'" using exact by (simp_all add: books_def)
  have "besides_pool (interval_started s) u" by (rule pools_besides [OF u laws])
  then show "besides_pool s v" using sh by (simp add: besides_pool_def owed_def PoolBalance_def interval_started_def)
  show "PoolBalance v pool d' = PoolBalance s pool d'" if "pool \<noteq> PoolValidator"
    using p(4) [OF that, of d'] sh by (simp add: PoolBalance_def)
  show "BankBalance E (ext v) a d = BankBalance E (ext s) a d + paid_out (filter (\<lambda>p. fst p = a) (take k ps)) tw n"
    if "a \<noteq> moduleAddr E" using p(3) sh that by (simp add: at_def)
qed

lemma stranded_bound:
  assumes "PayoutValidators E s = (Inl e, v)" "besides_pool s v" "0 \<le> c" "slack E s d - c \<le> slack E v d"
  shows "stranded E s d \<le> c" "slack E s d - stranded E s d \<le> slack E v d"
  using assms by (auto simp: stranded_def slack_def besides_pool_def dest!: spec [of _ d])

text \<open>What a failing payout keeps: every invariant of the module and exact books; the coverage of a denom falls by what was stranded.\<close>

lemma failed_payout_books:
  assumes laws: "bank_laws E" and ok: "books_ok E s" and exact: "\<forall>d. gap s d = 0" and run: "PayoutValidators E s = (Inl e, v)"
  shows "gap v d = 0 \<and> slack E s d - stranded E s d \<le> slack E v d"
  using laws ok exact run
proof (rule payout_fails)
  fix n assume "v = interval_started s"
  then have "besides_pool s v" "slack E s d - 0 \<le> slack E v d" "gap v d = 0"
    using exact by (simp_all add: besides_pool_def slack_def)
  with stranded_bound [OF run this(1) order_refl this(2)] show ?thesis by simp
next
  fix vals ps tw ys d0 n zs k u paid
  assume ps: "ps = payees_of E (ext s) vals" "tw = sum_list (map snd ps)" "0 < tw" "pool_entries s PoolValidator = ys @ (d0, n) # zs"
    "forM ys (payout_pool E ps tw) (interval_started s) = (Inr (), u)"
    "foldM (take k ps) 0 (payout_share E d0 n tw) u = (Inr paid, v)"
  note p = part_paid [OF laws ok exact ps]
  have "0 \<le> at d0 paid d" using p(2) by (simp add: at_def)
  from stranded_bound [OF run p(8) this p(7)] p(6) show ?thesis by blast
qed

lemma failed_payout_kept:
  assumes "bank_laws E" "books_ok E s" "\<forall>d. gap s d = 0" "PayoutValidators E s = (Inl e, v)"
  shows "\<exists>ys ps tw qs d n u paid. v = interval_started s \<or>
     forM ys (payout_pool E ps tw) (interval_started s) = (Inr (), u) \<and> foldM qs 0 (payout_share E d n tw) u = (Inr paid, v)"
  using assms by (rule payout_fails) blast+


end
