(* ===== verification/SettleSteps.thy ===== *)
theory SettleSteps
  imports SettlePayout
begin

text \<open>
  The steps of \<open>x/settle\<close>: its messages, the calls of the precompile, the block hooks, and everything
  that happens elsewhere on the chain. The invariant of all reachable states: exact ledgers, a
  solvent module account, well-formed stores and a bounded supply of gas credits.
\<close>

section \<open>Supply of gas credits\<close>

definition credit_room :: "'x env \<Rightarrow> 'x chain \<Rightarrow> int" where
  "credit_room E s =
     (case GenesisCreditSupply (settle s) of
        None \<Rightarrow> 0
      | Some g \<Rightarrow> g + (case CreditsMinted (settle s) of None \<Rightarrow> 0 | Some m \<Rightarrow> m) - BankSupply E (ext s) (creditDenom E))"

lemma credit_room_cong:
  "BankSupply E (ext t) = BankSupply E (ext s) \<Longrightarrow> GenesisCreditSupply (settle t) = GenesisCreditSupply (settle s) \<Longrightarrow>
   CreditsMinted (settle t) = CreditsMinted (settle s) \<Longrightarrow> credit_room E t = credit_room E s"
  by (simp add: credit_room_def split: option.splits)

lemma room_booked:
  "ledger d n s = (Inr u, t) \<Longrightarrow> credit_room E t = credit_room E s"
  "addPool p d n s = (Inr u, t) \<Longrightarrow> credit_room E t = credit_room E s"
  "addClaimable i d n s = (Inr u, t) \<Longrightarrow> credit_room E t = credit_room E s"
  by (auto simp: ledger_Inr addPool_def addClaimable_def run_simps addInt_Inr intro!: credit_room_cong split: if_splits)

interpretation credits: settle_invariant_tabs E "\<lambda>s. bank_laws E \<longrightarrow> c \<le> credit_room E s" for E :: "'x env" and c
proof unfold_locales
  fix s t :: "'x chain" and i p w u
  assume "bank_laws E \<longrightarrow> c \<le> credit_room E s" "RecordSettlement E i p w s = (Inr u, t)"
  then show "bank_laws E \<longrightarrow> c \<le> credit_room E t" by (auto dest!: RecordSettlement_apps simp: credit_room_def cong: option.case_cong)
next
  fix s :: "'x chain" and a cs x
  assume "bank_laws E \<longrightarrow> c \<le> credit_room E s" "BankA2M E a settle_module cs (ext s) = Inr x"
  then show "bank_laws E \<longrightarrow> c \<le> credit_room E (s\<lparr>ext := x\<rparr>)"
    using bank_A2M(2) [of E a settle_module cs "ext s" x "creditDenom E"] by (simp add: credit_room_def cong: option.case_cong)
next
  fix s :: "'x chain" and a cs x
  assume "bank_laws E \<longrightarrow> c \<le> credit_room E s" "BankM2A E settle_module a cs (ext s) = Inr x"
  then show "bank_laws E \<longrightarrow> c \<le> credit_room E (s\<lparr>ext := x\<rparr>)"
    using bank_M2A(3) [of E settle_module a cs "ext s" x "creditDenom E"] by (simp add: credit_room_def cong: option.case_cong)
next
  show "keepsR (\<lambda>s. bank_laws E \<longrightarrow> c \<le> credit_room E s) (ledger d n)"
    "keepsR (\<lambda>s. bank_laws E \<longrightarrow> c \<le> credit_room E s) (addPool pool d n)"
    "keepsR (\<lambda>s. bank_laws E \<longrightarrow> c \<le> credit_room E s) (addClaimable i d n)"
    "keepsR (\<lambda>s. bank_laws E \<longrightarrow> c \<le> credit_room E s) (addInt RelayerPaid RelayerPaid_update d n)"
    for d n pool i
    by (rule keepsRI, simp add: room_booked)+ (rule keepsRI, simp add: addInt_Inr credit_room_def cong: option.case_cong)
next
  show "keepsR (\<lambda>s. bank_laws E \<longrightarrow> c \<le> credit_room E s) (mintCredits E a n)" for a n
  proof (rule keepsRI, rule impI)
    fix s r t assume I: "bank_laws E \<longrightarrow> c \<le> credit_room E s" and run: "mintCredits E a n s = (Inr r, t)" and laws: "bank_laws E"
    from run show "c \<le> credit_room E t"
    proof (rule mintCredits_Inr)
      fix x y
      assume x: "BankMint E settle_module (coins1 (creditDenom E) n) (ext s) = Inr x"
        "BankM2A E settle_module a (coins1 (creditDenom E) n) x = Inr y"
        and t: "t = s\<lparr>ext := y, settle := (settle s)\<lparr>CreditsMinted := Some ((case CreditsMinted (settle s) of None \<Rightarrow> 0 | Some m \<Rightarrow> m) + n)\<rparr>\<rparr>"
      have "BankSupply E y (creditDenom E) = BankSupply E (ext s) (creditDenom E) + n"
        using bank_Mint(2) [OF laws x(1), of "creditDenom E"] bank_M2A(3) [OF laws x(2), of "creditDenom E"] by simp
      with I laws show ?thesis by (simp add: t credit_room_def split: option.splits)
    qed
  qed
next
  show "keepsR (\<lambda>s. bank_laws E \<longrightarrow> c \<le> credit_room E s) (ApproveApp E a i d n)" for a i d n
    by (rule keepsRI) (auto simp: ApproveApp_def GetApp_def run_simps Let_def credit_room_def cong: option.case_cong split: if_splits)
  show "keepsR (\<lambda>s. bank_laws E \<longrightarrow> c \<le> credit_room E s) (SpendAllowance E a i d n)" for a i d n
    by (rule keepsRI) (auto simp: SpendAllowance_def run_simps Let_def credit_room_def cong: option.case_cong split: if_splits)
next
  show "keepsR (\<lambda>s. bank_laws E \<longrightarrow> c \<le> credit_room E s) (addTotals d n f)" for d n f
    by (rule keepsRI) (auto simp: addTotals_def run_simps credit_room_def cong: option.case_cong)
qed (simp_all add: credit_room_def cong: option.case_cong)

lemma BurnGasFees_room:
  assumes "bank_laws E" "BurnGasFees E s = (r, t)"
  shows "credit_room E s \<le> credit_room E t"
proof (cases "t = s")
  case False
  let ?c = "creditDenom E"
  from assms(2) False obtain n x where n: "0 < n"
    and x: "BankM2M E fee_collector settle_module (coins1 ?c n) (ext s) = Inr x"
    and t: "(ext t = x \<or> BankBurn E settle_module (coins1 ?c n) x = Inr (ext t)) \<and> settle t = settle s"
    by (auto simp: BurnGasFees_def bindM_def gets_def ret_def NewCoins_def seqM_def check_def fail_def attempt_def callx_def
        Let_def emit_def modify_def split: if_splits sum.splits prod.splits)
  have "BankSupply E (ext t) ?c \<le> BankSupply E (ext s) ?c"
    using bank_M2M(2) [OF assms(1) x, of ?c] bank_Burn(2) [OF assms(1), of settle_module "coins1 ?c n" x "ext t" ?c] t n by auto
  with t show ?thesis by (simp add: credit_room_def split: option.splits)
qed simp

section \<open>Steps\<close>

fun settle_payer :: "settle_msg \<Rightarrow> string" where
  "settle_payer (MsgPay p q c) = p"
| "settle_payer (MsgBuyCredits b r c) = b"
| "settle_payer _ = []"

text \<open>
  A call of the module: a message, a call of the precompile, or anything that happens elsewhere and
  takes nothing from the module's account and mints no gas credits.
\<close>

inductive settle_call :: "'x env \<Rightarrow> 'x chain \<Rightarrow> 'x chain \<Rightarrow> bool" for E where
  message: "settle_handle E m s = (r, t) \<Longrightarrow> AccFromBech32 E (settle_payer m) \<noteq> Some (moduleAddr E) \<Longrightarrow> settle_call E s t"
| pay: "atomic (Pay E req) s = (r, t) \<Longrightarrow> \<not> rq_FundsInModule req \<Longrightarrow> rq_Payer req \<noteq> moduleAddr E \<Longrightarrow> settle_call E s t"
| tab_pay: "atomic (TabDeposit E a p q c True) s = (r, t) \<Longrightarrow> is_account E p \<Longrightarrow> is_account E q \<Longrightarrow> p \<noteq> moduleAddr E \<Longrightarrow>
    settle_call E s t"
| close_tab: "atomic (CloseTab E sn i p q d) s = (r, t) \<Longrightarrow> is_account E p \<Longrightarrow> is_account E q \<Longrightarrow> settle_call E s t"
| claim: "atomic (ClaimRevenue E i ds) s = (r, t) \<Longrightarrow> settle_call E s t"
| buy_credits: "atomic (BuyCredits E b to c) s = (r, t) \<Longrightarrow> b \<noteq> moduleAddr E \<Longrightarrow> settle_call E s t"
| approve: "atomic (ApproveApp E a i d n) s = (r, t) \<Longrightarrow> settle_call E s t"
| spend: "atomic (SpendAllowance E a i d n) s = (r, t) \<Longrightarrow> settle_call E s t"
| other: "settle t = settle s \<Longrightarrow>
    \<forall>d. BankBalance E (ext s) (moduleAddr E) d \<le> BankBalance E (ext t) (moduleAddr E) d \<Longrightarrow>
    BankSupply E (ext t) (creditDenom E) \<le> BankSupply E (ext s) (creditDenom E) \<Longrightarrow> settle_call E s t"

text \<open>
  A step of the chain: a call, or one of the block hooks. The end of a block is a step whatever the
  payout of the validators answers, unless it panics, which stops the chain.
\<close>

inductive settle_step :: "'x env \<Rightarrow> 'x chain \<Rightarrow> 'x chain \<Rightarrow> bool" for E where
  call: "settle_call E s t \<Longrightarrow> settle_step E s t"
| begin_block: "settle_BeginBlock E s = (r, t) \<Longrightarrow> settle_step E s t"
| end_block: "settle_EndBlock E s = (Inr u, t) \<Longrightarrow> settle_step E s t"

definition settle_good :: "'x env \<Rightarrow> 'x chain \<Rightarrow> bool" where
  "settle_good E s \<longleftrightarrow> books_ok E s \<and> (\<forall>d. gap s d = 0) \<and> 0 \<le> credit_room E s"

text \<open>The module holds what it owes, but for what failed payouts have sent without booking it.\<close>

definition covered :: "'x env \<Rightarrow> (denom \<Rightarrow> int) \<Rightarrow> 'x chain \<Rightarrow> bool" where
  "covered E lost s \<longleftrightarrow> (\<forall>d. 0 \<le> lost d \<and> 0 \<le> slack E s d + lost d)"

text \<open>The same steps, with an account of those coins.\<close>

inductive settle_steps_losing :: "'x env \<Rightarrow> 'x chain \<Rightarrow> (denom \<Rightarrow> int) \<Rightarrow> 'x chain \<Rightarrow> bool" for E s0 where
  start: "settle_steps_losing E s0 (\<lambda>d. 0) s0"
| call: "settle_steps_losing E s0 lost s \<Longrightarrow> settle_call E s t \<Longrightarrow> settle_steps_losing E s0 lost t"
| begin_block: "settle_steps_losing E s0 lost s \<Longrightarrow> settle_BeginBlock E s = (r, t) \<Longrightarrow> settle_steps_losing E s0 lost t"
| end_block: "settle_steps_losing E s0 lost s \<Longrightarrow> settle_EndBlock E s = (Inr u, t) \<Longrightarrow>
    settle_steps_losing E s0 (\<lambda>d. lost d + stranded E s d) t"

lemma steps_losing: "(settle_step E)\<^sup>*\<^sup>* s0 s \<longleftrightarrow> (\<exists>lost. settle_steps_losing E s0 lost s)"
proof
  assume "(settle_step E)\<^sup>*\<^sup>* s0 s"
  then show "\<exists>lost. settle_steps_losing E s0 lost s"
    by (induction rule: rtranclp_induct) (auto elim!: settle_step.cases intro: settle_steps_losing.intros)
next
  have "settle_steps_losing E s0 lost s \<Longrightarrow> (settle_step E)\<^sup>*\<^sup>* s0 s" for lost
    by (induction rule: settle_steps_losing.induct) (auto intro: rtranclp.rtrancl_into_rtrancl settle_step.intros)
  then show "\<exists>lost. settle_steps_losing E s0 lost s \<Longrightarrow> (settle_step E)\<^sup>*\<^sup>* s0 s" by blast
qed

lemma calls_lose_nothing:
  assumes "(settle_call E)\<^sup>*\<^sup>* s t" "settle_steps_losing E s0 lost s"
  shows "settle_steps_losing E s0 lost t"
  using assms by (induction rule: rtranclp_induct) (auto intro: settle_steps_losing.call)

definition settle_env :: "'x env \<Rightarrow> bool" where
  "settle_env E \<longleftrightarrow> bank_laws E \<and> text_laws E \<and> ModuleAddress E fee_collector \<noteq> moduleAddr E"

text \<open>What a step with no failed payout does: the books stay exact, the coverage does not fall.\<close>

abbreviation settles :: "'x env \<Rightarrow> 'x chain \<Rightarrow> 'x chain \<Rightarrow> bool" where
  "settles E s t \<equiv> balanced E s t \<and> books_ok E t \<and> credit_room E s \<le> credit_room E t"

lemma good_after: "settle_good E s \<Longrightarrow> settles E s t \<Longrightarrow> settle_good E t"
  unfolding settle_good_def books_def by (metis order_trans)

lemma covered_after: "covered E lost s \<Longrightarrow> balanced E s t \<Longrightarrow> covered E lost t"
  unfolding covered_def books_def by (simp add: algebra_simps) (metis add_mono order_trans order_refl)

lemma atomic_cases:
  assumes "atomic m s = (r, t)" "P s" "\<And>x. m s = (Inr x, t) \<Longrightarrow> P t"
  shows "P t"
  using assms by (cases r) (auto simp: atomic_Inr atomic_Inl)

lemma message_books:
  assumes laws: "bank_laws E" "text_laws E" and ok: "books_ok E s"
    and payer: "AccFromBech32 E (settle_payer m) \<noteq> Some (moduleAddr E)" and run: "settle_run E m s = (Inr r, t)"
  shows "balanced E s t"
proof (cases m)
  case (MsgPay p q c)
  with run obtain a b res where "AccFromBech32 E p = Some a"
    and "Pay E \<lparr>rq_Payer = a, rq_Payee = b, rq_Amount = c, rq_App = None, rq_Referrer = [], rq_FundsInModule = False\<rparr> s = (Inr res, t)"
    by (auto simp: msg_Pay_def run_simps)
  with MsgPay payer show ?thesis by (intro Pay_books [OF laws(1)]) auto
next
  case (MsgClaimRevenue i ds)
  with run show ?thesis by (auto simp: run_simps intro: ClaimRevenue_books [OF laws(1)])
next
  case (MsgBuyCredits b to c)
  with run obtain a out where "AccFromBech32 E b = Some a" "\<exists>r. BuyCredits E a r c s = (Inr out, t)"
    by (auto simp: msg_BuyCredits_def run_simps split: if_splits)
  with MsgBuyCredits payer show ?thesis by (auto intro: BuyCredits_books [OF laws(1)])
next
  case (MsgCloseTab sn i p q d)
  with run obtain x a b res where "AccFromBech32 E p = Some a" "AccFromBech32 E q = Some b"
    and c: "CloseTab E x i a b d s = (Inr res, t)" by (auto simp: msg_CloseTab_def run_simps)
  with parsed_account [OF laws(2)] have "is_account E a" "is_account E b" by blast+
  from CloseTab_books [OF laws ok this c] show ?thesis .
next
  case (MsgWithdrawTreasury sg to cs)
  with run show ?thesis by (auto simp: msg_WithdrawTreasury_def run_simps intro: WithdrawTreasury_books [OF laws(1)])
next
  case (MsgDisburseRelayerPool sg to c b)
  with run show ?thesis by (auto simp: msg_DisburseRelayerPool_def run_simps intro: DisburseRelayerPool_books [OF laws(1)])
next
  case (MsgSettleUpdateParams a p)
  with run have "t = s\<lparr>settle := (settle s)\<lparr>s_Params := Some p\<rparr>\<rparr>" by (auto simp: msg_settle_UpdateParams_def run_simps)
  then show ?thesis by (intro books_same) simp_all
qed

lemma credit_kept:
  "bank_laws E \<Longrightarrow> keepsR (\<lambda>u. bank_laws E \<longrightarrow> credit_room E s \<le> credit_room E u) m \<Longrightarrow> m s = (Inr x, t) \<Longrightarrow>
   credit_room E s \<le> credit_room E t"
  by (drule keepsRD [of _ m s x t]) simp_all

lemma settle_call_settles:
  assumes env: "settle_env E" and ok: "books_ok E s" and step: "settle_call E s t"
  shows "settles E s t"
proof -
  have laws: "bank_laws E" "text_laws E" using env by (simp_all add: settle_env_def)
  have same: "settles E s s" using ok by (simp add: books_refl)
  note room = credit_kept [OF laws(1)]
  show ?thesis
    using step
  proof cases
    case (message m r)
    from message(1) same show ?thesis
      unfolding settle_handle_def
    proof (rule atomic_cases)
      fix x assume run: "settle_run E m s = (Inr x, t)"
      show "settles E s t"
        using message_books [OF laws ok message(2) run] keepsRD [OF stores.keepsR_settle_run ok run]
          room [OF credits.keepsR_settle_run run] by blast
    qed
  next
    case (pay req r)
    from pay(1) same show ?thesis
    proof (rule atomic_cases)
      fix x assume run: "Pay E req s = (Inr x, t)"
      show "settles E s t"
        using Pay_books [OF laws(1) pay(2,3) run] keepsRD [OF stores.keepsR_Pay ok run]
          room [OF credits.keepsR_Pay run] by blast
    qed
  next
    case (tab_pay a p q c r)
    from tab_pay(1) same show ?thesis
    proof (rule atomic_cases)
      fix x assume run: "TabDeposit E a p q c True s = (Inr x, t)"
      from TabDeposit_books [OF laws ok tab_pay(2-4) run] show "settles E s t"
        using room [OF credits.keepsR_TabDeposit run] by (auto intro: good_after)
    qed
  next
    case (close_tab sn i p q d r)
    from close_tab(1) same show ?thesis
    proof (rule atomic_cases)
      fix x assume run: "CloseTab E sn i p q d s = (Inr x, t)"
      show "settles E s t"
        using CloseTab_books [OF laws ok close_tab(2,3) run] keepsRD [OF stores.keepsR_CloseTab ok run]
          room [OF credits.keepsR_CloseTab run] by blast
    qed
  next
    case (claim i ds r)
    from claim(1) same show ?thesis
    proof (rule atomic_cases)
      fix x assume run: "ClaimRevenue E i ds s = (Inr x, t)"
      show "settles E s t"
        using ClaimRevenue_books [OF laws(1) run] keepsRD [OF stores.keepsR_ClaimRevenue ok run]
          room [OF credits.keepsR_ClaimRevenue run] by blast
    qed
  next
    case (buy_credits b to c r)
    from buy_credits(1) same show ?thesis
    proof (rule atomic_cases)
      fix x assume run: "BuyCredits E b to c s = (Inr x, t)"
      show "settles E s t"
        using BuyCredits_books [OF laws(1) buy_credits(2) run] keepsRD [OF stores.keepsR_BuyCredits ok run]
          room [OF credits.keepsR_BuyCredits run] by blast
    qed
  next
    case (approve a i d n r)
    from approve(1) same show ?thesis
    proof (rule atomic_cases)
      fix x assume run: "ApproveApp E a i d n s = (Inr x, t)"
      have "balanced E s t"
        using run by (intro books_same) (auto simp: ApproveApp_def GetApp_def run_simps Let_def split: if_splits)
      then show "settles E s t"
        using keepsRD [OF stores.allowed(1) ok run] room [OF credits.allowed(1) run] by auto
    qed
  next
    case (spend a i d n r)
    from spend(1) same show ?thesis
    proof (rule atomic_cases)
      fix x assume run: "SpendAllowance E a i d n s = (Inr x, t)"
      have "balanced E s t"
        using run by (intro books_same) (auto simp: SpendAllowance_def run_simps Let_def split: if_splits)
      then show "settles E s t"
        using keepsRD [OF stores.allowed(2) ok run] room [OF credits.allowed(2) run] by auto
    qed
  next
    case other
    have "balanced E s t" using other(1,2) by (simp add: books_def gap_def slack_def owed_def recount)
    moreover have "credit_room E s \<le> credit_room E t" using other(1,3) by (simp add: credit_room_def split: option.splits)
    ultimately show ?thesis using ok other(1) by auto
  qed
qed

lemma begin_settles:
  assumes "settle_env E" "books_ok E s" "settle_BeginBlock E s = (r, t)"
  shows "settles E s t"
proof -
  have laws: "bank_laws E" using assms(1) by (simp add: settle_env_def)
  from assms(3) have run: "BurnGasFees E s = (r, t)" by (simp add: settle_BeginBlock_def)
  have "settle t = settle s"
    using run by (auto simp: BurnGasFees_def bindM_def gets_def ret_def NewCoins_def seqM_def check_def fail_def attempt_def callx_def
      Let_def emit_def modify_def split: if_splits sum.splits prod.splits)
  with BurnGasFees_books [OF laws _ run] BurnGasFees_room [OF laws run] assms(1,2) show ?thesis
    by (auto simp: settle_env_def)
qed

lemma end_block_run:
  assumes "settle_EndBlock E s = (Inr u, t)"
  obtains r v where "PayoutValidators E s = (r, v)" "t = v \<or> t = safe_mode E v"
proof -
  obtain r v where p: "PayoutValidators E s = (r, v)" by (cases "PayoutValidators E s") blast
  from assms p have "runInvariants E v = (Inr u, t)"
    by (auto simp: settle_EndBlock_def bindM_def attempt_def split: sum.splits err.splits)
  then have "t = v \<or> t = safe_mode E v" by (auto simp: runInvariants_run split: if_splits)
  with p that show ?thesis by blast
qed

lemma safe_mode_parts:
  "settle (safe_mode E v) = settle v" "slack E (safe_mode E v) d = slack E v d" "gap (safe_mode E v) d = gap v d"
  "credit_room E (safe_mode E v) = credit_room E v"
  by (simp_all add: safe_mode_def slack_def gap_def owed_def recount credit_room_def cong: option.case_cong)

lemma end_block_good:
  assumes env: "settle_env E" and good: "settle_good E s" and run: "settle_EndBlock E s = (Inr u, t)"
  shows "settle_good E t \<and> (\<forall>d. slack E s d - stranded E s d \<le> slack E t d)"
proof -
  have laws: "bank_laws E" using env by (simp add: settle_env_def)
  have ok: "books_ok E s" and exact: "\<forall>d. gap s d = 0" and room: "0 \<le> credit_room E s" using good by (simp_all add: settle_good_def)
  from run obtain r v where p: "PayoutValidators E s = (r, v)" and t: "t = v \<or> t = safe_mode E v" by (rule end_block_run)
  have "books_ok E v \<and> credit_room E s \<le> credit_room E v \<and> (\<forall>d. gap v d = 0 \<and> slack E s d - stranded E s d \<le> slack E v d)"
  proof (cases r)
    case (Inr x)
    note p = p [unfolded Inr]
    from PayoutValidators_books [OF laws p] have "gap v d = 0 \<and> slack E s d - stranded E s d \<le> slack E v d" for d
      using exact by (simp add: books_def stranded_def p)
    with keepsRD [OF stores.keepsR_PayoutValidators ok p] credit_kept [OF laws credits.keepsR_PayoutValidators p] show ?thesis by blast
  next
    case (Inl e)
    note p = p [unfolded Inl]
    from failed_payout_kept [OF laws ok exact p] obtain ys ps tw qs d n w paid where "v = interval_started s \<or>
      forM ys (payout_pool E ps tw) (interval_started s) = (Inr (), w) \<and> foldM qs 0 (payout_share E d n tw) w = (Inr paid, v)" by blast
    then have "books_ok E v \<and> (bank_laws E \<longrightarrow> credit_room E s \<le> credit_room E v)"
    proof
      assume v: "v = interval_started s"
      have "books_ok E v" using ok by (simp add: v interval_started_def amounts_ok_def)
      moreover have "credit_room E v = credit_room E s"
        by (simp add: v interval_started_def credit_room_def cong: option.case_cong)
      ultimately show ?thesis by simp
    next
      assume "forM ys (payout_pool E ps tw) (interval_started s) = (Inr (), w) \<and> foldM qs 0 (payout_share E d n tw) w = (Inr paid, v)"
      then have a: "forM ys (payout_pool E ps tw) (interval_started s) = (Inr (), w)" "foldM qs 0 (payout_share E d n tw) w = (Inr paid, v)"
        by blast+
      have "bank_laws E \<longrightarrow> credit_room E s \<le> credit_room E s" by simp
      from stores.part_kept(2) [OF ok a] credits.part_kept(2) [OF this a] show ?thesis by blast
    qed
    with failed_payout_books [OF laws ok exact p] laws show ?thesis by blast
  qed
  with t room show ?thesis by (auto simp: settle_good_def safe_mode_parts)
qed

lemma steps_losing_good:
  assumes "settle_env E" "settle_good E s0" "covered E (\<lambda>d. 0) s0" "settle_steps_losing E s0 lost s"
  shows "settle_good E s \<and> covered E lost s"
  using assms(4)
proof induction
  case start
  then show ?case using assms(2,3) by blast
next
  case (call lost s t)
  then have "settles E s t" by (intro settle_call_settles [OF assms(1)]) (simp_all add: settle_good_def)
  with call.IH show ?case by (blast intro: good_after covered_after)
next
  case (begin_block lost s r t)
  then have "settles E s t" by (intro begin_settles [OF assms(1)]) (simp_all add: settle_good_def)
  with begin_block.IH show ?case by (blast intro: good_after covered_after)
next
  case (end_block lost s u t)
  then have e: "settle_good E t" "\<forall>d. slack E s d - stranded E s d \<le> slack E t d"
    using end_block_good [OF assms(1)] by blast+
  have "0 \<le> lost d + stranded E s d \<and> 0 \<le> slack E t d + (lost d + stranded E s d)" for d
    using end_block.IH e(2) [rule_format, of d] stranded_nonneg [of E s d] by (simp add: covered_def) (smt (verit) diff_add_cancel)
  with e(1) show ?case by (simp add: covered_def)
qed

section \<open>Parameters\<close>

abbreviation config_ok :: "'x env \<Rightarrow> 'x chain \<Rightarrow> bool" where
  "config_ok E s \<equiv> settle_params_Validate E (settle_GetParams s)"

text \<open>Every operation leaves parameters that pass their validation.\<close>

lemma config_same: "s_Params (settle t) = s_Params (settle s) \<Longrightarrow> settle_GetParams t = settle_GetParams s"
  by (simp add: settle_GetParams_def)

lemma config_booked:
  "ledger d n s = (Inr u, t) \<Longrightarrow> settle_GetParams t = settle_GetParams s"
  "addPool p d n s = (Inr u, t) \<Longrightarrow> settle_GetParams t = settle_GetParams s"
  "addClaimable i d n s = (Inr u, t) \<Longrightarrow> settle_GetParams t = settle_GetParams s"
  "addInt RelayerPaid RelayerPaid_update d n s = (Inr m, t) \<Longrightarrow> settle_GetParams t = settle_GetParams s"
  "mintCredits E a n s = (Inr c, t) \<Longrightarrow> settle_GetParams t = settle_GetParams s"
  by (auto simp: ledger_Inr addPool_def addClaimable_def run_simps addInt_Inr elim!: mintCredits_Inr intro!: config_same split: if_splits)

interpretation config: settle_invariant_tabs E "config_ok E" for E :: "'x env"
proof unfold_locales
  fix s t :: "'x chain" and i p w u assume "config_ok E s" "RecordSettlement E i p w s = (Inr u, t)"
  then show "config_ok E t" by (auto dest!: RecordSettlement_apps simp: settle_GetParams_def)
next
  show "keepsR (config_ok E) (ledger d n)" "keepsR (config_ok E) (addPool pool d n)" "keepsR (config_ok E) (addClaimable i d n)"
    "keepsR (config_ok E) (addInt RelayerPaid RelayerPaid_update d n)" "keepsR (config_ok E) (mintCredits E a n)" for d n pool i a
    by (rule keepsRI, simp add: config_booked)+
next
  show "keepsR (config_ok E) (ApproveApp E a i d n)" for a i d n
    by (rule keepsRI) (auto simp: ApproveApp_def GetApp_def run_simps Let_def settle_GetParams_def split: if_splits)
  show "keepsR (config_ok E) (SpendAllowance E a i d n)" for a i d n
    by (rule keepsRI) (auto simp: SpendAllowance_def run_simps Let_def settle_GetParams_def split: if_splits)
next
  show "keepsR (config_ok E) (addTotals d n f)" for d n f
    by (rule keepsRI) (auto simp: addTotals_def run_simps settle_GetParams_def)
qed (simp_all add: settle_GetParams_def)

lemma config_atomic: "keepsR (config_ok E) m \<Longrightarrow> config_ok E s \<Longrightarrow> atomic m s = (r, t) \<Longrightarrow> config_ok E t"
  by (rule keepsD [OF atomic_keeps])

lemmas config_keepers = config.keepsR_Pay config.keepsR_TabDeposit config.keepsR_CloseTab config.keepsR_ClaimRevenue
  config.keepsR_BuyCredits config.allowed

lemma call_config:
  assumes "settle_call E s t" "config_ok E s"
  shows "config_ok E t"
  using assms
proof cases
  case (message m r)
  with assms(2) show ?thesis by (metis config.keeps_settle_handle)
next
  case other
  with assms(2) show ?thesis by (simp add: settle_GetParams_def)
qed (rule config_atomic [OF _ assms(2)], rule config_keepers, assumption)+

text \<open>The payout does not write the parameters, however it ends.\<close>

lemma payout_params: "keeps (\<lambda>s. s_Params (settle s) = p) (PayoutValidators E)"
proof -
  have mods: "keeps (\<lambda>s. s_Params (settle s) = p) (callx f)" "keeps (\<lambda>s. s_Params (settle s) = p) (emit ev)"
    "keeps (\<lambda>s. s_Params (settle s) = p) (NewCoins E d n)" "keeps (\<lambda>s. s_Params (settle s) = p) (addPool pl d n)" for f ev d n pl
    unfolding callx_def emit_def NewCoins_def addPool_def addInt_def ledger_def
    by (rule keepsI, auto simp: monad_defs Let_def split: sum.splits if_splits)+
  have share: "keeps (\<lambda>s. s_Params (settle s) = p) (payout_share E d bal tw q paid)" for d bal tw q paid
    unfolding payout_share_def Let_def by (intro keeps_intros mods)
  have pool: "keeps (\<lambda>s. s_Params (settle s) = p) (payout_pool E ps tw en)" for ps tw en
    unfolding payout_pool_def by (intro keeps_intros mods share)
  show ?thesis
    unfolding PayoutValidators_def Let_def by (intro keeps_intros keeps_modify pool) simp_all
qed

lemma step_config:
  assumes "settle_step E s t" "config_ok E s"
  shows "config_ok E t"
  using assms(1)
proof cases
  case call
  then show ?thesis using assms(2) by (rule call_config)
next
  case (begin_block r)
  then have "settle t = settle s"
    by (auto simp: settle_BeginBlock_def BurnGasFees_def bindM_def gets_def ret_def NewCoins_def seqM_def check_def fail_def attempt_def callx_def
        Let_def emit_def modify_def split: if_splits sum.splits prod.splits)
  with assms(2) show ?thesis by (simp add: settle_GetParams_def)
next
  case (end_block u)
  then obtain r v where "PayoutValidators E s = (r, v)" "t = v \<or> t = safe_mode E v" by (rule end_block_run)
  moreover from keepsD [OF payout_params refl this(1)] have "s_Params (settle v) = s_Params (settle s)" .
  ultimately show ?thesis using assms(2) by (auto simp: safe_mode_def settle_GetParams_def)
qed

end
