(* ===== verification/SettleGenesisLaws.thy ===== *)
theory SettleGenesisLaws
  imports SettleSteps
begin

text \<open>
  Genesis of \<open>x/settle\<close>: a genesis file with distinct tabs starts the module with exact ledgers, and
  exporting a state and importing it again restores the stores.
\<close>

definition settle_empty :: settle_store where
  "settle_empty =
     \<lparr>s_Params = None, Claimables = fmempty, Pools = fmempty, Tabs = fmempty, Allowances = fmempty, Totals = fmempty,
      CreditsMinted = None, GenesisCreditSupply = None, LedgerTotal = fmempty, RelayerPaid = fmempty, LastPayout = None\<rparr>"

definition genesis_key :: "'x env \<Rightarrow> tab \<Rightarrow> string" where
  "genesis_key E t =
     TabKey E (tab_AppId t) (the (AccFromBech32 E (tab_Payer t))) (the (AccFromBech32 E (tab_Payee t))) (tab_Denom t)"

text \<open>What \<open>Validate\<close> does not ask for: no two tabs with one key, no empty tab, allowance or cap entry.\<close>

definition genesis_wf :: "'x env \<Rightarrow> settle_genesis \<Rightarrow> bool" where
  "genesis_wf E gs \<longleftrightarrow>
     distinct (map (genesis_key E) (sg_Tabs gs)) \<and>
     list_all (\<lambda>t. 0 < tab_Amount t) (sg_Tabs gs) \<and> list_all (\<lambda>a. 0 < aa_Amount a) (sg_Allowances gs) \<and>
     positive (sg_RelayerPaidThisInterval gs)"

section \<open>Starting from a genesis file\<close>

lemma forM_relation:
  assumes "\<And>x s t. x \<in> set xs \<Longrightarrow> f x s = (Inr (), t) \<Longrightarrow> R s t" "\<And>s. R s s" "\<And>s t u. R s t \<Longrightarrow> R t u \<Longrightarrow> R s u"
  shows "forM xs f s = (Inr (), t) \<Longrightarrow> R s t"
  using assms(1)
proof (induction xs arbitrary: s)
  case Nil
  then show ?case by (simp add: assms(2))
next
  case (Cons x xs)
  from Cons.prems(1) obtain u where "f x s = (Inr (), u)" "forM xs f u = (Inr (), t)" by (auto simp: run_simps)
  with Cons show ?case by (meson assms(3) list.set_intros)
qed

definition same_gap :: "'x chain \<Rightarrow> 'x chain \<Rightarrow> bool" where
  "same_gap s t \<longleftrightarrow> gap t = gap s \<and> Tabs (settle t) = Tabs (settle s)"

lemma same_gap_eq: "same_gap s s" "same_gap s t \<Longrightarrow> same_gap t u \<Longrightarrow> same_gap s u"
  by (simp_all add: same_gap_def)

lemma same_gap_write:
  assumes "Claimables (settle t) = Claimables (settle s)" "Pools (settle t) = Pools (settle s)"
    "Tabs (settle t) = Tabs (settle s)" "LedgerTotal (settle t) = LedgerTotal (settle s)"
  shows "same_gap s t"
  using assms by (simp add: same_gap_def gap_def owed_def recount fun_eq_iff)

lemma init_tab_Inr:
  assumes "init_tab E t s = (Inr (), u)"
  shows "AccFromBech32 E (tab_Payer t) \<noteq> None" "AccFromBech32 E (tab_Payee t) \<noteq> None"
    "Tabs (settle u) = fmupd (genesis_key E t) t (Tabs (settle s))"
    "gap u d = gap s d + tabs_at s (genesis_key E t) d"
    "0 < tab_Amount t \<Longrightarrow> books_ok E s \<Longrightarrow> books_ok E u"
proof -
  let ?k = "genesis_key E t" and ?s1 = "s\<lparr>settle := (settle s)\<lparr>Tabs := fmupd (genesis_key E t) t (Tabs (settle s))\<rparr>\<rparr>"
  from assms obtain p q where pq: "AccFromBech32 E (tab_Payer t) = Some p" "AccFromBech32 E (tab_Payee t) = Some q"
    and l: "ledger (tab_Denom t) (tab_Amount t) ?s1 = (Inr (), u)"
    by (auto simp: init_tab_def run_simps genesis_key_def)
  show "AccFromBech32 E (tab_Payer t) \<noteq> None" "AccFromBech32 E (tab_Payee t) \<noteq> None" using pq by simp_all
  from l show "Tabs (settle u) = fmupd ?k t (Tabs (settle s))" "gap u d = gap s d + tabs_at s ?k d"
    by (simp_all add: ledger_Inr gap_def owed_def recount kv_sum_upd tab_in_def tabs_at_def)
  assume "0 < tab_Amount t" "books_ok E s"
  then have "books_ok E ?s1" using pq by (auto simp: amounts_ok_def tab_ok_def genesis_key_def)
  from keepsRD [OF ok_ledger this l] show "books_ok E u" .
qed

lemma init_tabs:
  "forM ts (init_tab E) s = (Inr (), u) \<Longrightarrow> distinct (map (genesis_key E) ts) \<Longrightarrow>
   \<forall>t \<in> set ts. fmlookup (Tabs (settle s)) (genesis_key E t) = None \<Longrightarrow> \<forall>t \<in> set ts. 0 < tab_Amount t \<Longrightarrow> books_ok E s \<Longrightarrow>
   (\<forall>d. gap u d = gap s d) \<and> books_ok E u"
proof (induction ts arbitrary: s)
  case (Cons t ts)
  from Cons.prems(1) obtain v where t: "init_tab E t s = (Inr (), v)" and ts: "forM ts (init_tab E) v = (Inr (), u)"
    by (auto simp: run_simps)
  note i = init_tab_Inr [OF t]
  have "\<forall>t' \<in> set ts. fmlookup (Tabs (settle v)) (genesis_key E t') = None"
    using Cons.prems(2,3) by (auto simp: i(3))
  with Cons.IH [OF ts] Cons.prems i(5) have "(\<forall>d. gap u d = gap v d) \<and> books_ok E u" by simp
  moreover have "gap v d = gap s d" for d using Cons.prems(3) by (simp add: i(4) tabs_at_def kv_at_def)
  ultimately show ?case by simp
qed simp

lemma same_gap_book:
  "addClaimable i d n s = (Inr u, t) \<Longrightarrow> same_gap s t" "addPool p d n s = (Inr u, t) \<Longrightarrow> same_gap s t"
proof -
  have c: "Tabs (settle t) = Tabs (settle s)" if "addClaimable i d n s = (Inr u, t)"
    using arg_cong [OF addClaimable_Inr(2) [OF that], of "\<lambda>z. Tabs (settle z)"] by simp
  have p: "Tabs (settle t) = Tabs (settle s)" if "addPool p d n s = (Inr u, t)"
    using arg_cong [OF addPool_Inr(2) [OF that], of "\<lambda>z. Tabs (settle z)"] by simp
  show "addClaimable i d n s = (Inr u, t) \<Longrightarrow> same_gap s t" "addPool p d n s = (Inr u, t) \<Longrightarrow> same_gap s t"
    using c p by (auto simp: same_gap_def fun_eq_iff dest: addClaimable_Inr(1) [unfolded books_def] addPool_Inr(1) [unfolded books_def])
qed

text \<open>The result of \<open>InitGenesis\<close> in terms of its loops.\<close>

definition init_allowances :: "settle_genesis \<Rightarrow> ('x, unit) call" where
  "init_allowances gs = forM (sg_Allowances gs) (\<lambda>a. on_settle (\<lambda>c. c\<lparr>Allowances :=
     fmupd (aa_Owner a, aa_AppId a, aa_Denom a) (aa_Amount a) (Allowances c)\<rparr>))"

definition init_totals :: "settle_genesis \<Rightarrow> ('x, unit) call" where
  "init_totals gs = forM (sg_Totals gs) (\<lambda>t. on_settle (\<lambda>c. c\<lparr>Totals := fmupd (tot_Denom t) t (Totals c)\<rparr>))"

definition init_paid :: "settle_genesis \<Rightarrow> ('x, unit) call" where
  "init_paid gs = forM (entries (sg_RelayerPaidThisInterval gs))
     (\<lambda>p. on_settle (\<lambda>c. c\<lparr>RelayerPaid := fmupd (fst p) (snd p) (RelayerPaid c)\<rparr>))"

definition init_last :: "'x env \<Rightarrow> settle_genesis \<Rightarrow> 'x chain \<Rightarrow> 'x chain" where
  "init_last E gs s = s\<lparr>settle := (settle s)\<lparr>CreditsMinted := Some (sg_CreditsMinted gs),
     GenesisCreditSupply := Some (max 0 (BankSupply E (ext s) (creditDenom E) - sg_CreditsMinted gs)),
     LastPayout := Some (height s)\<rparr>\<rparr>"

definition init_first :: "settle_genesis \<Rightarrow> 'x chain \<Rightarrow> 'x chain" where
  "init_first gs s = s\<lparr>settle := (settle s)\<lparr>s_Params := Some (sg_Params gs)\<rparr>\<rparr>"

lemma init_tail:
  "seqM (on_settle (\<lambda>c. c\<lparr>CreditsMinted := Some (sg_CreditsMinted gs)\<rparr>))
   (bindM (gets (\<lambda>s. (BankSupply E (ext s) (creditDenom E), height s))) (\<lambda>(supply, h).
    seqM (on_settle (\<lambda>c. c\<lparr>GenesisCreditSupply :=
       Some (if supply - sg_CreditsMinted gs < 0 then 0 else supply - sg_CreditsMinted gs)\<rparr>))
    (on_settle (\<lambda>c. c\<lparr>LastPayout := Some h\<rparr>)))) = modify (init_last E gs)"
  by (rule ext) (simp add: seqM_def bindM_def gets_def modify_def init_last_def)

lemma settle_InitGenesis_run:
  "settle_InitGenesis E gs s0 = (Inr (), s) \<longleftrightarrow> (\<exists>s1 s2 s3 s4 s5 s6.
     forM (sg_Claimables gs) (\<lambda>c. addClaimable (cl_AppId c) (cl_Denom c) (cl_Amount c)) (init_first gs s0) = (Inr (), s1) \<and>
     forM (sg_Pools gs) (\<lambda>p. addPool (pb_Pool p) (pb_Denom p) (pb_Amount p)) s1 = (Inr (), s2) \<and>
     forM (sg_Tabs gs) (init_tab E) s2 = (Inr (), s3) \<and>
     init_allowances gs s3 = (Inr (), s4) \<and> init_totals gs s4 = (Inr (), s5) \<and> init_paid gs s5 = (Inr (), s6) \<and>
     s = init_last E gs s6)"
  unfolding settle_InitGenesis_def Let_def init_tail
  unfolding init_allowances_def [symmetric] init_totals_def [symmetric] init_paid_def [symmetric] init_first_def [symmetric]
  by (simp only: seqM_Inr modify_run) (simp add: conj_commute init_first_def)

lemma keepsR_forM_set: "(\<And>x. x \<in> set xs \<Longrightarrow> keepsR I (f x)) \<Longrightarrow> keepsR I (forM xs f)"
  by (induction xs) (auto intro!: keepsR_intros)

lemma forM_same_gap:
  "(\<And>x s. same_gap s (h x s)) \<Longrightarrow> forM xs (\<lambda>x. modify (h x)) s = (Inr (), t) \<Longrightarrow> same_gap s t"
  by (rule forM_relation [OF _ same_gap_eq]) auto

lemma init_entries_gap:
  "init_allowances gs s = (Inr (), t) \<Longrightarrow> same_gap s t" "init_totals gs s = (Inr (), t) \<Longrightarrow> same_gap s t"
  "init_paid gs s = (Inr (), t) \<Longrightarrow> same_gap s t"
  unfolding init_allowances_def init_totals_def init_paid_def
  by (erule forM_same_gap [rotated], rule same_gap_write, simp_all)+

lemma init_entries_ok:
  assumes "genesis_wf E gs"
  shows "keepsR (books_ok E) (init_allowances gs)" "keepsR (books_ok E) (init_totals gs)" "keepsR (books_ok E) (init_paid gs)"
proof -
  have "0 < snd p" if "p \<in> set (entries (sg_RelayerPaidThisInterval gs))" for p
    using assms that by (cases p) (simp add: genesis_wf_def positive_def set_entries)
  with assms show "keepsR (books_ok E) (init_allowances gs)" "keepsR (books_ok E) (init_totals gs)" "keepsR (books_ok E) (init_paid gs)"
    unfolding init_allowances_def init_totals_def init_paid_def
    by (auto intro!: keepsR_forM_set keepsR_modify simp: amounts_ok_def positive_upd genesis_wf_def list_all_iff
      split: if_splits)
qed

lemma settle_start_books:
  assumes empty: "settle s0 = settle_empty" and wf: "genesis_wf E gs" and run: "settle_InitGenesis E gs s0 = (Inr (), s)"
  shows "books_ok E s" "gap s d = 0" "0 \<le> credit_room E s"
proof -
  from run obtain s1 s2 s3 s4 s5 s6 where
    1: "forM (sg_Claimables gs) (\<lambda>c. addClaimable (cl_AppId c) (cl_Denom c) (cl_Amount c)) (init_first gs s0) = (Inr (), s1)"
    and 2: "forM (sg_Pools gs) (\<lambda>p. addPool (pb_Pool p) (pb_Denom p) (pb_Amount p)) s1 = (Inr (), s2)"
    and 3: "forM (sg_Tabs gs) (init_tab E) s2 = (Inr (), s3)"
    and 4: "init_allowances gs s3 = (Inr (), s4)" "init_totals gs s4 = (Inr (), s5)" "init_paid gs s5 = (Inr (), s6)"
    and s: "s = init_last E gs s6"
    unfolding settle_InitGenesis_run by (elim exE conjE) (rule that)
  let ?p = "init_first gs s0"
  have ok0: "books_ok E ?p" and g0: "gap ?p d = 0" for d
    using empty by (simp_all add: init_first_def settle_empty_def amounts_ok_def gap_def owed_def recount getInt_def)
  have ok1: "books_ok E s1" by (rule keepsRD [OF keepsR_forM [OF stores.booked(3)] ok0 1])
  have ok2: "books_ok E s2" by (rule keepsRD [OF keepsR_forM [OF stores.booked(2)] ok1 2])
  have "same_gap ?p s1" 
    by (rule forM_relation [OF _ same_gap_eq 1]) (erule same_gap_book(1))
  moreover have "same_gap s1 s2" 
    by (rule forM_relation [OF _ same_gap_eq 2]) (erule same_gap_book(2))
  ultimately have g2: "gap s2 d = 0" and t2: "Tabs (settle s2) = fmempty" for d
    using g0 empty by (simp_all add: same_gap_def settle_empty_def init_first_def)
  have 33: "(\<forall>d. gap s3 d = gap s2 d) \<and> books_ok E s3"
    using init_tabs [OF 3] wf ok2 by (simp add: t2 genesis_wf_def list_all_iff)
  have "same_gap s3 s6" using 4 init_entries_gap same_gap_eq(2) by metis
  then have "gap s6 d = 0" using g2 33 by (simp add: same_gap_def)
  then show "gap s d = 0" by (simp add: s init_last_def gap_def owed_def recount)
  have "books_ok E s6" using 33 4 init_entries_ok [OF wf] by (metis keepsRD)
  then show "books_ok E s" by (simp add: s init_last_def amounts_ok_def)
  show "0 \<le> credit_room E s" by (simp add: s init_last_def credit_room_def)
qed

lemma settle_start_good:
  assumes "settle s0 = settle_empty" "genesis_wf E gs" "settle_InitGenesis E gs s0 = (Inr (), s)"
    and "\<forall>d. owed s d \<le> BankBalance E (ext s) (moduleAddr E) d"
  shows "settle_good E s" "covered E (\<lambda>d. 0) s"
  using settle_start_books [OF assms(1-3)] assms(4) by (simp_all add: settle_good_def covered_def slack_def)

section \<open>Export and import\<close>

lemma positive_eq: "positive m \<Longrightarrow> positive m' \<Longrightarrow> (\<And>k. getInt m k = getInt m' k) \<Longrightarrow> m = m'"
proof (rule fmap_ext)
  fix k assume a: "positive m" "positive m'" "\<And>k. getInt m k = getInt m' k"
  then show "fmlookup m k = fmlookup m' k"
    using a(3) [of k] by (cases "fmlookup m k"; cases "fmlookup m' k") (auto simp: positive_def getInt_def)
qed

lemma add_run:
  assumes "books_ok E s" "0 < n"
  shows "addClaimable i d n s = (Inr (), s\<lparr>settle := (settle s)\<lparr>
      Claimables := fmupd (i, d) (getInt (Claimables (settle s)) (i, d) + n) (Claimables (settle s)),
      LedgerTotal := setInt (LedgerTotal (settle s)) d (owed s d + n)\<rparr>\<rparr>)"
    and "addPool p d n s = (Inr (), s\<lparr>settle := (settle s)\<lparr>
      Pools := fmupd (p, d) (getInt (Pools (settle s)) (p, d) + n) (Pools (settle s)),
      LedgerTotal := setInt (LedgerTotal (settle s)) d (owed s d + n)\<rparr>\<rparr>)"
proof -
  have "0 \<le> getInt (Claimables (settle s)) (i, d)" "0 \<le> getInt (Pools (settle s)) (p, d)" "0 \<le> owed s d"
    using assms(1) by (simp_all add: amounts_ok_def getInt_nonneg owed_def)
  with assms(2) show "addClaimable i d n s = (Inr (), s\<lparr>settle := (settle s)\<lparr>
      Claimables := fmupd (i, d) (getInt (Claimables (settle s)) (i, d) + n) (Claimables (settle s)),
      LedgerTotal := setInt (LedgerTotal (settle s)) d (owed s d + n)\<rparr>\<rparr>)"
    "addPool p d n s = (Inr (), s\<lparr>settle := (settle s)\<lparr>
      Pools := fmupd (p, d) (getInt (Pools (settle s)) (p, d) + n) (Pools (settle s)),
      LedgerTotal := setInt (LedgerTotal (settle s)) d (owed s d + n)\<rparr>\<rparr>)"
    by (auto simp: addClaimable_def addPool_def run_simps addInt_Inr ledger_Inr setInt_def owed_def)
qed

lemma claim_loop:
  "books_ok E s \<Longrightarrow> distinct (map (\<lambda>c. (cl_AppId c, cl_Denom c)) cs) \<Longrightarrow>
   \<forall>c \<in> set cs. 0 < cl_Amount c \<and> fmlookup (Claimables (settle s)) (cl_AppId c, cl_Denom c) = None \<Longrightarrow>
   \<exists>l. forM cs (\<lambda>c. addClaimable (cl_AppId c) (cl_Denom c) (cl_Amount c)) s = (Inr (), s\<lparr>settle := (settle s)\<lparr>
      Claimables := foldl (\<lambda>m c. fmupd (cl_AppId c, cl_Denom c) (cl_Amount c) m) (Claimables (settle s)) cs,
      LedgerTotal := l\<rparr>\<rparr>)"
proof (induction cs arbitrary: s)
  case Nil
  show ?case by (rule exI [of _ "LedgerTotal (settle s)"]) simp
next
  case (Cons c cs)
  let ?m = "fmupd (cl_AppId c, cl_Denom c) (cl_Amount c) (Claimables (settle s))"
  have c: "getInt (Claimables (settle s)) (cl_AppId c, cl_Denom c) = 0" "0 < cl_Amount c"
    using Cons.prems(3) by (simp_all add: getInt_def)
  let ?u = "s\<lparr>settle := (settle s)\<lparr>Claimables := ?m,
      LedgerTotal := setInt (LedgerTotal (settle s)) (cl_Denom c) (owed s (cl_Denom c) + cl_Amount c)\<rparr>\<rparr>"
  have u: "addClaimable (cl_AppId c) (cl_Denom c) (cl_Amount c) s = (Inr (), ?u)"
    by (simp only: add_run(1) [OF Cons.prems(1) c(2)] c(1) add_0)
  have "books_ok E ?u" using keepsRD [OF stores.booked(3) Cons.prems(1) u] .
  moreover have "distinct (map (\<lambda>c. (cl_AppId c, cl_Denom c)) cs)" using Cons.prems(2) by simp
  moreover have "\<forall>x \<in> set cs. 0 < cl_Amount x \<and> fmlookup (Claimables (settle ?u)) (cl_AppId x, cl_Denom x) = None"
    using Cons.prems(2,3) by force
  ultimately obtain l where
    "forM cs (\<lambda>c. addClaimable (cl_AppId c) (cl_Denom c) (cl_Amount c)) ?u = (Inr (), s\<lparr>settle := (settle s)\<lparr>
      Claimables := foldl (\<lambda>m c. fmupd (cl_AppId c, cl_Denom c) (cl_Amount c) m) ?m cs, LedgerTotal := l\<rparr>\<rparr>)"
    using Cons.IH [of ?u] by auto
  then have "forM (c # cs) (\<lambda>c. addClaimable (cl_AppId c) (cl_Denom c) (cl_Amount c)) s = (Inr (), s\<lparr>settle := (settle s)\<lparr>
      Claimables := foldl (\<lambda>m c. fmupd (cl_AppId c, cl_Denom c) (cl_Amount c) m) ?m cs, LedgerTotal := l\<rparr>\<rparr>)"
    by (simp add: seqM_def bindM_def u)
  then show ?case unfolding foldl_Cons by (rule exI)
qed

lemma pool_loop:
  "books_ok E s \<Longrightarrow> distinct (map (\<lambda>c. (pb_Pool c, pb_Denom c)) cs) \<Longrightarrow>
   \<forall>c \<in> set cs. 0 < pb_Amount c \<and> fmlookup (Pools (settle s)) (pb_Pool c, pb_Denom c) = None \<Longrightarrow>
   \<exists>l. forM cs (\<lambda>c. addPool (pb_Pool c) (pb_Denom c) (pb_Amount c)) s = (Inr (), s\<lparr>settle := (settle s)\<lparr>
      Pools := foldl (\<lambda>m c. fmupd (pb_Pool c, pb_Denom c) (pb_Amount c) m) (Pools (settle s)) cs,
      LedgerTotal := l\<rparr>\<rparr>)"
proof (induction cs arbitrary: s)
  case Nil
  show ?case by (rule exI [of _ "LedgerTotal (settle s)"]) simp
next
  case (Cons c cs)
  let ?m = "fmupd (pb_Pool c, pb_Denom c) (pb_Amount c) (Pools (settle s))"
  have c: "getInt (Pools (settle s)) (pb_Pool c, pb_Denom c) = 0" "0 < pb_Amount c"
    using Cons.prems(3) by (simp_all add: getInt_def)
  let ?u = "s\<lparr>settle := (settle s)\<lparr>Pools := ?m,
      LedgerTotal := setInt (LedgerTotal (settle s)) (pb_Denom c) (owed s (pb_Denom c) + pb_Amount c)\<rparr>\<rparr>"
  have u: "addPool (pb_Pool c) (pb_Denom c) (pb_Amount c) s = (Inr (), ?u)"
    by (simp only: add_run(2) [OF Cons.prems(1) c(2)] c(1) add_0)
  have "books_ok E ?u" using keepsRD [OF stores.booked(2) Cons.prems(1) u] .
  moreover have "distinct (map (\<lambda>c. (pb_Pool c, pb_Denom c)) cs)" using Cons.prems(2) by simp
  moreover have "\<forall>x \<in> set cs. 0 < pb_Amount x \<and> fmlookup (Pools (settle ?u)) (pb_Pool x, pb_Denom x) = None"
    using Cons.prems(2,3) by force
  ultimately obtain l where
    "forM cs (\<lambda>c. addPool (pb_Pool c) (pb_Denom c) (pb_Amount c)) ?u = (Inr (), s\<lparr>settle := (settle s)\<lparr>
      Pools := foldl (\<lambda>m c. fmupd (pb_Pool c, pb_Denom c) (pb_Amount c) m) ?m cs, LedgerTotal := l\<rparr>\<rparr>)"
    using Cons.IH [of ?u] by auto
  then have "forM (c # cs) (\<lambda>c. addPool (pb_Pool c) (pb_Denom c) (pb_Amount c)) s = (Inr (), s\<lparr>settle := (settle s)\<lparr>
      Pools := foldl (\<lambda>m c. fmupd (pb_Pool c, pb_Denom c) (pb_Amount c) m) ?m cs, LedgerTotal := l\<rparr>\<rparr>)"
    by (simp add: seqM_def bindM_def u)
  then show ?case unfolding foldl_Cons by (rule exI)
qed

lemma tab_loop:
  "books_ok E s \<Longrightarrow>
   \<forall>t \<in> set ts. 0 < tab_Amount t \<and> AccFromBech32 E (tab_Payer t) \<noteq> None \<and> AccFromBech32 E (tab_Payee t) \<noteq> None \<Longrightarrow>
   \<exists>l. forM ts (init_tab E) s = (Inr (), s\<lparr>settle := (settle s)\<lparr>
      Tabs := foldl (\<lambda>m t. fmupd (genesis_key E t) t m) (Tabs (settle s)) ts, LedgerTotal := l\<rparr>\<rparr>)"
proof (induction ts arbitrary: s)
  case Nil
  show ?case by (rule exI [of _ "LedgerTotal (settle s)"]) simp
next
  case (Cons t ts)
  let ?m = "fmupd (genesis_key E t) t (Tabs (settle s))"
  have "0 \<le> owed s (tab_Denom t)" using Cons.prems(1) by (simp add: amounts_ok_def getInt_nonneg owed_def)
  with Cons.prems(2) obtain u l where u: "init_tab E t s = (Inr (), u)"
    "u = s\<lparr>settle := (settle s)\<lparr>Tabs := ?m, LedgerTotal := l\<rparr>\<rparr>"
    by (auto simp: init_tab_def run_simps ledger_Inr genesis_key_def owed_def)
  have "books_ok E u" using init_tab_Inr(5) [OF u(1)] Cons.prems by simp
  from Cons.IH [OF this] Cons.prems(2) obtain l' where
    "forM ts (init_tab E) u = (Inr (), u\<lparr>settle := (settle u)\<lparr>
      Tabs := foldl (\<lambda>m t. fmupd (genesis_key E t) t m) ?m ts, LedgerTotal := l'\<rparr>\<rparr>)"
    by (auto simp: u(2))
  then show ?case by (auto simp: seqM_def bindM_def u)
qed

lemma coins_add_entries:
  assumes "positive m" shows "foldl (\<lambda>cs (d, v). coins_add cs d v) fmempty (entries m) = m"
proof -
  have step: "positive (coins_add cs d v)" "getInt (coins_add cs d v) d' = getInt cs d' + (if d' = d then v else 0)"
    if "positive cs" "0 < v" for cs :: coins and d d' v
    using that getInt_nonneg [OF that(1), of d] AmountOf_coins_add [of cs d v d']
    by (auto simp: coins_add_def Let_def AmountOf_def getInt_def positive_def fmlookup_drop split: if_splits)
  have f: "positive (foldl (\<lambda>cs (d, v). coins_add cs d v) cs xs) \<and>
     getInt (foldl (\<lambda>cs (d, v). coins_add cs d v) cs xs) d' = getInt cs d' + (\<Sum>(d, v) \<leftarrow> xs. if d' = d then v else 0)"
    if "positive cs" "\<forall>p \<in> set xs. 0 < snd p" for cs :: coins and xs d'
    using that by (induction xs arbitrary: cs) (auto simp: step)
  have e: "\<forall>p \<in> set (entries m). 0 < snd p" using assms by (auto simp: set_entries positive_def)
  have "(\<Sum>(d, v) \<leftarrow> entries m. if d' = d then v else 0) = getInt m d'" for d'
    unfolding kv_sum_entries [symmetric, of "\<lambda>d v. if d' = d then v else 0"]
    by (simp add: kv_sum_def getInt_def sum.delta fmlookup_dom_iff split: option.splits)
  then show ?thesis
    using f [OF positive_empty e] by (intro positive_eq [OF _ assms]) (auto simp: getInt_def)
qed

lemma tab_ok_key: "tab_ok E k t \<Longrightarrow> genesis_key E t = k"
  by (auto simp: tab_ok_def genesis_key_def)

lemma tab_ok_parts: "tab_ok E k t \<Longrightarrow> 0 < tab_Amount t \<and> AccFromBech32 E (tab_Payer t) \<noteq> None \<and> AccFromBech32 E (tab_Payee t) \<noteq> None"
  by (auto simp: tab_ok_def)

lemma exported_keys:
  "map (\<lambda>c. (cl_AppId c, cl_Denom c)) (sg_Claimables (settle_ExportGenesis s)) = map fst (entries (Claimables (settle s)))"
  "map (\<lambda>c. (pb_Pool c, pb_Denom c)) (sg_Pools (settle_ExportGenesis s)) = map fst (entries (Pools (settle s)))"
  "books_ok E s \<Longrightarrow> map (genesis_key E) (sg_Tabs (settle_ExportGenesis s)) = map fst (entries (Tabs (settle s)))"
  by (auto simp: settle_ExportGenesis_def amounts_ok_def set_entries intro: tab_ok_key)

lemma exported_wf: "books_ok E s \<Longrightarrow> genesis_wf E (settle_ExportGenesis s)"
  unfolding genesis_wf_def exported_keys(3)
  by (auto simp: distinct_entries settle_ExportGenesis_def coins_add_entries amounts_ok_def tab_ok_def positive_def
      list_all_iff set_entries)

lemma exported_restored:
  "foldl (\<lambda>m c. fmupd (cl_AppId c, cl_Denom c) (cl_Amount c) m) fmempty (sg_Claimables (settle_ExportGenesis s)) = Claimables (settle s)"
  "foldl (\<lambda>m c. fmupd (pb_Pool c, pb_Denom c) (pb_Amount c) m) fmempty (sg_Pools (settle_ExportGenesis s)) = Pools (settle s)"
  "foldl (\<lambda>m a. fmupd (aa_Owner a, aa_AppId a, aa_Denom a) (aa_Amount a) m) fmempty (sg_Allowances (settle_ExportGenesis s))
     = Allowances (settle s)"
  "books_ok E s \<Longrightarrow> foldl (\<lambda>m t. fmupd (genesis_key E t) t m) fmempty (sg_Tabs (settle_ExportGenesis s)) = Tabs (settle s)"
  "books_ok E s \<Longrightarrow> foldl (\<lambda>m t. fmupd (tot_Denom t) t m) fmempty (sg_Totals (settle_ExportGenesis s)) = Totals (settle s)"
  "books_ok E s \<Longrightarrow> foldl (\<lambda>m p. fmupd (fst p) (snd p) m) fmempty (entries (sg_RelayerPaidThisInterval (settle_ExportGenesis s)))
     = RelayerPaid (settle s)"
proof -
  have t: "foldl (\<lambda>m t. fmupd (genesis_key E t) t m) fmempty (map snd (entries (Tabs (settle s)))) = Tabs (settle s)"
    if "books_ok E s"
    by (rule restore_entries [where key = "genesis_key E" and enc = snd and val = "\<lambda>t. t"])
      (use that in \<open>auto simp: amounts_ok_def intro: tab_ok_key\<close>)
  have p: "foldl (\<lambda>m p. fmupd (fst p) (snd p) m) fmempty (entries (RelayerPaid (settle s))) = RelayerPaid (settle s)"
    using restore_entries [where m = "RelayerPaid (settle s)" and key = fst and enc = "\<lambda>p. p" and val = snd] by simp
  have u: "foldl (\<lambda>m t. fmupd (tot_Denom t) t m) fmempty (map snd (entries (Totals (settle s)))) = Totals (settle s)"
    if "books_ok E s"
    by (rule restore_entries [where key = tot_Denom and enc = snd and val = "\<lambda>t. t"])
      (use that in \<open>auto simp: amounts_ok_def\<close>)
  show "books_ok E s \<Longrightarrow> foldl (\<lambda>m t. fmupd (genesis_key E t) t m) fmempty (sg_Tabs (settle_ExportGenesis s)) = Tabs (settle s)"
    "books_ok E s \<Longrightarrow> foldl (\<lambda>m t. fmupd (tot_Denom t) t m) fmempty (sg_Totals (settle_ExportGenesis s)) = Totals (settle s)"
    "books_ok E s \<Longrightarrow> foldl (\<lambda>m p. fmupd (fst p) (snd p) m) fmempty (entries (sg_RelayerPaidThisInterval (settle_ExportGenesis s)))
     = RelayerPaid (settle s)"
    using t u p by (simp_all add: settle_ExportGenesis_def coins_add_entries amounts_ok_def)
qed (auto simp: settle_ExportGenesis_def intro!: restore_entries)

lemma init_entries_run:
  "init_allowances gs s = (Inr (), s\<lparr>settle := (settle s)\<lparr>Allowances :=
     foldl (\<lambda>m a. fmupd (aa_Owner a, aa_AppId a, aa_Denom a) (aa_Amount a) m) (Allowances (settle s)) (sg_Allowances gs)\<rparr>\<rparr>)"
  "init_totals gs s = (Inr (), s\<lparr>settle := (settle s)\<lparr>Totals :=
     foldl (\<lambda>m t. fmupd (tot_Denom t) t m) (Totals (settle s)) (sg_Totals gs)\<rparr>\<rparr>)"
  "init_paid gs s = (Inr (), s\<lparr>settle := (settle s)\<lparr>RelayerPaid :=
     foldl (\<lambda>m p. fmupd (fst p) (snd p) m) (RelayerPaid (settle s)) (entries (sg_RelayerPaidThisInterval gs))\<rparr>\<rparr>)"
proof -
  have a: "foldl (\<lambda>s x. s\<lparr>settle := (settle s)\<lparr>Allowances := f x (Allowances (settle s))\<rparr>\<rparr>) s xs =
     s\<lparr>settle := (settle s)\<lparr>Allowances := foldl (\<lambda>m x. f x m) (Allowances (settle s)) xs\<rparr>\<rparr>" for f and xs :: "app_allowance list"
    by (induction xs arbitrary: s) simp_all
  have b: "foldl (\<lambda>s x. s\<lparr>settle := (settle s)\<lparr>Totals := f x (Totals (settle s))\<rparr>\<rparr>) s xs =
     s\<lparr>settle := (settle s)\<lparr>Totals := foldl (\<lambda>m x. f x m) (Totals (settle s)) xs\<rparr>\<rparr>" for f and xs :: "totals list"
    by (induction xs arbitrary: s) simp_all
  have c: "foldl (\<lambda>s x. s\<lparr>settle := (settle s)\<lparr>RelayerPaid := f x (RelayerPaid (settle s))\<rparr>\<rparr>) s xs =
     s\<lparr>settle := (settle s)\<lparr>RelayerPaid := foldl (\<lambda>m x. f x m) (RelayerPaid (settle s)) xs\<rparr>\<rparr>" for f and xs :: "(denom \<times> int) list"
    by (induction xs arbitrary: s) simp_all
  show "init_allowances gs s = (Inr (), s\<lparr>settle := (settle s)\<lparr>Allowances :=
     foldl (\<lambda>m a. fmupd (aa_Owner a, aa_AppId a, aa_Denom a) (aa_Amount a) m) (Allowances (settle s)) (sg_Allowances gs)\<rparr>\<rparr>)"
    "init_totals gs s = (Inr (), s\<lparr>settle := (settle s)\<lparr>Totals :=
     foldl (\<lambda>m t. fmupd (tot_Denom t) t m) (Totals (settle s)) (sg_Totals gs)\<rparr>\<rparr>)"
    "init_paid gs s = (Inr (), s\<lparr>settle := (settle s)\<lparr>RelayerPaid :=
     foldl (\<lambda>m p. fmupd (fst p) (snd p) m) (RelayerPaid (settle s)) (entries (sg_RelayerPaidThisInterval gs))\<rparr>\<rparr>)"
    by (simp_all add: init_allowances_def init_totals_def init_paid_def forM_modify
        a [where f = "\<lambda>a. fmupd (aa_Owner a, aa_AppId a, aa_Denom a) (aa_Amount a)"] b [where f = "\<lambda>t. fmupd (tot_Denom t) t"]
        c [where f = "\<lambda>p. fmupd (fst p) (snd p)"])
qed

lemma exported_amounts:
  assumes "books_ok E s"
  shows "\<forall>c \<in> set (sg_Claimables (settle_ExportGenesis s)). 0 < cl_Amount c"
    "\<forall>c \<in> set (sg_Pools (settle_ExportGenesis s)). 0 < pb_Amount c"
    "\<forall>t \<in> set (sg_Tabs (settle_ExportGenesis s)).
       0 < tab_Amount t \<and> AccFromBech32 E (tab_Payer t) \<noteq> None \<and> AccFromBech32 E (tab_Payee t) \<noteq> None"
proof -
  have "0 < tab_Amount t \<and> AccFromBech32 E (tab_Payer t) \<noteq> None \<and> AccFromBech32 E (tab_Payee t) \<noteq> None"
    if "fmlookup (Tabs (settle s)) k = Some t" for k t
    using assms that by (intro tab_ok_parts [of E k t]) (simp add: amounts_ok_def)
  then show "\<forall>t \<in> set (sg_Tabs (settle_ExportGenesis s)).
       0 < tab_Amount t \<and> AccFromBech32 E (tab_Payer t) \<noteq> None \<and> AccFromBech32 E (tab_Payee t) \<noteq> None"
    by (simp add: settle_ExportGenesis_def) (metis set_entries prod.collapse)
qed (use assms in \<open>auto simp: settle_ExportGenesis_def amounts_ok_def positive_def set_entries\<close>)

text \<open>What an import of an exported state gives.\<close>

definition restored :: "'x env \<Rightarrow> 'x chain \<Rightarrow> 'x chain \<Rightarrow> settle_store" where
  "restored E s s0 = (settle s)\<lparr>s_Params := Some (settle_GetParams s),
     CreditsMinted := Some (case CreditsMinted (settle s) of None \<Rightarrow> 0 | Some m \<Rightarrow> m),
     GenesisCreditSupply := Some (max 0 (BankSupply E (ext s0) (creditDenom E) -
       (case CreditsMinted (settle s) of None \<Rightarrow> 0 | Some m \<Rightarrow> m))),
     LastPayout := Some (height s0)\<rparr>"

lemma import_export:
  assumes ok: "books_ok E s" "\<And>d. gap s d = 0" and empty: "settle s0 = settle_empty"
  shows "settle_InitGenesis E (settle_ExportGenesis s) s0 = (Inr (), s0\<lparr>settle := restored E s s0\<rparr>)"
proof -
  let ?gs = "settle_ExportGenesis s" and ?c = "settle s"
  let ?p = "init_first ?gs s0"
  have p: "Claimables (settle ?p) = fmempty" "Pools (settle ?p) = fmempty" "Tabs (settle ?p) = fmempty" "books_ok E ?p"
    by (simp_all add: init_first_def empty settle_empty_def amounts_ok_def)
  note pos = exported_amounts [OF ok(1)]
  obtain l1 where 1: "forM (sg_Claimables ?gs) (\<lambda>c. addClaimable (cl_AppId c) (cl_Denom c) (cl_Amount c)) ?p =
      (Inr (), ?p\<lparr>settle := (settle ?p)\<lparr>Claimables := Claimables ?c, LedgerTotal := l1\<rparr>\<rparr>)" (is "_ = (_, ?s1)")
    using claim_loop [OF p(4), of "sg_Claimables ?gs"] pos(1) by (auto simp: p exported_keys exported_restored distinct_entries)
  have ok1: "books_ok E ?s1" by (rule keepsRD [OF keepsR_forM [OF stores.booked(3)] p(4) 1])
  obtain l2 where 2: "forM (sg_Pools ?gs) (\<lambda>p. addPool (pb_Pool p) (pb_Denom p) (pb_Amount p)) ?s1 =
      (Inr (), ?s1\<lparr>settle := (settle ?s1)\<lparr>Pools := Pools ?c, LedgerTotal := l2\<rparr>\<rparr>)" (is "_ = (_, ?s2)")
    using pool_loop [OF ok1, of "sg_Pools ?gs"] pos(2) by (auto simp: p exported_keys exported_restored distinct_entries)
  have ok2: "books_ok E ?s2" by (rule keepsRD [OF keepsR_forM [OF stores.booked(2)] ok1 2])
  obtain l3 where 3: "forM (sg_Tabs ?gs) (init_tab E) ?s2 =
      (Inr (), ?s2\<lparr>settle := (settle ?s2)\<lparr>Tabs := Tabs ?c, LedgerTotal := l3\<rparr>\<rparr>)" (is "_ = (_, ?s3)")
    using tab_loop [OF ok2 pos(3)] by (auto simp: p exported_restored(4) [OF ok(1)])
  let ?t = "s0\<lparr>settle := (restored E s s0)\<lparr>LedgerTotal := l3\<rparr>\<rparr>"
  have run: "settle_InitGenesis E ?gs s0 = (Inr (), ?t)"
    unfolding settle_InitGenesis_run
    by (rule exI conjI 1 2 3 init_entries_run)+
      (simp add: exported_restored(4-6) [OF ok(1)] exported_restored(3) init_first_def init_last_def empty settle_empty_def,
        cases "settle s", simp add: restored_def settle_ExportGenesis_def)
  note t = settle_start_books [OF empty exported_wf [OF ok(1)] run]
  have "l3 = LedgerTotal ?c"
  proof (rule positive_eq)
    show "positive l3" "positive (LedgerTotal ?c)" using t(1) ok(1) by (simp_all add: amounts_ok_def)
    show "getInt l3 d = getInt (LedgerTotal ?c) d" for d
      using t(2) [of d] ok(2) [of d] by (simp add: gap_def owed_def recount restored_def)
  qed
  with run show ?thesis by (simp add: restored_def)
qed

end
