(* ===== verification/SettlePayments.thy ===== *)
theory SettlePayments
  imports SettleGenesisLaws
begin

text \<open>
  What a payment does: the exact effect of \<open>Pay\<close> on every balance and ledger, the refusals in the
  order of the code, when a payment must succeed, and what the spending of allowances adds up to.
\<close>

section \<open>Exact effect\<close>

lemma sends_balance:
  assumes "bank_laws E" "sends E to d n x y" "0 \<le> n"
  shows "BankBalance E y a d' = BankBalance E x a d' + (if a = to then at d n d' else 0) - (if a = moduleAddr E then at d n d' else 0)"
proof (cases "0 < n")
  case True
  with assms(2) have "BankM2A E settle_module to (coins1 d n) x = Inr y" by (simp add: sends_def)
  from bank_M2A(2) [OF assms(1) this, of a d'] show ?thesis by (simp add: moved_def at_def moduleAddr_def)
next
  case False
  with assms(2,3) show ?thesis by (simp add: sends_def at_def)
qed

lemma distribute_ledgers:
  assumes "distribute E params asset req s = (Inr res, t)"
  shows "ClaimableOf t i d' = ClaimableOf s i d' +
      (if i = rq_AppID req \<and> d' = coin_Denom (rq_Amount req) then sr_App (rq_split E params asset req) else 0)"
    and "PoolBalance t p d' = PoolBalance s p d' + (if d' = coin_Denom (rq_Amount req) then
      (if p = PoolValidator then sr_Validator (rq_split E params asset req) else 0) +
      (if p = PoolRelayer then sr_Relayer (rq_split E params asset req) else 0) +
      (if p = PoolTreasury then sr_Treasury (rq_split E params asset req) else 0) else 0)"
proof -
  let ?d = "coin_Denom (rq_Amount req)" and ?p = "rq_split E params asset req"
  from assms obtain x1 x2 s3 s4 s5 s6 tots a evs where
    c: "addClaimable (rq_AppID req) ?d (sr_App ?p) (s\<lparr>ext := x2\<rparr>) = (Inr (), s3)"
    and v: "addPool PoolValidator ?d (sr_Validator ?p) s3 = (Inr (), s4)"
    and r: "addPool PoolRelayer ?d (sr_Relayer ?p) s4 = (Inr (), s5)"
    and y: "addPool PoolTreasury ?d (sr_Treasury ?p) s5 = (Inr (), s6)"
    and t: "t = s6\<lparr>settle := (settle s6)\<lparr>Totals := tots\<rparr>, apps := a, events := evs\<rparr>"
    by (rule distribute_Inr)
  have pc: "Pools (settle s3) = Pools (settle s)"
    using arg_cong [OF addClaimable_Inr(2) [OF c], of "\<lambda>z. Pools (settle z)"] by simp
  have cc: "Claimables (settle s6) = Claimables (settle s3)"
    using arg_cong [OF addPool_Inr(2) [OF v], of "\<lambda>z. Claimables (settle z)"]
      arg_cong [OF addPool_Inr(2) [OF r], of "\<lambda>z. Claimables (settle z)"]
      arg_cong [OF addPool_Inr(2) [OF y], of "\<lambda>z. Claimables (settle z)"] by simp
  show "ClaimableOf t i d' = ClaimableOf s i d' + (if i = rq_AppID req \<and> d' = ?d then sr_App ?p else 0)"
    using addClaimable_Inr(3) [OF c, of i d'] cc by (simp add: t ClaimableOf_def)
  show "PoolBalance t p d' = PoolBalance s p d' + (if d' = ?d then
      (if p = PoolValidator then sr_Validator ?p else 0) + (if p = PoolRelayer then sr_Relayer ?p else 0) +
      (if p = PoolTreasury then sr_Treasury ?p else 0) else 0)"
    using addPool_Inr(3) [OF v, of p d'] addPool_Inr(3) [OF r, of p d'] addPool_Inr(3) [OF y, of p d'] pc
    by (auto simp: t PoolBalance_def)
qed

lemma distribute_ext:
  assumes "distribute E params asset req s = (Inr res, t)"
  defines "d \<equiv> coin_Denom (rq_Amount req)" and "fee \<equiv> rq_fee params asset req" and "spl \<equiv> rq_split E params asset req"
  obtains x where "sends E (rq_Payee req) d (coin_Amount (rq_Amount req) - fee) (ext s) x"
    "sends E (rq_Referrer req) d (sr_Referrer spl) x (ext t)"
    "res = \<lparr>res_Fee = fee, res_Net = coin_Amount (rq_Amount req) - fee, res_Split = spl, res_AppID = rq_AppID req\<rparr>"
proof -
  from assms(1) obtain x1 x2 s3 s4 s5 s6 tots a evs where
    x: "sends E (rq_Payee req) d (coin_Amount (rq_Amount req) - fee) (ext s) x1" "sends E (rq_Referrer req) d (sr_Referrer spl) x1 x2"
    and c: "addClaimable (rq_AppID req) d (sr_App spl) (s\<lparr>ext := x2\<rparr>) = (Inr (), s3)"
    and v: "addPool PoolValidator d (sr_Validator spl) s3 = (Inr (), s4)"
    and r: "addPool PoolRelayer d (sr_Relayer spl) s4 = (Inr (), s5)"
    and y: "addPool PoolTreasury d (sr_Treasury spl) s5 = (Inr (), s6)"
    and t: "t = s6\<lparr>settle := (settle s6)\<lparr>Totals := tots\<rparr>, apps := a, events := evs\<rparr>"
    and res: "res = \<lparr>res_Fee = fee, res_Net = coin_Amount (rq_Amount req) - fee, res_Split = spl, res_AppID = rq_AppID req\<rparr>"
    unfolding d_def fee_def spl_def by (rule distribute_Inr)
  have "ext t = x2"
    using arg_cong [OF addClaimable_Inr(2) [OF c], of ext] arg_cong [OF addPool_Inr(2) [OF v], of ext]
      arg_cong [OF addPool_Inr(2) [OF r], of ext] arg_cong [OF addPool_Inr(2) [OF y], of ext] by (simp add: t)
  with that x res show ?thesis by simp
qed

text \<open>What the bank balance of an address changes by when \<open>req\<close> is paid in full with a fee and a split.\<close>

definition paid_to :: "'x env \<Rightarrow> pay_request \<Rightarrow> pay_result \<Rightarrow> addr \<Rightarrow> int" where
  "paid_to E req res a =
     (if a = rq_Payee req then res_Net res else 0) +
     (if a = rq_Referrer req then sr_Referrer (res_Split res) else 0) -
     (if a = rq_Payer req then coin_Amount (rq_Amount req) else 0) +
     (if a = moduleAddr E then res_Fee res - sr_Referrer (res_Split res) else 0)"

definition pool_part :: "split_result \<Rightarrow> string \<Rightarrow> int" where
  "pool_part spl p =
     (if p = PoolValidator then sr_Validator spl else 0) + (if p = PoolRelayer then sr_Relayer spl else 0) +
     (if p = PoolTreasury then sr_Treasury spl else 0)"

text \<open>
  C2. A payment is exact. When \<open>Pay\<close> succeeds with the funds taken from the payer, the fee and its
  split are those of \<open>ComputeFee\<close> and \<open>ComputeSplit\<close>, the parts of the split add up to the fee, the
  payer loses the amount, the payee gets the amount less the fee, the referrer its part, the module
  keeps the rest, and exactly that rest is booked: the app's part as claimable, the other parts in
  the validator, relayer and treasury pools. Nothing else changes in any denom.
\<close>

theorem Pay_exact:
  assumes "bank_laws E" "\<not> rq_FundsInModule req" "rq_Payer req \<noteq> moduleAddr E" "Pay E req s = (Inr res, t)"
  shows "\<exists>asset. Asset (settle_GetParams s) (coin_Denom (rq_Amount req)) = Some asset \<and>
     res_Fee res = ComputeFee (coin_Amount (rq_Amount req)) asset (sp_FeeBps (settle_GetParams s)) \<and>
     res_Net res = coin_Amount (rq_Amount req) - res_Fee res \<and>
     res_Split res = ComputeSplit (res_Fee res) (sp_Split (settle_GetParams s)) (rq_App req \<noteq> None) (rq_refers E req)
       (case rq_App req of None \<Rightarrow> 0 | Some a \<Rightarrow> app_ReferrerBps a) \<and>
     split_Total (res_Split res) = res_Fee res \<and>
     (\<forall>a d. BankBalance E (ext t) a d = BankBalance E (ext s) a d + at (coin_Denom (rq_Amount req)) (paid_to E req res a) d) \<and>
     (\<forall>i d. ClaimableOf t i d = ClaimableOf s i d +
        (if i = res_AppID res then at (coin_Denom (rq_Amount req)) (sr_App (res_Split res)) d else 0)) \<and>
     (\<forall>p d. PoolBalance t p d = PoolBalance s p d + at (coin_Denom (rq_Amount req)) (pool_part (res_Split res) p) d)"
  using assms(4)
proof (rule Pay_Inr)
  let ?d = "coin_Denom (rq_Amount req)" and ?n = "coin_Amount (rq_Amount req)" and ?ps = "settle_GetParams s"
  fix asset x0
  assume a: "Asset ?ps ?d = Some asset" and n: "0 < ?n"
    and x: "if rq_FundsInModule req then x0 = ext s
      else BankA2M E (rq_Payer req) settle_module (coins1 ?d ?n) (ext s) = Inr x0"
    and run: "distribute E ?ps asset req (s\<lparr>ext := x0\<rparr>) = (Inr res, t)"
  let ?fee = "rq_fee ?ps asset req" and ?p = "rq_split E ?ps asset req"
  note fee = rq_fee_bounds [OF less_imp_le [OF n], of ?ps asset]
  have ref: "0 \<le> sr_Referrer ?p" using fee by (simp add: rq_split_def split_Referrer_nonneg)
  from run obtain y where y: "sends E (rq_Payee req) ?d (?n - ?fee) x0 y" "sends E (rq_Referrer req) ?d (sr_Referrer ?p) y (ext t)"
    and res: "res = \<lparr>res_Fee = ?fee, res_Net = ?n - ?fee, res_Split = ?p, res_AppID = rq_AppID req\<rparr>"
    by (rule distribute_ext) simp
  have x0: "BankBalance E x0 a d = BankBalance E (ext s) a d + moved (rq_Payer req) (moduleAddr E) (coins1 ?d ?n) a d" for a d
    using bank_A2M(1) [OF assms(1), of "rq_Payer req" settle_module "coins1 ?d ?n" "ext s" x0 a d] x assms(2)
    by (simp add: moduleAddr_def)
  have "BankBalance E (ext t) a d = BankBalance E (ext s) a d + at ?d (paid_to E req res a) d" for a d
    using sends_balance [OF assms(1) y(1), of a d] sends_balance [OF assms(1) y(2) ref, of a d] fee x0 [of a d]
    by (simp add: paid_to_def res moved_def at_def)
  moreover have "ClaimableOf t i d = ClaimableOf s i d + (if i = res_AppID res then at ?d (sr_App (res_Split res)) d else 0)" for i d
    using distribute_ledgers(1) [OF run, of i d] by (simp add: res ClaimableOf_def at_def)
  moreover have "PoolBalance t p d = PoolBalance s p d + at ?d (pool_part (res_Split res) p) d" for p d
    using distribute_ledgers(2) [OF run, of p d] by (simp add: res PoolBalance_def at_def pool_part_def)
  moreover have "split_Total (res_Split res) = res_Fee res" by (simp add: res rq_split_def split_sum)
  ultimately show ?thesis using a by (simp add: res rq_fee_def rq_split_def)
qed

section \<open>Refusals\<close>

text \<open>The checks of \<open>Pay\<close> in the order of the code: the error of the first that fails.\<close>

definition pay_refusal :: "'x env \<Rightarrow> 'x chain \<Rightarrow> pay_request \<Rightarrow> settle_err option" where
  "pay_refusal E s req =
     (case Asset (settle_GetParams s) (coin_Denom (rq_Amount req)) of
        None \<Rightarrow> Some SErrAssetNotAllowed
      | Some a \<Rightarrow>
          if \<not> fa_Enabled a then Some SErrAssetNotAllowed
          else if IsSettlePaused s (coin_Denom (rq_Amount req)) then Some SErrPaused
          else if coin_Amount (rq_Amount req) \<le> 0 then Some SErrInvalidAmount
          else if \<not> validRecipient E (rq_Payee req) then Some SErrInvalidRecipient
          else if rq_Payer req = rq_Payee req then Some SErrSelfPayment
          else None)"

text \<open>
  Refusals of \<open>Pay\<close>. The first check that fails decides the error - unknown or disabled asset,
  pause, amount that is not positive, recipient that may not be paid, self payment - and a refused
  payment leaves the whole state as it was: no funds are taken, nothing is booked, no event.
\<close>

theorem Pay_refused:
  assumes "pay_refusal E s req = Some e"
  shows "Pay E req s = (Inl (ESettle e), s)"
  using assms
  by (auto simp: pay_refusal_def Pay_def checkAsset_def monad_defs split: option.splits if_splits)

section \<open>Payments that must succeed\<close>

text \<open>
  The bank's documented behaviour: a transfer out of a module account goes through when the account
  holds the coins and the recipient is not blocked.
\<close>

definition bank_pays :: "'x env \<Rightarrow> bool" where
  "bank_pays E \<longleftrightarrow>
     (\<forall>to d n x. 0 < n \<longrightarrow> n \<le> BankBalance E x (moduleAddr E) d \<longrightarrow> \<not> BlockedAddr E to \<longrightarrow>
        (\<exists>y. BankM2A E settle_module to (coins1 d n) x = Inr y))"

lemma add_succeeds:
  assumes "books_ok E s" "0 \<le> n"
  shows "\<exists>t. addClaimable i d n s = (Inr (), t) \<and> books_ok E t" "\<exists>t. addPool p d n s = (Inr (), t) \<and> books_ok E t"
proof -
  have "addClaimable i d n s = (Inr (), s) \<or> 0 < n" "addPool p d n s = (Inr (), s) \<or> 0 < n"
    using assms(2) by (auto simp: addClaimable_def addPool_def)
  then have "\<exists>t. addClaimable i d n s = (Inr (), t)" "\<exists>t. addPool p d n s = (Inr (), t)"
    using add_run [OF assms(1), of n] by blast+
  then show "\<exists>t. addClaimable i d n s = (Inr (), t) \<and> books_ok E t" "\<exists>t. addPool p d n s = (Inr (), t) \<and> books_ok E t"
    using keepsRD [OF stores.booked(3) assms(1)] keepsRD [OF stores.booked(2) assms(1)] by blast+
qed

lemma send_succeeds:
  assumes "bank_laws E" "bank_pays E" "ValidDenom E d" "0 < n \<Longrightarrow> n \<le> BankBalance E (ext s) (moduleAddr E) d \<and> \<not> BlockedAddr E to"
  shows "\<exists>x. whenM (0 < n) (bindM (NewCoins E d n) (\<lambda>cs. SendCoinsFromModuleToAccount E settle_module to cs)) s = (Inr (), s\<lparr>ext := x\<rparr>) \<and>
    sends E to d n (ext s) x"
proof (cases "0 < n")
  case True
  with assms(2,4) obtain x where "BankM2A E settle_module to (coins1 d n) (ext s) = Inr x" unfolding bank_pays_def by blast
  with True assms(3) show ?thesis by (auto simp: sends_def run_simps)
next
  case False
  then have "whenM (0 < n) (bindM (NewCoins E d n) (\<lambda>cs. SendCoinsFromModuleToAccount E settle_module to cs)) s = (Inr (), s\<lparr>ext := ext s\<rparr>)"
    by (simp add: run_simps)
  with False show ?thesis unfolding sends_def by metis
qed

lemma seqM_step: "seqM m n s = (case m s of (Inl e, t) \<Rightarrow> (Inl e, t) | (Inr u, t) \<Rightarrow> n t)"
  by (simp add: seqM_def bindM_def)

lemma RecordSettlement_runs: "\<exists>t. RecordSettlement E i p w s = (Inr (), t)"
  by (auto simp: RecordSettlement_def bindM_def gets_def ret_def modify_def Let_def split: prod.splits)

lemma addTotals_runs: "\<exists>t. addTotals d n f s = (Inr (), t)"
  by (auto simp: addTotals_def bindM_def gets_def modify_def)

lemma record_app_runs:
  assumes "b \<longrightarrow> qw \<noteq> None"
  shows "\<exists>t. whenM b (bindM (need qw EPanic) (\<lambda>w. RecordSettlement E i p (f w) )) s = (Inr (), t)"
proof (cases b)
  case True
  with assms obtain w where w: "qw = Some w" by auto
  obtain t where "RecordSettlement E i p (f w) s = (Inr (), t)" using RecordSettlement_runs by blast
  with True w show ?thesis by (simp add: whenM_def bindM_def need_def ret_def)
next
  case False
  then show ?thesis by (simp add: whenM_def ret_def)
qed

lemma distribute_succeeds:
  fixes s :: "'x chain" and E :: "'x env"
  assumes bank: "bank_laws E" "bank_pays E" and ok: "books_ok E s" and spl: "split_Validate (sp_Split ps)"
    and bps: "\<forall>a. rq_App req = Some a \<longrightarrow> app_ReferrerBps a \<le> 10000" and d: "ValidDenom E (coin_Denom (rq_Amount req))"
    and n: "0 < coin_Amount (rq_Amount req)"
    and held: "coin_Amount (rq_Amount req) \<le> BankBalance E (ext s) (moduleAddr E) (coin_Denom (rq_Amount req))"
    and payee: "validRecipient E (rq_Payee req)" and qw: "rq_App req \<noteq> None \<longrightarrow> fa_QuotaWeight asset \<noteq> None"
  shows "\<exists>res t. distribute E ps asset req s = (Inr res, t)"
proof -
  let ?d = "coin_Denom (rq_Amount req)" and ?n = "coin_Amount (rq_Amount req)"
  let ?fee = "rq_fee ps asset req" and ?p = "rq_split E ps asset req"
  have fee: "0 \<le> ?fee" "?fee \<le> ?n" using rq_fee_bounds [of req ps asset] n by simp_all
  have "(case rq_App req of None \<Rightarrow> 0 | Some a \<Rightarrow> app_ReferrerBps a) \<le> 10000" using bps by (cases "rq_App req") auto
  from split_nonneg [OF spl fee(1) this, of "rq_App req \<noteq> None" "rq_refers E req"]
  have p: "0 \<le> sr_App ?p" "0 \<le> sr_Referrer ?p" "0 \<le> sr_Validator ?p" "0 \<le> sr_Relayer ?p" "0 \<le> sr_Treasury ?p"
    unfolding rq_split_def by simp_all
  have r_le: "sr_Referrer ?p \<le> ?fee" using rq_split_sum [of E ps asset req] p by linarith
  have refers: "rq_refers E req" if "0 < sr_Referrer ?p"
    using that by (auto simp: rq_split_def ComputeSplit_def Let_def split: if_splits)
  obtain x1 where 1: "whenM (0 < ?n - ?fee) (bindM (NewCoins E ?d (?n - ?fee)) (\<lambda>cs. SendCoinsFromModuleToAccount E settle_module (rq_Payee req) cs)) s
      = (Inr (), s\<lparr>ext := x1\<rparr>)" and x1: "sends E (rq_Payee req) ?d (?n - ?fee) (ext s) x1"
    using send_succeeds [OF bank d, of "?n - ?fee" s "rq_Payee req"] held fee payee by (auto simp: validRecipient_def)
  have held1: "?fee \<le> BankBalance E x1 (moduleAddr E) ?d"
    using sends_balance [OF bank(1) x1, of "moduleAddr E" ?d] payee held fee by (auto simp: validRecipient_def at_def)
  obtain x2 where 2: "whenM (0 < sr_Referrer ?p) (bindM (NewCoins E ?d (sr_Referrer ?p))
      (\<lambda>cs. SendCoinsFromModuleToAccount E settle_module (rq_Referrer req) cs)) (s\<lparr>ext := x1\<rparr>) = (Inr (), s\<lparr>ext := x2\<rparr>)"
    using send_succeeds [OF bank d, of "sr_Referrer ?p" "s\<lparr>ext := x1\<rparr>" "rq_Referrer req"] held1 r_le refers
    by (auto simp: rq_refers_def validRecipient_def)
  have "books_ok E (s\<lparr>ext := x2\<rparr>)" using ok by simp
  then obtain s3 where 3: "addClaimable (rq_AppID req) ?d (sr_App ?p) (s\<lparr>ext := x2\<rparr>) = (Inr (), s3)" "books_ok E s3"
    using add_succeeds(1) [OF _ p(1)] by blast
  obtain s4 where 4: "addPool PoolValidator ?d (sr_Validator ?p) s3 = (Inr (), s4)" "books_ok E s4"
    using add_succeeds(2) [OF 3(2) p(3)] by blast
  obtain s5 where 5: "addPool PoolRelayer ?d (sr_Relayer ?p) s4 = (Inr (), s5)" "books_ok E s5"
    using add_succeeds(2) [OF 4(2) p(4)] by blast
  obtain s6 where 6: "addPool PoolTreasury ?d (sr_Treasury ?p) s5 = (Inr (), s6)"
    using add_succeeds(2) [OF 5(2) p(5)] by blast
  obtain s7 where 7: "addTotals ?d ?n ?fee s6 = (Inr (), s7)" using addTotals_runs by blast
  obtain s8 where 8: "whenM (rq_App req \<noteq> None) (bindM (need (fa_QuotaWeight asset) EPanic)
        (\<lambda>w. RecordSettlement E (rq_AppID req) (rq_Payer req) (?fee * w))) s7 = (Inr (), s8)"
    using record_app_runs [OF qw, of E "rq_AppID req" "rq_Payer req" "\<lambda>w. ?fee * w" s7] by blast
  have total: "check (split_Total ?p = ?fee) (ESettle SErrInvariantViolation) s = (Inr (), s)"
    by (simp add: rq_split_def split_sum)
  show ?thesis
    unfolding distribute_def Let_def rq_fee_def [symmetric] rq_refers_def [symmetric] rq_AppID_def [symmetric]
    unfolding rq_split_def [symmetric]
    by (simp only: seqM_step total 1 2 3(1) 4(1) 5(1) 6 7 8 prod.case sum.case) (auto simp: emit_def modify_def ret_def)
qed

lemma Pay_runs:
  assumes "bank_laws E" "bank_pays E" "settle_good E s" "0 \<le> slack E s (coin_Denom (rq_Amount req))" "split_Validate (sp_Split (settle_GetParams s))"
    and "pay_refusal E s req = None" "\<not> rq_FundsInModule req" "rq_Payer req \<noteq> moduleAddr E"
    and "ValidDenom E (coin_Denom (rq_Amount req))" "Asset (settle_GetParams s) (coin_Denom (rq_Amount req)) = Some asset"
    and "\<forall>a. rq_App req = Some a \<longrightarrow> app_ReferrerBps a \<le> 10000 \<and> fa_QuotaWeight asset \<noteq> None"
    and "BankA2M E (rq_Payer req) settle_module (coins1 (coin_Denom (rq_Amount req)) (coin_Amount (rq_Amount req))) (ext s) = Inr x"
  shows "\<exists>res t. Pay E req s = (Inr res, t)"
proof -
  let ?d = "coin_Denom (rq_Amount req)" and ?n = "coin_Amount (rq_Amount req)" and ?ps = "settle_GetParams s"
  have c: "fa_Enabled asset" "\<not> IsSettlePaused s ?d" "0 < ?n" "validRecipient E (rq_Payee req)" "rq_Payer req \<noteq> rq_Payee req"
    using assms(6,10) by (auto simp: pay_refusal_def split: if_splits)
  have "0 \<le> owed s ?d" "0 \<le> slack E s ?d" using assms(3,4) by (simp_all add: settle_good_def amounts_ok_def getInt_nonneg owed_def)
  then have "?n \<le> BankBalance E x (moduleAddr E) ?d"
    using bank_A2M(1) [OF assms(1,12), of "moduleAddr E" ?d] assms(8) by (simp add: slack_def moduleAddr_def moved_def)
  moreover have "books_ok E (s\<lparr>ext := x\<rparr>)" using assms(3) by (simp add: settle_good_def)
  ultimately obtain res t where r: "distribute E ?ps asset req (s\<lparr>ext := x\<rparr>) = (Inr res, t)"
    using distribute_succeeds [OF assms(1,2) _ assms(5) _ assms(9) c(3), of "s\<lparr>ext := x\<rparr>" asset] assms(11) c(4) by auto
  have a: "checkAsset ?ps ?d s = (Inr asset, s)" using assms(10) c(1,2) by (simp add: checkAsset_Inr)
  have "Pay E req s = (Inr res, t)"
    using assms(7,9,12) c r by (simp add: Pay_def bindM_def seqM_def a callx_def NewCoins_def monad_defs)
  then show ?thesis by blast
qed

text \<open>
  Payments go through. With a bank that pays what the module holds, a valid split, exact books and a
  covered ledger, a payment succeeds if and only if no check refuses it and the bank takes the funds
  from the payer: no ledger or split step of \<open>distribute\<close> can fail it. This is so up to the panics
  of \<open>math.Int\<close>, which are not branches of these definitions: the products of an amount with a rate
  must fit 256 bits.
\<close>

theorem Pay_succeeds:
  assumes "bank_laws E" "bank_pays E" "settle_good E s" "0 \<le> slack E s (coin_Denom (rq_Amount req))" "split_Validate (sp_Split (settle_GetParams s))"
    and "\<not> rq_FundsInModule req" "rq_Payer req \<noteq> moduleAddr E" "ValidDenom E (coin_Denom (rq_Amount req))"
    and "\<forall>a asset. rq_App req = Some a \<longrightarrow> Asset (settle_GetParams s) (coin_Denom (rq_Amount req)) = Some asset \<longrightarrow>
      app_ReferrerBps a \<le> 10000 \<and> fa_QuotaWeight asset \<noteq> None"
  shows "(\<exists>res t. Pay E req s = (Inr res, t)) \<longleftrightarrow>
     pay_refusal E s req = None \<and>
     (\<exists>x. BankA2M E (rq_Payer req) settle_module (coins1 (coin_Denom (rq_Amount req)) (coin_Amount (rq_Amount req))) (ext s) = Inr x)"
    (is "?run \<longleftrightarrow> ?ok \<and> ?bank")
proof
  assume ?run
  then obtain res t where "Pay E req s = (Inr res, t)" by blast
  then show "?ok \<and> ?bank"
  proof (rule Pay_Inr)
    fix asset x
    assume "Asset (settle_GetParams s) (coin_Denom (rq_Amount req)) = Some asset" "fa_Enabled asset"
      "\<not> IsSettlePaused s (coin_Denom (rq_Amount req))" "0 < coin_Amount (rq_Amount req)"
      "validRecipient E (rq_Payee req)" "rq_Payer req \<noteq> rq_Payee req"
      "if rq_FundsInModule req then x = ext s
       else BankA2M E (rq_Payer req) settle_module (coins1 (coin_Denom (rq_Amount req)) (coin_Amount (rq_Amount req))) (ext s) = Inr x"
    with assms(6) show "?ok \<and> ?bank" by (auto simp: pay_refusal_def)
  qed
next
  assume ok: "?ok \<and> ?bank"
  then obtain asset where a: "Asset (settle_GetParams s) (coin_Denom (rq_Amount req)) = Some asset"
    by (auto simp: pay_refusal_def split: option.splits)
  from ok obtain x where "BankA2M E (rq_Payer req) settle_module (coins1 (coin_Denom (rq_Amount req)) (coin_Amount (rq_Amount req))) (ext s) = Inr x"
    by blast
  with ok a assms(9) show ?run by (intro Pay_runs [OF assms(1-5) _ assms(6-8) a, of x]) auto
qed

section \<open>Allowances\<close>

lemma SpendAllowance_run:
  "SpendAllowance E w i d n s =
     (let cur = Allowance s (AccString E w) i d in
      if cur < n then (Inl (ESettle SErrAllowance), s)
      else (Inr (), if MaxAllowance \<le> cur then s
        else s\<lparr>settle := (settle s)\<lparr>Allowances := setInt (Allowances (settle s)) (AccString E w, i, d) (cur - n)\<rparr>\<rparr>))"
  by (auto simp: SpendAllowance_def Allowance_def Let_def monad_defs setInt_def)

lemma spend_balance:
  assumes "SpendAllowance E w i d n s = (Inr (), t)"
  shows "n \<le> Allowance s (AccString E w) i d"
    "Allowance t w' i' d' = Allowance s w' i' d' -
       (if (w', i', d') = (AccString E w, i, d) \<and> Allowance s (AccString E w) i d < MaxAllowance then n else 0)"
  using assms by (auto simp: SpendAllowance_run Let_def Allowance_def split: if_splits)

text \<open>
  Allowances are exact. A spend above the remaining allowance is refused with
  \<open>ErrAllowance\<close> and changes nothing; a run of spends by one app out of a finite allowance lowers it
  by exactly their sum, so that together they never exceed what the owner approved; and no spend
  touches the allowance of another owner, app or denom.
\<close>

theorem allowance_bounds_spending:
  assumes "forM ns (\<lambda>n. SpendAllowance E w i d n) s = (Inr (), t)" "\<forall>n \<in> set ns. 0 \<le> n"
    and "Allowance s (AccString E w) i d < MaxAllowance"
  shows "Allowance t (AccString E w) i d = Allowance s (AccString E w) i d - sum_list ns \<and>
    (ns \<noteq> [] \<longrightarrow> sum_list ns \<le> Allowance s (AccString E w) i d) \<and>
    (\<forall>w' i' d'. (w', i', d') \<noteq> (AccString E w, i, d) \<longrightarrow> Allowance t w' i' d' = Allowance s w' i' d') \<and>
    (\<forall>n. Allowance t (AccString E w) i d < n \<longrightarrow> SpendAllowance E w i d n t = (Inl (ESettle SErrAllowance), t))"
proof -
  have r: "SpendAllowance E w i d n t = (Inl (ESettle SErrAllowance), t)" if "Allowance t (AccString E w) i d < n" for n
    using that by (simp add: SpendAllowance_run)
  have "Allowance t (AccString E w) i d = Allowance s (AccString E w) i d - sum_list ns \<and>
    (ns \<noteq> [] \<longrightarrow> sum_list ns \<le> Allowance s (AccString E w) i d) \<and>
    (\<forall>w' i' d'. (w', i', d') \<noteq> (AccString E w, i, d) \<longrightarrow> Allowance t w' i' d' = Allowance s w' i' d')"
    using assms
  proof (induction ns arbitrary: s)
    case Nil
    then show ?case by simp
  next
    case (Cons n ns)
    from Cons.prems(1) obtain u where u: "SpendAllowance E w i d n s = (Inr (), u)"
      and ns: "forM ns (\<lambda>n. SpendAllowance E w i d n) u = (Inr (), t)" by (auto simp: run_simps)
    have "Allowance u (AccString E w) i d = Allowance s (AccString E w) i d - n"
      "(w', i', d') \<noteq> (AccString E w, i, d) \<Longrightarrow> Allowance u w' i' d' = Allowance s w' i' d'" for w' i' d'
      using spend_balance(2) [OF u] Cons.prems(3) by auto
    with Cons.IH [OF ns] Cons.prems(2,3) spend_balance(1) [OF u] show ?case by (cases "ns = []") auto
  qed
  with r show ?thesis by blast
qed

section \<open>Concrete runs\<close>

definition ex_asset :: fee_asset where
  "ex_asset = \<lparr>fa_Denom = ''uusdc'', fa_Enabled = True, fa_MinFee = Some 1000, fa_MaxFee = Some 1000000000,
     fa_MicroThreshold = Some 100000, fa_TabSettleThreshold = Some 1000000, fa_QuotaWeight = Some 1,
     fa_CreditPrice = Some 1000, fa_Symbol = ''USDC'', fa_Decimals = 6\<rparr>"

definition ex_params :: settle_params where
  "ex_params = settle_DefaultParams\<lparr>sp_Assets := [ex_asset], sp_MaxTabAgeBlocks := 50\<rparr>"

definition ex_settle :: "ref_ext chain" where
  "ex_settle = (let s = ref_chain (ref_genesis [(string_bytes ''alice'', ''uusdc'', 9000000)])
     in s\<lparr>settle := settle_empty\<lparr>s_Params := Some ex_params\<rparr>\<rparr>)"

definition ex_request :: "pay_request" where
  "ex_request = \<lparr>rq_Payer = string_bytes ''alice'', rq_Payee = string_bytes ''bobby'',
     rq_Amount = \<lparr>coin_Denom = ''uusdc'', coin_Amount = 2000000\<rparr>,
     rq_App = None, rq_Referrer = [], rq_FundsInModule = False\<rparr>"

lemma string_bytes_Nil [ref_run]: "string_bytes s = [] \<longleftrightarrow> s = []"
  by (simp add: string_bytes_def)

lemmas pay_eval = ref_run monad_defs checkAsset_def validRecipient_def callx_def NewCoins_def moduleAddr_def moved_def

lemma ex_params_eq [simp]: "settle_GetParams ex_settle = ex_params"
  by (simp add: ex_settle_def settle_GetParams_def Let_def)

lemma ex_asset_eq [simp]: "Asset ex_params ''uusdc'' = Some ex_asset"
  by (simp add: ex_params_def Asset_def ex_asset_def)

lemma ex_asset_fields [simp]:
  "fa_Denom ex_asset = ''uusdc''" "fa_Enabled ex_asset" "fa_TabSettleThreshold ex_asset = Some 1000000"
  "fa_QuotaWeight ex_asset = Some 1" "fa_CreditPrice ex_asset = Some 1000"
  by (simp_all add: ex_asset_def)

lemma ex_not_paused [simp]: "\<not> IsSettlePaused ex_settle d"
  by (simp add: ex_settle_def ref_chain_def IsSettlePaused_def IsPaused_def Let_def)

lemma ref_bank_pays: "bank_pays ref_env"
  by (auto simp: bank_pays_def ref_run moduleAddr_def)

lemma ex_settle_good: "settle_good ref_env ex_settle" "0 \<le> slack ref_env ex_settle d"
  by (simp_all add: settle_good_def ex_settle_def Let_def settle_empty_def amounts_ok_def gap_def owed_def recount slack_def
      getInt_def credit_room_def ref_run)

lemma ex_request_facts:
  "rq_Payer ex_request \<noteq> moduleAddr ref_env" "\<not> rq_FundsInModule ex_request" "coin_Denom (rq_Amount ex_request) = ''uusdc''"
  "coin_Amount (rq_Amount ex_request) = 2000000" "rq_App ex_request = None" "ValidDenom ref_env ''uusdc''"
  "pay_refusal ref_env ex_settle ex_request = None"
  "\<exists>x. BankA2M ref_env (rq_Payer ex_request) settle_module (coins1 ''uusdc'' 2000000) (ext ex_settle) = Inr x"
  by (simp_all add: ex_request_def moduleAddr_def ref_run pay_refusal_def validRecipient_def)
    (simp_all add: ex_settle_def ref_chain_def ref_genesis_def Let_def string_bytes_Nil)

lemma ex_params_valid: "split_Validate (sp_Split ex_params)"
  by (simp add: ex_params_def settle_DefaultParams_def split_Validate_def MaxBps_def)

theorem Pay_succeeds_witness: "\<exists>res t. Pay ref_env ex_request ex_settle = (Inr res, t)"
  using Pay_succeeds [OF ref_bank_laws ref_bank_pays ex_settle_good, of ex_request] ex_params_valid ex_request_facts
  by simp

lemma ex_settle_fields [simp]:
  "Claimables (settle ex_settle) = fmempty" "Pools (settle ex_settle) = fmempty" "Tabs (settle ex_settle) = fmempty"
  "LedgerTotal (settle ex_settle) = fmempty" "Totals (settle ex_settle) = fmempty" "Allowances (settle ex_settle) = fmempty"
  "height ex_settle = 100"
  "x_bal (ext ex_settle) a d = (if a = string_bytes ''alice'' \<and> d = ''uusdc'' then 9000000 else 0)"
  by (simp_all add: ex_settle_def Let_def settle_empty_def ref_chain_def ref_genesis_def)

lemma ex_fee: "ComputeFee 2000000 ex_asset (sp_FeeBps ex_params) = 20000"
  by (simp add: ComputeFee_def ex_asset_def ex_params_def settle_DefaultParams_def quo_def MaxBps_def fee_floor_def fee_cap_def Let_def)

lemma ex_split: "ComputeSplit 20000 (sp_Split ex_params) False b r =
    \<lparr>sr_App = 0, sr_Referrer = 0, sr_Validator = 4000, sr_Relayer = 2000, sr_Treasury = 14000\<rparr>"
  by (simp add: ComputeSplit_def Let_def ex_params_def settle_DefaultParams_def quo_def MaxBps_def)

lemmas ledger_eval = addClaimable_def addPool_def addInt_def ledger_def addTotals_def emit_def Let_def getInt_def

lemma ex_paid: "\<exists>t. Pay ref_env ex_request ex_settle =
   (Inr \<lparr>res_Fee = 20000, res_Net = 1980000,
      res_Split = \<lparr>sr_App = 0, sr_Referrer = 0, sr_Validator = 4000, sr_Relayer = 2000, sr_Treasury = 14000\<rparr>, res_AppID = 0\<rparr>, t)"
proof -
  obtain x where "BankA2M ref_env (rq_Payer ex_request) settle_module (coins1 ''uusdc'' 2000000) (ext ex_settle) = Inr x"
    using ex_request_facts(8) by blast
  then obtain res t where run: "Pay ref_env ex_request ex_settle = (Inr res, t)"
    using Pay_runs [OF ref_bank_laws ref_bank_pays ex_settle_good, of ex_request ex_asset x] ex_params_valid ex_request_facts
    by auto
  then obtain x' where "distribute ref_env ex_params ex_asset ex_request (ex_settle\<lparr>ext := x'\<rparr>) = (Inr res, t)"
    by (rule Pay_Inr) (auto simp: ex_request_facts)
  then have "res = \<lparr>res_Fee = 20000, res_Net = 1980000,
      res_Split = \<lparr>sr_App = 0, sr_Referrer = 0, sr_Validator = 4000, sr_Relayer = 2000, sr_Treasury = 14000\<rparr>, res_AppID = 0\<rparr>"
    by (rule distribute_ext) (simp add: rq_fee_def rq_split_def rq_AppID_def ex_request_facts ex_fee ex_split)
  with run show ?thesis by blast
qed

theorem Pay_exact_witness:
  "\<exists>res t. Pay ref_env ex_request ex_settle = (Inr res, t) \<and> res_Fee res = 20000 \<and>
     BankBalance ref_env (ext t) (string_bytes ''bobby'') ''uusdc'' = 1980000 \<and>
     BankBalance ref_env (ext t) (string_bytes ''alice'') ''uusdc'' = 7000000 \<and>
     BankBalance ref_env (ext t) (moduleAddr ref_env) ''uusdc'' = 20000 \<and>
     PoolBalance t PoolTreasury ''uusdc'' = 14000"
proof -
  obtain t where run: "Pay ref_env ex_request ex_settle =
   (Inr \<lparr>res_Fee = 20000, res_Net = 1980000,
      res_Split = \<lparr>sr_App = 0, sr_Referrer = 0, sr_Validator = 4000, sr_Relayer = 2000, sr_Treasury = 14000\<rparr>, res_AppID = 0\<rparr>, t)"
    using ex_paid by blast
  note e = Pay_exact [OF ref_bank_laws ex_request_facts(2,1) run]
  from e have b: "BankBalance ref_env (ext t) a d = BankBalance ref_env (ext ex_settle) a d + at ''uusdc''
     (paid_to ref_env ex_request \<lparr>res_Fee = 20000, res_Net = 1980000,
      res_Split = \<lparr>sr_App = 0, sr_Referrer = 0, sr_Validator = 4000, sr_Relayer = 2000, sr_Treasury = 14000\<rparr>, res_AppID = 0\<rparr> a) d"
    and p: "PoolBalance t p d = PoolBalance ex_settle p d + at ''uusdc''
     (pool_part \<lparr>sr_App = 0, sr_Referrer = 0, sr_Validator = 4000, sr_Relayer = 2000, sr_Treasury = 14000\<rparr> p) d" for a d p
    by (auto simp: ex_request_facts)
  show ?thesis
    using run b [of "string_bytes ''bobby''" "''uusdc''"] b [of "string_bytes ''alice''" "''uusdc''"]
      b [of "moduleAddr ref_env" "''uusdc''"] p [of PoolTreasury "''uusdc''"]
    by (simp add: at_def paid_to_def pool_part_def ex_request_def ref_run moduleAddr_def PoolBalance_def getInt_def
        PoolTreasury_def PoolValidator_def PoolRelayer_def)
qed

theorem Pay_refused_witness:
  "Pay ref_env (ex_request\<lparr>rq_Payee := rq_Payer ex_request\<rparr>) ex_settle = (Inl (ESettle SErrSelfPayment), ex_settle)"
  by (rule Pay_refused) (simp add: pay_refusal_def ex_request_def validRecipient_def ref_run moduleAddr_def)

definition ex_allowed :: "ref_ext chain" where
  "ex_allowed = ex_settle\<lparr>settle := (settle ex_settle)\<lparr>Allowances := fmupd (''alice'', 1, ''uusdc'') 5000 fmempty\<rparr>\<rparr>"

theorem allowance_bounds_spending_witness:
  "\<exists>t. forM [1000, 2500] (\<lambda>n. SpendAllowance ref_env (string_bytes ''alice'') 1 ''uusdc'' n) ex_allowed = (Inr (), t) \<and>
     Allowance t ''alice'' 1 ''uusdc'' = 1500 \<and>
     SpendAllowance ref_env (string_bytes ''alice'') 1 ''uusdc'' 1501 t = (Inl (ESettle SErrAllowance), t)"
proof -
  have a: "Allowance ex_allowed ''alice'' 1 ''uusdc'' = 5000" by (simp add: ex_allowed_def Allowance_def getInt_def)
  have "\<exists>t. forM [1000, 2500] (\<lambda>n. SpendAllowance ref_env (string_bytes ''alice'') 1 ''uusdc'' n) ex_allowed = (Inr (), t)"
    by (simp add: SpendAllowance_run a ref_run seqM_step Let_def MaxAllowance_def) (simp add: Allowance_def ex_allowed_def)
  then obtain t where t: "forM [1000, 2500] (\<lambda>n. SpendAllowance ref_env (string_bytes ''alice'') 1 ''uusdc'' n) ex_allowed = (Inr (), t)"
    by blast
  note b = allowance_bounds_spending [OF t]
  from b a t show ?thesis by (simp add: ref_run MaxAllowance_def del: forM.simps)
qed

end
