(* ===== verification/SettleTabLaws.thy ===== *)
theory SettleTabLaws
  imports SettlePayments
begin

text \<open>
  Tabs: what a deposit and a close do to the tab, to the balances and to every other tab, and who
  may close one.
\<close>

section \<open>Settling a tab\<close>

lemma distribute_tabs:
  assumes "distribute E params asset req s = (Inr res, t)"
  shows "Tabs (settle t) = Tabs (settle s)"
  using assms
proof (rule distribute_Inr)
  fix x2 s3 s4 s5 s6 tots a evs and c1 v1 r1 y1 :: int and i d
  assume c: "addClaimable (rq_AppID req) (coin_Denom (rq_Amount req)) (sr_App (rq_split E params asset req)) (s\<lparr>ext := x2\<rparr>) = (Inr (), s3)"
    and v: "addPool PoolValidator (coin_Denom (rq_Amount req)) (sr_Validator (rq_split E params asset req)) s3 = (Inr (), s4)"
    and r: "addPool PoolRelayer (coin_Denom (rq_Amount req)) (sr_Relayer (rq_split E params asset req)) s4 = (Inr (), s5)"
    and y: "addPool PoolTreasury (coin_Denom (rq_Amount req)) (sr_Treasury (rq_split E params asset req)) s5 = (Inr (), s6)"
    and t: "t = s6\<lparr>settle := (settle s6)\<lparr>Totals := tots\<rparr>, apps := a, events := evs\<rparr>"
  show ?thesis
    using same_gap_book(1) [OF c] same_gap_book(2) [OF v] same_gap_book(2) [OF r] same_gap_book(2) [OF y]
    by (simp add: t same_gap_def)
qed

lemma tab_request_amount: "coin_Amount (rq_Amount (tab_request tb p q a)) = tab_Amount tb"
  by (simp add: tab_request_def)

text \<open>What a tab pays when it is settled: its amount with the fee of one payment, or a refund.\<close>

lemma settleTab_effect:
  assumes "settleTab E key tb app0 s = (Inr res, t)"
  shows "Tabs (settle t) = fmdrop key (Tabs (settle s))"
    and "Asset (settle_GetParams s) (tab_Denom tb) = Some a \<Longrightarrow>
      res_Fee res = ComputeFee (tab_Amount tb) a (sp_FeeBps (settle_GetParams s)) \<and> res_Net res = tab_Amount tb - res_Fee res"
    and "bank_laws E \<Longrightarrow> AccFromBech32 E (if Asset (settle_GetParams s) (tab_Denom tb) = None then tab_Payer tb else tab_Payee tb) = Some w \<Longrightarrow>
      w \<noteq> moduleAddr E \<Longrightarrow> BankBalance E (ext t) w d = BankBalance E (ext s) w d +
        at (tab_Denom tb) (if Asset (settle_GetParams s) (tab_Denom tb) = None then tab_Amount tb else res_Net res) d"
proof -
  from assms obtain payer payee where p: "AccFromBech32 E (tab_Payer tb) = Some payer" "AccFromBech32 E (tab_Payee tb) = Some payee"
    and n: "0 \<le> tab_Amount tb"
    and c: "case Asset (settle_GetParams s) (tab_Denom tb) of
        None \<Rightarrow> res = no_result \<and> (\<exists>x. BankM2A E settle_module payer (coins1 (tab_Denom tb) (tab_Amount tb)) (ext s) = Inr x \<and>
                  t = (tab_released key tb s)\<lparr>ext := x\<rparr>)
      | Some asset \<Rightarrow> \<exists>v ev. distribute E (settle_GetParams s) asset (tab_request tb payer payee (tab_app s tb app0))
           (tab_released key tb s) = (Inr res, v) \<and> t = v\<lparr>events := ev\<rparr>"
    by (rule settleTab_Inr)
  let ?req = "tab_request tb payer payee (tab_app s tb app0)"
  have "Tabs (settle t) = fmdrop key (Tabs (settle s)) \<and>
    (\<forall>a. Asset (settle_GetParams s) (tab_Denom tb) = Some a \<longrightarrow>
      res_Fee res = ComputeFee (tab_Amount tb) a (sp_FeeBps (settle_GetParams s)) \<and> res_Net res = tab_Amount tb - res_Fee res) \<and>
    (bank_laws E \<longrightarrow> AccFromBech32 E (if Asset (settle_GetParams s) (tab_Denom tb) = None then tab_Payer tb else tab_Payee tb) = Some w \<longrightarrow>
      w \<noteq> moduleAddr E \<longrightarrow> BankBalance E (ext t) w d = BankBalance E (ext s) w d +
        at (tab_Denom tb) (if Asset (settle_GetParams s) (tab_Denom tb) = None then tab_Amount tb else res_Net res) d)"
  proof (cases "Asset (settle_GetParams s) (tab_Denom tb)")
    case None
    with c obtain x where x: "BankM2A E settle_module payer (coins1 (tab_Denom tb) (tab_Amount tb)) (ext s) = Inr x"
      "t = (tab_released key tb s)\<lparr>ext := x\<rparr>" by auto
    show ?thesis
      using bank_M2A(2) [of E settle_module payer "coins1 (tab_Denom tb) (tab_Amount tb)" "ext s" x w d] p None x(1)
      by (auto simp: x(2) tab_released_def moved_def at_def moduleAddr_def)
  next
    case (Some asset)
    with c obtain v ev where v: "distribute E (settle_GetParams s) asset ?req (tab_released key tb s) = (Inr res, v)"
      "t = v\<lparr>events := ev\<rparr>" by auto
    have r: "rq_Referrer ?req = []" "\<not> rq_refers E ?req" "coin_Denom (rq_Amount ?req) = tab_Denom tb"
      "coin_Amount (rq_Amount ?req) = tab_Amount tb" "rq_Payee ?req = payee"
      by (simp_all add: tab_request_def rq_refers_def)
    have no_ref: "sr_Referrer (rq_split E (settle_GetParams s) asset ?req) = 0"
      by (simp add: rq_split_def r(2) ComputeSplit_def Let_def)
    from v(1) obtain y where
      y: "sends E payee (tab_Denom tb) (tab_Amount tb - rq_fee (settle_GetParams s) asset ?req) (ext (tab_released key tb s)) y"
      "sends E [] (tab_Denom tb) 0 y (ext v)"
      and res: "res_Fee res = rq_fee (settle_GetParams s) asset ?req" "res_Net res = tab_Amount tb - rq_fee (settle_GetParams s) asset ?req"
      by (rule distribute_ext) (simp add: r no_ref)
    have yv: "ext v = y" using y(2) by (simp add: sends_def)
    have "0 \<le> tab_Amount tb - rq_fee (settle_GetParams s) asset ?req"
      using rq_fee_bounds [of ?req "settle_GetParams s" asset] n by (simp add: r)
    then show ?thesis
      using distribute_tabs [OF v(1)] res sends_balance [OF _ y(1), of w d] Some p
      by (auto simp: v(2) tab_released_def rq_fee_def r yv tab_request_amount)
  qed
  then show "Tabs (settle t) = fmdrop key (Tabs (settle s))"
    "Asset (settle_GetParams s) (tab_Denom tb) = Some a \<Longrightarrow>
      res_Fee res = ComputeFee (tab_Amount tb) a (sp_FeeBps (settle_GetParams s)) \<and> res_Net res = tab_Amount tb - res_Fee res"
    "bank_laws E \<Longrightarrow> AccFromBech32 E (if Asset (settle_GetParams s) (tab_Denom tb) = None then tab_Payer tb else tab_Payee tb) = Some w \<Longrightarrow>
      w \<noteq> moduleAddr E \<Longrightarrow> BankBalance E (ext t) w d = BankBalance E (ext s) w d +
        at (tab_Denom tb) (if Asset (settle_GetParams s) (tab_Denom tb) = None then tab_Amount tb else res_Net res) d"
    by blast+
qed

section \<open>Deposits\<close>

text \<open>
  C29. A deposit is exact and touches one tab only. With a threshold configured, a successful deposit
  settles the tab if and only if the stored amount plus the deposit reaches the threshold. Below it
  the tab is stored with the sum and one more entry and nobody is paid; at it the tab is gone and
  one fee is taken on the whole sum. The tab of any other app, payer, payee or denom stays as it is,
  because the keys of different tabs differ.
\<close>

theorem TabDeposit_exact:
  assumes "text_laws E" "books_ok E s" "is_account E p" "is_account E q" "TabDeposit E app0 p q c pull s = (Inr (settled, res), t)"
    and "i = (case app0 of None \<Rightarrow> 0 | Some a \<Rightarrow> app_AppId a)" "key = TabKey E i p q (coin_Denom c)"
    and "t1 = tab_add (tab_of E i p q (coin_Denom c) s) (coin_Amount c)"
  shows "(\<exists>asset threshold. Asset (settle_GetParams s) (coin_Denom c) = Some asset \<and>
       fa_TabSettleThreshold asset = Some threshold \<and> settled = (threshold \<le> tab_Amount t1) \<and>
       (settled \<longrightarrow>
          res_Fee res = ComputeFee (tab_Amount t1) asset (sp_FeeBps (settle_GetParams s)) \<and> res_Net res = tab_Amount t1 - res_Fee res)) \<and>
     fmlookup (Tabs (settle t)) key = (if settled then None else Some t1) \<and>
     (\<forall>i' p' q' d'. is_account E p' \<longrightarrow> is_account E q' \<longrightarrow> (i', p', q', d') \<noteq> (i, p, q, coin_Denom c) \<longrightarrow>
        fmlookup (Tabs (settle t)) (TabKey E i' p' q' d') = fmlookup (Tabs (settle s)) (TabKey E i' p' q' d'))"
proof -
  from assms(5) obtain s0 s1 asset thr where a: "Asset (settle_GetParams s) (coin_Denom c) = Some asset"
    and s0: "whenM pull (bindM (NewCoins E (coin_Denom c) (coin_Amount c))
       (\<lambda>cs. SendCoinsFromAccountToModule E p settle_module cs)) s = (Inr (), s0)"
    and thr: "fa_TabSettleThreshold asset = Some thr"
    and l: "ledger (coin_Denom c) (coin_Amount c) s0 = (Inr (), s1)"
    and rest0: "(if thr \<le> tab_Amount (tab_add (tab_of E i p q (coin_Denom c) s0) (coin_Amount c))
       then bindM (settleTab E key (tab_add (tab_of E i p q (coin_Denom c) s0) (coin_Amount c)) app0) (\<lambda>res. ret (True, res))
       else seqM (on_settle (\<lambda>st. st\<lparr>Tabs := fmupd key (tab_add (tab_of E i p q (coin_Denom c) s0) (coin_Amount c)) (Tabs st)\<rparr>))
            (seqM (emit (EvTabDeposit i p q (coin_Denom c) (coin_Amount c)
               (tab_Amount (tab_add (tab_of E i p q (coin_Denom c) s0) (coin_Amount c)))))
            (ret (False, no_result)))) s1 = (Inr (settled, res), t)"
    unfolding TabDeposit_def Let_def assms(6) [symmetric] assms(7) [symmetric]
    by (auto simp only: bindM_Inr seqM_Inr gets_run check_Inr checkAsset_Inr need_Inr sum.inject)
  obtain x where x: "s0 = s\<lparr>ext := x\<rparr>"
  proof (cases pull)
    case True
    with s0 that show ?thesis by (auto simp: run_simps)
  next
    case False
    with s0 have "s0 = s\<lparr>ext := ext s\<rparr>" by (simp add: run_simps)
    then show ?thesis by (rule that)
  qed
  have "tab_of E i p q (coin_Denom c) s0 = tab_of E i p q (coin_Denom c) s"
    by (simp add: x tab_of_def split: option.splits)
  note rest = rest0 [unfolded this, folded assms(8)]
  have s1: "Tabs (settle s1) = Tabs (settle s)" "settle_GetParams s1 = settle_GetParams s"
    using l by (auto simp: ledger_Inr settle_GetParams_def x)
  have tabs: "Tabs (settle t) = (if settled then fmdrop key (Tabs (settle s)) else fmupd key t1 (Tabs (settle s)))"
    and st: "settled = (thr \<le> tab_Amount t1)"
    using rest settleTab_effect(1) [of E key t1 app0 s1 _ t] by (auto simp: run_simps s1 split: if_splits)
  have denom: "tab_Denom t1 = coin_Denom c"
  proof (cases "fmlookup (Tabs (settle s)) key")
    case None
    then show ?thesis by (simp add: assms(8) tab_of_def assms(7) tab_add_def)
  next
    case (Some tb)
    moreover have "tabs_ok E s" using assms(2) by (simp add: amounts_ok_def tabs_ok_def)
    ultimately show ?thesis
      using tabs_okD(3) [OF assms(1) _ _ assms(3,4)] by (simp add: assms(8) tab_of_def assms(7) tab_add_def)
  qed
  have fee: "res_Fee res = ComputeFee (tab_Amount t1) asset (sp_FeeBps (settle_GetParams s)) \<and> res_Net res = tab_Amount t1 - res_Fee res"
    if settled
    using rest that denom st a settleTab_effect(2) [of E key t1 app0 s1 res t asset] by (auto simp: run_simps s1)
  have other: "fmlookup (Tabs (settle t)) (TabKey E i' p' q' d') = fmlookup (Tabs (settle s)) (TabKey E i' p' q' d')"
    if "is_account E p'" "is_account E q'" "(i', p', q', d') \<noteq> (i, p, q, coin_Denom c)" for i' p' q' d'
  proof -
    have "TabKey E i' p' q' d' \<noteq> key"
      unfolding assms(7) using TabKey_eq [OF assms(1) that(1,2) assms(3,4)] that(3) by auto
    then show ?thesis by (simp add: tabs fmlookup_drop)
  qed
  have "fmlookup (Tabs (settle t)) key = (if settled then None else Some t1)" by (simp add: tabs fmlookup_drop)
  with a thr st fee other show ?thesis by blast
qed

section \<open>Closing\<close>

text \<open>Who may close a tab: its payer, its payee, the owner of its app, or anyone once it is old enough.\<close>

definition may_close :: "'x env \<Rightarrow> 'x chain \<Rightarrow> tab \<Rightarrow> addr \<Rightarrow> u64 \<Rightarrow> addr \<Rightarrow> addr \<Rightarrow> bool" where
  "may_close E s tb sender i payer payee \<longleftrightarrow>
     sender = payer \<or> sender = payee \<or>
     (i \<noteq> NoApp \<and> (\<exists>a. find_app s i = Some a \<and> app_Owner a = AccString E sender)) \<or>
     sp_MaxTabAgeBlocks (settle_GetParams s) \<le> sub64 (height s) (tab_OpenedHeight tb)"

text \<open>
  C27. Closing a tab. A tab that is not there is refused with \<open>ErrTabNotFound\<close>; anyone who is not the
  payer, the payee or the app's owner is refused with \<open>ErrUnauthorized\<close> until the tab is old enough;
  a refusal changes nothing. A close that succeeds removes the tab and pays its full amount out: to
  the payee less the fee of one payment while the asset is listed, back to the payer without a fee
  when it no longer is - so no tab can be closed in favour of the one who closes it.
\<close>

theorem CloseTab_rights:
  assumes "text_laws E" "bank_laws E" "books_ok E s" "is_account E p" "is_account E q"
    and "p \<noteq> moduleAddr E" "q \<noteq> moduleAddr E"
  shows "case fmlookup (Tabs (settle s)) (TabKey E i p q d) of
      None \<Rightarrow> CloseTab E sn i p q d s = (Inl (ESettle SErrTabNotFound), s)
    | Some tb \<Rightarrow>
        (\<not> may_close E s tb sn i p q \<longrightarrow> CloseTab E sn i p q d s = (Inl (ESettle SErrUnauthorized), s)) \<and>
        (\<forall>res t. CloseTab E sn i p q d s = (Inr res, t) \<longrightarrow>
           may_close E s tb sn i p q \<and> Tabs (settle t) = fmdrop (TabKey E i p q d) (Tabs (settle s)) \<and>
           (case Asset (settle_GetParams s) d of
              None \<Rightarrow> \<forall>d'. BankBalance E (ext t) p d' = BankBalance E (ext s) p d' + at d (tab_Amount tb) d'
            | Some a \<Rightarrow> res_Fee res = ComputeFee (tab_Amount tb) a (sp_FeeBps (settle_GetParams s)) \<and>
                (\<forall>d'. BankBalance E (ext t) q d' = BankBalance E (ext s) q d' + at d (tab_Amount tb - res_Fee res) d')))"
proof (cases "fmlookup (Tabs (settle s)) (TabKey E i p q d)")
  case None
  then show ?thesis by (simp add: CloseTab_def Let_def monad_defs)
next
  case (Some tb)
  have "tabs_ok E s" using assms(3) by (simp add: amounts_ok_def tabs_ok_def)
  note tb = tabs_okD [OF assms(1) this Some assms(4,5)]
  have "CloseTab E sn i p q d s = (Inl (ESettle SErrUnauthorized), s)" if "\<not> may_close E s tb sn i p q"
    using that Some by (auto simp: CloseTab_def Let_def may_close_def monad_defs split: option.splits)
  moreover have "may_close E s tb sn i p q \<and> Tabs (settle t) = fmdrop (TabKey E i p q d) (Tabs (settle s)) \<and>
           (case Asset (settle_GetParams s) d of
              None \<Rightarrow> \<forall>d'. BankBalance E (ext t) p d' = BankBalance E (ext s) p d' + at d (tab_Amount tb) d'
            | Some a \<Rightarrow> res_Fee res = ComputeFee (tab_Amount tb) a (sp_FeeBps (settle_GetParams s)) \<and>
                (\<forall>d'. BankBalance E (ext t) q d' = BankBalance E (ext s) q d' + at d (tab_Amount tb - res_Fee res) d'))"
    if "CloseTab E sn i p q d s = (Inr res, t)" for res t
    using that
  proof (rule CloseTab_Inr)
    fix tb' app0
    assume "fmlookup (Tabs (settle s)) (TabKey E i p q d) = Some tb'" "settleTab E (TabKey E i p q d) tb' app0 s = (Inr res, t)"
      and may: "sn = p \<or> sn = q \<or> (i \<noteq> NoApp \<and> (\<exists>x. find_app s i = Some x \<and> app_Owner x = AccString E sn)) \<or>
       sp_MaxTabAgeBlocks (settle_GetParams s) \<le> sub64 (height s) (tab_OpenedHeight tb')"
    with Some have tb': "tb' = tb" and run: "settleTab E (TabKey E i p q d) tb app0 s = (Inr res, t)" by auto
    have "may_close E s tb sn i p q" using may unfolding may_close_def tb' .
    with settleTab_effect [OF run] tb assms(2,6,7) show ?thesis by (auto split: option.splits)
  qed
  ultimately show ?thesis using Some by simp
qed

section \<open>Concrete runs\<close>

text \<open>Alice opens a tab for Bob with a deposit, and a second deposit reaches the threshold.\<close>

definition ex_tab :: tab where
  "ex_tab = \<lparr>tab_AppId = 0, tab_Payer = ''alice'', tab_Payee = ''bobby'', tab_Denom = ''uusdc'', tab_Amount = 300000,
     tab_OpenedHeight = 100, tab_Entries = 1\<rparr>"

definition ex_tab_open :: "ref_ext chain" where
  "ex_tab_open = ex_settle\<lparr>
     ext := ref_genesis [(string_bytes ''alice'', ''uusdc'', 8700000), (moduleAddr ref_env, ''uusdc'', 300000)],
     settle := settle_empty\<lparr>s_Params := Some ex_params, Tabs := fmupd ''0|alice|bobby|uusdc'' ex_tab fmempty,
       LedgerTotal := fmupd ''uusdc'' 300000 fmempty\<rparr>\<rparr>"

lemma ex_tab_key: "TabKey ref_env 0 (string_bytes ''alice'') (string_bytes ''bobby'') ''uusdc'' = ''0|alice|bobby|uusdc''"
  by (simp add: TabKey_def ref_run decimal.simps hex_digit_def)

lemma ex_tab_open_fields [simp]:
  "settle ex_tab_open = settle_empty\<lparr>s_Params := Some ex_params, Tabs := fmupd ''0|alice|bobby|uusdc'' ex_tab fmempty,
       LedgerTotal := fmupd ''uusdc'' 300000 fmempty\<rparr>"
  "height ex_tab_open = 100" "\<not> IsSettlePaused ex_tab_open d"
  "x_bal (ext ex_tab_open) a d = (if d = ''uusdc'' then if a = string_bytes ''alice'' then 8700000
     else if a = moduleAddr ref_env then 300000 else 0 else 0)"
  by (simp_all add: ex_tab_open_def ref_genesis_def ex_settle_def ref_chain_def
      IsSettlePaused_def IsPaused_def Let_def moduleAddr_def ref_run)

lemma ex_accounts [simp]: "is_account ref_env (string_bytes ''alice'')" "is_account ref_env (string_bytes ''bobby'')"
  by (simp_all add: is_account_def ref_run)

lemma ex_tab_open_ok: "books_ok ref_env ex_tab_open"
proof -
  have "tab_ok ref_env ''0|alice|bobby|uusdc'' ex_tab"
    unfolding ex_tab_key [symmetric] by (simp add: tab_ok_def ex_tab_def ref_run) 
  then show ?thesis
    by (simp add: amounts_ok_def positive_def ex_tab_open_def settle_empty_def)
qed

lemmas tab_eval = pay_eval ledger_eval tab_of_def tab_add_def settleTab_def ex_tab_key split_Total_def distribute_def
  settle_empty_def settle_GetParams_def NoApp_def

lemma ex_fee2: "ComputeFee 1200000 ex_asset (sp_FeeBps ex_params) = 12000" "ComputeFee 300000 ex_asset (sp_FeeBps ex_params) = 3000"
  by (simp_all add: ComputeFee_def ex_asset_def ex_params_def settle_DefaultParams_def quo_def MaxBps_def fee_floor_def fee_cap_def Let_def)

lemma ex_split2: "ComputeSplit 12000 (sp_Split ex_params) False b r =
    \<lparr>sr_App = 0, sr_Referrer = 0, sr_Validator = 2400, sr_Relayer = 1200, sr_Treasury = 8400\<rparr>"
  "ComputeSplit 3000 (sp_Split ex_params) False b r =
    \<lparr>sr_App = 0, sr_Referrer = 0, sr_Validator = 600, sr_Relayer = 300, sr_Treasury = 2100\<rparr>"
  by (simp_all add: ComputeSplit_def Let_def ex_params_def settle_DefaultParams_def quo_def MaxBps_def)

lemma ex_tab_settled:
  "\<exists>res t. TabDeposit ref_env None (string_bytes ''alice'') (string_bytes ''bobby'')
     \<lparr>coin_Denom = ''uusdc'', coin_Amount = 900000\<rparr> True ex_tab_open = (Inr (True, res), t)"
  by (simp add: TabDeposit_def tab_eval ex_tab_def ex_fee2 ex_split2 NoApp_def)

lemma ex_tab_closed:
  "\<exists>res t. CloseTab ref_env (string_bytes ''alice'') 0 (string_bytes ''alice'') (string_bytes ''bobby'') ''uusdc'' ex_tab_open = (Inr res, t)"
  by (simp add: CloseTab_def tab_eval ex_tab_def ex_fee2 ex_split2 NoApp_def)

lemma ex_tab_open_params: "settle_GetParams ex_tab_open = ex_params"
  by (simp add: settle_GetParams_def)

theorem TabDeposit_exact_witness:
  "\<exists>res t. TabDeposit ref_env None (string_bytes ''alice'') (string_bytes ''bobby'')
     \<lparr>coin_Denom = ''uusdc'', coin_Amount = 900000\<rparr> True ex_tab_open = (Inr (True, res), t) \<and>
     fmlookup (Tabs (settle t)) ''0|alice|bobby|uusdc'' = None \<and> res_Fee res = 12000 \<and> res_Net res = 1188000"
proof -
  obtain res t where run: "TabDeposit ref_env None (string_bytes ''alice'') (string_bytes ''bobby'')
     \<lparr>coin_Denom = ''uusdc'', coin_Amount = 900000\<rparr> True ex_tab_open = (Inr (True, res), t)"
    using ex_tab_settled by blast
  have a: "tab_Amount (tab_add (tab_of ref_env 0 (string_bytes ''alice'') (string_bytes ''bobby'') ''uusdc'' ex_tab_open) 900000) = 1200000"
    by (simp add: tab_of_def ex_tab_key tab_add_def ex_tab_def)
  note e = TabDeposit_exact [OF ref_text_laws ex_tab_open_ok _ _ run refl refl refl]
  show ?thesis using e run by (simp add: ex_tab_open_params a ex_fee2 ex_tab_key del: ex_tab_open_fields)
qed

theorem CloseTab_rights_witness:
  "CloseTab ref_env (string_bytes ''carol'') 0 (string_bytes ''alice'') (string_bytes ''bobby'') ''uusdc'' ex_tab_open =
     (Inl (ESettle SErrUnauthorized), ex_tab_open) \<and>
   (\<exists>res t. CloseTab ref_env (string_bytes ''alice'') 0 (string_bytes ''alice'') (string_bytes ''bobby'') ''uusdc'' ex_tab_open = (Inr res, t) \<and>
      BankBalance ref_env (ext t) (string_bytes ''bobby'') ''uusdc'' = 297000)"
proof -
  have k: "fmlookup (Tabs (settle ex_tab_open)) (TabKey ref_env 0 (string_bytes ''alice'') (string_bytes ''bobby'') ''uusdc'') = Some ex_tab"
    by (simp add: ex_tab_key)
  have ne: "string_bytes ''alice'' \<noteq> moduleAddr ref_env" "string_bytes ''bobby'' \<noteq> moduleAddr ref_env"
    by (simp_all add: moduleAddr_def ref_run)
  note c = CloseTab_rights [OF ref_text_laws ref_bank_laws ex_tab_open_ok ex_accounts ne, where i = 0 and d = "''uusdc''", unfolded k option.case]
  have no: "\<not> may_close ref_env ex_tab_open ex_tab (string_bytes ''carol'') 0 (string_bytes ''alice'') (string_bytes ''bobby'')"
    by (simp add: may_close_def NoApp_def ex_tab_open_params ex_tab_def ex_params_def wrap64_def del: ex_tab_open_fields(1))
  obtain res t where run: "CloseTab ref_env (string_bytes ''alice'') 0 (string_bytes ''alice'') (string_bytes ''bobby'') ''uusdc'' ex_tab_open = (Inr res, t)"
    using ex_tab_closed by blast
  have b: "res_Fee res = 3000 \<and> (\<forall>d. BankBalance ref_env (ext t) (string_bytes ''bobby'') d =
      BankBalance ref_env (ext ex_tab_open) (string_bytes ''bobby'') d + at ''uusdc'' (300000 - res_Fee res) d)"
    using c [where sn = "string_bytes ''alice''"] run by (auto simp: ex_tab_open_params ex_tab_def ex_fee2)
  have "BankBalance ref_env (ext t) (string_bytes ''bobby'') ''uusdc'' = 297000"
    using b [THEN conjunct2, rule_format, of "''uusdc''"] b ne(2) by (simp add: at_def ref_run)
  with run c [where sn = "string_bytes ''carol''"] no show ?thesis by blast
qed

end
