(* ===== verification/SettleTheorems.thy ===== *)
theory SettleTheorems
  imports SettleTabLaws
begin

text \<open>
  The properties of \<open>x/settle\<close> as a whole: solvency and exact books in every reachable state, the
  on-chain checks and their safe mode, the payout of validators, the pools, the gas credits and
  genesis.
\<close>

section \<open>Reachable states\<close>

definition settle_reach :: "'x env \<Rightarrow> 'x chain \<Rightarrow> bool" where
  "settle_reach E s \<longleftrightarrow>
     (\<exists>s0 gs s1. settle s0 = settle_empty \<and> genesis_wf E gs \<and> settle_InitGenesis E gs s0 = (Inr (), s1) \<and>
        (\<forall>d. owed s1 d \<le> BankBalance E (ext s1) (moduleAddr E) d) \<and> (settle_step E)\<^sup>*\<^sup>* s1 s)"

text \<open>
  The same runs, with what the failed payouts on the way have sent without booking it: nothing at a
  funded genesis, what is stranded at the end of a block whose payout fails, and nothing else.
\<close>

definition settle_reach_losing :: "'x env \<Rightarrow> (denom \<Rightarrow> int) \<Rightarrow> 'x chain \<Rightarrow> bool" where
  "settle_reach_losing E lost s \<longleftrightarrow>
     (\<exists>s0 gs s1. settle s0 = settle_empty \<and> genesis_wf E gs \<and> settle_InitGenesis E gs s0 = (Inr (), s1) \<and>
        (\<forall>d. owed s1 d \<le> BankBalance E (ext s1) (moduleAddr E) d) \<and> settle_steps_losing E s1 lost s)"

lemma settle_reach_iff: "settle_reach E s \<longleftrightarrow> (\<exists>lost. settle_reach_losing E lost s)"
  unfolding settle_reach_def settle_reach_losing_def steps_losing by blast

lemma reach_after_calls:
  assumes "settle_reach_losing E lost s" "(settle_call E)\<^sup>*\<^sup>* s t"
  shows "settle_reach_losing E lost t"
  using assms unfolding settle_reach_losing_def by (blast intro: calls_lose_nothing)

lemma settle_reach_losing_good:
  assumes "settle_env E" "settle_reach_losing E lost s"
  shows "settle_good E s \<and> covered E lost s"
proof -
  from assms(2) obtain s0 gs s1 where 1: "settle s0 = settle_empty" "genesis_wf E gs" "settle_InitGenesis E gs s0 = (Inr (), s1)"
    "\<forall>d. owed s1 d \<le> BankBalance E (ext s1) (moduleAddr E) d" and r: "settle_steps_losing E s1 lost s"
    unfolding settle_reach_losing_def by blast
  from steps_losing_good [OF assms(1) settle_start_good [OF 1] r] show ?thesis .
qed

lemma settle_reach_good: "settle_env E \<Longrightarrow> settle_reach E s \<Longrightarrow> settle_good E s"
  using settle_reach_losing_good by (auto simp: settle_reach_iff)

text \<open>
  C1. Solvency and exact books. In every state the chain reaches from a funded genesis - through
  messages, payments, tabs, claims, credit purchases, allowances, block hooks and whatever happens
  elsewhere, with payouts of validators that succeed or fail - the running ledger total of a denom is
  the sum of all claimables, pools and tabs; the module account holds at least that much, less only
  the coins that failed payouts sent before their error and did not book (\<open>lost\<close>: zero for every denom
  as long as no transfer of a payout fails); no stored amount is zero or negative, and no more gas
  credits exist than genesis had plus what the module minted.
\<close>

theorem settle_solvent:
  assumes "settle_env E" "settle_reach_losing E lost s"
  shows "(\<forall>d. getInt (LedgerTotal (settle s)) d = RecountLedger s d \<and> 0 \<le> lost d \<and>
       RecountLedger s d \<le> BankBalance E (ext s) (moduleAddr E) d + lost d) \<and>
     (\<forall>i d. 0 \<le> ClaimableOf s i d) \<and> (\<forall>p d. 0 \<le> PoolBalance s p d) \<and>
     (\<forall>k tb. fmlookup (Tabs (settle s)) k = Some tb \<longrightarrow> 0 < tab_Amount tb) \<and>
     (\<forall>g. GenesisCreditSupply (settle s) = Some g \<longrightarrow>
        BankSupply E (ext s) (creditDenom E) \<le> g + (case CreditsMinted (settle s) of None \<Rightarrow> 0 | Some m \<Rightarrow> m))"
proof -
  note good = settle_reach_losing_good [OF assms, THEN conjunct1] and cov = settle_reach_losing_good [OF assms, THEN conjunct2]
  have "getInt (LedgerTotal (settle s)) d = RecountLedger s d \<and> 0 \<le> lost d \<and>
      RecountLedger s d \<le> BankBalance E (ext s) (moduleAddr E) d + lost d" for d
  proof -
    from good have "gap s d = 0" by (simp add: settle_good_def)
    moreover from cov have "0 \<le> lost d \<and> 0 \<le> slack E s d + lost d" unfolding covered_def by blast
    ultimately show ?thesis by (simp add: gap_def slack_def owed_def)
  qed
  moreover have "0 \<le> ClaimableOf s i d \<and> 0 \<le> PoolBalance s p d" for i p d
    using good by (simp add: settle_good_def amounts_ok_def ClaimableOf_def PoolBalance_def getInt_nonneg)
  moreover have "0 < tab_Amount tb" if "fmlookup (Tabs (settle s)) k = Some tb" for k tb
    using tab_ok_parts [of E k tb] good that by (simp add: settle_good_def amounts_ok_def)
  moreover have "BankSupply E (ext s) (creditDenom E) \<le> g + (case CreditsMinted (settle s) of None \<Rightarrow> 0 | Some m \<Rightarrow> m)"
    if "GenesisCreditSupply (settle s) = Some g" for g
    using good that by (simp add: settle_good_def credit_room_def)
  ultimately show ?thesis by blast
qed

section \<open>The on-chain checks\<close>

lemma solvency_check:
  "broken_solvency E s = [] \<longleftrightarrow> (\<forall>d n. fmlookup (LedgerTotal (settle s)) d = Some n \<longrightarrow> n \<le> BankBalance E (ext s) (moduleAddr E) d)"
  by (force simp: broken_solvency_def filter_empty_conv set_entries)

lemma credit_check:
  "CheckInvariants E s = [] \<longleftrightarrow> broken_solvency E s = [] \<and> 0 \<le> credit_room E s"
  by (auto simp: CheckInvariants_def credit_room_def Let_def split: option.splits)

text \<open>
  The checks find every breach. The list of broken invariants is empty exactly when, for each
  denom, the module holds at least what its ledger says it owes and the supply of gas credits is
  within its bound.
\<close>

theorem CheckInvariants_complete:
  assumes "books_ok E s" "\<forall>d. 0 \<le> BankBalance E (ext s) (moduleAddr E) d"
  shows "CheckInvariants E s = [] \<longleftrightarrow> (\<forall>d. owed s d \<le> BankBalance E (ext s) (moduleAddr E) d) \<and> 0 \<le> credit_room E s"
proof -
  have "broken_solvency E s = [] \<longleftrightarrow> (\<forall>d. owed s d \<le> BankBalance E (ext s) (moduleAddr E) d)"
    using assms(2) by (auto simp: solvency_check owed_def getInt_def split: option.splits)
  then show ?thesis by (simp add: credit_check)
qed

text \<open>
  The circuit breaker does not trip on its own. In a reachable state without a loss the on-chain
  checks find nothing, so the end of a block leaves the pauses and the state as they are.
\<close>

theorem checks_pass:
  assumes "settle_env E" "settle_reach_losing E (\<lambda>d. 0) s" "\<forall>d. 0 \<le> BankBalance E (ext s) (moduleAddr E) d"
  shows "CheckInvariants E s = [] \<and> runInvariants E s = (Inr (), s)"
proof -
  note good = settle_reach_losing_good [OF assms(1,2)]
  have "n \<le> BankBalance E (ext s) (moduleAddr E) d" if "fmlookup (LedgerTotal (settle s)) d = Some n" for d n
    using good that by (auto simp: covered_def slack_def owed_def getInt_def dest!: spec [of _ d])
  then have "CheckInvariants E s = []" using good by (simp add: credit_check solvency_check settle_good_def)
  then show ?thesis by (simp add: runInvariants_run)
qed

lemma settle_pause_everywhere:
  assumes "fmlookup (Pauses (council s)) ''settle'' = Some p" "isPauseActive s p"
  shows "IsSettlePaused s d"
  using assms by (simp add: IsSettlePaused_def IsPaused_def TargetSettle_def)

lemma paused_refuses:
  assumes "IsSettlePaused s (coin_Denom c)"
  shows "\<exists>e. TabDeposit E a p q c b s = (Inl e, s)" "\<exists>e. BuyCredits E x y c s = (Inl e, s)"
    "coin_Denom (rq_Amount req) = coin_Denom c \<Longrightarrow> \<exists>e. Pay E req s = (Inl e, s)"
  using assms
  by (auto simp: TabDeposit_def BuyCredits_def Pay_def checkAsset_def monad_defs split: option.splits)

text \<open>
  C32. Safe mode. When a check fails in a block whose height is a multiple of the interval, the end
  of that block pauses the whole module without an expiry: from then on every payment, tab deposit
  and purchase of credits, in any denom, is refused and changes nothing, at every later height until
  the pause is lifted. Balances and ledgers are left for inspection.
\<close>

theorem safe_mode_stops_payments:
  assumes "CheckInvariants E s \<noteq> []" "height s mod InvariantCheckInterval = 0"
  shows "\<exists>t. runInvariants E s = (Inr (), t) \<and> settle t = settle s \<and> ext t = ext s \<and>
     (\<forall>u c. council u = council t \<longrightarrow>
        IsSettlePaused u (coin_Denom c) \<and>
        (\<forall>req. \<exists>e. Pay E req u = (Inl e, u)) \<and>
        (\<forall>a p q b. \<exists>e. TabDeposit E a p q c b u = (Inl e, u)) \<and>
        (\<forall>b r. \<exists>e. BuyCredits E b r c u = (Inl e, u)))"
proof -
  define t where "t = safe_mode E s"
  have run: "runInvariants E s = (Inr (), t)" using assms by (simp add: runInvariants_run t_def)
  have store: "settle t = settle s" "ext t = ext s" by (simp_all add: t_def safe_mode_def)
  have paused: "IsSettlePaused u d" if "council u = council t" for u :: "'a chain" and d
    by (rule settle_pause_everywhere, simp add: that t_def safe_mode_def, simp add: isPauseActive_def)
  have "\<exists>e. Pay E req u = (Inl e, u)" if "council u = council t" for u :: "'a chain" and req
    using paused_refuses(3) [of u "rq_Amount req" req E] paused [OF that] by simp
  with paused paused_refuses(1,2) run store show ?thesis by blast
qed

section \<open>Payout of validators\<close>

text \<open>
  C28. The payout is exact. When it is due and staking has bonded validators with weight, the
  validator pool of each denom is shared in proportion to power times uptime: an account gets the
  rounded-down shares of the validators it operates, the pool loses exactly what was paid, never
  more than it held, and less than one base unit per payee stays behind. The other pools stay.
\<close>

theorem payout_exact:
  assumes "bank_laws E" "books_ok E s" "payout_due s" "BondedValidators E (ext s) = Inr vals"
    and "PayoutValidators E s = (Inr (), t)"
    and "payees = payees_of E (ext s) vals" "tw = sum_list (map snd payees)" "0 < tw" "bal = PoolBalance s PoolValidator d"
  shows "0 \<le> paid_out payees tw bal \<and> paid_out payees tw bal \<le> bal \<and> bal < paid_out payees tw bal + int (length payees) \<and>
     PoolBalance t PoolValidator d = bal - paid_out payees tw bal \<and>
     (\<forall>pool. pool \<noteq> PoolValidator \<longrightarrow> PoolBalance t pool d = PoolBalance s pool d) \<and>
     (\<forall>a. a \<noteq> moduleAddr E \<longrightarrow> BankBalance E (ext t) a d =
        BankBalance E (ext s) a d + paid_out (filter (\<lambda>p. fst p = a) payees) tw bal)"
proof -
  have w: "\<forall>p \<in> set payees. 0 < snd p" unfolding assms(6) by (intro ballI payee_weight)
  have ne: "payees \<noteq> []" using assms(7,8) by auto
  have bal: "0 \<le> bal" using assms(2) by (simp add: assms(9) PoolBalance_def amounts_ok_def getInt_nonneg)
  have "vals \<noteq> []" using ne by (auto simp: assms(6) payees_of_def map_filter_simps)
  with assms(3,4,5,8) have run: "forM (pool_entries s PoolValidator) (payout_pool E payees tw) (interval_started s) = (Inr (), t)"
    by (simp add: PayoutValidators_run assms(6,7))
  have pos: "\<forall>e \<in> set (pool_entries s PoolValidator). 0 \<le> snd e"
    using assms(2) by (auto simp: set_pool_entries amounts_ok_def positive_def less_imp_le)
  have zero: "paid_out ps tw 0 = 0" for ps by (induction ps) (simp_all add: paid_out_def payout_part_def)
  have m: "(case map_of (pool_entries s PoolValidator) d of None \<Rightarrow> 0 | Some n \<Rightarrow> paid_out ps tw n) = paid_out ps tw bal" for ps
    by (simp add: map_of_pool_entries assms(9) PoolBalance_def getInt_def zero split: option.splits)
  note r = pools_exact [OF run assms(1) pos assms(8) w distinct_pool_entries, where d = d, unfolded m]
  have s: "PoolBalance (interval_started s) p d = PoolBalance s p d" "ext (interval_started s) = ext s" for p
    by (simp_all add: interval_started_def PoolBalance_def)
  show ?thesis
    using paid_out_bounds [OF bal w assms(7) ne] r assms(9) by (simp add: s)
qed

text \<open>
  Uptime is a fraction. With a positive signing window the weight of a validator uses an uptime
  between 0 and 10000 basis points, whatever number of missed blocks the slashing module reports
  within \<open>int64\<close>, so no validator counts for more than its power and no weight is negative.
\<close>

theorem uptime_in_bounds:
  assumes "0 < window" "window < 2 ^ 40" "\<forall>c m. MissedBlocks E x c = Some m \<longrightarrow> 0 \<le> m"
  shows "0 \<le> uptime_bps E x window v \<and> uptime_bps E x window v \<le> MaxBps"
proof -
  have share: "0 \<le> sub64 10000 (quo (wrap64 (m * 10000)) window) \<and> sub64 10000 (quo (wrap64 (m * 10000)) window) \<le> 10000"
    if "0 \<le> m" "m \<le> window" for m
  proof -
    have "m * 10000 div window \<le> window * 10000 div window" using that assms(1) by (intro zdiv_mono1) simp_all
    with assms(1) that have "0 \<le> m * 10000 div window" "m * 10000 div window \<le> 10000"
      by (simp_all add: pos_imp_zdiv_nonneg_iff)
    moreover have "wrap64 (m * 10000) = m * 10000" using that assms(2) by (intro wrap64_nonneg_id) simp_all
    ultimately show ?thesis using that assms(1) by (simp add: wrap64_nonneg_id)
  qed
  show ?thesis
  proof (cases "v_ConsAddr v")
    case (Some c)
    then show ?thesis
      using assms(1,3) share [of window] share [of "the (MissedBlocks E x c)"]
      by (cases "MissedBlocks E x c") (auto simp: uptime_bps_def MaxBps_def Let_def)
  qed (simp add: uptime_bps_def MaxBps_def)
qed

end
