(* ===== verification/SettleRevenue.thy ===== *)
theory SettleRevenue
  imports SettleTabLaws
begin

text \<open>
  Money that leaves the pools: revenue claims of apps, gas credits, withdrawals from the treasury
  and disbursements to relayers, and the burning of gas fees.
\<close>

section \<open>Revenue claims\<close>

lemma claim_loop_exact:
  "foldM ds (cl, seen) (claim_denom E i) s = (Inr (cl', seen'), t) \<Longrightarrow> books_ok E s \<Longrightarrow>
   (\<forall>d. AmountOf cl' d = AmountOf cl d + (if d \<in> set ds - set seen then ClaimableOf s i d else 0)) \<and>
   (\<forall>j d. ClaimableOf t j d = (if j = i \<and> d \<in> set ds - set seen then 0 else ClaimableOf s j d)) \<and>
   ext t = ext s \<and> books_ok E t \<and> Pools (settle t) = Pools (settle s) \<and> Tabs (settle t) = Tabs (settle s)"
proof (induction ds arbitrary: cl seen s)
  case Nil
  then show ?case by simp
next
  case (Cons d ds)
  from Cons.prems(1) obtain cl1 seen1 s1 where a: "claim_denom E i d (cl, seen) s = (Inr (cl1, seen1), s1)"
    and r: "foldM ds (cl1, seen1) (claim_denom E i) s1 = (Inr (cl', seen'), t)" by (auto simp: run_simps)
  have nn: "0 \<le> ClaimableOf s i d" using Cons.prems(2) by (simp add: ClaimableOf_def amounts_ok_def getInt_nonneg)
  show ?case
  proof (cases "d \<in> set seen")
    case True
    with a have "cl1 = cl" "seen1 = seen" "s1 = s" by (auto simp: claim_denom_def)
    with Cons.IH [OF r] Cons.prems(2) True show ?thesis by auto
  next
    case False
    have 1: "seen1 = d # seen \<and> ext s1 = ext s \<and> books_ok E s1 \<and>
      Pools (settle s1) = Pools (settle s) \<and> Tabs (settle s1) = Tabs (settle s) \<and>
      (\<forall>e. AmountOf cl1 e = AmountOf cl e + (if e = d then ClaimableOf s i d else 0)) \<and>
      (\<forall>j e. ClaimableOf s1 j e = (if j = i \<and> e = d then 0 else ClaimableOf s j e))"
    proof (cases "0 < ClaimableOf s i d")
      case True
      with a False have b: "addClaimable i d (- ClaimableOf s i d) s = (Inr (), s1)" "cl1 = coins_add cl d (ClaimableOf s i d)"
        "seen1 = d # seen" by (auto simp: claim_denom_def run_simps)
      have "ext s1 = ext s" "Pools (settle s1) = Pools (settle s)" "Tabs (settle s1) = Tabs (settle s)"
        by (subst addClaimable_Inr(2) [OF b(1)], simp)+
      moreover have "ClaimableOf s1 j e = (if j = i \<and> e = d then 0 else ClaimableOf s j e)" for j e
        using addClaimable_Inr(3) [OF b(1), of j e] by simp
      moreover have "books_ok E s1" using keepsRD [OF stores.booked(3) Cons.prems(2) b(1)] .
      ultimately show ?thesis by (simp add: b(2,3))
    next
      case neg: False
      with a False have "cl1 = cl" "seen1 = d # seen" "s1 = s" by (auto simp: claim_denom_def run_simps)
      with neg nn Cons.prems(2) show ?thesis by auto
    qed
    with Cons.IH [OF r] False show ?thesis by (auto simp: claim_denom_def)
  qed
qed

text \<open>
  C35. A claim pays everything once. A successful claim of an app that is not revoked pays its
  revenue recipient, for each denom asked for (or each listed asset when none is named), exactly what
  was claimable - a denom named twice is paid once - and leaves nothing claimable there; the
  claimables of other apps and denoms, all pools and all tabs stay, and no other account of the bank but
  that of the module, which pays, changes.
\<close>

theorem ClaimRevenue_exact:
  assumes "bank_laws E" "books_ok E s" "ClaimRevenue E i ds s = (Inr cl, t)"
    and "D = (if ds = [] then map fa_Denom (sp_Assets (settle_GetParams s)) else ds)"
  shows "\<exists>a to. find_app s i = Some a \<and> app_Status a \<noteq> APP_STATUS_REVOKED \<and> AccFromBech32 E (app_RevenueRecipient a) = Some to \<and>
     (\<forall>d. AmountOf cl d = (if d \<in> set D then ClaimableOf s i d else 0)) \<and>
     (\<forall>j d. ClaimableOf t j d = (if j = i \<and> d \<in> set D then 0 else ClaimableOf s j d)) \<and>
     (\<forall>p d. PoolBalance t p d = PoolBalance s p d) \<and> Tabs (settle t) = Tabs (settle s) \<and>
     (\<forall>x d. BankBalance E (ext t) x d = BankBalance E (ext s) x d
        + (if x = to then AmountOf cl d else 0) - (if x = moduleAddr E then AmountOf cl d else 0))"
proof -
  from assms(3) obtain a to seen s1 x where a: "find_app s i = Some a" "app_Status a \<noteq> APP_STATUS_REVOKED"
    "AccFromBech32 E (app_RevenueRecipient a) = Some to"
    and r: "foldM D (fmempty, []) (claim_denom E i) s = (Inr (cl, seen), s1)"
    and x: "BankM2A E settle_module to cl (ext s1) = Inr x" "t = s1\<lparr>ext := x, events := events s1 @ [EvRevenueClaimed i to cl]\<rparr>"
    unfolding assms(4) by (auto simp: ClaimRevenue_def run_simps GetApp_def)
  note l = claim_loop_exact [OF r assms(2)]
  have "BankBalance E (ext t) y d = BankBalance E (ext s) y d
      + (if y = to then AmountOf cl d else 0) - (if y = moduleAddr E then AmountOf cl d else 0)" for y d
    using bank_M2A(2) [OF assms(1) x(1), of y d] l by (simp add: x(2) moved_def moduleAddr_def)
  moreover have "ClaimableOf t j d = ClaimableOf s1 j d" "PoolBalance t p d = PoolBalance s1 p d" "PoolBalance s1 p d = PoolBalance s p d" for j p d
    using l by (simp_all add: x(2) ClaimableOf_def PoolBalance_def)
  ultimately show ?thesis using a l by (simp add: x(2))
qed

section \<open>Gas credits\<close>

text \<open>
  C36. Credits cost their price. A successful purchase takes the payment from the buyer, books it in
  the treasury pool, mints amount times the asset's price of the credit denom to the recipient (the
  buyer when none is named), and counts it as minted; nobody else's balance changes.
\<close>

theorem BuyCredits_exact:
  assumes "bank_laws E" "b \<noteq> moduleAddr E" "BuyCredits E b r0 c s = (Inr out, t)" "to = (if r0 = [] then b else r0)"
  shows "\<exists>asset price. Asset (settle_GetParams s) (coin_Denom c) = Some asset \<and> fa_Enabled asset \<and> fa_CreditPrice asset = Some price \<and>
     out = \<lparr>coin_Denom = creditDenom E, coin_Amount = coin_Amount c * price\<rparr> \<and>
     (\<forall>p d. PoolBalance t p d = PoolBalance s p d + (if p = PoolTreasury then at (coin_Denom c) (coin_Amount c) d else 0)) \<and>
     CreditsMinted (settle t) = Some ((case CreditsMinted (settle s) of None \<Rightarrow> 0 | Some m \<Rightarrow> m) + coin_Amount out) \<and>
     (\<forall>a d. BankBalance E (ext t) a d = BankBalance E (ext s) a d
        + (if a = moduleAddr E then at (coin_Denom c) (coin_Amount c) d else 0) - (if a = b then at (coin_Denom c) (coin_Amount c) d else 0)
        + (if a = to then at (creditDenom E) (coin_Amount out) d else 0)) \<and>
     (\<forall>d. BankSupply E (ext t) d = BankSupply E (ext s) d + at (creditDenom E) (coin_Amount out) d)"
  using assms(3)
proof (rule BuyCredits_Inr)
  fix x s1 s2 credits
  assume n: "0 < coin_Amount c" and q: "QuoteCredits (coin_Denom c) (coin_Amount c) s = (Inr credits, s)"
    and v: "validRecipient E (if r0 = [] then b else r0)"
    and x: "BankA2M E b settle_module (coins1 (coin_Denom c) (coin_Amount c)) (ext s) = Inr x"
    and p: "addPool PoolTreasury (coin_Denom c) (coin_Amount c) (s\<lparr>ext := x\<rparr>) = (Inr (), s1)"
    and m: "mintCredits E (if r0 = [] then b else r0) credits s1 = (Inr out, s2)"
    and t: "t = s2\<lparr>events := events s2 @ [EvCreditsBought b (if r0 = [] then b else r0) c out]\<rparr>"
  have s1: "ext s1 = x" "CreditsMinted (settle s1) = CreditsMinted (settle s)"
    using arg_cong [OF addPool_Inr(2) [OF p], of ext] arg_cong [OF addPool_Inr(2) [OF p], of "\<lambda>z. CreditsMinted (settle z)"] by simp_all
  have pool: "PoolBalance s1 pl d = PoolBalance s pl d + (if pl = PoolTreasury \<and> d = coin_Denom c then coin_Amount c else 0)" for pl d
    using addPool_Inr(3) [OF p, of pl d] by (simp add: PoolBalance_def)
  from m obtain y z where y: "BankMint E settle_module (coins1 (creditDenom E) credits) x = Inr y"
    and z: "BankM2A E settle_module to (coins1 (creditDenom E) credits) y = Inr z"
    and s2: "s2 = s1\<lparr>ext := z, settle := (settle s1)\<lparr>CreditsMinted := Some ((case CreditsMinted (settle s1) of None \<Rightarrow> 0 | Some m \<Rightarrow> m) + credits)\<rparr>\<rparr>"
    and out: "out = \<lparr>coin_Denom = creditDenom E, coin_Amount = credits\<rparr>"
    by (rule mintCredits_Inr) (simp add: s1 assms(4))
  have to: "to \<noteq> moduleAddr E" using v by (simp add: validRecipient_def assms(4))
  have bal: "BankBalance E (ext t) a d = BankBalance E (ext s) a d
        + (if a = moduleAddr E then at (coin_Denom c) (coin_Amount c) d else 0) - (if a = b then at (coin_Denom c) (coin_Amount c) d else 0)
        + (if a = to then at (creditDenom E) (coin_Amount out) d else 0)" for a d
    using bank_A2M(1) [OF assms(1) x, of a d] bank_Mint(1) [OF assms(1) y, of a d] bank_M2A(2) [OF assms(1) z, of a d] to
    by (simp add: t s2 out moved_def moduleAddr_def at_def)
  have sup: "BankSupply E (ext t) d = BankSupply E (ext s) d + at (creditDenom E) (coin_Amount out) d" for d
    using bank_A2M(2) [OF assms(1) x, of d] bank_Mint(2) [OF assms(1) y, of d] bank_M2A(3) [OF assms(1) z, of d]
    by (simp add: t s2 out at_def)
  have tp: "PoolBalance t pl d = PoolBalance s pl d + (if pl = PoolTreasury then at (coin_Denom c) (coin_Amount c) d else 0)" for pl d
    using pool [of pl d] by (simp add: t s2 PoolBalance_def at_def)
  have mt: "CreditsMinted (settle t) = Some ((case CreditsMinted (settle s) of None \<Rightarrow> 0 | Some m \<Rightarrow> m) + coin_Amount out)"
    by (simp add: t s2 out s1(2))
  from q obtain asset price where "Asset (settle_GetParams s) (coin_Denom c) = Some asset" "fa_Enabled asset"
    "fa_CreditPrice asset = Some price" "credits = coin_Amount c * price" by (auto simp: QuoteCredits_Inr)
  with bal sup tp mt out show ?thesis by auto
qed

section \<open>Treasury\<close>

lemma withdraw_pools:
  "forM cs (\<lambda>c. bindM (gets (\<lambda>s. PoolBalance s PoolTreasury (coin_Denom c))) (\<lambda>bal.
        seqM (check (coin_Amount c \<le> bal) (ESettle SErrInsufficientPool))
        (addPool PoolTreasury (coin_Denom c) (- coin_Amount c)))) s = (Inr u, t) \<Longrightarrow> books_ok E s \<Longrightarrow>
   PoolBalance t p d = PoolBalance s p d - (if p = PoolTreasury then listed cs d else 0) \<and> ext t = ext s \<and> books_ok E t"
proof (induction cs arbitrary: s)
  case Nil
  then show ?case by (simp add: listed_def)
next
  case (Cons c cs)
  from Cons.prems(1) obtain v where a: "addPool PoolTreasury (coin_Denom c) (- coin_Amount c) s = (Inr (), v)"
    and b: "forM cs (\<lambda>c. bindM (gets (\<lambda>s. PoolBalance s PoolTreasury (coin_Denom c))) (\<lambda>bal.
        seqM (check (coin_Amount c \<le> bal) (ESettle SErrInsufficientPool))
        (addPool PoolTreasury (coin_Denom c) (- coin_Amount c)))) v = (Inr u, t)"
    by (auto simp: run_simps)
  have "ext v = ext s" using arg_cong [OF addPool_Inr(2) [OF a], of ext] by simp
  moreover have "books_ok E v" using keepsRD [OF stores.booked(2) Cons.prems(2) a] .
  ultimately show ?case
    using Cons.IH [OF b] addPool_Inr(3) [OF a, of p d] by (auto simp: listed_def at_def)
qed

text \<open>
  The treasury answers to governance and its admin. A withdrawal by anyone else is refused with
  \<open>ErrUnauthorized\<close> and changes nothing. One that succeeds lowers the treasury pool by exactly the
  listed coins, which it held, pays them to a recipient that may be paid, and leaves every other
  pool as it was.
\<close>

theorem WithdrawTreasury_rights:
  assumes "bank_laws E" "books_ok E s"
  shows "(\<not> (sg = authority E \<or> sp_TreasuryAdmin (settle_GetParams s) \<noteq> [] \<and> sg = sp_TreasuryAdmin (settle_GetParams s)) \<longrightarrow>
       WithdrawTreasury E sg to cs s = (Inl (ESettle SErrUnauthorized), s)) \<and>
     (\<forall>t. WithdrawTreasury E sg to cs s = (Inr (), t) \<longrightarrow>
        (\<forall>p d. PoolBalance t p d = PoolBalance s p d - (if p = PoolTreasury then listed cs d else 0)) \<and>
        (\<forall>d. 0 \<le> listed cs d \<and> listed cs d \<le> PoolBalance s PoolTreasury d) \<and> to \<noteq> moduleAddr E \<and>
        (\<forall>d. BankBalance E (ext t) to d = BankBalance E (ext s) to d + listed cs d))"
proof -
  have "(\<forall>p d. PoolBalance t p d = PoolBalance s p d - (if p = PoolTreasury then listed cs d else 0)) \<and>
        (\<forall>d. 0 \<le> listed cs d \<and> listed cs d \<le> PoolBalance s PoolTreasury d) \<and> to \<noteq> moduleAddr E \<and>
        (\<forall>d. BankBalance E (ext t) to d = BankBalance E (ext s) to d + listed cs d)"
    if run: "WithdrawTreasury E sg to cs s = (Inr (), t)" for t
  proof -
    from run obtain s1 x where v: "coins_IsValid E cs" "validRecipient E to"
      and l: "forM cs (\<lambda>c. bindM (gets (\<lambda>s. PoolBalance s PoolTreasury (coin_Denom c))) (\<lambda>bal.
        seqM (check (coin_Amount c \<le> bal) (ESettle SErrInsufficientPool))
        (addPool PoolTreasury (coin_Denom c) (- coin_Amount c)))) s = (Inr (), s1)"
      and x: "BankM2A E settle_module to (coins_of cs) (ext s1) = Inr x"
      and t: "t = s1\<lparr>ext := x, events := events s1 @ [EvTreasuryWithdrawn sg to (coins_of cs)]\<rparr>"
      by (auto simp: WithdrawTreasury_def run_simps)
    have d: "AmountOf (coins_of cs) d = listed cs d" for d
      using v(1) by (intro AmountOf_coins_of) (auto simp: coins_IsValid_def strict_sorted_iff)
    have to: "to \<noteq> moduleAddr E" using v(2) by (simp add: validRecipient_def)
    have pools: "PoolBalance t p e = PoolBalance s p e - (if p = PoolTreasury then listed cs e else 0)" for p e
      using withdraw_pools [OF l assms(2), of p e] by (simp add: t PoolBalance_def)
    have "books_ok E s1" using withdraw_pools [OF l assms(2)] by blast
    then have "0 \<le> PoolBalance s1 PoolTreasury e" for e
      by (simp add: PoolBalance_def amounts_ok_def getInt_nonneg)
    then have le: "listed cs e \<le> PoolBalance s PoolTreasury e" for e
      using withdraw_pools [OF l assms(2), of PoolTreasury e] by (metis diff_ge_0_iff_ge)
    have nn: "0 \<le> listed cs e" for e
      using v(1) by (intro listed_nonneg) (auto simp: coins_IsValid_def list_all_iff)
    have "BankBalance E (ext t) to e = BankBalance E (ext s) to e + listed cs e" for e
      using bank_M2A(2) [OF assms(1) x, of to e] withdraw_pools [OF l assms(2)] to by (simp add: t moved_def moduleAddr_def d)
    with pools le nn to show ?thesis by blast
  qed
  moreover have "WithdrawTreasury E sg to cs s = (Inl (ESettle SErrUnauthorized), s)"
    if "\<not> (sg = authority E \<or> sp_TreasuryAdmin (settle_GetParams s) \<noteq> [] \<and> sg = sp_TreasuryAdmin (settle_GetParams s))"
    using that by (auto simp: WithdrawTreasury_def monad_defs)
  ultimately show ?thesis by blast
qed

section \<open>Relayer pool\<close>

text \<open>
  The relayer pool has a list, a cap and two signers. Whoever is neither governance nor the
  relayer admin is refused. A disbursement that succeeds goes to a listed recipient and takes
  exactly its amount, which the pool held; one by the admin counts against the cap of the interval
  and never passes it, one by governance does not count.
\<close>

theorem DisburseRelayerPool_rights:
  assumes "books_ok E s"
  shows "(sg \<noteq> authority E \<and> (sp_RelayerAdmin (settle_GetParams s) = [] \<or> sg \<noteq> sp_RelayerAdmin (settle_GetParams s)) \<longrightarrow>
       DisburseRelayerPool E sg to c b s = (Inl (ESettle SErrUnauthorized), s)) \<and>
     (\<forall>out t. DisburseRelayerPool E sg to c b s = (Inr out, t) \<longrightarrow>
        AccString E to \<in> set (sp_RelayerRecipients (settle_GetParams s)) \<and> 0 < coin_Amount c \<and>
        PoolBalance t PoolRelayer (coin_Denom c) = PoolBalance s PoolRelayer (coin_Denom c) - coin_Amount c \<and>
        coin_Amount c \<le> PoolBalance s PoolRelayer (coin_Denom c) \<and>
        getInt (RelayerPaid (settle t)) (coin_Denom c) =
          getInt (RelayerPaid (settle s)) (coin_Denom c) + (if sg = authority E then 0 else coin_Amount c) \<and>
        (sg \<noteq> authority E \<longrightarrow>
           getInt (RelayerPaid (settle t)) (coin_Denom c) \<le> AmountOf (sp_RelayerPayoutCap (settle_GetParams s)) (coin_Denom c)))"
proof -
  have "AccString E to \<in> set (sp_RelayerRecipients (settle_GetParams s)) \<and> 0 < coin_Amount c \<and>
        PoolBalance t PoolRelayer (coin_Denom c) = PoolBalance s PoolRelayer (coin_Denom c) - coin_Amount c \<and>
        coin_Amount c \<le> PoolBalance s PoolRelayer (coin_Denom c) \<and>
        getInt (RelayerPaid (settle t)) (coin_Denom c) =
          getInt (RelayerPaid (settle s)) (coin_Denom c) + (if sg = authority E then 0 else coin_Amount c) \<and>
        (sg \<noteq> authority E \<longrightarrow>
           getInt (RelayerPaid (settle t)) (coin_Denom c) \<le> AmountOf (sp_RelayerPayoutCap (settle_GetParams s)) (coin_Denom c))"
    if "DisburseRelayerPool E sg to c b s = (Inr out, t)" for out t
    using that
  proof (rule DisburseRelayerPool_Inr)
    let ?d = "coin_Denom c"
    fix s1 s2 s3
    assume n: "0 < coin_Amount c" and rec: "IsRelayerRecipient (settle_GetParams s) (AccString E to)"
      and 1: "if sg = authority E then s1 = s else relayer_cap E (settle_GetParams s) c s = (Inr (), s1)"
      and 2: "addPool PoolRelayer ?d (- coin_Amount c) s1 = (Inr (), s2)"
      and 3: "if b then \<exists>credits v. QuoteCredits ?d (coin_Amount c) s2 = (Inr credits, s2) \<and>
        addPool PoolTreasury ?d (coin_Amount c) s2 = (Inr (), v) \<and> mintCredits E to credits v = (Inr out, s3)
        else \<exists>x. BankM2A E settle_module to (coins1 ?d (coin_Amount c)) (ext s2) = Inr x \<and> s3 = s2\<lparr>ext := x\<rparr> \<and> out = c"
      and t: "t = s3\<lparr>events := events s3 @ [EvRelayerDisbursed sg to c out]\<rparr>"
    have s1: "Pools (settle s1) = Pools (settle s)" "books_ok E s1"
      "getInt (RelayerPaid (settle s1)) ?d = getInt (RelayerPaid (settle s)) ?d + (if sg = authority E then 0 else coin_Amount c)"
      "sg \<noteq> authority E \<Longrightarrow> getInt (RelayerPaid (settle s1)) ?d \<le> AmountOf (sp_RelayerPayoutCap (settle_GetParams s)) ?d"
      using 1 relayer_cap_Inr [of E "settle_GetParams s" c s "()" s1] assms n
      by (auto simp: amounts_ok_def getInt_nonneg intro!: positive_setInt split: if_splits)
    have s2: "RelayerPaid (settle s2) = RelayerPaid (settle s1)" "books_ok E s2"
      using arg_cong [OF addPool_Inr(2) [OF 2], of "\<lambda>z. RelayerPaid (settle z)"] keepsRD [OF stores.booked(2) s1(2) 2] by simp_all
    have p2: "PoolBalance s2 PoolRelayer ?d = PoolBalance s PoolRelayer ?d - coin_Amount c"
      using addPool_Inr(3) [OF 2, of PoolRelayer ?d] s1(1) by (simp add: PoolBalance_def)
    have "0 \<le> PoolBalance s2 PoolRelayer ?d" using s2(2) by (simp add: PoolBalance_def amounts_ok_def getInt_nonneg)
    moreover have "RelayerPaid (settle s3) = RelayerPaid (settle s2) \<and> PoolBalance s3 PoolRelayer ?d = PoolBalance s2 PoolRelayer ?d"
    proof (cases b)
      case True
      with 3 obtain credits v where v: "addPool PoolTreasury ?d (coin_Amount c) s2 = (Inr (), v)"
        and m: "mintCredits E to credits v = (Inr out, s3)" by auto
      have "RelayerPaid (settle v) = RelayerPaid (settle s2)"
        using arg_cong [OF addPool_Inr(2) [OF v], of "\<lambda>z. RelayerPaid (settle z)"] by simp
      moreover have "PoolBalance v PoolRelayer ?d = PoolBalance s2 PoolRelayer ?d"
        using addPool_Inr(3) [OF v, of PoolRelayer ?d] by (simp add: PoolTreasury_def PoolRelayer_def)
      moreover have "RelayerPaid (settle s3) = RelayerPaid (settle v) \<and> Pools (settle s3) = Pools (settle v)"
        using m by (rule mintCredits_Inr) simp
      ultimately show ?thesis by (simp add: PoolBalance_def)
    next
      case False
      with 3 show ?thesis by (auto simp: PoolBalance_def)
    qed
    ultimately show ?thesis
      using n rec p2 s1(3,4) s2(1) by (simp add: t IsRelayerRecipient_def PoolBalance_def)
  qed
  moreover have "DisburseRelayerPool E sg to c b s = (Inl (ESettle SErrUnauthorized), s)"
    if "sg \<noteq> authority E" "sp_RelayerAdmin (settle_GetParams s) = [] \<or> sg \<noteq> sp_RelayerAdmin (settle_GetParams s)"
    using that by (auto simp: DisburseRelayerPool_def Let_def monad_defs)
  ultimately show ?thesis by blast
qed

end
