(* ===== verification/SettleExamples.thy ===== *)
theory SettleExamples
  imports SettleTheorems SettleRevenue
begin

text \<open>
  Concrete runs of \<open>x/settle\<close> from a genesis file, one for each property of the module, a payout
  that fails half-way among them.
\<close>

section \<open>A reachable state\<close>

definition ex_genesis :: settle_genesis where
  "ex_genesis = settle_DefaultGenesis\<lparr>sg_Params := ex_params\<rparr>"

definition ex_start :: "ref_ext chain" where
  "ex_start = ex_settle\<lparr>settle := (settle ex_settle)\<lparr>CreditsMinted := Some 0, GenesisCreditSupply := Some 0, LastPayout := Some 100\<rparr>\<rparr>"

definition ex_after_pay :: "ref_ext chain" where
  "ex_after_pay = snd (atomic (Pay ref_env ex_request) ex_start)"

lemma ref_settle_env: "settle_env ref_env"
  by (simp add: settle_env_def ref_bank_laws ref_text_laws moduleAddr_def ref_run)

lemma ex_settle_parts: "x_sup (ext ex_settle) ''acredit'' = 0"
  by (simp add: ex_settle_def ref_chain_def ref_genesis_def Let_def)

lemma ex_start_init:
  "settle_InitGenesis ref_env ex_genesis (ex_settle\<lparr>settle := settle_empty\<rparr>) = (Inr (), ex_start)"
  by (simp add: settle_InitGenesis_def ex_genesis_def settle_DefaultGenesis_def monad_defs ref_run ex_settle_parts)
    (simp add: ex_start_def ex_settle_def settle_empty_def Let_def)

lemma ex_start_reach: "settle_reach_losing ref_env (\<lambda>d. 0) ex_start"
proof -
  have "genesis_wf ref_env ex_genesis" by (simp add: genesis_wf_def ex_genesis_def settle_DefaultGenesis_def)
  moreover have "\<forall>d. owed ex_start d \<le> BankBalance ref_env (ext ex_start) (moduleAddr ref_env) d"
    by (simp add: owed_def getInt_def ex_start_def ref_run)
  moreover have "settle (ex_settle\<lparr>settle := settle_empty\<rparr>) = settle_empty" by simp
  ultimately show ?thesis
    unfolding settle_reach_losing_def using ex_start_init settle_steps_losing.start [of ref_env ex_start] by blast
qed

lemma ex_after_pay_reach: "settle_reach_losing ref_env (\<lambda>d. 0) ex_after_pay"
proof -
  have "settle_call ref_env ex_start ex_after_pay"
    by (rule settle_call.pay [of ref_env ex_request ex_start "fst (atomic (Pay ref_env ex_request) ex_start)"])
      (simp_all add: ex_after_pay_def ex_request_facts)
  with reach_after_calls [OF ex_start_reach] show ?thesis by blast
qed

lemma ex_reached: "settle_reach ref_env ex_after_pay"
  using ex_after_pay_reach settle_reach_iff by blast

lemma ex_start_fields [simp]:
  "Claimables (settle ex_start) = fmempty" "Pools (settle ex_start) = fmempty" "Totals (settle ex_start) = fmempty"
  "LedgerTotal (settle ex_start) = fmempty" "settle_GetParams ex_start = ex_params" "ext ex_start = ext ex_settle"
  "\<not> IsSettlePaused ex_start d"
  using ex_not_paused [of d] ex_params_eq
  by (simp_all add: ex_start_def IsSettlePaused_def IsPaused_def isPauseActive_def settle_GetParams_def cong: option.case_cong)

lemma ex_start_good: "settle_good ref_env ex_start" "0 \<le> slack ref_env ex_start d"
  using settle_reach_losing_good [OF ref_settle_env ex_start_reach] by (simp_all add: covered_def)

lemma ex_after_pay_run: "\<exists>r. Pay ref_env ex_request ex_start = (Inr r, ex_after_pay)"
proof -
  obtain x where x: "BankA2M ref_env (rq_Payer ex_request) settle_module (coins1 ''uusdc'' 2000000) (ext ex_start) = Inr x"
    using ex_request_facts(8) by auto
  have "pay_refusal ref_env ex_start ex_request = None"
    using ex_request_facts(7) by (simp add: pay_refusal_def ex_request_facts)
  then obtain res t where "Pay ref_env ex_request ex_start = (Inr res, t)"
    using Pay_runs [OF ref_bank_laws ref_bank_pays ex_start_good, of ex_request ex_asset x]
      ex_params_valid ex_request_facts x by auto
  then show ?thesis by (simp add: ex_after_pay_def atomic_def)
qed

lemma ex_after_pay_pools:
  "PoolBalance ex_after_pay PoolTreasury ''uusdc'' = 14000" "ClaimableOf ex_after_pay 0 ''uusdc'' = 0"
proof -
  obtain res where "Pay ref_env ex_request ex_start = (Inr res, ex_after_pay)" using ex_after_pay_run by blast
  then obtain x where d: "distribute ref_env ex_params ex_asset ex_request (ex_start\<lparr>ext := x\<rparr>) = (Inr res, ex_after_pay)"
    by (rule Pay_Inr) (auto simp: ex_request_facts)
  have "rq_split ref_env ex_params ex_asset ex_request =
      \<lparr>sr_App = 0, sr_Referrer = 0, sr_Validator = 4000, sr_Relayer = 2000, sr_Treasury = 14000\<rparr>"
    by (simp add: rq_fee_def rq_split_def ex_request_facts ex_fee ex_split)
  with distribute_ledgers [OF d] show "PoolBalance ex_after_pay PoolTreasury ''uusdc'' = 14000" "ClaimableOf ex_after_pay 0 ''uusdc'' = 0"
    by (simp_all add: PoolBalance_def ClaimableOf_def getInt_def ex_request_facts PoolTreasury_def PoolValidator_def PoolRelayer_def)
qed

theorem settle_solvent_witness:
  "PoolBalance ex_after_pay PoolTreasury ''uusdc'' = 14000 \<and>
   getInt (LedgerTotal (settle ex_after_pay)) ''uusdc'' = RecountLedger ex_after_pay ''uusdc'' \<and>
   RecountLedger ex_after_pay ''uusdc'' \<le> BankBalance ref_env (ext ex_after_pay) (moduleAddr ref_env) ''uusdc''"
  using settle_solvent [OF ref_settle_env ex_after_pay_reach, THEN conjunct1, rule_format, of "''uusdc''"] ex_after_pay_pools by simp

theorem checks_pass_witness: "CheckInvariants ref_env ex_after_pay = [] \<and> runInvariants ref_env ex_after_pay = (Inr (), ex_after_pay)"
  using checks_pass [OF ref_settle_env ex_after_pay_reach] by (simp add: ref_run)

section \<open>A breach\<close>

text \<open>A ledger that owes what the bank does not hold, at a height where the checks run.\<close>

definition ex_broken :: "ref_ext chain" where
  "ex_broken = ex_settle\<lparr>settle := (settle ex_settle)\<lparr>LedgerTotal := fmupd ''uusdc'' 5 fmempty\<rparr>\<rparr>"

lemma ex_broken_found: "CheckInvariants ref_env ex_broken \<noteq> []"
  by (simp add: credit_check solvency_check ex_broken_def ref_run moduleAddr_def exI [of _ "''uusdc''"])

theorem CheckInvariants_complete_witness:
  "owed ex_broken ''uusdc'' = 5 \<and> BankBalance ref_env (ext ex_broken) (moduleAddr ref_env) ''uusdc'' = 0 \<and>
   CheckInvariants ref_env ex_broken \<noteq> []"
proof -
  have ok: "books_ok ref_env ex_broken"
    by (simp add: amounts_ok_def ex_broken_def ex_settle_def settle_empty_def positive_def Let_def)
  have n: "\<forall>d. 0 \<le> BankBalance ref_env (ext ex_broken) (moduleAddr ref_env) d" by (simp add: ref_run)
  have o: "owed ex_broken ''uusdc'' = 5" "BankBalance ref_env (ext ex_broken) (moduleAddr ref_env) ''uusdc'' = 0"
    by (simp_all add: owed_def getInt_def ex_broken_def ref_run moduleAddr_def)
  then have "\<not> (\<forall>d. owed ex_broken d \<le> BankBalance ref_env (ext ex_broken) (moduleAddr ref_env) d)"
    by (auto intro!: exI [of _ "''uusdc''"])
  with CheckInvariants_complete [OF ok n] o show ?thesis by blast
qed

theorem safe_mode_stops_payments_witness:
  "\<exists>t. runInvariants ref_env ex_broken = (Inr (), t) \<and> IsSettlePaused t ''uusdc'' \<and> (\<exists>e. Pay ref_env ex_request t = (Inl e, t))"
proof -
  have "height ex_broken mod InvariantCheckInterval = 0" by (simp add: ex_broken_def InvariantCheckInterval_def)
  from safe_mode_stops_payments [OF ex_broken_found this] obtain t where t: "runInvariants ref_env ex_broken = (Inr (), t)"
    and p: "\<forall>u (c::coin). council u = council t \<longrightarrow> IsSettlePaused u (coin_Denom c) \<and> (\<forall>req. \<exists>e. Pay ref_env req u = (Inl e, u))" by blast
  from p have "IsSettlePaused t (coin_Denom \<lparr>coin_Denom = ''uusdc'', coin_Amount = 1\<rparr>)" "\<exists>e. Pay ref_env ex_request t = (Inl e, t)"
    by blast+
  with t show ?thesis by auto
qed

section \<open>Payouts\<close>

definition ex_validator :: "string \<Rightarrow> int \<Rightarrow> validator" where
  "ex_validator a n = \<lparr>v_Power = n, v_ConsAddr = None, v_Operator = a, v_Jailed = False\<rparr>"

text \<open>A due payout of a pool of 100: two validators of powers 1 and 2, operated by \<open>carol\<close> and \<open>b\<close>.\<close>

definition ex_payout :: "string \<Rightarrow> ref_ext chain" where
  "ex_payout b = ex_settle\<lparr>height := 90000,
     ext := (ref_genesis [(moduleAddr ref_env, ''uusdc'', 100)])\<lparr>x_vals := [ex_validator ''carol'' 1, ex_validator b 2]\<rparr>,
     settle := settle_empty\<lparr>s_Params := Some ex_params, Pools := fmupd (PoolValidator, ''uusdc'') 100 fmempty,
       LedgerTotal := fmupd ''uusdc'' 100 fmempty\<rparr>\<rparr>"

lemma ex_payout_fields [simp]:
  "settle (ex_payout b) = settle_empty\<lparr>s_Params := Some ex_params, Pools := fmupd (PoolValidator, ''uusdc'') 100 fmempty,
       LedgerTotal := fmupd ''uusdc'' 100 fmempty\<rparr>"
  "settle_GetParams (ex_payout b) = ex_params" "height (ex_payout b) = 90000" "x_vals (ext (ex_payout b)) = [ex_validator ''carol'' 1, ex_validator b 2]"
  "x_bal (ext (ex_payout b)) a d = (if a = moduleAddr ref_env \<and> d = ''uusdc'' then 100 else 0)"
  by (simp_all add: ex_payout_def settle_GetParams_def ref_genesis_def)

lemma ex_payout_good: "settle_good ref_env (ex_payout b)"
  by (simp add: settle_good_def amounts_ok_def positive_def settle_empty_def gap_def owed_def slack_def recount getInt_def ref_run
      credit_room_def kv_sum_upd kv_at_def in_denom_def)

lemma ex_payout_payees:
  "b \<noteq> [] \<Longrightarrow> payees_of ref_env (ext (ex_payout b)) [ex_validator ''carol'' 1, ex_validator b 2] =
     [(string_bytes ''carol'', 10000), (string_bytes b, 20000)]"
  by (simp add: payees_of_def payee_of_def uptime_bps_def ex_validator_def ref_env_def MaxBps_def map_filter_simps)

lemma ex_payout_due: "payout_due (ex_payout b)" "BondedValidators ref_env (ext (ex_payout b)) = Inr [ex_validator ''carol'' 1, ex_validator b 2]"
  by (simp_all add: payout_due_def settle_empty_def wrap64_def ex_params_def settle_DefaultParams_def) (simp add: ref_env_def)

lemma ex_pool_entries: "pool_entries (ex_payout b) PoolValidator = [(''uusdc'', 100)]"
proof -
  have "entries (Pools (settle (ex_payout b))) = [((PoolValidator, ''uusdc''), 100)]"
    by (simp add: sorted_list_of_fmap_def sorted_list_of_fset.rep_eq)
  then show ?thesis by (simp add: pool_entries_def)
qed

lemmas payout_eval = payout_pool_def payout_share_def interval_started_def quo_def

lemma ex_payout_run: "\<exists>t. PayoutValidators ref_env (ex_payout ''david'') = (Inr (), t)"
  unfolding PayoutValidators_run ex_payout_due(2) sum.case ex_pool_entries
  by (simp add: ex_payout_due ex_payout_payees payout_eval pay_eval ledger_eval PoolValidator_def settle_empty_def)

theorem payout_exact_witness:
  "\<exists>t. PayoutValidators ref_env (ex_payout ''david'') = (Inr (), t) \<and> PoolBalance t PoolValidator ''uusdc'' = 1 \<and>
     BankBalance ref_env (ext t) (string_bytes ''david'') ''uusdc'' = 66"
proof -
  obtain t where run: "PayoutValidators ref_env (ex_payout ''david'') = (Inr (), t)" using ex_payout_run by blast
  have ok: "books_ok ref_env (ex_payout ''david'')" using ex_payout_good by (simp add: settle_good_def)
  have p: "payees_of ref_env (ext (ex_payout ''david'')) [ex_validator ''carol'' 1, ex_validator ''david'' 2] =
     [(string_bytes ''carol'', 10000), (string_bytes ''david'', 20000)]" by (rule ex_payout_payees) simp
  have b: "PoolBalance (ex_payout ''david'') PoolValidator ''uusdc'' = 100" by (simp add: PoolBalance_def getInt_def)
  have "PoolBalance t PoolValidator ''uusdc'' = 1 \<and>
     (\<forall>a. a \<noteq> moduleAddr ref_env \<longrightarrow> BankBalance ref_env (ext t) a ''uusdc'' =
        BankBalance ref_env (ext (ex_payout ''david'')) a ''uusdc'' +
        paid_out (filter (\<lambda>p. fst p = a) [(string_bytes ''carol'', 10000), (string_bytes ''david'', 20000)]) 30000 100)"
    using payout_exact [OF ref_bank_laws ok ex_payout_due run p [symmetric] refl _ b [symmetric]]
    by (simp add: paid_out_def payout_part_def)
  then have "PoolBalance t PoolValidator ''uusdc'' = 1" "BankBalance ref_env (ext t) (string_bytes ''david'') ''uusdc'' = 66"
    by (auto simp: paid_out_def payout_part_def ref_run moduleAddr_def dest: spec [of _ "string_bytes ''david''"])
  with run show ?thesis by blast
qed

theorem uptime_in_bounds_witness:
  "0 \<le> uptime_bps ref_env (ext ex_settle) 100 (ex_validator ''carol'' 1)"
proof -
  have "\<forall>c m. MissedBlocks ref_env (ext ex_settle) c = Some m \<longrightarrow> 0 \<le> m" by (simp add: ref_env_def)
  from uptime_in_bounds [OF _ _ this, of 100 "ex_validator ''carol'' 1"] show ?thesis by simp
qed


section \<open>Claims, credits, treasury and relayers\<close>

definition ex_rich :: "ref_ext chain" where
  "ex_rich = ex_settle\<lparr>
     ext := ref_genesis [(string_bytes ''alice'', ''uusdc'', 5000), (moduleAddr ref_env, ''uusdc'', 900)],
     apps := (apps ex_settle)\<lparr>Apps := fmupd 1 \<lparr>app_AppId = 1, app_Owner = ''alice'', app_PendingOwner = [], app_RevenueRecipient = ''bobby'',
       app_MetadataUri = [], app_Domain = [], app_ReferrerBps = 0, app_Status = APP_STATUS_ACTIVE, app_Version = 1,
       app_CreatedHeight = 100, app_ContractCount = 0\<rparr> fmempty\<rparr>,
     settle := settle_empty\<lparr>s_Params := Some (ex_params\<lparr>sp_TreasuryAdmin := ''carol'', sp_RelayerAdmin := ''david'',
         sp_RelayerRecipients := [''bobby''], sp_RelayerPayoutCap := fmupd ''uusdc'' 150 fmempty\<rparr>),
       Claimables := fmupd (1, ''uusdc'') 400 fmempty,
       Pools := fmupd (PoolTreasury, ''uusdc'') 300 (fmupd (PoolRelayer, ''uusdc'') 200 fmempty),
       LedgerTotal := fmupd ''uusdc'' 900 fmempty\<rparr>\<rparr>"

lemma ex_rich_fields [simp]:
  "settle_GetParams ex_rich = ex_params\<lparr>sp_TreasuryAdmin := ''carol'', sp_RelayerAdmin := ''david'',
         sp_RelayerRecipients := [''bobby''], sp_RelayerPayoutCap := fmupd ''uusdc'' 150 fmempty\<rparr>"
  "Claimables (settle ex_rich) = fmupd (1, ''uusdc'') 400 fmempty"
  "Pools (settle ex_rich) = fmupd (PoolTreasury, ''uusdc'') 300 (fmupd (PoolRelayer, ''uusdc'') 200 fmempty)"
  "LedgerTotal (settle ex_rich) = fmupd ''uusdc'' 900 fmempty" "RelayerPaid (settle ex_rich) = fmempty"
  "CreditsMinted (settle ex_rich) = None" "\<not> IsSettlePaused ex_rich d"
  "x_bal (ext ex_rich) a d = (if d = ''uusdc'' then if a = string_bytes ''alice'' then 5000 else if a = moduleAddr ref_env then 900 else 0 else 0)"
  using ex_not_paused [of d]
  by (simp_all add: ex_rich_def settle_GetParams_def settle_empty_def ref_genesis_def moduleAddr_def ref_run
      IsSettlePaused_def IsPaused_def isPauseActive_def cong: option.case_cong)

lemma ex_rich_ok: "books_ok ref_env ex_rich"
  by (simp add: amounts_ok_def positive_def) (simp add: ex_rich_def settle_empty_def)

lemma ex_rich_asset: "Asset (ex_params\<lparr>sp_TreasuryAdmin := a, sp_RelayerAdmin := b, sp_RelayerRecipients := c, sp_RelayerPayoutCap := e\<rparr>) ''uusdc''
    = Some ex_asset"
  by (simp add: Asset_def ex_params_def)

lemmas rich_eval = pay_eval ledger_eval PoolTreasury_def PoolRelayer_def coins_of_def AccAddressFromBech32_def

lemma ex_claim_run:
  "\<exists>t. ClaimRevenue ref_env 1 [''uusdc'', ''uusdc''] ex_rich = (Inr (coins1 ''uusdc'' 400), t)"
proof -
  have a: "find_app ex_rich 1 = Some \<lparr>app_AppId = 1, app_Owner = ''alice'', app_PendingOwner = [], app_RevenueRecipient = ''bobby'',
       app_MetadataUri = [], app_Domain = [], app_ReferrerBps = 0, app_Status = APP_STATUS_ACTIVE, app_Version = 1,
       app_CreatedHeight = 100, app_ContractCount = 0\<rparr>"
    by (simp add: find_app_def ex_rich_def)
  have c: "coins_add fmempty ''uusdc'' 400 = coins1 ''uusdc'' 400" by (simp add: coins_add_def coins1_def)
  show ?thesis
    by (simp add: ClaimRevenue_def GetApp_def a claim_denom_def rich_eval ClaimableOf_def c)
      (auto simp: coins1_def fmpred_iff intro!: exI [of _ "''uusdc''"])
qed

theorem ClaimRevenue_exact_witness:
  "\<exists>t. ClaimRevenue ref_env 1 [''uusdc'', ''uusdc''] ex_rich = (Inr (coins1 ''uusdc'' 400), t) \<and>
     ClaimableOf t 1 ''uusdc'' = 0 \<and> BankBalance ref_env (ext t) (string_bytes ''bobby'') ''uusdc'' = 400"
proof -
  obtain t where run: "ClaimRevenue ref_env 1 [''uusdc'', ''uusdc''] ex_rich = (Inr (coins1 ''uusdc'' 400), t)"
    using ex_claim_run by blast
  have a: "find_app ex_rich 1 = Some \<lparr>app_AppId = 1, app_Owner = ''alice'', app_PendingOwner = [], app_RevenueRecipient = ''bobby'',
       app_MetadataUri = [], app_Domain = [], app_ReferrerBps = 0, app_Status = APP_STATUS_ACTIVE, app_Version = 1,
       app_CreatedHeight = 100, app_ContractCount = 0\<rparr>"
    by (simp add: find_app_def ex_rich_def)
  from ClaimRevenue_exact [OF ref_bank_laws ex_rich_ok run refl]
  have "ClaimableOf t 1 ''uusdc'' = 0 \<and>
     (\<forall>d. BankBalance ref_env (ext t) (string_bytes ''bobby'') d = BankBalance ref_env (ext ex_rich) (string_bytes ''bobby'') d
        + AmountOf (coins1 ''uusdc'' 400) d)"
    by (clarsimp simp: a ref_run moduleAddr_def)
  then have "ClaimableOf t 1 ''uusdc'' = 0" "BankBalance ref_env (ext t) (string_bytes ''bobby'') ''uusdc'' = 400"
    by (auto simp: ref_run moduleAddr_def dest: spec [of _ "''uusdc''"])
  with run show ?thesis by blast
qed

lemma ex_buy_run:
  "\<exists>t. BuyCredits ref_env (string_bytes ''alice'') [] \<lparr>coin_Denom = ''uusdc'', coin_Amount = 70\<rparr> ex_rich
     = (Inr \<lparr>coin_Denom = ''acredit'', coin_Amount = 70000\<rparr>, t)"
  by (simp add: BuyCredits_def QuoteCredits_def mintCredits_def rich_eval ex_rich_asset)
    (simp add: ex_params_def settle_DefaultParams_def)

theorem BuyCredits_exact_witness:
  "\<exists>t. BuyCredits ref_env (string_bytes ''alice'') [] \<lparr>coin_Denom = ''uusdc'', coin_Amount = 70\<rparr> ex_rich
     = (Inr \<lparr>coin_Denom = ''acredit'', coin_Amount = 70000\<rparr>, t) \<and>
     CreditsMinted (settle t) = Some 70000 \<and> PoolBalance t PoolTreasury ''uusdc'' = 370"
proof -
  obtain t where run: "BuyCredits ref_env (string_bytes ''alice'') [] \<lparr>coin_Denom = ''uusdc'', coin_Amount = 70\<rparr> ex_rich
     = (Inr \<lparr>coin_Denom = ''acredit'', coin_Amount = 70000\<rparr>, t)" using ex_buy_run by blast
  have "string_bytes ''alice'' \<noteq> moduleAddr ref_env" by (simp add: moduleAddr_def ref_run)
  from BuyCredits_exact [OF ref_bank_laws this run refl] have
    "CreditsMinted (settle t) = Some 70000" "\<forall>p d. PoolBalance t p d = PoolBalance ex_rich p d + (if p = PoolTreasury then at ''uusdc'' 70 d else 0)"
    by auto
  with run show ?thesis by (auto simp: PoolBalance_def getInt_def at_def dest: spec [of _ PoolTreasury])
qed

lemma ex_withdraw_run:
  "\<exists>t. WithdrawTreasury ref_env ''carol'' (string_bytes ''bobby'') [\<lparr>coin_Denom = ''uusdc'', coin_Amount = 250\<rparr>] ex_rich = (Inr (), t)"
proof -
  have c: "coins_of [\<lparr>coin_Denom = ''uusdc'', coin_Amount = 250\<rparr>] = coins1 ''uusdc'' 250" by (simp add: coins_of_def coins1_def)
  show ?thesis
    by (simp add: WithdrawTreasury_def coins_IsValid_def c pay_eval ledger_eval PoolBalance_def PoolTreasury_def PoolRelayer_def)
qed

theorem WithdrawTreasury_rights_witness:
  "WithdrawTreasury ref_env ''alice'' (string_bytes ''bobby'') [\<lparr>coin_Denom = ''uusdc'', coin_Amount = 250\<rparr>] ex_rich =
     (Inl (ESettle SErrUnauthorized), ex_rich) \<and>
   (\<exists>t. WithdrawTreasury ref_env ''carol'' (string_bytes ''bobby'') [\<lparr>coin_Denom = ''uusdc'', coin_Amount = 250\<rparr>] ex_rich = (Inr (), t) \<and>
      PoolBalance t PoolTreasury ''uusdc'' = 50)"
proof -
  obtain t where run: "WithdrawTreasury ref_env ''carol'' (string_bytes ''bobby'') [\<lparr>coin_Denom = ''uusdc'', coin_Amount = 250\<rparr>] ex_rich = (Inr (), t)"
    using ex_withdraw_run by blast
  note w = WithdrawTreasury_rights [OF ref_bank_laws ex_rich_ok]
  have "PoolBalance t p d = PoolBalance ex_rich p d - (if p = PoolTreasury then listed [\<lparr>coin_Denom = ''uusdc'', coin_Amount = 250\<rparr>] d else 0)" for p d
    using w run by blast
  from this [of PoolTreasury "''uusdc''"] have "PoolBalance t PoolTreasury ''uusdc'' = 50"
    by (simp add: PoolBalance_def getInt_def listed_def at_def)
  moreover have "WithdrawTreasury ref_env ''alice'' (string_bytes ''bobby'') [\<lparr>coin_Denom = ''uusdc'', coin_Amount = 250\<rparr>] ex_rich =
     (Inl (ESettle SErrUnauthorized), ex_rich)"
    using w [of "''alice''"] by (simp add: ref_run)
  ultimately show ?thesis using run by blast
qed

lemma ex_disburse_run:
  "\<exists>t. DisburseRelayerPool ref_env ''david'' (string_bytes ''bobby'') \<lparr>coin_Denom = ''uusdc'', coin_Amount = 150\<rparr> False ex_rich
     = (Inr \<lparr>coin_Denom = ''uusdc'', coin_Amount = 150\<rparr>, t)"
  by (simp add: DisburseRelayerPool_def IsRelayerRecipient_def relayer_cap_def AmountOf_def PoolBalance_def rich_eval)

theorem DisburseRelayerPool_rights_witness:
  "\<exists>t. DisburseRelayerPool ref_env ''david'' (string_bytes ''bobby'') \<lparr>coin_Denom = ''uusdc'', coin_Amount = 150\<rparr> False ex_rich
     = (Inr \<lparr>coin_Denom = ''uusdc'', coin_Amount = 150\<rparr>, t) \<and>
     PoolBalance t PoolRelayer ''uusdc'' = 50 \<and> getInt (RelayerPaid (settle t)) ''uusdc'' = 150"
proof -
  obtain t where run: "DisburseRelayerPool ref_env ''david'' (string_bytes ''bobby'') \<lparr>coin_Denom = ''uusdc'', coin_Amount = 150\<rparr> False ex_rich
     = (Inr \<lparr>coin_Denom = ''uusdc'', coin_Amount = 150\<rparr>, t)" using ex_disburse_run by blast
  from DisburseRelayerPool_rights [OF ex_rich_ok, THEN conjunct2, rule_format, OF run]
  have "PoolBalance t PoolRelayer ''uusdc'' = PoolBalance ex_rich PoolRelayer ''uusdc'' - 150"
    "getInt (RelayerPaid (settle t)) ''uusdc'' = 150" by (simp_all add: ref_run getInt_def)
  with run show ?thesis by (simp add: PoolBalance_def getInt_def PoolTreasury_def PoolRelayer_def)
qed

section \<open>Genesis\<close>

text \<open>
  C34. Export and import. Exporting a reachable state and starting a new chain from the file succeeds
  and restores every claimable, pool, tab, allowance, total and relayer payment, and the ledger
  totals with them; only the parameters are made explicit, the interval restarts at the new height,
  and the supply of credits that does not come from the module is measured again.
\<close>

theorem settle_genesis_roundtrip:
  assumes "settle_env E" "settle_reach E s" "settle s0 = settle_empty"
  shows "settle_InitGenesis E (settle_ExportGenesis s) s0 = (Inr (), s0\<lparr>settle := restored E s s0\<rparr>) \<and>
     Claimables (restored E s s0) = Claimables (settle s) \<and> Pools (restored E s s0) = Pools (settle s) \<and>
     Tabs (restored E s s0) = Tabs (settle s) \<and> LedgerTotal (restored E s s0) = LedgerTotal (settle s)"
proof -
  have "books_ok E s" "gap s d = 0" for d using settle_reach_good [OF assms(1,2)] by (simp_all add: settle_good_def)
  from import_export [OF this assms(3)] show ?thesis by (simp add: restored_def)
qed

theorem settle_genesis_roundtrip_witness:
  "\<exists>t. settle_InitGenesis ref_env (settle_ExportGenesis ex_after_pay) (ex_settle\<lparr>settle := settle_empty\<rparr>) = (Inr (), t) \<and>
     PoolBalance t PoolTreasury ''uusdc'' = 14000"
  using settle_genesis_roundtrip [OF ref_settle_env ex_reached, of "ex_settle\<lparr>settle := settle_empty\<rparr>"] ex_after_pay_pools(1)
  by (simp add: PoolBalance_def)

end
