(* ===== verification/Lane.thy ===== *)
theory Lane
  imports SettleTheorems
begin

text \<open>
  The two lanes of block space, \<open>chain/lane/lane.go\<close> and its wiring in \<open>chain/app/mempool.go\<close>. A
  transaction is sponsored when a registered sponsor signed it; the proposer's selector and the
  validators' proposal handler both cap the declared gas of the sponsored ones. The parts of geth,
  CometBFT and the SDK are parameters (\<open>lane_env\<close>, the wrapped handler): signer recovery, the size
  of a transaction in a block, the decoder. The lane reads its configuration through an interface;
  the locale states what it relies on, and the parameters of \<open>x/settle\<close> provide it.
\<close>

section \<open>Transactions\<close>

text \<open>
  What the code reads of an \<open>sdk.Tx\<close>: its messages and, when it is a \<open>baseapp.GasTx\<close>, its gas limit.
  Of a \<open>MsgEthereumTx\<close> it reads \<open>From\<close> and the signed transaction, here of a type \<open>'r\<close>.
\<close>

datatype 'r lane_msg = MsgEthereumTx "byte list" 'r | MsgOther

record 'r sdk_tx =
  tx_Msgs :: "'r lane_msg list"
  tx_Gas :: "u64 option"

text \<open>\<open>recover_signer\<close> is \<open>ethtypes.Sender\<close> with the latest signer of the transaction's chain id.\<close>

record 'r lane_env =
  recover_signer :: "'r \<Rightarrow> addr option"
  bytes_address :: "byte list \<Rightarrow> addr"
  ProtoSize :: "byte list \<Rightarrow> u64"
  TxDecode :: "byte list \<Rightarrow> 'r sdk_tx option"

definition IsSponsored :: "'r lane_env \<Rightarrow> 'r sdk_tx option \<Rightarrow> addr set \<Rightarrow> bool" where
  "IsSponsored L tx senders =
     (if senders = {} then False
      else case tx of None \<Rightarrow> False
      | Some t \<Rightarrow>
          (case tx_Msgs t of
             [MsgEthereumTx frm raw] \<Rightarrow>
               if length frm = 20 then bytes_address L frm \<in> senders
               else (case recover_signer L raw of None \<Rightarrow> False | Some a \<Rightarrow> a \<in> senders)
           | _ \<Rightarrow> False))"

definition txGas :: "'r sdk_tx option \<Rightarrow> u64" where
  "txGas tx = (case tx of None \<Rightarrow> 0 | Some t \<Rightarrow> (case tx_Gas t of None \<Rightarrow> 0 | Some g \<Rightarrow> g))"

definition Cap :: "u64 \<Rightarrow> u32 \<Rightarrow> u64" where
  "Cap maxBlockGas bps =
     (if maxBlockGas = 0 then 0
      else maxBlockGas div 10000 * ucast bps + (maxBlockGas mod 10000) * ucast bps div 10000)"

section \<open>The proposer\<close>

record selector =
  totalTxBytes :: u64
  totalTxGas :: u64
  sponsoredGas :: u64
  selectedTxs :: "byte list list"
  loaded :: bool
  sel_senders :: "addr set"
  sel_bps :: u32

definition NewSelector :: selector where
  "NewSelector = \<lparr>totalTxBytes = 0, totalTxGas = 0, sponsoredGas = 0, selectedTxs = [], loaded = False,
     sel_senders = {}, sel_bps = 0\<rparr>"

definition SelectedTxs :: "selector \<Rightarrow> byte list list" where
  "SelectedTxs s = selectedTxs s"

definition Clear :: "selector \<Rightarrow> selector" where
  "Clear s = s\<lparr>totalTxBytes := 0, totalTxGas := 0, sponsoredGas := 0, selectedTxs := [],
     loaded := False, sel_senders := {}, sel_bps := 0\<rparr>"

text \<open>The configuration is read once per proposal.\<close>

definition sel_load :: "addr set \<times> u32 \<Rightarrow> selector \<Rightarrow> selector" where
  "sel_load policy s =
     (if loaded s then s else s\<lparr>sel_senders := fst policy, sel_bps := snd policy, loaded := True\<rparr>)"

definition sel_fits :: "'r lane_env \<Rightarrow> u64 \<Rightarrow> u64 \<Rightarrow> 'r sdk_tx option \<Rightarrow> byte list \<Rightarrow> selector \<Rightarrow> bool" where
  "sel_fits L maxTxBytes maxBlockGas memTx txBz s =
     (ProtoSize L txBz + totalTxBytes s \<le> maxTxBytes \<and>
      (maxBlockGas = 0 \<or> txGas memTx + totalTxGas s \<le> maxBlockGas) \<and>
      (\<not> IsSponsored L memTx (sel_senders s) \<or> maxBlockGas = 0 \<or>
         txGas memTx + sponsoredGas s \<le> Cap maxBlockGas (sel_bps s)))"

definition sel_take :: "'r lane_env \<Rightarrow> 'r sdk_tx option \<Rightarrow> byte list \<Rightarrow> selector \<Rightarrow> selector" where
  "sel_take L memTx txBz s =
     s\<lparr>totalTxBytes := totalTxBytes s + ProtoSize L txBz, totalTxGas := totalTxGas s + txGas memTx,
       sponsoredGas := (if IsSponsored L memTx (sel_senders s) then sponsoredGas s + txGas memTx else sponsoredGas s),
       selectedTxs := selectedTxs s @ [txBz]\<rparr>"

definition SelectTxForProposal ::
  "'r lane_env \<Rightarrow> addr set \<times> u32 \<Rightarrow> u64 \<Rightarrow> u64 \<Rightarrow> 'r sdk_tx option \<Rightarrow> byte list \<Rightarrow> selector \<Rightarrow> bool \<times> selector" where
  "SelectTxForProposal L policy maxTxBytes maxBlockGas memTx txBz s0 =
     (let s1 = sel_load policy s0;
          s2 = (if sel_fits L maxTxBytes maxBlockGas memTx txBz s1 then sel_take L memTx txBz s1 else s1)
      in (maxTxBytes \<le> totalTxBytes s2 \<or> 0 < maxBlockGas \<and> maxBlockGas \<le> totalTxGas s2, s2))"

section \<open>The validators\<close>

datatype proposal_status = STATUS_UNKNOWN | STATUS_ACCEPT | STATUS_REJECT

text \<open>The loop over the proposal's transactions, with the sponsored gas seen so far.\<close>

fun lane_loop :: "'r lane_env \<Rightarrow> addr set \<Rightarrow> u64 \<Rightarrow> u64 \<Rightarrow> byte list list \<Rightarrow> bool" where
  "lane_loop L senders limit sponsored [] = True"
| "lane_loop L senders limit sponsored (bz # txs) =
     (case TxDecode L bz of
        None \<Rightarrow> lane_loop L senders limit sponsored txs
      | Some tx \<Rightarrow>
          if IsSponsored L (Some tx) senders
          then (let sponsored = sponsored + txGas (Some tx)
                in if limit < sponsored then False else lane_loop L senders limit sponsored txs)
          else lane_loop L senders limit sponsored txs)"

text \<open>\<open>maxGas\<close> is \<open>ConsensusParams().Block.MaxGas\<close>, \<open>None\<close> when there are no block parameters.\<close>

definition block_gas :: "int option \<Rightarrow> u64" where
  "block_gas maxGas = (case maxGas of None \<Rightarrow> 0 | Some g \<Rightarrow> if 0 < g then of_int g else 0)"

definition ProcessProposalHandler ::
  "'r lane_env \<Rightarrow> (byte list list \<Rightarrow> err + proposal_status) \<Rightarrow> addr set \<times> u32 \<Rightarrow> int option \<Rightarrow>
   byte list list \<Rightarrow> err + proposal_status" where
  "ProcessProposalHandler L inner policy maxGas txs =
     (case inner txs of
        Inl e \<Rightarrow> Inl e
      | Inr st \<Rightarrow>
          if st \<noteq> STATUS_ACCEPT then Inr st
          else if block_gas maxGas = 0 then Inr st
          else if fst policy = {} then Inr st
          else if lane_loop L (fst policy) (Cap (block_gas maxGas) (snd policy)) 0 txs then Inr st
          else Inr STATUS_REJECT)"

definition SponsoredLane :: "'x env \<Rightarrow> 'x chain \<Rightarrow> addr set \<times> u32" where
  "SponsoredLane E s =
     (let params = settle_GetParams s in (SponsoredSenderSet E params, sp_SponsoredLaneMaxBps params))"

section \<open>Sums of gas\<close>

lemma unat_mult_small: "unat (a::u64) * unat b < 2 ^ 64 \<Longrightarrow> unat (a * b) = unat a * unat b"
  using unat_mult_lem [of a b] by simp

lemma unat_ucast32: "unat (ucast (b::u32) :: u64) = unat b"
proof -
  have "unat b < 2 ^ 32" using unsigned_less [of b] by simp
  then show ?thesis by (simp add: unsigned_ucast_eq take_bit_nat_eq_self)
qed

lemma div_scaled: "M * b div (10000::nat) = M div 10000 * b + M mod 10000 * b div 10000"
proof -
  have "(M div 10000 * 10000 + M mod 10000) * b = M mod 10000 * b + (M div 10000 * b) * 10000"
    by (simp only: add_mult_distrib mult.assoc mult.commute [of 10000 b] add.commute)
  then show ?thesis by (simp only: div_mult_mod_eq)
qed

lemma Cap_eq:
  assumes "bps \<le> 10000"
  shows "unat (Cap m bps) = unat m * unat bps div 10000"
proof -
  let ?M = "unat m" and ?b = "unat bps"
  have b: "?b \<le> 10000" using assms by (simp add: word_le_nat_alt)
  have ub: "unat (ucast bps :: u64) = ?b" by (rule unat_ucast32)
  have M: "?M < 2 ^ 64" using unsigned_less [of m] by simp
  have q: "?M div 10000 * ?b \<le> ?M div 10000 * 10000" "?M div 10000 * 10000 \<le> ?M" using b by simp_all
  have r: "?M mod 10000 * ?b \<le> 10000 * 10000" by (rule mult_le_mono) (use b in simp_all)
  have split: "?M * ?b div 10000 = ?M div 10000 * ?b + ?M mod 10000 * ?b div 10000"
    by (rule div_scaled)
  have le: "?M * ?b div 10000 \<le> ?M" using b div_le_mono [of "?M * ?b" "?M * 10000" 10000] by simp
  have w: "unat (m div 10000) = ?M div 10000" "unat (m mod 10000) = ?M mod 10000" by (simp_all add: unat_div unat_mod)
  have lt: "?M div 10000 * ?b < 2 ^ 64" "?M mod 10000 * ?b < 2 ^ 64"
    using q M r by (meson le_less_trans, simp)
  have 1: "unat (m div 10000 * ucast bps) = ?M div 10000 * ?b"
    by (rule unat_mult_small [of "m div 10000" "ucast bps", unfolded w ub, OF lt(1)])
  have 2: "unat (m mod 10000 * ucast bps div 10000) = ?M mod 10000 * ?b div 10000"
    using unat_mult_small [of "m mod 10000" "ucast bps", unfolded w ub, OF lt(2)] by (simp add: unat_div)
  show ?thesis
  proof (cases "m = 0")
    case False
    then have "Cap m bps = m div 10000 * ucast bps + (m mod 10000) * ucast bps div 10000" by (simp add: Cap_def)
    then show ?thesis using split le M by (simp add: unat_add_small 1 2)
  qed (simp add: Cap_def)
qed

text \<open>The declared gas of a proposal's sponsored transactions, summed without and with wrap-around.\<close>

definition lane_gas :: "'r lane_env \<Rightarrow> addr set \<Rightarrow> byte list \<Rightarrow> u64" where
  "lane_gas L senders bz = (if IsSponsored L (TxDecode L bz) senders then txGas (TxDecode L bz) else 0)"

definition lane_total :: "'r lane_env \<Rightarrow> addr set \<Rightarrow> byte list list \<Rightarrow> nat" where
  "lane_total L senders txs = (\<Sum>bz \<leftarrow> txs. unat (lane_gas L senders bz))"

definition block_total :: "'r lane_env \<Rightarrow> byte list list \<Rightarrow> nat" where
  "block_total L txs = (\<Sum>bz \<leftarrow> txs. unat (txGas (TxDecode L bz)))"

lemma IsSponsored_None [simp]: "\<not> IsSponsored L None senders"
  by (simp add: IsSponsored_def)

lemma lane_loop_step:
  "lane_loop L senders limit g (bz # txs) \<longleftrightarrow>
     (IsSponsored L (TxDecode L bz) senders \<longrightarrow> g + lane_gas L senders bz \<le> limit) \<and>
     lane_loop L senders limit (g + lane_gas L senders bz) txs"
  by (auto simp: lane_gas_def Let_def not_less split: option.splits)

lemma lane_loop_append:
  "lane_loop L senders limit g (xs @ ys) \<longleftrightarrow>
     lane_loop L senders limit g xs \<and> lane_loop L senders limit (g + (\<Sum>bz \<leftarrow> xs. lane_gas L senders bz)) ys"
  by (induction xs arbitrary: g) (simp_all only: append.simps lane_loop_step, simp_all add: add.assoc)

lemma lane_loop_exact:
  assumes "unat g + lane_total L senders txs < 2 ^ 64" "g \<le> limit"
  shows "lane_loop L senders limit g txs \<longleftrightarrow> unat g + lane_total L senders txs \<le> unat limit"
  using assms
proof (induction txs arbitrary: g)
  case Nil
  then show ?case by (simp add: lane_total_def word_le_nat_alt)
next
  case (Cons bz txs)
  let ?n = "lane_gas L senders bz"
  have t: "lane_total L senders (bz # txs) = unat ?n + lane_total L senders txs" by (simp add: lane_total_def)
  have s: "unat (g + ?n) = unat g + unat ?n" by (rule unat_add_small) (use Cons.prems t in simp)
  show ?case
  proof (cases "g + ?n \<le> limit")
    case True
    with Cons.IH [of "g + ?n"] Cons.prems show ?thesis
      unfolding lane_loop_step by (simp add: s t add.assoc)
  next
    case False
    then have "unat limit < unat g + unat ?n" by (simp add: word_le_nat_alt s)
    moreover have "IsSponsored L (TxDecode L bz) senders" using False Cons.prems(2) by (auto simp: lane_gas_def split: if_splits)
    ultimately show ?thesis using False unfolding lane_loop_step by (simp add: t)
  qed
qed

section \<open>Validators\<close>

lemma process_exact:
  assumes "inner txs = Inr STATUS_ACCEPT" "block_gas maxGas \<noteq> 0" "bps \<le> 10000"
    and "lane_total L senders txs < 2 ^ 64"
  shows "ProcessProposalHandler L inner (senders, bps) maxGas txs =
     Inr (if unat (block_gas maxGas) * unat bps div 10000 < lane_total L senders txs then STATUS_REJECT else STATUS_ACCEPT)"
proof (cases "senders = {}")
  case True
  then have "lane_total L senders txs = 0" by (simp add: lane_total_def lane_gas_def IsSponsored_def)
  with True assms(1) show ?thesis by (simp add: ProcessProposalHandler_def)
next
  case False
  with assms lane_loop_exact [of 0 L senders txs "Cap (block_gas maxGas) bps"] show ?thesis
    by (auto simp: ProcessProposalHandler_def Cap_eq not_less)
qed

section \<open>The proposer\<close>

text \<open>The calls of one proposal, in order, from a cleared selector.\<close>

definition select_all ::
  "'r lane_env \<Rightarrow> addr set \<times> u32 \<Rightarrow> u64 \<Rightarrow> u64 \<Rightarrow> ('r sdk_tx option \<times> byte list) list \<Rightarrow> selector \<Rightarrow> selector" where
  "select_all L policy maxTxBytes maxBlockGas xs s =
     foldl (\<lambda>s (memTx, txBz). snd (SelectTxForProposal L policy maxTxBytes maxBlockGas memTx txBz s)) s xs"

text \<open>The bytes of a transaction of the mempool decode to one with its gas limit and its signer.\<close>

definition carries :: "'r lane_env \<Rightarrow> addr set \<Rightarrow> 'r sdk_tx option \<times> byte list \<Rightarrow> bool" where
  "carries L senders x \<longleftrightarrow>
     txGas (TxDecode L (snd x)) = txGas (fst x) \<and>
     IsSponsored L (TxDecode L (snd x)) senders = IsSponsored L (fst x) senders"

definition byte_total :: "'r lane_env \<Rightarrow> byte list list \<Rightarrow> nat" where
  "byte_total L txs = (\<Sum>bz \<leftarrow> txs. unat (ProtoSize L bz))"

definition sel_inv :: "'r lane_env \<Rightarrow> addr set \<times> u32 \<Rightarrow> u64 \<Rightarrow> selector \<Rightarrow> bool" where
  "sel_inv L policy maxBlockGas s \<longleftrightarrow>
     (loaded s \<longrightarrow> sel_senders s = fst policy \<and> sel_bps s = snd policy) \<and>
     sponsoredGas s = (\<Sum>bz \<leftarrow> selectedTxs s. lane_gas L (fst policy) bz) \<and>
     (maxBlockGas \<noteq> 0 \<longrightarrow> lane_loop L (fst policy) (Cap maxBlockGas (snd policy)) 0 (selectedTxs s))"

lemma sel_load_simps [simp]:
  "totalTxBytes (sel_load p s) = totalTxBytes s" "totalTxGas (sel_load p s) = totalTxGas s"
  "sponsoredGas (sel_load p s) = sponsoredGas s" "selectedTxs (sel_load p s) = selectedTxs s"
  by (simp_all add: sel_load_def)

lemma sel_load_policy:
  "loaded s \<longrightarrow> sel_senders s = fst p \<and> sel_bps s = snd p \<Longrightarrow>
   loaded (sel_load p s) \<and> sel_senders (sel_load p s) = fst p \<and> sel_bps (sel_load p s) = snd p"
  by (simp add: sel_load_def)

lemma select_state [simp]:
  "snd (SelectTxForProposal L policy mb mg memTx txBz s) =
     (if sel_fits L mb mg memTx txBz (sel_load policy s) then sel_take L memTx txBz (sel_load policy s) else sel_load policy s)"
  by (simp add: SelectTxForProposal_def Let_def)

lemma select_inv:
  assumes inv: "sel_inv L policy mg s" and x: "carries L (fst policy) (memTx, txBz)"
  shows "sel_inv L policy mg (snd (SelectTxForProposal L policy mb mg memTx txBz s))"
proof -
  let ?s = "sel_load policy s"
  have l: "loaded ?s" "sel_senders ?s = fst policy" "sel_bps ?s = snd policy"
    using inv sel_load_policy [of s policy] by (auto simp: sel_inv_def)
  have g: "lane_gas L (fst policy) txBz = (if IsSponsored L memTx (fst policy) then txGas memTx else 0)"
    and d: "IsSponsored L (TxDecode L txBz) (fst policy) = IsSponsored L memTx (fst policy)"
    using x by (simp_all add: carries_def lane_gas_def)
  show ?thesis
  proof (cases "sel_fits L mb mg memTx txBz ?s")
    case True
    then have f: "IsSponsored L memTx (fst policy) \<and> mg \<noteq> 0 \<longrightarrow> txGas memTx + sponsoredGas s \<le> Cap mg (snd policy)"
      by (auto simp: sel_fits_def l)
    have "mg \<noteq> 0 \<longrightarrow> lane_loop L (fst policy) (Cap mg (snd policy)) 0 (selectedTxs s @ [txBz])"
      using inv f by (simp only: lane_loop_append lane_loop_step sel_inv_def g d lane_loop.simps) (auto simp: add.commute)
    with True inv show ?thesis
      by (simp add: sel_inv_def sel_take_def l g add.commute)
  next
    case False
    with inv l show ?thesis by (simp add: sel_inv_def)
  qed
qed

lemma Clear_inv: "sel_inv L policy mg (Clear s)"
  by (simp add: sel_inv_def Clear_def)

lemma select_all_inv:
  assumes "\<forall>x \<in> set xs. carries L (fst policy) x" "sel_inv L policy mg s"
  shows "sel_inv L policy mg (select_all L policy mb mg xs s)"
  using assms
proof (induction xs arbitrary: s)
  case (Cons x xs)
  obtain memTx txBz where x: "x = (memTx, txBz)" by (cases x)
  from Cons.prems have "sel_inv L policy mg (snd (SelectTxForProposal L policy mb mg memTx txBz s))"
    by (intro select_inv) (auto simp: x)
  with Cons show ?case by (simp add: select_all_def x)
qed (simp add: select_all_def)

text \<open>
  C9. What an honest proposer selects, every validator accepts. Whatever transactions the proposer
  offers to a cleared selector, in whatever order and with whatever gas limits - also ones whose
  sums wrap around - the proposal handler of a validator that reads the same configuration and
  block limit does not reject the selected list, when decoding a transaction's bytes gives the gas
  limit and the signer that the mempool saw.
\<close>

theorem honest_proposal_accepted:
  assumes "\<forall>x \<in> set xs. carries L (fst policy) x"
    and "inner (SelectedTxs (select_all L policy mb (block_gas maxGas) xs (Clear s))) = Inr STATUS_ACCEPT"
  shows "ProcessProposalHandler L inner policy maxGas
      (SelectedTxs (select_all L policy mb (block_gas maxGas) xs (Clear s))) = Inr STATUS_ACCEPT"
  using select_all_inv [OF assms(1) Clear_inv, of "block_gas maxGas" mb s] assms(2)
  by (simp add: ProcessProposalHandler_def sel_inv_def SelectedTxs_def)

section \<open>Limits of a selection\<close>

definition sel_bounded :: "'r lane_env \<Rightarrow> u64 \<Rightarrow> u64 \<Rightarrow> selector \<Rightarrow> bool" where
  "sel_bounded L mb mg s \<longleftrightarrow>
     byte_total L (selectedTxs s) = unat (totalTxBytes s) \<and> totalTxBytes s \<le> mb \<and>
     (mg \<noteq> 0 \<longrightarrow> block_total L (selectedTxs s) = unat (totalTxGas s) \<and> totalTxGas s \<le> mg)"

lemma word_sum_le:
  assumes "unat a + unat c < 2 ^ 64" "b \<le> (c::u64)"
  shows "unat (a + b) = unat a + unat b"
  by (rule unat_add_small) (use assms in \<open>simp add: word_le_nat_alt\<close>)

lemma select_bounded:
  assumes inv: "sel_bounded L mb mg s" and x: "carries L S (memTx, txBz)"
    and small: "unat (ProtoSize L txBz) + unat mb < 2 ^ 64" "unat (txGas memTx) + unat mg < 2 ^ 64"
  shows "sel_bounded L mb mg (snd (SelectTxForProposal L policy mb mg memTx txBz s))"
proof (cases "sel_fits L mb mg memTx txBz (sel_load policy s)")
  case True
  then have f: "ProtoSize L txBz + totalTxBytes s \<le> mb" "mg \<noteq> 0 \<longrightarrow> txGas memTx + totalTxGas s \<le> mg"
    by (auto simp: sel_fits_def)
  have b: "unat (ProtoSize L txBz + totalTxBytes s) = unat (ProtoSize L txBz) + unat (totalTxBytes s)"
    using inv small(1) by (intro word_sum_le) (auto simp: sel_bounded_def)
  have g: "mg \<noteq> 0 \<longrightarrow> unat (txGas memTx + totalTxGas s) = unat (txGas memTx) + unat (totalTxGas s)"
    using inv small(2) by (intro impI word_sum_le) (auto simp: sel_bounded_def)
  from True inv f b g x show ?thesis
    by (simp add: sel_bounded_def sel_take_def byte_total_def block_total_def carries_def add.commute)
next
  case False
  with inv show ?thesis by (simp add: sel_bounded_def)
qed

lemma select_all_bounded:
  assumes "\<forall>x \<in> set xs. carries L (fst policy) x \<and> unat (ProtoSize L (snd x)) + unat mb < 2 ^ 64 \<and> unat (txGas (fst x)) + unat mg < 2 ^ 64"
    and "sel_bounded L mb mg s"
  shows "sel_bounded L mb mg (select_all L policy mb mg xs s)"
  using assms
proof (induction xs arbitrary: s)
  case (Cons x xs)
  obtain memTx txBz where x: "x = (memTx, txBz)" by (cases x)
  from Cons.prems have "sel_bounded L mb mg (snd (SelectTxForProposal L policy mb mg memTx txBz s))"
    by (intro select_bounded [where S = "fst policy"]) (auto simp: x)
  with Cons show ?case by (simp add: select_all_def x)
qed (simp add: select_all_def)

lemma lane_total_le: "lane_total L S txs \<le> block_total L txs"
  unfolding lane_total_def block_total_def by (rule sum_list_mono) (simp add: lane_gas_def)

lemma selection_limits:
  fixes s :: selector
  assumes xs: "\<forall>x \<in> set xs. carries L (fst policy) x \<and> unat (ProtoSize L (snd x)) + unat mb < 2 ^ 64 \<and> unat (txGas (fst x)) + unat mg < 2 ^ 64"
    and bps: "snd policy \<le> 10000"
  defines "txs \<equiv> SelectedTxs (select_all L policy mb mg xs (Clear s))"
  shows "byte_total L txs \<le> unat mb" "mg \<noteq> 0 \<Longrightarrow> block_total L txs \<le> unat mg"
    "mg \<noteq> 0 \<Longrightarrow> lane_total L (fst policy) txs \<le> unat mg * unat (snd policy) div 10000"
proof -
  let ?s = "select_all L policy mb mg xs (Clear s)"
  have "sel_bounded L mb mg (Clear s)" by (simp add: sel_bounded_def Clear_def byte_total_def block_total_def)
  from select_all_bounded [OF xs this] have b: "sel_bounded L mb mg ?s" .
  then show "byte_total L txs \<le> unat mb" "mg \<noteq> 0 \<Longrightarrow> block_total L txs \<le> unat mg"
    by (auto simp: sel_bounded_def txs_def SelectedTxs_def word_le_nat_alt)
  assume mg: "mg \<noteq> 0"
  have "\<forall>x \<in> set xs. carries L (fst policy) x" using xs by blast
  from select_all_inv [OF this Clear_inv] have i: "sel_inv L policy mg ?s" .
  have "block_total L (selectedTxs ?s) \<le> unat mg" using b mg by (simp add: sel_bounded_def word_le_nat_alt)
  moreover have "unat mg < 2 ^ 64" using unsigned_less [of mg] by simp
  ultimately have "lane_total L (fst policy) (selectedTxs ?s) < 2 ^ 64"
    using lane_total_le [of L "fst policy" "selectedTxs ?s"] by linarith
  with lane_loop_exact [of 0 L "fst policy" "selectedTxs ?s" "Cap mg (snd policy)"] i mg
  have "lane_total L (fst policy) (selectedTxs ?s) \<le> unat (Cap mg (snd policy))" by (simp add: sel_inv_def)
  with Cap_eq [OF bps] show "lane_total L (fst policy) txs \<le> unat mg * unat (snd policy) div 10000"
    by (simp add: txs_def SelectedTxs_def)
qed

section \<open>The configuration\<close>

text \<open>
  The interface \<open>Policy\<close>: in the states the chain can be in, the lane never gets more than nine
  tenths of a block.
\<close>

locale lane_policy =
  fixes policy :: "'s \<Rightarrow> addr set \<times> u32" and configured :: "'s \<Rightarrow> bool"
  assumes at_most: "configured s \<Longrightarrow> snd (policy s) \<le> 9000"
begin

lemma bps: "configured s \<Longrightarrow> snd (policy s) \<le> 10000"
  using at_most [of s] by (simp add: word_le_nat_alt)

lemma share: "configured s \<Longrightarrow> unat m * unat (snd (policy s)) div 10000 \<le> unat (m::u64) * 9 div 10"
proof -
  assume "configured s"
  then have "unat (snd (policy s)) \<le> 9000" using at_most [of s] by (simp add: word_le_nat_alt)
  then have "unat m * unat (snd (policy s)) div 10000 \<le> unat m * 9000 div 10000" by (intro div_le_mono mult_le_mono2)
  also have "\<dots> = unat m * 9 div 10" by linarith
  finally show ?thesis .
qed

lemma enforced:
  assumes "configured s" "inner txs = Inr STATUS_ACCEPT" "block_gas maxGas \<noteq> 0"
    and "lane_total L (fst (policy s)) txs < 2 ^ 64"
  shows "ProcessProposalHandler L inner (policy s) maxGas txs =
     Inr (if unat (block_gas maxGas) * unat (snd (policy s)) div 10000 < lane_total L (fst (policy s)) txs
          then STATUS_REJECT else STATUS_ACCEPT)"
  using process_exact [of inner txs maxGas "snd (policy s)" L "fst (policy s)"] bps assms by simp

lemma limited:
  assumes "configured s"
    and "\<forall>x \<in> set xs. carries L (fst (policy s)) x \<and> unat (ProtoSize L (snd x)) + unat mb < 2 ^ 64 \<and> unat (txGas (fst x)) + unat mg < 2 ^ 64"
    and "mg \<noteq> 0" and "txs = SelectedTxs (select_all L (policy s) mb mg xs (Clear sel))"
  shows "byte_total L txs \<le> unat mb \<and> block_total L txs \<le> unat mg \<and>
    lane_total L (fst (policy s)) txs \<le> unat mg * unat (snd (policy s)) div 10000 \<and>
    lane_total L (fst (policy s)) txs \<le> unat mg * 9 div 10"
  using selection_limits [OF assms(2) bps [OF assms(1)], of sel] share [OF assms(1), of mg] assms(3,4) by force

end

text \<open>The states of a chain whose genesis file passed its validation.\<close>

definition configured :: "'x env \<Rightarrow> 'x chain \<Rightarrow> bool" where
  "configured E s \<longleftrightarrow>
     (\<exists>s0 gs s1. settle_genesis_Validate E gs \<and> settle_InitGenesis E gs s0 = (Inr (), s1) \<and> (settle_step E)\<^sup>*\<^sup>* s1 s)"

interpretation lane: lane_policy "SponsoredLane E" "config_ok E" for E :: "'x env"
  by unfold_locales (simp add: SponsoredLane_def Let_def settle_params_Validate_def MaxSponsoredLaneBps_def)

lemma config_run: "keepsR (config_ok E) m \<Longrightarrow> config_ok E s \<Longrightarrow> m s = (Inr x, t) \<Longrightarrow> config_ok E t"
  by (rule keepsRD)

lemma init_config:
  assumes "settle_genesis_Validate E gs" "settle_InitGenesis E gs s0 = (Inr (), s)"
  shows "config_ok E s"
proof -
  have t: "keepsR (config_ok E) (init_tab E t)" for t
    unfolding init_tab_def
    by (intro keepsR_intros keepsR_bech32 config.booked keepsR_modify) (simp add: settle_GetParams_def)
  have l: "keepsR (config_ok E) (init_allowances gs)" "keepsR (config_ok E) (init_totals gs)" "keepsR (config_ok E) (init_paid gs)"
    unfolding init_allowances_def init_totals_def init_paid_def
    by (intro keepsR_intros keepsR_modify; simp add: settle_GetParams_def)+
  from assms(2) obtain s1 s2 s3 s4 s5 s6 where
    1: "forM (sg_Claimables gs) (\<lambda>c. addClaimable (cl_AppId c) (cl_Denom c) (cl_Amount c)) (init_first gs s0) = (Inr (), s1)"
    and 2: "forM (sg_Pools gs) (\<lambda>p. addPool (pb_Pool p) (pb_Denom p) (pb_Amount p)) s1 = (Inr (), s2)"
    and 3: "forM (sg_Tabs gs) (init_tab E) s2 = (Inr (), s3)"
    and 4: "init_allowances gs s3 = (Inr (), s4)" "init_totals gs s4 = (Inr (), s5)" "init_paid gs s5 = (Inr (), s6)"
    and s: "s = init_last E gs s6"
    unfolding settle_InitGenesis_run by (elim exE conjE) (rule that)
  have "config_ok E (init_first gs s0)"
    using assms(1) by (simp add: settle_genesis_Validate_def init_first_def settle_GetParams_def)
  from config_run [OF keepsR_forM [OF config.booked(3)] this 1] have "config_ok E s1" .
  from config_run [OF keepsR_forM [OF config.booked(2)] this 2] have "config_ok E s2" .
  from config_run [OF keepsR_forM [OF t] this 3] have "config_ok E s3" .
  from config_run [OF l(3) config_run [OF l(2) config_run [OF l(1) this 4(1)] 4(2)] 4(3)] have "config_ok E s6" .
  then show ?thesis by (simp add: s init_last_def settle_GetParams_def)
qed

lemma configured_params:
  assumes "configured E s"
  shows "config_ok E s"
proof -
  from assms obtain s0 gs s1 where g: "settle_genesis_Validate E gs" "settle_InitGenesis E gs s0 = (Inr (), s1)"
    and r: "(settle_step E)\<^sup>*\<^sup>* s1 s" unfolding configured_def by blast
  from r show ?thesis
    by (induction rule: rtranclp_induct) (use init_config [OF g] step_config in blast)+
qed

section \<open>Properties\<close>

text \<open>
  C31. Parameters stay valid. On a chain whose genesis file passed validation, the parameters of
  \<open>x/settle\<close> pass it in every state that messages, precompile calls and block hooks lead to: the fee
  and split rates, the assets' limits, the sponsors and the lane's share are always well formed.
\<close>

theorem params_always_valid:
  assumes "configured E s"
  shows "settle_params_Validate E (settle_GetParams s)"
  using assms by (rule configured_params)

text \<open>
  C13. Validators enforce the lane. With the configuration of a reachable state, and as long as the
  declared gas of the sponsored transactions does not exceed \<open>2^64\<close>, a validator that accepts a
  proposal otherwise rejects it exactly when the sponsored transactions declare more gas than their
  share of the block, in whatever order they stand.
\<close>

theorem validators_enforce_lane:
  assumes "configured E s" "inner txs = Inr STATUS_ACCEPT" "block_gas maxGas \<noteq> 0"
    and "lane_total L (SponsoredSenderSet E (settle_GetParams s)) txs < 2 ^ 64"
  shows "ProcessProposalHandler L inner (SponsoredLane E s) maxGas txs =
     Inr (if unat (block_gas maxGas) * unat (sp_SponsoredLaneMaxBps (settle_GetParams s)) div 10000
             < lane_total L (SponsoredSenderSet E (settle_GetParams s)) txs
          then STATUS_REJECT else STATUS_ACCEPT)"
  using lane.enforced [OF configured_params [OF assms(1)], of inner txs maxGas L] assms(2-4)
  by (simp add: SponsoredLane_def Let_def)

text \<open>
  What a proposer may select. With the configuration of a reachable state and no single
  transaction big enough to overflow \<open>uint64\<close> next to the block limits, the selected transactions
  fit the block's bytes and gas, and the sponsored ones their share, which is never more than nine
  tenths of the block: paying transactions always find a tenth of it.
\<close>

theorem selection_within_limits:
  assumes "configured E s" "mg \<noteq> 0"
    and "\<forall>x \<in> set xs. carries L (fst (SponsoredLane E s)) x \<and> unat (ProtoSize L (snd x)) + unat mb < 2 ^ 64 \<and>
      unat (txGas (fst x)) + unat mg < 2 ^ 64"
    and "txs = SelectedTxs (select_all L (SponsoredLane E s) mb mg xs (Clear sel))"
  shows "byte_total L txs \<le> unat mb \<and> block_total L txs \<le> unat mg \<and>
    lane_total L (fst (SponsoredLane E s)) txs \<le> unat mg * unat (snd (SponsoredLane E s)) div 10000 \<and>
    lane_total L (fst (SponsoredLane E s)) txs \<le> unat mg * 9 div 10"
  using lane.limited [OF configured_params [OF assms(1)] assms(3,2,4)] .

text \<open>
  Both gas sums wrap around at \<open>2^64\<close>: there is a proposal of two sponsored transactions that
  declare far more gas than the lane has, and a validator accepts it.
\<close>

theorem lane_sum_wraps:
  "\<exists>(L :: nat lane_env) senders txs. 10000 < lane_total L senders txs \<and>
     unat (block_gas (Some 10000)) * unat (5000 :: u32) div 10000 = 5000 \<and>
     ProcessProposalHandler L (\<lambda>_. Inr STATUS_ACCEPT) (senders, 5000) (Some 10000) txs = Inr STATUS_ACCEPT"
proof -
  define L :: "nat lane_env" where
    "L = \<lparr>recover_signer = (\<lambda>_. Some [7]), bytes_address = (\<lambda>b. b), ProtoSize = (\<lambda>b. 10),
       TxDecode = (\<lambda>b. Some \<lparr>tx_Msgs = [MsgEthereumTx [] 0], tx_Gas = Some (if b = [1] then 5000 else 0 - 5000)\<rparr>)\<rparr>"
  have g: "lane_gas L {[7]} [1] = 5000" "lane_gas L {[7]} [2] = 0 - 5000"
    by (simp_all add: L_def lane_gas_def IsSponsored_def txGas_def)
  have c: "Cap (block_gas (Some 10000)) 5000 = 5000" by (simp add: Cap_def block_gas_def)
  have "lane_loop L {[7]} 5000 0 [[1], [2]]"
    unfolding lane_loop_step g by simp
  then have "ProcessProposalHandler L (\<lambda>_. Inr STATUS_ACCEPT) ({[7]}, 5000) (Some 10000) [[1], [2]] = Inr STATUS_ACCEPT"
    unfolding ProcessProposalHandler_def by (simp add: c del: lane_loop.simps)
  moreover have "10000 < lane_total L {[7]} [[1], [2]]"
    unfolding lane_total_def by (simp add: g)
  moreover have "unat (block_gas (Some 10000)) * unat (5000 :: u32) div 10000 = 5000" by (simp add: block_gas_def)
  ultimately show ?thesis by blast
qed

section \<open>A concrete chain\<close>

definition ex_lane_genesis :: settle_genesis where
  "ex_lane_genesis = settle_DefaultGenesis\<lparr>sg_Params := settle_DefaultParams\<lparr>sp_SponsoredSenders := [''0xab'']\<rparr>\<rparr>"

definition ex_lane_chain :: "ref_ext chain" where
  "ex_lane_chain = snd (settle_InitGenesis ref_env ex_lane_genesis (ref_chain (ref_genesis [])))"

text \<open>A transaction is one byte: its gas in thousands; bytes below 128 are signed by the sponsor.\<close>

definition ex_lane :: "byte lane_env" where
  "ex_lane =
     \<lparr>recover_signer = (\<lambda>r. if r < 128 then Some (string_bytes ''0xab'') else Some []), bytes_address = (\<lambda>b. b),
      ProtoSize = (\<lambda>b. 10),
      TxDecode = (\<lambda>b. case b of [] \<Rightarrow> None | r # _ \<Rightarrow>
        Some \<lparr>tx_Msgs = [MsgEthereumTx [] r], tx_Gas = Some (ucast r * 1000)\<rparr>)\<rparr>"

lemma ex_lane_init: "settle_InitGenesis ref_env ex_lane_genesis (ref_chain (ref_genesis [])) = (Inr (), ex_lane_chain)"
  by (simp add: ex_lane_chain_def ex_lane_genesis_def settle_InitGenesis_def settle_DefaultGenesis_def exec_simps ref_chain_def)

lemma ex_lane_params: "settle_GetParams ex_lane_chain = sg_Params ex_lane_genesis"
  by (simp add: ex_lane_chain_def ex_lane_genesis_def settle_InitGenesis_def settle_DefaultGenesis_def exec_simps settle_GetParams_def ref_chain_def)

lemma ex_lane_configured: "configured ref_env ex_lane_chain"
proof -
  have "settle_genesis_Validate ref_env ex_lane_genesis"
    by (simp add: ex_lane_genesis_def settle_genesis_Validate_def settle_DefaultGenesis_def settle_params_Validate_def
        settle_DefaultParams_def split_Validate_def MaxFeeBps_def MaxSponsoredLaneBps_def validateOptionalBech32_def
        coins_Validate_def MaxBps_def ref_run)
  with ex_lane_init show ?thesis unfolding configured_def by blast
qed

lemma ex_lane_policy: "SponsoredLane ref_env ex_lane_chain = ({string_bytes ''0xab''}, 5000)"
  by (simp add: SponsoredLane_def Let_def ex_lane_params ex_lane_genesis_def settle_DefaultGenesis_def settle_DefaultParams_def
      SponsoredSenderSet_def ref_run)

lemma ex_lane_total: "lane_total ex_lane {string_bytes ''0xab''} [[3], [200], [4]] = 7000"
  by (simp add: lane_total_def lane_gas_def ex_lane_def IsSponsored_def txGas_def string_bytes_def)

lemma ex_lane_carries: "carries ex_lane S (TxDecode ex_lane b, b)"
  by (simp add: carries_def)

lemma honest_proposal_accepted_witness:
  "ProcessProposalHandler ex_lane (\<lambda>_. Inr STATUS_ACCEPT) (SponsoredLane ref_env ex_lane_chain) (Some 10000)
     (SelectedTxs (select_all ex_lane (SponsoredLane ref_env ex_lane_chain) 1000 (block_gas (Some 10000))
        (map (\<lambda>b. (TxDecode ex_lane b, b)) [[3], [200], [4]]) (Clear NewSelector))) = Inr STATUS_ACCEPT"
  by (rule honest_proposal_accepted) (simp_all add: ex_lane_carries)

lemma params_always_valid_witness: "settle_params_Validate ref_env (settle_GetParams ex_lane_chain)"
  by (rule params_always_valid [OF ex_lane_configured])

lemma validators_enforce_lane_witness:
  "ProcessProposalHandler ex_lane (\<lambda>_. Inr STATUS_ACCEPT) (SponsoredLane ref_env ex_lane_chain) (Some 10000)
     [[3], [200], [4]] = Inr STATUS_REJECT"
  using validators_enforce_lane [OF ex_lane_configured, of "\<lambda>_. Inr STATUS_ACCEPT" "[[3], [200], [4]]" "Some 10000" ex_lane]
    ex_lane_policy ex_lane_total by (simp add: block_gas_def SponsoredLane_def Let_def)

lemma selection_within_limits_witness:
  "lane_total ex_lane {string_bytes ''0xab''}
     (SelectedTxs (select_all ex_lane (SponsoredLane ref_env ex_lane_chain) 1000 10000
        (map (\<lambda>b. (TxDecode ex_lane b, b)) [[3], [4]]) (Clear NewSelector))) \<le> 5000"
proof -
  have "unat (ProtoSize ex_lane b) = 10" "unat (txGas (TxDecode ex_lane [3])) = 3000" "unat (txGas (TxDecode ex_lane [4])) = 4000" for b
    by (simp_all add: ex_lane_def txGas_def)
  then show ?thesis
    using selection_within_limits [OF ex_lane_configured, of 10000 "map (\<lambda>b. (TxDecode ex_lane b, b)) [[3], [4]]" ex_lane 1000 _ NewSelector]
    by (simp add: ex_lane_carries ex_lane_policy)
qed

end
