(* ===== verification/Precompile.thy ===== *)
theory Precompile
  imports SettleTreasury
begin

text \<open>
  The Settle precompile at \<open>0x900\<close>, \<open>chain/precompiles/settle/methods.go\<close> and \<open>settle.go\<close>: the entry
  point through which contracts use \<open>x/settle\<close> and \<open>x/apps\<close>. Each function of the Go file is one
  definition over the keepers of the other theories. The ABI codec and log of geth, the token
  registry of \<open>x/erc20\<close> and the cosmos/evm wrapper that runs a native action in the EVM's journaled
  state are parameters (\<open>precompile_env\<close>).
\<close>

section \<open>Parameters\<close>

record token_pair =
  tp_Enabled :: bool
  tp_IsNativeCoin :: bool
  tp_Denom :: denom

record event_abi =
  ea_ID :: "byte list"
  ea_NonIndexed :: "string list"

record evm_log =
  lg_Address :: addr
  lg_Topics :: "byte list list"
  lg_Data :: "byte list"
  lg_BlockNumber :: u64

record 'x precompile_env =
  \<comment> \<open>\<open>x/erc20\<close>\<close>
  GetTokenPairID :: "'x \<Rightarrow> string \<Rightarrow> byte list"
  GetTokenPair :: "'x \<Rightarrow> byte list \<Rightarrow> token_pair option"
  \<comment> \<open>the ABI, its codec and the log of the EVM state\<close>
  ContractAddress :: addr
  Events :: "string \<Rightarrow> event_abi option"
  MakeTopic :: "abi_val \<Rightarrow> nat + byte list"
  PackEvent :: "string list \<Rightarrow> abi_val list \<Rightarrow> nat + byte list"
  PackOutputs :: "string \<Rightarrow> abi_val list \<Rightarrow> nat + byte list"
  AddLog :: "evm_log \<Rightarrow> 'x \<Rightarrow> 'x"
  MethodById :: "byte list \<Rightarrow> string option"
  BaseRequiredGas :: "byte list \<Rightarrow> bool \<Rightarrow> u64"
  SetupABI :: "byte list \<Rightarrow> bool \<Rightarrow> (string \<Rightarrow> bool) \<Rightarrow> nat + (string \<times> abi_val list)"
  RunNativeAction :: "('x, byte list) call \<Rightarrow> ('x, byte list) call"

abbreviation lift_ext :: "nat + 'a \<Rightarrow> ('x, 'a) call" where
  "lift_ext r \<equiv> lift (map_sum EExternal (\<lambda>v. v) r)"

section \<open>Arguments\<close>

definition maxAmountBits :: nat where "maxAmountBits = 255"

abbreviation bad_args :: err where "bad_args \<equiv> EPrecompile PErrBadArgs"

definition argAddress :: "abi_val list \<Rightarrow> nat \<Rightarrow> err + addr" where
  "argAddress args i =
     (if length args \<le> i then Inl bad_args else case args ! i of VAddress a \<Rightarrow> Inr a | _ \<Rightarrow> Inl bad_args)"

definition argUint :: "abi_val list \<Rightarrow> nat \<Rightarrow> err + int" where
  "argUint args i =
     (if length args \<le> i then Inl bad_args
      else case args ! i of VBig (Some v) \<Rightarrow> (if v < 0 then Inl bad_args else Inr v) | _ \<Rightarrow> Inl bad_args)"

definition argAmount :: "abi_val list \<Rightarrow> nat \<Rightarrow> err + int" where
  "argAmount args i =
     (case argUint args i of
        Inl e \<Rightarrow> Inl e
      | Inr v \<Rightarrow> if maxAmountBits < BitLen (nat v) then Inl (EPrecompile PErrAmountTooWide) else Inr v)"

definition argUint64 :: "abi_val list \<Rightarrow> nat \<Rightarrow> err + u64" where
  "argUint64 args i =
     (if length args \<le> i then Inl bad_args else case args ! i of VUint64 v \<Rightarrow> Inr v | _ \<Rightarrow> Inl bad_args)"

text \<open>\<open>sdk.AccAddress(a.Bytes())\<close> is the same bytes.\<close>

definition acc :: "addr \<Rightarrow> addr" where "acc a = a"

section \<open>Tokens, apps, logs\<close>

definition denomOfToken :: "'x env \<Rightarrow> 'x precompile_env \<Rightarrow> addr \<Rightarrow> ('x, denom) call" where
  "denomOfToken E P token =
     bindM (gets (\<lambda>s. let pid = GetTokenPairID P (ext s) (AddressHex E token)
        in if pid = [] then None
           else (case GetTokenPair P (ext s) pid of
                   None \<Rightarrow> None
                 | Some pair \<Rightarrow> if tp_Enabled pair \<and> tp_IsNativeCoin pair then Some (tp_Denom pair) else None)))
     (\<lambda>d. need d (EPrecompile PErrNotBankNative))"

definition appOfCaller :: "'x env \<Rightarrow> addr \<Rightarrow> ('x, app option) call" where
  "appOfCaller E caller = gets (\<lambda>s. AppOfContract E s caller)"

primrec topics :: "'x precompile_env \<Rightarrow> abi_val list \<Rightarrow> ('x, byte list list) call" where
  "topics P [] = ret []"
| "topics P (v # vs) = bindM (lift_ext (MakeTopic P v)) (\<lambda>t. bindM (topics P vs) (\<lambda>ts. ret (t # ts)))"

definition emit_log :: "'x precompile_env \<Rightarrow> string \<Rightarrow> abi_val list \<Rightarrow> abi_val list \<Rightarrow> ('x, unit) call" where
  "emit_log P event indexed data =
     bindM (need (Events P event) (EPrecompile PErrUnknownEvent)) (\<lambda>ev.
     bindM (topics P indexed) (\<lambda>ts.
     bindM (lift_ext (PackEvent P (ea_NonIndexed ev) data)) (\<lambda>packed.
     modify (\<lambda>s. s\<lparr>ext := AddLog P \<lparr>lg_Address = ContractAddress P, lg_Topics = ea_ID ev # ts, lg_Data = packed,
        lg_BlockNumber = of_int (height s)\<rparr> (ext s)\<rparr>))))"

definition emitSettled :: "'x precompile_env \<Rightarrow> pay_result \<Rightarrow> addr \<Rightarrow> addr \<Rightarrow> addr \<Rightarrow> addr \<Rightarrow> int \<Rightarrow> ('x, unit) call" where
  "emitSettled P res payer payee token referrer amount =
     emit_log P ''Settled'' [VUint64 (res_AppID res), VAddress payer, VAddress payee]
       [VAddress token, VBig (Some amount), VBig (Some (res_Fee res)), VBig (Some (res_Net res)), VAddress referrer]"

definition outputs :: "'x precompile_env \<Rightarrow> string \<Rightarrow> abi_val list \<Rightarrow> ('x, byte list) call" where
  "outputs P m vs = lift_ext (PackOutputs P m vs)"

text \<open>\<open>sdk.NewCoin\<close> panics on an invalid denom or a negative amount.\<close>

definition NewCoin :: "'x env \<Rightarrow> denom \<Rightarrow> int \<Rightarrow> ('x, coin) call" where
  "NewCoin E d n = seqM (check (0 \<le> n \<and> ValidDenom E d) EPanic) (ret \<lparr>coin_Denom = d, coin_Amount = n\<rparr>)"

section \<open>Payments\<close>

definition pre_pay :: "'x env \<Rightarrow> 'x precompile_env \<Rightarrow> addr \<Rightarrow> abi_val list \<Rightarrow> ('x, byte list) call" where
  "pre_pay E P caller args =
     bindM (lift (argAddress args 0)) (\<lambda>token.
     bindM (lift (argAmount args 1)) (\<lambda>amount.
     bindM (lift (argAddress args 2)) (\<lambda>payee.
     bindM (lift (argAddress args 3)) (\<lambda>referrer.
     bindM (denomOfToken E P token) (\<lambda>d.
     bindM (NewCoin E d amount) (\<lambda>c.
     bindM (appOfCaller E caller) (\<lambda>a.
     bindM (Pay E \<lparr>rq_Payer = acc caller, rq_Payee = acc payee, rq_Amount = c, rq_App = a,
              rq_Referrer = (if referrer \<noteq> zero_address then acc referrer else []), rq_FundsInModule = False\<rparr>) (\<lambda>res.
     seqM (emitSettled P res caller payee token referrer amount)
     (outputs P ''pay'' [VBig (Some (res_Fee res)), VBig (Some (res_Net res))])))))))))"

definition pre_payFrom :: "'x env \<Rightarrow> 'x precompile_env \<Rightarrow> addr \<Rightarrow> abi_val list \<Rightarrow> ('x, byte list) call" where
  "pre_payFrom E P caller args =
     bindM (lift (argAddress args 0)) (\<lambda>payer.
     bindM (lift (argAddress args 1)) (\<lambda>token.
     bindM (lift (argAmount args 2)) (\<lambda>amount.
     bindM (lift (argAddress args 3)) (\<lambda>payee.
     bindM (lift (argAddress args 4)) (\<lambda>referrer.
     bindM (appOfCaller E caller) (\<lambda>a0.
     bindM (need a0 (EPrecompile PErrNeedApp)) (\<lambda>a.
     bindM (denomOfToken E P token) (\<lambda>d.
     seqM (whenM (payer \<noteq> caller) (SpendAllowance E (acc payer) (app_AppId a) d amount))
     (bindM (NewCoin E d amount) (\<lambda>c.
      bindM (Pay E \<lparr>rq_Payer = acc payer, rq_Payee = acc payee, rq_Amount = c, rq_App = Some a,
               rq_Referrer = (if referrer \<noteq> zero_address then acc referrer else []), rq_FundsInModule = False\<rparr>) (\<lambda>res.
      seqM (emitSettled P res payer payee token referrer amount)
      (outputs P ''payFrom'' [VBig (Some (res_Fee res)), VBig (Some (res_Net res))]))))))))))))"

definition pre_tabPay :: "'x env \<Rightarrow> 'x precompile_env \<Rightarrow> addr \<Rightarrow> abi_val list \<Rightarrow> ('x, byte list) call" where
  "pre_tabPay E P caller args =
     bindM (lift (argAddress args 0)) (\<lambda>payer.
     bindM (lift (argAddress args 1)) (\<lambda>token.
     bindM (lift (argAmount args 2)) (\<lambda>amount.
     bindM (lift (argAddress args 3)) (\<lambda>payee.
     bindM (denomOfToken E P token) (\<lambda>d.
     bindM (appOfCaller E caller) (\<lambda>a.
     seqM (if payer \<noteq> caller
           then bindM (need a (EPrecompile PErrNeedApp)) (\<lambda>x. SpendAllowance E (acc payer) (app_AppId x) d amount)
           else ret ())
     (bindM (NewCoin E d amount) (\<lambda>c.
      bindM (TabDeposit E a (acc payer) (acc payee) c True) (\<lambda>(settled, res).
      let appID = (case a of None \<Rightarrow> 0 | Some x \<Rightarrow> app_AppId x) in
      seqM (emit_log P ''TabDeposited'' [VUint64 appID, VAddress payer, VAddress payee]
             [VAddress token, VBig (Some amount), VBool settled])
      (seqM (whenM settled
             (emitSettled P res payer payee token zero_address (res_Fee res + res_Net res)))
      (outputs P ''tabPay'' [VBool settled])))))))))))"

definition pre_closeTab :: "'x env \<Rightarrow> 'x precompile_env \<Rightarrow> addr \<Rightarrow> abi_val list \<Rightarrow> ('x, byte list) call" where
  "pre_closeTab E P caller args =
     bindM (lift (argUint64 args 0)) (\<lambda>i.
     bindM (lift (argAddress args 1)) (\<lambda>payer.
     bindM (lift (argAddress args 2)) (\<lambda>payee.
     bindM (lift (argAddress args 3)) (\<lambda>token.
     bindM (denomOfToken E P token) (\<lambda>d.
     bindM (CloseTab E (acc caller) i (acc payer) (acc payee) d) (\<lambda>res.
     seqM (emitSettled P res payer payee token zero_address (res_Fee res + res_Net res))
     (outputs P ''closeTab'' [VBig (Some (res_Fee res)), VBig (Some (res_Net res))])))))))"

section \<open>Approvals\<close>

text \<open>Anything from \<open>MaxAllowance\<close> on means unlimited.\<close>

definition clampAllowance :: "int \<Rightarrow> int" where
  "clampAllowance raw =
     (if BitLen (nat raw) \<le> maxAmountBits \<and> raw < MaxAllowance then raw else MaxAllowance)"

definition pre_approveApp :: "'x env \<Rightarrow> 'x precompile_env \<Rightarrow> addr \<Rightarrow> abi_val list \<Rightarrow> ('x, byte list) call" where
  "pre_approveApp E P caller args =
     bindM (lift (argUint64 args 0)) (\<lambda>i.
     bindM (lift (argAddress args 1)) (\<lambda>token.
     bindM (lift (argUint args 2)) (\<lambda>raw.
     let amount = clampAllowance raw in
     bindM (denomOfToken E P token) (\<lambda>d.
     seqM (ApproveApp E (acc caller) i d amount)
     (seqM (emit_log P ''AppApproval'' [VAddress caller, VUint64 i] [VAddress token, VBig (Some amount)])
     (outputs P ''approveApp'' [VBool True]))))))"

definition pre_appAllowance :: "'x env \<Rightarrow> 'x precompile_env \<Rightarrow> abi_val list \<Rightarrow> ('x, byte list) call" where
  "pre_appAllowance E P args =
     bindM (lift (argAddress args 0)) (\<lambda>owner.
     bindM (lift (argUint64 args 1)) (\<lambda>i.
     bindM (lift (argAddress args 2)) (\<lambda>token.
     bindM (denomOfToken E P token) (\<lambda>d.
     bindM (gets (\<lambda>s. Allowance s (AccString E (acc owner)) i d)) (\<lambda>n.
     outputs P ''appAllowance'' [VBig (Some n)])))))"

section \<open>Apps\<close>

definition pre_registerApp :: "'x env \<Rightarrow> 'x precompile_env \<Rightarrow> addr \<Rightarrow> abi_val list \<Rightarrow> ('x, byte list) call" where
  "pre_registerApp E P caller args =
     bindM (lift (argAddress args 0)) (\<lambda>recipient.
     seqM (check (3 \<le> length args) bad_args)
     (bindM (need (case args ! 1 of VString u \<Rightarrow> Some u | _ \<Rightarrow> None) bad_args) (\<lambda>uri.
      bindM (need (case args ! 2 of VUint32 b \<Rightarrow> Some b | _ \<Rightarrow> None) bad_args) (\<lambda>refBps.
      let rec = (if recipient \<noteq> zero_address then AccString E (acc recipient) else []) in
      bindM (RegisterApp E (acc caller) rec uri [] refBps) (\<lambda>i.
      seqM (emit_log P ''AppRegistered'' [VUint64 i, VAddress caller] [])
      (outputs P ''registerApp'' [VUint64 i]))))))"

definition pre_claimRegistration :: "'x env \<Rightarrow> 'x precompile_env \<Rightarrow> addr \<Rightarrow> abi_val list \<Rightarrow> ('x, byte list) call" where
  "pre_claimRegistration E P caller args =
     bindM (lift (argUint64 args 0)) (\<lambda>i.
     seqM (ClaimRegistration E caller i)
     (seqM (emit_log P ''RegistrationClaimed'' [VUint64 i, VAddress caller] [])
     (outputs P ''claimRegistration'' [VBool True])))"

definition pre_acceptContractClaim :: "'x env \<Rightarrow> 'x precompile_env \<Rightarrow> addr \<Rightarrow> abi_val list \<Rightarrow> ('x, byte list) call" where
  "pre_acceptContractClaim E P caller args =
     bindM (lift (argUint64 args 0)) (\<lambda>i.
     bindM (lift (argAddress args 1)) (\<lambda>contractAddr.
     bindM (AcceptContractClaim E (AccString E (acc caller)) i (AddressHex E contractAddr)) (\<lambda>(pending, _).
     outputs P ''acceptContractClaim'' [VBool pending])))"

definition bondArgs :: "'x env \<Rightarrow> 'x precompile_env \<Rightarrow> abi_val list \<Rightarrow> ('x, u64 \<times> coin) call" where
  "bondArgs E P args =
     bindM (lift (argUint64 args 0)) (\<lambda>i.
     bindM (lift (argAddress args 1)) (\<lambda>token.
     bindM (lift (argAmount args 2)) (\<lambda>amount.
     bindM (denomOfToken E P token) (\<lambda>d.
     bindM (NewCoin E d amount) (\<lambda>c. ret (i, c))))))"

definition pre_bondApp :: "'x env \<Rightarrow> 'x precompile_env \<Rightarrow> addr \<Rightarrow> abi_val list \<Rightarrow> ('x, byte list) call" where
  "pre_bondApp E P caller args =
     bindM (bondArgs E P args) (\<lambda>(i, c).
     seqM (BondApp E (AccString E (acc caller)) i c)
     (bindM (gets (\<lambda>s. fst (BondInfo s i))) (\<lambda>bonded.
     outputs P ''bondApp'' [VBig (Some bonded)])))"

definition pre_unbondApp :: "'x env \<Rightarrow> 'x precompile_env \<Rightarrow> addr \<Rightarrow> abi_val list \<Rightarrow> ('x, byte list) call" where
  "pre_unbondApp E P caller args =
     bindM (bondArgs E P args) (\<lambda>(i, c).
     bindM (UnbondApp E (AccString E (acc caller)) i c) (\<lambda>release.
     outputs P ''unbondApp'' [VUint64 (of_int release)]))"

definition pre_appBond :: "'x precompile_env \<Rightarrow> abi_val list \<Rightarrow> ('x, byte list) call" where
  "pre_appBond P args =
     bindM (lift (argUint64 args 0)) (\<lambda>i.
     bindM (gets (\<lambda>s. BondInfo s i)) (\<lambda>(bonded, base).
     outputs P ''appBond'' [VBig (Some bonded), VUint64 base]))"

definition pre_appOf :: "'x env \<Rightarrow> 'x precompile_env \<Rightarrow> abi_val list \<Rightarrow> ('x, byte list) call" where
  "pre_appOf E P args =
     bindM (lift (argAddress args 0)) (\<lambda>c.
     bindM (gets (\<lambda>s. AppOfContract E s c)) (\<lambda>a.
     case a of
       None \<Rightarrow> outputs P ''appOf'' [VUint64 0, VBool False]
     | Some x \<Rightarrow> outputs P ''appOf'' [VUint64 (app_AppId x), VBool True]))"

section \<open>Revenue and credits\<close>

definition pre_claim :: "'x env \<Rightarrow> 'x precompile_env \<Rightarrow> abi_val list \<Rightarrow> ('x, byte list) call" where
  "pre_claim E P args =
     bindM (lift (argUint64 args 0)) (\<lambda>i.
     bindM (lift (argAddress args 1)) (\<lambda>token.
     bindM (denomOfToken E P token) (\<lambda>d.
     bindM (GetApp i) (\<lambda>a.
     bindM (ClaimRevenue E i [d]) (\<lambda>claimed.
     let amt = AmountOf claimed d in
     bindM (AccAddressFromBech32 E (app_RevenueRecipient a)) (\<lambda>recipient.
     seqM (emit_log P ''RevenueClaimed'' [VUint64 i, VAddress (BytesToAddress E recipient)] [VAddress token, VBig (Some amt)])
     (outputs P ''claim'' [VBig (Some amt)])))))))"

definition pre_claimable :: "'x env \<Rightarrow> 'x precompile_env \<Rightarrow> abi_val list \<Rightarrow> ('x, byte list) call" where
  "pre_claimable E P args =
     bindM (lift (argUint64 args 0)) (\<lambda>i.
     bindM (lift (argAddress args 1)) (\<lambda>token.
     bindM (denomOfToken E P token) (\<lambda>d.
     bindM (gets (\<lambda>s. ClaimableOf s i d)) (\<lambda>n.
     outputs P ''claimable'' [VBig (Some n)]))))"

definition pre_buyCredits :: "'x env \<Rightarrow> 'x precompile_env \<Rightarrow> addr \<Rightarrow> abi_val list \<Rightarrow> ('x, byte list) call" where
  "pre_buyCredits E P caller args =
     bindM (lift (argAddress args 0)) (\<lambda>token.
     bindM (lift (argAmount args 1)) (\<lambda>amount.
     bindM (denomOfToken E P token) (\<lambda>d.
     bindM (NewCoin E d amount) (\<lambda>c.
     bindM (BuyCredits E (acc caller) (acc caller) c) (\<lambda>out.
     seqM (emit_log P ''CreditsBought'' [VAddress caller, VAddress caller]
            [VAddress token, VBig (Some amount), VBig (Some (coin_Amount out))])
     (outputs P ''buyCredits'' [VBig (Some (coin_Amount out))]))))))"

definition pre_quoteCredits :: "'x env \<Rightarrow> 'x precompile_env \<Rightarrow> abi_val list \<Rightarrow> ('x, byte list) call" where
  "pre_quoteCredits E P args =
     bindM (lift (argAddress args 0)) (\<lambda>token.
     bindM (lift (argAmount args 1)) (\<lambda>amount.
     bindM (denomOfToken E P token) (\<lambda>d.
     bindM (QuoteCredits d amount) (\<lambda>c.
     outputs P ''quoteCredits'' [VBig (Some c)]))))"

definition settleFee :: "int \<Rightarrow> fee_asset \<Rightarrow> u32 \<Rightarrow> int" where
  "settleFee amount asset feeBps = ComputeFee amount asset feeBps"

definition pre_quoteFee :: "'x env \<Rightarrow> 'x precompile_env \<Rightarrow> abi_val list \<Rightarrow> ('x, byte list) call" where
  "pre_quoteFee E P args =
     bindM (lift (argAddress args 0)) (\<lambda>token.
     bindM (lift (argAmount args 1)) (\<lambda>amount.
     bindM (denomOfToken E P token) (\<lambda>d.
     bindM (gets settle_GetParams) (\<lambda>params.
     bindM (need (Asset params d) (EPrecompile PErrNotEnabled)) (\<lambda>asset.
     seqM (check (fa_Enabled asset) (EPrecompile PErrNotEnabled))
     (let fee = settleFee amount asset (sp_FeeBps params) in
      outputs P ''quoteFee'' [VBig (Some fee), VBig (Some (amount - fee))]))))))"

definition pre_denomOf :: "'x env \<Rightarrow> 'x precompile_env \<Rightarrow> abi_val list \<Rightarrow> ('x, byte list) call" where
  "pre_denomOf E P args =
     bindM (lift (argAddress args 0)) (\<lambda>token.
     bindM (denomOfToken E P token) (\<lambda>d.
     outputs P ''denomOf'' [VString d]))"

text \<open>\<open>provenance.Bytes\<close>: the fingerprint, decoded from hexadecimal; it panics on a corrupt constant.\<close>

definition hex_value :: "char \<Rightarrow> nat option" where
  "hex_value c = (let n = of_char c in
     if 48 \<le> n \<and> n \<le> 57 then Some (n - 48)
     else if 97 \<le> n \<and> n \<le> 102 then Some (n - 87)
     else if 65 \<le> n \<and> n \<le> 70 then Some (n - 55) else None)"

fun hex_DecodeString :: "string \<Rightarrow> byte list option" where
  "hex_DecodeString [] = Some []"
| "hex_DecodeString [c] = None"
| "hex_DecodeString (c # d # cs) =
     (case (hex_value c, hex_value d, hex_DecodeString cs) of
        (Some h, Some l, Some bs) \<Rightarrow> Some (of_nat (16 * h + l) # bs)
      | _ \<Rightarrow> None)"

definition provenance_Bytes :: "err + byte list" where
  "provenance_Bytes =
     (case hex_DecodeString Fingerprint of
        None \<Rightarrow> Inl EPanic
      | Some b \<Rightarrow> if length b \<noteq> 32 then Inl EPanic else Inr b)"

definition pre_provenance :: "'x precompile_env \<Rightarrow> ('x, byte list) call" where
  "pre_provenance P = bindM (lift provenance_Bytes) (\<lambda>b. outputs P ''provenance'' [VBytes32 b])"

section \<open>Entry points\<close>

definition IsTransaction :: "string \<Rightarrow> bool" where
  "IsTransaction m \<longleftrightarrow>
     m \<in> {''pay'', ''payFrom'', ''tabPay'', ''closeTab'', ''approveApp'', ''registerApp'', ''claimRegistration'',
       ''acceptContractClaim'', ''bondApp'', ''unbondApp'', ''claim'', ''buyCredits''}"

definition dispatch :: "'x env \<Rightarrow> 'x precompile_env \<Rightarrow> addr \<Rightarrow> string \<Rightarrow> abi_val list \<Rightarrow> ('x, byte list) call" where
  "dispatch E P caller m args =
     (if m = ''pay'' then pre_pay E P caller args
      else if m = ''payFrom'' then pre_payFrom E P caller args
      else if m = ''tabPay'' then pre_tabPay E P caller args
      else if m = ''closeTab'' then pre_closeTab E P caller args
      else if m = ''approveApp'' then pre_approveApp E P caller args
      else if m = ''appAllowance'' then pre_appAllowance E P args
      else if m = ''registerApp'' then pre_registerApp E P caller args
      else if m = ''claimRegistration'' then pre_claimRegistration E P caller args
      else if m = ''acceptContractClaim'' then pre_acceptContractClaim E P caller args
      else if m = ''bondApp'' then pre_bondApp E P caller args
      else if m = ''unbondApp'' then pre_unbondApp E P caller args
      else if m = ''appBond'' then pre_appBond P args
      else if m = ''appOf'' then pre_appOf E P args
      else if m = ''claim'' then pre_claim E P args
      else if m = ''claimable'' then pre_claimable E P args
      else if m = ''buyCredits'' then pre_buyCredits E P caller args
      else if m = ''quoteCredits'' then pre_quoteCredits E P args
      else if m = ''quoteFee'' then pre_quoteFee E P args
      else if m = ''denomOf'' then pre_denomOf E P args
      else if m = ''provenance'' then pre_provenance P
      else fail (EPrecompile PErrUnknownMethod))"

definition Execute :: "'x env \<Rightarrow> 'x precompile_env \<Rightarrow> addr \<Rightarrow> byte list \<Rightarrow> bool \<Rightarrow> ('x, byte list) call" where
  "Execute E P caller input readOnly =
     bindM (lift_ext (SetupABI P input readOnly IsTransaction)) (\<lambda>(m, args). dispatch E P caller m args)"

text \<open>\<open>val\<close> is \<open>contract.Value()\<close>, nil or an amount.\<close>

definition Run :: "'x env \<Rightarrow> 'x precompile_env \<Rightarrow> addr \<Rightarrow> int option \<Rightarrow> byte list \<Rightarrow> bool \<Rightarrow> ('x, byte list) call" where
  "Run E P caller val input readOnly =
     (if (case val of None \<Rightarrow> False | Some v \<Rightarrow> 0 < v) then fail (EPrecompile PErrReverted)
      else RunNativeAction P (Execute E P caller input readOnly))"

definition RequiredGas :: "'x precompile_env \<Rightarrow> byte list \<Rightarrow> u64" where
  "RequiredGas P input =
     (if length input < 4 then 0
      else case MethodById P (take 4 input) of
        None \<Rightarrow> 0
      | Some m \<Rightarrow> BaseRequiredGas P input (IsTransaction m))"

end
