(* ===== verification/PrecompileLaws.thy ===== *)
theory PrecompileLaws
  imports Precompile SettleTheorems AppsBonds
begin

text \<open>
  What the precompile promises its callers: views change nothing, a failed call leaves no trace,
  nobody's coins move without their own call or their allowance to the calling app, the revenue of
  an app grows only through its own contracts, quotes are what a payment charges, and every call is
  a sequence of steps of \<open>x/settle\<close>, so that all its invariants hold under the precompile.
\<close>

section \<open>Views\<close>

lemma dispatch_call:
  "dispatch E P caller ''pay'' args = pre_pay E P caller args" "dispatch E P caller ''payFrom'' args = pre_payFrom E P caller args"
  "dispatch E P caller ''tabPay'' args = pre_tabPay E P caller args" "dispatch E P caller ''closeTab'' args = pre_closeTab E P caller args"
  "dispatch E P caller ''approveApp'' args = pre_approveApp E P caller args" "dispatch E P caller ''registerApp'' args = pre_registerApp E P caller args"
  "dispatch E P caller ''claimRegistration'' args = pre_claimRegistration E P caller args" "dispatch E P caller ''acceptContractClaim'' args = pre_acceptContractClaim E P caller args"
  "dispatch E P caller ''bondApp'' args = pre_bondApp E P caller args" "dispatch E P caller ''unbondApp'' args = pre_unbondApp E P caller args"
  "dispatch E P caller ''claim'' args = pre_claim E P args" "dispatch E P caller ''buyCredits'' args = pre_buyCredits E P caller args"
  by (simp_all add: dispatch_def)

lemma keepsR_NewCoin [keepsR_intros]: "keepsR I (NewCoin E d n)"
  unfolding NewCoin_def by (intro keepsR_intros)

lemma keepsR_reads [keepsR_intros]:
  "keepsR I (denomOfToken E P token)" "keepsR I (appOfCaller E c)" "keepsR I (outputs P m vs)" "keepsR I (topics P vs)"
  unfolding denomOfToken_def appOfCaller_def outputs_def
  by (intro keepsR_intros)+ (induction vs, simp_all add: keepsR_pure, intro keepsR_intros)

lemma keeps_reads [keeps_intros]:
  "keeps I (denomOfToken E P token)" "keeps I (outputs P m vs)" "keeps I (QuoteCredits d n)"
  unfolding denomOfToken_def outputs_def QuoteCredits_def by (intro keeps_intros)+

lemma views_keep:
  assumes "\<not> IsTransaction m"
  shows "keeps I (dispatch E P caller m args)"
proof -
  have "keeps I (pre_appAllowance E P args)" "keeps I (pre_appBond P args)" "keeps I (pre_appOf E P args)"
    "keeps I (pre_claimable E P args)" "keeps I (pre_quoteCredits E P args)" "keeps I (pre_quoteFee E P args)"
    "keeps I (pre_denomOf E P args)" "keeps I (pre_provenance P)"
    unfolding pre_appAllowance_def pre_appBond_def pre_appOf_def pre_claimable_def pre_quoteCredits_def pre_quoteFee_def
      pre_denomOf_def pre_provenance_def Let_def
    by (intro keeps_intros)+
  with assms show ?thesis by (simp add: dispatch_def IsTransaction_def keeps_fail)
qed

text \<open>
  Views change nothing. A call whose name \<open>IsTransaction\<close> does not list - the eight views and
  every unknown name - leaves the whole chain state as it is, whether it returns or fails.
\<close>

theorem views_change_nothing:
  assumes "\<not> IsTransaction m" "dispatch E P caller m args s = (r, t)"
  shows "t = s"
  using keepsD [OF views_keep [OF assms(1)], of "\<lambda>u. u = s"] assms(2) by blast

section \<open>Whose coins move\<close>

text \<open>
  Documented behaviour: the bank refuses to send coins with a negative amount; writing an EVM log
  moves no coins.
\<close>

definition bank_valid :: "'x env \<Rightarrow> bool" where
  "bank_valid E \<longleftrightarrow> (\<forall>m to cs x y. BankM2A E m to cs x = Inr y \<longrightarrow> (\<forall>d. 0 \<le> AmountOf cs d))"

definition log_laws :: "'x env \<Rightarrow> 'x precompile_env \<Rightarrow> bool" where
  "log_laws E P \<longleftrightarrow>
     (\<forall>l x. BankBalance E (AddLog P l x) = BankBalance E x \<and> BankSupply E (AddLog P l x) = BankSupply E x)"

text \<open>\<open>holds E a d b\<close>: the account \<open>a\<close>, which is not the module's own, has at least \<open>b\<close> of \<open>d\<close>.\<close>

definition holds :: "'x env \<Rightarrow> addr \<Rightarrow> denom \<Rightarrow> int \<Rightarrow> 'x chain \<Rightarrow> bool" where
  "holds E a d b s \<longleftrightarrow>
     (bank_laws E \<and> bank_valid E \<and> a \<noteq> moduleAddr E \<and> a \<noteq> ModuleAddress E ''apps'' \<longrightarrow> b \<le> BankBalance E (ext s) a d)"

lemma holds_same: "BankBalance E (ext t) = BankBalance E (ext s) \<Longrightarrow> holds E a d b s \<Longrightarrow> holds E a d b t"
  by (simp add: holds_def)

lemma holds_sent:
  assumes "holds E a d b s" "BankM2A E m to cs (ext s) = Inr x" "m = settle_module \<or> m = ''apps''"
  shows "holds E a d b (s\<lparr>ext := x\<rparr>)"
proof -
  have "b \<le> BankBalance E x a d" if l: "bank_laws E" "bank_valid E" "a \<noteq> moduleAddr E" "a \<noteq> ModuleAddress E ''apps''"
  proof -
    have "0 \<le> AmountOf cs d" using l(2) assms(2) unfolding bank_valid_def by blast
    moreover have "b \<le> BankBalance E (ext s) a d" using assms(1) l by (simp add: holds_def)
    ultimately show ?thesis
      using bank_M2A(2) [OF l(1) assms(2), of a d] l(3,4) assms(3) by (auto simp: moved_def moduleAddr_def)
  qed
  then show ?thesis by (simp add: holds_def)
qed

lemma holds_pulled:
  assumes "holds E a d b s" "BankA2M E p m cs (ext s) = Inr x" "p \<noteq> a" "m = settle_module \<or> m = ''apps''"
  shows "holds E a d b (s\<lparr>ext := x\<rparr>)"
proof -
  have "b \<le> BankBalance E x a d" if l: "bank_laws E" "bank_valid E" "a \<noteq> moduleAddr E" "a \<noteq> ModuleAddress E ''apps''"
    using bank_A2M(1) [OF l(1) assms(2), of a d] l(3,4) assms by (auto simp: moved_def moduleAddr_def holds_def l)
  then show ?thesis by (simp add: holds_def)
qed

lemma holds_minted:
  assumes "holds E a d b s" "BankMint E m cs (ext s) = Inr x" "m = settle_module \<or> m = ''apps''"
  shows "holds E a d b (s\<lparr>ext := x\<rparr>)"
proof -
  have "b \<le> BankBalance E x a d" if l: "bank_laws E" "bank_valid E" "a \<noteq> moduleAddr E" "a \<noteq> ModuleAddress E ''apps''"
    using bank_Mint(1) [OF l(1) assms(2), of a d] l(3,4) assms by (auto simp: moduleAddr_def holds_def l)
  then show ?thesis by (simp add: holds_def)
qed

lemma holds_burnt:
  assumes "holds E a d b s" "BankBurn E m cs (ext s) = Inr x" "m = settle_module \<or> m = ''apps''"
  shows "holds E a d b (s\<lparr>ext := x\<rparr>)"
proof -
  have "b \<le> BankBalance E x a d" if l: "bank_laws E" "bank_valid E" "a \<noteq> moduleAddr E" "a \<noteq> ModuleAddress E ''apps''"
    using bank_Burn(1) [OF l(1) assms(2), of a d] l(3,4) assms by (auto simp: moduleAddr_def holds_def l)
  then show ?thesis by (simp add: holds_def)
qed

lemma holds_updates [simp]:
  "holds E a d b (s\<lparr>settle := c\<rparr>) = holds E a d b s" "holds E a d b (s\<lparr>apps := e\<rparr>) = holds E a d b s"
  "holds E a d b (s\<lparr>events := v\<rparr>) = holds E a d b s"
  by (simp_all add: holds_def)

lemma keepsR_holds_settle: "keepsR (holds E a d b) (on_settle f)"
  by (rule keepsR_modify) simp

lemma keepsR_addInt: "keepsR (holds E a d b) (addInt fld upd k n)"
  unfolding addInt_def Let_def by (intro keepsR_intros keepsR_holds_settle)

interpretation owner: settle_debits_tabs E "holds E a d b" "\<lambda>p. p \<noteq> a" for E :: "'x env" and a d b
proof unfold_locales
  show "p \<noteq> a \<Longrightarrow> holds E a d b s \<Longrightarrow> BankA2M E p settle_module cs (ext s) = Inr x \<Longrightarrow> holds E a d b (s\<lparr>ext := x\<rparr>)"
    for p s cs x by (rule holds_pulled) auto
  show "holds E a d b s \<Longrightarrow> BankM2A E settle_module p cs (ext s) = Inr x \<Longrightarrow> holds E a d b (s\<lparr>ext := x\<rparr>)" for p s cs x
    by (rule holds_sent) auto
  show "holds E a d b s \<Longrightarrow> RecordSettlement E i p w s = (Inr u, t) \<Longrightarrow> holds E a d b t" for i p w s u t
    by (auto dest!: RecordSettlement_apps)
  show "keepsR (holds E a d b) (mintCredits E p n)" for p n
    unfolding mintCredits_def
    by (intro keepsR_intros keepsR_callx keepsR_holds_settle) (auto simp: NewCoins_def intro: keepsR_intros holds_minted holds_sent)
qed (auto simp: ledger_def addPool_def addClaimable_def addTotals_def
    intro!: keepsR_intros keepsR_addInt keepsR_holds_settle keepsR_modify)

lemma holds_registry:
  "keepsR (holds E a d b) (setBinding c i p)" "keepsR (holds E a d b) (bindContract c i p)"
  "keepsR (holds E a d b) (AcceptContractClaim E ow i c)" "keepsR (holds E a d b) (ClaimRegistration E x i)"
  "keepsR (holds E a d b) (UnbondApp E ow i am)"
  unfolding setBinding_def bindContract_def AcceptContractClaim_def ClaimRegistration_def UnbondApp_def ownedApp_def GetApp_def
    put_app_def emit_def Let_def
  by (intro keepsR_intros keepsR_modify; simp)+

lemma holds_ApproveApp: "keepsR (holds E a d b) (ApproveApp E x i d' n)"
  unfolding ApproveApp_def GetApp_def emit_def Let_def by (intro keepsR_intros keepsR_modify; simp)

lemma holds_RegisterApp: "owner \<noteq> a \<Longrightarrow> keepsR (holds E a d b) (RegisterApp E owner rec uri dm bps)"
  unfolding RegisterApp_def NextID_def put_app_def emit_def Let_def
  by (intro keepsR_intros keepsR_callx keepsR_modify)
    (auto intro: holds_pulled holds_burnt)

lemma holds_BondApp: "AccFromBech32 E ow \<noteq> Some a \<Longrightarrow> keepsR (holds E a d b) (BondApp E ow i c)"
  by (rule keepsRI, drule BondApp_Inr) (elim exE conjE, simp, rule holds_pulled, auto)

lemma holds_log: "log_laws E P \<Longrightarrow> keepsR (holds E a d b) (emit_log P event indexed data)"
  unfolding emit_log_def by (intro keepsR_intros keepsR_modify) (auto simp: log_laws_def holds_def)

lemma holds_settled: "log_laws E P \<Longrightarrow> keepsR (holds E a d b) (emitSettled P res p q tk rf n)"
  unfolding emitSettled_def by (rule holds_log)

lemmas holds_steps = keepsR_intros holds_log holds_settled holds_registry owner.keepsR_CloseTab owner.keepsR_ClaimRevenue
  owner.keepsR_QuoteCredits owner.keepsR_GetApp holds_ApproveApp keepsR_bech32

text \<open>Calls that only the caller pays for.\<close>

lemma caller_pays:
  assumes "log_laws E P" "is_account E caller" "a \<noteq> caller" "m \<noteq> ''payFrom''" "m \<noteq> ''tabPay''"
  shows "keepsR (holds E a d b) (dispatch E P caller m args)"
proof -
  note l = assms(1)
  have ne: "caller \<noteq> a" "AccFromBech32 E (AccString E (acc caller)) \<noteq> Some a"
    using assms(2,3) by (auto simp: is_account_def acc_def)
  have bargs: "keepsR (holds E a d b) (bondArgs E P args)" unfolding bondArgs_def by (intro keepsR_intros)
  have 1: "keepsR (holds E a d b) (pre_pay E P caller args)"
    unfolding pre_pay_def by (intro holds_steps l owner.debit_Pay) (use ne in \<open>simp_all add: acc_def\<close>)
  have 2: "keepsR (holds E a d b) (pre_closeTab E P caller args)" "keepsR (holds E a d b) (pre_approveApp E P caller args)"
    "keepsR (holds E a d b) (pre_claimRegistration E P caller args)"
    "keepsR (holds E a d b) (pre_acceptContractClaim E P caller args)" "keepsR (holds E a d b) (pre_unbondApp E P caller args)"
    "keepsR (holds E a d b) (pre_claim E P args)"
    unfolding pre_closeTab_def pre_approveApp_def pre_claimRegistration_def pre_acceptContractClaim_def pre_unbondApp_def
      pre_claim_def Let_def
    by (intro holds_steps l bargs)+
  have 3: "keepsR (holds E a d b) (pre_registerApp E P caller args)"
    unfolding pre_registerApp_def Let_def by (intro holds_steps l holds_RegisterApp) (use ne in \<open>simp_all add: acc_def\<close>)
  have 4: "keepsR (holds E a d b) (pre_bondApp E P caller args)"
    unfolding pre_bondApp_def by (intro holds_steps l bargs holds_BondApp) (use ne in simp)
  have 5: "keepsR (holds E a d b) (pre_buyCredits E P caller args)"
    unfolding pre_buyCredits_def by (intro holds_steps l owner.debit_BuyCredits) (use ne in \<open>simp add: acc_def\<close>)
  show ?thesis
  proof (cases "IsTransaction m")
    case True
    then show ?thesis
      unfolding IsTransaction_def by (elim insertE emptyE; simp only: dispatch_call; use 1 2 3 4 5 assms(4,5) in simp)
  next
    case False
    then show ?thesis by (rule keeps_keepsR [OF views_keep])
  qed
qed

section \<open>Calls that spend an allowance\<close>

definition token_denom :: "'x env \<Rightarrow> 'x precompile_env \<Rightarrow> 'x chain \<Rightarrow> addr \<Rightarrow> denom option" where
  "token_denom E P s token =
     (let pid = GetTokenPairID P (ext s) (AddressHex E token)
      in if pid = [] then None
         else (case GetTokenPair P (ext s) pid of
                 None \<Rightarrow> None
               | Some pair \<Rightarrow> if tp_Enabled pair \<and> tp_IsNativeCoin pair then Some (tp_Denom pair) else None))"

lemma denomOfToken_Inr [run_simps]: "denomOfToken E P token s = (Inr d, t) \<longleftrightarrow> token_denom E P s token = Some d \<and> t = s"
  by (auto simp: denomOfToken_def token_denom_def run_simps)

lemma pre_simps [run_simps]:
  "appOfCaller E c s = (r, t) \<longleftrightarrow> r = Inr (AppOfContract E s c) \<and> t = s"
  "NewCoin E d n s = (Inr cn, t) \<longleftrightarrow> 0 \<le> n \<and> ValidDenom E d \<and> cn = \<lparr>coin_Denom = d, coin_Amount = n\<rparr> \<and> t = s"
  "outputs P m vs s = (Inr out, t) \<longleftrightarrow> PackOutputs P m vs = Inr out \<and> t = s"
  by (auto simp: appOfCaller_def NewCoin_def outputs_def run_simps map_sum_def split: sum.splits)

text \<open>\<open>allowed_spend\<close>: the caller may take \<open>n\<close> of \<open>d\<close> from \<open>payer\<close> in the name of \<open>a\<close>.\<close>

definition allowed_spend :: "'x env \<Rightarrow> addr \<Rightarrow> addr \<Rightarrow> app option \<Rightarrow> denom \<Rightarrow> int \<Rightarrow> 'x chain \<Rightarrow> 'x chain \<Rightarrow> bool" where
  "allowed_spend E caller payer a d n s u \<longleftrightarrow>
     (if payer = caller then u = s
      else \<exists>x. a = Some x \<and> SpendAllowance E payer (app_AppId x) d n s = (Inr (), u))"

lemma allowed_run:
  "whenM (payer \<noteq> caller) (SpendAllowance E payer (app_AppId a) d n) s = (Inr (), u) \<longleftrightarrow> allowed_spend E caller payer (Some a) d n s u"
  "(if payer \<noteq> caller then bindM (need b e) (\<lambda>x. SpendAllowance E payer (app_AppId x) d n) else ret ()) s = (Inr (), u) \<longleftrightarrow>
     allowed_spend E caller payer b d n s u"
  by (auto simp: allowed_spend_def run_simps)

lemma lift_Inr: "lift r s = (Inr x, t) \<longleftrightarrow> r = Inr x \<and> t = s"
  by auto

lemmas pre_run = bindM_Inr seqM_Inr lift_Inr need_Inr pre_simps denomOfToken_Inr acc_def allowed_run

lemma pay_Inr:
  assumes "pre_pay E P caller args s = (Inr out, t)"
  obtains token n payee d rf res v where
    "argAddress args 0 = Inr token" "token_denom E P s token = Some d" "argAmount args 1 = Inr n" "argAddress args 2 = Inr payee"
    "Pay E \<lparr>rq_Payer = caller, rq_Payee = payee, rq_Amount = \<lparr>coin_Denom = d, coin_Amount = n\<rparr>, rq_App = AppOfContract E s caller,
       rq_Referrer = (if rf \<noteq> zero_address then rf else []), rq_FundsInModule = False\<rparr> s = (Inr res, v)"
    "emitSettled P res caller payee token rf n v = (Inr (), t)"
    "PackOutputs P ''pay'' [VBig (Some (res_Fee res)), VBig (Some (res_Net res))] = Inr out"
  using assms unfolding pre_pay_def pre_run by clarify (rule that; assumption)

lemma payFrom_Inr:
  assumes "pre_payFrom E P caller args s = (Inr out, t)"
  obtains payer token n payee rf d a u c res v where
    "argAddress args 0 = Inr payer" "argAddress args 1 = Inr token" "token_denom E P s token = Some d" "argAmount args 2 = Inr n"
    "argAddress args 3 = Inr payee"
    "AppOfContract E s caller = Some a" "allowed_spend E caller payer (Some a) d n s u"
    "Pay E \<lparr>rq_Payer = payer, rq_Payee = payee, rq_Amount = \<lparr>coin_Denom = d, coin_Amount = n\<rparr>, rq_App = Some a,
       rq_Referrer = rf, rq_FundsInModule = False\<rparr> u = (Inr res, v)"
    "emitSettled P res payer payee token c n v = (Inr (), t)"
    "PackOutputs P ''payFrom'' [VBig (Some (res_Fee res)), VBig (Some (res_Net res))] = Inr out"
  using assms unfolding pre_payFrom_def pre_run by clarify (rule that; assumption)

lemma tabPay_Inr:
  assumes "pre_tabPay E P caller args s = (Inr out, t)"
  obtains payer token n payee d u settled res v w where
    "argAddress args 0 = Inr payer" "argAddress args 1 = Inr token" "token_denom E P s token = Some d" "argAmount args 2 = Inr n"
    "argAddress args 3 = Inr payee"
    "allowed_spend E caller payer (AppOfContract E s caller) d n s u"
    "TabDeposit E (AppOfContract E s caller) payer payee \<lparr>coin_Denom = d, coin_Amount = n\<rparr> True u = (Inr (settled, res), v)"
    "emit_log P ''TabDeposited'' [VUint64 (case AppOfContract E s caller of None \<Rightarrow> 0 | Some x \<Rightarrow> app_AppId x), VAddress payer, VAddress payee]
       [VAddress token, VBig (Some n), VBool settled] v = (Inr (), w)"
    "whenM settled (emitSettled P res payer payee token zero_address (res_Fee res + res_Net res)) w = (Inr (), t)"
  using assms unfolding pre_tabPay_def Let_def pre_run case_prod_beta
  apply clarify
  apply (unfold fst_conv snd_conv)
  by (rule that)

text \<open>What a payment can take from its payer, and that it leaves allowances alone.\<close>

lemma holds_now: "BankBalance E (ext s) a d = b \<Longrightarrow> holds E a d b s"
  by (simp add: holds_def)

lemma holdsD:
  "holds E a d b s \<Longrightarrow> bank_laws E \<Longrightarrow> bank_valid E \<Longrightarrow> a \<noteq> moduleAddr E \<Longrightarrow> a \<noteq> ModuleAddress E ''apps'' \<Longrightarrow>
   b \<le> BankBalance E (ext s) a d"
  by (simp add: holds_def)

lemma pulled:
  assumes "BankA2M E p settle_module (coins1 d' n) (ext s) = Inr x" "0 \<le> n"
  shows "holds E a d (BankBalance E (ext s) a d - (if p = a \<and> d' = d then n else 0)) (s\<lparr>ext := x\<rparr>)"
proof -
  have "BankBalance E (ext s) a d - (if p = a \<and> d' = d then n else 0) \<le> BankBalance E x a d" if "bank_laws E"
    using bank_A2M(1) [OF that assms(1), of a d] assms(2) by (simp add: moved_def split: if_splits)
  then show ?thesis by (simp add: holds_def)
qed

lemma Pay_takes:
  assumes "Pay E req s = (Inr res, t)"
  shows "holds E a d (BankBalance E (ext s) a d - (if rq_Payer req = a \<and> coin_Denom (rq_Amount req) = d
      then coin_Amount (rq_Amount req) else 0)) t"
  using assms
proof (rule Pay_Inr)
  let ?d = "coin_Denom (rq_Amount req)" and ?n = "coin_Amount (rq_Amount req)"
  fix asset x
  assume n: "0 < ?n" and x: "if rq_FundsInModule req then x = ext s
       else BankA2M E (rq_Payer req) settle_module (coins1 ?d ?n) (ext s) = Inr x"
    and run: "distribute E (settle_GetParams s) asset req (s\<lparr>ext := x\<rparr>) = (Inr res, t)"
  let ?b = "BankBalance E (ext s) a d - (if rq_Payer req = a \<and> ?d = d then ?n else 0)"
  have "holds E a d ?b (s\<lparr>ext := x\<rparr>)"
  proof (cases "rq_FundsInModule req")
    case True
    with x n show ?thesis by (simp add: holds_def)
  next
    case False
    with x n show ?thesis by (intro pulled) simp_all
  qed
  from keepsRD [OF owner.keepsR_distribute this run] show ?thesis .
qed

text \<open>The deposit into a tab is a transfer into the module and then a deposit of coins it holds.\<close>

lemma unpulled:
  "IsSettlePaused (s\<lparr>ext := x\<rparr>) d \<longleftrightarrow> IsSettlePaused s d" "settle_GetParams (s\<lparr>ext := x\<rparr>) = settle_GetParams s"
  "tab_of E i p q d (s\<lparr>ext := x\<rparr>) = tab_of E i p q d s"
  by (simp_all add: IsSettlePaused_def IsPaused_def isPauseActive_def settle_GetParams_def tab_of_def cong: option.case_cong)

lemma TabDeposit_pull:
  assumes "TabDeposit E a p q c True s = (Inr r, t)"
  obtains x where "BankA2M E p settle_module (coins1 (coin_Denom c) (coin_Amount c)) (ext s) = Inr x" "0 < coin_Amount c"
    "TabDeposit E a p q c False (s\<lparr>ext := x\<rparr>) = (Inr r, t)"
proof -
  from assms obtain x where "BankA2M E p settle_module (coins1 (coin_Denom c) (coin_Amount c)) (ext s) = Inr x" "0 < coin_Amount c"
    "TabDeposit E a p q c False (s\<lparr>ext := x\<rparr>) = (Inr r, t)"
    unfolding TabDeposit_def Let_def by (auto simp: run_simps checkAsset_def unpulled)
  then show ?thesis by (rule that)
qed

lemma TabDeposit_takes:
  assumes "TabDeposit E w p q c True s = (Inr r, t)"
  shows "holds E a d (BankBalance E (ext s) a d - (if p = a \<and> coin_Denom c = d then coin_Amount c else 0)) t"
  using assms
proof (rule TabDeposit_pull)
  fix x assume x: "BankA2M E p settle_module (coins1 (coin_Denom c) (coin_Amount c)) (ext s) = Inr x" "0 < coin_Amount c"
    and run: "TabDeposit E w p q c False (s\<lparr>ext := x\<rparr>) = (Inr r, t)"
  have "keepsR (holds E a d b) (TabDeposit E w p q c False)" for b by (rule owner.debit_TabDeposit) simp
  from keepsRD [OF this pulled [OF x(1) less_imp_le [OF x(2)]] run] show ?thesis .
qed

text \<open>Payments and deposits leave every allowance as it is.\<close>

interpretation allowances: settle_debits_tabs E "\<lambda>s. Allowances (settle s) = A" "\<lambda>_. True" for E :: "'x env" and A
proof unfold_locales
  show "keepsR (\<lambda>s. Allowances (settle s) = A) (mintCredits E p n)" for p n
    by (rule keepsRI, erule mintCredits_Inr) simp
  show "Allowances (settle s) = A \<Longrightarrow> RecordSettlement E i p w s = (Inr u, t) \<Longrightarrow> Allowances (settle t) = A" for i p w u and s t :: "'x chain"
    by (auto dest!: RecordSettlement_apps)
qed (auto simp: ledger_Inr addPool_def addClaimable_def addTotals_def addInt_Inr run_simps intro!: keepsRI split: if_splits)

lemma topics_same: "topics P vs s = (Inr ts, u) \<Longrightarrow> u = s"
  by (induction vs arbitrary: ts) (auto simp: run_simps)

lemma log_frame: "emit_log P ev ix dt s = (Inr (), t) \<Longrightarrow> \<exists>l. t = s\<lparr>ext := AddLog P l (ext s)\<rparr>"
  by (auto simp: emit_log_def run_simps dest!: topics_same)

lemma spend_covers:
  assumes "allowed_spend E caller p (Some x) d n s u" "p \<noteq> caller" "0 \<le> n"
  shows "n \<le> Allowance s (AccString E p) (app_AppId x) d" "ext u = ext s"
    "Allowance s (AccString E p) (app_AppId x) d < MaxAllowance \<Longrightarrow>
       Allowance u (AccString E p) (app_AppId x) d = Allowance s (AccString E p) (app_AppId x) d - n"
proof -
  from assms(1,2) have r: "SpendAllowance E p (app_AppId x) d n s = (Inr (), u)" by (simp add: allowed_spend_def)
  from spend_balance(1) [OF r] show "n \<le> Allowance s (AccString E p) (app_AppId x) d" by simp
  from r show "ext u = ext s" by (auto simp: SpendAllowance_run Let_def split: if_splits)
  show "Allowance u (AccString E p) (app_AppId x) d = Allowance s (AccString E p) (app_AppId x) d - n"
    if "Allowance s (AccString E p) (app_AppId x) d < MaxAllowance"
    using spend_balance(2) [OF r] that by simp
qed

text \<open>What \<open>payFrom\<close> and \<open>tabPay\<close> can do to an account that did not make the call.\<close>

definition spent_by :: "'x env \<Rightarrow> addr \<Rightarrow> addr \<Rightarrow> denom \<Rightarrow> 'x chain \<Rightarrow> 'x chain \<Rightarrow> bool" where
  "spent_by E caller a d s t \<longleftrightarrow>
     (\<exists>x n. AppOfContract E s caller = Some x \<and> BankBalance E (ext s) a d - n \<le> BankBalance E (ext t) a d \<and>
        n \<le> Allowance s (AccString E a) (app_AppId x) d \<and>
        (Allowance s (AccString E a) (app_AppId x) d < MaxAllowance \<longrightarrow>
           Allowance t (AccString E a) (app_AppId x) d = Allowance s (AccString E a) (app_AppId x) d - n))"

lemma argAmount_nonneg: "argAmount args i = Inr n \<Longrightarrow> 0 \<le> n"
  by (auto simp: argAmount_def argUint_def split: sum.splits if_splits abi_val.splits option.splits)

lemma Allowance_cong: "Allowances (settle t) = Allowances (settle s) \<Longrightarrow> Allowance t w i d = Allowance s w i d"
  by (simp add: Allowance_def)

lemma payFrom_spends:
  assumes laws: "bank_laws E" "bank_valid E" "log_laws E P" and a: "a \<noteq> moduleAddr E" "a \<noteq> ModuleAddress E ''apps''" "a \<noteq> caller"
    and run: "pre_payFrom E P caller args s = (Inr out, t)" and loss: "BankBalance E (ext t) a d < BankBalance E (ext s) a d"
  shows "argAddress args 0 = Inr a \<and> spent_by E caller a d s t"
  using run
proof (rule payFrom_Inr)
  fix p tk n q rf d' x u c res v
  assume p: "argAddress args 0 = Inr p" "argAmount args 2 = Inr n" and x: "AppOfContract E s caller = Some x"
    and u: "allowed_spend E caller p (Some x) d' n s u"
    and pay: "Pay E \<lparr>rq_Payer = p, rq_Payee = q, rq_Amount = \<lparr>coin_Denom = d', coin_Amount = n\<rparr>, rq_App = Some x,
       rq_Referrer = rf, rq_FundsInModule = False\<rparr> u = (Inr res, v)"
    and e: "emitSettled P res p q tk c n v = (Inr (), t)"
  from e obtain l where t: "t = v\<lparr>ext := AddLog P l (ext v)\<rparr>" by (auto simp: emitSettled_def dest: log_frame)
  have ext: "ext u = ext s" using u by (auto simp: allowed_spend_def SpendAllowance_run Let_def split: if_splits)
  have bal: "BankBalance E (ext s) a d - (if p = a \<and> d' = d then n else 0) \<le> BankBalance E (ext t) a d"
    using holdsD [OF Pay_takes [OF pay, of a d] laws(1,2) a(1,2)] laws(3) by (auto simp: t ext log_laws_def split: if_splits)
  with loss have pa: "p = a" "d' = d" by (auto split: if_splits)
  have "Allowances (settle t) = Allowances (settle u)"
    using keepsRD [OF allowances.debit_Pay [OF TrueI] refl pay] by (simp add: t)
  from Allowance_cong [OF this] have al: "Allowance t w i e = Allowance u w i e" for w i e .
  have u': "allowed_spend E caller a (Some x) d n s u" using u pa x by simp
  have "spent_by E caller a d s t"
    unfolding spent_by_def al
    by (intro exI [of _ x] exI [of _ n] conjI impI spend_covers [OF u' a(3) argAmount_nonneg [OF p(2)]])
      (use x bal pa in simp_all)
  with p pa show ?thesis by simp
qed

lemma tabPay_spends:
  assumes laws: "bank_laws E" "bank_valid E" "log_laws E P" and a: "a \<noteq> moduleAddr E" "a \<noteq> ModuleAddress E ''apps''" "a \<noteq> caller"
    and run: "pre_tabPay E P caller args s = (Inr out, t)" and loss: "BankBalance E (ext t) a d < BankBalance E (ext s) a d"
  shows "argAddress args 0 = Inr a \<and> spent_by E caller a d s t"
  using run
proof (rule tabPay_Inr)
  fix p tk n q d' u settled res v w
  assume p: "argAddress args 0 = Inr p" "argAmount args 2 = Inr n"
    and u: "allowed_spend E caller p (AppOfContract E s caller) d' n s u"
    and dep: "TabDeposit E (AppOfContract E s caller) p q \<lparr>coin_Denom = d', coin_Amount = n\<rparr> True u = (Inr (settled, res), v)"
    and e: "emit_log P ''TabDeposited'' [VUint64 (case AppOfContract E s caller of None \<Rightarrow> 0 | Some x \<Rightarrow> app_AppId x), VAddress p, VAddress q]
       [VAddress tk, VBig (Some n), VBool settled] v = (Inr (), w)"
      "whenM settled (emitSettled P res p q tk zero_address (res_Fee res + res_Net res)) w = (Inr (), t)"
  from log_frame [OF e(1)] obtain l where w: "w = v\<lparr>ext := AddLog P l (ext v)\<rparr>" by blast
  from e(2) have t: "t = w \<or> (\<exists>l. t = w\<lparr>ext := AddLog P l (ext w)\<rparr>)"
    by (auto simp: emitSettled_def whenM_def dest: log_frame split: if_splits)
  have ext: "ext u = ext s" using u by (auto simp: allowed_spend_def SpendAllowance_run Let_def split: if_splits)
  have bal: "BankBalance E (ext s) a d - (if p = a \<and> d' = d then n else 0) \<le> BankBalance E (ext t) a d"
    using holdsD [OF TabDeposit_takes [OF dep, of a d] laws(1,2) a(1,2)] laws(3) t w by (auto simp: ext log_laws_def)
  with loss have pa: "p = a" "d' = d" by (auto split: if_splits)
  from u pa a(3) obtain x where x: "AppOfContract E s caller = Some x" by (auto simp: allowed_spend_def)
  have "Allowances (settle t) = Allowances (settle u)"
    using keepsRD [OF allowances.debit_TabDeposit [OF TrueI] refl dep] t w by auto
  from Allowance_cong [OF this] have al: "Allowance t w i e = Allowance u w i e" for w i e .
  have u': "allowed_spend E caller a (Some x) d n s u" using u pa x by simp
  have "spent_by E caller a d s t"
    unfolding spent_by_def al
    by (intro exI [of _ x] exI [of _ n] conjI impI spend_covers [OF u' a(3) argAmount_nonneg [OF p(2)]])
      (use x bal pa in simp_all)
  with p pa show ?thesis by simp
qed

text \<open>
  C5. Nobody's coins move without them. When a call of the precompile by \<open>caller\<close> lowers the balance of
  an account that is neither the caller nor a module account, in any denom, then the call is
  \<open>payFrom\<close> or \<open>tabPay\<close> with that account as payer, the caller is a contract of an active app, what
  the account lost is within the allowance the account gave that very app for that denom, and a
  finite allowance is lowered by at least as much.
\<close>

theorem precompile_no_theft:
  assumes "bank_laws E" "bank_valid E" "log_laws E P" "is_account E caller"
    and "a \<noteq> caller" "a \<noteq> moduleAddr E" "a \<noteq> ModuleAddress E ''apps''"
    and run: "dispatch E P caller m args s = (Inr out, t)" and loss: "BankBalance E (ext t) a d < BankBalance E (ext s) a d"
  shows "(m = ''payFrom'' \<or> m = ''tabPay'') \<and> argAddress args 0 = Inr a \<and> spent_by E caller a d s t"
proof -
  have "m = ''payFrom'' \<or> m = ''tabPay''"
  proof (rule ccontr)
    assume "\<not> (m = ''payFrom'' \<or> m = ''tabPay'')"
    then have "keepsR (holds E a d (BankBalance E (ext s) a d)) (dispatch E P caller m args)"
      by (intro caller_pays [OF assms(3,4,5)]) simp_all
    from keepsRD [OF this holds_now [OF refl] run] have "holds E a d (BankBalance E (ext s) a d) t" .
    from holdsD [OF this assms(1,2,6,7)] loss show False by simp
  qed
  moreover have "argAddress args 0 = Inr a \<and> spent_by E caller a d s t" if "m = ''payFrom''"
    using payFrom_spends [OF assms(1-3,6,7,5) _ loss] run that by (simp add: dispatch_call)
  moreover have "argAddress args 0 = Inr a \<and> spent_by E caller a d s t" if "m = ''tabPay''"
    using tabPay_spends [OF assms(1-3,6,7,5) _ loss] run that by (simp add: dispatch_call)
  ultimately show ?thesis by blast
qed

section \<open>Who earns\<close>

text \<open>The revenue of an app in a denom and its statistics of an epoch.\<close>

definition earns :: "u64 \<Rightarrow> denom \<Rightarrow> u64 \<Rightarrow> int \<Rightarrow> epoch_stats option \<Rightarrow> 'x chain \<Rightarrow> bool" where
  "earns j d e c v s \<longleftrightarrow> ClaimableOf s j d = c \<and> fmlookup (EpochStats (apps s)) (e, j) = v"

lemma earns_updates [simp]:
  "earns j d e c v (s\<lparr>ext := x\<rparr>) = earns j d e c v s" "earns j d e c v (s\<lparr>events := ev\<rparr>) = earns j d e c v s"
  by (simp_all add: earns_def ClaimableOf_def)

lemma earns_settle:
  "Claimables (f (settle s)) = Claimables (settle s) \<Longrightarrow> earns j d e c v (s\<lparr>settle := f (settle s)\<rparr>) = earns j d e c v s"
  by (simp add: earns_def ClaimableOf_def)

lemma earns_callx: "keepsR (earns j d e c v) (callx f)"
  by (rule keepsR_callx) simp

lemma earns_ledger: "keepsR (earns j d e c v) (ledger d' n)" "keepsR (earns j d e c v) (addPool pl d' n)"
  by (auto intro!: keepsRI simp: ledger_Inr addPool_def run_simps addInt_Inr earns_def ClaimableOf_def split: if_splits)

lemma earns_claimable: "i \<noteq> j \<or> n = 0 \<Longrightarrow> keepsR (earns j d e c v) (addClaimable i d' n)"
  by (auto intro!: keepsRI simp: addClaimable_def run_simps addInt_Inr ledger_Inr earns_def ClaimableOf_def split: if_splits)

lemma earns_record: "i \<noteq> j \<Longrightarrow> keepsR (earns j d e c v) (RecordSettlement E i p w)"
  by (auto intro!: keepsRI simp: RecordSettlement_def run_simps earns_def ClaimableOf_def Let_def split: if_splits prod.splits)

lemma earns_totals: "keepsR (earns j d e c v) (addTotals d' n f)"
  by (auto intro!: keepsRI simp: addTotals_def run_simps earns_def ClaimableOf_def)

lemma earns_emit: "keepsR (earns j d e c v) (emit ev)"
  by (rule keepsRI) simp

lemma earns_coins: "keepsR (earns j d e c v) (NewCoins E d' n)"
  unfolding NewCoins_def by (intro keepsR_intros)

lemmas earns_steps = keepsR_intros earns_callx earns_ledger earns_totals earns_emit earns_coins

lemma no_app_share: "sr_App (ComputeSplit fee spl False r b) = 0"
  by (simp add: ComputeSplit_def Let_def)

lemma earns_distribute:
  assumes "\<And>x. rq_App req = Some x \<Longrightarrow> app_AppId x \<noteq> j"
  shows "keepsR (earns j d e c v) (distribute E ps asset req)"
proof (cases "rq_App req")
  case None
  then show ?thesis
    unfolding distribute_def Let_def
    by (intro earns_steps earns_claimable) (simp_all add: no_app_share)
next
  case (Some x)
  then have "app_AppId x \<noteq> j" by (rule assms)
  with Some show ?thesis
    unfolding distribute_def Let_def
    by (intro earns_steps earns_claimable earns_record) simp_all
qed

lemma earns_Pay:
  assumes "\<And>x. rq_App req = Some x \<Longrightarrow> app_AppId x \<noteq> j"
  shows "keepsR (earns j d e c v) (Pay E req)"
  unfolding Pay_def checkAsset_def by (intro earns_steps earns_distribute assms)

lemma TabDeposit_inner:
  assumes "TabDeposit E a p q cn False s = (Inr (b, res), t)"
  defines "i \<equiv> (case a of None \<Rightarrow> 0 | Some x \<Rightarrow> app_AppId x)"
  obtains u where "ledger (coin_Denom cn) (coin_Amount cn) s = (Inr (), u)"
    "settleTab E (TabKey E i p q (coin_Denom cn)) (tab_add (tab_of E i p q (coin_Denom cn) s) (coin_Amount cn)) a u = (Inr res, t) \<or>
     (\<exists>m ev. t = u\<lparr>settle := (settle u)\<lparr>Tabs := m\<rparr>, events := ev\<rparr>)"
proof -
  from assms(1) have "\<exists>u. ledger (coin_Denom cn) (coin_Amount cn) s = (Inr (), u) \<and>
    (settleTab E (TabKey E i p q (coin_Denom cn)) (tab_add (tab_of E i p q (coin_Denom cn) s) (coin_Amount cn)) a u = (Inr res, t) \<or>
     (\<exists>m ev. t = u\<lparr>settle := (settle u)\<lparr>Tabs := m\<rparr>, events := ev\<rparr>))"
    unfolding TabDeposit_def Let_def i_def [symmetric] checkAsset_def by (auto simp: run_simps split: if_splits)
  with that show ?thesis by blast
qed

lemma keepsR_bind_gets: "(\<And>s. keepsR I (f (g s))) \<Longrightarrow> keepsR I (bindM (gets g) f)"
  by (rule keepsRI) (auto simp: run_simps dest: keepsRD)

lemma earns_settleTab:
  assumes "\<And>x. a = Some x \<Longrightarrow> app_AppId x \<noteq> j" "a = None \<Longrightarrow> tab_AppId tb = NoApp"
  shows "keepsR (earns j d e c v) (settleTab E key tb a)"
proof -
  have no: "(if a = None \<and> tab_AppId tb \<noteq> NoApp then f else a) = Some x \<Longrightarrow> app_AppId x \<noteq> j" for f x
    using assms by (cases a) auto
  show ?thesis
    unfolding settleTab_def
    by (intro keepsR_bind_gets earns_steps earns_distribute keepsR_modify)
      (simp add: earns_settle, simp only: pay_request.simps, erule no)
qed

lemma earns_TabDeposit:
  assumes "text_laws E" "tabs_ok E s" "is_account E p" "is_account E q"
    and "\<And>x. a = Some x \<Longrightarrow> app_AppId x \<noteq> j" and run: "TabDeposit E a p q cn True s = (Inr (b, res), t)" and s: "earns j d e c v s"
  shows "earns j d e c v t"
  using run
proof (rule TabDeposit_pull)
  let ?i = "case a of None \<Rightarrow> 0 | Some x \<Rightarrow> app_AppId x"
  fix x assume "TabDeposit E a p q cn False (s\<lparr>ext := x\<rparr>) = (Inr (b, res), t)"
  then show ?thesis
  proof (rule TabDeposit_inner)
    let ?tb = "tab_add (tab_of E ?i p q (coin_Denom cn) (s\<lparr>ext := x\<rparr>)) (coin_Amount cn)"
    fix u assume u: "ledger (coin_Denom cn) (coin_Amount cn) (s\<lparr>ext := x\<rparr>) = (Inr (), u)"
      and t: "settleTab E (TabKey E ?i p q (coin_Denom cn)) ?tb a u = (Inr res, t) \<or>
        (\<exists>m ev. t = u\<lparr>settle := (settle u)\<lparr>Tabs := m\<rparr>, events := ev\<rparr>)"
    have eu: "earns j d e c v u" using keepsRD [OF earns_ledger(1) _ u] s by simp
    have "tab_AppId ?tb = ?i"
      using tabs_okD(2) [OF assms(1,2) _ assms(3,4), of ?i "coin_Denom cn"]
      by (simp add: tab_add_def unpulled tab_of_def split: option.split)
    then have "a = None \<Longrightarrow> tab_AppId ?tb = NoApp" by (simp add: NoApp_def)
    from earns_settleTab [of a j ?tb, OF assms(5) this] have "keepsR (earns j d e c v) (settleTab E key ?tb a)" for key .
    note k = keepsRD [OF this eu]
    from t show ?thesis by (elim disjE exE) (rule k, assumption, use eu in \<open>simp add: earns_def ClaimableOf_def\<close>)
  qed
qed

lemma argAddress_account:
  "\<forall>a. VAddress a \<in> set args \<longrightarrow> is_account E a \<Longrightarrow> argAddress args i = Inr p \<Longrightarrow> is_account E p"
  by (auto simp: argAddress_def split: if_splits abi_val.splits) (metis not_le nth_mem)

lemma log_earns: "emit_log P ev ix dt s = (Inr (), t) \<Longrightarrow> earns j d e c v t = earns j d e c v s"
  by (drule log_frame) auto

lemma spend_earns: "allowed_spend E caller p a d n s u \<Longrightarrow> earns j d' e c v u = earns j d' e c v s \<and> tabs_ok E u = tabs_ok E s"
  by (auto simp: allowed_spend_def SpendAllowance_run Let_def earns_def ClaimableOf_def tabs_ok_def split: if_splits)

text \<open>
  C12. Attribution. A payment through the precompile - \<open>pay\<close>, \<open>payFrom\<close> or \<open>tabPay\<close>, the last also when it
  settles a tab - raises or changes the revenue and the quota statistics of one app at most: the
  active app whose contract made the call. No caller can credit a payment to an app that it does not
  belong to, or take from another's record.
\<close>

theorem payment_attribution:
  assumes "text_laws E" "tabs_ok E s" "\<forall>a. VAddress a \<in> set args \<longrightarrow> is_account E a" "is_account E caller"
    and "m = ''pay'' \<or> m = ''payFrom'' \<or> m = ''tabPay''" and run: "dispatch E P caller m args s = (Inr out, t)"
    and "ClaimableOf t j d \<noteq> ClaimableOf s j d \<or> fmlookup (EpochStats (apps t)) (e, j) \<noteq> fmlookup (EpochStats (apps s)) (e, j)"
  shows "\<exists>x. AppOfContract E s caller = Some x \<and> app_AppId x = j"
proof (rule ccontr)
  assume "\<not> ?thesis"
  then have no: "AppOfContract E s caller = Some x \<Longrightarrow> app_AppId x \<noteq> j" for x by blast
  let ?I = "earns j d e (ClaimableOf s j d) (fmlookup (EpochStats (apps s)) (e, j))"
  have s: "?I s" by (simp add: earns_def)
  from assms(5) have "?I t"
  proof (elim disjE)
    assume m: "m = ''pay''"
    from run [unfolded m dispatch_call] show "?I t"
    proof (rule pay_Inr)
      fix tk n q d' rf res v
      assume pay: "Pay E \<lparr>rq_Payer = caller, rq_Payee = q, rq_Amount = \<lparr>coin_Denom = d', coin_Amount = n\<rparr>,
           rq_App = AppOfContract E s caller, rq_Referrer = (if rf \<noteq> zero_address then rf else []), rq_FundsInModule = False\<rparr> s = (Inr res, v)"
        and e: "emitSettled P res caller q tk rf n v = (Inr (), t)"
      from s have "?I v" by (rule keepsRD [OF earns_Pay _ pay, rotated 1]) (use no in simp)
      then show "?I t" using log_earns e by (metis emitSettled_def)
    qed
  next
    assume m: "m = ''payFrom''"
    from run [unfolded m dispatch_call] show "?I t"
    proof (rule payFrom_Inr)
      fix p tk n q rf d' x u c res v
      assume x: "AppOfContract E s caller = Some x" and u: "allowed_spend E caller p (Some x) d' n s u"
        and pay: "Pay E \<lparr>rq_Payer = p, rq_Payee = q, rq_Amount = \<lparr>coin_Denom = d', coin_Amount = n\<rparr>, rq_App = Some x,
           rq_Referrer = rf, rq_FundsInModule = False\<rparr> u = (Inr res, v)"
        and e: "emitSettled P res p q tk c n v = (Inr (), t)"
      have "?I u" using spend_earns [OF u] s by simp
      then have "?I v" by (rule keepsRD [OF earns_Pay _ pay, rotated 1]) (use no x in simp)
      then show "?I t" using log_earns e by (metis emitSettled_def)
    qed
  next
    assume m: "m = ''tabPay''"
    from run [unfolded m dispatch_call] show "?I t"
    proof (rule tabPay_Inr)
      fix p tk n q d' u settled res v w
      assume args: "argAddress args 0 = Inr p" "argAddress args 3 = Inr q"
        and u: "allowed_spend E caller p (AppOfContract E s caller) d' n s u"
        and dep: "TabDeposit E (AppOfContract E s caller) p q \<lparr>coin_Denom = d', coin_Amount = n\<rparr> True u = (Inr (settled, res), v)"
        and e: "emit_log P ''TabDeposited'' [VUint64 (case AppOfContract E s caller of None \<Rightarrow> 0 | Some x \<Rightarrow> app_AppId x), VAddress p, VAddress q]
           [VAddress tk, VBig (Some n), VBool settled] v = (Inr (), w)"
          "whenM settled (emitSettled P res p q tk zero_address (res_Fee res + res_Net res)) w = (Inr (), t)"
      have acc: "is_account E p" "is_account E q" using args assms(3) by (auto simp: argAddress_account)
      from spend_earns [OF u] s assms(2) have "?I u" "tabs_ok E u" by simp_all
      from earns_TabDeposit [OF assms(1) this(2) acc no dep this(1)] have "?I v" .
      with log_earns [OF e(1)] have w: "?I w" by simp
      show "?I t"
      proof (cases settled)
        case True
        with e(2) w show ?thesis by (simp add: whenM_def emitSettled_def log_earns)
      next
        case False
        with e(2) w show ?thesis by (simp add: whenM_def)
      qed
    qed
  qed
  with assms(7) show False by (simp add: earns_def)
qed

section \<open>Entry point\<close>

text \<open>
  Documented behaviour of the cosmos/evm wrapper: a native action that fails is undone with the
  snapshot of the EVM state, and a static call to a state-changing function is refused.
\<close>

definition wrapper_laws :: "'x precompile_env \<Rightarrow> bool" where
  "wrapper_laws P \<longleftrightarrow>
     RunNativeAction P = atomic \<and> (\<forall>input isTx m args. SetupABI P input True isTx = Inr (m, args) \<longrightarrow> \<not> isTx m)"

text \<open>
  C17. All or nothing. A call that carries native value is refused before anything runs; a call that
  fails leaves the chain state as it was; a static call - and with it every delegate call, which the
  EVM makes static - leaves it as it was whether it fails or not; and any other call that succeeds
  has the effect of the one function it names.
\<close>

theorem calls_are_atomic:
  assumes "wrapper_laws P"
  shows "(\<forall>v. 0 < v \<longrightarrow> Run E P caller (Some v) input ro s = (Inl (EPrecompile PErrReverted), s)) \<and>
    (\<forall>e. fst (Run E P caller val input ro s) = Inl e \<longrightarrow> snd (Run E P caller val input ro s) = s) \<and>
    snd (Run E P caller val input True s) = s \<and>
    (\<forall>out. fst (Run E P caller val input ro s) = Inr out \<longrightarrow>
       (\<exists>m args. SetupABI P input ro IsTransaction = Inr (m, args) \<and> dispatch E P caller m args s = Run E P caller val input ro s))"
proof (intro conjI allI impI)
  have at: "RunNativeAction P = atomic" using assms by (simp add: wrapper_laws_def)
  show "Run E P caller (Some v) input ro s = (Inl (EPrecompile PErrReverted), s)" if "0 < v" for v
    using that by (simp add: Run_def fail_def)
  show "snd (Run E P caller val input ro s) = s" if "fst (Run E P caller val input ro s) = Inl e" for e
    using that by (auto simp: Run_def at atomic_def fail_def split: prod.splits sum.splits if_splits)
  have "snd (Execute E P caller input True s) = s"
  proof (cases "SetupABI P input True IsTransaction")
    case (Inl n)
    then show ?thesis by (simp add: Execute_def bindM_def lift_def)
  next
    case (Inr p)
    then have "\<not> IsTransaction (fst p)" using assms unfolding wrapper_laws_def by (metis prod.collapse)
    from keepsD [OF views_keep [OF this], of "\<lambda>u. u = s" s E P caller "snd p"]
    have "snd (dispatch E P caller (fst p) (snd p) s) = s" by (metis prod.collapse)
    with Inr show ?thesis by (simp add: Execute_def bindM_def lift_def case_prod_beta)
  qed
  then show "snd (Run E P caller val input True s) = s"
    by (auto simp: Run_def at atomic_def fail_def split: prod.splits sum.splits)
  fix out assume ok: "fst (Run E P caller val input ro s) = Inr out"
  then have r: "Run E P caller val input ro s = Execute E P caller input ro s"
    by (auto simp: Run_def at atomic_def fail_def split: prod.splits sum.splits if_splits)
  with ok show "\<exists>m args. SetupABI P input ro IsTransaction = Inr (m, args) \<and> dispatch E P caller m args s = Run E P caller val input ro s"
    by (cases "SetupABI P input ro IsTransaction") (auto simp: Execute_def bindM_def lift_def split: prod.splits)
qed

section \<open>Quotes and approvals\<close>

text \<open>
  Quotes are exact. When \<open>pay\<close> succeeds, it reports the fee and the net amount that \<open>quoteFee\<close>
  computes for the same token and amount in the state before, and the quote could not have failed
  there except in encoding its result.
\<close>

theorem quote_is_exact:
  assumes "dispatch E P caller ''pay'' (VAddress token # VBig (Some n) # rest) s = (Inr out, t)"
  shows "\<exists>fee. PackOutputs P ''pay'' [VBig (Some fee), VBig (Some (n - fee))] = Inr out \<and> 0 \<le> fee \<and> fee \<le> n \<and>
    dispatch E P other ''quoteFee'' [VAddress token, VBig (Some n)] s =
      (map_sum EExternal (\<lambda>v. v) (PackOutputs P ''quoteFee'' [VBig (Some fee), VBig (Some (n - fee))]), s)"
  using assms [unfolded dispatch_call]
proof (rule pay_Inr)
  fix tk n' q d rf res v
  assume a: "argAddress (VAddress token # VBig (Some n) # rest) 0 = Inr tk" "argAmount (VAddress token # VBig (Some n) # rest) 1 = Inr n'"
    and d: "token_denom E P s tk = Some d"
    and pay: "Pay E \<lparr>rq_Payer = caller, rq_Payee = q, rq_Amount = \<lparr>coin_Denom = d, coin_Amount = n'\<rparr>,
       rq_App = AppOfContract E s caller, rq_Referrer = (if rf \<noteq> zero_address then rf else []), rq_FundsInModule = False\<rparr> s = (Inr res, v)"
    and out: "PackOutputs P ''pay'' [VBig (Some (res_Fee res)), VBig (Some (res_Net res))] = Inr out"
  have n': "n' = n" and tk: "tk = token" using a by (auto simp: argAddress_def argAmount_def argUint_def split: if_splits)
  have qargs: "argAddress [VAddress token, VBig (Some n)] 0 = Inr token" "argAmount [VAddress token, VBig (Some n)] 1 = Inr n"
    using a(2) by (auto simp: argAddress_def argAmount_def argUint_def n' split: if_splits)
  from pay show ?thesis
  proof (rule Pay_Inr)
    fix asset x
    assume as: "Asset (settle_GetParams s) (coin_Denom (rq_Amount \<lparr>rq_Payer = caller, rq_Payee = q, rq_Amount = \<lparr>coin_Denom = d, coin_Amount = n'\<rparr>,
       rq_App = AppOfContract E s caller, rq_Referrer = (if rf \<noteq> zero_address then rf else []), rq_FundsInModule = False\<rparr>)) = Some asset"
      "fa_Enabled asset"
      and run: "distribute E (settle_GetParams s) asset \<lparr>rq_Payer = caller, rq_Payee = q, rq_Amount = \<lparr>coin_Denom = d, coin_Amount = n'\<rparr>,
       rq_App = AppOfContract E s caller, rq_Referrer = (if rf \<noteq> zero_address then rf else []), rq_FundsInModule = False\<rparr> (s\<lparr>ext := x\<rparr>) = (Inr res, v)"
    let ?fee = "ComputeFee n asset (sp_FeeBps (settle_GetParams s))"
    from run have res: "res_Fee res = ?fee" "res_Net res = n - ?fee"
      by (rule distribute_Inr, simp add: rq_fee_def n')+
    have "0 \<le> n" using argAmount_nonneg [OF qargs(2)] .
    then have "0 \<le> ?fee" "?fee \<le> n" by (simp_all add: fee_nonneg fee_le_amount)
    moreover have "denomOfToken E P token s = (Inr d, s)" using d by (simp add: denomOfToken_Inr tk)
    then have "dispatch E P other ''quoteFee'' [VAddress token, VBig (Some n)] s =
        (map_sum EExternal (\<lambda>v. v) (PackOutputs P ''quoteFee'' [VBig (Some ?fee), VBig (Some (n - ?fee))]), s)"
      using as qargs by (simp add: dispatch_def pre_quoteFee_def bindM_def lift_def gets_def need_def ret_def seqM_def check_def
          settleFee_def outputs_def Let_def)
    ultimately show ?thesis using out res by auto
  qed
qed

lemma clamp: "0 \<le> raw \<Longrightarrow> clampAllowance raw = min raw MaxAllowance"
  by (auto simp: clampAllowance_def BitLen_le MaxAllowance_def maxAmountBits_def nat_less_iff)

text \<open>
  Approvals. \<open>approveApp\<close> sets the allowance of the caller, and of nobody else, for that app and
  denom to the given amount, or to the unlimited value \<open>2^255\<close> when the amount is at least that
  large, whatever its width; no other allowance changes and no coins move.
\<close>

theorem approve_exact:
  assumes "dispatch E P caller ''approveApp'' [VUint64 i, VAddress token, VBig (Some raw)] s = (Inr out, t)"
    and "log_laws E P"
  shows "\<exists>d. token_denom E P s token = Some d \<and> 0 \<le> raw \<and>
    Allowance t (AccString E caller) i d = min raw MaxAllowance \<and>
    (\<forall>w j e. (w, j, e) \<noteq> (AccString E caller, i, d) \<longrightarrow> Allowance t w j e = Allowance s w j e) \<and>
    BankBalance E (ext t) = BankBalance E (ext s)"
proof -
  from assms(1) [unfolded dispatch_call] obtain d u where d: "token_denom E P s token = Some d" and r: "0 \<le> raw"
    and ap: "ApproveApp E caller i d (clampAllowance raw) s = (Inr (), u)"
    and e: "emit_log P ''AppApproval'' [VAddress caller, VUint64 i] [VAddress token, VBig (Some (clampAllowance raw))] u = (Inr (), t)"
    by (auto simp: pre_approveApp_def pre_run Let_def argUint64_def argAddress_def argUint_def split: if_splits)
  from log_frame [OF e] obtain l where t: "t = u\<lparr>ext := AddLog P l (ext u)\<rparr>" by blast
  have "ext u = ext s \<and> Allowance u (AccString E caller) i d = clampAllowance raw \<and>
    (\<forall>w j e. (w, j, e) \<noteq> (AccString E caller, i, d) \<longrightarrow> Allowance u w j e = Allowance s w j e)"
    using ap by (auto simp: ApproveApp_def GetApp_def run_simps Let_def Allowance_def getInt_def split: if_splits option.splits)
  with d r t assms(2) show ?thesis by (simp add: clamp [OF r] log_laws_def Allowance_def)
qed

section \<open>Refinement\<close>

text \<open>What a call into the registry leaves alone, as seen from \<open>x/settle\<close>.\<close>

definition quiet :: "'x env \<Rightarrow> 'x chain \<Rightarrow> 'x chain \<Rightarrow> bool" where
  "quiet E s t \<longleftrightarrow> settle t = settle s \<and>
     (\<forall>d. BankBalance E (ext s) (moduleAddr E) d \<le> BankBalance E (ext t) (moduleAddr E) d) \<and>
     BankSupply E (ext t) (creditDenom E) \<le> BankSupply E (ext s) (creditDenom E)"

lemma quiet_step: "quiet E s t \<Longrightarrow> settle_call E s t"
  by (rule settle_call.other) (simp_all add: quiet_def)

lemma quiet_refl: "quiet E s s"
  by (simp add: quiet_def)

lemma quiet_updates [simp]:
  "quiet E s0 (s\<lparr>apps := e\<rparr>) = quiet E s0 s" "quiet E s0 (s\<lparr>events := v\<rparr>) = quiet E s0 s"
  by (simp_all add: quiet_def)

lemma quiet_pull:
  assumes "bank_laws E" "moduleAddr E \<noteq> ModuleAddress E ''apps''" "owner \<noteq> moduleAddr E" "quiet E s0 s"
    "BankA2M E owner ''apps'' cs (ext s) = Inr x"
  shows "quiet E s0 (s\<lparr>ext := x\<rparr>)"
  using assms bank_A2M [OF assms(1,5)] by (simp add: quiet_def moved_def)

lemma quiet_burn:
  assumes "bank_laws E" "moduleAddr E \<noteq> ModuleAddress E ''apps''" "0 \<le> n" "quiet E s0 s"
    "BankBurn E ''apps'' (coins1 d n) (ext s) = Inr x"
  shows "quiet E s0 (s\<lparr>ext := x\<rparr>)"
  using assms bank_Burn [OF assms(1,5)] by (auto simp: quiet_def)

lemma quiet_registry:
  "keepsR (quiet E s0) (AcceptContractClaim E ow i c)" "keepsR (quiet E s0) (ClaimRegistration E x i)"
  "keepsR (quiet E s0) (UnbondApp E ow i am)"
  unfolding AcceptContractClaim_def bindContract_def setBinding_def ClaimRegistration_def UnbondApp_def ownedApp_def GetApp_def
    put_app_def emit_def Let_def
  by (intro keepsR_intros keepsR_modify; simp)+

lemma quiet_RegisterApp:
  assumes "bank_laws E" "moduleAddr E \<noteq> ModuleAddress E ''apps''" "owner \<noteq> moduleAddr E"
  shows "keepsR (quiet E s0) (RegisterApp E owner rec uri dm bps)"
  unfolding RegisterApp_def NextID_def put_app_def emit_def Let_def
  by (intro keepsR_intros keepsR_callx keepsR_modify) (auto intro: quiet_pull [OF assms] quiet_burn [OF assms(1,2) less_imp_le])

lemma quiet_BondApp:
  assumes "bank_laws E" "moduleAddr E \<noteq> ModuleAddress E ''apps''" "AccFromBech32 E ow \<noteq> Some (moduleAddr E)"
  shows "keepsR (quiet E s0) (BondApp E ow i c)"
  by (rule keepsRI, drule BondApp_Inr) (use assms in \<open>auto intro!: quiet_pull [OF assms(1,2)]\<close>)

lemma log_step: "log_laws E P \<Longrightarrow> emit_log P ev ix dt s = (Inr (), t) \<Longrightarrow> settle_call E s t"
  by (drule log_frame) (auto simp: log_laws_def quiet_def intro!: quiet_step)

abbreviation settle_calls :: "'x env \<Rightarrow> 'x chain \<Rightarrow> 'x chain \<Rightarrow> bool" where
  "settle_calls E \<equiv> (settle_call E)\<^sup>*\<^sup>*"

lemma ok_step:
  "Pay E req s = (Inr res, t) \<Longrightarrow> \<not> rq_FundsInModule req \<Longrightarrow> rq_Payer req \<noteq> moduleAddr E \<Longrightarrow> settle_call E s t"
  "TabDeposit E a p q c True s = (Inr dep, t) \<Longrightarrow> is_account E p \<Longrightarrow> is_account E q \<Longrightarrow> p \<noteq> moduleAddr E \<Longrightarrow> settle_call E s t"
  "CloseTab E sn i p q d s = (Inr res, t) \<Longrightarrow> is_account E p \<Longrightarrow> is_account E q \<Longrightarrow> settle_call E s t"
  "ClaimRevenue E i ds s = (Inr cs, t) \<Longrightarrow> settle_call E s t"
  "BuyCredits E p q c s = (Inr out, t) \<Longrightarrow> p \<noteq> moduleAddr E \<Longrightarrow> settle_call E s t"
  "ApproveApp E p i d n s = (Inr u, t) \<Longrightarrow> settle_call E s t"
  "SpendAllowance E p i d n s = (Inr u, t) \<Longrightarrow> settle_call E s t"
  using settle_call.pay [of E req s "Inr res" t] settle_call.tab_pay [of E a p q c s "Inr dep" t]
    settle_call.close_tab [of E sn i p q d s "Inr res" t] settle_call.claim [of E i ds s "Inr cs" t]
    settle_call.buy_credits [of E p q c s "Inr out" t] settle_call.approve [of E p i d n s "Inr u" t]
    settle_call.spend [of E p i d n s "Inr u" t]
  by (simp_all add: atomic_Inr)

lemma quiet_run:
  assumes "keepsR (quiet E s) m" "m s = (Inr x, t)"
  shows "settle_calls E s t"
  using quiet_step [OF keepsRD [of "quiet E s" m s x t, OF assms(1) quiet_refl assms(2)]] by (rule r_into_rtranclp)

lemma then_log:
  assumes "settle_calls E s u" "log_laws E P" "emit_log P ev ix dt u = (Inr (), t)"
  shows "settle_calls E s t"
  using assms(1) log_step [OF assms(2,3)] by (rule rtranclp.rtrancl_into_rtrancl)

lemma spend_steps:
  assumes "allowed_spend E caller p a d n s u"
  shows "settle_calls E s u"
proof (cases "p = caller")
  case True
  with assms show ?thesis by (simp add: allowed_spend_def)
next
  case False
  with assms have "\<exists>x::app. SpendAllowance E p (app_AppId x) d n s = (Inr (), u)" by (auto simp: allowed_spend_def)
  then obtain x :: app where "SpendAllowance E p (app_AppId x) d n s = (Inr (), u)" ..
  from ok_step(7) [OF this] show ?thesis by (rule r_into_rtranclp)
qed

lemma spender:
  assumes "allowed_spend E caller p a d n s u" "0 < n" "caller \<noteq> moduleAddr E"
    and "\<forall>i d. Allowance s (AccString E (moduleAddr E)) i d \<le> 0"
  shows "p \<noteq> moduleAddr E"
proof
  assume p: "p = moduleAddr E"
  with assms(1,3) have "\<exists>x. allowed_spend E caller p (Some x) d n s u" by (auto simp: allowed_spend_def)
  then obtain x where x: "allowed_spend E caller p (Some x) d n s u" ..
  have "p \<noteq> caller" using p assms(3) by simp
  from spend_covers(1) [OF x this] assms(2) have "n \<le> Allowance s (AccString E p) (app_AppId x) d" by simp
  also have "\<dots> \<le> 0" using assms(4) p by simp
  finally show False using assms(2) by simp
qed

lemma payments_are_steps:
  assumes laws: "log_laws E P" and caller: "caller \<noteq> moduleAddr E"
    and none: "\<forall>i d. Allowance s (AccString E (moduleAddr E)) i d \<le> 0"
    and args: "\<forall>a. VAddress a \<in> set args \<longrightarrow> is_account E a"
  shows "pre_pay E P caller args s = (Inr out, t) \<Longrightarrow> settle_calls E s t"
    and "pre_payFrom E P caller args s = (Inr out, t) \<Longrightarrow> settle_calls E s t"
    and "pre_tabPay E P caller args s = (Inr out, t) \<Longrightarrow> settle_calls E s t"
    and "pre_closeTab E P caller args s = (Inr out, t) \<Longrightarrow> settle_calls E s t"
proof -
  assume "pre_pay E P caller args s = (Inr out, t)"
  then show "settle_calls E s t"
  proof (rule pay_Inr)
    fix tk n q d rf res v
    assume pay: "Pay E \<lparr>rq_Payer = caller, rq_Payee = q, rq_Amount = \<lparr>coin_Denom = d, coin_Amount = n\<rparr>,
         rq_App = AppOfContract E s caller, rq_Referrer = (if rf \<noteq> zero_address then rf else []), rq_FundsInModule = False\<rparr> s = (Inr res, v)"
      and e: "emitSettled P res caller q tk rf n v = (Inr (), t)"
    have "settle_call E s v" using ok_step(1) [OF pay] caller by simp
    from then_log [OF r_into_rtranclp [of "settle_call E", OF this] laws] e show ?thesis by (simp add: emitSettled_def)
  qed
next
  assume "pre_payFrom E P caller args s = (Inr out, t)"
  then show "settle_calls E s t"
  proof (rule payFrom_Inr)
    fix p tk n q rf d x u c res v
    assume u: "allowed_spend E caller p (Some x) d n s u"
      and pay: "Pay E \<lparr>rq_Payer = p, rq_Payee = q, rq_Amount = \<lparr>coin_Denom = d, coin_Amount = n\<rparr>, rq_App = Some x,
         rq_Referrer = rf, rq_FundsInModule = False\<rparr> u = (Inr res, v)"
      and e: "emitSettled P res p q tk c n v = (Inr (), t)"
    from pay have "0 < n" by (rule Pay_Inr) simp
    from spender [OF u this caller none] have "settle_call E u v" using ok_step(1) [OF pay] by simp
    with spend_steps [OF u] have "settle_calls E s v" by (rule rtranclp.rtrancl_into_rtrancl)
    from then_log [OF this laws] e show ?thesis by (simp add: emitSettled_def)
  qed
next
  assume "pre_tabPay E P caller args s = (Inr out, t)"
  then show "settle_calls E s t"
  proof (rule tabPay_Inr)
    fix p tk n q d u settled res v w
    assume ar: "argAddress args 0 = Inr p" "argAddress args 3 = Inr q"
      and u: "allowed_spend E caller p (AppOfContract E s caller) d n s u"
      and dep: "TabDeposit E (AppOfContract E s caller) p q \<lparr>coin_Denom = d, coin_Amount = n\<rparr> True u = (Inr (settled, res), v)"
      and e: "emit_log P ''TabDeposited'' [VUint64 (case AppOfContract E s caller of None \<Rightarrow> 0 | Some x \<Rightarrow> app_AppId x), VAddress p, VAddress q]
         [VAddress tk, VBig (Some n), VBool settled] v = (Inr (), w)"
        "whenM settled (emitSettled P res p q tk zero_address (res_Fee res + res_Net res)) w = (Inr (), t)"
    note acc = argAddress_account [OF args ar(1)] argAddress_account [OF args ar(2)]
    from dep have "0 < n" by (rule TabDeposit_pull) simp
    from ok_step(2) [OF dep acc spender [OF u this caller none]] have "settle_call E u v" .
    with spend_steps [OF u] have "settle_calls E s v" by (rule rtranclp.rtrancl_into_rtrancl)
    from then_log [OF this laws e(1)] have w: "settle_calls E s w" .
    show ?thesis
    proof (cases settled)
      case True
      with e(2) then_log [OF w laws] show ?thesis by (simp add: whenM_def emitSettled_def)
    next
      case False
      with e(2) w show ?thesis by (simp add: whenM_def)
    qed
  qed
next
  assume "pre_closeTab E P caller args s = (Inr out, t)"
  then obtain i p q tk d res u where ar: "argAddress args 1 = Inr p" "argAddress args 2 = Inr q"
    and run: "CloseTab E caller i p q d s = (Inr res, u)"
    and e: "emit_log P ''Settled'' [VUint64 (res_AppID res), VAddress p, VAddress q]
       [VAddress tk, VBig (Some (res_Fee res + res_Net res)), VBig (Some (res_Fee res)), VBig (Some (res_Net res)), VAddress zero_address] u = (Inr (), t)"
    unfolding pre_closeTab_def pre_run emitSettled_def by clarify (rule that)
  have "settle_call E s u"
    by (rule ok_step(3) [OF run argAddress_account [OF args ar(1)] argAddress_account [OF args ar(2)]])
  then show "settle_calls E s t" using then_log [OF _ laws e] by blast
qed

lemma others_are_steps:
  assumes laws: "bank_laws E" "log_laws E P" and caller: "caller \<noteq> moduleAddr E" "is_account E caller"
    and apps: "moduleAddr E \<noteq> ModuleAddress E ''apps''"
  shows "pre_approveApp E P caller args s = (Inr out, t) \<Longrightarrow> settle_calls E s t"
    and "pre_claim E P args s = (Inr out, t) \<Longrightarrow> settle_calls E s t"
    and "pre_buyCredits E P caller args s = (Inr out, t) \<Longrightarrow> settle_calls E s t"
    and "pre_registerApp E P caller args s = (Inr out, t) \<Longrightarrow> settle_calls E s t"
    and "pre_claimRegistration E P caller args s = (Inr out, t) \<Longrightarrow> settle_calls E s t"
    and "pre_acceptContractClaim E P caller args s = (Inr out, t) \<Longrightarrow> settle_calls E s t"
    and "pre_bondApp E P caller args s = (Inr out, t) \<Longrightarrow> settle_calls E s t"
    and "pre_unbondApp E P caller args s = (Inr out, t) \<Longrightarrow> settle_calls E s t"
proof -
  note log = then_log [OF _ laws(2)]
  have one: "settle_call E s u \<Longrightarrow> settle_calls E s u" for u by blast
  have ac: "AccFromBech32 E (AccString E caller) \<noteq> Some (moduleAddr E)" using caller by (simp add: is_account_def)
  show "pre_approveApp E P caller args s = (Inr out, t) \<Longrightarrow> settle_calls E s t"
    unfolding pre_approveApp_def Let_def pre_run
    by clarify (rule log [OF one [OF ok_step(6)]])
  show "pre_claim E P args s = (Inr out, t) \<Longrightarrow> settle_calls E s t"
    unfolding pre_claim_def GetApp_def Let_def pre_run AccAddressFromBech32_Inr
    by (clarify, simp only: gets_run need_Inr sum.inject, clarify) (rule log [OF one [OF ok_step(4)]])
  show "pre_buyCredits E P caller args s = (Inr out, t) \<Longrightarrow> settle_calls E s t"
    unfolding pre_buyCredits_def pre_run
    by clarify (rule log [OF one [OF ok_step(5) [OF _ caller(1)]]])
  show "pre_registerApp E P caller args s = (Inr out, t) \<Longrightarrow> settle_calls E s t"
    unfolding pre_registerApp_def Let_def pre_run check_Inr
    by clarify (rule log [OF quiet_run [OF quiet_RegisterApp [OF laws(1) apps caller(1)]]])
  show "pre_claimRegistration E P caller args s = (Inr out, t) \<Longrightarrow> settle_calls E s t"
    unfolding pre_claimRegistration_def pre_run by clarify (rule log [OF quiet_run [OF quiet_registry(2)]])
  show "pre_acceptContractClaim E P caller args s = (Inr out, t) \<Longrightarrow> settle_calls E s t"
    unfolding pre_acceptContractClaim_def pre_run case_prod_beta by clarify (rule quiet_run [OF quiet_registry(1)])
  show "pre_bondApp E P caller args s = (Inr out, t) \<Longrightarrow> settle_calls E s t"
    unfolding pre_bondApp_def bondArgs_def pre_run case_prod_beta ret_run gets_run
    by clarify (rule quiet_run [OF quiet_BondApp [OF laws(1) apps ac]])
  show "pre_unbondApp E P caller args s = (Inr out, t) \<Longrightarrow> settle_calls E s t"
    unfolding pre_unbondApp_def bondArgs_def pre_run case_prod_beta ret_run
    by clarify (rule quiet_run [OF quiet_registry(3)])
qed

text \<open>
  C6. The precompile refines \<open>x/settle\<close>. Every call that succeeds takes the chain through a sequence of
  the calls for which the invariants of \<open>x/settle\<close> are proved, provided the caller is not the
  module's own account and nobody has an allowance from it. So exact books, the bound on gas credits
  and the coverage of the ledger hold in every state that contracts can reach: a call adds nothing to
  what failed payouts have lost.
\<close>

theorem precompile_refines_settle:
  assumes "bank_laws E" "log_laws E P" "is_account E caller" "caller \<noteq> moduleAddr E" "moduleAddr E \<noteq> ModuleAddress E ''apps''"
    and "\<forall>a. VAddress a \<in> set args \<longrightarrow> is_account E a" "\<forall>i d. Allowance s (AccString E (moduleAddr E)) i d \<le> 0"
    and run: "dispatch E P caller m args s = (Inr out, t)"
  shows "(settle_call E)\<^sup>*\<^sup>* s t \<and> (settle_step E)\<^sup>*\<^sup>* s t \<and> (settle_reach E s \<longrightarrow> settle_reach E t) \<and>
     (\<forall>lost. settle_reach_losing E lost s \<longrightarrow> settle_reach_losing E lost t)"
proof -
  have calls: "settle_calls E s t"
  proof (cases "IsTransaction m")
    case True
    note p = payments_are_steps [OF assms(2,4,7,6), of out t] others_are_steps [OF assms(1,2,4,3,5), of args s out t]
    from True run show ?thesis
      unfolding IsTransaction_def by (elim insertE emptyE; simp only: dispatch_call) (erule p)+
  next
    case False
    from keepsD [OF views_keep [OF this], of "\<lambda>u. u = s", OF refl run] show ?thesis by simp
  qed
  have "(settle_step E)\<^sup>*\<^sup>* s t"
    using calls by (rule mono_rtranclp [rule_format, rotated]) (rule settle_step.call)
  moreover have "settle_reach_losing E lost t" if "settle_reach_losing E lost s" for lost
    using that calls by (rule reach_after_calls)
  ultimately show ?thesis using calls settle_reach_iff by blast
qed

end
