(* ===== verification/PrecompileExamples.thy ===== *)
theory PrecompileExamples
  imports PrecompileLaws
begin

text \<open>
  Concrete calls of the precompile: the shop \<open>shop\<close>, a contract of app 1, pulls two million
  \<open>uusdc\<close> from \<open>alice\<close>, who allowed the app five million, for \<open>bobby\<close>.
\<close>

definition ex_pre :: "ref_ext precompile_env" where
  "ex_pre =
     \<lparr>GetTokenPairID = (\<lambda>x t. [1]), GetTokenPair = (\<lambda>x i. Some \<lparr>tp_Enabled = True, tp_IsNativeCoin = True, tp_Denom = ''uusdc''\<rparr>),
      ContractAddress = replicate 20 9, Events = (\<lambda>e. Some \<lparr>ea_ID = [], ea_NonIndexed = []\<rparr>),
      MakeTopic = (\<lambda>v. Inr []), PackEvent = (\<lambda>ns vs. Inr []), PackOutputs = (\<lambda>m vs. Inr [of_nat (length vs)]),
      AddLog = (\<lambda>l x. x), MethodById = (\<lambda>b. Some ''pay''), BaseRequiredGas = (\<lambda>b t. 2000),
      SetupABI = (\<lambda>input ro isTx. if ro \<and> isTx ''pay'' then Inl 1 else Inr (''pay'', [])),
      RunNativeAction = atomic\<rparr>"

definition ex_shop_app :: app where
  "ex_shop_app = \<lparr>app_AppId = 1, app_Owner = ''owner'', app_PendingOwner = [], app_RevenueRecipient = ''owner'',
     app_MetadataUri = [], app_Domain = [], app_ReferrerBps = 0, app_Status = APP_STATUS_ACTIVE, app_Version = 1,
     app_CreatedHeight = 1, app_ContractCount = 1\<rparr>"

definition ex_market :: "ref_ext chain" where
  "ex_market = ex_settle\<lparr>
     settle := (settle ex_settle)\<lparr>Allowances := fmupd (''alice'', 1, ''uusdc'') 5000000 fmempty\<rparr>,
     apps := (apps ex_settle)\<lparr>Apps := fmupd 1 ex_shop_app fmempty,
       Bindings := fmupd (NormalizeContract ref_env ''shop'')
         \<lparr>cb_Contract = NormalizeContract ref_env ''shop'', cb_AppId = 1, cb_ProofType = PROOF_TYPE_SELF_CLAIM, cb_AddedHeight = 1, cb_Version = 1\<rparr> fmempty\<rparr>\<rparr>"

definition ex_pull_args :: "abi_val list" where
  "ex_pull_args = [VAddress (string_bytes ''alice''), VAddress (string_bytes ''usdc''), VBig (Some 2000000),
     VAddress (string_bytes ''bobby''), VAddress zero_address]"

lemma ex_pre_fields [simp]:
  "GetTokenPairID ex_pre x tk = [1]" "GetTokenPair ex_pre x i = Some \<lparr>tp_Enabled = True, tp_IsNativeCoin = True, tp_Denom = ''uusdc''\<rparr>"
  "Events ex_pre e = Some \<lparr>ea_ID = [], ea_NonIndexed = []\<rparr>" "MakeTopic ex_pre v = Inr []" "PackEvent ex_pre ns vs = Inr []"
  "PackOutputs ex_pre m vs = Inr [of_nat (length vs)]" "AddLog ex_pre l x = x" "RunNativeAction ex_pre = atomic"
  by (simp_all add: ex_pre_def)

lemma ex_log: "emit_log ex_pre ev ix dt s = (Inr (), s)"
proof -
  have "topics ex_pre vs s = (Inr (replicate (length vs) []), s)" for vs
    by (induction vs) (simp_all add: ret_def bindM_def lift_def)
  then show ?thesis by (simp add: emit_log_def bindM_def need_def ret_def lift_def modify_def)
qed

lemma ex_log_laws: "log_laws ref_env ex_pre"
  by (simp add: log_laws_def)

lemma ex_wrapper: "wrapper_laws ex_pre"
  by (auto simp: wrapper_laws_def ex_pre_def split: if_splits)

lemma ref_bank_valid: "bank_valid ref_env"
  by (auto simp: bank_valid_def ref_env_def ref_move_def AmountOf_def split: if_splits option.split dest: fmpredD)

lemma ex_shop: "AppOfContract ref_env ex_market (string_bytes ''shop'') = Some ex_shop_app"
  by (simp add: AppOfContract_def ex_market_def ref_run find_app_def ex_shop_app_def)

definition ex_after_spend :: "ref_ext chain" where
  "ex_after_spend = ex_market\<lparr>settle := (settle ex_market)\<lparr>Allowances := fmupd (''alice'', 1, ''uusdc'') 3000000 fmempty\<rparr>\<rparr>"

lemma ex_spend: "SpendAllowance ref_env (string_bytes ''alice'') 1 ''uusdc'' 2000000 ex_market = (Inr (), ex_after_spend)"
  by (simp add: SpendAllowance_run Allowance_def getInt_def ex_market_def ref_run MaxAllowance_def setInt_def ex_after_spend_def Let_def)

definition ex_pull :: pay_request where
  "ex_pull = \<lparr>rq_Payer = string_bytes ''alice'', rq_Payee = string_bytes ''bobby'',
     rq_Amount = \<lparr>coin_Denom = ''uusdc'', coin_Amount = 2000000\<rparr>, rq_App = Some ex_shop_app, rq_Referrer = [], rq_FundsInModule = False\<rparr>"

lemma ex_after_spend_fields [simp]:
  "ext ex_after_spend = ext ex_settle" "settle_GetParams ex_after_spend = ex_params" "council ex_after_spend = council ex_settle"
  "height ex_after_spend = height ex_settle" "EpochStats (apps ex_after_spend) = EpochStats (apps ex_settle)"
  "Claimables (settle ex_after_spend) = fmempty"
  by (simp_all add: ex_after_spend_def ex_market_def) (simp add: settle_GetParams_def ex_settle_def Let_def)

lemma ex_after_spend_good: "settle_good ref_env ex_after_spend" "0 \<le> slack ref_env ex_after_spend d"
proof -
  have s: "gap ex_after_spend d = gap ex_settle d" "slack ref_env ex_after_spend d = slack ref_env ex_settle d"
    "credit_room ref_env ex_after_spend = credit_room ref_env ex_settle" for d
    by (simp_all add: gap_def slack_def owed_def recount credit_room_def ex_after_spend_def ex_market_def cong: option.case_cong)
  have "amounts_ok ref_env (settle ex_after_spend)"
    using ex_settle_good(1) by (auto simp: settle_good_def amounts_ok_def ex_after_spend_def ex_market_def positive_upd)
  with s ex_settle_good show "settle_good ref_env ex_after_spend" "0 \<le> slack ref_env ex_after_spend d"
    by (simp_all add: settle_good_def)
qed

lemma ex_pull_pays: "\<exists>res t. Pay ref_env ex_pull ex_after_spend = (Inr res, t)"
proof -
  have p: "\<not> IsSettlePaused ex_after_spend d" for d
    using ex_not_paused [of d] by (simp add: IsSettlePaused_def IsPaused_def isPauseActive_def cong: option.case_cong)
  obtain x where x: "BankA2M ref_env (string_bytes ''alice'') settle_module (coins1 ''uusdc'' 2000000) (ext ex_settle) = Inr x"
    using ex_request_facts(8) by (auto simp: ex_request_def)
  show ?thesis
    by (rule Pay_runs [OF ref_bank_laws ref_bank_pays ex_after_spend_good, where asset = ex_asset and x = x])
      (use x p ex_params_valid in \<open>simp_all add: pay_refusal_def ex_pull_def validRecipient_def ref_run moduleAddr_def ex_shop_app_def\<close>)
qed

lemma ex_pull_run: "\<exists>out t res. dispatch ref_env ex_pre (string_bytes ''shop'') ''payFrom'' ex_pull_args ex_market = (Inr out, t) \<and>
    Pay ref_env ex_pull ex_after_spend = (Inr res, t)"
proof -
  obtain res t where p: "Pay ref_env ex_pull ex_after_spend = (Inr res, t)" using ex_pull_pays by blast
  have a: "argAddress ex_pull_args 0 = Inr (string_bytes ''alice'')" "argAddress ex_pull_args 1 = Inr (string_bytes ''usdc'')"
    "argAmount ex_pull_args 2 = Inr 2000000" "argAddress ex_pull_args 3 = Inr (string_bytes ''bobby'')"
    "argAddress ex_pull_args 4 = Inr zero_address"
    by (simp_all add: ex_pull_args_def argAddress_def argAmount_def argUint_def BitLen_le not_less maxAmountBits_def)
  have d: "denomOfToken ref_env ex_pre tk s = (Inr ''uusdc'', s)" for tk s
    by (simp add: denomOfToken_Inr token_denom_def)
  have "dispatch ref_env ex_pre (string_bytes ''shop'') ''payFrom'' ex_pull_args ex_market = (Inr [2], t)"
    unfolding dispatch_call pre_payFrom_def acc_def a
    by (simp add: bindM_def seqM_def lift_def appOfCaller_def gets_def ex_shop need_def ret_def d whenM_def NewCoin_def check_def
        ex_spend ex_shop_app_def [THEN arg_cong [where f = app_AppId]] ref_run p [unfolded ex_pull_def] emitSettled_def ex_log outputs_def)
  with p show ?thesis by blast
qed

lemma ex_pull_fields:
  "rq_Payer ex_pull = string_bytes ''alice''" "rq_Payee ex_pull = string_bytes ''bobby''" "coin_Denom (rq_Amount ex_pull) = ''uusdc''"
  "coin_Amount (rq_Amount ex_pull) = 2000000" "rq_Referrer ex_pull = []" "rq_FundsInModule ex_pull = False"
  by (simp_all add: ex_pull_def)

lemma ex_pull_effect:
  assumes "Pay ref_env ex_pull ex_after_spend = (Inr res, t)"
  shows "BankBalance ref_env (ext t) (string_bytes ''alice'') ''uusdc'' < 9000000" "ClaimableOf t 1 ''uusdc'' = 10000"
proof -
  have sp: "ComputeSplit 20000 (sp_Split ex_params) True b 0 =
    \<lparr>sr_App = 10000, sr_Referrer = 0, sr_Validator = 4000, sr_Relayer = 2000, sr_Treasury = 4000\<rparr>" for b
    by (simp add: ComputeSplit_def Let_def ex_params_def settle_DefaultParams_def quo_def MaxBps_def)
  from assms obtain x where x: "BankA2M ref_env (string_bytes ''alice'') settle_module (coins1 ''uusdc'' 2000000) (ext ex_settle) = Inr x"
    and run: "distribute ref_env ex_params ex_asset ex_pull (ex_after_spend\<lparr>ext := x\<rparr>) = (Inr res, t)"
    by (rule Pay_Inr) (simp add: ex_pull_fields)
  have fee: "rq_fee ex_params ex_asset ex_pull = 20000"
    "rq_split ref_env ex_params ex_asset ex_pull = \<lparr>sr_App = 10000, sr_Referrer = 0, sr_Validator = 4000, sr_Relayer = 2000, sr_Treasury = 4000\<rparr>"
    by (simp_all add: rq_fee_def rq_split_def ex_fee sp ex_pull_def ex_shop_app_def)
  show "ClaimableOf t 1 ''uusdc'' = 10000"
    using distribute_ledgers(1) [OF run, of 1 "''uusdc''"] fee
    by (simp add: ex_pull_def rq_AppID_def ex_shop_app_def ClaimableOf_def getInt_def)
  from run obtain y where "sends ref_env (string_bytes ''bobby'') ''uusdc'' 1980000 x y" "sends ref_env [] ''uusdc'' 0 y (ext t)"
    by (rule distribute_ext) (simp only: fee ex_pull_fields split_result.simps, simp)
  then have y: "BankM2A ref_env settle_module (string_bytes ''bobby'') (coins1 ''uusdc'' 1980000) x = Inr (ext t)"
    by (simp add: sends_def)
  have b: "BankBalance ref_env (ext ex_settle) (string_bytes ''alice'') ''uusdc'' = 9000000" by (simp add: ref_run)
  show "BankBalance ref_env (ext t) (string_bytes ''alice'') ''uusdc'' < 9000000"
    using bank_A2M(1) [OF ref_bank_laws x, of "string_bytes ''alice''" "''uusdc''"]
      bank_M2A(2) [OF ref_bank_laws y, of "string_bytes ''alice''" "''uusdc''"] b
    by (simp add: moved_def ref_run)
qed

lemma ref_accounts: "is_account ref_env (string_bytes t) \<longleftrightarrow> t \<noteq> [] \<and> CHR ''|'' \<notin> set t"
  by (auto simp: is_account_def ref_run)

lemma ex_pull_accounts: "VAddress a \<in> set ex_pull_args \<Longrightarrow> is_account ref_env a"
proof -
  have "zero_address = string_bytes (replicate 20 (CHR 0x00))"
    by (simp add: zero_address_def string_bytes_def)
  have "is_account ref_env (string_bytes (replicate 20 (CHR 0x00)))" unfolding ref_accounts by simp
  then have z: "is_account ref_env zero_address" by (simp only: \<open>zero_address = _\<close>)
  show "VAddress a \<in> set ex_pull_args \<Longrightarrow> is_account ref_env a"
    using z by (auto simp: ex_pull_args_def ref_accounts)
qed

lemma ex_market_tabs: "tabs_ok ref_env ex_market"
  by (simp add: tabs_ok_def ex_market_def)

lemma ex_market_start: "BankBalance ref_env (ext ex_market) (string_bytes ''alice'') ''uusdc'' = 9000000"
  "ClaimableOf ex_market 1 ''uusdc'' = 0"
  by (simp_all add: ref_run ex_market_def ClaimableOf_def getInt_def)

lemma ex_pulled: "\<exists>out t. dispatch ref_env ex_pre (string_bytes ''shop'') ''payFrom'' ex_pull_args ex_market = (Inr out, t) \<and>
    BankBalance ref_env (ext t) (string_bytes ''alice'') ''uusdc'' < 9000000 \<and> ClaimableOf t 1 ''uusdc'' = 10000"
proof -
  from ex_pull_run obtain out t res where t: "dispatch ref_env ex_pre (string_bytes ''shop'') ''payFrom'' ex_pull_args ex_market = (Inr out, t)"
    and p: "Pay ref_env ex_pull ex_after_spend = (Inr res, t)" by blast
  from t ex_pull_effect [OF p] show ?thesis by blast
qed

section \<open>Witnesses\<close>

lemma views_change_nothing_witness:
  "snd (dispatch ref_env ex_pre [] ''quoteFee'' [VAddress (string_bytes ''usdc''), VBig (Some 2000000)] ex_market) = ex_market"
proof -
  have "\<not> IsTransaction ''quoteFee''" by (simp add: IsTransaction_def)
  from views_change_nothing [OF this, of ref_env ex_pre "[]" "[VAddress (string_bytes ''usdc''), VBig (Some 2000000)]" ex_market]
  show ?thesis by (metis prod.collapse)
qed

lemma precompile_no_theft_witness:
  "\<exists>t out. dispatch ref_env ex_pre (string_bytes ''shop'') ''payFrom'' ex_pull_args ex_market = (Inr out, t) \<and>
     spent_by ref_env (string_bytes ''shop'') (string_bytes ''alice'') ''uusdc'' ex_market t"
proof -
  from ex_pulled obtain out t where t: "dispatch ref_env ex_pre (string_bytes ''shop'') ''payFrom'' ex_pull_args ex_market = (Inr out, t)"
    and b: "BankBalance ref_env (ext t) (string_bytes ''alice'') ''uusdc'' < 9000000" by blast
  show ?thesis
    using precompile_no_theft [OF ref_bank_laws ref_bank_valid ex_log_laws _ _ _ _ t, of "string_bytes ''alice''" "''uusdc''"] b t ex_market_start
    by (auto simp: ref_accounts moduleAddr_def ref_run)
qed

lemma payment_attribution_witness:
  "\<exists>t out. dispatch ref_env ex_pre (string_bytes ''shop'') ''payFrom'' ex_pull_args ex_market = (Inr out, t) \<and>
     ClaimableOf t 1 ''uusdc'' = 10000 \<and>
     (\<exists>x. AppOfContract ref_env ex_market (string_bytes ''shop'') = Some x \<and> app_AppId x = 1)"
proof -
  from ex_pulled obtain out t where t: "dispatch ref_env ex_pre (string_bytes ''shop'') ''payFrom'' ex_pull_args ex_market = (Inr out, t)"
    and c: "ClaimableOf t 1 ''uusdc'' = 10000" by blast
  have "\<exists>x. AppOfContract ref_env ex_market (string_bytes ''shop'') = Some x \<and> app_AppId x = 1"
    by (rule payment_attribution [OF ref_text_laws ex_market_tabs _ _ _ t, of 1 "''uusdc''" 0])
      (use ex_pull_accounts c ex_market_start in \<open>auto simp: ref_accounts\<close>)
  with t c show ?thesis by blast
qed

lemma calls_are_atomic_witness:
  "snd (Run ref_env ex_pre (string_bytes ''shop'') None [1, 2, 3, 4] True ex_market) = ex_market"
  using calls_are_atomic [OF ex_wrapper] by blast

lemma precompile_refines_settle_witness:
  "\<exists>t out. dispatch ref_env ex_pre (string_bytes ''shop'') ''payFrom'' ex_pull_args ex_market = (Inr out, t) \<and>
     (settle_call ref_env)\<^sup>*\<^sup>* ex_market t"
proof -
  from ex_pulled obtain out t where t: "dispatch ref_env ex_pre (string_bytes ''shop'') ''payFrom'' ex_pull_args ex_market = (Inr out, t)"
    by blast
  have "\<forall>i d. Allowance ex_market (AccString ref_env (moduleAddr ref_env)) i d \<le> 0"
    by (simp add: Allowance_def getInt_def ex_market_def moduleAddr_def ref_run)
  with precompile_refines_settle [OF ref_bank_laws ex_log_laws _ _ _ _ _ t] ex_pull_accounts t show ?thesis
    by (auto simp: ref_accounts moduleAddr_def ref_run)
qed

lemma ex_approve_run:
  assumes "MaxAllowance \<le> raw"
  shows "\<exists>t. dispatch ref_env ex_pre (string_bytes ''alice'') ''approveApp'' [VUint64 1, VAddress (string_bytes ''usdc''), VBig (Some raw)] ex_market
     = (Inr [1], t)"
proof -
  have a: "argUint64 [VUint64 1, VAddress (string_bytes ''usdc''), VBig (Some raw)] 0 = Inr 1"
    "argAddress [VUint64 1, VAddress (string_bytes ''usdc''), VBig (Some raw)] 1 = Inr (string_bytes ''usdc'')"
    "argUint [VUint64 1, VAddress (string_bytes ''usdc''), VBig (Some raw)] 2 = Inr raw"
    using assms by (simp_all add: argUint64_def argAddress_def argUint_def MaxAllowance_def)
  have d: "denomOfToken ref_env ex_pre tk s = (Inr ''uusdc'', s)" for tk s
    by (simp add: denomOfToken_Inr token_denom_def)
  have "\<exists>t. ApproveApp ref_env (string_bytes ''alice'') 1 ''uusdc'' (clampAllowance raw) ex_market = (Inr (), t)"
    using assms by (simp add: clampAllowance_def MaxAllowance_def ApproveApp_def GetApp_def find_app_def monad_defs Let_def emit_def)
      (simp add: ex_market_def ret_def)
  then obtain t where t: "ApproveApp ref_env (string_bytes ''alice'') 1 ''uusdc'' (clampAllowance raw) ex_market = (Inr (), t)" ..
  have "dispatch ref_env ex_pre (string_bytes ''alice'') ''approveApp'' [VUint64 1, VAddress (string_bytes ''usdc''), VBig (Some raw)] ex_market = (Inr [1], t)"
    unfolding dispatch_call pre_approveApp_def a acc_def Let_def
    by (simp add: bindM_def lift_def d seqM_def t ex_log outputs_def)
  then show ?thesis by blast
qed

lemma approve_exact_witness:
  "\<exists>t out. dispatch ref_env ex_pre (string_bytes ''alice'') ''approveApp''
       [VUint64 1, VAddress (string_bytes ''usdc''), VBig (Some (2 ^ 256 - 1))] ex_market = (Inr out, t) \<and>
     Allowance t ''alice'' 1 ''uusdc'' = MaxAllowance"
proof -
  have "MaxAllowance \<le> 2 ^ 256 - 1" by (simp add: MaxAllowance_def)
  from ex_approve_run [OF this] obtain t where t: "dispatch ref_env ex_pre (string_bytes ''alice'') ''approveApp''
     [VUint64 1, VAddress (string_bytes ''usdc''), VBig (Some (2 ^ 256 - 1))] ex_market = (Inr [1], t)" by blast
  from approve_exact [OF t ex_log_laws] t show ?thesis
    by (auto simp: ref_run token_denom_def MaxAllowance_def)
qed

lemma ex_pay_run:
  "\<exists>t. dispatch ref_env ex_pre (string_bytes ''alice'') ''pay''
     (VAddress (string_bytes ''usdc'') # VBig (Some 2000000) # [VAddress (string_bytes ''bobby''), VAddress zero_address]) ex_settle = (Inr [2], t)"
proof -
  let ?args = "VAddress (string_bytes ''usdc'') # VBig (Some 2000000) # [VAddress (string_bytes ''bobby''), VAddress zero_address]"
  have a: "argAddress ?args 0 = Inr (string_bytes ''usdc'')" "argAmount ?args 1 = Inr 2000000"
    "argAddress ?args 2 = Inr (string_bytes ''bobby'')" "argAddress ?args 3 = Inr zero_address"
    by (simp_all add: argAddress_def argAmount_def argUint_def BitLen_le not_less maxAmountBits_def)
  have d: "denomOfToken ref_env ex_pre tk s = (Inr ''uusdc'', s)" for tk s
    by (simp add: denomOfToken_Inr token_denom_def)
  have n: "AppOfContract ref_env ex_settle c = None" for c
    by (simp add: AppOfContract_def ex_settle_def ref_chain_def Let_def)
  obtain res t where p: "Pay ref_env ex_request ex_settle = (Inr res, t)" using ex_paid by blast
  have "dispatch ref_env ex_pre (string_bytes ''alice'') ''pay'' ?args ex_settle = (Inr [2], t)"
    unfolding dispatch_call pre_pay_def acc_def a
    by (simp add: bindM_def seqM_def lift_def appOfCaller_def gets_def n ret_def d NewCoin_def check_def ref_run
        p [unfolded ex_request_def] emitSettled_def ex_log outputs_def)
  then show ?thesis by blast
qed

lemma quote_is_exact_witness:
  "\<exists>fee::int. fee \<le> 2000000 \<and>
     dispatch ref_env ex_pre [] ''quoteFee'' [VAddress (string_bytes ''usdc''), VBig (Some 2000000)] ex_settle = (Inr [2], ex_settle)"
proof -
  from ex_pay_run obtain t where t: "dispatch ref_env ex_pre (string_bytes ''alice'') ''pay''
     (VAddress (string_bytes ''usdc'') # VBig (Some 2000000) # [VAddress (string_bytes ''bobby''), VAddress zero_address]) ex_settle = (Inr [2], t)"
    by blast
  from quote_is_exact [OF t, of "[]"] show ?thesis by auto
qed

end
