(* ===== verification/SponsorOp.thy ===== *)
theory SponsorOp
  imports ChainTypes
begin

text \<open>
  User operations as the gas sponsor reads them, \<open>services/sponsor/internal/userop\<close>: validation, the
  bytes that the on-chain paymaster hashes, the encoding of its data and the calls inside the account
  call data. Keccak and the ABI codec of go-ethereum are parameters.
\<close>

section \<open>Big-endian bytes\<close>

text \<open>\<open>big.Int.FillBytes\<close> (it panics when the value does not fit) and \<open>big.Int.SetBytes\<close>.\<close>

primrec be :: "nat \<Rightarrow> nat \<Rightarrow> byte list" where
  "be 0 x = []"
| "be (Suc n) x = be n (x div 256) @ [of_nat x]"

definition SetBytes :: "byte list \<Rightarrow> nat" where
  "SetBytes bs = foldl (\<lambda>n b. n * 256 + unat b) 0 bs"

definition FillBytes :: "nat \<Rightarrow> int \<Rightarrow> byte list option" where
  "FillBytes n x = (if nat \<bar>x\<bar> < 256 ^ n then Some (be n (nat \<bar>x\<bar>)) else None)"

text \<open>\<open>common.common_BytesToAddress\<close> keeps the last 20 bytes, or pads on the left.\<close>

definition common_BytesToAddress :: "byte list \<Rightarrow> addr" where
  "common_BytesToAddress b = (if 20 < length b then drop (length b - 20) b else replicate (20 - length b) 0 @ b)"

lemma length_be [simp]: "length (be n x) = n"
  by (induction n arbitrary: x) simp_all

lemma SetBytes_snoc: "SetBytes (bs @ [b]) = SetBytes bs * 256 + unat b"
  by (simp add: SetBytes_def)

lemma SetBytes_be: "SetBytes (be n x) = x mod 256 ^ n"
proof (induction n arbitrary: x)
  case 0
  show ?case by (simp add: SetBytes_def)
next
  case (Suc n)
  have "x mod (256 * 256 ^ n) = 256 * (x div 256 mod 256 ^ n) + x mod 256" by (rule mod_mult2_eq)
  moreover have "unat (of_nat x :: byte) = x mod 256"
    unfolding unat_of_nat by (rule arg_cong [where f = "(mod) x"]) simp
  ultimately show ?case unfolding be.simps SetBytes_snoc Suc power_Suc by linarith
qed

lemma be_inj: "be n x = be n y \<Longrightarrow> x < 256 ^ n \<Longrightarrow> y < 256 ^ n \<Longrightarrow> x = y"
  by (metis SetBytes_be mod_less)

lemma unat_byte: "unat (b::byte) < 256"
  using unsigned_less [of b] by simp

lemma be_SetBytes: "be (length bs) (SetBytes bs) = bs"
proof (induction bs rule: rev_induct)
  case (snoc b bs)
  have "(256 :: byte) = 0" by simp
  then have "y * 256 = 0" for y :: byte by (metis mult_zero_right)
  with snoc unat_byte [of b] show ?case by (simp add: SetBytes_snoc)
qed simp

lemma SetBytes_inj: "SetBytes a = SetBytes b \<Longrightarrow> length a = length b \<Longrightarrow> a = b"
  by (metis be_SetBytes)

lemma SetBytes_lt: "SetBytes bs < 256 ^ length bs"
  using SetBytes_be [of "length bs" "SetBytes bs"] by (metis be_SetBytes mod_less_divisor zero_less_numeral zero_less_power)

lemma FillBytes_eq: "FillBytes n x = Some b \<Longrightarrow> FillBytes n y = Some b \<Longrightarrow> 0 \<le> x \<Longrightarrow> 0 \<le> y \<Longrightarrow> x = y"
  by (auto simp: FillBytes_def dest!: be_inj split: if_splits)

lemma length_FillBytes: "FillBytes n x = Some b \<Longrightarrow> length b = n"
  by (auto simp: FillBytes_def split: if_splits)

section \<open>The operation\<close>

text \<open>A \<open>*hexutil.Big\<close> is a nil or a number; \<open>json.RawMessage\<close> and \<open>hexutil.Bytes\<close> are bytes.\<close>

record userop =
  Sender :: addr
  Nonce :: "int option"
  Factory :: "byte list"
  FactoryData :: "byte list"
  CallData :: "byte list"
  CallGasLimit :: "int option"
  VerificationGasLimit :: "int option"
  PreVerificationGas :: "int option"
  MaxFeePerGas :: "int option"
  MaxPriorityFeePerGas :: "int option"
  Paymaster :: "addr option"
  PaymasterVerificationGasLimit :: "int option"
  PaymasterPostOpGasLimit :: "int option"
  uo_PaymasterData :: "byte list"
  Signature :: "byte list"
  EIP7702Auth :: "byte list"

datatype op_err =
    SenderRequired | FieldRequired string | FieldOutOfRange string | NonceOutOfRange | CallDataTooLarge

definition eip7702Short :: "byte list" where "eip7702Short = [0x77, 0x02]"

definition eip7702Long :: "byte list" where "eip7702Long = [0x77, 0x02] @ replicate 18 0"

text \<open>The length check of the \<open>factory\<close> field, after \<open>hexutil\<close> has read its bytes.\<close>

definition Factory_Unmarshal :: "byte list option \<Rightarrow> byte list option" where
  "Factory_Unmarshal j =
     (case j of
        None \<Rightarrow> None
      | Some h \<Rightarrow> if length h \<noteq> 0 \<and> length h \<noteq> 20 \<and> h \<noteq> eip7702Short then None else Some h)"

definition IsEIP7702 :: "byte list \<Rightarrow> bool" where
  "IsEIP7702 f \<longleftrightarrow> f = eip7702Short \<or> f = eip7702Long"

definition Factory_Address :: "byte list \<Rightarrow> addr \<times> bool" where
  "Factory_Address f =
     (if length f \<noteq> 20 \<or> IsEIP7702 f then (zero_address, False)
      else let a = common_BytesToAddress f in (a, a \<noteq> zero_address))"

definition big0 :: "int option \<Rightarrow> int" where
  "big0 b = (case b of None \<Rightarrow> 0 | Some v \<Rightarrow> v)"

subsection \<open>Validation\<close>

text \<open>The map literal that \<open>Validate\<close> ranges over.\<close>

definition gas_fields :: "userop \<Rightarrow> (string \<times> int option) list" where
  "gas_fields u =
     [(''callGasLimit'', CallGasLimit u), (''verificationGasLimit'', VerificationGasLimit u),
      (''preVerificationGas'', PreVerificationGas u), (''maxFeePerGas'', MaxFeePerGas u),
      (''maxPriorityFeePerGas'', MaxPriorityFeePerGas u)]"

definition check_field :: "string \<times> int option \<Rightarrow> op_err option" where
  "check_field nv =
     (case snd nv of
        None \<Rightarrow> Some (FieldRequired (fst nv))
      | Some v \<Rightarrow> if v < 0 \<or> 128 < BitLen (nat v) then Some (FieldOutOfRange (fst nv)) else None)"

fun check_fields :: "(string \<times> int option) list \<Rightarrow> op_err option" where
  "check_fields [] = None"
| "check_fields (nv # nvs) = (case check_field nv of Some e \<Rightarrow> Some e | None \<Rightarrow> check_fields nvs)"

text \<open>
  Go ranges over a map in an unspecified order: \<open>shuffle\<close> is the order of this call. The result is
  the first error, or none.
\<close>

definition op_Validate :: "((string \<times> int option) list \<Rightarrow> (string \<times> int option) list) \<Rightarrow> userop \<Rightarrow> op_err option" where
  "op_Validate shuffle u =
     (if Sender u = zero_address then Some SenderRequired
      else case check_fields (shuffle (gas_fields u)) of
        Some e \<Rightarrow> Some e
      | None \<Rightarrow>
          if (case Nonce u of None \<Rightarrow> True | Some n \<Rightarrow> n < 0 \<or> 256 < BitLen (nat n)) then Some NonceOutOfRange
          else if 64 * 1024 < length (CallData u) then Some CallDataTooLarge
          else None)"

subsection \<open>The packed form\<close>

definition InitCode :: "userop \<Rightarrow> byte list" where
  "InitCode u =
     (if Factory u = [] then []
      else if Factory u = eip7702Short \<and> FactoryData u \<noteq> [] then eip7702Long @ FactoryData u
      else if \<not> IsEIP7702 (Factory u) \<and> common_BytesToAddress (Factory u) = zero_address then []
      else Factory u @ FactoryData u)"

definition pack128 :: "int \<Rightarrow> int \<Rightarrow> byte list option" where
  "pack128 hi lo =
     (case FillBytes 16 hi of
        None \<Rightarrow> None
      | Some h \<Rightarrow> (case FillBytes 16 lo of None \<Rightarrow> None | Some l \<Rightarrow> Some (h @ l)))"

definition AccountGasLimits :: "userop \<Rightarrow> byte list option" where
  "AccountGasLimits u = pack128 (big0 (VerificationGasLimit u)) (big0 (CallGasLimit u))"

definition GasFees :: "userop \<Rightarrow> byte list option" where
  "GasFees u = pack128 (big0 (MaxPriorityFeePerGas u)) (big0 (MaxFeePerGas u))"

definition PaymasterGasLimits :: "userop \<Rightarrow> byte list option" where
  "PaymasterGasLimits u =
     pack128 (big0 (PaymasterVerificationGasLimit u)) (big0 (PaymasterPostOpGasLimit u))"

definition TotalGas :: "userop \<Rightarrow> int" where
  "TotalGas u =
     foldl (\<lambda>t v. t + big0 v) 0
       [CallGasLimit u, VerificationGasLimit u, PreVerificationGas u, PaymasterVerificationGasLimit u,
        PaymasterPostOpGasLimit u]"

subsection \<open>The sponsor hash\<close>

text \<open>\<open>crypto.Keccak256\<close> and \<open>abi.Arguments.Pack\<close> of the fourteen arguments of \<open>getHash\<close>.\<close>

record codec =
  Keccak256 :: "byte list \<Rightarrow> byte list"
  PackArgs :: "abi_val list \<Rightarrow> byte list option"

datatype hash_err = HashPanic | HashPack

definition op_Provenance :: "byte list" where
  "op_Provenance = be 32 0x6eabb1be532bdef432109abc178d88669ab33aed940f18cd5169887d215c1fcf"

definition hash_args ::
  "codec \<Rightarrow> userop \<Rightarrow> int \<Rightarrow> addr \<Rightarrow> u64 \<Rightarrow> u64 \<Rightarrow> u64 \<Rightarrow> byte list \<Rightarrow> byte list \<Rightarrow> byte list \<Rightarrow> abi_val list" where
  "hash_args K u chainID paymaster validUntil validAfter appID agl pgl fees =
     [VAddress (Sender u), VBig (Some (big0 (Nonce u))), VBytes32 (Keccak256 K (InitCode u)),
      VBytes32 (Keccak256 K (CallData u)), VBytes32 agl, VBig (Some (int (SetBytes pgl))),
      VBig (Some (big0 (PreVerificationGas u))), VBytes32 fees, VBig (Some chainID), VAddress paymaster,
      VBig (Some (uint validUntil)), VBig (Some (uint validAfter)), VUint64 appID, VBytes32 op_Provenance]"

definition SponsorHash ::
  "codec \<Rightarrow> userop \<Rightarrow> int \<Rightarrow> addr \<Rightarrow> u64 \<Rightarrow> u64 \<Rightarrow> u64 \<Rightarrow> hash_err + byte list" where
  "SponsorHash K u chainID paymaster validUntil validAfter appID =
     (case AccountGasLimits u of None \<Rightarrow> Inl HashPanic | Some agl \<Rightarrow>
      case PaymasterGasLimits u of None \<Rightarrow> Inl HashPanic | Some pgl \<Rightarrow>
      case GasFees u of None \<Rightarrow> Inl HashPanic | Some fees \<Rightarrow>
      case PackArgs K (hash_args K u chainID paymaster validUntil validAfter appID agl pgl fees) of
        None \<Rightarrow> Inl HashPack
      | Some enc \<Rightarrow> Inr (Keccak256 K enc))"

subsection \<open>The paymaster data\<close>

text \<open>\<open>b8\<close> after the loop of \<open>put\<close>, of which the last \<open>n\<close> bytes are appended.\<close>

definition put_bytes :: "u64 \<Rightarrow> nat \<Rightarrow> byte list" where
  "put_bytes v n = drop (8 - n) (map (\<lambda>j. ucast (drop_bit (8 * (7 - j)) v)) [0..<8])"

definition PaymasterData :: "u64 \<Rightarrow> u64 \<Rightarrow> u64 \<Rightarrow> byte list \<Rightarrow> byte list" where
  "PaymasterData validUntil validAfter appID sig =
     put_bytes validUntil 6 @ put_bytes validAfter 6 @ put_bytes appID 8 @ sig"

text \<open>
  What the paymaster contract reads from \<open>paymasterAndData\<close>; \<open>None\<close> is the revert
  \<open>BadPaymasterData\<close>. The data starts at offset 52, after the paymaster and its two gas limits.
\<close>

definition parsePaymasterData :: "byte list \<Rightarrow> (nat \<times> nat \<times> u64 \<times> byte list) option" where
  "parsePaymasterData b =
     (if length b < 72 + 64 then None
      else Some (SetBytes (take 6 (drop 52 b)), SetBytes (take 6 (drop 58 b)),
             of_nat (SetBytes (take 8 (drop 64 b))), drop 72 b))"

section \<open>The calls of the account\<close>

record account_call =
  Target :: addr
  Value :: "int option"
  Data :: "byte list"

text \<open>The ABI of \<open>BaseAccount\<close>: which of its functions a selector names, and its arguments.\<close>

record account_abi =
  AccountMethod :: "byte list \<Rightarrow> string option"
  UnpackExecute :: "byte list \<Rightarrow> (addr \<times> int \<times> byte list) option"
  UnpackBatch :: "byte list \<Rightarrow> (addr \<times> int \<times> byte list) list option"

text \<open>\<open>None\<close> is \<open>ErrUnknownCallData\<close>.\<close>

definition DecodeCalls :: "account_abi \<Rightarrow> byte list \<Rightarrow> account_call list option" where
  "DecodeCalls A callData =
     (if length callData < 4 then None
      else case AccountMethod A (take 4 callData) of
        None \<Rightarrow> None
      | Some name \<Rightarrow>
          if name = ''execute'' then
            (case UnpackExecute A (drop 4 callData) of
               None \<Rightarrow> None
             | Some (t, v, d) \<Rightarrow> Some [\<lparr>Target = t, Value = Some v, Data = d\<rparr>])
          else if name = ''executeBatch'' then
            (case UnpackBatch A (drop 4 callData) of
               None \<Rightarrow> None
             | Some raw \<Rightarrow> Some (map (\<lambda>(t, v, d). \<lparr>Target = t, Value = Some v, Data = d\<rparr>) raw))
          else None)"

section \<open>Laws\<close>

lemma check_fields_None: "check_fields nvs = None \<longleftrightarrow> (\<forall>nv \<in> set nvs. check_field nv = None)"
  by (induction nvs) (auto split: option.splits)

text \<open>The range of a field of the operation, and an order in which Go may range over a map.\<close>

definition in_range :: "int option \<Rightarrow> nat \<Rightarrow> bool" where
  "in_range v n \<longleftrightarrow> (case v of None \<Rightarrow> False | Some x \<Rightarrow> 0 \<le> x \<and> x < 2 ^ n)"

definition shuffles :: "((string \<times> int option) list \<Rightarrow> (string \<times> int option) list) \<Rightarrow> bool" where
  "shuffles f \<longleftrightarrow> (\<forall>xs. set (f xs) = set xs)"

lemma check_field_None: "check_field nv = None \<longleftrightarrow> in_range (snd nv) 128"
proof (cases "snd nv")
  case (Some x)
  have "128 < BitLen (nat x) \<longleftrightarrow> \<not> nat x < 2 ^ 128" using BitLen_le [of "nat x" 128] by linarith
  then show ?thesis using Some by (auto simp: check_field_def in_range_def nat_less_iff)
qed (simp add: check_field_def in_range_def)

lemma nonce_range:
  "(case v of None \<Rightarrow> True | Some n \<Rightarrow> n < 0 \<or> 256 < BitLen (nat n)) \<longleftrightarrow> \<not> in_range v 256"
proof (cases v)
  case (Some x)
  have "256 < BitLen (nat x) \<longleftrightarrow> \<not> nat x < 2 ^ 256" using BitLen_le [of "nat x" 256] by linarith
  then show ?thesis using Some by (auto simp: in_range_def nat_less_iff)
qed (simp add: in_range_def)

lemma validated:
  assumes "shuffles f"
  shows "op_Validate f u = None \<longleftrightarrow>
     Sender u \<noteq> zero_address \<and> (\<forall>nv \<in> set (gas_fields u). in_range (snd nv) 128) \<and>
     in_range (Nonce u) 256 \<and> length (CallData u) \<le> 65536"
proof -
  have "check_fields (f (gas_fields u)) = None \<longleftrightarrow> (\<forall>nv \<in> set (gas_fields u). in_range (snd nv) 128)"
    using assms by (simp add: check_fields_None shuffles_def check_field_None)
  then show ?thesis unfolding op_Validate_def nonce_range by (auto split: option.splits)
qed

lemma gas_fields_in_range:
  assumes "shuffles f" "op_Validate f u = None"
  shows "in_range (CallGasLimit u) 128" "in_range (VerificationGasLimit u) 128"
    "in_range (PreVerificationGas u) 128" "in_range (MaxFeePerGas u) 128" "in_range (MaxPriorityFeePerGas u) 128"
    "in_range (Nonce u) 256"
  using assms by (simp_all add: validated gas_fields_def)

lemma in_range_big0: "in_range v n \<Longrightarrow> 0 \<le> big0 v \<and> big0 v < 2 ^ n \<and> v = Some (big0 v)"
  by (auto simp: in_range_def big0_def split: option.splits)

subsection \<open>What the hash commits to\<close>

lemma pack128_inj:
  assumes "pack128 h l = Some b" "pack128 h' l' = Some b" "0 \<le> h" "0 \<le> l" "0 \<le> h'" "0 \<le> l'"
  shows "h = h' \<and> l = l'"
  using assms by (auto simp: pack128_def length_FillBytes split: option.splits dest: FillBytes_eq)

lemma pack128_length: "pack128 h l = Some b \<Longrightarrow> length b = 32"
  by (auto simp: pack128_def length_FillBytes split: option.splits)

lemma pack128_fits: "0 \<le> h \<Longrightarrow> h < 2 ^ 128 \<Longrightarrow> 0 \<le> l \<Longrightarrow> l < 2 ^ 128 \<Longrightarrow> pack128 h l \<noteq> None"
  by (auto simp: pack128_def FillBytes_def nat_less_iff)

text \<open>
  \<open>abi.encode\<close> of static arguments: values of the right size and the same types that have one encoding are equal.
\<close>

fun abi_fits :: "abi_val \<Rightarrow> bool" where
  "abi_fits (VAddress a) = (length a = 20)"
| "abi_fits (VBig (Some n)) = (0 \<le> n \<and> n < 2 ^ 256)"
| "abi_fits (VBytes32 b) = (length b = 32)"
| "abi_fits (VUint64 v) = True"
| "abi_fits v = False"

fun abi_kind :: "abi_val \<Rightarrow> nat" where
  "abi_kind (VAddress a) = 0"
| "abi_kind (VBig v) = 1"
| "abi_kind (VBytes32 b) = 2"
| "abi_kind (VUint64 v) = 3"
| "abi_kind v = 4"

definition pack_laws :: "codec \<Rightarrow> bool" where
  "pack_laws K \<longleftrightarrow> (\<forall>b. length (Keccak256 K b) = 32) \<and>
     (\<forall>vs ws b. list_all abi_fits vs \<longrightarrow> list_all abi_fits ws \<longrightarrow> map abi_kind vs = map abi_kind ws \<longrightarrow>
        PackArgs K vs = Some b \<longrightarrow> PackArgs K ws = Some b \<longrightarrow> vs = ws)"

text \<open>The byte strings that are hashed for an operation, and that Keccak keeps those of two operations apart.\<close>

definition hashed :: "codec \<Rightarrow> userop \<Rightarrow> int \<Rightarrow> addr \<Rightarrow> u64 \<Rightarrow> u64 \<Rightarrow> u64 \<Rightarrow> byte list list" where
  "hashed K u chainID paymaster validUntil validAfter appID =
     [InitCode u, CallData u,
      the (PackArgs K (hash_args K u chainID paymaster validUntil validAfter appID (the (AccountGasLimits u))
        (the (PaymasterGasLimits u)) (the (GasFees u))))]"

definition keccak_separates :: "codec \<Rightarrow> byte list list \<Rightarrow> byte list list \<Rightarrow> bool" where
  "keccak_separates K xs ys \<longleftrightarrow> (\<forall>x \<in> set xs. \<forall>y \<in> set ys. Keccak256 K x = Keccak256 K y \<longrightarrow> x = y)"

text \<open>An operation as the server hashes it: validated, its paymaster limits set, addresses of 20 bytes.\<close>

definition hashable :: "((string \<times> int option) list \<Rightarrow> (string \<times> int option) list) \<Rightarrow> userop \<Rightarrow> int \<Rightarrow> addr \<Rightarrow> bool" where
  "hashable f u chainID paymaster \<longleftrightarrow>
     op_Validate f u = None \<and> length (Sender u) = 20 \<and> length paymaster = 20 \<and> 0 \<le> chainID \<and> chainID < 2 ^ 256 \<and>
     in_range (PaymasterVerificationGasLimit u) 128 \<and> in_range (PaymasterPostOpGasLimit u) 128"

lemma SponsorHash_Inr:
  assumes "SponsorHash K u c p vu va a = Inr h"
  obtains agl pgl fees enc where "AccountGasLimits u = Some agl" "PaymasterGasLimits u = Some pgl"
    "GasFees u = Some fees" "PackArgs K (hash_args K u c p vu va a agl pgl fees) = Some enc" "h = Keccak256 K enc"
    "hashed K u c p vu va a = [InitCode u, CallData u, enc]"
  using assms by (auto simp: SponsorHash_def hashed_def split: option.splits)

lemma hash_args_fit:
  assumes "shuffles f" "hashable f u c p" "pack_laws K"
    "length agl = 32" "length pgl = 32" "length fees = 32"
  shows "list_all abi_fits (hash_args K u c p vu va a agl pgl fees)"
proof -
  have v: "op_Validate f u = None" using assms(2) by (simp add: hashable_def)
  have "SetBytes pgl < 256 ^ 32" using SetBytes_lt [of pgl] assms by simp
  then have "int (SetBytes pgl) < 2 ^ 256" by simp
  moreover have "uint (w :: u64) < 2 ^ 256" for w using uint_lt2p [of w] by simp
  moreover have "big0 (PreVerificationGas u) < 2 ^ 256" "0 \<le> big0 (PreVerificationGas u)"
    "big0 (Nonce u) < 2 ^ 256" "0 \<le> big0 (Nonce u)"
    using in_range_big0 [OF gas_fields_in_range(3) [OF assms(1) v]] in_range_big0 [OF gas_fields_in_range(6) [OF assms(1) v]]
    by auto
  ultimately show ?thesis using assms by (simp add: hash_args_def hashable_def pack_laws_def op_Provenance_def)
qed


lemma hash_args_kind:
  "map abi_kind (hash_args K u c p vu va a agl pgl fees) = map abi_kind (hash_args K u' c' p' vu' va' a' agl' pgl' fees')"
  by (simp add: hash_args_def)

lemma hashable_packs:
  assumes "shuffles f" "hashable f u c p"
    "AccountGasLimits u = Some agl" "PaymasterGasLimits u = Some pgl" "GasFees u = Some fees"
  shows "length agl = 32" "length pgl = 32" "length fees = 32"
  using assms by (auto simp: AccountGasLimits_def PaymasterGasLimits_def GasFees_def dest: pack128_length)

text \<open>The packed words determine every limit and fee.\<close>

lemma same_limits:
  assumes "shuffles f" "hashable f u c p" "hashable f u' c' p'"
    "AccountGasLimits u = AccountGasLimits u'" "PaymasterGasLimits u = PaymasterGasLimits u'" "GasFees u = GasFees u'"
    "big0 (Nonce u) = big0 (Nonce u')" "big0 (PreVerificationGas u) = big0 (PreVerificationGas u')"
  shows "CallGasLimit u = CallGasLimit u' \<and> VerificationGasLimit u = VerificationGasLimit u' \<and>
    PreVerificationGas u = PreVerificationGas u' \<and> MaxFeePerGas u = MaxFeePerGas u' \<and>
    MaxPriorityFeePerGas u = MaxPriorityFeePerGas u' \<and> Nonce u = Nonce u' \<and>
    PaymasterVerificationGasLimit u = PaymasterVerificationGasLimit u' \<and>
    PaymasterPostOpGasLimit u = PaymasterPostOpGasLimit u' \<and> TotalGas u = TotalGas u'"
proof -
  have f: "in_range (CallGasLimit w) 128 \<and> in_range (VerificationGasLimit w) 128 \<and> in_range (PreVerificationGas w) 128 \<and>
      in_range (MaxFeePerGas w) 128 \<and> in_range (MaxPriorityFeePerGas w) 128 \<and> in_range (Nonce w) 256 \<and>
      in_range (PaymasterVerificationGasLimit w) 128 \<and> in_range (PaymasterPostOpGasLimit w) 128"
    if "hashable f w d q" for w d q
    using that assms(1) gas_fields_in_range [of f w] by (simp add: hashable_def)
  note r = f [OF assms(2)] f [OF assms(3)]
  have p: "h = h' \<and> l = l'" if "pack128 h l = pack128 h' l'" "0 \<le> h" "h < 2 ^ 128" "0 \<le> l" "l < 2 ^ 128" "0 \<le> h'" "0 \<le> l'" for h l h' l'
    using that pack128_fits [of h l] by (auto dest: pack128_inj)
  note b = in_range_big0
  have g: "big0 v = big0 v' \<Longrightarrow> in_range v n \<Longrightarrow> in_range v' n \<Longrightarrow> v = v'" for v v' n by (metis b)
  have "big0 (VerificationGasLimit u) = big0 (VerificationGasLimit u') \<and> big0 (CallGasLimit u) = big0 (CallGasLimit u')"
    by (rule p) (use r assms(4) in \<open>auto simp: AccountGasLimits_def dest!: b\<close>)
  moreover have "big0 (MaxPriorityFeePerGas u) = big0 (MaxPriorityFeePerGas u') \<and> big0 (MaxFeePerGas u) = big0 (MaxFeePerGas u')"
    by (rule p) (use r assms(6) in \<open>auto simp: GasFees_def dest!: b\<close>)
  moreover have "big0 (PaymasterVerificationGasLimit u) = big0 (PaymasterVerificationGasLimit u') \<and>
      big0 (PaymasterPostOpGasLimit u) = big0 (PaymasterPostOpGasLimit u')"
    by (rule p) (use r assms(5) in \<open>auto simp: PaymasterGasLimits_def dest!: b\<close>)
  ultimately show ?thesis using r assms(7,8) g by (simp add: TotalGas_def) blast
qed

text \<open>
  C11. What the sponsor signs commits to the operation. If the sponsor hashes of two operations are equal and
  Keccak keeps the byte strings hashed for them apart, then the operations agree in the sender, the
  nonce, the init code, the call data, all gas limits and fees (those of the paymaster too), the
  chain, the paymaster, the validity window and the app: a signature cannot be moved to another
  operation that costs more, does something else or belongs to another app.
\<close>

theorem SponsorHash_binds:
  assumes laws: "shuffles f" "pack_laws K"
    and ok: "hashable f u chainID paymaster" "hashable f u' chainID' paymaster'"
    and hash: "SponsorHash K u chainID paymaster validUntil validAfter appID = Inr h"
      "SponsorHash K u' chainID' paymaster' validUntil' validAfter' appID' = Inr h"
    and apart: "keccak_separates K (hashed K u chainID paymaster validUntil validAfter appID)
      (hashed K u' chainID' paymaster' validUntil' validAfter' appID')"
  shows "Sender u = Sender u' \<and> Nonce u = Nonce u' \<and> InitCode u = InitCode u' \<and> CallData u = CallData u' \<and>
    CallGasLimit u = CallGasLimit u' \<and> VerificationGasLimit u = VerificationGasLimit u' \<and>
    PreVerificationGas u = PreVerificationGas u' \<and> MaxFeePerGas u = MaxFeePerGas u' \<and>
    MaxPriorityFeePerGas u = MaxPriorityFeePerGas u' \<and>
    PaymasterVerificationGasLimit u = PaymasterVerificationGasLimit u' \<and>
    PaymasterPostOpGasLimit u = PaymasterPostOpGasLimit u' \<and>
    chainID = chainID' \<and> paymaster = paymaster' \<and> validUntil = validUntil' \<and> validAfter = validAfter' \<and>
    appID = appID' \<and> TotalGas u = TotalGas u'"
proof -
  obtain agl pgl fees enc where
    a: "AccountGasLimits u = Some agl" "PaymasterGasLimits u = Some pgl" "GasFees u = Some fees"
      "PackArgs K (hash_args K u chainID paymaster validUntil validAfter appID agl pgl fees) = Some enc"
      "h = Keccak256 K enc" "hashed K u chainID paymaster validUntil validAfter appID = [InitCode u, CallData u, enc]"
    using hash(1) by (rule SponsorHash_Inr)
  obtain agl' pgl' fees' enc' where
    b: "AccountGasLimits u' = Some agl'" "PaymasterGasLimits u' = Some pgl'" "GasFees u' = Some fees'"
      "PackArgs K (hash_args K u' chainID' paymaster' validUntil' validAfter' appID' agl' pgl' fees') = Some enc'"
      "h = Keccak256 K enc'" "hashed K u' chainID' paymaster' validUntil' validAfter' appID' = [InitCode u', CallData u', enc']"
    using hash(2) by (rule SponsorHash_Inr)
  have k: "Keccak256 K x = Keccak256 K y \<Longrightarrow> x = y"
    if "x \<in> {InitCode u, CallData u, enc}" "y \<in> {InitCode u', CallData u', enc'}" for x y
    using apart that unfolding keccak_separates_def a(6) b(6) by (simp only: list.set)
  have len: "length agl = 32" "length pgl = 32" "length fees = 32" "length agl' = 32" "length pgl' = 32" "length fees' = 32"
    using hashable_packs [OF laws(1) ok(1) a(1-3)] hashable_packs [OF laws(1) ok(2) b(1-3)] by simp_all
  have "enc = enc'" using k [of enc enc'] a(5) b(5) by simp
  then have args: "hash_args K u chainID paymaster validUntil validAfter appID agl pgl fees =
      hash_args K u' chainID' paymaster' validUntil' validAfter' appID' agl' pgl' fees'"
    using laws(2) a(4) b(4) hash_args_fit [OF laws(1) ok(1) laws(2) len(1-3)] hash_args_fit [OF laws(1) ok(2) laws(2) len(4-6)]
      hash_args_kind unfolding pack_laws_def by metis
  have uint_same: "uint a = uint b \<Longrightarrow> a = b" for a b :: u64 by (simp add: word_uint_eq_iff)
  from args have eq: "Sender u = Sender u'" "big0 (Nonce u) = big0 (Nonce u')" "agl = agl'" "pgl = pgl'" "fees = fees'"
      "big0 (PreVerificationGas u) = big0 (PreVerificationGas u')" "chainID = chainID'" "paymaster = paymaster'"
      "validUntil = validUntil'" "validAfter = validAfter'" "appID = appID'"
      "Keccak256 K (InitCode u) = Keccak256 K (InitCode u')" "Keccak256 K (CallData u) = Keccak256 K (CallData u')"
    using len uint_same by (auto simp: hash_args_def intro: SetBytes_inj)
  show ?thesis
    using eq k [of "InitCode u" "InitCode u'"] k [of "CallData u" "CallData u'"]
      same_limits [OF laws(1) ok] a(1-3) b(1-3) by simp
qed


subsection \<open>The paymaster data\<close>

lemma be_append: "be (m + n) x = be m (x div 256 ^ n) @ be n x"
proof (induction n arbitrary: x)
  case (Suc n)
  have "x div 256 div 256 ^ n = x div 256 ^ Suc n" by (simp add: div_mult2_eq)
  then show ?case using Suc [of "x div 256"] by simp
qed simp

lemma shifted_byte: "ucast (drop_bit k (v :: u64)) = (of_nat (unat v div 2 ^ k) :: byte)"
proof -
  have "unat (drop_bit k v) = drop_bit k (unat v)"
    by (simp only: unsigned_drop_bit_eq take_bit_nat_eq_self [OF unsigned_less])
  then have "unat (drop_bit k v) = unat v div 2 ^ k" by (simp only: drop_bit_eq_div)
  then show ?thesis by (metis of_nat_unat)
qed

lemma upt_8: "[0..<8] = [0, 1, 2, 3, 4, 5, 6, 7 :: nat]"
  by code_simp

lemma be_8: "be 8 x = [of_nat (x div 2 ^ 56), of_nat (x div 2 ^ 48), of_nat (x div 2 ^ 40), of_nat (x div 2 ^ 32),
    of_nat (x div 2 ^ 24), of_nat (x div 2 ^ 16), of_nat (x div 2 ^ 8), of_nat x]"
proof -
  have "(8::nat) = Suc (Suc (Suc (Suc (Suc (Suc (Suc (Suc 0)))))))" by simp
  then show ?thesis by (simp only: be.simps) (simp flip: div_mult2_eq)
qed

lemma put_bytes_be: "n \<le> 8 \<Longrightarrow> put_bytes v n = be n (unat v)"
proof -
  assume n: "n \<le> 8"
  have "map (\<lambda>j. ucast (drop_bit (8 * (7 - j)) v)) [0..<8] = be 8 (unat v)"
    by (simp only: upt_8 list.map shifted_byte be_8) simp
  moreover have "be 8 (unat v) = be (8 - n) (unat v div 256 ^ n) @ be n (unat v)"
    using n be_append [of "8 - n" n] by simp
  ultimately show ?thesis using n by (simp add: put_bytes_def)
qed

lemma length_put_bytes [simp]: "n \<le> 8 \<Longrightarrow> length (put_bytes v n) = n"
  by (simp add: put_bytes_be)

lemma paymaster_data_parses:
  assumes "length prefix = 52" "64 \<le> length sig"
  shows "parsePaymasterData (prefix @ PaymasterData validUntil validAfter appID sig) =
    Some (unat validUntil mod 2 ^ 48, unat validAfter mod 2 ^ 48, appID, sig)"
proof -
  have "unat appID < 256 ^ 8" using unsigned_less [of appID] by simp
  then have "unat appID mod 256 ^ 8 = unat appID" by (rule mod_less)
  then show ?thesis
    using assms by (simp add: parsePaymasterData_def PaymasterData_def put_bytes_be SetBytes_be)
qed

text \<open>
  C30. The paymaster contract reads back what the sponsor encodes: after any 52 bytes of paymaster and gas
  limits it finds the window, modulo the six bytes they are given, the app and the signature,
  whatever signature of 64 or more bytes follows.
\<close>

theorem paymaster_data_roundtrip:
  assumes "length prefix = 52" "64 \<le> length sig"
  shows "parsePaymasterData (prefix @ PaymasterData validUntil validAfter appID sig) =
    Some (unat validUntil mod 2 ^ 48, unat validAfter mod 2 ^ 48, appID, sig)"
  by (rule paymaster_data_parses [OF assms])

end
