(* ===== verification/SponsorTypes.thy ===== *)
theory SponsorTypes
  imports SponsorOp
begin

text \<open>
  The state of the sponsor service and the world around it. The service asks the clock, the node (its
  REST gateway and its EVM endpoint) and PostgreSQL; what they answer is read from \<open>sponsor_env\<close> at a
  counter that every question advances, so two questions may get different answers. The caches of the
  chain client live in memory, the four tables of \<open>store.go\<close> in the database.
\<close>

section \<open>Errors\<close>

text \<open>The reason of a \<open>PolicyError\<close>, and the errors that are not answers to the client.\<close>

datatype deny_reason =
    DInvalidOp op_err | DEntryPoint | DChainId | DAppIdRequired | DMaxFee | DTotalGas | DNoApp | DAppStatus string
  | DFactory | DDelegate | DMarker | DAuth | DCallData | DCallCount | DNativeValue | DSettleCall | DSettleApp | DTarget

datatype sponsor_err =
    EDeny deny_reason | ENotFound | EUpstream | EQuotaExceeded | ESenderCap | EAlreadySigned | EDb

section \<open>The chain as the client sees it\<close>

datatype endpoint = EpApp u64 | EpContract addr | EpQuota u64

record http_reply =
  rp_Status :: nat
  rp_Body :: string

record chain_app =
  ca_AppID :: u64
  ca_Owner :: string
  ca_RevenueRecipient :: string
  ca_Status :: string
  ca_Domain :: string

record chain_quota =
  cq_Epoch :: u64
  cq_Gas :: u64
  cq_EpochEnds :: int
  cq_Diversity :: u32
  cq_UniqueEst :: u64

text \<open>The JSON of the replies: numbers are texts.\<close>

record app_json =
  aj_AppID :: string
  aj_Owner :: string
  aj_RevenueRecipient :: string
  aj_Status :: string
  aj_Domain :: string

record quota_json =
  qj_Epoch :: string
  qj_Gas :: string
  qj_UniqueEst :: string
  qj_DiversityBps :: u32
  qj_EpochEnds :: string

record eth_log =
  el_Topics :: "byte list list"
  el_Data :: "byte list"

section \<open>The tables\<close>

text \<open>\<open>sponsor_signatures\<close> in the order of its serial key; \<open>settled_gas\<close> may be null.\<close>

record signature_row =
  sg_App :: u64
  sg_Epoch :: u64
  sg_Sender :: addr
  sg_Nonce :: int
  sg_Gas :: int
  sg_ValidUntil :: int
  sg_Settled :: "int option"

text \<open>\<open>sponsor_app_usage\<close> holds gas and operations per app and epoch, \<open>sponsor_sender_daily\<close> operations per day.\<close>

record tables =
  usage :: "(u64 \<times> u64, int \<times> int) fmap"
  daily :: "(addr \<times> int, int) fmap"
  signatures :: "signature_row list"
  cursors :: "(string, u64) fmap"

definition empty_tables :: tables where
  "empty_tables = \<lparr>usage = fmempty, daily = fmempty, signatures = [], cursors = fmempty\<rparr>"

section \<open>The world and the state\<close>

text \<open>A commit may fail, and a connection may break after it took place.\<close>

datatype commit_outcome = Committed | RolledBack | CommitUnknown

record sponsor_env =
  \<comment> \<open>clock, in nanoseconds, and the node\<close>
  clock :: "nat \<Rightarrow> int"
  Rest :: "nat \<Rightarrow> endpoint \<Rightarrow> http_reply option"
  CodeAt :: "nat \<Rightarrow> addr \<Rightarrow> byte list option"
  BlockNumber :: "nat \<Rightarrow> u64 option"
  FilterLogs :: "nat \<Rightarrow> u64 \<Rightarrow> u64 \<Rightarrow> eth_log list option"
  \<comment> \<open>PostgreSQL: whether a statement succeeds, and a commit\<close>
  DbOk :: "nat \<Rightarrow> bool"
  Commit :: "nat \<Rightarrow> commit_outcome"
  \<comment> \<open>\<open>encoding/json\<close> on the structures the code declares\<close>
  AppJSON :: "string \<Rightarrow> app_json option"
  BindingJSON :: "string \<Rightarrow> string option"
  QuotaJSON :: "string \<Rightarrow> quota_json option"
  AuthJSON :: "byte list \<Rightarrow> addr option"
  \<comment> \<open>go-ethereum: hashes, ABI, signatures; the order of a map\<close>
  Codec :: codec
  Account :: account_abi
  SignHash :: "byte list \<Rightarrow> byte list option"
  Shuffle :: "(string \<times> int option) list \<Rightarrow> (string \<times> int option) list"
  \<comment> \<open>the time to live of the client's caches, in nanoseconds\<close>
  CacheTTL :: int

record sponsor =
  tick :: nat
  bindings :: "(addr, u64 \<times> int) fmap"
  apps_cache :: "(u64, chain_app \<times> int) fmap"
  db :: tables

type_synonym 'a service = "(sponsor_err, sponsor, 'a) run"

text \<open>One question to the world.\<close>

definition observe :: "(nat \<Rightarrow> 'a) \<Rightarrow> 'a service" where
  "observe f = (\<lambda>s. (Inr (f (tick s)), s\<lparr>tick := Suc (tick s)\<rparr>))"

abbreviation time_Now :: "sponsor_env \<Rightarrow> int service" where
  "time_Now E \<equiv> observe (clock E)"

text \<open>\<open>Time.Unix\<close>\<close>

definition Unix :: "int \<Rightarrow> int" where
  "Unix t = t div 10 ^ 9"

lemma observe_run [run_simps, simp]:
  "observe f s = (r, t) \<longleftrightarrow> r = Inr (f (tick s)) \<and> t = s\<lparr>tick := Suc (tick s)\<rparr>"
  by (auto simp: observe_def)

lemma bindM_observe: "bindM (observe f) g s = g (f (tick s)) (s\<lparr>tick := Suc (tick s)\<rparr>)"
  by (simp add: bindM_def observe_def)

section \<open>Texts\<close>

definition is_digit :: "char \<Rightarrow> bool" where
  "is_digit c \<longleftrightarrow> 48 \<le> (of_char c :: nat) \<and> (of_char c :: nat) \<le> 57"

text \<open>\<open>strconv.ParseUint(s, 10, 64)\<close> with its error ignored: 0 for a bad text, the largest value on overflow.\<close>

fun parse_digits :: "nat \<Rightarrow> string \<Rightarrow> nat" where
  "parse_digits n [] = n"
| "parse_digits n (c # s) =
     (if \<not> is_digit c then 0
      else let m = n * 10 + (of_char c - 48) in if 2 ^ 64 \<le> m then 2 ^ 64 - 1 else parse_digits m s)"

definition ParseUint :: "string \<Rightarrow> nat" where
  "ParseUint s = parse_digits 0 s"

definition u64_of :: "string \<Rightarrow> u64" where
  "u64_of s = of_nat (ParseUint s)"

text \<open>\<open>strconv.ParseInt(s, 10, 64)\<close> with its error ignored.\<close>

definition ParseInt :: "string \<Rightarrow> int" where
  "ParseInt s =
     (let neg = (s \<noteq> [] \<and> hd s = CHR ''-'');
          t = (if s \<noteq> [] \<and> (hd s = CHR ''-'' \<or> hd s = CHR ''+'') then tl s else s);
          un = int (ParseUint t)
      in if \<not> neg \<and> 2 ^ 63 \<le> un then 2 ^ 63 - 1
         else if neg \<and> 2 ^ 63 < un then - (2 ^ 63)
         else if neg then - un else un)"

text \<open>\<open>strings.Contains\<close>\<close>

fun contains :: "string \<Rightarrow> string \<Rightarrow> bool" where
  "contains [] p = (p = [])"
| "contains (c # s) p = (take (length p) (c # s) = p \<or> contains s p)"

end
