(* ===== verification/SponsorPolicy.thy ===== *)
theory SponsorPolicy
  imports SponsorTypes
begin

text \<open>
  The chain client with its caches, \<open>services/sponsor/internal/chain\<close>, and the decision which
  operations are sponsored, \<open>services/sponsor/internal/policy\<close>.
\<close>

section \<open>The chain client\<close>

definition client_get :: "sponsor_env \<Rightarrow> endpoint \<Rightarrow> (string \<Rightarrow> 'a option) \<Rightarrow> 'a service" where
  "client_get E path decode =
     bindM (observe (\<lambda>n. Rest E n path)) (\<lambda>resp.
     case resp of
       None \<Rightarrow> fail EUpstream
     | Some r \<Rightarrow>
         let body = take (2 ^ 20) (rp_Body r)
         in if rp_Status r = 404 \<or> (400 \<le> rp_Status r \<and> contains body ''not'') then fail ENotFound
            else if rp_Status r \<noteq> 200 then fail EUpstream
            else need (decode body) EUpstream)"

definition chain_app_of :: "app_json \<Rightarrow> chain_app" where
  "chain_app_of j =
     \<lparr>ca_AppID = u64_of (aj_AppID j), ca_Owner = aj_Owner j, ca_RevenueRecipient = aj_RevenueRecipient j,
      ca_Status = aj_Status j, ca_Domain = aj_Domain j\<rparr>"

text \<open>
  Both lookups of the client keep what they learn until \<open>cacheTTL\<close> after it was stored.
\<close>

definition with_cache ::
  "sponsor_env \<Rightarrow> (sponsor \<Rightarrow> ('a \<times> int) option) \<Rightarrow> ('a \<Rightarrow> int \<Rightarrow> sponsor \<Rightarrow> sponsor) \<Rightarrow> 'a service \<Rightarrow> 'a service" where
  "with_cache E look put ask =
     (let fetch = bindM ask (\<lambda>x. bindM (time_Now E) (\<lambda>t. seqM (modify (put x (t + CacheTTL E))) (ret x)))
      in bindM (gets look) (\<lambda>e.
         case e of
           None \<Rightarrow> fetch
         | Some (v, exp) \<Rightarrow> bindM (time_Now E) (\<lambda>t. if t < exp then ret v else fetch)))"

definition client_App :: "sponsor_env \<Rightarrow> u64 \<Rightarrow> chain_app service" where
  "client_App E i =
     with_cache E (\<lambda>s. fmlookup (apps_cache s) i)
       (\<lambda>a exp s. s\<lparr>apps_cache := fmupd i (a, exp) (apps_cache s)\<rparr>)
       (bindM (client_get E (EpApp i) (AppJSON E)) (\<lambda>r. ret (chain_app_of r)))"

text \<open>A contract that the node does not know belongs to app 0.\<close>

definition binding_id :: "sponsor_env \<Rightarrow> addr \<Rightarrow> u64 service" where
  "binding_id E contract =
     bindM (attempt (client_get E (EpContract contract) (BindingJSON E))) (\<lambda>r.
     case r of
       Inl e \<Rightarrow> if e = ENotFound then ret 0 else fail e
     | Inr j \<Rightarrow> ret (u64_of j))"

definition client_AppOfContract :: "sponsor_env \<Rightarrow> addr \<Rightarrow> u64 service" where
  "client_AppOfContract E contract =
     with_cache E (\<lambda>s. fmlookup (bindings s) contract)
       (\<lambda>i exp s. s\<lparr>bindings := fmupd contract (i, exp) (bindings s)\<rparr>)
       (binding_id E contract)"

definition chain_quota_of :: "quota_json \<Rightarrow> chain_quota" where
  "chain_quota_of j =
     \<lparr>cq_Epoch = u64_of (qj_Epoch j), cq_Gas = u64_of (qj_Gas j), cq_EpochEnds = ParseInt (qj_EpochEnds j),
      cq_Diversity = qj_DiversityBps j, cq_UniqueEst = u64_of (qj_UniqueEst j)\<rparr>"

definition client_Quota :: "sponsor_env \<Rightarrow> u64 \<Rightarrow> chain_quota service" where
  "client_Quota E i = bindM (client_get E (EpQuota i) (QuotaJSON E)) (\<lambda>r. ret (chain_quota_of r))"

definition client_Code :: "sponsor_env \<Rightarrow> addr \<Rightarrow> byte list service" where
  "client_Code E a = bindM (observe (\<lambda>n. CodeAt E n a)) (\<lambda>c. need c EUpstream)"

text \<open>The EIP-7702 delegation designator \<open>0xef0100\<close>, then the implementation.\<close>

definition Delegation :: "byte list \<Rightarrow> addr \<times> bool" where
  "Delegation code =
     (if length code = 23 \<and> code ! 0 = 0xef \<and> code ! 1 = 0x01 \<and> code ! 2 = 0x00
      then (common_BytesToAddress (drop 3 code), True) else (zero_address, False))"

section \<open>The policy\<close>

record policy_cfg =
  cfg_ChainID :: int
  cfg_EntryPoint :: addr
  cfg_Settle :: addr
  cfg_MaxGasPerOp :: u64
  cfg_MaxFeePerGas :: int
  cfg_SenderDailyCap :: int
  cfg_NewSenderDailyCap :: int
  cfg_AllowedDelegates :: "addr fset"
  cfg_AllowedFactories :: "addr fset"

record decision =
  dc_AppID :: u64
  dc_Epoch :: u64
  dc_Quota :: u64
  dc_Gas :: u64
  dc_SenderCap :: int

definition approveAppSelector :: "sponsor_env \<Rightarrow> byte list" where
  "approveAppSelector E = take 4 (Keccak256 (Codec E) (string_bytes ''approveApp(uint64,address,uint256)''))"

abbreviation deny :: "bool \<Rightarrow> deny_reason \<Rightarrow> unit service" where
  "deny b r \<equiv> check (\<not> b) (EDeny r)"

text \<open>The checks that need no answer of the chain.\<close>

definition check_op :: "sponsor_env \<Rightarrow> policy_cfg \<Rightarrow> userop \<Rightarrow> addr \<Rightarrow> int option \<Rightarrow> u64 \<Rightarrow> unit service" where
  "check_op E cfg u entryPoint chainID appID =
     seqM (case op_Validate (Shuffle E) u of None \<Rightarrow> ret () | Some e \<Rightarrow> fail (EDeny (DInvalidOp e)))
     (seqM (deny (entryPoint \<noteq> cfg_EntryPoint cfg) DEntryPoint)
     (seqM (deny (chainID \<noteq> Some (cfg_ChainID cfg)) DChainId)
     (seqM (deny (appID = 0) DAppIdRequired)
     (seqM (deny (big0 (MaxFeePerGas u) > cfg_MaxFeePerGas cfg) DMaxFee)
     (deny (TotalGas u < 0 \<or> 2 ^ 64 \<le> TotalGas u \<or> TotalGas u > uint (cfg_MaxGasPerOp cfg)) DTotalGas)))))"

text \<open>The app must exist and be active; \<open>App\<close> of the interface reports a missing app as \<open>ErrNotFound\<close>.\<close>

definition check_app :: "sponsor_env \<Rightarrow> u64 \<Rightarrow> unit service" where
  "check_app E appID =
     bindM (attempt (client_App E appID)) (\<lambda>r.
     case r of
       Inl e \<Rightarrow> if e = ENotFound then fail (EDeny DNoApp) else fail e
     | Inr a \<Rightarrow> deny (ca_Status a \<noteq> ''APP_STATUS_ACTIVE'') (DAppStatus (ca_Status a)))"

definition check_delegation :: "sponsor_env \<Rightarrow> policy_cfg \<Rightarrow> userop \<Rightarrow> byte list \<Rightarrow> unit service" where
  "check_delegation E cfg u code =
     (let (impl, delegated) = Delegation code
      in seqM (deny (delegated \<and> impl |\<notin>| cfg_AllowedDelegates cfg) DDelegate)
         (seqM (deny (IsEIP7702 (Factory u) \<and> EIP7702Auth u = [] \<and> \<not> delegated) DMarker)
         (deny (EIP7702Auth u \<noteq> [] \<and>
            (case AuthJSON E (EIP7702Auth u) of None \<Rightarrow> True | Some a \<Rightarrow> a |\<notin>| cfg_AllowedDelegates cfg)) DAuth)))"

text \<open>One call: \<open>SETTLE.approveApp\<close> for the sponsoring app, or a contract of that app, without value.\<close>

definition check_call :: "sponsor_env \<Rightarrow> policy_cfg \<Rightarrow> u64 \<Rightarrow> account_call \<Rightarrow> unit service" where
  "check_call E cfg appID c =
     seqM (deny (case Value c of None \<Rightarrow> False | Some v \<Rightarrow> v \<noteq> 0) DNativeValue)
     (if Target c = cfg_Settle cfg then
        seqM (deny (length (Data c) < 4 + 32 \<or> take 4 (Data c) \<noteq> approveAppSelector E) DSettleCall)
        (deny (take 32 (drop 4 (Data c)) \<noteq> replicate 24 0 @ be 8 (unat appID)) DSettleApp)
      else bindM (client_AppOfContract E (Target c)) (\<lambda>owner. deny (owner \<noteq> appID) DTarget))"

definition Evaluate :: "sponsor_env \<Rightarrow> policy_cfg \<Rightarrow> userop \<Rightarrow> addr \<Rightarrow> int option \<Rightarrow> u64 \<Rightarrow> decision service" where
  "Evaluate E cfg u entryPoint chainID appID =
     seqM (check_op E cfg u entryPoint chainID appID)
     (seqM (check_app E appID)
     (seqM (deny (snd (Factory_Address (Factory u)) \<and> fst (Factory_Address (Factory u)) |\<notin>| cfg_AllowedFactories cfg) DFactory)
     (bindM (client_Code E (Sender u)) (\<lambda>code.
     seqM (check_delegation E cfg u code)
     (bindM (need (DecodeCalls (Account E) (CallData u)) (EDeny DCallData)) (\<lambda>calls.
     seqM (deny (length calls = 0 \<or> length calls > 16) DCallCount)
     (seqM (forM calls (check_call E cfg appID))
     (bindM (client_Quota E appID) (\<lambda>q.
     ret \<lparr>dc_AppID = appID, dc_Epoch = cq_Epoch q, dc_Quota = cq_Gas q, dc_Gas = of_int (TotalGas u),
       dc_SenderCap = (if Nonce u = Some 0 \<and> code = [] then cfg_NewSenderDailyCap cfg else cfg_SenderDailyCap cfg)\<rparr>)))))))))"

section \<open>What an answer is\<close>

text \<open>The app of a contract and the app, as the node states them at one question.\<close>

definition reply_body :: "sponsor_env \<Rightarrow> nat \<Rightarrow> endpoint \<Rightarrow> string option" where
  "reply_body E n path =
     (case Rest E n path of
        None \<Rightarrow> None
      | Some r \<Rightarrow> if rp_Status r = 200 then Some (take (2 ^ 20) (rp_Body r)) else None)"

definition says_app :: "sponsor_env \<Rightarrow> nat \<Rightarrow> u64 \<Rightarrow> chain_app \<Rightarrow> bool" where
  "says_app E n i a \<longleftrightarrow> (\<exists>b j. reply_body E n (EpApp i) = Some b \<and> AppJSON E b = Some j \<and> a = chain_app_of j)"

definition says_bound :: "sponsor_env \<Rightarrow> nat \<Rightarrow> addr \<Rightarrow> u64 \<Rightarrow> bool" where
  "says_bound E n c i \<longleftrightarrow> (\<exists>b j. reply_body E n (EpContract c) = Some b \<and> BindingJSON E b = Some j \<and> i = u64_of j)"

definition says_quota :: "sponsor_env \<Rightarrow> nat \<Rightarrow> u64 \<Rightarrow> chain_quota \<Rightarrow> bool" where
  "says_quota E n i q \<longleftrightarrow> (\<exists>b j. reply_body E n (EpQuota i) = Some b \<and> QuotaJSON E b = Some j \<and> q = chain_quota_of j)"

text \<open>
  Known to a request that begins at question \<open>a\<close> and has reached question \<open>z\<close>: the node said so during
  the request, or before it and the clock, read during the request, shows that the answer is not older
  than the time to live.
\<close>

definition known :: "sponsor_env \<Rightarrow> (nat \<Rightarrow> bool) \<Rightarrow> nat \<Rightarrow> nat \<Rightarrow> bool" where
  "known E said a z \<longleftrightarrow> (\<exists>n. said n \<and>
     (a \<le> n \<and> n < z \<or> (\<exists>k. a \<le> k \<and> Suc n < k \<and> k < z \<and> clock E k < clock E (Suc n) + CacheTTL E)))"

lemma known_mono: "known E said a z \<Longrightarrow> a' \<le> a \<Longrightarrow> z \<le> z' \<Longrightarrow> known E said a' z'"
  unfolding known_def by (meson le_trans less_le_trans)

text \<open>Every cached answer was given, and lives from the reading of the clock that follows it.\<close>

definition cache_ok :: "sponsor_env \<Rightarrow> sponsor \<Rightarrow> bool" where
  "cache_ok E s \<longleftrightarrow>
     (\<forall>i a exp. fmlookup (apps_cache s) i = Some (a, exp) \<longrightarrow>
        (\<exists>n. Suc n < tick s \<and> says_app E n i a \<and> exp = clock E (Suc n) + CacheTTL E)) \<and>
     (\<forall>c i exp. fmlookup (bindings s) c = Some (i, exp) \<longrightarrow>
        (\<exists>n. Suc n < tick s \<and> (i \<noteq> 0 \<longrightarrow> says_bound E n c i) \<and> exp = clock E (Suc n) + CacheTTL E))"

end
