(* ===== verification/SponsorStore.thy ===== *)
theory SponsorStore
  imports SponsorTypes
begin

text \<open>
  The accounting of the sponsor, \<open>services/sponsor/internal/store\<close>, and the reconciler that follows the
  chain, \<open>services/sponsor/internal/reconcile\<close>. Each SQL statement is a function on the tables that
  returns its rows or the number of rows it changed. A transaction sees the tables as they were when it
  began: the row locks it takes put transactions that touch the same rows one after the other.
\<close>

section \<open>Statements and transactions\<close>

definition exec :: "sponsor_env \<Rightarrow> (tables \<Rightarrow> 'a \<times> tables) \<Rightarrow> 'a service" where
  "exec E f = (\<lambda>s.
     if DbOk E (tick s) then (Inr (fst (f (db s))), s\<lparr>tick := Suc (tick s), db := snd (f (db s))\<rparr>)
     else (Inl EDb, s\<lparr>tick := Suc (tick s)\<rparr>))"

text \<open>\<open>pgx.BeginFunc\<close>: roll back on an error, else commit.\<close>

definition BeginFunc :: "sponsor_env \<Rightarrow> 'a service \<Rightarrow> 'a service" where
  "BeginFunc E m = (\<lambda>s.
     case m s of
       (Inl e, t) \<Rightarrow> (Inl e, t\<lparr>db := db s\<rparr>)
     | (Inr x, t) \<Rightarrow>
         (case Commit E (tick t) of
            Committed \<Rightarrow> (Inr x, t\<lparr>tick := Suc (tick t)\<rparr>)
          | RolledBack \<Rightarrow> (Inl EDb, t\<lparr>tick := Suc (tick t), db := db s\<rparr>)
          | CommitUnknown \<Rightarrow> (Inl EDb, t\<lparr>tick := Suc (tick t)\<rparr>)))"

text \<open>\<open>INSERT ... ON CONFLICT DO NOTHING\<close> and \<open>UPDATE ... WHERE\<close> on the usage of an app.\<close>

definition insert_usage :: "u64 \<times> u64 \<Rightarrow> tables \<Rightarrow> nat \<times> tables" where
  "insert_usage k d =
     (case fmlookup (usage d) k of Some v \<Rightarrow> (0, d) | None \<Rightarrow> (1, d\<lparr>usage := fmupd k (0, 0) (usage d)\<rparr>))"

definition debit_usage :: "u64 \<times> u64 \<Rightarrow> int \<Rightarrow> int \<Rightarrow> tables \<Rightarrow> nat \<times> tables" where
  "debit_usage k gas quota d =
     (case fmlookup (usage d) k of
        None \<Rightarrow> (0, d)
      | Some (g, n) \<Rightarrow> if g + gas \<le> quota then (1, d\<lparr>usage := fmupd k (g + gas, n + 1) (usage d)\<rparr>) else (0, d))"

definition release_usage :: "u64 \<times> u64 \<Rightarrow> int \<Rightarrow> tables \<Rightarrow> nat \<times> tables" where
  "release_usage k gas d =
     (case fmlookup (usage d) k of
        None \<Rightarrow> (0, d)
      | Some (g, n) \<Rightarrow> (1, d\<lparr>usage := fmupd k (max (g - gas) 0, n) (usage d)\<rparr>))"

definition insert_daily :: "addr \<times> int \<Rightarrow> tables \<Rightarrow> nat \<times> tables" where
  "insert_daily k d =
     (case fmlookup (daily d) k of Some v \<Rightarrow> (0, d) | None \<Rightarrow> (1, d\<lparr>daily := fmupd k 0 (daily d)\<rparr>))"

definition count_daily :: "addr \<times> int \<Rightarrow> int \<Rightarrow> tables \<Rightarrow> nat \<times> tables" where
  "count_daily k cap d =
     (case fmlookup (daily d) k of
        None \<Rightarrow> (0, d)
      | Some n \<Rightarrow> if n < cap then (1, d\<lparr>daily := fmupd k (n + 1) (daily d)\<rparr>) else (0, d))"

text \<open>The unique key of \<open>sponsor_signatures\<close>.\<close>

definition sg_key :: "signature_row \<Rightarrow> addr \<times> int \<times> u64" where
  "sg_key r = (sg_Sender r, sg_Nonce r, sg_App r)"

definition insert_signature :: "signature_row \<Rightarrow> tables \<Rightarrow> nat \<times> tables" where
  "insert_signature r d =
     (if sg_key r \<in> sg_key ` set (signatures d) then (0, d) else (1, d\<lparr>signatures := signatures d @ [r]\<rparr>))"

section \<open>Reservations\<close>

record reservation =
  rv_AppID :: u64
  rv_Epoch :: u64
  rv_Quota :: u64
  rv_Sender :: addr
  rv_Nonce :: int
  rv_Gas :: u64
  rv_SenderCap :: int
  rv_ValidUntil :: int

definition row_of :: "reservation \<Rightarrow> signature_row" where
  "row_of r =
     \<lparr>sg_App = rv_AppID r, sg_Epoch = rv_Epoch r, sg_Sender = rv_Sender r, sg_Nonce = rv_Nonce r,
      sg_Gas = uint (rv_Gas r), sg_ValidUntil = rv_ValidUntil r, sg_Settled = None\<rparr>"

text \<open>\<open>time.Now().UTC().Format("2006-01-02")\<close>, the days since 1970.\<close>

definition day_of :: "int \<Rightarrow> int" where
  "day_of t = Unix t div 86400"

definition reserve_tx :: "sponsor_env \<Rightarrow> reservation \<Rightarrow> unit service" where
  "reserve_tx E r =
     bindM (exec E (insert_usage (rv_AppID r, rv_Epoch r))) (\<lambda>_.
     bindM (exec E (debit_usage (rv_AppID r, rv_Epoch r) (uint (rv_Gas r)) (uint (rv_Quota r)))) (\<lambda>n.
     seqM (check (n \<noteq> 0) EQuotaExceeded)
     (bindM (time_Now E) (\<lambda>now.
     bindM (exec E (insert_daily (rv_Sender r, day_of now))) (\<lambda>_.
     bindM (exec E (count_daily (rv_Sender r, day_of now) (rv_SenderCap r))) (\<lambda>n.
     seqM (check (n \<noteq> 0) ESenderCap)
     (bindM (exec E (insert_signature (row_of r))) (\<lambda>n.
     check (n \<noteq> 0) EAlreadySigned))))))))"

definition store_Reserve :: "sponsor_env \<Rightarrow> reservation \<Rightarrow> unit service" where
  "store_Reserve E r = BeginFunc E (reserve_tx E r)"

text \<open>
  \<open>SELECT ... WHERE app_id AND sender AND settled_gas IS NULL ORDER BY id LIMIT 1 FOR UPDATE\<close>, and the
  update of the row it found. The cast of its gas to \<open>BIGINT\<close> fails above 63 bits.
\<close>

definition is_open :: "u64 \<Rightarrow> addr \<Rightarrow> signature_row \<Rightarrow> bool" where
  "is_open appID sender r \<longleftrightarrow> sg_App r = appID \<and> sg_Sender r = sender \<and> sg_Settled r = None"

fun settle_first :: "(signature_row \<Rightarrow> bool) \<Rightarrow> int \<Rightarrow> signature_row list \<Rightarrow> signature_row list" where
  "settle_first P g [] = []"
| "settle_first P g (r # rs) = (if P r then r\<lparr>sg_Settled := Some g\<rparr> # rs else r # settle_first P g rs)"

definition store_Settle :: "sponsor_env \<Rightarrow> u64 \<Rightarrow> addr \<Rightarrow> u64 \<Rightarrow> unit service" where
  "store_Settle E appID sender actualGas = BeginFunc E (
     bindM (exec E (\<lambda>d. (List.find (is_open appID sender) (signatures d), d))) (\<lambda>row.
     case row of
       None \<Rightarrow> ret ()
     | Some r \<Rightarrow>
         seqM (check (sg_Gas r < 2 ^ 63) EDb)
         (bindM (exec E (\<lambda>d. ((), d\<lparr>signatures := settle_first (is_open appID sender) (uint actualGas) (signatures d)\<rparr>))) (\<lambda>_.
         if uint actualGas < sg_Gas r
         then bindM (exec E (release_usage (appID, sg_Epoch r) (sg_Gas r - uint actualGas))) (\<lambda>_. ret ())
         else ret ()))))"

definition is_expired :: "int \<Rightarrow> signature_row \<Rightarrow> bool" where
  "is_expired now r \<longleftrightarrow> sg_Settled r = None \<and> sg_ValidUntil r < now"

definition expire_rows :: "int \<Rightarrow> tables \<Rightarrow> ((u64 \<times> u64) \<times> int) list \<times> tables" where
  "expire_rows now d =
     (map (\<lambda>r. ((sg_App r, sg_Epoch r), sg_Gas r)) (filter (is_expired now) (signatures d)),
      d\<lparr>signatures := map (\<lambda>r. if is_expired now r then r\<lparr>sg_Settled := Some 0\<rparr> else r) (signatures d)\<rparr>)"

definition store_ExpireUnused :: "sponsor_env \<Rightarrow> int \<Rightarrow> int service" where
  "store_ExpireUnused E now = BeginFunc E (
     bindM (exec E (expire_rows now)) (\<lambda>rels.
     seqM (check (\<forall>x \<in> set rels. snd x < 2 ^ 63) EDb)
     (seqM (forM rels (\<lambda>x. bindM (exec E (release_usage (fst x) (snd x))) (\<lambda>_. ret ())))
     (ret (int (length rels))))))"

definition store_Usage :: "sponsor_env \<Rightarrow> u64 \<Rightarrow> u64 \<Rightarrow> (int \<times> int) service" where
  "store_Usage E appID epoch =
     bindM (exec E (\<lambda>d. (fmlookup (usage d) (appID, epoch), d))) (\<lambda>v.
     case v of None \<Rightarrow> ret (0, 0) | Some (g, n) \<Rightarrow> seqM (check (g < 2 ^ 63) EDb) (ret (g, n)))"

definition store_Cursor :: "sponsor_env \<Rightarrow> string \<Rightarrow> u64 service" where
  "store_Cursor E name =
     bindM (exec E (\<lambda>d. (fmlookup (cursors d) name, d))) (\<lambda>v. ret (case v of None \<Rightarrow> 0 | Some b \<Rightarrow> b))"

definition store_SetCursor :: "sponsor_env \<Rightarrow> string \<Rightarrow> u64 \<Rightarrow> unit service" where
  "store_SetCursor E name b = exec E (\<lambda>d. ((), d\<lparr>cursors := fmupd name b (cursors d)\<rparr>))"

section \<open>The reconciler\<close>

definition maxRange :: u64 where "maxRange = 1000"

text \<open>One \<open>Sponsored\<close> event: the gas burned is its cost divided by its fee per gas.\<close>

definition settle_log :: "sponsor_env \<Rightarrow> eth_log \<Rightarrow> unit service" where
  "settle_log E l =
     (if length (el_Topics l) < 3 \<or> length (el_Data l) < 64 then ret ()
      else let appID = of_nat (SetBytes (el_Topics l ! 1));
               sender = common_BytesToAddress (el_Topics l ! 2);
               cost = SetBytes (take 32 (el_Data l));
               fee = SetBytes (take 32 (drop 32 (el_Data l)));
               gas = (if 0 < fee then of_nat (cost div fee) else 0)
           in store_Settle E appID sender gas)"

definition sync_range :: "sponsor_env \<Rightarrow> u64 \<Rightarrow> u64 \<Rightarrow> unit service" where
  "sync_range E from_b to_b =
     bindM (observe (\<lambda>n. FilterLogs E n from_b to_b)) (\<lambda>r.
     bindM (need r EUpstream) (\<lambda>logs.
     seqM (forM logs (settle_log E)) (store_SetCursor E ''sponsored'' (to_b + 1))))"

definition range_end :: "u64 \<Rightarrow> u64 \<Rightarrow> u64" where
  "range_end from_b head = min (from_b + maxRange - 1) head"

text \<open>The loop \<open>for from <= head\<close>; \<open>None\<close> when it does not end.\<close>

partial_function (option) sync_loop :: "sponsor_env \<Rightarrow> u64 \<Rightarrow> u64 \<Rightarrow> sponsor \<Rightarrow> ((sponsor_err + unit) \<times> sponsor) option" where
  "sync_loop E from_b head s =
     (if from_b \<le> head then
        (case sync_range E from_b (range_end from_b head) s of
           (Inl e, t) \<Rightarrow> Some (Inl e, t)
         | (Inr u, t) \<Rightarrow> sync_loop E (range_end from_b head + 1) head t)
      else Some (Inr (), s))"

definition sync_start :: "sponsor_env \<Rightarrow> (u64 \<times> u64) service" where
  "sync_start E =
     bindM (observe (BlockNumber E)) (\<lambda>h.
     bindM (need h EUpstream) (\<lambda>head.
     bindM (store_Cursor E ''sponsored'') (\<lambda>from_b. ret (if from_b = 0 then head else from_b, head))))"

definition reconcile_step :: "sponsor_env \<Rightarrow> sponsor \<Rightarrow> ((sponsor_err + unit) \<times> sponsor) option" where
  "reconcile_step E s =
     (case sync_start E s of
        (Inl e, t) \<Rightarrow> Some (Inl e, t)
      | (Inr (from_b, head), t) \<Rightarrow> sync_loop E from_b head t)"

text \<open>One turn of \<open>Run\<close>: errors of the step are logged, then unused reservations are released.\<close>

definition reconcile_turn :: "sponsor_env \<Rightarrow> sponsor \<Rightarrow> sponsor option" where
  "reconcile_turn E s =
     (case reconcile_step E s of
        None \<Rightarrow> None
      | Some (r, t) \<Rightarrow> Some (snd (bindM (time_Now E) (\<lambda>now. store_ExpireUnused E (Unix now)) t)))"

end
