(* ===== verification/SponsorLedger.thy ===== *)
theory SponsorLedger
  imports SponsorStore
begin

text \<open>
  The books of the sponsor. Every transaction either leaves the tables as they are or makes one of three
  changes: a granted reservation, the settlement of one, the release of those that expired. An
  invariant of the tables is one that survives these changes (\<open>store_invariant\<close>).
\<close>

section \<open>What a transaction does\<close>

definition gas_at :: "tables \<Rightarrow> u64 \<times> u64 \<Rightarrow> int" where
  "gas_at d k = (case fmlookup (usage d) k of None \<Rightarrow> 0 | Some v \<Rightarrow> fst v)"

definition ops_at :: "tables \<Rightarrow> u64 \<times> u64 \<Rightarrow> int" where
  "ops_at d k = (case fmlookup (usage d) k of None \<Rightarrow> 0 | Some v \<Rightarrow> snd v)"

definition daily_at :: "tables \<Rightarrow> addr \<times> int \<Rightarrow> int" where
  "daily_at d k = (case fmlookup (daily d) k of None \<Rightarrow> 0 | Some n \<Rightarrow> n)"

definition rv_key :: "reservation \<Rightarrow> u64 \<times> u64" where
  "rv_key r = (rv_AppID r, rv_Epoch r)"

definition sg_granted :: "reservation \<Rightarrow> int \<Rightarrow> tables \<Rightarrow> bool" where
  "sg_granted r day d \<longleftrightarrow>
     gas_at d (rv_key r) + uint (rv_Gas r) \<le> uint (rv_Quota r) \<and>
     daily_at d (rv_Sender r, day) < rv_SenderCap r \<and> sg_key (row_of r) \<notin> sg_key ` set (signatures d)"

definition reserved :: "reservation \<Rightarrow> int \<Rightarrow> tables \<Rightarrow> tables" where
  "reserved r day d = d\<lparr>
     usage := fmupd (rv_key r) (gas_at d (rv_key r) + uint (rv_Gas r), ops_at d (rv_key r) + 1) (usage d),
     daily := fmupd (rv_Sender r, day) (daily_at d (rv_Sender r, day) + 1) (daily d),
     signatures := signatures d @ [row_of r]\<rparr>"

definition tb_settled :: "u64 \<Rightarrow> addr \<Rightarrow> int \<Rightarrow> tables \<Rightarrow> tables" where
  "tb_settled i sender g d =
     (case List.find (is_open i sender) (signatures d) of
        None \<Rightarrow> d
      | Some r \<Rightarrow>
          let d' = d\<lparr>signatures := settle_first (is_open i sender) g (signatures d)\<rparr>
          in if g < sg_Gas r then snd (release_usage (i, sg_Epoch r) (sg_Gas r - g) d') else d')"

definition expired :: "int \<Rightarrow> tables \<Rightarrow> tables" where
  "expired now d = foldl (\<lambda>d x. snd (release_usage (fst x) (snd x) d)) (snd (expire_rows now d)) (fst (expire_rows now d))"

lemma exec_Inr [run_simps]:
  "exec E f s = (Inr x, t) \<longleftrightarrow>
     DbOk E (tick s) \<and> x = fst (f (db s)) \<and> t = s\<lparr>tick := Suc (tick s), db := snd (f (db s))\<rparr>"
  by (auto simp: exec_def)

lemma BeginFunc_cases:
  assumes "BeginFunc E m s = (r, t)"
  shows "db t = db s \<and> (\<exists>e. r = Inl e) \<or>
    (\<exists>x u. m s = (Inr x, u) \<and> db t = db u \<and> (r = Inr x \<or> r = Inl EDb \<and> Commit E (tick u) = CommitUnknown))"
  using assms by (auto simp: BeginFunc_def split: prod.splits sum.splits commit_outcome.splits)

lemma BeginFunc_Inr:
  "BeginFunc E m s = (Inr x, t) \<longleftrightarrow> (\<exists>u. m s = (Inr x, u) \<and> Commit E (tick u) = Committed \<and> t = u\<lparr>tick := Suc (tick u)\<rparr>)"
  by (auto simp: BeginFunc_def split: prod.splits sum.splits commit_outcome.splits)

text \<open>The steps of the body of \<open>Reserve\<close>, in any tables.\<close>

lemma fmupd_same: "fmlookup m k = Some v \<Longrightarrow> fmupd k v m = m"
  by (rule fmap_ext) auto

lemma fmupd_twice [simp]: "fmupd k a (fmupd k b m) = fmupd k a m"
  by (rule fmap_ext) auto

lemma reserve_statements:
  "snd (insert_usage k d) = d\<lparr>usage := fmupd k (gas_at d k, ops_at d k) (usage d)\<rparr>"
  "0 < fst (debit_usage k g q (d\<lparr>usage := fmupd k v (usage d)\<rparr>)) \<longleftrightarrow> fst v + g \<le> q"
  "snd (debit_usage k g q (d\<lparr>usage := fmupd k v (usage d)\<rparr>)) =
     d\<lparr>usage := fmupd k (if fst v + g \<le> q then (fst v + g, snd v + 1) else v) (usage d)\<rparr>"
  "snd (insert_daily j d) = d\<lparr>daily := fmupd j (daily_at d j) (daily d)\<rparr>"
  "0 < fst (count_daily j c (d\<lparr>daily := fmupd j n (daily d)\<rparr>)) \<longleftrightarrow> n < c"
  "snd (count_daily j c (d\<lparr>daily := fmupd j n (daily d)\<rparr>)) =
     d\<lparr>daily := fmupd j (if n < c then n + 1 else n) (daily d)\<rparr>"
  "0 < fst (insert_signature r d) \<longleftrightarrow> sg_key r \<notin> sg_key ` set (signatures d)"
  "snd (insert_signature r d) =
     d\<lparr>signatures := signatures d @ (if sg_key r \<in> sg_key ` set (signatures d) then [] else [r])\<rparr>"
  by (auto simp: insert_usage_def debit_usage_def insert_daily_def count_daily_def insert_signature_def gas_at_def ops_at_def
      daily_at_def fmupd_same split: option.splits prod.splits)

lemma daily_at_usage: "daily_at (d\<lparr>usage := u\<rparr>) k = daily_at d k"
  by (simp add: daily_at_def)

lemma reserve_body:
  "reserve_tx E r s = (Inr u, t) \<Longrightarrow>
   sg_granted r (day_of (clock E (tick s + 2))) (db s) \<and> db t = reserved r (day_of (clock E (tick s + 2))) (db s)"
  unfolding reserve_tx_def rv_key_def [symmetric]
  by (auto simp: bindM_Inr seqM_Inr exec_Inr reserve_statements daily_at_usage sg_granted_def reserved_def)

lemma Reserve_effect:
  assumes "store_Reserve E r s = (res, t)"
  shows "(db t = db s \<and> (\<exists>e. res = Inl e)) \<or>
    (\<exists>day. sg_granted r day (db s) \<and> db t = reserved r day (db s) \<and> (res = Inr () \<or> res = Inl EDb))"
proof -
  consider "db t = db s" "\<exists>e. res = Inl e"
    | u where "reserve_tx E r s = (Inr (), u)" "db t = db u" "res = Inr () \<or> res = Inl EDb"
    using BeginFunc_cases [OF assms [unfolded store_Reserve_def]] by auto
  then show ?thesis by cases (auto dest!: reserve_body)
qed

lemma Reserve_runs:
  assumes "\<And>n. DbOk E n" "\<And>n. Commit E n = Committed" "sg_granted r (day_of (clock E (tick s + 2))) (db s)"
  shows "\<exists>t. store_Reserve E r s = (Inr (), t)"
proof -
  have "\<exists>u. reserve_tx E r s = (Inr (), u)"
    unfolding reserve_tx_def rv_key_def [symmetric]
    using assms by (simp add: bindM_Inr seqM_Inr exec_Inr reserve_statements daily_at_usage sg_granted_def)
  then show ?thesis using assms(2) by (auto simp: store_Reserve_def BeginFunc_Inr)
qed

lemma Settle_effect:
  assumes "store_Settle E i sender g s = (res, t)"
  shows "(db t = db s \<and> (\<exists>e. res = Inl e)) \<or> (db t = tb_settled i sender (uint g) (db s) \<and> (res = Inr () \<or> res = Inl EDb))"
  using BeginFunc_cases [OF assms [unfolded store_Settle_def]]
  by (auto simp: bindM_Inr seqM_Inr exec_Inr tb_settled_def Let_def split: option.splits if_splits)

lemma release_statements:
  "forM rels (\<lambda>x. bindM (exec E (release_usage (fst x) (snd x))) (\<lambda>_. ret ())) s = (Inr u, t) \<Longrightarrow>
   db t = foldl (\<lambda>d x. snd (release_usage (fst x) (snd x) d)) (db s) rels"
  by (induction rels arbitrary: s) (auto simp: seqM_Inr bindM_Inr exec_Inr)

lemma Expire_effect:
  assumes "store_ExpireUnused E now s = (res, t)"
  shows "(db t = db s \<and> (\<exists>e. res = Inl e)) \<or>
    (db t = expired now (db s) \<and> (res = Inr (int (length (filter (is_expired now) (signatures (db s))))) \<or> res = Inl EDb))"
  using BeginFunc_cases [OF assms [unfolded store_ExpireUnused_def]]
  by (auto simp: bindM_Inr seqM_Inr exec_Inr expired_def expire_rows_def dest!: release_statements)

lemma SetCursor_effect:
  "store_SetCursor E n b s = (res, t) \<Longrightarrow> db t = db s \<or> db t = (db s)\<lparr>cursors := fmupd n b (cursors (db s))\<rparr>"
  by (auto simp: store_SetCursor_def exec_def split: if_splits)

section \<open>The loop of the reconciler\<close>

text \<open>What a range of blocks keeps, the loop keeps, and what the parts of a turn keep, the turn keeps.\<close>

lemma loop_keeps:
  assumes range: "\<And>a b. keeps P (sync_range E a b)" and loop: "sync_loop E a h s = Some y" and P: "P s"
  shows "P (snd y)"
proof -
  have "E' = E \<longrightarrow> P s \<longrightarrow> P (snd y)" if "sync_loop E' a h s = Some y" for E'
  proof (rule sync_loop.raw_induct [OF _ that, where P = "\<lambda>E' a h s y. E' = E \<longrightarrow> P s \<longrightarrow> P (snd y)"], intro impI)
    fix loop E' a h s y
    assume IH: "\<And>E' a h s y. loop E' a h s = Some y \<Longrightarrow> E' = E \<longrightarrow> P s \<longrightarrow> P (snd y)"
      and body: "(if a \<le> h then case sync_range E' a (range_end a h) s of (Inl e, t) \<Rightarrow> Some (Inl e, t)
        | (Inr u, t) \<Rightarrow> loop E' (range_end a h + 1) h t else Some (Inr (), s)) = Some y"
      and E: "E' = E" and s: "P s"
    obtain r t where rt: "sync_range E a (range_end a h) s = (r, t)" by (cases "sync_range E a (range_end a h) s")
    then have "P t" using keepsD [OF range s] by blast
    with body [unfolded E rt prod.case] IH s show "P (snd y)" by (cases r) (auto split: if_splits)
  qed
  with loop P show ?thesis by blast
qed

lemma turn_keeps:
  assumes "reconcile_turn E s = Some t" "P s"
    and "keeps P (sync_start E)" "\<And>a b. keeps P (sync_range E a b)"
      "keeps P (bindM (time_Now E) (\<lambda>now. store_ExpireUnused E (Unix now)))"
  shows "P t"
proof -
  obtain r u where u: "reconcile_step E s = Some (r, u)"
    "t = snd (bindM (time_Now E) (\<lambda>now. store_ExpireUnused E (Unix now)) u)"
    using assms(1) by (auto simp: reconcile_turn_def split: option.splits)
  obtain q v where v: "sync_start E s = (q, v)" by (cases "sync_start E s")
  have "P v" by (rule keepsD [OF assms(3,2) v])
  then have "P u"
    using u(1) v loop_keeps [OF assms(4), of _ _ v "(r, u)"]
    by (cases q) (auto simp: reconcile_step_def split: prod.splits)
  with assms(5) show ?thesis unfolding u(2) keeps_def by blast
qed

section \<open>Invariants of the tables\<close>

locale store_invariant =
  fixes I :: "tables \<Rightarrow> bool" and ok :: "reservation \<Rightarrow> bool"
  assumes reserve: "I d \<Longrightarrow> ok r \<Longrightarrow> sg_granted r day d \<Longrightarrow> I (reserved r day d)"
    and settle: "I d \<Longrightarrow> 0 \<le> g \<Longrightarrow> I (tb_settled i sender g d)"
    and expire: "I d \<Longrightarrow> I (expired now d)"
    and cursor: "I d \<Longrightarrow> I (d\<lparr>cursors := c\<rparr>)"
begin

abbreviation holds_in :: "sponsor \<Rightarrow> bool" where
  "holds_in s \<equiv> I (db s)"

lemma keeps_Reserve: "ok r \<Longrightarrow> keeps holds_in (store_Reserve E r)"
  by (rule keepsI) (auto dest!: Reserve_effect intro: reserve)

lemma keeps_Settle: "keeps holds_in (store_Settle E i sender g)"
  by (rule keepsI) (auto dest!: Settle_effect intro: settle)

lemma keeps_Expire: "keeps holds_in (store_ExpireUnused E now)"
  by (rule keepsI) (auto dest!: Expire_effect intro: expire)

lemma keeps_SetCursor: "keeps holds_in (store_SetCursor E n b)"
  by (rule keepsI) (auto dest!: SetCursor_effect intro: cursor)

lemma keeps_observe: "keeps holds_in (observe f)"
  by (rule keepsI) auto

lemma keeps_Cursor: "keeps holds_in (store_Cursor E n)"
  by (rule keepsI) (auto simp: store_Cursor_def bindM_def exec_def ret_def split: if_splits)

lemma keeps_sync_range: "keeps holds_in (sync_range E a b)"
  unfolding sync_range_def settle_log_def Let_def
  by (intro keeps_intros keeps_observe keeps_Settle keeps_SetCursor)

lemma keeps_sync_start: "keeps holds_in (sync_start E)"
  unfolding sync_start_def by (intro keeps_intros keeps_observe keeps_Cursor)

lemma reconcile_turn_keeps: "reconcile_turn E s = Some t \<Longrightarrow> I (db s) \<Longrightarrow> I (db t)"
  by (rule turn_keeps [where P = holds_in])
    (assumption | rule keeps_sync_start keeps_sync_range keeps_bindM keeps_observe keeps_Expire)+

end

section \<open>The ledger\<close>

text \<open>What a row still charges its app: all its gas while it is open, what was burned after that.\<close>

definition charge :: "signature_row \<Rightarrow> int" where
  "charge r = (case sg_Settled r of None \<Rightarrow> sg_Gas r | Some g \<Rightarrow> min g (sg_Gas r))"

definition charged :: "signature_row list \<Rightarrow> u64 \<times> u64 \<Rightarrow> int" where
  "charged rs k = (\<Sum>r \<leftarrow> rs. if (sg_App r, sg_Epoch r) = k then charge r else 0)"

definition granted_ops :: "signature_row list \<Rightarrow> u64 \<times> u64 \<Rightarrow> int" where
  "granted_ops rs k = int (length (filter (\<lambda>r. (sg_App r, sg_Epoch r) = k) rs))"

definition row_ok :: "signature_row \<Rightarrow> bool" where
  "row_ok r \<longleftrightarrow> 0 \<le> sg_Gas r \<and> (\<forall>g. sg_Settled r = Some g \<longrightarrow> 0 \<le> g)"

definition ledger_ok :: "tables \<Rightarrow> bool" where
  "ledger_ok d \<longleftrightarrow>
     (\<forall>k. gas_at d k = charged (signatures d) k \<and> ops_at d k = granted_ops (signatures d) k) \<and>
     list_all row_ok (signatures d) \<and> distinct (map sg_key (signatures d))"

lemma charge_nonneg: "row_ok r \<Longrightarrow> 0 \<le> charge r"
  by (auto simp: row_ok_def charge_def split: option.splits)

lemma charged_nonneg: "list_all row_ok rs \<Longrightarrow> 0 \<le> charged rs k"
  by (induction rs) (auto simp: charged_def charge_nonneg)

lemma charged_append: "charged (rs @ [r]) k = charged rs k + (if (sg_App r, sg_Epoch r) = k then charge r else 0)"
  by (simp add: charged_def)

lemma release_at:
  "signatures (snd (release_usage k g d)) = signatures d" "cursors (snd (release_usage k g d)) = cursors d"
  "daily (snd (release_usage k g d)) = daily d"
  "ops_at (snd (release_usage k g d)) j = ops_at d j"
  "0 \<le> g \<Longrightarrow> g \<le> gas_at d k \<Longrightarrow> gas_at (snd (release_usage k g d)) j = gas_at d j - (if j = k then g else 0)"
  by (auto simp: release_usage_def gas_at_def ops_at_def split: option.splits)

text \<open>Settling the first row that fits takes its unused gas off what is charged.\<close>

lemma settle_first_charged:
  assumes "List.find P rs = Some r" "list_all row_ok rs" "0 \<le> g" "\<And>x. P x \<Longrightarrow> sg_Settled x = None"
  shows "charged (settle_first P g rs) k = charged rs k - (if (sg_App r, sg_Epoch r) = k then max (sg_Gas r - g) 0 else 0)"
    "granted_ops (settle_first P g rs) k = granted_ops rs k"
    "list_all row_ok (settle_first P g rs)" "map sg_key (settle_first P g rs) = map sg_key rs"
    "sg_Gas r \<le> charged rs (sg_App r, sg_Epoch r)" "P r" "r \<in> set rs"
  using assms
proof (induction rs)
  case (Cons x rs)
  { case 1 then show ?case using Cons by (auto simp: charged_def charge_def split: if_splits) }
  { case 2 then show ?case using Cons by (auto simp: granted_ops_def split: if_splits) }
  { case 3 then show ?case using Cons by (auto simp: row_ok_def split: if_splits) }
  { case 4 then show ?case using Cons by (auto simp: sg_key_def split: if_splits) }
  { case 5 then show ?case using Cons charged_nonneg [of rs] charge_nonneg [of x]
      by (auto simp: charged_def charge_def split: if_splits) }
  { case 6 then show ?case using Cons by (auto split: if_splits) }
  { case 7 then show ?case using Cons by (auto split: if_splits) }
qed simp_all

lemma ledger_reserve:
  assumes "ledger_ok d" "sg_granted r day d"
  shows "ledger_ok (reserved r day d)"
proof -
  have "gas_at (reserved r day d) k = gas_at d k + (if k = rv_key r then uint (rv_Gas r) else 0)"
    "ops_at (reserved r day d) k = ops_at d k + (if k = rv_key r then 1 else 0)" for k
    by (auto simp: reserved_def gas_at_def ops_at_def)
  moreover have "granted_ops (signatures d @ [row_of r]) k = granted_ops (signatures d) k + (if k = rv_key r then 1 else 0)" for k
    by (auto simp: granted_ops_def row_of_def rv_key_def)
  moreover have "charged (signatures d @ [row_of r]) k = charged (signatures d) k + (if k = rv_key r then uint (rv_Gas r) else 0)" for k
    by (auto simp: charged_append row_of_def rv_key_def charge_def)
  moreover have "row_ok (row_of r)" by (simp add: row_ok_def row_of_def)
  ultimately show ?thesis using assms by (simp add: ledger_ok_def reserved_def sg_granted_def)
qed

lemma ledger_settle:
  assumes "ledger_ok d" "0 \<le> g"
  shows "ledger_ok (tb_settled i sender g d)"
proof (cases "List.find (is_open i sender) (signatures d)")
  case None
  with assms show ?thesis by (simp add: tb_settled_def)
next
  case (Some r)
  let ?P = "is_open i sender"
  let ?d = "d\<lparr>signatures := settle_first ?P g (signatures d)\<rparr>"
  have rows: "list_all row_ok (signatures d)" using assms by (simp add: ledger_ok_def)
  note f = settle_first_charged [OF Some rows assms(2)]
  have open_row: "\<And>x. ?P x \<Longrightarrow> sg_Settled x = None" "sg_App r = i"
    using f(6) by (auto simp: is_open_def)
  note f = f [OF open_row(1)]
  have at: "gas_at ?d k = gas_at d k" "ops_at ?d k = ops_at d k" for k by (simp_all add: gas_at_def ops_at_def)
  have le: "sg_Gas r \<le> gas_at d (i, sg_Epoch r)" using f(5) open_row(2) assms(1) by (simp add: ledger_ok_def)
  show ?thesis
  proof (cases "g < sg_Gas r")
    case True
    then have "tb_settled i sender g d = snd (release_usage (i, sg_Epoch r) (sg_Gas r - g) ?d)"
      using Some by (simp add: tb_settled_def)
    moreover have "gas_at (snd (release_usage (i, sg_Epoch r) (sg_Gas r - g) ?d)) k =
        gas_at d k - (if k = (i, sg_Epoch r) then sg_Gas r - g else 0)" for k
      using True le assms(2) by (subst release_at(5)) (simp_all add: at)
    ultimately show ?thesis
      using assms(1) f True open_row(2) by (auto simp: ledger_ok_def release_at at)
  next
    case False
    then have "tb_settled i sender g d = ?d" using Some by (simp add: tb_settled_def)
    then show ?thesis using assms(1) f False by (auto simp: ledger_ok_def at)
  qed
qed

text \<open>Releasing a list of reservations, when the usage covers them.\<close>

definition gas_released :: "((u64 \<times> u64) \<times> int) list \<Rightarrow> u64 \<times> u64 \<Rightarrow> int" where
  "gas_released rels k = (\<Sum>x \<leftarrow> rels. if fst x = k then snd x else 0)"

lemma gas_released_nonneg: "\<forall>x \<in> set rels. 0 \<le> snd x \<Longrightarrow> 0 \<le> gas_released rels k"
  by (induction rels) (auto simp: gas_released_def)

lemma release_all:
  assumes "\<forall>x \<in> set rels. 0 \<le> snd x" "\<forall>k. gas_released rels k \<le> gas_at d k"
  shows "let d' = foldl (\<lambda>d x. snd (release_usage (fst x) (snd x) d)) d rels in
    signatures d' = signatures d \<and> daily d' = daily d \<and> cursors d' = cursors d \<and>
    (\<forall>k. ops_at d' k = ops_at d k \<and> gas_at d' k = gas_at d k - gas_released rels k)"
  using assms
proof (induction rels arbitrary: d)
  case (Cons x rels)
  let ?d = "snd (release_usage (fst x) (snd x) d)"
  have x: "0 \<le> snd x" "snd x \<le> gas_at d (fst x)"
    using Cons.prems(1) gas_released_nonneg [of rels "fst x"] Cons.prems(2) [rule_format, of "fst x"]
    by (auto simp: gas_released_def)
  have at: "gas_at ?d k = gas_at d k - (if k = fst x then snd x else 0)" for k by (rule release_at(5) [OF x])
  have "\<forall>k. gas_released rels k \<le> gas_at ?d k"
  proof
    fix k show "gas_released rels k \<le> gas_at ?d k"
      using Cons.prems(2) [rule_format, of k] by (auto simp: at gas_released_def)
  qed
  with Cons.IH [of ?d] Cons.prems(1) show ?case by (auto simp: Let_def release_at at gas_released_def)
qed (simp add: gas_released_def)

lemma expire_charged:
  assumes "list_all row_ok rs"
  shows "charged (map (\<lambda>r. if is_expired now r then r\<lparr>sg_Settled := Some 0\<rparr> else r) rs) k =
      charged rs k - gas_released (map (\<lambda>r. ((sg_App r, sg_Epoch r), sg_Gas r)) (filter (is_expired now) rs)) k"
    "gas_released (map (\<lambda>r. ((sg_App r, sg_Epoch r), sg_Gas r)) (filter (is_expired now) rs)) k \<le> charged rs k"
    "granted_ops (map (\<lambda>r. if is_expired now r then r\<lparr>sg_Settled := Some 0\<rparr> else r) rs) k = granted_ops rs k"
    "list_all row_ok (map (\<lambda>r. if is_expired now r then r\<lparr>sg_Settled := Some 0\<rparr> else r) rs)"
    "map sg_key (map (\<lambda>r. if is_expired now r then r\<lparr>sg_Settled := Some 0\<rparr> else r) rs) = map sg_key rs"
  using assms
proof (induction rs)
  case (Cons x rs)
  { case 1 with Cons show ?case by (auto simp: charged_def gas_released_def charge_def is_expired_def row_ok_def) }
  { case 2 with Cons charge_nonneg [of x] show ?case by (auto simp: charged_def gas_released_def charge_def is_expired_def) }
  { case 3 with Cons show ?case by (auto simp: granted_ops_def) }
  { case 4 with Cons show ?case by (auto simp: row_ok_def) }
  { case 5 with Cons show ?case by (auto simp: sg_key_def) }
qed (simp_all add: charged_def gas_released_def granted_ops_def)

lemma ledger_expire:
  assumes "ledger_ok d"
  shows "ledger_ok (expired now d)"
proof -
  have rows: "list_all row_ok (signatures d)" using assms by (simp add: ledger_ok_def)
  note e = expire_charged [OF rows, of now]
  let ?d = "snd (expire_rows now d)" and ?rels = "fst (expire_rows now d)"
  have at: "gas_at ?d k = gas_at d k" "ops_at ?d k = ops_at d k" for k
    by (simp_all add: gas_at_def ops_at_def expire_rows_def)
  have "\<forall>x \<in> set ?rels. 0 \<le> snd x" using rows by (auto simp: expire_rows_def list_all_iff row_ok_def)
  moreover have "\<forall>k. gas_released ?rels k \<le> gas_at ?d k" using e(2) assms by (simp add: at ledger_ok_def) (simp add: expire_rows_def)
  ultimately have "signatures (expired now d) = signatures ?d \<and>
      (\<forall>k. ops_at (expired now d) k = ops_at d k \<and> gas_at (expired now d) k = gas_at d k - gas_released ?rels k)"
    using release_all [of ?rels ?d] by (simp add: Let_def expired_def at)
  moreover have "distinct (map sg_key (signatures ?d))"
  proof -
    have eq: "signatures ?d = map (\<lambda>r. if is_expired now r then r\<lparr>sg_Settled := Some 0\<rparr> else r) (signatures d)"
      by (simp add: expire_rows_def)
    show ?thesis using assms unfolding eq e(5) by (simp add: ledger_ok_def)
  qed
  ultimately show ?thesis using assms e(1,3,4) by (simp add: ledger_ok_def) (simp add: expire_rows_def)
qed

interpretation sponsor_ledger: store_invariant ledger_ok "\<lambda>_. True"
  by unfold_locales
    (auto intro: ledger_reserve ledger_settle ledger_expire, simp add: ledger_ok_def gas_at_def ops_at_def)

end
