(* ===== verification/SponsorSync.thy ===== *)
theory SponsorSync
  imports SponsorLedger
begin

text \<open>
  Bounds on the books of the sponsor, and the reconciler: its loop ends, it settles every event of the
  blocks it covers once and in order, and what happens to reservations while the node cannot be reached.
\<close>

section \<open>Quotas and daily caps\<close>

lemma settled_rows:
  "signatures (tb_settled i sender g d) = (case List.find (is_open i sender) (signatures d) of None \<Rightarrow> signatures d
     | Some r \<Rightarrow> settle_first (is_open i sender) g (signatures d))"
  "daily (tb_settled i sender g d) = daily d" "cursors (tb_settled i sender g d) = cursors d"
  by (auto simp: tb_settled_def Let_def release_at split: option.splits)

lemma expired_rows:
  assumes "ledger_ok d"
  shows "signatures (expired now d) = map (\<lambda>r. if is_expired now r then r\<lparr>sg_Settled := Some 0\<rparr> else r) (signatures d)"
    "daily (expired now d) = daily d" "cursors (expired now d) = cursors d"
proof -
  have f: "signatures (foldl (\<lambda>d x. snd (release_usage (fst x) (snd x) d)) d xs) = signatures d \<and>
      daily (foldl (\<lambda>d x. snd (release_usage (fst x) (snd x) d)) d xs) = daily d \<and>
      cursors (foldl (\<lambda>d x. snd (release_usage (fst x) (snd x) d)) d xs) = cursors d" for xs d
    by (induction xs arbitrary: d) (simp_all add: release_at)
  show "signatures (expired now d) = map (\<lambda>r. if is_expired now r then r\<lparr>sg_Settled := Some 0\<rparr> else r) (signatures d)"
    "daily (expired now d) = daily d" "cursors (expired now d) = cursors d"
    by (simp_all add: expired_def f) (simp_all add: expire_rows_def)
qed

lemma ledger_gas: "ledger_ok d \<Longrightarrow> gas_at d k = charged (signatures d) k"
  unfolding ledger_ok_def by blast

lemma settled_gas:
  assumes "ledger_ok d" "0 \<le> g"
  shows "gas_at (tb_settled i sender g d) k \<le> gas_at d k"
proof -
  have "gas_at (tb_settled i sender g d) k = charged (signatures (tb_settled i sender g d)) k" "gas_at d k = charged (signatures d) k"
    by (rule ledger_gas [OF ledger_settle [OF assms]], rule ledger_gas [OF assms(1)])
  moreover have "list_all row_ok (signatures d)" using assms by (simp add: ledger_ok_def)
  moreover have "charged (settle_first (is_open i sender) g (signatures d)) k \<le> charged (signatures d) k"
    if "List.find (is_open i sender) (signatures d) = Some r" for r
    using settle_first_charged(1) [OF that calculation(3) assms(2)] by (simp add: is_open_def)
  ultimately show ?thesis by (simp add: settled_rows split: option.split)
qed

lemma expired_gas:
  assumes "ledger_ok d"
  shows "gas_at (expired now d) k \<le> gas_at d k"
proof -
  have l: "list_all row_ok (signatures d)" using assms by (simp add: ledger_ok_def)
  have "0 \<le> gas_released (map (\<lambda>r. ((sg_App r, sg_Epoch r), sg_Gas r)) (filter (is_expired now) (signatures d))) k"
    using l by (intro gas_released_nonneg) (auto simp: list_all_iff row_ok_def)
  then show ?thesis
    unfolding ledger_gas [OF assms] ledger_gas [OF ledger_expire [OF assms]] expired_rows [OF assms] expire_charged(1) [OF l]
    by simp
qed

text \<open>Operations of a sender: as many in the daily table as there are rows.\<close>

definition sender_ops :: "tables \<Rightarrow> addr \<Rightarrow> int" where
  "sender_ops d a = kv_sum (\<lambda>k n. if fst k = a then n else 0) (daily d)"

definition sender_rows :: "tables \<Rightarrow> addr \<Rightarrow> int" where
  "sender_rows d a = int (length (filter (\<lambda>r. sg_Sender r = a) (signatures d)))"

definition sponsor_books_ok :: "(u64 \<times> u64 \<Rightarrow> int) \<Rightarrow> int \<Rightarrow> tables \<Rightarrow> bool" where
  "sponsor_books_ok Q C d \<longleftrightarrow>
     ledger_ok d \<and> (\<forall>k. gas_at d k \<le> Q k) \<and> (\<forall>j. daily_at d j \<le> C) \<and> (\<forall>a. sender_ops d a = sender_rows d a)"

definition rv_within :: "(u64 \<times> u64 \<Rightarrow> int) \<Rightarrow> int \<Rightarrow> reservation \<Rightarrow> bool" where
  "rv_within Q C r \<longleftrightarrow> uint (rv_Quota r) \<le> Q (rv_key r) \<and> rv_SenderCap r \<le> C"

lemma length_settle_first: "map sg_Sender (settle_first P g rs) = map sg_Sender rs"
  by (induction rs) simp_all

lemma sender_rows_map:
  assumes "map sg_Sender rs = map sg_Sender rs'"
  shows "length (filter (\<lambda>r. sg_Sender r = a) rs) = length (filter (\<lambda>r. sg_Sender r = a) rs')"
proof -
  have "length (filter (\<lambda>r. sg_Sender r = a) xs) = length (filter (\<lambda>x. x = a) (map sg_Sender xs))" for xs
    by (induction xs) auto
  with assms show ?thesis by metis
qed

lemma sender_ops_reserved:
  "sender_ops (reserved r day d) a = sender_ops d a + (if rv_Sender r = a then 1 else 0)"
  by (auto simp: sender_ops_def reserved_def kv_sum_upd kv_at_def daily_at_def split: option.splits)

lemma reserved_parts:
  "gas_at (reserved r day d) k = gas_at d k + (if k = rv_key r then uint (rv_Gas r) else 0)"
  "daily_at (reserved r day d) j = daily_at d j + (if j = (rv_Sender r, day) then 1 else 0)"
  "sender_rows (reserved r day d) a = sender_rows d a + (if rv_Sender r = a then 1 else 0)"
  by (auto simp: reserved_def gas_at_def daily_at_def sender_rows_def row_of_def)

lemma same_daily:
  "daily d' = daily d \<Longrightarrow> daily_at d' j = daily_at d j" "daily d' = daily d \<Longrightarrow> sender_ops d' a = sender_ops d a"
  by (simp_all add: daily_at_def sender_ops_def)

lemma cursor_irrelevant:
  "gas_at (d\<lparr>cursors := c\<rparr>) k = gas_at d k" "ops_at (d\<lparr>cursors := c\<rparr>) k = ops_at d k"
  "daily_at (d\<lparr>cursors := c\<rparr>) j = daily_at d j" "sender_ops (d\<lparr>cursors := c\<rparr>) a = sender_ops d a"
  "sender_rows (d\<lparr>cursors := c\<rparr>) a = sender_rows d a" "signatures (d\<lparr>cursors := c\<rparr>) = signatures d"
  by (simp_all add: gas_at_def ops_at_def daily_at_def sender_ops_def sender_rows_def)

lemma books_shrink:
  assumes "sponsor_books_ok Q C d" "ledger_ok d'" "\<And>k. gas_at d' k \<le> gas_at d k" "daily d' = daily d"
    "\<And>a. sender_rows d' a = sender_rows d a"
  shows "sponsor_books_ok Q C d'"
  unfolding sponsor_books_ok_def
proof (intro conjI allI assms(2))
  fix k show "gas_at d' k \<le> Q k"
    by (rule order_trans [OF assms(3)]) (use assms(1) in \<open>simp only: sponsor_books_ok_def\<close>)
next
  fix j show "daily_at d' j \<le> C"
    using assms(1) unfolding sponsor_books_ok_def same_daily(1) [OF assms(4)] by blast
next
  fix a show "sender_ops d' a = sender_rows d' a"
    using assms(1) unfolding sponsor_books_ok_def same_daily(2) [OF assms(4)] assms(5) by blast
qed

lemma books_ledger: "sponsor_books_ok Q C d \<Longrightarrow> ledger_ok d"
  by (simp only: sponsor_books_ok_def)

lemma settled_sender_rows: "sender_rows (tb_settled i sender g d) a = sender_rows d a"
  unfolding sender_rows_def
  by (intro arg_cong [where f = int] sender_rows_map) (simp add: settled_rows length_settle_first split: option.split)

lemma expired_sender_rows: "ledger_ok d \<Longrightarrow> sender_rows (expired now d) a = sender_rows d a"
  unfolding sender_rows_def by (intro arg_cong [where f = int] sender_rows_map) (auto simp: expired_rows)

interpretation sponsor_books: store_invariant "sponsor_books_ok Q C" "rv_within Q C" for Q C
proof unfold_locales
  fix d r day assume I: "sponsor_books_ok Q C d" and ok: "rv_within Q C r" and g: "sg_granted r day d"
  note i = I [unfolded sponsor_books_ok_def]
  show "sponsor_books_ok Q C (reserved r day d)"
    unfolding sponsor_books_ok_def reserved_parts sender_ops_reserved
  proof (intro conjI allI ledger_reserve [OF books_ledger [OF I] g])
    fix k show "gas_at d k + (if k = rv_key r then uint (rv_Gas r) else 0) \<le> Q k"
      using i ok g unfolding rv_within_def sg_granted_def by (cases "k = rv_key r") (auto simp del: split_paired_All dest: spec [of _ k])
  next
    fix j show "daily_at d j + (if j = (rv_Sender r, day) then 1 else 0) \<le> C"
      using i ok g unfolding rv_within_def sg_granted_def
      by (cases "j = (rv_Sender r, day)") (auto simp del: split_paired_All dest: spec [of _ j])
  next
    fix a show "sender_ops d a + (if rv_Sender r = a then 1 else 0) = sender_rows d a + (if rv_Sender r = a then 1 else 0)"
      using i by simp
  qed
next
  fix d i sender and g :: int assume I: "sponsor_books_ok Q C d" and g: "0 \<le> g"
  show "sponsor_books_ok Q C (tb_settled i sender g d)"
    by (rule books_shrink [OF I ledger_settle [OF books_ledger [OF I] g] settled_gas [OF books_ledger [OF I] g]
          settled_rows(2) settled_sender_rows])
next
  fix d now assume I: "sponsor_books_ok Q C d"
  note l = books_ledger [OF I]
  show "sponsor_books_ok Q C (expired now d)"
    by (rule books_shrink [OF I ledger_expire [OF l] expired_gas [OF l] expired_rows(2) [OF l] expired_sender_rows [OF l]])
qed (unfold sponsor_books_ok_def ledger_ok_def cursor_irrelevant)

lemma empty_books: "(\<And>k. 0 \<le> Q k) \<Longrightarrow> 0 \<le> C \<Longrightarrow> sponsor_books_ok Q C empty_tables"
  by (simp add: sponsor_books_ok_def ledger_ok_def gas_at_def ops_at_def daily_at_def sender_ops_def sender_rows_def
      empty_tables_def charged_def granted_ops_def)

text \<open>A signature stays on record, settled or not.\<close>

definition signed :: "addr \<times> int \<times> u64 \<Rightarrow> tables \<Rightarrow> bool" where
  "signed k d \<longleftrightarrow> k \<in> sg_key ` set (signatures d)"

lemma signed_keys: "signed k d \<longleftrightarrow> k \<in> set (map sg_key (signatures d))"
  by (simp add: signed_def)

lemma settle_first_keys: "map sg_key (settle_first P g rs) = map sg_key rs"
  by (induction rs) (simp_all add: sg_key_def)

lemma release_signatures: "signatures (foldl (\<lambda>d x. snd (release_usage (fst x) (snd x) d)) d xs) = signatures d"
  by (induction xs arbitrary: d) (simp_all add: release_at)

lemma expired_keys: "map sg_key (signatures (expired now d)) = map sg_key (signatures d)"
  by (simp add: expired_def release_signatures) (simp add: expire_rows_def sg_key_def)

lemma settled_keys: "map sg_key (signatures (tb_settled i sender g d)) = map sg_key (signatures d)"
  by (simp add: settled_rows settle_first_keys split: option.split)

interpretation record_kept: store_invariant "signed k" "\<lambda>_. True" for k
  by unfold_locales (simp_all only: signed_keys expired_keys settled_keys, simp_all add: reserved_def)

section \<open>The reconciler\<close>

text \<open>
  \<open>eth_getLogs\<close> on a chain with instant finality: the events of block \<open>b\<close> are \<open>L b\<close>, and a query that succeeds
  returns those of its range in order.
\<close>

definition log_history :: "sponsor_env \<Rightarrow> (nat \<Rightarrow> eth_log list) \<Rightarrow> bool" where
  "log_history E L \<longleftrightarrow>
     (\<forall>n a b logs. FilterLogs E n a b = Some logs \<longrightarrow> logs = concat (map L [unat a..<Suc (unat b)]))"

text \<open>What one event does to the tables.\<close>

definition log_effect :: "eth_log \<Rightarrow> tables \<Rightarrow> tables" where
  "log_effect l d =
     (if length (el_Topics l) < 3 \<or> length (el_Data l) < 64 then d
      else let cost = SetBytes (take 32 (el_Data l)); fee = SetBytes (take 32 (drop 32 (el_Data l)))
           in tb_settled (of_nat (SetBytes (el_Topics l ! 1))) (common_BytesToAddress (el_Topics l ! 2))
                (uint (if 0 < fee then of_nat (cost div fee) else 0 :: u64)) d)"

definition log_effects :: "eth_log list \<Rightarrow> tables \<Rightarrow> tables" where
  "log_effects logs d = foldl (\<lambda>d l. log_effect l d) d logs"

lemma settle_log_Inr: "settle_log E l s = (Inr u, t) \<Longrightarrow> db t = log_effect l (db s)"
  unfolding settle_log_def log_effect_def Let_def by (auto dest!: Settle_effect split: if_splits)

lemma settle_logs_Inr: "forM logs (settle_log E) s = (Inr u, t) \<Longrightarrow> db t = log_effects logs (db s)"
  by (induction logs arbitrary: s) (auto simp: log_effects_def seqM_Inr dest!: settle_log_Inr)

lemma log_effects_cursors: "(log_effects logs d)\<lparr>cursors := c\<rparr> = log_effects logs (d\<lparr>cursors := c\<rparr>)"
proof -
  have r: "(snd (release_usage k g d))\<lparr>cursors := c\<rparr> = snd (release_usage k g (d\<lparr>cursors := c\<rparr>))" for k g d
    by (auto simp: release_usage_def split: option.split)
  have "(tb_settled i a g d)\<lparr>cursors := c\<rparr> = tb_settled i a g (d\<lparr>cursors := c\<rparr>)" for i a g d
  proof (cases "List.find (is_open i a) (signatures d)")
    case (Some x)
    let ?f = "settle_first (is_open i a) g (signatures d)"
    have "d\<lparr>signatures := ?f, cursors := c\<rparr> = d\<lparr>cursors := c, signatures := ?f\<rparr>" by simp
    moreover have "tb_settled i a g e = (if g < sg_Gas x then snd (release_usage (i, sg_Epoch x) (sg_Gas x - g) (e\<lparr>signatures := ?f\<rparr>))
        else e\<lparr>signatures := ?f\<rparr>)" if "signatures e = signatures d" for e
      using Some that by (simp add: tb_settled_def Let_def)
    ultimately show ?thesis using r by (simp only: if_distrib [of "\<lambda>e. e\<lparr>cursors := c\<rparr>"] tables.simps) simp
  qed (simp add: tb_settled_def)
  then have "(log_effect l d)\<lparr>cursors := c\<rparr> = log_effect l (d\<lparr>cursors := c\<rparr>)" for l d
    by (auto simp: log_effect_def Let_def)
  then show ?thesis unfolding log_effects_def by (induction logs arbitrary: d) auto
qed

lemma log_effects_append: "log_effects (xs @ ys) d = log_effects ys (log_effects xs d)"
  by (simp add: log_effects_def)

lemma cursors_log_effects: "cursors (log_effects logs d) = cursors d"
proof -
  have "cursors (log_effect l d) = cursors d" for l d by (simp add: log_effect_def Let_def settled_rows)
  then show ?thesis unfolding log_effects_def by (induction logs arbitrary: d) auto
qed

lemma sync_range_Inr:
  assumes "sync_range E a b s = (Inr u, t)" "log_history E L"
  shows "db t = (log_effects (concat (map L [unat a..<Suc (unat b)])) (db s))
    \<lparr>cursors := fmupd ''sponsored'' (b + 1) (cursors (db s))\<rparr>"
proof -
  from assms(1) obtain logs u' where logs: "FilterLogs E (tick s) a b = Some logs"
      "forM logs (settle_log E) (s\<lparr>tick := Suc (tick s)\<rparr>) = (Inr (), u')"
      "db t = (db u')\<lparr>cursors := fmupd ''sponsored'' (b + 1) (cursors (db u'))\<rparr>"
    by (auto simp: sync_range_def bindM_Inr seqM_Inr store_SetCursor_def exec_Inr)
  have "db u' = log_effects logs (db s)" using settle_logs_Inr [OF logs(2)] by simp
  moreover have "logs = concat (map L [unat a..<Suc (unat b)])" using logs(1) assms(2) by (simp add: log_history_def)
  ultimately show ?thesis using logs(3) by (simp only: cursors_log_effects)
qed

text \<open>Block numbers that leave room for one more range.\<close>

lemma range_end_bounds:
  assumes "a \<le> h" "unat h + 1000 < 2 ^ 64"
  shows "a \<le> range_end a h" "range_end a h \<le> h" "unat (range_end a h + 1) = Suc (unat (range_end a h))"
proof -
  have "unat (a + maxRange - 1) = unat a + 999"
  proof -
    have "a + maxRange - 1 = a + 999" by (simp add: maxRange_def)
    moreover have "unat a \<le> unat h" using assms(1) by (simp add: word_le_nat_alt)
    ultimately show ?thesis using assms(2) by (simp only:, subst unat_add_small) simp_all
  qed
  then have "a \<le> a + maxRange - 1" by (simp add: word_le_nat_alt)
  then show "a \<le> range_end a h" using assms(1) by (simp add: range_end_def)
  show le: "range_end a h \<le> h" by (simp add: range_end_def)
  then have "unat (range_end a h) \<le> unat h" by (simp add: word_le_nat_alt)
  with assms(2) show "unat (range_end a h + 1) = Suc (unat (range_end a h))" by (simp add: unat_add_small)
qed

lemma upt_split: "i \<le> j \<Longrightarrow> j \<le> k \<Longrightarrow> [i..<Suc k] = [i..<Suc j] @ [Suc j..<Suc k]"
  by (metis Suc_le_mono le_Suc_eq le_add_diff_inverse upt_add_eq_append)

lemma sync_loop_ends:
  assumes "unat h + 1000 < 2 ^ 64"
  shows "\<exists>y. sync_loop E a h s = Some y"
proof (induction "Suc (unat h) - unat a" arbitrary: a s rule: less_induct)
  case less
  show ?case
  proof (cases "a \<le> h")
    case False
    then show ?thesis by (subst sync_loop.simps) simp
  next
    case True
    note e = range_end_bounds [OF True assms]
    obtain r t where rt: "sync_range E a (range_end a h) s = (r, t)" by (cases "sync_range E a (range_end a h) s")
    have "Suc (unat h) - unat (range_end a h + 1) < Suc (unat h) - unat a"
      using True e by (simp add: word_le_nat_alt)
    from less [OF this] show ?thesis
      using True rt by (subst sync_loop.simps) (cases r; auto)
  qed
qed

lemma sync_loop_exact:
  assumes "unat h + 1000 < 2 ^ 64" "log_history E L"
  shows "sync_loop E a h s = Some (Inr u, t) \<Longrightarrow> a \<le> h \<Longrightarrow>
    db t = (log_effects (concat (map L [unat a..<Suc (unat h)])) (db s))\<lparr>cursors := fmupd ''sponsored'' (h + 1) (cursors (db s))\<rparr>"
proof (induction "Suc (unat h) - unat a" arbitrary: a s rule: less_induct)
  case less
  let ?b = "range_end a h"
  note e = range_end_bounds [OF less.prems(2) assms(1)]
  obtain v where v: "sync_range E a ?b s = (Inr (), v)" and rest: "sync_loop E (?b + 1) h v = Some (Inr u, t)"
    using less.prems by (subst (asm) sync_loop.simps) (auto split: prod.splits sum.splits)
  have V: "db v = (log_effects (concat (map L [unat a..<Suc (unat ?b)])) (db s))\<lparr>cursors := fmupd ''sponsored'' (?b + 1) (cursors (db s))\<rparr>"
    by (rule sync_range_Inr [OF v assms(2)])
  show ?case
  proof (cases "?b = h")
    case True
    then have "t = v" using rest e(3) by (subst (asm) sync_loop.simps) (auto simp: word_le_nat_alt)
    with V True show ?thesis by simp
  next
    case False
    then have lt: "?b + 1 \<le> h" using e by (simp add: word_le_nat_alt) (metis Suc_leI le_neq_implies_less word_unat_eq_iff)
    have "Suc (unat h) - unat (?b + 1) < Suc (unat h) - unat a" using less.prems(2) e by (simp add: word_le_nat_alt)
    from less.hyps [OF this rest lt]
    have T: "db t = (log_effects (concat (map L [Suc (unat ?b)..<Suc (unat h)])) (db v))\<lparr>cursors := fmupd ''sponsored'' (h + 1) (cursors (db v))\<rparr>"
      by (simp only: e(3))
    have "[unat a..<Suc (unat h)] = [unat a..<Suc (unat ?b)] @ [Suc (unat ?b)..<Suc (unat h)]"
      by (rule upt_split) (use e(1,2) in \<open>simp_all add: word_le_nat_alt\<close>)
    then show ?thesis
      unfolding T V by (simp only: map_append concat_append log_effects_append log_effects_cursors) (simp add: cursors_log_effects)
  qed
qed

text \<open>Where a step starts: at the cursor, or at the head when there is none.\<close>

definition sync_from :: "tables \<Rightarrow> u64 \<Rightarrow> u64" where
  "sync_from d head = (case fmlookup (cursors d) ''sponsored'' of None \<Rightarrow> head | Some c \<Rightarrow> if c = 0 then head else c)"

lemma sync_start_Inr:
  assumes "sync_start E s = (Inr (a, h), t)"
  shows "BlockNumber E (tick s) = Some h \<and> a = sync_from (db s) h \<and> db t = db s"
  using assms by (auto simp: sync_start_def store_Cursor_def bindM_Inr exec_Inr sync_from_def split: option.splits)

lemma head_bound: "sync_start E s = (Inr (a, h), t) \<Longrightarrow> (\<And>n h. BlockNumber E n = Some h \<Longrightarrow> unat h + 1000 < 2 ^ 64) \<Longrightarrow> unat h + 1000 < 2 ^ 64"
  using sync_start_Inr by blast

text \<open>
  C22. A turn of the reconciler always ends: whatever the node and the database answer, and wherever the cursor
  stands, the loop over the block ranges terminates as long as block numbers leave room for one
  range below \<open>2 ^ 64\<close>. (Above that bound the end of a range wraps around and the loop starts over.)
\<close>

theorem reconcile_terminates:
  assumes "\<And>n h. BlockNumber E n = Some h \<Longrightarrow> unat h + 1000 < 2 ^ 64"
  shows "\<exists>t. reconcile_turn E s = Some t"
proof -
  have "\<exists>y. reconcile_step E s = Some y"
  proof (cases "sync_start E s")
    case (Pair r t)
    show ?thesis
    proof (cases r)
      case (Inr ah)
      obtain a h where "ah = (a, h)" by (cases ah)
      with Pair Inr show ?thesis
        using sync_loop_ends [OF head_bound [OF _ assms]] by (simp add: reconcile_step_def)
    qed (simp add: reconcile_step_def Pair)
  qed
  then show ?thesis by (auto simp: reconcile_turn_def)
qed

text \<open>
  C16. Every event is settled once and in order. A step that succeeds takes the events of exactly the blocks from
  the cursor (or the head, the first time) up to the head, in the order of the chain and however the
  ranges are cut, and moves the cursor behind the head; when the cursor is already there it changes nothing.
\<close>

theorem every_event_settled_once:
  assumes "log_history E L" "\<And>n h. BlockNumber E n = Some h \<Longrightarrow> unat h + 1000 < 2 ^ 64"
    and "reconcile_step E s = Some (Inr (), t)"
  shows "\<exists>head. BlockNumber E (tick s) = Some head \<and>
    db t = (if sync_from (db s) head \<le> head
      then (log_effects (concat (map L [unat (sync_from (db s) head)..<Suc (unat head)])) (db s))
             \<lparr>cursors := fmupd ''sponsored'' (head + 1) (cursors (db s))\<rparr>
      else db s)"
proof -
  obtain a h u where u: "sync_start E s = (Inr (a, h), u)" "sync_loop E a h u = Some (Inr (), t)"
    using assms(3) by (auto simp: reconcile_step_def split: prod.splits sum.splits)
  note i = sync_start_Inr [OF u(1)] and b = head_bound [OF u(1) assms(2)]
  have "\<not> a \<le> h \<Longrightarrow> t = u" using u(2) by (subst (asm) sync_loop.simps) simp
  with i sync_loop_exact [OF b assms(1) u(2)] show ?thesis by auto
qed

text \<open>
  Expiry does not wait for reconciliation. When the node cannot be reached, the step of a turn fails, but the turn
  still releases every reservation whose window has passed, although the events of these operations are
  not settled yet. When such an event is settled next and no row of the sender is open, settling does
  nothing: the gas is charged to no reservation of theirs. (With another open row of the sender for that
  app, the gas would be recorded on that one.)
\<close>

theorem unreachable_node_frees_used_gas:
  assumes "BlockNumber E (tick s) = None" "reconcile_turn E s = Some t"
    and db: "\<And>n. DbOk E n" "\<And>n. Commit E n = Committed"
    and rows: "ledger_ok (db s)" "\<forall>r \<in> set (signatures (db s)). sg_Gas r < 2 ^ 63"
    and due: "\<forall>r \<in> set (signatures (db s)). is_open i sender r \<longrightarrow> sg_ValidUntil r < Unix (clock E (Suc (tick s)))"
  shows "db t = expired (Unix (clock E (Suc (tick s)))) (db s) \<and> tb_settled i sender g (db t) = db t \<and>
    gas_at (db t) (i, e) =
      gas_at (db s) (i, e) - (\<Sum>r \<leftarrow> filter (is_expired (Unix (clock E (Suc (tick s))))) (signatures (db s)).
        if (sg_App r, sg_Epoch r) = (i, e) then sg_Gas r else 0)"
proof -
  let ?now = "Unix (clock E (Suc (tick s)))" and ?u = "s\<lparr>tick := Suc (tick s)\<rparr>"
  have "reconcile_step E s = Some (Inl EUpstream, ?u)"
    using assms(1) by (simp add: reconcile_step_def sync_start_def bindM_observe exec_simps)
  then have t: "t = snd (store_ExpireUnused E ?now (?u\<lparr>tick := Suc (Suc (tick s))\<rparr>))"
    using assms(2) by (simp add: reconcile_turn_def bindM_observe)
  have ok: "\<exists>v. forM rels (\<lambda>x. bindM (exec E (release_usage (fst x) (snd x))) (\<lambda>_. ret ())) w = (Inr (), v)" for rels w
    by (induction rels arbitrary: w) (auto simp: ret_def seqM_def bindM_def exec_def db(1))
  have x: "\<exists>n v. store_ExpireUnused E ?now w = (Inr n, v)" if "db w = db s" for w
  proof -
    have "\<forall>x \<in> set (fst (expire_rows ?now (db w))). snd x < 2 ^ 63" using rows(2) that by (auto simp: expire_rows_def)
    with ok show ?thesis
      by (simp add: store_ExpireUnused_def BeginFunc_Inr bindM_Inr seqM_Inr exec_Inr db)
  qed
  obtain n v where v: "store_ExpireUnused E ?now (?u\<lparr>tick := Suc (Suc (tick s))\<rparr>) = (Inr n, v)"
    using x [of "?u\<lparr>tick := Suc (Suc (tick s))\<rparr>"] by auto
  with Expire_effect [OF v] t have T: "db t = expired ?now (db s)" by auto
  have "\<not> is_open i sender r" if "r \<in> set (signatures (db t))" for r
    using that due unfolding T expired_rows [OF rows(1)] by (auto simp: is_open_def is_expired_def)
  then have "List.find (is_open i sender) (signatures (db t)) = None" by (simp add: find_None_iff)
  then have S: "tb_settled i sender g (db t) = db t" by (simp add: tb_settled_def)
  have l: "list_all row_ok (signatures (db s))" using rows(1) by (simp add: ledger_ok_def)
  have "gas_at (db t) (i, e) = gas_at (db s) (i, e) -
      gas_released (map (\<lambda>r. ((sg_App r, sg_Epoch r), sg_Gas r)) (filter (is_expired ?now) (signatures (db s)))) (i, e)"
    unfolding T ledger_gas [OF rows(1)] ledger_gas [OF ledger_expire [OF rows(1)]] expired_rows [OF rows(1)]
      expire_charged(1) [OF l] ..
  then show ?thesis using T S by (simp add: gas_released_def o_def cong: if_cong)
qed

end
