(* ===== verification/SponsorServer.thy ===== *)
theory SponsorServer
  imports SponsorPolicy SponsorSync
begin

text \<open>
  The JSON-RPC service in front of the sponsor, \<open>services/sponsor/internal/server\<close>: rate limits per
  client, the two paymaster methods and the signature. Texts of errors are constructors.
\<close>

section \<open>Requests and replies\<close>

text \<open>A request after \<open>json.Unmarshal\<close>; its parameters are still raw.\<close>

record rpc_req =
  rq_Method :: string
  rq_Params :: "byte list list"

text \<open>
  \<open>encoding/json\<close> and \<open>hexutil\<close> on the parameters: the fields of an object, the operation they make, an
  address, a number, and the text of \<open>appId\<close> in the context (empty when it cannot be read).
\<close>

record json_env =
  JSONFields :: "byte list \<Rightarrow> (string, byte list) fmap option"
  PlainOp :: "(string, byte list) fmap \<Rightarrow> userop option"
  AddressJSON :: "byte list \<Rightarrow> addr option"
  BigJSON :: "byte list \<Rightarrow> int option"
  ContextAppID :: "byte list \<Rightarrow> string"
  RequestJSON :: "byte list \<Rightarrow> rpc_req option"

datatype rpc_message =
    MParams | MInvalidParams | MAppIdRequired | MDenied deny_reason | MRefused sponsor_err | MUpstream | MInternal
  | MHash | MSign | MMethodNotFound

text \<open>\<open>RpcPanic\<close> is a panic of the handler: \<open>net/http\<close> closes the connection.\<close>

datatype rpc_err = RpcError int rpc_message | RpcPanic

record pm_result =
  pm_Paymaster :: addr
  pm_PaymasterData :: "byte list"
  pm_VerificationGasLimit :: int
  pm_PostOpGasLimit :: int
  pm_IsFinal :: bool

datatype rpc_value = EntryPoints "addr list" | PmResult pm_result

record server_cfg =
  sv_ChainID :: int
  sv_EntryPoint :: addr
  sv_Paymaster :: addr
  sv_Validity :: int

type_synonym 'a handler = "(rpc_err, sponsor, 'a) run"

text \<open>A call whose error is turned into a reply.\<close>

definition catch :: "(sponsor_err \<Rightarrow> rpc_err) \<Rightarrow> 'a service \<Rightarrow> 'a handler" where
  "catch h m = (\<lambda>s. case m s of (Inl e, t) \<Rightarrow> (Inl (h e), t) | (Inr x, t) \<Rightarrow> (Inr x, t))"

definition PaymasterVerificationGas :: int where "PaymasterVerificationGas = 80000"

definition PaymasterPostOpGas :: int where "PaymasterPostOpGas = 25000"

text \<open>\<open>UserOperation.UnmarshalJSON\<close> drops explicit nulls first; \<open>bytes.TrimSpace\<close> on ASCII.\<close>

definition is_space :: "byte \<Rightarrow> bool" where
  "is_space b \<longleftrightarrow> b \<in> {9, 10, 11, 12, 13, 32}"

definition trim_bytes :: "byte list \<Rightarrow> byte list" where
  "trim_bytes bs = rev (dropWhile is_space (rev (dropWhile is_space bs)))"

definition op_UnmarshalJSON :: "json_env \<Rightarrow> byte list \<Rightarrow> userop option" where
  "op_UnmarshalJSON J b =
     (case JSONFields J b of
        None \<Rightarrow> None
      | Some fs \<Rightarrow>
          PlainOp J (fmfilter (\<lambda>k. case fmlookup fs k of None \<Rightarrow> True | Some v \<Rightarrow> trim_bytes v \<noteq> string_bytes ''null'') fs))"

section \<open>The methods\<close>

definition stubSignature :: "byte list" where
  "stubSignature = (replicate 65 0xff)[64 := 0x1c]"

definition pm_reply :: "server_cfg \<Rightarrow> byte list \<Rightarrow> bool \<Rightarrow> rpc_value" where
  "pm_reply sv pmData final =
     PmResult \<lparr>pm_Paymaster = sv_Paymaster sv, pm_PaymasterData = pmData,
       pm_VerificationGasLimit = PaymasterVerificationGas, pm_PostOpGasLimit = PaymasterPostOpGas, pm_IsFinal = final\<rparr>"

definition reserve_reply :: "sponsor_err \<Rightarrow> rpc_err" where
  "reserve_reply e =
     (if e \<in> {EQuotaExceeded, ESenderCap, EAlreadySigned} then RpcError (-32602) (MRefused e)
      else RpcError (-32603) MInternal)"

definition reservation_of :: "userop \<Rightarrow> decision \<Rightarrow> u64 \<Rightarrow> reservation" where
  "reservation_of u dec validUntil =
     \<lparr>rv_AppID = dc_AppID dec, rv_Epoch = dc_Epoch dec, rv_Quota = dc_Quota dec, rv_Sender = Sender u,
      rv_Nonce = big0 (Nonce u), rv_Gas = dc_Gas dec, rv_SenderCap = dc_SenderCap dec, rv_ValidUntil = sint validUntil\<rparr>"

text \<open>The last byte of the signature becomes 27 or 28.\<close>

definition sign :: "sponsor_env \<Rightarrow> server_cfg \<Rightarrow> userop \<Rightarrow> decision \<Rightarrow> rpc_value handler" where
  "sign E sv u dec =
     bindM (catch reserve_reply (time_Now E)) (\<lambda>now.
     let validUntil = of_int (Unix (now + sv_Validity sv))
     in bindM (catch reserve_reply (store_Reserve E (reservation_of u dec validUntil))) (\<lambda>_.
        case SponsorHash (Codec E) u (sv_ChainID sv) (sv_Paymaster sv) validUntil 0 (dc_AppID dec) of
          Inl HashPanic \<Rightarrow> fail RpcPanic
        | Inl HashPack \<Rightarrow> fail (RpcError (-32603) MHash)
        | Inr h \<Rightarrow>
            (case SignHash E h of
               None \<Rightarrow> fail (RpcError (-32603) MSign)
             | Some sig \<Rightarrow>
                 if length sig < 65 then fail RpcPanic
                 else ret (pm_reply sv (PaymasterData validUntil 0 (dc_AppID dec) (sig[64 := sig ! 64 + 27])) True))))"

definition evaluate_reply :: "sponsor_err \<Rightarrow> rpc_err" where
  "evaluate_reply e = (case e of EDeny r \<Rightarrow> RpcError (-32602) (MDenied r) | _ \<Rightarrow> RpcError (-32603) MUpstream)"

text \<open>The paymaster's gas limits are the service's to set.\<close>

definition with_limits :: "userop \<Rightarrow> userop" where
  "with_limits u = u\<lparr>PaymasterVerificationGasLimit := Some PaymasterVerificationGas,
     PaymasterPostOpGasLimit := Some PaymasterPostOpGas\<rparr>"

definition pm_method :: "sponsor_env \<Rightarrow> json_env \<Rightarrow> policy_cfg \<Rightarrow> server_cfg \<Rightarrow> rpc_req \<Rightarrow> rpc_value handler" where
  "pm_method E J cfg sv req =
     (let ps = rq_Params req in
      if length ps < 3 then fail (RpcError (-32602) MParams)
      else case (op_UnmarshalJSON J (ps ! 0), AddressJSON J (ps ! 1), BigJSON J (ps ! 2)) of
        (Some u, Some ep, Some cid) \<Rightarrow>
          let appID = ParseInt (if 3 < length ps then ContextAppID J (ps ! 3) else '''')
          in if appID \<le> 0 then fail (RpcError (-32602) MAppIdRequired)
             else bindM (catch evaluate_reply (Evaluate E cfg (with_limits u) ep (Some cid) (of_int appID))) (\<lambda>dec.
               if rq_Method req = ''pm_getPaymasterStubData''
               then ret (pm_reply sv (PaymasterData 0 0 (dc_AppID dec) stubSignature) False)
               else sign E sv (with_limits u) dec)
      | _ \<Rightarrow> fail (RpcError (-32602) MInvalidParams))"

definition rpc_dispatch :: "sponsor_env \<Rightarrow> json_env \<Rightarrow> policy_cfg \<Rightarrow> server_cfg \<Rightarrow> rpc_req \<Rightarrow> rpc_value handler" where
  "rpc_dispatch E J cfg sv req =
     (if rq_Method req = ''pm_supportedEntryPoints'' then ret (EntryPoints [sv_EntryPoint sv])
      else if rq_Method req \<in> {''pm_getPaymasterStubData'', ''pm_getPaymasterData''} then pm_method E J cfg sv req
      else fail (RpcError (-32601) MMethodNotFound))"

section \<open>Rate limits\<close>

text \<open>A token bucket of \<open>golang.org/x/time/rate\<close>.\<close>

record 'l bucket =
  NewLimiter :: 'l
  AllowAt :: "'l \<Rightarrow> int \<Rightarrow> bool \<times> 'l"
  IdleAt :: "'l \<Rightarrow> int \<Rightarrow> bool"

record 'l server =
  sr_limiters :: "(string, 'l) fmap"
  sr_service :: sponsor

definition maxLimiters :: nat where "maxLimiters = 100000"

text \<open>\<open>IdleAt\<close> is \<open>l.Tokens() >= burst\<close>: the bucket is full again.\<close>

definition evictIdle :: "'l bucket \<Rightarrow> int \<Rightarrow> (string, 'l) fmap \<Rightarrow> (string, 'l) fmap" where
  "evictIdle B now m =
     (let kept = fmfilter (\<lambda>k. case fmlookup m k of None \<Rightarrow> True | Some l \<Rightarrow> \<not> IdleAt B l now) m
      in if maxLimiters \<le> fcard (fmdom kept) then fmempty else kept)"

definition limiter :: "'l bucket \<Rightarrow> int \<Rightarrow> string \<Rightarrow> (string, 'l) fmap \<Rightarrow> 'l \<times> (string, 'l) fmap" where
  "limiter B now ip m =
     (case fmlookup m ip of
        Some l \<Rightarrow> (l, m)
      | None \<Rightarrow>
          let m' = (if maxLimiters \<le> fcard (fmdom m) then evictIdle B now m else m)
          in (NewLimiter B, fmupd ip (NewLimiter B) m'))"

definition allow :: "'l bucket \<Rightarrow> int \<Rightarrow> string \<Rightarrow> (string, 'l) fmap \<Rightarrow> bool \<times> (string, 'l) fmap" where
  "allow B now ip m =
     (let (l, m') = limiter B now ip m; (ok, l') = AllowAt B l now in (ok, fmupd ip l' m'))"

section \<open>The client\<close>

text \<open>\<open>strings.Split(s, ",")\<close> and \<open>strings.TrimSpace\<close> on ASCII.\<close>

fun split_comma :: "string \<Rightarrow> string list" where
  "split_comma [] = [[]]"
| "split_comma (c # s) =
     (if c = CHR '','' then [] # split_comma s
      else case split_comma s of [] \<Rightarrow> [[c]] | p # ps \<Rightarrow> (c # p) # ps)"

definition trim_space :: "string \<Rightarrow> string" where
  "trim_space s = (let sp = (\<lambda>c. (of_char c :: nat) \<in> {9, 10, 11, 12, 13, 32})
     in rev (dropWhile sp (rev (dropWhile sp s))))"

text \<open>
  The hops from the last to the first. \<open>is_ip\<close> is \<open>net.ParseIP\<close> succeeding, \<open>trusted\<close> membership in the networks of the proxies.
\<close>

fun first_untrusted :: "(string \<Rightarrow> bool) \<Rightarrow> (string \<Rightarrow> bool) \<Rightarrow> string \<Rightarrow> string list \<Rightarrow> string" where
  "first_untrusted is_ip trusted peer [] = peer"
| "first_untrusted is_ip trusted peer (hop # hops) =
     (let h = trim_space hop in
      if h = '''' then first_untrusted is_ip trusted peer hops
      else if \<not> is_ip h then peer
      else if \<not> trusted h then h
      else first_untrusted is_ip trusted peer hops)"

definition ClientIP :: "(string \<Rightarrow> bool) \<Rightarrow> (string \<Rightarrow> bool) \<Rightarrow> string \<Rightarrow> string \<Rightarrow> string" where
  "ClientIP is_ip trusted peer forwarded =
     (if \<not> trusted peer then peer else first_untrusted is_ip trusted peer (rev (split_comma forwarded)))"

section \<open>The handler\<close>

datatype http_answer =
    PostOnly | RateLimited | BadBody | ParseError | Answer "rpc_err + rpc_value"

record http_request =
  hr_IsPost :: bool
  hr_Client :: string
  hr_Body :: "byte list option"

definition handleRPC ::
  "sponsor_env \<Rightarrow> json_env \<Rightarrow> policy_cfg \<Rightarrow> server_cfg \<Rightarrow> 'l bucket \<Rightarrow> http_request \<Rightarrow> 'l server \<Rightarrow> http_answer \<times> 'l server" where
  "handleRPC E J cfg sv B r srv =
     (if \<not> hr_IsPost r then (PostOnly, srv)
      else let s = sr_service srv; now = clock E (tick s);
               (ok, m) = allow B now (hr_Client r) (sr_limiters srv);
               srv' = srv\<lparr>sr_limiters := m, sr_service := s\<lparr>tick := Suc (tick s)\<rparr>\<rparr>
           in if \<not> ok then (RateLimited, srv')
              else case hr_Body r of
                None \<Rightarrow> (BadBody, srv')
              | Some body \<Rightarrow>
                  (case RequestJSON J (take (256 * 1024) body) of
                     None \<Rightarrow> (ParseError, srv')
                   | Some req \<Rightarrow>
                       let (res, t) = rpc_dispatch E J cfg sv req (sr_service srv')
                       in (Answer res, srv'\<lparr>sr_service := t\<rparr>)))"

end
