(* ===== verification/SponsorPolicyLaws.thy ===== *)
theory SponsorPolicyLaws
  imports SponsorPolicy
begin

text \<open>
  What the policy promises: an operation is sponsored only inside the app that pays for it. The answers
  it rests on are the node's, and none is older than the time to live of the caches.
\<close>

section \<open>Questions\<close>

text \<open>A request asks the world and fills the caches; the tables stay.\<close>

definition asks :: "sponsor_env \<Rightarrow> sponsor \<Rightarrow> sponsor \<Rightarrow> bool" where
  "asks E s t \<longleftrightarrow> tick s \<le> tick t \<and> db t = db s \<and> (cache_ok E s \<longrightarrow> cache_ok E t)"

lemma asks_refl [simp]: "asks E s s"
  by (simp add: asks_def)

lemma asks_trans: "asks E s t \<Longrightarrow> asks E t u \<Longrightarrow> asks E s u"
  by (auto simp: asks_def)

lemma cache_ok_tick: "cache_ok E s \<Longrightarrow> tick s \<le> n \<Longrightarrow> cache_ok E (s\<lparr>tick := n\<rparr>)"
  unfolding cache_ok_def by simp (meson less_le_trans)

lemma asks_tick: "tick s \<le> n \<Longrightarrow> asks E s (s\<lparr>tick := n\<rparr>)"
  by (simp add: asks_def cache_ok_tick)

lemma keeps_asks: "(\<And>s r t. m s = (r, t) \<Longrightarrow> asks E s t) \<Longrightarrow> keeps (asks E a) m"
  by (rule keepsI) (blast intro: asks_trans)

lemma asks_observe [keeps_intros]: "keeps (asks E a) (observe f)"
  by (rule keeps_asks) (auto intro: asks_tick)

lemma client_get_run:
  assumes "client_get E path decode s = (r, t)"
  shows "t = s\<lparr>tick := Suc (tick s)\<rparr>"
    "r = Inr x \<Longrightarrow> \<exists>b. reply_body E (tick s) path = Some b \<and> decode b = Some x"
  using assms by (cases r; auto simp: client_get_def bindM_Inr bindM_Inl reply_body_def Let_def split: option.splits if_splits)+

lemma asks_client_get [keeps_intros]: "keeps (asks E a) (client_get E' path decode)"
  by (rule keeps_asks) (auto dest!: client_get_run(1) intro: asks_tick)

lemma with_cache_run:
  assumes run: "with_cache E look put ask s = (r, t)"
    and ask: "\<And>u q v. ask u = (q, v) \<Longrightarrow> v = u\<lparr>tick := Suc (tick u)\<rparr> \<and> (\<forall>x. q = Inr x \<longrightarrow> said (tick u) x)"
    and put: "\<And>x exp u. tick (put x exp u) = tick u \<and> db (put x exp u) = db u"
      "\<And>x n u. cache_ok E u \<Longrightarrow> said n x \<Longrightarrow> Suc n < tick u \<Longrightarrow> cache_ok E (put x (clock E (Suc n) + CacheTTL E) u)"
    and look: "\<And>x exp u. cache_ok E u \<Longrightarrow> look u = Some (x, exp) \<Longrightarrow>
      \<exists>n. Suc n < tick u \<and> said n x \<and> exp = clock E (Suc n) + CacheTTL E"
  shows "asks E s t \<and> (\<forall>x. r = Inr x \<longrightarrow> cache_ok E s \<longrightarrow> known E (\<lambda>n. said n x) (tick s) (tick t))"
proof -
  let ?fetch = "bindM ask (\<lambda>x. bindM (time_Now E) (\<lambda>t. seqM (modify (put x (t + CacheTTL E))) (ret x)))"
  have fetch: "asks E u v \<and> (\<forall>x. q = Inr x \<longrightarrow> known E (\<lambda>n. said n x) (tick u) (tick v))"
    if run: "?fetch u = (q, v)" for u v q
  proof (cases "ask u")
    case (Pair q' u')
    note g = ask [OF Pair]
    show ?thesis
    proof (cases q')
      case (Inl e)
      with run Pair g show ?thesis by (auto simp: bindM_stop intro: asks_tick)
    next
      case (Inr x)
      let ?u = "u\<lparr>tick := Suc (Suc (tick u))\<rparr>"
      have v: "q = Inr x" "v = put x (clock E (Suc (tick u)) + CacheTTL E) ?u"
        using run Pair Inr g by (auto simp: bindM_def seqM_def observe_def modify_def ret_def)
      have "cache_ok E u \<Longrightarrow> cache_ok E v"
        unfolding v(2) using g Inr by (intro put(2)) (auto intro: cache_ok_tick)
      with v put(1) g Inr show ?thesis by (auto simp: asks_def known_def intro!: exI [of _ "tick u"])
    qed
  qed
  show ?thesis
  proof (cases "look s")
    case None
    with run fetch show ?thesis by (simp add: with_cache_def exec_simps Let_def)
  next
    case (Some e)
    obtain v exp where e: "e = (v, exp)" by (cases e)
    let ?s = "s\<lparr>tick := Suc (tick s)\<rparr>"
    have body: "(if clock E (tick s) < exp then ret v else ?fetch) ?s = (r, t)"
      using run Some e by (simp add: with_cache_def exec_simps Let_def bindM_observe split: if_splits)
    show ?thesis
    proof (cases "clock E (tick s) < exp")
      case True
      with body have "r = Inr v" "t = ?s" by auto
      moreover have "known E (\<lambda>n. said n v) (tick s) (Suc (tick s))" if "cache_ok E s"
        using look [OF that Some [unfolded e]] True unfolding known_def by (metis le_refl lessI)
      ultimately show ?thesis by (auto intro: asks_tick)
    next
      case False
      then have "?fetch ?s = (r, t)" using body by simp
      from fetch [OF this] have f: "asks E ?s t" "\<And>x. r = Inr x \<Longrightarrow> known E (\<lambda>n. said n x) (tick ?s) (tick t)"
        by auto
      have "asks E s t" by (rule asks_trans [OF asks_tick f(1)]) simp
      moreover have "known E (\<lambda>n. said n x) (tick s) (tick t)" if "r = Inr x" for x
        by (rule known_mono [OF f(2) [OF that]]) simp_all
      ultimately show ?thesis by simp
    qed
  qed
qed

lemma client_App_run:
  assumes "client_App E i s = (r, t)"
  shows "asks E s t \<and> (\<forall>a. r = Inr a \<longrightarrow> cache_ok E s \<longrightarrow> known E (\<lambda>n. says_app E n i a) (tick s) (tick t))"
proof (rule with_cache_run [OF assms [unfolded client_App_def]])
  fix u q v assume "bindM (client_get E (EpApp i) (AppJSON E)) (\<lambda>r. ret (chain_app_of r)) u = (q, v)"
  then show "v = u\<lparr>tick := Suc (tick u)\<rparr> \<and> (\<forall>x. q = Inr x \<longrightarrow> says_app E (tick u) i x)"
    by (cases q) (auto simp: bindM_Inr bindM_Inl says_app_def dest: client_get_run)
qed (auto simp: cache_ok_def)

lemma binding_id_run:
  assumes "binding_id E c s = (r, t)"
  shows "t = s\<lparr>tick := Suc (tick s)\<rparr> \<and> (\<forall>i. r = Inr i \<longrightarrow> i \<noteq> 0 \<longrightarrow> says_bound E (tick s) c i)"
proof (cases "client_get E (EpContract c) (BindingJSON E) s")
  case (Pair q u)
  note g = client_get_run [OF Pair]
  show ?thesis
  proof (cases q)
    case (Inl e)
    with assms Pair g(1) show ?thesis
      by (auto simp: binding_id_def bindM_def attempt_def ret_def fail_def split: if_splits)
  next
    case (Inr j)
    with assms Pair g show ?thesis
      by (auto simp: binding_id_def bindM_def attempt_def ret_def says_bound_def)
  qed
qed

lemma client_AppOfContract_run:
  assumes "client_AppOfContract E c s = (r, t)"
  shows "asks E s t \<and> (\<forall>i. r = Inr i \<longrightarrow> cache_ok E s \<longrightarrow> known E (\<lambda>n. i \<noteq> 0 \<longrightarrow> says_bound E n c i) (tick s) (tick t))"
  by (rule with_cache_run [OF assms [unfolded client_AppOfContract_def]])
    (auto simp: cache_ok_def dest: binding_id_run)

lemma asks_client [keeps_intros]:
  "keeps (asks E a) (client_App E i)" "keeps (asks E a) (client_AppOfContract E c)"
  "keeps (asks E a) (client_Quota E i)" "keeps (asks E a) (client_Code E c)"
  by (rule keeps_asks, use client_App_run client_AppOfContract_run in blast)+
    (unfold client_Quota_def client_Code_def, (intro keeps_intros)+)

lemma asks_Evaluate: "keeps (asks E a) (Evaluate E cfg u ep cid i)"
  unfolding Evaluate_def check_op_def check_app_def check_delegation_def check_call_def
  by (intro keeps_intros)

section \<open>What is sponsored\<close>

text \<open>A call that may be sponsored for app \<open>i\<close> in a request from question \<open>a\<close> to \<open>z\<close>.\<close>

definition call_allowed :: "sponsor_env \<Rightarrow> policy_cfg \<Rightarrow> u64 \<Rightarrow> nat \<Rightarrow> nat \<Rightarrow> account_call \<Rightarrow> bool" where
  "call_allowed E cfg i a z c \<longleftrightarrow>
     (Value c = None \<or> Value c = Some 0) \<and>
     (if Target c = cfg_Settle cfg
      then \<exists>rest. Data c = approveAppSelector E @ replicate 24 0 @ be 8 (unat i) @ rest
      else known E (\<lambda>n. says_bound E n (Target c) i) a z)"

lemma call_allowed_mono: "call_allowed E cfg i a z c \<Longrightarrow> a' \<le> a \<Longrightarrow> z \<le> z' \<Longrightarrow> call_allowed E cfg i a' z' c"
  by (auto simp: call_allowed_def elim: known_mono split: if_splits)

lemma call_words:
  assumes "\<not> length d < 36" "take 4 d = sel" "take 32 (drop 4 d) = w"
  shows "d = sel @ w @ drop 36 d"
proof -
  have "d = take 4 d @ drop 4 d" "drop 4 d = take 32 (drop 4 d) @ drop 32 (drop 4 d)" "drop 32 (drop 4 d) = drop 36 d"
    by (simp, rule append_take_drop_id [symmetric], simp)
  with assms(2,3) show ?thesis by metis
qed

lemma check_call_Inr:
  assumes "check_call E cfg i c s = (Inr (), t)" "i \<noteq> 0" "cache_ok E s"
  shows "call_allowed E cfg i (tick s) (tick t) c \<and> asks E s t"
proof (cases "Target c = cfg_Settle cfg")
  case True
  with assms have "t = s" "\<not> length (Data c) < 36" "take 4 (Data c) = approveAppSelector E"
    "take 32 (drop 4 (Data c)) = replicate 24 0 @ be 8 (unat i)" "Value c = None \<or> Value c = Some 0"
    by (auto simp: check_call_def seqM_Inr split: option.splits)
  moreover from calculation call_words [of "Data c"]
  have "\<exists>rest. Data c = approveAppSelector E @ replicate 24 0 @ be 8 (unat i) @ rest" by (metis append.assoc)
  ultimately show ?thesis using True by (auto simp: call_allowed_def)
next
  case False
  with assms obtain owner u where "client_AppOfContract E (Target c) s = (Inr owner, u)" "owner = i" "t = u"
    "Value c = None \<or> Value c = Some 0"
    by (auto simp: check_call_def seqM_Inr bindM_Inr split: option.splits)
  with client_AppOfContract_run [of E "Target c" s "Inr owner" u] assms(2,3) False
  show ?thesis by (auto simp: call_allowed_def)
qed

lemma check_calls_Inr:
  assumes "forM calls (check_call E cfg i) s = (Inr (), t)" "i \<noteq> 0" "cache_ok E s"
  shows "(\<forall>c \<in> set calls. call_allowed E cfg i (tick s) (tick t) c) \<and> asks E s t"
  using assms
proof (induction calls arbitrary: s)
  case (Cons c calls)
  then obtain u where u: "check_call E cfg i c s = (Inr (), u)" "forM calls (check_call E cfg i) u = (Inr (), t)"
    by (auto simp: seqM_Inr)
  have 1: "call_allowed E cfg i (tick s) (tick u) c \<and> asks E s u" by (rule check_call_Inr [OF u(1) Cons.prems(2,3)])
  then have 2: "(\<forall>c \<in> set calls. call_allowed E cfg i (tick u) (tick t) c) \<and> asks E u t"
    using Cons.prems by (intro Cons.IH [OF u(2)]) (auto simp: asks_def)
  show ?case using 1 2 by (auto simp: asks_def elim!: call_allowed_mono intro: asks_trans)
qed simp

text \<open>The factory and the delegate of the sender are on the lists of the service.\<close>

definition delegation_allowed :: "sponsor_env \<Rightarrow> policy_cfg \<Rightarrow> userop \<Rightarrow> byte list \<Rightarrow> bool" where
  "delegation_allowed E cfg u code \<longleftrightarrow>
     (snd (Delegation code) \<longrightarrow> fst (Delegation code) |\<in>| cfg_AllowedDelegates cfg) \<and>
     (EIP7702Auth u = [] \<or> (\<exists>a. AuthJSON E (EIP7702Auth u) = Some a \<and> a |\<in>| cfg_AllowedDelegates cfg)) \<and>
     (IsEIP7702 (Factory u) \<longrightarrow> EIP7702Auth u \<noteq> [] \<or> snd (Delegation code))"

lemma check_delegation_Inr:
  "check_delegation E cfg u code s = (Inr (), t) \<longleftrightarrow> t = s \<and> delegation_allowed E cfg u code"
  by (auto simp: check_delegation_def delegation_allowed_def seqM_Inr split: prod.splits option.splits)

lemma check_op_Inr:
  "check_op E cfg u ep cid i s = (Inr (), t) \<longleftrightarrow>
     t = s \<and> op_Validate (Shuffle E) u = None \<and> ep = cfg_EntryPoint cfg \<and> cid = Some (cfg_ChainID cfg) \<and> i \<noteq> 0 \<and>
     big0 (MaxFeePerGas u) \<le> cfg_MaxFeePerGas cfg \<and> 0 \<le> TotalGas u \<and> TotalGas u < 2 ^ 64 \<and>
     TotalGas u \<le> uint (cfg_MaxGasPerOp cfg)"
  by (auto simp: check_op_def seqM_Inr split: option.splits)

lemma check_app_Inr:
  assumes "check_app E i s = (Inr (), t)" "cache_ok E s"
  shows "known E (\<lambda>n. \<exists>a. says_app E n i a \<and> ca_Status a = ''APP_STATUS_ACTIVE'') (tick s) (tick t) \<and> asks E s t"
proof -
  obtain r u where r: "client_App E i s = (r, u)" by (cases "client_App E i s")
  then have "attempt (client_App E i) s = (Inr r, u)" by (simp add: attempt_def)
  with assms(1) obtain a where "r = Inr a" "u = t" "ca_Status a = ''APP_STATUS_ACTIVE''"
    unfolding check_app_def by (cases r) (auto simp: bindM_step split: if_splits)
  with r have "client_App E i s = (Inr a, t)" "ca_Status a = ''APP_STATUS_ACTIVE''" by simp_all
  with client_App_run [of E i s "Inr a" t] assms(2) show ?thesis unfolding known_def by auto
qed

lemma client_Quota_Inr:
  assumes "client_Quota E i s = (Inr q, t)"
  shows "says_quota E (tick s) i q \<and> t = s\<lparr>tick := Suc (tick s)\<rparr>"
  using assms by (auto simp: client_Quota_def bindM_Inr says_quota_def dest: client_get_run)

lemma client_Code_Inr:
  "client_Code E a s = (Inr c, t) \<longleftrightarrow> CodeAt E (tick s) a = Some c \<and> t = s\<lparr>tick := Suc (tick s)\<rparr>"
  by (auto simp: client_Code_def bindM_Inr)

lemma Evaluate_Inr:
  assumes "Evaluate E cfg u ep cid i s = (Inr d, t)"
  obtains s1 s2 code calls s3 q where
    "check_op E cfg u ep cid i s = (Inr (), s)" "check_app E i s = (Inr (), s1)"
    "snd (Factory_Address (Factory u)) \<longrightarrow> fst (Factory_Address (Factory u)) |\<in>| cfg_AllowedFactories cfg"
    "client_Code E (Sender u) s1 = (Inr code, s2)" "delegation_allowed E cfg u code"
    "DecodeCalls (Account E) (CallData u) = Some calls" "calls \<noteq> [] \<and> length calls \<le> 16"
    "forM calls (check_call E cfg i) s2 = (Inr (), s3)" "client_Quota E i s3 = (Inr q, t)"
    "d = \<lparr>dc_AppID = i, dc_Epoch = cq_Epoch q, dc_Quota = cq_Gas q, dc_Gas = of_int (TotalGas u),
       dc_SenderCap = (if Nonce u = Some 0 \<and> code = [] then cfg_NewSenderDailyCap cfg else cfg_SenderDailyCap cfg)\<rparr>"
  using assms unfolding Evaluate_def
  by (auto simp: seqM_Inr bindM_Inr check_delegation_Inr check_op_Inr)

lemma Evaluate_runs:
  assumes "check_op E cfg u ep cid i s = (Inr (), s)" "check_app E i s = (Inr (), s1)"
    "snd (Factory_Address (Factory u)) \<longrightarrow> fst (Factory_Address (Factory u)) |\<in>| cfg_AllowedFactories cfg"
    "client_Code E (Sender u) s1 = (Inr code, s2)" "delegation_allowed E cfg u code"
    "DecodeCalls (Account E) (CallData u) = Some calls" "calls \<noteq> []" "length calls \<le> 16"
    "forM calls (check_call E cfg i) s2 = (Inr (), s3)" "client_Quota E i s3 = (Inr q, t)"
  shows "\<exists>d. Evaluate E cfg u ep cid i s = (Inr d, t)"
proof -
  have "check_delegation E cfg u code s2 = (Inr (), s2)" using assms(5) by (simp add: check_delegation_Inr)
  with assms show ?thesis
    by (simp add: Evaluate_def seqM_def bindM_def check_def ret_def need_def)
qed

text \<open>
  C7. Sponsored gas is spent inside the app that earned it. When the policy accepts an operation for app
  \<open>i\<close>, the operation is valid, for this entry point and chain, within the caps for fee and gas; the node
  said that the app is active; every one of its 1 to 16 calls moves no native value and either is
  \<open>SETTLE.approveApp\<close> for \<open>i\<close> itself or goes to a contract that the node said is bound to \<open>i\<close>; a factory and a
  delegate are on the lists; the quota is the node's answer in this request. An answer of the
  node is from this request, or from the cache and not older than the time to live. Whatever the
  outcome, the tables are untouched.
\<close>

theorem sponsored_only_inside_app:
  assumes "Evaluate E cfg u ep cid i s = (Inr d, t)" "cache_ok E s"
  shows "op_Validate (Shuffle E) u = None \<and> ep = cfg_EntryPoint cfg \<and> cid = Some (cfg_ChainID cfg) \<and>
    big0 (MaxFeePerGas u) \<le> cfg_MaxFeePerGas cfg \<and> uint (dc_Gas d) = TotalGas u \<and> TotalGas u \<le> uint (cfg_MaxGasPerOp cfg) \<and>
    known E (\<lambda>n. \<exists>a. says_app E n i a \<and> ca_Status a = ''APP_STATUS_ACTIVE'') (tick s) (tick t) \<and>
    (\<exists>calls. DecodeCalls (Account E) (CallData u) = Some calls \<and> calls \<noteq> [] \<and> length calls \<le> 16 \<and>
       (\<forall>c \<in> set calls. call_allowed E cfg i (tick s) (tick t) c)) \<and>
    (snd (Factory_Address (Factory u)) \<longrightarrow> fst (Factory_Address (Factory u)) |\<in>| cfg_AllowedFactories cfg) \<and>
    (\<exists>n code. tick s \<le> n \<and> n < tick t \<and> CodeAt E n (Sender u) = Some code \<and> delegation_allowed E cfg u code) \<and>
    (\<exists>n q. tick s \<le> n \<and> n < tick t \<and> says_quota E n i q \<and> dc_AppID d = i \<and> dc_Epoch d = cq_Epoch q \<and> dc_Quota d = cq_Gas q) \<and>
    db t = db s \<and> cache_ok E t"
proof -
  obtain s1 s2 code calls s3 q where
    o: "check_op E cfg u ep cid i s = (Inr (), s)" and a: "check_app E i s = (Inr (), s1)" and
    f: "snd (Factory_Address (Factory u)) \<longrightarrow> fst (Factory_Address (Factory u)) |\<in>| cfg_AllowedFactories cfg" and
    c: "client_Code E (Sender u) s1 = (Inr code, s2)" "delegation_allowed E cfg u code" and
    k: "DecodeCalls (Account E) (CallData u) = Some calls" "calls \<noteq> [] \<and> length calls \<le> 16" and
    l: "forM calls (check_call E cfg i) s2 = (Inr (), s3)" and q: "client_Quota E i s3 = (Inr q, t)" and
    d: "d = \<lparr>dc_AppID = i, dc_Epoch = cq_Epoch q, dc_Quota = cq_Gas q, dc_Gas = of_int (TotalGas u),
       dc_SenderCap = (if Nonce u = Some 0 \<and> code = [] then cfg_NewSenderDailyCap cfg else cfg_SenderDailyCap cfg)\<rparr>"
    using assms(1) by (rule Evaluate_Inr)
  note o = o [unfolded check_op_Inr]
  have A: "known E (\<lambda>n. \<exists>a. says_app E n i a \<and> ca_Status a = ''APP_STATUS_ACTIVE'') (tick s) (tick s1)" "asks E s s1"
    using check_app_Inr [OF a assms(2)] by auto
  have C: "CodeAt E (tick s1) (Sender u) = Some code" "s2 = s1\<lparr>tick := Suc (tick s1)\<rparr>" "asks E s1 s2"
    using c(1) by (auto simp: client_Code_Inr intro: asks_tick)
  have ok: "cache_ok E s2" using A(2) C(3) assms(2) by (simp add: asks_def)
  have L: "\<forall>c \<in> set calls. call_allowed E cfg i (tick s2) (tick s3) c" "asks E s2 s3"
    using check_calls_Inr [OF l _ ok] o by auto
  have Q: "says_quota E (tick s3) i q" "t = s3\<lparr>tick := Suc (tick s3)\<rparr>" "asks E s3 t"
    using client_Quota_Inr [OF q] by (auto intro: asks_tick)
  have ticks: "tick s \<le> tick s1" "tick s1 < tick s2" "tick s2 \<le> tick s3" "tick s3 < tick t"
    using A(2) C(2) L(2) Q(2) by (simp_all add: asks_def)
  have K: "known E (\<lambda>n. \<exists>a. says_app E n i a \<and> ca_Status a = ''APP_STATUS_ACTIVE'') (tick s) (tick t)"
    by (rule known_mono [OF A(1)]) (use ticks in simp_all)
  have L': "\<forall>c \<in> set calls. call_allowed E cfg i (tick s) (tick t) c"
    using L(1) ticks by (auto elim!: call_allowed_mono)
  have "asks E s t" using A(2) C(3) L(2) Q(3) by (blast intro: asks_trans)
  then have T: "db t = db s" "cache_ok E t" using assms(2) by (simp_all add: asks_def)
  have "\<exists>n code. tick s \<le> n \<and> n < tick t \<and> CodeAt E n (Sender u) = Some code \<and> delegation_allowed E cfg u code"
    using C(1) c(2) ticks by (intro exI [of _ "tick s1"] exI [of _ code]) simp
  moreover have "\<exists>n q. tick s \<le> n \<and> n < tick t \<and> says_quota E n i q \<and> dc_AppID d = i \<and> dc_Epoch d = cq_Epoch q \<and> dc_Quota d = cq_Gas q"
    using Q(1) d ticks by (intro exI [of _ "tick s3"] exI [of _ q]) simp
  moreover have "uint (dc_Gas d) = TotalGas u" using o d by (simp add: uint_word_of_int)
  ultimately show ?thesis using o f k K L' T by blast
qed

end
