(* ===== verification/SponsorServerLaws.thy ===== *)
theory SponsorServerLaws
  imports SponsorServer SponsorPolicyLaws
begin

text \<open>
  What the service promises: a signature is given only after the reservation it stands for has been
  recorded within the quota the node stated, a refusal leaves no trace, one operation is signed once, and
  no sequence of requests, events, releases and failures exceeds the quotas.
\<close>

section \<open>Memory across the database calls\<close>

definition remembers :: "sponsor_env \<Rightarrow> sponsor \<Rightarrow> sponsor \<Rightarrow> bool" where
  "remembers E s t \<longleftrightarrow> tick s \<le> tick t \<and> (cache_ok E s \<longrightarrow> cache_ok E t)"

lemma asks_remembers: "asks E s t \<Longrightarrow> remembers E s t"
  by (simp add: asks_def remembers_def)

lemma remembers_trans: "remembers E s t \<Longrightarrow> remembers E t u \<Longrightarrow> remembers E s u"
  by (auto simp: remembers_def)

lemma cache_ok_db [simp]: "cache_ok E (s\<lparr>db := d\<rparr>) = cache_ok E s"
  by (simp add: cache_ok_def)

lemma remembers_tick: "tick s \<le> n \<Longrightarrow> remembers E s (s\<lparr>tick := n, db := d\<rparr>)"
  using cache_ok_tick [of E s n] by (simp add: remembers_def)

lemma keeps_remembers: "(\<And>s r t. m s = (r, t) \<Longrightarrow> remembers E s t) \<Longrightarrow> keeps (remembers E a) m"
  by (rule keepsI) (blast intro: remembers_trans)

lemma remembers_exec [keeps_intros]: "keeps (remembers E a) (exec E' f)"
proof (rule keeps_remembers)
  fix s r t assume "exec E' f s = (r, t)"
  then show "remembers E s t"
    using remembers_tick [of s "Suc (tick s)" E "snd (f (db s))"] remembers_tick [of s "Suc (tick s)" E "db s"]
    by (auto simp: exec_def split: if_splits)
qed

lemma remembers_observe [keeps_intros]: "keeps (remembers E a) (observe f)"
proof (rule keeps_remembers)
  fix s r t assume "observe f s = (r, t)"
  then show "remembers E s t" using remembers_tick [of s "Suc (tick s)" E "db s"] by auto
qed

lemma remembers_BeginFunc [keeps_intros]:
  assumes "\<And>a. keeps (remembers E a) m"
  shows "keeps (remembers E a) (BeginFunc E' m)"
proof (rule keeps_remembers)
  fix s r t assume run: "BeginFunc E' m s = (r, t)"
  obtain q u where u: "m s = (q, u)" by (cases "m s")
  have "remembers E s s" by (simp add: remembers_def)
  then have "remembers E s u" using keepsD [OF assms [of s] _ u] by blast
  moreover have "cache_ok E u \<Longrightarrow> cache_ok E (u\<lparr>tick := Suc (tick u)\<rparr>)" by (rule cache_ok_tick) simp_all
  ultimately show "remembers E s t"
    using run u by (auto simp: BeginFunc_def remembers_def cache_ok_def split: sum.splits commit_outcome.splits)
qed

lemma remembers_store [keeps_intros]:
  "keeps (remembers E a) (store_Reserve E' r)" "keeps (remembers E a) (store_Settle E' i sender g)"
  "keeps (remembers E a) (store_ExpireUnused E' now)" "keeps (remembers E a) (store_SetCursor E' n b)"
  unfolding store_Reserve_def reserve_tx_def store_Settle_def store_ExpireUnused_def store_SetCursor_def
  by (intro keeps_intros)+

lemma remembersD: "(\<And>a. keeps (remembers E a) m) \<Longrightarrow> m s = (r, t) \<Longrightarrow> remembers E s t"
proof -
  assume k: "\<And>a. keeps (remembers E a) m" and run: "m s = (r, t)"
  have "remembers E s s" by (simp add: remembers_def)
  then show ?thesis using keepsD [OF k [of s] _ run] by blast
qed

lemma remembers_Reserve: "store_Reserve E' r s = (q, t) \<Longrightarrow> remembers E s t"
  by (rule remembersD [where m = "store_Reserve E' r"]) (rule remembers_store)

section \<open>A request\<close>

lemma catch_run: "catch h m s = (r, t) \<longleftrightarrow>
    (\<exists>e. m s = (Inl e, t) \<and> r = Inl (h e)) \<or> (\<exists>x. m s = (Inr x, t) \<and> r = Inr x)"
  by (auto simp: catch_def split: prod.splits sum.splits)

abbreviation window_of :: "sponsor_env \<Rightarrow> server_cfg \<Rightarrow> sponsor \<Rightarrow> u64" where
  "window_of E sv s \<equiv> of_int (Unix (clock E (tick s) + sv_Validity sv))"

lemma sign_cases:
  assumes "sign E sv u dec s = (res, t)"
  obtains (refused) e where
      "store_Reserve E (reservation_of u dec (window_of E sv s)) (s\<lparr>tick := Suc (tick s)\<rparr>) = (Inl e, t)" "res = Inl (reserve_reply e)"
    | (failed) e where
      "store_Reserve E (reservation_of u dec (window_of E sv s)) (s\<lparr>tick := Suc (tick s)\<rparr>) = (Inr (), t)"
      "res = Inl e" "e \<in> {RpcPanic, RpcError (-32603) MHash, RpcError (-32603) MSign}"
    | (signed) h sig where
      "store_Reserve E (reservation_of u dec (window_of E sv s)) (s\<lparr>tick := Suc (tick s)\<rparr>) = (Inr (), t)"
      "SponsorHash (Codec E) u (sv_ChainID sv) (sv_Paymaster sv) (window_of E sv s) 0 (dc_AppID dec) = Inr h"
      "SignHash E h = Some sig" "65 \<le> length sig"
      "res = Inr (pm_reply sv (PaymasterData (window_of E sv s) 0 (dc_AppID dec) (sig[64 := sig ! 64 + 27])) True)"
proof -
  let ?r = "store_Reserve E (reservation_of u dec (window_of E sv s)) (s\<lparr>tick := Suc (tick s)\<rparr>)"
  obtain q v where v: "?r = (q, v)" by (cases ?r)
  have "catch reserve_reply (time_Now E) s = (Inr (clock E (tick s)), s\<lparr>tick := Suc (tick s)\<rparr>)"
    by (simp add: catch_def observe_def)
  note run = assms [unfolded sign_def bindM_step [where m = "catch reserve_reply (time_Now E)", OF this] Let_def]
  show thesis
  proof (cases q)
    case (Inl e)
    with run v have "res = Inl (reserve_reply e)" "t = v" by (auto simp: bindM_def catch_def)
    with Inl v show thesis by (intro refused) simp_all
  next
    case (Inr x)
    then have c: "catch reserve_reply (store_Reserve E (reservation_of u dec (window_of E sv s))) (s\<lparr>tick := Suc (tick s)\<rparr>) = (Inr x, v)"
      using v by (simp add: catch_def)
    note run = run [unfolded bindM_step [where m = "catch reserve_reply (store_Reserve E (reservation_of u dec (window_of E sv s)))", OF c]]
    from run have t: "t = v"
      by (auto simp: ret_def fail_def split: sum.splits hash_err.splits option.splits if_splits)
    from run show thesis
      using v Inr t failed signed
      by (auto simp: ret_def fail_def not_less split: sum.splits hash_err.splits option.splits if_splits)
  qed
qed

text \<open>The app a request asks for.\<close>

definition asked_app :: "json_env \<Rightarrow> rpc_req \<Rightarrow> u64" where
  "asked_app J req = of_int (ParseInt (if 3 < length (rq_Params req) then ContextAppID J (rq_Params req ! 3) else ''''))"

text \<open>A request that reaches the database: its operation was decoded and accepted.\<close>

definition accepted :: "sponsor_env \<Rightarrow> json_env \<Rightarrow> policy_cfg \<Rightarrow> rpc_req \<Rightarrow> sponsor \<Rightarrow> userop \<Rightarrow> decision \<Rightarrow> sponsor \<Rightarrow> bool" where
  "accepted E J cfg req s u dec s' \<longleftrightarrow>
     (\<exists>w ep cid. op_UnmarshalJSON J (rq_Params req ! 0) = Some w \<and> u = with_limits w \<and>
        AddressJSON J (rq_Params req ! 1) = Some ep \<and> BigJSON J (rq_Params req ! 2) = Some cid \<and>
        Evaluate E cfg u ep (Some cid) (asked_app J req) s = (Inr dec, s'))"

lemma dispatch_cases:
  assumes "rpc_dispatch E J cfg sv req s = (res, t)"
  obtains (answered) "asks E s t" "\<And>e. res = Inl e \<Longrightarrow> e \<notin> {RpcPanic, RpcError (-32603) MInternal, RpcError (-32603) MHash, RpcError (-32603) MSign}"
      "\<And>p. res = Inr (PmResult p) \<Longrightarrow> \<not> pm_IsFinal p"
    | (reserving) u dec s' where "rq_Method req = ''pm_getPaymasterData''" "accepted E J cfg req s u dec s'" "sign E sv u dec s' = (res, t)"
proof (cases "rq_Method req \<in> {''pm_getPaymasterStubData'', ''pm_getPaymasterData''} \<and> 3 \<le> length (rq_Params req)")
  case False
  with assms show thesis
    by (intro answered) (auto simp: rpc_dispatch_def pm_method_def Let_def ret_def fail_def split: if_splits)
next
  case True
  show thesis
  proof (cases "op_UnmarshalJSON J (rq_Params req ! 0) = None \<or> AddressJSON J (rq_Params req ! 1) = None \<or>
      BigJSON J (rq_Params req ! 2) = None \<or>
      ParseInt (if 3 < length (rq_Params req) then ContextAppID J (rq_Params req ! 3) else '''') \<le> 0")
    case bad: True
    with True assms have "t = s" "res = Inl (RpcError (-32602) MInvalidParams) \<or> res = Inl (RpcError (-32602) MAppIdRequired)"
      by (auto simp: rpc_dispatch_def pm_method_def Let_def fail_def split: option.splits if_splits)
    then show thesis by (intro answered) auto
  next
    case good: False
    then obtain w ep cid where w: "op_UnmarshalJSON J (rq_Params req ! 0) = Some w"
      "AddressJSON J (rq_Params req ! 1) = Some ep" "BigJSON J (rq_Params req ! 2) = Some cid" by auto
    let ?ev = "Evaluate E cfg (with_limits w) ep (Some cid) (asked_app J req)"
    have run: "bindM (catch evaluate_reply ?ev) (\<lambda>dec.
        if rq_Method req = ''pm_getPaymasterStubData''
        then ret (pm_reply sv (PaymasterData 0 0 (dc_AppID dec) stubSignature) False)
        else sign E sv (with_limits w) dec) s = (res, t)"
      using assms True good w by (simp add: rpc_dispatch_def pm_method_def Let_def asked_app_def split: if_splits)
    obtain q v where v: "?ev s = (q, v)" by (cases "?ev s")
    have a: "asks E s v" by (rule keepsD [OF asks_Evaluate asks_refl v])
    show thesis
    proof (cases q)
      case (Inl e)
      with run v have "res = Inl (evaluate_reply e)" "t = v" by (auto simp: bindM_def catch_def)
      with a show thesis by (intro answered) (auto simp: evaluate_reply_def split: sponsor_err.splits)
    next
      case (Inr dec)
      then have c: "catch evaluate_reply ?ev s = (Inr dec, v)" using v by (simp add: catch_def)
      show thesis
      proof (cases "rq_Method req = ''pm_getPaymasterStubData''")
        case True
        with run c a show thesis by (intro answered) (auto simp: bindM_step pm_reply_def)
      next
        case False
        with run c True have "sign E sv (with_limits w) dec v = (res, t)" "rq_Method req = ''pm_getPaymasterData''"
          by (auto simp: bindM_step)
        with v Inr w show thesis by (intro reserving [of "with_limits w" dec v]) (auto simp: accepted_def)
      qed
    qed
  qed
qed

lemma accepted_facts:
  assumes "accepted E J cfg req s u dec s'" "cache_ok E s"
  shows "op_Validate (Shuffle E) u = None" "dc_AppID dec = asked_app J req" "uint (dc_Gas dec) = TotalGas u"
    "\<exists>n q. tick s \<le> n \<and> n < tick s' \<and> says_quota E n (asked_app J req) q \<and> dc_Epoch dec = cq_Epoch q \<and> dc_Quota dec = cq_Gas q"
    "dc_SenderCap dec \<in> {cfg_SenderDailyCap cfg, cfg_NewSenderDailyCap cfg}" "asks E s s'"
proof -
  from assms(1) obtain w ep cid where w: "op_UnmarshalJSON J (rq_Params req ! 0) = Some w" "u = with_limits w"
    and ev: "Evaluate E cfg u ep (Some cid) (asked_app J req) s = (Inr dec, s')"
    by (auto simp: accepted_def)
  show "asks E s s'" by (rule keepsD [OF asks_Evaluate asks_refl ev])
  from ev show parts: "op_Validate (Shuffle E) u = None" "dc_AppID dec = asked_app J req" "uint (dc_Gas dec) = TotalGas u"
    "dc_SenderCap dec \<in> {cfg_SenderDailyCap cfg, cfg_NewSenderDailyCap cfg}"
    by (rule Evaluate_Inr; auto simp: check_op_Inr uint_word_of_int)+
  from ev show "\<exists>n q. tick s \<le> n \<and> n < tick s' \<and> says_quota E n (asked_app J req) q \<and> dc_Epoch dec = cq_Epoch q \<and> dc_Quota dec = cq_Gas q"
  proof (rule Evaluate_Inr)
    fix s1 s2 code calls s3 q
    assume c: "check_app E (asked_app J req) s = (Inr (), s1)" "client_Code E (Sender u) s1 = (Inr code, s2)"
      "forM calls (check_call E cfg (asked_app J req)) s2 = (Inr (), s3)" "client_Quota E (asked_app J req) s3 = (Inr q, s')"
      "check_op E cfg u ep (Some cid) (asked_app J req) s = (Inr (), s)"
      and d: "dec = \<lparr>dc_AppID = asked_app J req, dc_Epoch = cq_Epoch q, dc_Quota = cq_Gas q, dc_Gas = of_int (TotalGas u),
       dc_SenderCap = (if Nonce u = Some 0 \<and> code = [] then cfg_NewSenderDailyCap cfg else cfg_SenderDailyCap cfg)\<rparr>"
    have "asks E s s1" using check_app_Inr [OF c(1) assms(2)] by simp
    moreover have 2: "asks E s1 s2" using c(2) by (auto simp: client_Code_Inr intro: asks_tick)
    moreover have "asks E s2 s3"
      using check_calls_Inr [OF c(3)] c(5) calculation assms(2) by (auto simp: check_op_Inr asks_def)
    ultimately have "tick s \<le> tick s3" by (simp add: asks_def)
    with client_Quota_Inr [OF c(4)] d show ?thesis by (intro exI [of _ "tick s3"] exI [of _ q]) simp
  qed
qed

text \<open>The limits the service sets make every valid operation hashable, so signing does not panic.\<close>

lemma hash_total:
  assumes "shuffles f" "op_Validate f (with_limits w) = None"
  shows "SponsorHash K (with_limits w) c p vu va a \<noteq> Inl HashPanic"
proof -
  note r = gas_fields_in_range [OF assms, THEN in_range_big0]
  have "AccountGasLimits (with_limits w) \<noteq> None" unfolding AccountGasLimits_def by (rule pack128_fits) (use r in auto)
  moreover have "GasFees (with_limits w) \<noteq> None" unfolding GasFees_def by (rule pack128_fits) (use r in auto)
  moreover have "PaymasterGasLimits (with_limits w) \<noteq> None" unfolding PaymasterGasLimits_def
    by (rule pack128_fits) (simp_all add: with_limits_def PaymasterVerificationGas_def PaymasterPostOpGas_def big0_def)
  ultimately show ?thesis by (auto simp: SponsorHash_def split: option.splits)
qed

lemma final_result:
  assumes "rpc_dispatch E J cfg sv req s = (Inr (PmResult p), t)" "pm_IsFinal p" "cache_ok E s" "ledger_ok (db s)"
  shows "\<exists>w row n q day h sig. op_UnmarshalJSON J (rq_Params req ! 0) = Some w \<and>
    signatures (db t) = signatures (db s) @ [row] \<and> \<not> signed (sg_key row) (db s) \<and>
    sg_key row = (Sender w, big0 (Nonce w), asked_app J req) \<and> sg_Gas row = TotalGas (with_limits w) \<and> sg_Settled row = None \<and>
    tick s \<le> n \<and> n < tick t \<and> says_quota E n (asked_app J req) q \<and> sg_Epoch row = cq_Epoch q \<and>
    gas_at (db t) (asked_app J req, cq_Epoch q) = gas_at (db s) (asked_app J req, cq_Epoch q) + TotalGas (with_limits w) \<and>
    gas_at (db t) (asked_app J req, cq_Epoch q) \<le> uint (cq_Gas q) \<and>
    daily_at (db t) (Sender w, day) \<le> max (cfg_SenderDailyCap cfg) (cfg_NewSenderDailyCap cfg) \<and>
    SponsorHash (Codec E) (with_limits w) (sv_ChainID sv) (sv_Paymaster sv) (of_int (sg_ValidUntil row)) 0 (asked_app J req) = Inr h \<and>
    SignHash E h = Some sig \<and>
    pm_PaymasterData p = PaymasterData (of_int (sg_ValidUntil row)) 0 (asked_app J req) (sig[64 := sig ! 64 + 27]) \<and>
    ledger_ok (db t) \<and> cache_ok E t"
  using assms(1)
proof (cases rule: dispatch_cases)
  case answered
  with assms(2) show ?thesis by blast
next
  case (reserving u dec s')
  note f = accepted_facts [OF reserving(2) assms(3)]
  from reserving(2) obtain w where w: "op_UnmarshalJSON J (rq_Params req ! 0) = Some w" "u = with_limits w"
    by (auto simp: accepted_def)
  from f(4) obtain n q where q: "tick s \<le> n" "n < tick s'" "says_quota E n (asked_app J req) q"
    "dc_Epoch dec = cq_Epoch q" "dc_Quota dec = cq_Gas q" by blast
  let ?r = "reservation_of u dec (window_of E sv s')"
  from reserving(3) obtain h sig where res: "store_Reserve E ?r (s'\<lparr>tick := Suc (tick s')\<rparr>) = (Inr (), t)"
    and h: "SponsorHash (Codec E) u (sv_ChainID sv) (sv_Paymaster sv) (window_of E sv s') 0 (dc_AppID dec) = Inr h"
      "SignHash E h = Some sig"
    and p: "pm_PaymasterData p = PaymasterData (window_of E sv s') 0 (dc_AppID dec) (sig[64 := sig ! 64 + 27])"
    by (cases rule: sign_cases) (auto simp: pm_reply_def)
  have s': "db s' = db s" "cache_ok E s'" using f(6) assms(3) by (simp_all add: asks_def)
  have rem: "remembers E (s'\<lparr>tick := Suc (tick s')\<rparr>) t" by (rule remembers_Reserve [OF res])
  then have mem: "cache_ok E t" "tick s' < tick t"
    using cache_ok_tick [OF s'(2), of "Suc (tick s')"] by (simp_all add: remembers_def)
  from Reserve_effect [OF res] obtain day where day: "sg_granted ?r day (db s)" "db t = reserved ?r day (db s)"
    using s'(1) by auto
  have row: "of_int (sg_ValidUntil (row_of ?r)) = window_of E sv s'" by (simp add: row_of_def reservation_of_def)
  have k: "rv_key ?r = (asked_app J req, cq_Epoch q)" using f(2) q(4) by (simp add: rv_key_def reservation_of_def)
  have rows: "signatures (db t) = signatures (db s) @ [row_of ?r]" "\<not> signed (sg_key (row_of ?r)) (db s)"
    using day by (simp_all add: reserved_def sg_granted_def signed_def)
  have cols: "sg_key (row_of ?r) = (Sender w, big0 (Nonce w), asked_app J req)" "sg_Gas (row_of ?r) = TotalGas (with_limits w)"
    "sg_Settled (row_of ?r) = None" "sg_Epoch (row_of ?r) = cq_Epoch q"
    using w(2) f(2,3) q(4) by (simp_all add: row_of_def reservation_of_def sg_key_def) (simp add: with_limits_def)
  have gas: "gas_at (db t) (asked_app J req, cq_Epoch q) = gas_at (db s) (asked_app J req, cq_Epoch q) + TotalGas (with_limits w)"
    using day(2) k f(3) w(2) by (simp add: reserved_parts) (simp add: reservation_of_def)
  moreover have "gas_at (db s) (asked_app J req, cq_Epoch q) + TotalGas (with_limits w) \<le> uint (cq_Gas q)"
    using day(1) k f(3) q(5) w(2) by (simp add: sg_granted_def) (simp add: reservation_of_def)
  ultimately have within_quota: "gas_at (db t) (asked_app J req, cq_Epoch q) \<le> uint (cq_Gas q)" by simp
  have daily: "daily_at (db t) (Sender w, day) \<le> max (cfg_SenderDailyCap cfg) (cfg_NewSenderDailyCap cfg)"
    using day f(5) w(2) by (auto simp: reserved_parts sg_granted_def reservation_of_def with_limits_def)
  have ledger: "ledger_ok (db t)" using ledger_reserve [OF assms(4) day(1)] day(2) by simp
  have n: "n < tick t" using q(2) mem(2) by simp
  have data: "SponsorHash (Codec E) (with_limits w) (sv_ChainID sv) (sv_Paymaster sv) (of_int (sg_ValidUntil (row_of ?r))) 0 (asked_app J req) = Inr h"
    "pm_PaymasterData p = PaymasterData (of_int (sg_ValidUntil (row_of ?r))) 0 (asked_app J req) (sig[64 := sig ! 64 + 27])"
    using h(1) p unfolding f(2) w(2) row [unfolded w(2)] by (simp_all only:)
  show ?thesis
    by (rule exI [of _ w], rule exI [of _ "row_of ?r"], rule exI [of _ n], rule exI [of _ q], rule exI [of _ day],
      rule exI [of _ h], rule exI [of _ sig])
      (intro conjI w(1) rows cols q(1,3) n gas within_quota daily data h(2) ledger mem(1))
qed

lemma signed_result:
  assumes "rpc_dispatch E J cfg sv req s = (Inr (PmResult p), t)" "pm_IsFinal p" "cache_ok E s" "ledger_ok (db s)"
    and "op_UnmarshalJSON J (rq_Params req ! 0) = Some u"
  shows "\<not> signed (Sender u, big0 (Nonce u), asked_app J req) (db s) \<and>
    signed (Sender u, big0 (Nonce u), asked_app J req) (db t) \<and> ledger_ok (db t) \<and> cache_ok E t"
proof -
  obtain w row where "op_UnmarshalJSON J (rq_Params req ! 0) = Some w" "signatures (db t) = signatures (db s) @ [row]"
    "\<not> signed (sg_key row) (db s)" "sg_key row = (Sender w, big0 (Nonce w), asked_app J req)" "ledger_ok (db t)" "cache_ok E t"
    using final_result [OF assms(1-4)] by blast
  with assms(5) show ?thesis by (simp add: signed_def)
qed

text \<open>
  C10. A signature stands for a recorded reservation. When \<open>pm_getPaymasterData\<close> answers with a final result, the
  operation was not on record and now is, with its total gas; the gas charged to the app in its epoch, this
  operation included, is within the quota that the node stated during the request; the sender is
  within the daily cap; and the data is the window, the app and the service's signature of the sponsor
  hash of exactly this operation. The ledger and the caches stay correct.
\<close>

theorem signed_means_reserved:
  assumes "rpc_dispatch E J cfg sv req s = (Inr (PmResult p), t)" "pm_IsFinal p" "cache_ok E s" "ledger_ok (db s)"
  shows "\<exists>w row n q day h sig. op_UnmarshalJSON J (rq_Params req ! 0) = Some w \<and>
    signatures (db t) = signatures (db s) @ [row] \<and> \<not> signed (sg_key row) (db s) \<and>
    sg_key row = (Sender w, big0 (Nonce w), asked_app J req) \<and> sg_Gas row = TotalGas (with_limits w) \<and> sg_Settled row = None \<and>
    tick s \<le> n \<and> n < tick t \<and> says_quota E n (asked_app J req) q \<and> sg_Epoch row = cq_Epoch q \<and>
    gas_at (db t) (asked_app J req, cq_Epoch q) = gas_at (db s) (asked_app J req, cq_Epoch q) + TotalGas (with_limits w) \<and>
    gas_at (db t) (asked_app J req, cq_Epoch q) \<le> uint (cq_Gas q) \<and>
    daily_at (db t) (Sender w, day) \<le> max (cfg_SenderDailyCap cfg) (cfg_NewSenderDailyCap cfg) \<and>
    SponsorHash (Codec E) (with_limits w) (sv_ChainID sv) (sv_Paymaster sv) (of_int (sg_ValidUntil row)) 0 (asked_app J req) = Inr h \<and>
    SignHash E h = Some sig \<and>
    pm_PaymasterData p = PaymasterData (of_int (sg_ValidUntil row)) 0 (asked_app J req) (sig[64 := sig ! 64 + 27]) \<and>
    ledger_ok (db t) \<and> cache_ok E t"
  by (rule final_result [OF assms])

text \<open>
  C24. A refusal leaves no trace. Whenever a request is answered with an error other than an internal one or
  a failure to hash or sign, and whenever the answer is not a final sponsorship (the stub, the entry
  points), the tables are exactly as before; and a request never panics. Even an internal error,
  such as a connection that breaks during the commit, leaves either the tables as before or one
  complete reservation.
\<close>

theorem refusal_leaves_no_trace:
  assumes "rpc_dispatch E J cfg sv req s = (res, t)" "cache_ok E s"
    and "shuffles (Shuffle E)" "\<And>h sig. SignHash E h = Some sig \<Longrightarrow> length sig = 65"
  shows "((\<exists>c m. res = Inl (RpcError c m) \<and> m \<notin> {MInternal, MHash, MSign}) \<or>
      (\<exists>v. res = Inr v \<and> (\<forall>p. v = PmResult p \<longrightarrow> \<not> pm_IsFinal p)) \<longrightarrow> db t = db s) \<and>
    res \<noteq> Inl RpcPanic \<and>
    (db t = db s \<or> (\<exists>r day. sg_granted r day (db s) \<and> db t = reserved r day (db s)))"
  using assms(1)
proof (cases rule: dispatch_cases)
  case answered
  then show ?thesis by (auto simp: asks_def)
next
  case (reserving u dec s')
  note f = accepted_facts [OF reserving(2) assms(2)]
  have s': "db s' = db s" using f(6) by (simp add: asks_def)
  from reserving(2) obtain w where w: "u = with_limits w" by (auto simp: accepted_def)
  show ?thesis
    using reserving(3)
  proof (cases rule: sign_cases)
    case (refused e)
    with Reserve_effect [OF refused(1)] s' show ?thesis by (auto simp: reserve_reply_def split: if_splits)
  next
    case (failed e)
    have "res \<noteq> Inl RpcPanic"
    proof
      assume p: "res = Inl RpcPanic"
      have "SponsorHash (Codec E) u (sv_ChainID sv) (sv_Paymaster sv) (window_of E sv s') 0 (dc_AppID dec) \<noteq> Inl HashPanic"
        unfolding w by (rule hash_total [OF assms(3) f(1) [unfolded w]])
      with reserving(3) p failed(1) assms(4) show False
        by (auto simp: sign_def catch_def bindM_def observe_def ret_def fail_def Let_def split: sum.splits hash_err.splits option.splits if_splits)
    qed
    with failed Reserve_effect [OF failed(1)] s' show ?thesis by auto
  next
    case (signed h sig)
    with Reserve_effect [OF signed(1)] s' show ?thesis by (auto simp: pm_reply_def)
  qed
qed

section \<open>The service over time\<close>

text \<open>
  One step: a request, an event of the paymaster, a move of the cursor, a release of expired reservations,
  or time that passes. The reconciler runs beside the requests, so its transactions are steps of their own.
\<close>

inductive service_step :: "sponsor_env \<Rightarrow> json_env \<Rightarrow> policy_cfg \<Rightarrow> server_cfg \<Rightarrow> sponsor \<Rightarrow> sponsor \<Rightarrow> bool"
  for E J cfg sv where
  request: "rpc_dispatch E J cfg sv req s = (res, t) \<Longrightarrow> service_step E J cfg sv s t"
| event: "settle_log E l s = (r, t) \<Longrightarrow> service_step E J cfg sv s t"
| cursor: "store_SetCursor E name b s = (r, t) \<Longrightarrow> service_step E J cfg sv s t"
| release: "store_ExpireUnused E now s = (n, t) \<Longrightarrow> service_step E J cfg sv s t"
| idle: "tick s \<le> n \<Longrightarrow> service_step E J cfg sv s (s\<lparr>tick := n\<rparr>)"

abbreviation service_steps :: "sponsor_env \<Rightarrow> json_env \<Rightarrow> policy_cfg \<Rightarrow> server_cfg \<Rightarrow> sponsor \<Rightarrow> sponsor \<Rightarrow> bool" where
  "service_steps E J cfg sv \<equiv> (service_step E J cfg sv)\<^sup>*\<^sup>*"

text \<open>A fresh service: empty tables, empty caches.\<close>

definition service_start :: "sponsor \<Rightarrow> bool" where
  "service_start s \<longleftrightarrow> db s = empty_tables \<and> bindings s = fmempty \<and> apps_cache s = fmempty"

text \<open>A reservation that a request may ask for: a quota the node stated, a cap of the configuration.\<close>

definition offered :: "sponsor_env \<Rightarrow> policy_cfg \<Rightarrow> reservation \<Rightarrow> bool" where
  "offered E cfg r \<longleftrightarrow>
     (\<exists>n q. says_quota E n (rv_AppID r) q \<and> rv_Epoch r = cq_Epoch q \<and> rv_Quota r = cq_Gas q) \<and>
     rv_SenderCap r \<in> {cfg_SenderDailyCap cfg, cfg_NewSenderDailyCap cfg}"

text \<open>What a request can do to the tables, in any state with truthful caches.\<close>

lemma dispatch_effect:
  assumes "rpc_dispatch E J cfg sv req s = (res, t)" "cache_ok E s"
  shows "remembers E s t \<and> (db t = db s \<or> (\<exists>r day. sg_granted r day (db s) \<and> db t = reserved r day (db s) \<and> offered E cfg r))"
  using assms(1)
proof (cases rule: dispatch_cases)
  case answered
  then show ?thesis by (simp add: asks_remembers) (simp add: asks_def)
next
  case (reserving u dec s')
  note f = accepted_facts [OF reserving(2) assms(2)]
  let ?r = "reservation_of u dec (window_of E sv s')"
  obtain q where res: "store_Reserve E ?r (s'\<lparr>tick := Suc (tick s')\<rparr>) = (q, t)"
    using reserving(3) by (cases rule: sign_cases) auto
  have "remembers E s s'" by (rule asks_remembers [OF f(6)])
  moreover have "remembers E s' (s'\<lparr>tick := Suc (tick s')\<rparr>)" using remembers_tick [of s' "Suc (tick s')" E "db s'"] by simp
  moreover have "remembers E (s'\<lparr>tick := Suc (tick s')\<rparr>) t" by (rule remembers_Reserve [OF res])
  ultimately have "remembers E s t" by (blast intro: remembers_trans)
  moreover have "db s' = db s" using f(6) by (simp add: asks_def)
  moreover have "offered E cfg ?r" using f(2,4,5) by (auto simp: offered_def reservation_of_def)
  ultimately show ?thesis using Reserve_effect [OF res] by auto
qed

lemma step_remembers: "service_step E J cfg sv s t \<Longrightarrow> cache_ok E s \<Longrightarrow> cache_ok E t"
proof (induction rule: service_step.induct)
  case (request req s res t)
  then show ?case using dispatch_effect by (fastforce simp: remembers_def)
next
  case (event l s r t)
  have "keeps (remembers E a) (settle_log E l)" for a unfolding settle_log_def Let_def by (intro keeps_intros)
  then have "remembers E s t" using event(1) by (rule remembersD)
  with event(2) show ?case by (simp add: remembers_def)
next
  case (cursor name b s r t)
  have "remembers E s t" by (rule remembersD [OF remembers_store(4) cursor(1)])
  with cursor(2) show ?case by (simp add: remembers_def)
next
  case (release now s n t)
  have "remembers E s t" by (rule remembersD [OF remembers_store(3) release(1)])
  with release(2) show ?case by (simp add: remembers_def)
next
  case (idle s n)
  then show ?case by (simp add: cache_ok_tick)
qed

context store_invariant
begin

text \<open>An invariant of the tables that admits what requests reserve holds as long as the service runs.\<close>

lemma settle_log_keeps: "settle_log E l s = (r, t) \<Longrightarrow> I (db s) \<Longrightarrow> I (db t)"
proof -
  have "keeps holds_in (settle_log E l)" unfolding settle_log_def Let_def by (intro keeps_intros keeps_Settle)
  then show "settle_log E l s = (r, t) \<Longrightarrow> I (db s) \<Longrightarrow> I (db t)" unfolding keeps_def by (metis snd_conv)
qed

lemma step_keeps:
  assumes "service_step E J cfg sv s t" "I (db s)" "cache_ok E s" and ok: "\<And>r. offered E cfg r \<Longrightarrow> ok r"
  shows "I (db t)"
  using assms(1,2,3)
proof (induction rule: service_step.induct)
  case (request req s res t)
  then show ?case using dispatch_effect [OF request(1,3)] reserve ok by metis
next
  case (event l s r t)
  then show ?case by (blast intro: settle_log_keeps)
next
  case (cursor name b s r t)
  then show ?case using keepsD [OF keeps_SetCursor] by blast
next
  case (release now s n t)
  then show ?case using keepsD [OF keeps_Expire] by blast
qed simp

lemma steps_keep:
  assumes "service_steps E J cfg sv s t" "I (db s)" "cache_ok E s" and ok: "\<And>r. offered E cfg r \<Longrightarrow> ok r"
  shows "I (db t) \<and> cache_ok E t"
  using assms(1)
proof induction
  case (step u v)
  then show ?case using step_keeps [OF step(2) _ _ ok] step_remembers [OF step(2)] by blast
qed (simp add: assms)

end

lemma start_ok: "service_start s \<Longrightarrow> cache_ok E s"
  by (simp add: service_start_def cache_ok_def)

text \<open>Every quota the node states for an app and an epoch is at most \<open>Q\<close>.\<close>

definition quotas_within :: "sponsor_env \<Rightarrow> (u64 \<times> u64 \<Rightarrow> int) \<Rightarrow> bool" where
  "quotas_within E Q \<longleftrightarrow> (\<forall>k. 0 \<le> Q k) \<and> (\<forall>n i q. says_quota E n i q \<longrightarrow> uint (cq_Gas q) \<le> Q (i, cq_Epoch q))"

lemma offered_within:
  assumes "quotas_within E Q" "offered E cfg r" "cfg_SenderDailyCap cfg \<le> C" "cfg_NewSenderDailyCap cfg \<le> C"
  shows "rv_within Q C r"
  using assms by (auto simp: offered_def rv_within_def rv_key_def quotas_within_def)

lemma service_books:
  assumes "service_start s0" "service_steps E J cfg sv s0 s" "quotas_within E Q"
    "0 \<le> C" "cfg_SenderDailyCap cfg \<le> C" "cfg_NewSenderDailyCap cfg \<le> C"
  shows "sponsor_books_ok Q C (db s) \<and> cache_ok E s"
proof (rule sponsor_books.steps_keep [OF assms(2)])
  have "db s0 = empty_tables" using assms(1) by (simp add: service_start_def)
  moreover have "0 \<le> Q k" for k using assms(3) unfolding quotas_within_def by blast
  ultimately show "sponsor_books_ok Q C (db s0)" using empty_books assms(4) by metis
  show "cache_ok E s0" by (rule start_ok [OF assms(1)])
  show "rv_within Q C r" if "offered E cfg r" for r by (rule offered_within [OF assms(3) that assms(5,6)])
qed

text \<open>
  C4. Quotas hold whatever happens. From an empty database, after any sequence of requests, events, releases,
  cursor moves, database failures and broken commits: the gas recorded for an app in an epoch is exactly what its
  signatures charge (all gas while one is open, what was burned once it is settled), it never exceeds
  a bound that all quotas the node states obey, the open reservations alone stay within it, a
  sender stays within the daily cap, and its operations are counted exactly.
\<close>

theorem sponsor_quota_never_exceeded:
  assumes "service_start s0" "service_steps E J cfg sv s0 s" "quotas_within E Q"
    "0 \<le> C" "cfg_SenderDailyCap cfg \<le> C" "cfg_NewSenderDailyCap cfg \<le> C"
  shows "gas_at (db s) k = charged (signatures (db s)) k \<and> charged (signatures (db s)) k \<le> Q k \<and>
    (\<Sum>r \<leftarrow> signatures (db s). if (sg_App r, sg_Epoch r) = k \<and> sg_Settled r = None then sg_Gas r else 0) \<le> Q k \<and>
    ops_at (db s) k = granted_ops (signatures (db s)) k \<and>
    daily_at (db s) j \<le> C \<and> sender_ops (db s) a = sender_rows (db s) a"
proof -
  have ok: "sponsor_books_ok Q C (db s)" using service_books [OF assms] by simp
  have rows: "list_all row_ok (signatures (db s))" using books_ledger [OF ok] by (simp add: ledger_ok_def)
  have "(\<Sum>r \<leftarrow> rs. if (sg_App r, sg_Epoch r) = k \<and> sg_Settled r = None then sg_Gas r else 0) \<le> charged rs k"
    if "list_all row_ok rs" for rs
    using that by (induction rs) (auto simp: charged_def charge_def row_ok_def split: option.splits)
  note open_rows = this [OF rows]
  have gas: "gas_at (db s) k = charged (signatures (db s)) k" by (rule ledger_gas [OF books_ledger [OF ok]])
  have "gas_at (db s) k \<le> Q k" "daily_at (db s) j \<le> C" "sender_ops (db s) a = sender_rows (db s) a"
    using ok unfolding sponsor_books_ok_def by blast+
  moreover have "ops_at (db s) k = granted_ops (signatures (db s)) k"
    using books_ledger [OF ok] unfolding ledger_ok_def by blast
  ultimately show ?thesis using gas open_rows by simp
qed

text \<open>
  C15. An operation is signed at most once. Once a request for an operation of a sender and nonce was
  answered with a signature for an app, no later request for that sender, nonce and app is, in any later state: not
  while the reservation is open, and not after it was settled or released either.
\<close>

theorem signed_at_most_once:
  assumes "rpc_dispatch E J cfg sv req s = (Inr (PmResult p), t)" "pm_IsFinal p" "cache_ok E s" "ledger_ok (db s)"
    and "service_steps E J cfg sv t s'"
    and "rpc_dispatch E J cfg sv req' s' = (res', t')"
    and "op_UnmarshalJSON J (rq_Params req ! 0) = Some u" "op_UnmarshalJSON J (rq_Params req' ! 0) = Some u'"
      "Sender u = Sender u'" "big0 (Nonce u) = big0 (Nonce u')" "asked_app J req = asked_app J req'"
  shows "\<not> (\<exists>p'. res' = Inr (PmResult p') \<and> pm_IsFinal p')"
proof
  assume "\<exists>p'. res' = Inr (PmResult p') \<and> pm_IsFinal p'"
  then obtain p' where again: "rpc_dispatch E J cfg sv req' s' = (Inr (PmResult p'), t')" "pm_IsFinal p'"
    using assms(6) by auto
  let ?k = "(Sender u, big0 (Nonce u), asked_app J req)"
  from signed_result [OF assms(1,2,3,4,7)] have one: "signed ?k (db t)" "ledger_ok (db t)" "cache_ok E t" by auto
  have "signed ?k (db s')" "cache_ok E s'" using record_kept.steps_keep [OF assms(5) one(1,3)] by auto
  moreover have "ledger_ok (db s')" using sponsor_ledger.steps_keep [OF assms(5) one(2,3)] by auto
  ultimately show False using signed_result [OF again _ _ assms(8)] assms(9-11) by simp
qed

section \<open>The reconciler as steps\<close>

lemma steps_one:
  assumes "\<And>s r t. m s = (r, t) \<Longrightarrow> service_step E J cfg sv s t"
  shows "keeps (service_steps E J cfg sv a) m"
  by (rule keepsI) (blast intro: rtranclp.rtrancl_into_rtrancl assms)

lemma steps_observe: "keeps (service_steps E J cfg sv a) (observe f)"
  by (rule steps_one) (auto intro: service_step.idle)

lemma steps_Cursor: "keeps (service_steps E J cfg sv a) (store_Cursor E' name)"
proof (rule steps_one)
  fix s r t assume "store_Cursor E' name s = (r, t)"
  then have "t = s\<lparr>tick := Suc (tick s)\<rparr>" by (auto simp: store_Cursor_def bindM_def exec_def ret_def split: if_splits)
  then show "service_step E J cfg sv s t" by (auto intro: service_step.idle)
qed

text \<open>
  The reconciler does nothing but its steps. A whole turn - the head of the chain, the cursor, the loop over
  the ranges with their events, and the release at the end, with every failure on the way - is a sequence
  of steps of the service, so what holds in every reachable state of the service holds while the
  reconciler runs.
\<close>

theorem turn_refines_steps:
  assumes "reconcile_turn E s = Some t"
  shows "service_steps E J cfg sv s t"
proof (rule turn_keeps [OF assms, where P = "service_steps E J cfg sv s"])
  show "keeps (service_steps E J cfg sv s) (sync_start E)"
    unfolding sync_start_def by (intro keeps_intros steps_observe steps_Cursor)
  show "keeps (service_steps E J cfg sv s) (bindM (time_Now E) (\<lambda>now. store_ExpireUnused E (Unix now)))"
    by (intro keeps_bindM steps_observe steps_one) (rule service_step.release)
  show "keeps (service_steps E J cfg sv s) (sync_range E a b)" for a b
    unfolding sync_range_def
    by (intro keeps_intros steps_observe steps_one) (erule service_step.event service_step.cursor)+
qed simp

section \<open>Rate limits and clients\<close>

lemma fcard_upd: "fcard (fmdom (fmupd k v m)) \<le> Suc (fcard (fmdom m))"
  by (simp add: fcard_finsert_if)

lemma allow_result: "\<exists>l. snd (allow B now ip m) = fmupd ip l (snd (limiter B now ip m))"
  by (auto simp: allow_def Let_def split: prod.split)

lemma limiter_known: "fmlookup m ip = Some l \<Longrightarrow> snd (limiter B now ip m) = m"
  by (simp add: limiter_def)

lemma limiter_new:
  "fmlookup m ip = None \<Longrightarrow> snd (limiter B now ip m) =
     fmupd ip (NewLimiter B) (if maxLimiters \<le> fcard (fmdom m) then evictIdle B now m else m)"
  by (simp add: limiter_def Let_def)

definition busy :: "'l bucket \<Rightarrow> int \<Rightarrow> (string, 'l) fmap \<Rightarrow> string \<Rightarrow> bool" where
  "busy B now m k = (case fmlookup m k of None \<Rightarrow> True | Some l \<Rightarrow> \<not> IdleAt B l now)"

lemma evictIdle_eq:
  "evictIdle B now m =
     (if maxLimiters \<le> fcard (fmdom (fmfilter (busy B now m) m)) then fmempty else fmfilter (busy B now m) m)"
proof -
  have "busy B now m = (\<lambda>k. case fmlookup m k of None \<Rightarrow> True | Some l \<Rightarrow> \<not> IdleAt B l now)"
    by (rule ext) (simp add: busy_def)
  then show ?thesis unfolding evictIdle_def Let_def by (simp only:)
qed

lemma evictIdle_small: "fcard (fmdom (evictIdle B now m)) < maxLimiters"
  by (simp add: evictIdle_eq maxLimiters_def fcard_fempty)

lemma evictIdle_keeps:
  assumes "fcard (fmdom m) \<le> maxLimiters" "fmlookup m c = Some l" "\<not> IdleAt B l now"
  shows "fmlookup (evictIdle B now m) c = Some l \<or>
    fcard (fmdom m) = maxLimiters \<and> (\<forall>c' l'. fmlookup m c' = Some l' \<longrightarrow> \<not> IdleAt B l' now)"
proof (cases "maxLimiters \<le> fcard (fmdom (fmfilter (busy B now m) m))")
  case False
  with assms show ?thesis by (simp add: evictIdle_eq busy_def)
next
  case True
  have sub: "fmdom (fmfilter (busy B now m) m) |\<subseteq>| fmdom m" by auto
  then have "fcard (fmdom (fmfilter (busy B now m) m)) \<le> fcard (fmdom m)" by (rule fcard_mono)
  with True assms(1) have eq: "fcard (fmdom m) = maxLimiters" "fmdom (fmfilter (busy B now m) m) = fmdom m"
    using fcard_seteq [OF sub] by simp_all
  have "\<not> IdleAt B l' now" if "fmlookup m c' = Some l'" for c' l'
  proof -
    have "c' |\<in>| fmdom (fmfilter (busy B now m) m)" unfolding eq(2) using that by (rule fmdomI)
    with that show ?thesis by (auto simp: busy_def)
  qed
  with eq(1) show ?thesis by blast
qed

text \<open>
  The table of rate limits stays bounded, and a flood of new clients does not reset the budget of a client that is
  being throttled: a bucket that is not full is kept, unless the table is full of such buckets.
\<close>

theorem limiters_bounded:
  assumes "fcard (fmdom m) \<le> maxLimiters"
  shows "fcard (fmdom (snd (allow B now ip m))) \<le> maxLimiters \<and>
    (\<forall>c l. fmlookup m c = Some l \<longrightarrow> c \<noteq> ip \<longrightarrow> \<not> IdleAt B l now \<longrightarrow>
       fmlookup (snd (allow B now ip m)) c = Some l \<or>
       fcard (fmdom m) = maxLimiters \<and> (\<forall>c' l'. fmlookup m c' = Some l' \<longrightarrow> \<not> IdleAt B l' now))"
proof -
  obtain l0 where r: "snd (allow B now ip m) = fmupd ip l0 (snd (limiter B now ip m))" using allow_result by metis
  show ?thesis
  proof (cases "fmlookup m ip")
    case (Some l)
    then have "finsert ip (fmdom m) = fmdom m" by (simp add: finsert_absorb fmdomI)
    with assms show ?thesis unfolding r limiter_known [OF Some] by simp
  next
    case None
    let ?m = "if maxLimiters \<le> fcard (fmdom m) then evictIdle B now m else m"
    have "fcard (fmdom ?m) < maxLimiters" using evictIdle_small [of B now m] by simp
    moreover have "snd (allow B now ip m) = fmupd ip l0 ?m" unfolding r limiter_new [OF None] by (rule fmap_ext) simp
    ultimately have "fcard (fmdom (snd (allow B now ip m))) \<le> maxLimiters" "snd (allow B now ip m) = fmupd ip l0 ?m"
      using fcard_upd [of ip l0 ?m] by simp_all
    then show ?thesis using evictIdle_keeps [OF assms] by simp
  qed
qed

text \<open>
  A client cannot choose the address it is limited by. The header is ignored unless the peer is a trusted proxy; then
  the client is the last hop that is not a trusted proxy - every hop after it is one, or is empty - or the
  peer itself when there is no such hop or the chain is malformed.
\<close>

theorem client_not_spoofed:
  "(trusted peer \<or> ClientIP is_ip trusted peer forwarded = peer) \<and>
   (ClientIP is_ip trusted peer forwarded = peer \<or>
      (\<exists>before hop after. split_comma forwarded = before @ [hop] @ after \<and>
         trim_space hop = ClientIP is_ip trusted peer forwarded \<and>
         is_ip (trim_space hop) \<and> \<not> trusted (trim_space hop) \<and>
         list_all (\<lambda>h. trim_space h = '''' \<or> trusted (trim_space h)) after))"
proof -
  let ?skip = "\<lambda>h. trim_space h = '''' \<or> trusted (trim_space h)"
  have hops: "first_untrusted is_ip trusted peer hops = peer \<or>
      (\<exists>after hop before. hops = after @ [hop] @ before \<and> trim_space hop = first_untrusted is_ip trusted peer hops \<and>
        is_ip (trim_space hop) \<and> \<not> trusted (trim_space hop) \<and> list_all ?skip after)" for hops
  proof (induction hops)
    case (Cons h hops)
    show ?case
    proof (cases "trim_space h = '''' \<or> (is_ip (trim_space h) \<and> trusted (trim_space h))")
      case True
      then have f: "first_untrusted is_ip trusted peer (h # hops) = first_untrusted is_ip trusted peer hops" by (auto simp: Let_def)
      from Cons show ?thesis
      proof (elim disjE exE conjE)
        fix after hop before assume "hops = after @ [hop] @ before"
          "trim_space hop = first_untrusted is_ip trusted peer hops" "is_ip (trim_space hop)" "\<not> trusted (trim_space hop)"
          "list_all ?skip after"
        with True f show ?thesis by (intro disjI2 exI [of _ "h # after"] exI [of _ hop] exI [of _ before]) auto
      qed (simp only: f simp_thms)
    next
      case False
      then show ?thesis
        by (cases "is_ip (trim_space h)", intro disjI2 exI [of _ "[]"] exI [of _ h] exI [of _ hops]) (auto simp: Let_def)
    qed
  qed simp
  show ?thesis
  proof (cases "trusted peer \<and> first_untrusted is_ip trusted peer (rev (split_comma forwarded)) \<noteq> peer")
    case True
    then have e: "ClientIP is_ip trusted peer forwarded = first_untrusted is_ip trusted peer (rev (split_comma forwarded))"
      by (simp add: ClientIP_def)
    from True hops [of "rev (split_comma forwarded)"] obtain after hop before where
      h: "rev (split_comma forwarded) = after @ [hop] @ before" "trim_space hop = ClientIP is_ip trusted peer forwarded"
        "is_ip (trim_space hop)" "\<not> trusted (trim_space hop)" "list_all ?skip after" unfolding e by blast
    from h(1) have "split_comma forwarded = rev before @ [hop] @ rev after" by (simp add: rev_swap)
    with True h(2-5) show ?thesis
      by (intro conjI [OF disjI1 disjI2] exI [of _ "rev before"] exI [of _ hop] exI [of _ "rev after"]) (simp_all add: list_all_iff)
  qed (auto simp: ClientIP_def)
qed

end
