(* ===== verification/SponsorExamples.thy ===== *)
theory SponsorExamples
  imports SponsorServerLaws
begin

text \<open>
  Concrete runs of the sponsor: app 7 with one bound contract, an account whose operation calls it, a
  node, a clock and a database that answer, and one that does not. The properties of the service are applied here.
\<close>

section \<open>A world\<close>

definition ex_sender :: addr where "ex_sender = replicate 20 0x11"

definition ex_contract :: addr where "ex_contract = replicate 20 0x22"

definition ex_entry :: addr where "ex_entry = replicate 20 0x33"

definition ex_paymaster :: addr where "ex_paymaster = replicate 20 0x44"

definition ex_op :: userop where
  "ex_op = \<lparr>Sender = ex_sender, Nonce = Some 5, Factory = [], FactoryData = [], CallData = [1, 2, 3, 4, 5],
     CallGasLimit = Some 100000, VerificationGasLimit = Some 50000, PreVerificationGas = Some 21000,
     MaxFeePerGas = Some 1000000000, MaxPriorityFeePerGas = Some 1, Paymaster = None,
     PaymasterVerificationGasLimit = None, PaymasterPostOpGasLimit = None, uo_PaymasterData = [],
     Signature = [], EIP7702Auth = []\<rparr>"

text \<open>A codec for the examples: each value becomes a word of 32 bytes; the hash keeps 32 bytes of its input.\<close>

fun ex_word :: "abi_val \<Rightarrow> byte list" where
  "ex_word (VAddress a) = replicate (32 - length a) 0 @ a"
| "ex_word (VBig (Some n)) = be 32 (nat n)"
| "ex_word (VBytes32 b) = b"
| "ex_word (VUint64 v) = be 32 (unat v)"
| "ex_word v = []"

definition ex_codec :: codec where
  "ex_codec = \<lparr>Keccak256 = (\<lambda>b. take 32 (b @ replicate 32 0)), PackArgs = (\<lambda>vs. Some (concat (map ex_word vs)))\<rparr>"

definition ex_account :: account_abi where
  "ex_account = \<lparr>AccountMethod = (\<lambda>_. Some ''execute''), UnpackExecute = (\<lambda>_. Some (ex_contract, 0, [])),
     UnpackBatch = (\<lambda>_. None)\<rparr>"

definition ex_event :: eth_log where
  "ex_event = \<lparr>el_Topics = [be 32 0, be 32 7, replicate 12 0 @ ex_sender, be 32 9], el_Data = be 32 6000 @ be 32 2\<rparr>"

definition ex_blocks :: "nat \<Rightarrow> eth_log list" where
  "ex_blocks b = (if b = 5 then [ex_event] else [])"

definition ex_world :: sponsor_env where
  "ex_world = \<lparr>clock = (\<lambda>n. (1700000000 + int (n mod 1000)) * 10 ^ 9),
     Rest = (\<lambda>n path. Some \<lparr>rp_Status = 200, rp_Body = ''x''\<rparr>), CodeAt = (\<lambda>n a. Some []),
     BlockNumber = (\<lambda>n. Some 5), FilterLogs = (\<lambda>n a b. Some (concat (map ex_blocks [unat a..<Suc (unat b)]))),
     DbOk = (\<lambda>n. True), Commit = (\<lambda>n. Committed),
     AppJSON = (\<lambda>_. Some \<lparr>aj_AppID = ''7'', aj_Owner = [], aj_RevenueRecipient = [], aj_Status = ''APP_STATUS_ACTIVE'', aj_Domain = []\<rparr>),
     BindingJSON = (\<lambda>_. Some ''7''),
     QuotaJSON = (\<lambda>_. Some \<lparr>qj_Epoch = ''3'', qj_Gas = ''1000000'', qj_UniqueEst = ''1'', qj_DiversityBps = 10000, qj_EpochEnds = ''99''\<rparr>),
     AuthJSON = (\<lambda>_. None), Codec = ex_codec, Account = ex_account, SignHash = (\<lambda>h. Some (replicate 65 0)),
     Shuffle = (\<lambda>xs. xs), CacheTTL = 15 * 10 ^ 9\<rparr>"

definition ex_json :: json_env where
  "ex_json = \<lparr>JSONFields = (\<lambda>_. Some fmempty), PlainOp = (\<lambda>_. Some ex_op), AddressJSON = (\<lambda>_. Some ex_entry),
     BigJSON = (\<lambda>_. Some 4242), ContextAppID = (\<lambda>_. ''7''), RequestJSON = (\<lambda>_. None)\<rparr>"

definition ex_policy :: policy_cfg where
  "ex_policy = \<lparr>cfg_ChainID = 4242, cfg_EntryPoint = ex_entry, cfg_Settle = replicate 20 9, cfg_MaxGasPerOp = 2000000,
     cfg_MaxFeePerGas = 4000000000, cfg_SenderDailyCap = 50, cfg_NewSenderDailyCap = 10,
     cfg_AllowedDelegates = {||}, cfg_AllowedFactories = {||}\<rparr>"

definition ex_server :: server_cfg where
  "ex_server = \<lparr>sv_ChainID = 4242, sv_EntryPoint = ex_entry, sv_Paymaster = ex_paymaster, sv_Validity = 300 * 10 ^ 9\<rparr>"

definition ex_request :: rpc_req where
  "ex_request = \<lparr>rq_Method = ''pm_getPaymasterData'', rq_Params = [[], [], [], []]\<rparr>"

definition ex_fresh :: sponsor where
  "ex_fresh = \<lparr>tick = 0, bindings = fmempty, apps_cache = fmempty, db = empty_tables\<rparr>"

lemma ex_world_simps [simp]:
  "Rest ex_world n path = Some \<lparr>rp_Status = 200, rp_Body = ''x''\<rparr>" "CodeAt ex_world n a = Some []"
  "BlockNumber ex_world n = Some 5" "DbOk ex_world n" "Commit ex_world n = Committed"
  "BindingJSON ex_world b = Some ''7''" "Codec ex_world = ex_codec" "Account ex_world = ex_account"
  "SignHash ex_world h = Some (replicate 65 0)" "Shuffle ex_world = (\<lambda>xs. xs)"
  "AppJSON ex_world b = Some \<lparr>aj_AppID = ''7'', aj_Owner = [], aj_RevenueRecipient = [], aj_Status = ''APP_STATUS_ACTIVE'', aj_Domain = []\<rparr>"
  "QuotaJSON ex_world b = Some \<lparr>qj_Epoch = ''3'', qj_Gas = ''1000000'', qj_UniqueEst = ''1'', qj_DiversityBps = 10000, qj_EpochEnds = ''99''\<rparr>"
  by (simp_all add: ex_world_def)

lemma ex_numbers: "u64_of ''7'' = 7" "u64_of ''3'' = 3" "u64_of ''1000000'' = 1000000" "ParseInt ''7'' = 7"
  by (simp_all add: u64_of_def ParseInt_def ParseUint_def is_digit_def)

lemma ex_get: "client_get ex_world path decode s =
    (case decode (take (2 ^ 20) ''x'') of None \<Rightarrow> Inl EUpstream | Some x \<Rightarrow> Inr x, s\<lparr>tick := Suc (tick s)\<rparr>)"
  by (simp add: client_get_def bindM_observe need_def ret_def fail_def split: option.split)

lemma ex_fetch:
  assumes "look s = None" "ask s = (Inr x, s\<lparr>tick := Suc (tick s)\<rparr>)"
  shows "with_cache E look put ask s = (Inr x, put x (clock E (Suc (tick s)) + CacheTTL E) (s\<lparr>tick := Suc (Suc (tick s))\<rparr>))"
  using assms by (simp add: with_cache_def Let_def exec_simps bindM_step [where m = ask] bindM_observe)

lemma ex_check_app:
  assumes "apps_cache s = fmempty"
  shows "\<exists>t. check_app ex_world i s = (Inr (), t) \<and> bindings t = bindings s"
proof -
  have "client_App ex_world i s = (Inr (chain_app_of \<lparr>aj_AppID = ''7'', aj_Owner = [], aj_RevenueRecipient = [],
      aj_Status = ''APP_STATUS_ACTIVE'', aj_Domain = []\<rparr>), snd (client_App ex_world i s))"
    "bindings (snd (client_App ex_world i s)) = bindings s"
    unfolding client_App_def using assms by (simp_all add: ex_fetch bindM_def ex_get ret_def)
  then obtain t where "client_App ex_world i s = (Inr (chain_app_of \<lparr>aj_AppID = ''7'', aj_Owner = [], aj_RevenueRecipient = [],
      aj_Status = ''APP_STATUS_ACTIVE'', aj_Domain = []\<rparr>), t)" "bindings t = bindings s" by blast
  then show ?thesis by (simp add: check_app_def bindM_def attempt_def check_def ret_def chain_app_of_def)
qed

lemma ex_check_calls:
  assumes "bindings s = fmempty"
  shows "\<exists>t. forM [\<lparr>Target = ex_contract, Value = Some 0, Data = []\<rparr>] (check_call ex_world ex_policy 7) s = (Inr (), t)"
proof -
  have b: "binding_id ex_world c u = (Inr 7, u\<lparr>tick := Suc (tick u)\<rparr>)" for c u
    by (simp add: binding_id_def bindM_def attempt_def ex_get ret_def ex_numbers)
  obtain t where "client_AppOfContract ex_world ex_contract s = (Inr 7, t)"
    unfolding client_AppOfContract_def using assms by (simp add: ex_fetch b)
  moreover have "ex_contract \<noteq> cfg_Settle ex_policy" by code_simp
  ultimately show ?thesis by (simp add: check_call_def bindM_def seqM_def check_def ret_def)
qed

lemma ex_shuffle: "shuffles (\<lambda>xs. xs)"
  by (simp add: shuffles_def)

lemma ex_valid: "op_Validate (\<lambda>xs. xs) (with_limits ex_op) = None"
  unfolding validated [OF ex_shuffle]
  by (simp add: gas_fields_def in_range_def with_limits_def ex_op_def ex_sender_def zero_address_def)

lemma ex_total: "TotalGas (with_limits ex_op) = 276000"
  by (simp add: TotalGas_def with_limits_def ex_op_def big0_def PaymasterVerificationGas_def PaymasterPostOpGas_def)

lemma ex_evaluates:
  assumes "apps_cache s = fmempty" "bindings s = fmempty"
  shows "\<exists>d t. Evaluate ex_world ex_policy (with_limits ex_op) ex_entry (Some 4242) 7 s = (Inr d, t)"
proof -
  obtain s1 where s1: "check_app ex_world 7 s = (Inr (), s1)" "bindings s1 = fmempty"
    using ex_check_app [OF assms(1)] assms(2) by metis
  let ?s2 = "s1\<lparr>tick := Suc (tick s1)\<rparr>"
  obtain s3 where s3: "forM [\<lparr>Target = ex_contract, Value = Some 0, Data = []\<rparr>] (check_call ex_world ex_policy 7) ?s2 = (Inr (), s3)"
    using ex_check_calls [of ?s2] s1(2) by auto
  have 1: "check_op ex_world ex_policy (with_limits ex_op) ex_entry (Some 4242) 7 s = (Inr (), s)"
    unfolding check_op_Inr by (simp add: ex_valid ex_total ex_policy_def)
      (simp add: with_limits_def ex_op_def big0_def)
  have 2: "snd (Factory_Address (Factory (with_limits ex_op))) \<longrightarrow>
      fst (Factory_Address (Factory (with_limits ex_op))) |\<in>| cfg_AllowedFactories ex_policy"
    by (simp add: Factory_Address_def with_limits_def ex_op_def)
  have 3: "client_Code ex_world (Sender (with_limits ex_op)) s1 = (Inr [], ?s2)" by (simp add: client_Code_Inr)
  have 4: "delegation_allowed ex_world ex_policy (with_limits ex_op) []"
    by (simp add: delegation_allowed_def Delegation_def with_limits_def ex_op_def IsEIP7702_def eip7702Short_def eip7702Long_def)
  have 5: "DecodeCalls (Account ex_world) (CallData (with_limits ex_op)) = Some [\<lparr>Target = ex_contract, Value = Some 0, Data = []\<rparr>]"
    by (simp add: DecodeCalls_def ex_account_def with_limits_def ex_op_def)
  have 6: "client_Quota ex_world 7 s3 = (Inr (chain_quota_of \<lparr>qj_Epoch = ''3'', qj_Gas = ''1000000'', qj_UniqueEst = ''1'',
      qj_DiversityBps = 10000, qj_EpochEnds = ''99''\<rparr>), s3\<lparr>tick := Suc (tick s3)\<rparr>)"
    by (simp add: client_Quota_def bindM_def ex_get ret_def)
  show ?thesis using Evaluate_runs [OF 1 s1(1) 2 3 4 5 _ _ s3 6] by auto
qed

lemma ex_asked: "asked_app ex_json ex_request = 7"
  by (simp add: asked_app_def ex_request_def ex_json_def ex_numbers)

lemma ex_quota: "says_quota ex_world n i q \<longleftrightarrow> q = \<lparr>cq_Epoch = 3, cq_Gas = 1000000, cq_EpochEnds = ParseInt ''99'', cq_Diversity = 10000, cq_UniqueEst = u64_of ''1''\<rparr>"
  by (simp add: says_quota_def reply_body_def chain_quota_of_def ex_numbers)

lemma sint_small: "0 \<le> m \<Longrightarrow> m < 2 ^ 62 \<Longrightarrow> sint (of_int m :: u64) = m"
  by (simp add: signed_of_int signed_take_bit_int_eq_self)

lemma ex_window: "sint (of_int (Unix (clock ex_world n + sv_Validity ex_server)) :: u64) = 1700000300 + int (n mod 1000)"
proof -
  have "Unix (clock ex_world n + sv_Validity ex_server) = 1700000300 + int (n mod 1000)"
    by (simp add: Unix_def ex_world_def ex_server_def flip: distrib_right)
  moreover have "int (n mod 1000) < 1000" by simp
  then have "1700000300 + int (n mod 1000) < 2 ^ 62" by simp
  ultimately show ?thesis by (simp only: sint_small)
qed

lemma ex_reply:
  "\<exists>p t. rpc_dispatch ex_world ex_json ex_policy ex_server ex_request ex_fresh = (Inr (PmResult p), t) \<and> pm_IsFinal p \<and>
     (\<forall>r \<in> set (signatures (db t)). 0 \<le> sg_ValidUntil r \<and> sg_ValidUntil r < 2 ^ 48)"
proof -
  obtain d s' where ev: "Evaluate ex_world ex_policy (with_limits ex_op) ex_entry (Some 4242) 7 ex_fresh = (Inr d, s')"
    using ex_evaluates [of ex_fresh] by (auto simp: ex_fresh_def)
  have ok: "cache_ok ex_world ex_fresh" by (simp add: cache_ok_def ex_fresh_def)
  have acc: "accepted ex_world ex_json ex_policy ex_request ex_fresh (with_limits ex_op) d s'"
    using ev unfolding accepted_def ex_asked by (simp add: ex_json_def op_UnmarshalJSON_def ex_request_def)
  note f = accepted_facts [OF acc ok, unfolded ex_asked]
  have s': "db s' = empty_tables" using f(6) by (simp add: asks_def ex_fresh_def)
  let ?r = "reservation_of (with_limits ex_op) d (window_of ex_world ex_server s')"
  have "sg_granted ?r day empty_tables" for day
    using f(3,4,5) by (auto simp: sg_granted_def reservation_of_def empty_tables_def gas_at_def daily_at_def ex_total ex_quota ex_policy_def)
  then obtain t where t: "store_Reserve ex_world ?r (s'\<lparr>tick := Suc (tick s')\<rparr>) = (Inr (), t)"
    using Reserve_runs [of ex_world ?r "s'\<lparr>tick := Suc (tick s')\<rparr>"] s' by auto
  have "signatures (db t) = [row_of ?r]"
    using Reserve_effect [OF t] by (auto simp: s' reserved_def empty_tables_def)
  moreover have "0 \<le> sg_ValidUntil (row_of ?r)" "sg_ValidUntil (row_of ?r) < 2 ^ 48"
    by (simp_all add: row_of_def reservation_of_def ex_window)
  ultimately have window: "\<forall>r \<in> set (signatures (db t)). 0 \<le> sg_ValidUntil r \<and> sg_ValidUntil r < 2 ^ 48" by simp
  obtain h where h: "SponsorHash ex_codec (with_limits ex_op) 4242 ex_paymaster (window_of ex_world ex_server s') 0 (dc_AppID d) = Inr h"
    using hash_total [OF ex_shuffle ex_valid, of ex_codec 4242 ex_paymaster "window_of ex_world ex_server s'" 0 "dc_AppID d"]
    by (auto simp: SponsorHash_def ex_codec_def split: option.splits)
  have "sign ex_world ex_server (with_limits ex_op) d s' = (Inr (pm_reply ex_server
      (PaymasterData (window_of ex_world ex_server s') 0 (dc_AppID d) ((replicate 65 0)[64 := replicate 65 0 ! 64 + 27])) True), t)"
    using t h by (simp add: sign_def catch_def bindM_def observe_def Let_def ret_def ex_server_def)
  then have "rpc_dispatch ex_world ex_json ex_policy ex_server ex_request ex_fresh = (Inr (pm_reply ex_server
      (PaymasterData (window_of ex_world ex_server s') 0 (dc_AppID d) ((replicate 65 0)[64 := replicate 65 0 ! 64 + 27])) True), t)"
    using ev by (simp add: rpc_dispatch_def pm_method_def ex_request_def ex_json_def op_UnmarshalJSON_def ex_numbers
        catch_def bindM_def Let_def)
  then show ?thesis using window by (simp add: pm_reply_def)
qed

section \<open>The codec keeps its laws\<close>

lemma ex_word_length: "abi_fits v \<Longrightarrow> length (ex_word v) = 32"
  by (cases v rule: abi_fits.cases) simp_all

lemma uint_fits: "uint (v :: u64) < 2 ^ 256"
  using uint_lt2p [of v] by simp

lemma ex_word_inj:
  assumes "abi_fits v" "abi_fits w" "abi_kind v = abi_kind w" "ex_word v = ex_word w"
  shows "v = w"
proof -
  have big: "be 32 (nat n) = be 32 (nat m) \<Longrightarrow> 0 \<le> n \<Longrightarrow> n < 2 ^ 256 \<Longrightarrow> 0 \<le> m \<Longrightarrow> m < 2 ^ 256 \<Longrightarrow> n = m" for n m :: int
    by (drule be_inj) (simp_all add: nat_less_iff)
  have small: "be 32 (unat a) = be 32 (unat b) \<Longrightarrow> a = b" for a b :: u64
  proof -
    have "unat c < 256 ^ 32" for c :: u64
    proof -
      have "unat c < 2 ^ 64" using unsigned_less [of c] by simp
      then show ?thesis by (rule less_trans) simp
    qed
    then show "be 32 (unat a) = be 32 (unat b) \<Longrightarrow> a = b" by (auto dest!: be_inj simp: word_unat_eq_iff)
  qed
  show ?thesis
    using assms
  proof (cases v rule: abi_fits.cases)
    case (1 a)
    with assms obtain b where "w = VAddress b" by (cases w rule: abi_fits.cases) simp_all
    with 1 assms show ?thesis by simp
  next
    case (2 n)
    with assms obtain m where w: "w = VBig (Some m)" by (cases w rule: abi_fits.cases) simp_all
    with 2 assms have "n = m" by (intro big) simp_all
    with 2 w show ?thesis by simp
  next
    case (3 b)
    with assms obtain c where "w = VBytes32 c" by (cases w rule: abi_fits.cases) simp_all
    with 3 assms show ?thesis by simp
  next
    case (4 a)
    with assms obtain b where w: "w = VUint64 b" by (cases w rule: abi_fits.cases) simp_all
    with 4 assms have "a = b" by (intro small) simp_all
    with 4 w show ?thesis by simp
  qed simp_all
qed

lemma ex_pack_laws: "pack_laws ex_codec"
proof -
  have "vs = ws" if "list_all abi_fits vs" "list_all abi_fits ws" "map abi_kind vs = map abi_kind ws"
    "concat (map ex_word vs) = concat (map ex_word ws)" for vs ws
    using that
  proof (induction vs arbitrary: ws)
    case (Cons v vs)
    then obtain w ws' where ws: "ws = w # ws'" by (cases ws) auto
    have fits: "abi_fits v" "list_all abi_fits vs" "abi_fits w" "list_all abi_fits ws'" using Cons.prems(1,2) ws by simp_all
    have kind: "abi_kind v = abi_kind w" "map abi_kind vs = map abi_kind ws'" using Cons.prems(3) ws by simp_all
    have "ex_word v @ concat (map ex_word vs) = ex_word w @ concat (map ex_word ws')" using Cons.prems(4) ws by simp
    moreover have "length (ex_word v) = length (ex_word w)" by (simp only: ex_word_length fits)
    ultimately have word: "ex_word v = ex_word w" "concat (map ex_word vs) = concat (map ex_word ws')"
      by (metis append_eq_append_conv)+
    show ?case unfolding ws using ex_word_inj [OF fits(1,3) kind(1) word(1)] Cons.IH [OF fits(2,4) kind(2) word(2)] by (simp only:)
  qed simp
  then show ?thesis by (auto simp: pack_laws_def ex_codec_def)
qed

lemma ex_hashable: "hashable (\<lambda>xs. xs) (with_limits ex_op) 4242 ex_paymaster"
  unfolding hashable_def using ex_valid
  by (simp add: with_limits_def ex_op_def ex_sender_def ex_paymaster_def in_range_def PaymasterVerificationGas_def PaymasterPostOpGas_def)

lemma ex_hash: "\<exists>h. SponsorHash ex_codec (with_limits ex_op) 4242 ex_paymaster v 0 i = Inr h"
proof -
  have "SponsorHash ex_codec (with_limits ex_op) 4242 ex_paymaster v 0 i \<noteq> Inl HashPanic"
    by (rule hash_total [OF ex_shuffle ex_valid])
  then show ?thesis by (auto simp: SponsorHash_def ex_codec_def split: option.splits)
qed

definition ex_other :: userop where "ex_other = (with_limits ex_op)\<lparr>Signature := [1]\<rparr>"

lemma ex_other_simps [simp]:
  "Sender ex_other = Sender (with_limits ex_op)" "Nonce ex_other = Nonce (with_limits ex_op)"
  "Factory ex_other = Factory (with_limits ex_op)" "FactoryData ex_other = FactoryData (with_limits ex_op)"
  "CallData ex_other = CallData (with_limits ex_op)" "CallGasLimit ex_other = CallGasLimit (with_limits ex_op)"
  "VerificationGasLimit ex_other = VerificationGasLimit (with_limits ex_op)"
  "PreVerificationGas ex_other = PreVerificationGas (with_limits ex_op)"
  "MaxFeePerGas ex_other = MaxFeePerGas (with_limits ex_op)"
  "MaxPriorityFeePerGas ex_other = MaxPriorityFeePerGas (with_limits ex_op)"
  "PaymasterVerificationGasLimit ex_other = PaymasterVerificationGasLimit (with_limits ex_op)"
  "PaymasterPostOpGasLimit ex_other = PaymasterPostOpGasLimit (with_limits ex_op)"
  by (simp_all add: ex_other_def)

text \<open>The signature is the only part of the operation that the hash leaves open.\<close>

lemma ex_other_parts:
  "op_Validate f ex_other = op_Validate f (with_limits ex_op)"
  "AccountGasLimits ex_other = AccountGasLimits (with_limits ex_op)" "GasFees ex_other = GasFees (with_limits ex_op)"
  "PaymasterGasLimits ex_other = PaymasterGasLimits (with_limits ex_op)" "InitCode ex_other = InitCode (with_limits ex_op)"
  "hash_args K ex_other c p v w i agl pgl fees = hash_args K (with_limits ex_op) c p v w i agl pgl fees"
  unfolding op_Validate_def gas_fields_def AccountGasLimits_def GasFees_def PaymasterGasLimits_def InitCode_def hash_args_def
    ex_other_simps by (rule refl)+

lemma ex_hash_signature:
  "SponsorHash K ex_other c p v w i = SponsorHash K (with_limits ex_op) c p v w i"
  "hashed K ex_other c p v w i = hashed K (with_limits ex_op) c p v w i"
  unfolding SponsorHash_def hashed_def ex_other_parts ex_other_simps by (rule refl)+

lemma ex_apart:
  "keccak_separates ex_codec (hashed ex_codec (with_limits ex_op) 4242 ex_paymaster v 0 i)
     (hashed ex_codec (with_limits ex_op) 4242 ex_paymaster v 0 i)"
proof -
  have apart: "keccak_separates K [a, b, c] [a, b, c]"
    if "Keccak256 K a \<noteq> Keccak256 K b" "Keccak256 K a \<noteq> Keccak256 K c" "Keccak256 K b \<noteq> Keccak256 K c" for K a b c
    using that by (auto simp: keccak_separates_def)
  let ?args = "hash_args ex_codec (with_limits ex_op) 4242 ex_paymaster v 0 i (the (AccountGasLimits (with_limits ex_op)))
    (the (PaymasterGasLimits (with_limits ex_op))) (the (GasFees (with_limits ex_op)))"
  let ?e = "concat (map ex_word ?args)"
  have "ex_word (hd ?args) = replicate 12 0 @ replicate 20 0x11"
    by (simp add: hash_args_def) (simp add: with_limits_def ex_op_def ex_sender_def)
  then have "?e = (replicate 12 0 @ replicate 20 0x11) @ concat (map ex_word (tl ?args))" by (simp add: hash_args_def)
  then have e: "Keccak256 ex_codec ?e = replicate 12 0 @ replicate 20 0x11" by (simp add: ex_codec_def)
  have i: "Keccak256 ex_codec (InitCode (with_limits ex_op)) = replicate 32 0"
    by (simp add: ex_codec_def InitCode_def) (simp add: with_limits_def ex_op_def)
  have c: "Keccak256 ex_codec (CallData (with_limits ex_op)) = [1, 2, 3, 4, 5] @ replicate 27 0"
    by (simp add: ex_codec_def with_limits_def ex_op_def)
  have "hashed ex_codec (with_limits ex_op) 4242 ex_paymaster v 0 i = [InitCode (with_limits ex_op), CallData (with_limits ex_op), ?e]"
    by (simp add: hashed_def) (simp add: ex_codec_def)
  moreover have "replicate 32 0 ! 12 \<noteq> (replicate 12 0 @ replicate 20 (0x11::byte)) ! 12"
    "replicate 32 0 ! 0 \<noteq> ([1, 2, 3, 4, 5] @ replicate 27 (0::byte)) ! 0"
    "([1, 2, 3, 4, 5] @ replicate 27 (0::byte)) ! 0 \<noteq> (replicate 12 0 @ replicate 20 (0x11::byte)) ! 0"
    by (simp_all add: nth_append)
  ultimately show ?thesis by (simp only:) (rule apart; simp only: e i c list.simps; metis)
qed

theorem SponsorHash_binds_witness:
  "CallData (with_limits ex_op) = CallData ex_other \<and> (7 :: u64) = 7 \<and>
   TotalGas (with_limits ex_op) = TotalGas ex_other"
proof -
  obtain h where h: "SponsorHash ex_codec (with_limits ex_op) 4242 ex_paymaster 1700000300 0 7 = Inr h" using ex_hash by blast
  have "hashable (\<lambda>xs. xs) ex_other 4242 ex_paymaster"
    using ex_hashable by (simp only: hashable_def ex_other_parts ex_other_simps)
  from SponsorHash_binds [OF ex_shuffle ex_pack_laws ex_hashable this h] show ?thesis
    unfolding ex_hash_signature using h ex_apart by blast
qed

theorem paymaster_data_roundtrip_witness:
  "parsePaymasterData (replicate 52 0 @ PaymasterData 1700000300 0 7 (replicate 65 1)) = Some (1700000300, 0, 7, replicate 65 1)"
  using paymaster_data_roundtrip [of "replicate 52 0" "replicate 65 1" 1700000300 0 7] by simp

section \<open>Requests\<close>

theorem sponsored_only_inside_app_witness:
  "\<exists>d t calls. Evaluate ex_world ex_policy (with_limits ex_op) ex_entry (Some 4242) 7 ex_fresh = (Inr d, t) \<and>
     DecodeCalls ex_account (CallData (with_limits ex_op)) = Some calls \<and> calls \<noteq> [] \<and>
     (\<forall>c \<in> set calls. call_allowed ex_world ex_policy 7 0 (tick t) c) \<and> db t = empty_tables"
proof -
  obtain d t where ev: "Evaluate ex_world ex_policy (with_limits ex_op) ex_entry (Some 4242) 7 ex_fresh = (Inr d, t)"
    using ex_evaluates [of ex_fresh] by (auto simp: ex_fresh_def)
  have ok: "cache_ok ex_world ex_fresh" by (simp add: cache_ok_def ex_fresh_def)
  have f: "tick ex_fresh = 0" "db ex_fresh = empty_tables" by (simp_all add: ex_fresh_def)
  note r = sponsored_only_inside_app [OF ev ok, unfolded f ex_world_simps]
  show ?thesis using ev r by blast
qed

lemma ex_fresh_ok: "cache_ok ex_world ex_fresh" "ledger_ok (db ex_fresh)" "service_start ex_fresh" "db ex_fresh = empty_tables"
proof -
  show "cache_ok ex_world ex_fresh" "service_start ex_fresh" "db ex_fresh = empty_tables"
    by (simp_all add: cache_ok_def service_start_def ex_fresh_def)
  then show "ledger_ok (db ex_fresh)" using books_ledger [OF empty_books [of "\<lambda>_. 0" 0]] by simp
qed

lemma ex_operation: "op_UnmarshalJSON ex_json (rq_Params ex_request ! 0) = Some ex_op"
  by (simp add: op_UnmarshalJSON_def ex_json_def)

theorem signed_means_reserved_witness:
  "\<exists>p t row. rpc_dispatch ex_world ex_json ex_policy ex_server ex_request ex_fresh = (Inr (PmResult p), t) \<and>
     signatures (db t) = [row] \<and> sg_key row = (ex_sender, 5, 7) \<and> sg_Gas row = 276000 \<and> sg_Epoch row = 3 \<and>
     gas_at (db t) (7, 3) = 276000"
proof -
  obtain p t where run: "rpc_dispatch ex_world ex_json ex_policy ex_server ex_request ex_fresh = (Inr (PmResult p), t)" "pm_IsFinal p"
    using ex_reply by blast
  have e: "signatures empty_tables = []" "gas_at empty_tables k = 0" for k by (simp_all add: empty_tables_def gas_at_def)
  have o: "Sender ex_op = ex_sender" "big0 (Nonce ex_op) = 5" by (simp_all add: ex_op_def big0_def)
  from signed_means_reserved [OF run ex_fresh_ok(1,2), unfolded ex_operation ex_asked ex_quota ex_fresh_ok(4) e]
  obtain row where "signatures (db t) = [row]" "sg_key row = (Sender ex_op, big0 (Nonce ex_op), 7)"
    "sg_Gas row = TotalGas (with_limits ex_op)" "sg_Epoch row = 3" "gas_at (db t) (7, 3) = TotalGas (with_limits ex_op)"
    by auto
  with run show ?thesis by (intro exI [of _ p] exI [of _ t] exI [of _ row]) (simp add: o ex_total)
qed

text \<open>A service with a lower cap on gas refuses the same request.\<close>

definition ex_strict :: policy_cfg where "ex_strict = ex_policy\<lparr>cfg_MaxGasPerOp := 100000\<rparr>"

lemma ex_refused:
  "rpc_dispatch ex_world ex_json ex_strict ex_server ex_request ex_fresh = (Inl (RpcError (-32602) (MDenied DTotalGas)), ex_fresh)"
proof -
  have "check_op ex_world ex_strict (with_limits ex_op) ex_entry (Some 4242) 7 ex_fresh = (Inl (EDeny DTotalGas), ex_fresh)"
    by (simp add: check_op_def ex_valid ex_total ex_strict_def ex_policy_def exec_simps)
      (simp add: with_limits_def ex_op_def big0_def exec_simps)
  then have "Evaluate ex_world ex_strict (with_limits ex_op) ex_entry (Some 4242) 7 ex_fresh = (Inl (EDeny DTotalGas), ex_fresh)"
    unfolding Evaluate_def seqM_def by (rule bindM_stop)
  then show ?thesis
    by (simp add: rpc_dispatch_def pm_method_def ex_request_def ex_json_def op_UnmarshalJSON_def ex_numbers
        catch_def bindM_def Let_def evaluate_reply_def)
qed

theorem refusal_leaves_no_trace_witness:
  "db (snd (rpc_dispatch ex_world ex_json ex_strict ex_server ex_request ex_fresh)) = db ex_fresh \<and>
   fst (rpc_dispatch ex_world ex_json ex_strict ex_server ex_request ex_fresh) = Inl (RpcError (-32602) (MDenied DTotalGas))"
proof -
  have "shuffles (Shuffle ex_world)" "\<And>h sig. SignHash ex_world h = Some sig \<Longrightarrow> length sig = 65"
    using ex_shuffle by auto
  from refusal_leaves_no_trace [OF ex_refused ex_fresh_ok(1) this] show ?thesis by (simp add: ex_refused)
qed

theorem signed_at_most_once_witness:
  "\<exists>p t. rpc_dispatch ex_world ex_json ex_policy ex_server ex_request ex_fresh = (Inr (PmResult p), t) \<and>
     \<not> (\<exists>p'. fst (rpc_dispatch ex_world ex_json ex_policy ex_server ex_request t) = Inr (PmResult p') \<and> pm_IsFinal p')"
proof -
  obtain p t where run: "rpc_dispatch ex_world ex_json ex_policy ex_server ex_request ex_fresh = (Inr (PmResult p), t)" "pm_IsFinal p"
    using ex_reply by blast
  obtain res t' where again: "rpc_dispatch ex_world ex_json ex_policy ex_server ex_request t = (res, t')"
    by (cases "rpc_dispatch ex_world ex_json ex_policy ex_server ex_request t")
  from signed_at_most_once [OF run ex_fresh_ok(1,2) rtranclp.rtrancl_refl again ex_operation ex_operation refl refl refl]
  show ?thesis using run again by auto
qed

theorem sponsor_quota_never_exceeded_witness:
  "\<exists>t. service_steps ex_world ex_json ex_policy ex_server ex_fresh t \<and> signatures (db t) \<noteq> [] \<and>
     gas_at (db t) (7, 3) \<le> 1000000 \<and> daily_at (db t) (ex_sender, 19675) \<le> 50"
proof -
  obtain p t where run: "rpc_dispatch ex_world ex_json ex_policy ex_server ex_request ex_fresh = (Inr (PmResult p), t)" "pm_IsFinal p"
    using ex_reply by blast
  from run(1) have steps: "service_steps ex_world ex_json ex_policy ex_server ex_fresh t"
    by (blast intro: service_step.request)
  have "quotas_within ex_world (\<lambda>_. 1000000)" by (simp add: quotas_within_def ex_quota)
  from sponsor_quota_never_exceeded [OF ex_fresh_ok(3) steps this, of 50 "(7, 3)" "(ex_sender, 19675)"]
  have "gas_at (db t) (7, 3) \<le> 1000000" "daily_at (db t) (ex_sender, 19675) \<le> 50" by (simp_all add: ex_policy_def)
  moreover have "signatures (db t) \<noteq> []" using final_result [OF run ex_fresh_ok(1,2)] by auto
  ultimately show ?thesis using steps by blast
qed

section \<open>The reconciler\<close>

text \<open>The books after one reservation of 276000 gas, whose window has passed.\<close>

definition ex_reservation :: reservation where
  "ex_reservation = \<lparr>rv_AppID = 7, rv_Epoch = 3, rv_Quota = 1000000, rv_Sender = ex_sender, rv_Nonce = 5, rv_Gas = 276000,
     rv_SenderCap = 50, rv_ValidUntil = 1699999000\<rparr>"

definition ex_open :: sponsor where "ex_open = ex_fresh\<lparr>db := reserved ex_reservation 0 empty_tables\<rparr>"

lemma ex_granted: "sg_granted ex_reservation 0 empty_tables"
  by (simp add: sg_granted_def ex_reservation_def gas_at_def daily_at_def empty_tables_def)

lemma ex_open_ok: "ledger_ok (db ex_open)"
  using ledger_reserve [OF ex_fresh_ok(2) ex_granted [folded ex_fresh_ok(4)]] by (simp add: ex_open_def ex_fresh_ok(4))

lemma ex_open_rows: "signatures (db ex_open) = [row_of ex_reservation]" "gas_at (db ex_open) (7, 3) = 276000" "cursors (db ex_open) = fmempty"
  by (simp_all add: ex_open_def reserved_def empty_tables_def gas_at_def rv_key_def) (simp_all add: ex_reservation_def)

lemma Settle_runs:
  assumes "\<And>n. DbOk E n" "\<And>n. Commit E n = Committed" "\<forall>r \<in> set (signatures (db s)). sg_Gas r < 2 ^ 63"
  shows "\<exists>t. store_Settle E i a g s = (Inr (), t)"
proof (cases "List.find (is_open i a) (signatures (db s))")
  case None
  with assms(1,2) show ?thesis by (simp add: store_Settle_def BeginFunc_Inr bindM_Inr exec_Inr)
next
  case (Some r)
  then have "sg_Gas r < 2 ^ 63" using assms(3) by (auto simp: find_Some_iff)
  with Some assms(1,2) show ?thesis by (simp add: store_Settle_def BeginFunc_Inr bindM_Inr seqM_Inr exec_Inr)
qed

lemma ex_history: "log_history ex_world ex_blocks"
  by (simp add: log_history_def ex_world_def)

lemma ex_head: "BlockNumber ex_world n = Some h \<Longrightarrow> unat h + 1000 < 2 ^ 64"
  by auto

lemma ex_step: "\<exists>t. reconcile_step ex_world ex_open = Some (Inr (), t)"
proof -
  let ?s = "ex_open\<lparr>tick := Suc (Suc (tick ex_open))\<rparr>" and ?u = "ex_open\<lparr>tick := Suc (Suc (Suc (tick ex_open)))\<rparr>"
  have start: "sync_start ex_world ex_open = (Inr (5, 5), ?s)"
    by (simp add: sync_start_def store_Cursor_def exec_simps bindM_def exec_def ex_open_rows observe_def need_def ret_def)
  have logs: "FilterLogs ex_world n 5 5 = Some [ex_event]" for n by (simp add: ex_world_def ex_blocks_def)
  have "\<forall>r \<in> set (signatures (db ?u)). sg_Gas r < 2 ^ 63" by (simp add: ex_open_rows) (simp add: row_of_def ex_reservation_def)
  then have "\<exists>t. settle_log ex_world ex_event ?u = (Inr (), t)"
    using Settle_runs [of ex_world ?u] by (simp add: settle_log_def Let_def ret_def)
  then obtain v where "settle_log ex_world ex_event ?u = (Inr (), v)" by blast
  then have "\<exists>w. sync_range ex_world 5 5 ?s = (Inr (), w)"
    by (simp add: sync_range_def bindM_Inr seqM_Inr logs store_SetCursor_def exec_Inr)
  then obtain w where w: "sync_range ex_world 5 5 ?s = (Inr (), w)" by blast
  have "range_end 5 5 = 5" by (simp add: range_end_def maxRange_def)
  with w have "sync_loop ex_world 5 5 ?s = Some (Inr (), w)"
    by (subst sync_loop.simps) (simp, subst sync_loop.simps, simp)
  with start show ?thesis by (simp add: reconcile_step_def)
qed

lemma ex_turn: "\<exists>t. reconcile_turn ex_world ex_open = Some t"
  using ex_step by (auto simp: reconcile_turn_def)

theorem reconcile_terminates_witness: "\<exists>t. reconcile_turn ex_world ex_open = Some t"
  by (rule reconcile_terminates) (rule ex_head)

theorem turn_refines_steps_witness:
  "\<exists>t. reconcile_turn ex_world ex_open = Some t \<and> service_steps ex_world ex_json ex_policy ex_server ex_open t"
  using ex_turn turn_refines_steps by blast

text \<open>The event burned 3000 gas: the row of 276000 is settled with it, and the rest returns to the app.\<close>

lemma ex_log_effect:
  "signatures (log_effect ex_event (db ex_open)) = [(row_of ex_reservation)\<lparr>sg_Settled := Some 3000\<rparr>]"
  "gas_at (log_effect ex_event (db ex_open)) (7, 3) = 3000"
proof -
  let ?r = "row_of ex_reservation" and ?d = "db ex_open"
  have row: "is_open 7 ex_sender ?r" "sg_Gas ?r = 276000" "sg_Epoch ?r = 3" by (simp_all add: is_open_def row_of_def ex_reservation_def)
  have "common_BytesToAddress (replicate 12 0 @ ex_sender) = ex_sender" by (simp add: common_BytesToAddress_def ex_sender_def)
  then have "log_effect ex_event ?d = tb_settled 7 ex_sender 3000 ?d"
    by (simp add: log_effect_def ex_event_def SetBytes_be Let_def)
  moreover have "tb_settled 7 ex_sender 3000 ?d =
      snd (release_usage (7, 3) 273000 (?d\<lparr>signatures := [(?r)\<lparr>sg_Settled := Some 3000\<rparr>]\<rparr>))"
    by (simp add: tb_settled_def ex_open_rows row)
  moreover have "gas_at (?d\<lparr>signatures := rs\<rparr>) k = gas_at ?d k" for rs k by (simp add: gas_at_def)
  ultimately show "signatures (log_effect ex_event ?d) = [(?r)\<lparr>sg_Settled := Some 3000\<rparr>]" "gas_at (log_effect ex_event ?d) (7, 3) = 3000"
    by (simp_all add: release_at ex_open_rows)
qed

theorem every_event_settled_once_witness:
  "\<exists>t. reconcile_step ex_world ex_open = Some (Inr (), t) \<and> map sg_Settled (signatures (db t)) = [Some 3000] \<and>
     gas_at (db t) (7, 3) = 3000 \<and> fmlookup (cursors (db t)) ''sponsored'' = Some 6"
proof -
  obtain t where t: "reconcile_step ex_world ex_open = Some (Inr (), t)" using ex_step by blast
  have from_head: "sync_from (db ex_open) 5 = 5" by (simp add: sync_from_def ex_open_rows)
  have "db t = (log_effects [ex_event] (db ex_open))\<lparr>cursors := fmupd ''sponsored'' (5 + 1) (cursors (db ex_open))\<rparr>"
    using every_event_settled_once [OF ex_history ex_head t] from_head by (simp add: ex_blocks_def)
  moreover have "gas_at (d\<lparr>cursors := c\<rparr>) k = gas_at d k" for d c k by (simp add: gas_at_def)
  ultimately show ?thesis using t by (simp add: log_effects_def ex_log_effect)
qed

definition ex_down :: sponsor_env where "ex_down = ex_world\<lparr>BlockNumber := (\<lambda>n. None)\<rparr>"

theorem unreachable_node_frees_used_gas_witness:
  "\<exists>t. reconcile_turn ex_down ex_open = Some t \<and> gas_at (db ex_open) (7, 3) = 276000 \<and> gas_at (db t) (7, 3) = 0 \<and>
     gas_at (tb_settled 7 ex_sender 276000 (db t)) (7, 3) = 0"
proof -
  have env: "BlockNumber ex_down n = None" "DbOk ex_down n" "Commit ex_down n = Committed" "clock ex_down n = (1700000000 + int (n mod 1000)) * 10 ^ 9" for n
    by (simp_all add: ex_down_def) (simp add: ex_world_def)
  have "\<exists>t. reconcile_turn ex_down ex_open = Some t"
    by (simp add: reconcile_turn_def reconcile_step_def sync_start_def bindM_observe exec_simps env)
  then obtain t where t: "reconcile_turn ex_down ex_open = Some t" by blast
  have now: "Unix (clock ex_down (Suc (tick ex_open))) = 1700000001"
    by (simp add: env Unix_def ex_open_def ex_fresh_def)
  have row: "sg_Gas (row_of ex_reservation) = 276000" "sg_ValidUntil (row_of ex_reservation) = 1699999000"
    "sg_Settled (row_of ex_reservation) = None" "sg_App (row_of ex_reservation) = 7" "sg_Epoch (row_of ex_reservation) = 3"
    by (simp_all add: row_of_def ex_reservation_def)
  from unreachable_node_frees_used_gas [OF env(1) t env(2,3) ex_open_ok, of 7 ex_sender 276000 3]
  have "gas_at (db t) (7, 3) = 0 \<and> tb_settled 7 ex_sender 276000 (db t) = db t"
    unfolding now ex_open_rows by (auto simp: row is_expired_def ex_open_rows)
  then show ?thesis using t ex_open_rows(2) by auto
qed

section \<open>Rate limits\<close>

text \<open>A bucket of five requests that does not refill.\<close>

definition ex_bucket :: "nat bucket" where
  "ex_bucket = \<lparr>NewLimiter = 5, AllowAt = (\<lambda>l now. (0 < l, l - 1)), IdleAt = (\<lambda>l now. 5 \<le> l)\<rparr>"

theorem limiters_bounded_witness:
  "fmlookup (snd (allow ex_bucket 0 ''10.0.0.2'' (fmupd ''10.0.0.1'' 0 fmempty))) ''10.0.0.1'' = Some 0"
  using limiters_bounded [of "fmupd ''10.0.0.1'' 0 fmempty" ex_bucket 0 "''10.0.0.2''"]
  by (auto simp: maxLimiters_def ex_bucket_def fcard_finsert_if fcard_fempty)

end
