(* ===== verification/Paymaster.thy ===== *)
theory Paymaster
  imports SponsorExamples
begin

text \<open>
  The other end of the sponsor's signature: \<open>contracts/src/paymaster/VaporVerifyingPaymaster.sol\<close>, which
  the EntryPoint asks whether it pays for an operation. The packed operation, the signature recovery of
  OpenZeppelin and the block are parameters; the ABI codec and Keccak are the same functions as off chain.
\<close>

section \<open>The contract\<close>

text \<open>\<open>PackedUserOperation\<close> of ERC-4337.\<close>

record packed_op =
  po_Sender :: addr
  po_Nonce :: int
  po_InitCode :: "byte list"
  po_CallData :: "byte list"
  po_AccountGasLimits :: "byte list"
  po_PreVerificationGas :: int
  po_GasFees :: "byte list"
  po_PaymasterAndData :: "byte list"

record contract_env =
  block_chainid :: int
  address_this :: addr
  code_of :: "addr \<Rightarrow> byte list"
  abi_codec :: codec
  \<comment> \<open>\<open>ECDSA.tryRecover\<close> of the EIP-191 message of a hash\<close>
  recover :: "byte list \<Rightarrow> byte list \<Rightarrow> addr option"

record paymaster_store =
  pm_signer :: addr
  allowedDelegates :: "addr fset"

text \<open>The slice starts at 20, after the address of the paymaster, and ends where its data begins.\<close>

definition getHash :: "contract_env \<Rightarrow> packed_op \<Rightarrow> nat \<Rightarrow> nat \<Rightarrow> u64 \<Rightarrow> byte list option" where
  "getHash C P validUntil validAfter appId =
     (let K = abi_codec C in
      case PackArgs K
        [VAddress (po_Sender P), VBig (Some (po_Nonce P)), VBytes32 (Keccak256 K (po_InitCode P)),
         VBytes32 (Keccak256 K (po_CallData P)), VBytes32 (po_AccountGasLimits P),
         VBig (Some (int (SetBytes (take 32 (drop 20 (po_PaymasterAndData P)))))),
         VBig (Some (po_PreVerificationGas P)), VBytes32 (po_GasFees P), VBig (Some (block_chainid C)),
         VAddress (address_this C), VBig (Some (int validUntil)), VBig (Some (int validAfter)), VUint64 appId,
         VBytes32 op_Provenance] of
        None \<Rightarrow> None
      | Some enc \<Rightarrow> Some (Keccak256 K enc))"

definition delegateAllowed :: "contract_env \<Rightarrow> paymaster_store \<Rightarrow> addr \<Rightarrow> bool" where
  "delegateAllowed C S sender =
     (let code = code_of C sender in
      if length code = 23 \<and> code ! 0 = 0xef \<and> code ! 1 = 0x01 \<and> code ! 2 = 0x00
      then take 20 (drop 3 code) |\<in>| allowedDelegates S else True)"

text \<open>The context of the operation (empty when the signature is bad), whether it failed, and the window.\<close>

record validation =
  vd_Context :: "(u64 \<times> addr \<times> byte list) option"
  vd_SigFailed :: bool
  vd_ValidUntil :: nat
  vd_ValidAfter :: nat

definition validatePaymasterUserOp :: "contract_env \<Rightarrow> paymaster_store \<Rightarrow> packed_op \<Rightarrow> byte list \<Rightarrow> validation option" where
  "validatePaymasterUserOp C S P opHash =
     (case parsePaymasterData (po_PaymasterAndData P) of
        None \<Rightarrow> None
      | Some (validUntil, validAfter, appId, signature) \<Rightarrow>
          if length signature \<noteq> 64 \<and> length signature \<noteq> 65 then None
          else case getHash C P validUntil validAfter appId of
            None \<Rightarrow> None
          | Some hash \<Rightarrow>
              let failed = (recover C hash signature = None \<or> pm_signer S = zero_address \<or>
                     recover C hash signature \<noteq> Some (pm_signer S) \<or> \<not> delegateAllowed C S (po_Sender P))
              in Some \<lparr>vd_Context = (if failed then None else Some (appId, po_Sender P, opHash)),
                   vd_SigFailed = failed, vd_ValidUntil = validUntil, vd_ValidAfter = validAfter\<rparr>)"

section \<open>The two hashes agree\<close>

text \<open>
  ERC-4337: how a bundler packs an operation with the paymaster fields of the sponsor's answer.
\<close>

definition packed_as :: "userop \<Rightarrow> addr \<Rightarrow> byte list \<Rightarrow> packed_op \<Rightarrow> bool" where
  "packed_as u paymaster pmData P \<longleftrightarrow>
     po_Sender P = Sender u \<and> po_Nonce P = big0 (Nonce u) \<and> po_InitCode P = InitCode u \<and> po_CallData P = CallData u \<and>
     AccountGasLimits u = Some (po_AccountGasLimits P) \<and> GasFees u = Some (po_GasFees P) \<and>
     po_PreVerificationGas P = big0 (PreVerificationGas u) \<and>
     (\<exists>limits. PaymasterGasLimits u = Some limits \<and> po_PaymasterAndData P = paymaster @ limits @ pmData)"

lemma packed_data:
  assumes "packed_as u paymaster pmData P" "length paymaster = 20" "PaymasterGasLimits u = Some limits"
  shows "po_PaymasterAndData P = (paymaster @ limits) @ pmData" "length (paymaster @ limits) = 52"
    "take 32 (drop 20 (po_PaymasterAndData P)) = limits"
proof -
  have l: "length limits = 32" using assms(3) by (auto simp: PaymasterGasLimits_def dest: pack128_length)
  show "po_PaymasterAndData P = (paymaster @ limits) @ pmData" using assms by (auto simp: packed_as_def)
  then show "length (paymaster @ limits) = 52" "take 32 (drop 20 (po_PaymasterAndData P)) = limits" using assms(2) l by simp_all
qed

lemma hashes_agree:
  assumes "packed_as u paymaster pmData P" "length paymaster = 20" "address_this C = paymaster" "abi_codec C = K"
    and "uint validUntil < 2 ^ 48" "uint validAfter < 2 ^ 48"
    and "SponsorHash K u (block_chainid C) paymaster validUntil validAfter appID = Inr h"
  shows "getHash C P (unat validUntil) (unat validAfter) appID = Some h"
proof -
  from assms(7) obtain agl pgl fees enc where e: "AccountGasLimits u = Some agl" "PaymasterGasLimits u = Some pgl"
    "GasFees u = Some fees" "PackArgs K (hash_args K u (block_chainid C) paymaster validUntil validAfter appID agl pgl fees) = Some enc"
    "h = Keccak256 K enc" by (rule SponsorHash_Inr)
  have "po_AccountGasLimits P = agl" "po_GasFees P = fees" using assms(1) e by (auto simp: packed_as_def)
  then show ?thesis
    using assms(1,3,4) e packed_data(3) [OF assms(1,2) e(2)] by (simp add: getHash_def hash_args_def packed_as_def)
qed

text \<open>
  C14. The paymaster contract accepts what the sponsor signs. When the service answers with a final sponsorship and the
  operation is packed with it as ERC-4337 says, the contract on the same chain, with the service's key
  as its signer, computes the same hash, so it accepts the signature, for the recorded window, and hands
  the app and the sender of the reservation to its event; only a delegation that the contract does not allow
  stands in the way. Signing and recovery are inverse, and the window ends before \<open>2 ^ 48\<close> seconds.
\<close>

theorem paymaster_accepts_signature:
  assumes "rpc_dispatch E J cfg sv req s = (Inr (PmResult p), t)" "pm_IsFinal p" "cache_ok E s" "ledger_ok (db s)"
    and "op_UnmarshalJSON J (rq_Params req ! 0) = Some w" "packed_as (with_limits w) (pm_Paymaster p) (pm_PaymasterData p) P"
    and contract: "block_chainid C = sv_ChainID sv" "address_this C = sv_Paymaster sv" "length (sv_Paymaster sv) = 20"
      "abi_codec C = Codec E" "pm_signer S \<noteq> zero_address"
    and signer: "\<And>h sig. SignHash E h = Some sig \<Longrightarrow>
      length sig = 65 \<and> recover C h (sig[64 := sig ! 64 + 27]) = Some (pm_signer S)"
    and window: "\<forall>r \<in> set (signatures (db t)). 0 \<le> sg_ValidUntil r \<and> sg_ValidUntil r < 2 ^ 48"
  shows "\<exists>row. last (signatures (db t)) = row \<and> sg_key row = (Sender w, big0 (Nonce w), asked_app J req) \<and>
    validatePaymasterUserOp C S P opHash = Some
      \<lparr>vd_Context = (if delegateAllowed C S (Sender w) then Some (asked_app J req, Sender w, opHash) else None),
       vd_SigFailed = (\<not> delegateAllowed C S (Sender w)), vd_ValidUntil = nat (sg_ValidUntil row), vd_ValidAfter = 0\<rparr>"
proof -
  let ?app = "asked_app J req"
  obtain row h sig where row: "signatures (db t) = signatures (db s) @ [row]" "sg_key row = (Sender w, big0 (Nonce w), ?app)"
    and h: "SponsorHash (Codec E) (with_limits w) (sv_ChainID sv) (sv_Paymaster sv) (of_int (sg_ValidUntil row)) 0 ?app = Inr h"
      "SignHash E h = Some sig"
    and data: "pm_PaymasterData p = PaymasterData (of_int (sg_ValidUntil row)) 0 ?app (sig[64 := sig ! 64 + 27])"
    using final_result [OF assms(1-4)] assms(5) by auto
  have pm: "pm_Paymaster p = sv_Paymaster sv"
    using assms(1)
  proof (cases rule: dispatch_cases)
    case (reserving u dec s')
    from reserving(3) show ?thesis by (cases rule: sign_cases) (auto simp: pm_reply_def)
  qed (use assms(2) in auto)
  note sig = signer [OF h(2)]
  have vu: "0 \<le> sg_ValidUntil row" "sg_ValidUntil row < 2 ^ 48" using window row(1) by simp_all
  then have u: "uint (of_int (sg_ValidUntil row) :: u64) = sg_ValidUntil row" by (simp add: uint_word_of_int)
  then have n: "unat (of_int (sg_ValidUntil row) :: u64) = nat (sg_ValidUntil row)" by (metis nat_uint_eq)
  obtain limits where limits: "PaymasterGasLimits (with_limits w) = Some limits" using assms(6) by (auto simp: packed_as_def)
  note d = packed_data [OF assms(6) _ limits, unfolded pm, OF contract(3)]
  have "parsePaymasterData (po_PaymasterAndData P) =
      Some (unat (of_int (sg_ValidUntil row) :: u64) mod 2 ^ 48, unat (0 :: u64) mod 2 ^ 48, ?app, sig[64 := sig ! 64 + 27])"
    unfolding d(1) data by (rule paymaster_data_parses) (use d(2) sig in simp_all)
  moreover have "nat (sg_ValidUntil row) mod 2 ^ 48 = nat (sg_ValidUntil row)" using vu by (simp add: nat_less_iff)
  ultimately have parse: "parsePaymasterData (po_PaymasterAndData P) = Some (nat (sg_ValidUntil row), 0, ?app, sig[64 := sig ! 64 + 27])"
    by (simp add: n)
  have "getHash C P (unat (of_int (sg_ValidUntil row) :: u64)) (unat (0 :: u64)) ?app = Some h"
    by (rule hashes_agree [OF assms(6) _ _ contract(4)]) (use pm contract vu u h(1) in simp_all)
  then have hash: "getHash C P (nat (sg_ValidUntil row)) 0 ?app = Some h" by (simp add: n)
  have sender: "po_Sender P = Sender w" using assms(6) by (simp add: packed_as_def with_limits_def)
  have "validatePaymasterUserOp C S P opHash = Some
      \<lparr>vd_Context = (if delegateAllowed C S (Sender w) then Some (?app, Sender w, opHash) else None),
       vd_SigFailed = (\<not> delegateAllowed C S (Sender w)), vd_ValidUntil = nat (sg_ValidUntil row), vd_ValidAfter = 0\<rparr>"
    using sig contract(5) by (simp add: validatePaymasterUserOp_def parse hash sender Let_def)
  with row show ?thesis by auto
qed

text \<open>The reply of the example, on chain: the contract pays for the operation.\<close>

definition ex_evm :: contract_env where
  "ex_evm = \<lparr>block_chainid = 4242, address_this = ex_paymaster, code_of = (\<lambda>a. []), abi_codec = ex_codec,
     recover = (\<lambda>h sig. Some ex_entry)\<rparr>"

theorem paymaster_accepts_signature_witness:
  "\<exists>p t P row. rpc_dispatch ex_world ex_json ex_policy ex_server ex_request ex_fresh = (Inr (PmResult p), t) \<and>
     packed_as (with_limits ex_op) (pm_Paymaster p) (pm_PaymasterData p) P \<and> sg_key row = (ex_sender, 5, 7) \<and>
     validatePaymasterUserOp ex_evm \<lparr>pm_signer = ex_entry, allowedDelegates = {||}\<rparr> P [9] = Some
       \<lparr>vd_Context = Some (7, ex_sender, [9]), vd_SigFailed = False, vd_ValidUntil = nat (sg_ValidUntil row), vd_ValidAfter = 0\<rparr>"
proof -
  obtain p t where run: "rpc_dispatch ex_world ex_json ex_policy ex_server ex_request ex_fresh = (Inr (PmResult p), t)" "pm_IsFinal p"
    and window: "\<forall>r \<in> set (signatures (db t)). 0 \<le> sg_ValidUntil r \<and> sg_ValidUntil r < 2 ^ 48"
    using ex_reply by blast
  let ?u = "with_limits ex_op"
  obtain h where "SponsorHash ex_codec ?u 4242 ex_paymaster 0 0 7 = Inr h" using ex_hash by blast
  then obtain agl pgl fees where l: "AccountGasLimits ?u = Some agl" "PaymasterGasLimits ?u = Some pgl" "GasFees ?u = Some fees"
    by (rule SponsorHash_Inr)
  let ?P = "\<lparr>po_Sender = Sender ?u, po_Nonce = big0 (Nonce ?u), po_InitCode = InitCode ?u, po_CallData = CallData ?u,
    po_AccountGasLimits = agl, po_PreVerificationGas = big0 (PreVerificationGas ?u), po_GasFees = fees,
    po_PaymasterAndData = pm_Paymaster p @ pgl @ pm_PaymasterData p\<rparr>"
  have packed: "packed_as ?u (pm_Paymaster p) (pm_PaymasterData p) ?P" using l by (simp add: packed_as_def)
  have sig: "SignHash ex_world h = Some sig \<Longrightarrow> length sig = 65 \<and>
      recover ex_evm h (sig[64 := sig ! 64 + 27]) = Some (pm_signer \<lparr>pm_signer = ex_entry, allowedDelegates = {||}\<rparr>)" for h sig
    by (auto simp: ex_evm_def)
  have allowed: "delegateAllowed ex_evm S a" for S a by (simp add: delegateAllowed_def ex_evm_def)
  have o: "Sender ex_op = ex_sender" "big0 (Nonce ex_op) = 5" by (simp_all add: ex_op_def big0_def)
  have c: "block_chainid ex_evm = sv_ChainID ex_server" "address_this ex_evm = sv_Paymaster ex_server" "length (sv_Paymaster ex_server) = 20"
    "abi_codec ex_evm = Codec ex_world" "pm_signer \<lparr>pm_signer = ex_entry, allowedDelegates = {||}\<rparr> \<noteq> zero_address"
    by (simp_all add: ex_evm_def ex_server_def ex_paymaster_def ex_entry_def zero_address_def)
  from paymaster_accepts_signature [OF run ex_fresh_ok(1,2) ex_operation packed c sig window, of "[9]", unfolded ex_asked o] allowed
  show ?thesis using run(1) packed by auto
qed

end
