(* ===== verification/Indexer.thy ===== *)
theory Indexer
  imports SponsorTypes
begin

text \<open>
  The indexer, \<open>services/indexer/internal/ingest\<close> with its tables in \<open>db\<close>: it follows the chain block by
  block and writes what the node answers into PostgreSQL. What the node and the database answer is read
  from \<open>index_env\<close> at a counter that every question advances. A row is a value of \<open>row\<close>, one
  constructor per table; \<open>row_key\<close> is its primary key.
\<close>

section \<open>What the node answers\<close>

record rpc_tx =
  rt_Hash :: "byte list"
  rt_From :: addr
  rt_To :: "addr option"
  rt_Value :: "int option"
  rt_Type :: u64
  rt_Index :: u64

record rpc_block =
  rb_Number :: u64
  rb_Hash :: "byte list"
  rb_Timestamp :: u64
  rb_GasUsed :: u64
  rb_GasLimit :: u64
  rb_BaseFee :: "int option"
  rb_Miner :: addr
  rb_Transactions :: "rpc_tx list"

text \<open>The zero value, which the JSON \<open>null\<close> leaves as it is.\<close>

definition zero_block :: rpc_block where
  "zero_block = \<lparr>rb_Number = 0, rb_Hash = replicate 32 0, rb_Timestamp = 0, rb_GasUsed = 0, rb_GasLimit = 0,
     rb_BaseFee = None, rb_Miner = zero_address, rb_Transactions = []\<rparr>"

text \<open>\<open>types.Receipt\<close> and \<open>types.Log\<close> of go-ethereum, as far as they are read.\<close>

record rpc_log =
  rl_Address :: addr
  rl_Topics :: "byte list list"
  rl_Data :: "byte list"
  rl_TxHash :: "byte list"
  rl_Index :: u64

record receipt =
  rc_TxHash :: "byte list"
  rc_GasUsed :: u64
  rc_Status :: u64
  rc_ContractAddress :: addr
  rc_Logs :: "rpc_log list"

record comet_event =
  ce_Type :: string
  ce_Attributes :: "(string \<times> string) list"

text \<open>The last of two attributes with one key counts; a missing one is the empty text.\<close>

definition attrs :: "comet_event \<Rightarrow> (string, string) fmap" where
  "attrs e = foldl (\<lambda>m kv. fmupd (fst kv) (snd kv) m) fmempty (ce_Attributes e)"

definition attr :: "(string, string) fmap \<Rightarrow> string \<Rightarrow> string" where
  "attr m k = (case fmlookup m k of None \<Rightarrow> [] | Some v \<Rightarrow> v)"

record fetched =
  ft_height :: int
  ft_time :: int
  ft_block :: rpc_block
  ft_receipts :: "receipt list"
  ft_events :: "comet_event list"

section \<open>The tables\<close>

record block_row =
  br_Hash :: "byte list"
  br_Time :: int
  br_TxCount :: int
  br_GasUsed :: int
  br_GasLimit :: int
  br_BaseFee :: "int option"
  br_Proposer :: addr

record tx_row =
  tr_Height :: int
  tr_Idx :: int
  tr_Sender :: addr
  tr_Recipient :: "addr option"
  tr_Value :: int
  tr_GasUsed :: int
  tr_Status :: int
  tr_Type :: int
  tr_Contract :: "addr option"

record log_row =
  lr_TxHash :: "byte list"
  lr_Address :: addr
  lr_Topics :: "byte list option list"
  lr_Data :: "byte list"

record sponsored_row =
  so_AppID :: int
  so_Sender :: addr
  so_OpHash :: "byte list"
  so_GasCost :: int
  so_FeePerGas :: int

record settlement_row =
  st_Time :: int
  st_AppID :: int
  st_Payer :: string
  st_Payee :: string
  st_Denom :: string
  st_Amount :: string
  st_Fee :: string
  st_Net :: string
  st_AppShare :: string
  st_Referrer :: string
  st_ReferrerShare :: string
  st_ValidatorShare :: string
  st_RelayerShare :: string
  st_TreasuryShare :: string

record event_row =
  er_Kind :: string
  er_AppID :: "int option"
  er_Attrs :: string

datatype row =
    RBlock int block_row
  | RTx "byte list" tx_row
  | RLog int int log_row
  | RSponsored int int sponsored_row
  | RSettlement int int settlement_row
  | REvent int int event_row

datatype row_key = KBlock int | KTx "byte list" | KLog int int | KSponsored int int | KSettlement int int | KEvent int int

fun key_of :: "row \<Rightarrow> row_key" where
  "key_of (RBlock h v) = KBlock h"
| "key_of (RTx x v) = KTx x"
| "key_of (RLog h i v) = KLog h i"
| "key_of (RSponsored h i v) = KSponsored h i"
| "key_of (RSettlement h i v) = KSettlement h i"
| "key_of (REvent h i v) = KEvent h i"

record index_tables =
  ix_blocks :: "(int, block_row) fmap"
  ix_evm_txs :: "(byte list, tx_row) fmap"
  ix_evm_logs :: "(int \<times> int, log_row) fmap"
  ix_sponsored_ops :: "(int \<times> int, sponsored_row) fmap"
  ix_settlements :: "(int \<times> int, settlement_row) fmap"
  ix_app_events :: "(int \<times> int, event_row) fmap"
  ix_cursor :: "(string, int) fmap"

definition index_empty :: index_tables where
  "index_empty = \<lparr>ix_blocks = fmempty, ix_evm_txs = fmempty, ix_evm_logs = fmempty, ix_sponsored_ops = fmempty,
     ix_settlements = fmempty, ix_app_events = fmempty, ix_cursor = fmempty\<rparr>"

text \<open>\<open>INSERT ... ON CONFLICT DO NOTHING\<close>\<close>

definition add_new :: "'k \<Rightarrow> 'v \<Rightarrow> ('k, 'v) fmap \<Rightarrow> ('k, 'v) fmap" where
  "add_new k v m = (case fmlookup m k of None \<Rightarrow> fmupd k v m | Some w \<Rightarrow> m)"

fun insert_row :: "row \<Rightarrow> index_tables \<Rightarrow> index_tables" where
  "insert_row (RBlock h v) d = d\<lparr>ix_blocks := add_new h v (ix_blocks d)\<rparr>"
| "insert_row (RTx x v) d = d\<lparr>ix_evm_txs := add_new x v (ix_evm_txs d)\<rparr>"
| "insert_row (RLog h i v) d = d\<lparr>ix_evm_logs := add_new (h, i) v (ix_evm_logs d)\<rparr>"
| "insert_row (RSponsored h i v) d = d\<lparr>ix_sponsored_ops := add_new (h, i) v (ix_sponsored_ops d)\<rparr>"
| "insert_row (RSettlement h i v) d = d\<lparr>ix_settlements := add_new (h, i) v (ix_settlements d)\<rparr>"
| "insert_row (REvent h i v) d = d\<lparr>ix_app_events := add_new (h, i) v (ix_app_events d)\<rparr>"

definition set_cursor :: "string \<Rightarrow> int \<Rightarrow> index_tables \<Rightarrow> index_tables" where
  "set_cursor name h d = d\<lparr>ix_cursor := fmupd name h (ix_cursor d)\<rparr>"

section \<open>The world and the state\<close>

datatype ix_err = IxUpstream | IxDb | IxPanic

text \<open>
  The outer \<open>None\<close> is an error; for a block and its receipts, the inner \<open>None\<close> is the JSON \<open>null\<close>.
\<close>

record index_env =
  StatusHeads :: "nat \<Rightarrow> (string \<times> string) option"
  BlockByNumber :: "nat \<Rightarrow> int \<Rightarrow> rpc_block option option"
  BlockReceipts :: "nat \<Rightarrow> int \<Rightarrow> receipt list option option"
  BlockResults :: "nat \<Rightarrow> int \<Rightarrow> (comet_event list list \<times> comet_event list) option"
  HeaderTime :: "nat \<Rightarrow> int \<Rightarrow> int option"
  IxDbOk :: "nat \<Rightarrow> bool"
  IxCommit :: "nat \<Rightarrow> commit_outcome"
  \<comment> \<open>\<open>big.Int.SetString\<close> succeeds, \<open>json.Marshal\<close> of a map, \<open>crypto.Keccak256\<close>\<close>
  BigText :: "string \<Rightarrow> bool"
  MapJSON :: "(string, string) fmap \<Rightarrow> string"
  IxKeccak :: "byte list \<Rightarrow> byte list"

record index_cfg =
  ic_Paymaster :: addr
  ic_Batch :: int
  ic_StartAt :: int

definition index_New :: "index_cfg \<Rightarrow> index_cfg" where
  "index_New cfg = (if ic_Batch cfg \<le> 0 then cfg\<lparr>ic_Batch := 50\<rparr> else cfg)"

record indexer =
  ix_tick :: nat
  ix_db :: index_tables

type_synonym 'a indexing = "(ix_err, indexer, 'a) run"

definition ix_observe :: "(nat \<Rightarrow> 'a) \<Rightarrow> 'a indexing" where
  "ix_observe f = (\<lambda>s. (Inr (f (ix_tick s)), s\<lparr>ix_tick := Suc (ix_tick s)\<rparr>))"

definition ix_exec :: "index_env \<Rightarrow> (index_tables \<Rightarrow> index_tables) \<Rightarrow> unit indexing" where
  "ix_exec E f = (\<lambda>s.
     if IxDbOk E (ix_tick s) then (Inr (), s\<lparr>ix_tick := Suc (ix_tick s), ix_db := f (ix_db s)\<rparr>)
     else (Inl IxDb, s\<lparr>ix_tick := Suc (ix_tick s)\<rparr>))"

definition ix_BeginFunc :: "index_env \<Rightarrow> 'a indexing \<Rightarrow> 'a indexing" where
  "ix_BeginFunc E m = (\<lambda>s.
     case m s of
       (Inl e, t) \<Rightarrow> (Inl e, t\<lparr>ix_db := ix_db s\<rparr>)
     | (Inr x, t) \<Rightarrow>
         (case IxCommit E (ix_tick t) of
            Committed \<Rightarrow> (Inr x, t\<lparr>ix_tick := Suc (ix_tick t)\<rparr>)
          | RolledBack \<Rightarrow> (Inl IxDb, t\<lparr>ix_tick := Suc (ix_tick t), ix_db := ix_db s\<rparr>)
          | CommitUnknown \<Rightarrow> (Inl IxDb, t\<lparr>ix_tick := Suc (ix_tick t)\<rparr>)))"

definition ix_Cursor :: "index_env \<Rightarrow> string \<Rightarrow> int indexing" where
  "ix_Cursor E name =
     bindM (ix_observe (IxDbOk E)) (\<lambda>ok.
     seqM (check ok IxDb)
     (gets (\<lambda>s. case fmlookup (ix_cursor (ix_db s)) name of None \<Rightarrow> 0 | Some h \<Rightarrow> h)))"

section \<open>Fetching\<close>

definition index_heads :: "index_env \<Rightarrow> (int \<times> int) indexing" where
  "index_heads E =
     bindM (ix_observe (StatusHeads E)) (\<lambda>r.
     bindM (need r IxUpstream) (\<lambda>(latest, earliest). ret (ParseInt latest, ParseInt earliest)))"

text \<open>Without a header the time of the block, in seconds, is taken.\<close>

definition fetch :: "index_env \<Rightarrow> int \<Rightarrow> fetched indexing" where
  "fetch E h =
     bindM (ix_observe (\<lambda>n. BlockByNumber E n h)) (\<lambda>r. bindM (need r IxUpstream) (\<lambda>b.
     bindM (ix_observe (\<lambda>n. BlockReceipts E n h)) (\<lambda>r. bindM (need r IxUpstream) (\<lambda>rs.
     bindM (ix_observe (\<lambda>n. BlockResults E n h)) (\<lambda>r. bindM (need r IxUpstream) (\<lambda>(txs, final).
     bindM (ix_observe (\<lambda>n. HeaderTime E n h)) (\<lambda>t.
     let block = (case b of None \<Rightarrow> zero_block | Some x \<Rightarrow> x) in
     ret \<lparr>ft_height = h,
       ft_time = (case t of None \<Rightarrow> sint (rb_Timestamp block) * 10 ^ 9 | Some x \<Rightarrow> x),
       ft_block = block, ft_receipts = (case rs of None \<Rightarrow> [] | Some x \<Rightarrow> x), ft_events = concat txs @ final\<rparr>)))))))"

section \<open>The rows of a block\<close>

definition num :: "index_env \<Rightarrow> string \<Rightarrow> string" where
  "num E s = (if BigText E s then s else ''0'')"

text \<open>\<open>strconv.ParseInt\<close> without an error.\<close>

definition parses_int :: "string \<Rightarrow> bool" where
  "parses_int s \<longleftrightarrow>
     (let t = (if s \<noteq> [] \<and> (hd s = CHR ''-'' \<or> hd s = CHR ''+'') then tl s else s);
          n = foldl (\<lambda>n c. n * 10 + (int (of_char c) - 48)) 0 t
      in t \<noteq> [] \<and> list_all is_digit t \<and> (if hd s = CHR ''-'' then n \<le> 2 ^ 63 else n < 2 ^ 63))"

definition appEventKinds :: "string set" where
  "appEventKinds = {
     ''app_registered'', ''app_updated'', ''app_contract_bound'', ''app_contract_move_scheduled'',
     ''app_status_changed'', ''app_ownership_transferred'', ''apps_epoch_rollover'',
     ''app_bonded'', ''app_unbonding'', ''app_unbonded'',
     ''settle_revenue_claimed'', ''settle_credits_bought'', ''settle_validator_payout'',
     ''settle_treasury_withdrawn'', ''settle_relayer_disbursed'', ''settle_invariant_broken'',
     ''settle_tab_closed'', ''council_pause'', ''council_unpause'', ''council_admit_validator'',
     ''council_remove_validator'', ''council_pause_expired''}"

definition sponsoredTopic :: "index_env \<Rightarrow> byte list" where
  "sponsoredTopic E = IxKeccak E (string_bytes ''Sponsored(uint64,address,bytes32,uint256,uint256)'')"

text \<open>A column of type \<open>TIMESTAMPTZ\<close> keeps microseconds; times are nanoseconds since 1970.\<close>

definition timestamptz :: "int \<Rightarrow> int" where
  "timestamptz t = t div 1000"

definition block_row_of :: "fetched \<Rightarrow> row" where
  "block_row_of f =
     (let b = ft_block f in
      RBlock (ft_height f) \<lparr>br_Hash = rb_Hash b, br_Time = timestamptz (ft_time f), br_TxCount = int (length (rb_Transactions b)),
        br_GasUsed = sint (rb_GasUsed b), br_GasLimit = sint (rb_GasLimit b), br_BaseFee = rb_BaseFee b, br_Proposer = rb_Miner b\<rparr>)"

text \<open>The last receipt with the hash of a transaction counts.\<close>

definition receipts_by_tx :: "receipt list \<Rightarrow> (byte list, receipt) fmap" where
  "receipts_by_tx rs = foldl (\<lambda>m r. fmupd (rc_TxHash r) r m) fmempty rs"

definition int16 :: "u64 \<Rightarrow> int" where
  "int16 v = sint (ucast v :: 16 word)"

definition tx_row_of :: "fetched \<Rightarrow> rpc_tx \<Rightarrow> row" where
  "tx_row_of f t =
     (let r = fmlookup (receipts_by_tx (ft_receipts f)) (rt_Hash t) in
      RTx (rt_Hash t) \<lparr>tr_Height = ft_height f, tr_Idx = sint (rt_Index t), tr_Sender = rt_From t, tr_Recipient = rt_To t,
        tr_Value = (case rt_Value t of None \<Rightarrow> 0 | Some v \<Rightarrow> v),
        tr_GasUsed = (case r of None \<Rightarrow> 0 | Some x \<Rightarrow> sint (rc_GasUsed x)),
        tr_Status = (case r of None \<Rightarrow> 0 | Some x \<Rightarrow> int16 (rc_Status x)), tr_Type = int16 (rt_Type t),
        tr_Contract = (case r of None \<Rightarrow> None
          | Some x \<Rightarrow> if rc_ContractAddress x \<noteq> zero_address then Some (rc_ContractAddress x) else None)\<rparr>)"

definition log_rows_of :: "index_env \<Rightarrow> index_cfg \<Rightarrow> int \<Rightarrow> rpc_log \<Rightarrow> row list" where
  "log_rows_of E cfg h l =
     (let ts = rl_Topics l in
      RLog h (sint (rl_Index l)) \<lparr>lr_TxHash = rl_TxHash l, lr_Address = rl_Address l,
        lr_Topics = map (\<lambda>i. if i < length ts then Some (ts ! i) else None) [0..<4], lr_Data = rl_Data l\<rparr> #
      (if rl_Address l = ic_Paymaster cfg \<and> length ts = 4 \<and> ts ! 0 = sponsoredTopic E \<and> 64 \<le> length (rl_Data l)
       then [RSponsored h (sint (rl_Index l))
         \<lparr>so_AppID = sint (of_nat (SetBytes (ts ! 1)) :: u64), so_Sender = common_BytesToAddress (ts ! 2), so_OpHash = ts ! 3,
          so_GasCost = int (SetBytes (take 32 (rl_Data l))), so_FeePerGas = int (SetBytes (take 32 (drop 32 (rl_Data l))))\<rparr>]
       else []))"

definition event_rows_of :: "index_env \<Rightarrow> fetched \<Rightarrow> nat \<times> comet_event \<Rightarrow> row list" where
  "event_rows_of E f se =
     (let (seq, ev) = se; a = attrs ev; h = ft_height f in
      if ce_Type ev = ''settled'' then
        [RSettlement h (int seq) \<lparr>st_Time = timestamptz (ft_time f), st_AppID = ParseInt (attr a ''app_id''), st_Payer = attr a ''payer'',
           st_Payee = attr a ''payee'', st_Denom = attr a ''denom'', st_Amount = num E (attr a ''amount''),
           st_Fee = num E (attr a ''fee''), st_Net = num E (attr a ''net''), st_AppShare = num E (attr a ''app_share''),
           st_Referrer = attr a ''referrer'', st_ReferrerShare = num E (attr a ''referrer_share''),
           st_ValidatorShare = num E (attr a ''validator_share''), st_RelayerShare = num E (attr a ''relayer_share''),
           st_TreasuryShare = num E (attr a ''treasury_share'')\<rparr>]
      else if ce_Type ev \<in> appEventKinds then
        [REvent h (int seq) \<lparr>er_Kind = ce_Type ev,
           er_AppID = (if parses_int (attr a ''app_id'') then Some (ParseInt (attr a ''app_id'')) else None),
           er_Attrs = MapJSON E a\<rparr>]
      else [])"

text \<open>In the order of the statements.\<close>

definition rows_of :: "index_env \<Rightarrow> index_cfg \<Rightarrow> fetched \<Rightarrow> row list" where
  "rows_of E cfg f =
     block_row_of f # map (tx_row_of f) (rb_Transactions (ft_block f)) @
     concat (map (\<lambda>r. concat (map (log_rows_of E cfg (ft_height f)) (rc_Logs r))) (ft_receipts f)) @
     concat (map (event_rows_of E f) (enumerate 0 (ft_events f)))"

section \<open>Writing\<close>

definition write_fetched :: "index_env \<Rightarrow> index_cfg \<Rightarrow> fetched \<Rightarrow> unit indexing" where
  "write_fetched E cfg f = forM (rows_of E cfg f) (\<lambda>r. ix_exec E (insert_row r))"

definition index_write :: "index_env \<Rightarrow> index_cfg \<Rightarrow> fetched list \<Rightarrow> unit indexing" where
  "index_write E cfg batch = ix_BeginFunc E (
     seqM (forM batch (write_fetched E cfg))
     (case batch of [] \<Rightarrow> fail IxPanic | f # fs \<Rightarrow> ix_exec E (set_cursor ''blocks'' (ft_height (last batch)))))"

section \<open>The loop\<close>

text \<open>Where a turn of \<open>Run\<close> starts; blocks that the node has pruned are skipped.\<close>

definition first_height :: "index_cfg \<Rightarrow> int \<Rightarrow> int \<Rightarrow> int" where
  "first_height cfg next earliest =
     (let n = (if next = 1 then max (max (ic_StartAt cfg) earliest) 1 else next)
      in if n < earliest then earliest else n)"

text \<open>The workers fetch every block of the range, whichever of them fail.\<close>

fun fetch_batch :: "index_env \<Rightarrow> int list \<Rightarrow> (ix_err + fetched) list indexing" where
  "fetch_batch E [] = ret []"
| "fetch_batch E (h # hs) = bindM (attempt (fetch E h)) (\<lambda>r. bindM (fetch_batch E hs) (\<lambda>rs. ret (r # rs)))"

fun all_fetched :: "(ix_err + fetched) list \<Rightarrow> fetched list option" where
  "all_fetched [] = Some []"
| "all_fetched (Inl e # rs) = None"
| "all_fetched (Inr f # rs) = (case all_fetched rs of None \<Rightarrow> None | Some fs \<Rightarrow> Some (f # fs))"

text \<open>One turn of the loop: the next height and the state. Failures are logged and retried.\<close>

definition index_turn :: "index_env \<Rightarrow> index_cfg \<Rightarrow> int \<Rightarrow> indexer \<Rightarrow> int \<times> indexer" where
  "index_turn E cfg next s =
     (case index_heads E s of
        (Inl e, t) \<Rightarrow> (next, t)
      | (Inr (latest, earliest), t) \<Rightarrow>
          let n = first_height cfg next earliest in
          if latest < n then (n, t)
          else let end_h = min (wrap64 (n + ic_Batch cfg - 1)) latest in
            (case fetch_batch E [n..end_h] t of
               (Inl e, u) \<Rightarrow> (n, u)
             | (Inr rs, u) \<Rightarrow>
                 (case all_fetched rs of
                    None \<Rightarrow> (n, u)
                  | Some batch \<Rightarrow>
                      (case index_write E cfg batch u of (Inl e, v) \<Rightarrow> (n, v) | (Inr x, v) \<Rightarrow> (end_h + 1, v)))))"

text \<open>The start of \<open>Run\<close>.\<close>

definition index_start :: "index_env \<Rightarrow> int indexing" where
  "index_start E = bindM (ix_Cursor E ''blocks'') (\<lambda>cur. ret (cur + 1))"

end
