(* ===== verification/IndexerLaws.thy ===== *)
theory IndexerLaws
  imports Indexer
begin

text \<open>
  What the indexer promises: whatever question or statement fails, and however often it restarts, its tables hold
  the rows of every block it has passed exactly once, and only blocks that the node had pruned are missing - as long
  as the EVM endpoint of the node has the blocks that CometBFT reports. What it does when the endpoint lags is the
  last section.
\<close>

section \<open>Rows\<close>

fun has_key :: "row_key \<Rightarrow> index_tables \<Rightarrow> bool" where
  "has_key (KBlock h) d = (fmlookup (ix_blocks d) h \<noteq> None)"
| "has_key (KTx x) d = (fmlookup (ix_evm_txs d) x \<noteq> None)"
| "has_key (KLog h i) d = (fmlookup (ix_evm_logs d) (h, i) \<noteq> None)"
| "has_key (KSponsored h i) d = (fmlookup (ix_sponsored_ops d) (h, i) \<noteq> None)"
| "has_key (KSettlement h i) d = (fmlookup (ix_settlements d) (h, i) \<noteq> None)"
| "has_key (KEvent h i) d = (fmlookup (ix_app_events d) (h, i) \<noteq> None)"

lemma add_new_lookup: "fmlookup (add_new k v m) j = (if j = k then Some (case fmlookup m k of None \<Rightarrow> v | Some w \<Rightarrow> w) else fmlookup m j)"
  by (simp add: add_new_def split: option.split)

lemma add_new_known: "fmlookup m k \<noteq> None \<Longrightarrow> add_new k v m = m"
  by (auto simp: add_new_def)

lemma insert_known: "has_key (key_of r) d \<Longrightarrow> insert_row r d = d"
  by (cases r) (auto simp: add_new_def)

lemma insert_has: "has_key (key_of r) (insert_row r d)"
  by (cases r) (simp_all add: add_new_lookup)

lemma insert_mono: "has_key k d \<Longrightarrow> has_key k (insert_row r d)"
  by (cases r; cases k) (auto simp: add_new_lookup)

lemma insert_cursor: "insert_row r (d\<lparr>ix_cursor := c\<rparr>) = (insert_row r d)\<lparr>ix_cursor := c\<rparr>"
  by (cases r) simp_all

definition insert_rows :: "row list \<Rightarrow> index_tables \<Rightarrow> index_tables" where
  "insert_rows rs d = fold insert_row rs d"

lemma insert_rows_simps [simp]:
  "insert_rows [] d = d" "insert_rows (r # rs) d = insert_rows rs (insert_row r d)"
  "insert_rows (rs @ rs') d = insert_rows rs' (insert_rows rs d)"
  by (simp_all add: insert_rows_def)

lemma insert_rows_known: "(\<And>r. r \<in> set rs \<Longrightarrow> has_key (key_of r) d) \<Longrightarrow> insert_rows rs d = d"
  by (induction rs) (simp_all add: insert_known)

lemma insert_rows_mono: "has_key k d \<Longrightarrow> has_key k (insert_rows rs d)"
  by (induction rs arbitrary: d) (simp_all add: insert_mono)

lemma insert_rows_has: "r \<in> set rs \<Longrightarrow> has_key (key_of r) (insert_rows rs d)"
  by (induction rs arbitrary: d) (auto simp: insert_has insert_rows_mono)

lemma insert_rows_cursor: "insert_rows rs (d\<lparr>ix_cursor := c\<rparr>) = (insert_rows rs d)\<lparr>ix_cursor := c\<rparr>"
  by (induction rs arbitrary: d) (simp_all add: insert_cursor)

lemma has_key_cursor [simp]: "has_key k (d\<lparr>ix_cursor := c\<rparr>) = has_key k d"
  by (cases k) simp_all

text \<open>The tables after a list of blocks.\<close>

definition written :: "index_env \<Rightarrow> index_cfg \<Rightarrow> fetched list \<Rightarrow> index_tables \<Rightarrow> index_tables" where
  "written E cfg fs d = insert_rows (concat (map (rows_of E cfg) fs)) d"

lemma written_simps [simp]:
  "written E cfg [] d = d" "written E cfg (f # fs) d = written E cfg fs (insert_rows (rows_of E cfg f) d)"
  "written E cfg (fs @ fs') d = written E cfg fs' (written E cfg fs d)"
  by (simp_all add: written_def)

lemma written_cursor: "written E cfg fs (d\<lparr>ix_cursor := c\<rparr>) = (written E cfg fs d)\<lparr>ix_cursor := c\<rparr>"
  by (simp add: written_def insert_rows_cursor)

section \<open>Transactions\<close>

lemma ix_exec_Inr: "ix_exec E f s = (Inr u, t) \<longleftrightarrow> IxDbOk E (ix_tick s) \<and> t = s\<lparr>ix_tick := Suc (ix_tick s), ix_db := f (ix_db s)\<rparr>"
  by (auto simp: ix_exec_def)

lemma rows_written: "forM rs (\<lambda>r. ix_exec E (insert_row r)) s = (Inr u, t) \<Longrightarrow> ix_db t = insert_rows rs (ix_db s)"
  by (induction rs arbitrary: s) (auto simp: seqM_Inr ix_exec_Inr)

lemma batch_written: "forM fs (write_fetched E cfg) s = (Inr u, t) \<Longrightarrow> ix_db t = written E cfg fs (ix_db s)"
  by (induction fs arbitrary: s) (auto simp: seqM_Inr write_fetched_def dest!: rows_written)

lemma ix_BeginFunc_cases:
  assumes "ix_BeginFunc E m s = (r, t)"
  shows "ix_db t = ix_db s \<and> (\<exists>e. r = Inl e) \<or> (\<exists>x u. m s = (Inr x, u) \<and> ix_db t = ix_db u \<and> (r = Inr x \<or> r = Inl IxDb))"
  using assms by (auto simp: ix_BeginFunc_def split: prod.splits sum.splits commit_outcome.splits)

lemma index_write_cases:
  assumes "index_write E cfg fs s = (r, t)"
  shows "ix_db t = ix_db s \<and> (\<exists>e. r = Inl e) \<or>
    fs \<noteq> [] \<and> ix_db t = set_cursor ''blocks'' (ft_height (last fs)) (written E cfg fs (ix_db s))"
proof -
  let ?body = "seqM (forM fs (write_fetched E cfg))
      (case fs of [] \<Rightarrow> fail IxPanic | f # gs \<Rightarrow> ix_exec E (set_cursor ''blocks'' (ft_height (last fs))))"
  have body: "fs \<noteq> [] \<and> ix_db u = set_cursor ''blocks'' (ft_height (last fs)) (written E cfg fs (ix_db s))"
    if run: "?body s = (Inr x, u)" for x u
  proof -
    from run obtain v where v: "forM fs (write_fetched E cfg) s = (Inr (), v)"
      "(case fs of [] \<Rightarrow> fail IxPanic | f # gs \<Rightarrow> ix_exec E (set_cursor ''blocks'' (ft_height (last fs)))) v = (Inr x, u)"
      by (auto simp: seqM_Inr)
    from v(2) have "fs \<noteq> []" "ix_db u = set_cursor ''blocks'' (ft_height (last fs)) (ix_db v)"
      by (cases fs; auto simp: ix_exec_Inr)+
    with batch_written [OF v(1)] show ?thesis by simp
  qed
  from ix_BeginFunc_cases [OF assms [unfolded index_write_def]] body show ?thesis by metis
qed

section \<open>What is fetched\<close>

text \<open>
  CometBFT never changes a committed block, and the EVM endpoint derives its blocks from it: every
  answer about height \<open>h\<close> that is neither an error nor \<open>null\<close> is the same. Only the time may come
  from the header or from the block.
\<close>

definition node_final :: "index_env \<Rightarrow> (int \<Rightarrow> rpc_block) \<Rightarrow> (int \<Rightarrow> receipt list) \<Rightarrow> (int \<Rightarrow> comet_event list list \<times> comet_event list) \<Rightarrow> bool" where
  "node_final E B R V \<longleftrightarrow>
     (\<forall>n h x. BlockByNumber E n h = Some (Some x) \<longrightarrow> x = B h) \<and>
     (\<forall>n h x. BlockReceipts E n h = Some (Some x) \<longrightarrow> x = R h) \<and>
     (\<forall>n h x. BlockResults E n h = Some x \<longrightarrow> x = V h)"

text \<open>
  A height the endpoint does not have is answered with \<open>null\<close>. The two endpoints of the node keep up
  with each other when, after CometBFT has reported its first and last height, the EVM endpoint does not
  answer \<open>null\<close> for a height between them to the questions of that turn - four for each block of a
  batch. It may fail them, and it may answer \<open>null\<close> for every other height, and later when it prunes.
  What happens otherwise is the last section.
\<close>

definition node_keeps_up :: "index_env \<Rightarrow> index_cfg \<Rightarrow> bool" where
  "node_keeps_up E cfg \<longleftrightarrow>
     (\<forall>k x y n h. StatusHeads E k = Some (x, y) \<longrightarrow> ParseInt y \<le> h \<longrightarrow> h \<le> ParseInt x \<longrightarrow>
        k < n \<longrightarrow> n \<le> k + 4 * nat (wrap64 (ic_Batch cfg)) \<longrightarrow> BlockByNumber E n h \<noteq> Some None \<and> BlockReceipts E n h \<noteq> Some None)"

definition node_serves ::
  "index_env \<Rightarrow> index_cfg \<Rightarrow> (int \<Rightarrow> rpc_block) \<Rightarrow> (int \<Rightarrow> receipt list) \<Rightarrow> (int \<Rightarrow> comet_event list list \<times> comet_event list) \<Rightarrow> bool" where
  "node_serves E cfg B R V \<longleftrightarrow> node_final E B R V \<and> node_keeps_up E cfg"

definition not_null :: "index_env \<Rightarrow> nat \<Rightarrow> nat \<Rightarrow> int \<Rightarrow> bool" where
  "not_null E k l h \<longleftrightarrow> (\<forall>n. k \<le> n \<longrightarrow> n < l \<longrightarrow> BlockByNumber E n h \<noteq> Some None \<and> BlockReceipts E n h \<noteq> Some None)"

definition genuine :: "(int \<Rightarrow> rpc_block) \<Rightarrow> (int \<Rightarrow> receipt list) \<Rightarrow> (int \<Rightarrow> comet_event list list \<times> comet_event list) \<Rightarrow> fetched \<Rightarrow> bool" where
  "genuine B R V f \<longleftrightarrow>
     ft_block f = B (ft_height f) \<and> ft_receipts f = R (ft_height f) \<and>
     ft_events f = concat (fst (V (ft_height f))) @ snd (V (ft_height f))"

lemma ix_observe_run [simp]: "ix_observe f s = (r, t) \<longleftrightarrow> r = Inr (f (ix_tick s)) \<and> t = s\<lparr>ix_tick := Suc (ix_tick s)\<rparr>"
  by (auto simp: ix_observe_def)

lemma fetch_Inr:
  assumes "fetch E h s = (Inr f, t)"
  shows "ft_height f = h" "ix_db t = ix_db s"
    "\<exists>b. BlockByNumber E (ix_tick s) h = Some b \<and> ft_block f = (case b of None \<Rightarrow> zero_block | Some x \<Rightarrow> x)"
    "node_final E B R V \<Longrightarrow> not_null E (ix_tick s) (ix_tick s + 4) h \<Longrightarrow> genuine B R V f"
proof -
  obtain b rs txs fin where a: "BlockByNumber E (ix_tick s) h = Some b" "BlockReceipts E (Suc (ix_tick s)) h = Some rs"
    "BlockResults E (Suc (Suc (ix_tick s))) h = Some (txs, fin)" and f: "ft_height f = h"
    "ft_block f = (case b of None \<Rightarrow> zero_block | Some x \<Rightarrow> x)" "ft_receipts f = (case rs of None \<Rightarrow> [] | Some x \<Rightarrow> x)"
    "ft_events f = concat txs @ fin" "ix_db t = ix_db s"
    using assms by (auto simp: fetch_def bindM_Inr Let_def split: prod.splits)
  show "ft_height f = h" "ix_db t = ix_db s"
    "\<exists>b. BlockByNumber E (ix_tick s) h = Some b \<and> ft_block f = (case b of None \<Rightarrow> zero_block | Some x \<Rightarrow> x)"
    using a f by auto
  assume final: "node_final E B R V" and nn: "not_null E (ix_tick s) (ix_tick s + 4) h"
  have "b \<noteq> None" using nn a(1) unfolding not_null_def by (metis add_gr_0 le_refl less_add_same_cancel1 zero_less_numeral)
  moreover have "rs \<noteq> None" using nn [unfolded not_null_def, rule_format, of "Suc (ix_tick s)"] a(2) by auto
  ultimately have "V h = (txs, fin)" "b = Some (B h)" "rs = Some (R h)"
    using final a unfolding node_final_def by (metis option.collapse)+
  with f show "genuine B R V f" by (auto simp: genuine_def)
qed

lemma fetch_ticks: "fetch E h s = (r, t) \<Longrightarrow> ix_tick t \<le> ix_tick s + 4"
  by (auto simp: fetch_def bindM_def ix_observe_def need_def ret_def fail_def Let_def split: option.splits prod.splits)

lemma fetch_keeps_db: "fetch E h s = (r, t) \<Longrightarrow> ix_db t = ix_db s"
proof -
  have o: "keeps (\<lambda>u. ix_db u = d) (ix_observe f)" for d and f :: "nat \<Rightarrow> 'b" by (rule keepsI) auto
  have "keeps (\<lambda>u. ix_db u = ix_db s) (fetch E h)"
    unfolding fetch_def Let_def by (intro keeps_intros o)
  then show "fetch E h s = (r, t) \<Longrightarrow> ix_db t = ix_db s" by (simp add: keeps_def) (metis snd_conv)
qed

text \<open>The counter only grows.\<close>

lemma ticks_grow [keeps_intros]:
  "keeps (\<lambda>u. a \<le> ix_tick u) (ix_observe f)" "keeps (\<lambda>u. a \<le> ix_tick u) (ix_exec E g)"
  by (auto simp: keeps_def ix_observe_def ix_exec_def)

lemma ticks_BeginFunc [keeps_intros]: "keeps (\<lambda>u. a \<le> ix_tick u) m \<Longrightarrow> keeps (\<lambda>u. a \<le> ix_tick u) (ix_BeginFunc E m)"
  by (auto simp: keeps_def ix_BeginFunc_def le_SucI split: prod.splits sum.splits commit_outcome.splits)

lemma ticks_fetch: "keeps (\<lambda>u. a \<le> ix_tick u) (fetch E h)"
  unfolding fetch_def Let_def by (intro keeps_intros)

lemma ticks_batch: "keeps (\<lambda>u. a \<le> ix_tick u) (fetch_batch E hs)"
  by (induction hs) (simp_all, (intro keeps_intros ticks_fetch | assumption)+)

lemma ticks_write: "keeps (\<lambda>u. a \<le> ix_tick u) (index_write E cfg fs)"
  unfolding index_write_def write_fetched_def by (intro keeps_intros, cases fs) (auto intro: keeps_intros)

lemma fetch_tick: "fetch E h s = (Inr f, t) \<Longrightarrow> ix_tick s < ix_tick t"
  by (auto simp: fetch_def bindM_Inr Let_def split: prod.splits)

lemma fetched_answers:
  assumes "fetch_batch E hs s = (Inr rs, t)" "all_fetched rs = Some fs" "f \<in> set fs"
  shows "\<exists>k b. k < ix_tick t \<and> BlockByNumber E k (ft_height f) = Some b \<and> ft_block f = (case b of None \<Rightarrow> zero_block | Some x \<Rightarrow> x)"
  using assms
proof (induction hs arbitrary: s rs fs)
  case (Cons h hs)
  obtain q u where q: "fetch E h s = (q, u)" by (cases "fetch E h s")
  obtain rs' where rs': "fetch_batch E hs u = (Inr rs', t)" "rs = q # rs'"
    using Cons.prems(1) q by (auto simp: bindM_Inr attempt_run)
  from Cons.prems(2) rs'(2) obtain g gs where g: "q = Inr g" "all_fetched rs' = Some gs" "fs = g # gs"
    by (cases q) (auto split: option.splits)
  show ?case
  proof (cases "f = g")
    case True
    have "ix_tick u \<le> ix_tick t" by (rule keepsD [OF ticks_batch _ rs'(1)]) simp
    with fetch_tick [OF q [unfolded g(1)]] fetch_Inr(1,3) [OF q [unfolded g(1)]] True show ?thesis
      by (intro exI [of _ "ix_tick s"]) auto
  next
    case False
    with Cons.prems(3) g(3) show ?thesis by (intro Cons.IH [OF rs'(1) g(2)]) simp
  qed
qed simp

lemma fetch_batch_Inr:
  assumes "fetch_batch E hs s = (r, t)"
  shows "\<exists>rs. r = Inr rs \<and> ix_db t = ix_db s \<and>
    (\<forall>fs. all_fetched rs = Some fs \<longrightarrow> map ft_height fs = hs \<and>
       (node_final E B R V \<longrightarrow> (\<forall>h \<in> set hs. not_null E (ix_tick s) (ix_tick s + 4 * length hs) h) \<longrightarrow> (\<forall>f \<in> set fs. genuine B R V f)))"
  using assms
proof (induction hs arbitrary: s r t)
  case Nil
  then show ?case by auto
next
  case (Cons h hs)
  obtain q u where q: "fetch E h s = (q, u)" by (cases "fetch E h s")
  obtain r' t' where r': "fetch_batch E hs u = (r', t')" by (cases "fetch_batch E hs u")
  from Cons.IH [OF r'] obtain rs where rs: "r' = Inr rs" "ix_db t' = ix_db u"
    "\<forall>fs. all_fetched rs = Some fs \<longrightarrow> map ft_height fs = hs \<and>
       (node_final E B R V \<longrightarrow> (\<forall>h \<in> set hs. not_null E (ix_tick u) (ix_tick u + 4 * length hs) h) \<longrightarrow> (\<forall>f \<in> set fs. genuine B R V f))"
    by blast
  have eq: "r = Inr (q # rs)" "t = t'"
    using Cons.prems q r' rs(1) by (auto simp: bindM_def attempt_def)
  have db: "ix_db t' = ix_db s" using rs(2) fetch_keeps_db [OF q] by simp
  have "map ft_height fs = h # hs \<and> (node_final E B R V \<longrightarrow>
      (\<forall>j \<in> set (h # hs). not_null E (ix_tick s) (ix_tick s + 4 * length (h # hs)) j) \<longrightarrow> (\<forall>f \<in> set fs. genuine B R V f))"
    if all: "all_fetched (q # rs) = Some fs" for fs
  proof (cases q)
    case (Inr f)
    with all obtain gs where gs: "fs = f # gs" "all_fetched rs = Some gs" by (auto split: option.splits)
    note f = fetch_Inr [OF q [unfolded Inr]]
    have ticks: "ix_tick s \<le> ix_tick u" "ix_tick u \<le> ix_tick s + 4"
      using fetch_tick [OF q [unfolded Inr]] fetch_ticks [OF q] by simp_all
    have heights: "map ft_height gs = hs" using rs(3) gs(2) by blast
    have "genuine B R V g" if final: "node_final E B R V"
      and nn: "\<forall>j \<in> set (h # hs). not_null E (ix_tick s) (ix_tick s + 4 * length (h # hs)) j" and g: "g \<in> set fs" for g
    proof (cases "g = f")
      case True
      have "not_null E (ix_tick s) (ix_tick s + 4) h" using nn by (simp add: not_null_def)
      with f(4) [OF final] True show ?thesis by simp
    next
      case False
      have "\<forall>j \<in> set hs. not_null E (ix_tick u) (ix_tick u + 4 * length hs) j"
        using nn ticks by (simp add: not_null_def)
      with rs(3) gs final False g show ?thesis by auto
    qed
    with heights f(1) show ?thesis by (simp add: gs(1))
  qed (use all in simp)
  with eq db show ?case by blast
qed

text \<open>The keys of the rows of a block depend on its height only.\<close>

lemma genuine_keys:
  assumes "genuine B R V f" "genuine B R V g" "ft_height f = ft_height g"
  shows "map key_of (rows_of E cfg f) = map key_of (rows_of E cfg g)"
proof -
  have p: "ft_block f = ft_block g" "ft_receipts f = ft_receipts g" "ft_events f = ft_events g"
    using assms by (simp_all add: genuine_def)
  have "key_of (block_row_of f) = key_of (block_row_of g)" using assms(3) by (simp add: block_row_of_def Let_def)
  moreover have "key_of (tx_row_of f t) = key_of (tx_row_of g t)" for t by (simp add: tx_row_of_def Let_def)
  moreover have "map key_of (event_rows_of E f e) = map key_of (event_rows_of E g e)" for e
    using assms(3) by (simp add: event_rows_of_def Let_def split: prod.split)
  ultimately show ?thesis
    using assms(3) by (simp add: rows_of_def p map_concat o_def)
qed

section \<open>The loop\<close>

text \<open>The process runs with its next height, or is stopped; a crash between statements rolls back.\<close>

inductive index_step :: "index_env \<Rightarrow> index_cfg \<Rightarrow> int option \<times> indexer \<Rightarrow> int option \<times> indexer \<Rightarrow> bool" for E cfg where
  start: "index_start E s = (Inr n, t) \<Longrightarrow> index_step E cfg (None, s) (Some n, t)"
| start_fails: "index_start E s = (Inl e, t) \<Longrightarrow> index_step E cfg (None, s) (None, t)"
| turn: "index_turn E cfg n s = (n', t) \<Longrightarrow> index_step E cfg (Some n, s) (Some n', t)"
| stop: "index_step E cfg (Some n, s) (None, s)"

text \<open>Heights that may be missing: before the configured start, or pruned by the node.\<close>

definition skipped :: "index_env \<Rightarrow> index_cfg \<Rightarrow> int \<Rightarrow> bool" where
  "skipped E cfg h \<longleftrightarrow> h < 1 \<or> h < ic_StartAt cfg \<or> (\<exists>k l e. StatusHeads E k = Some (l, e) \<and> h < ParseInt e)"

definition cursor_of :: "index_tables \<Rightarrow> int" where
  "cursor_of d = (case fmlookup (ix_cursor d) ''blocks'' of None \<Rightarrow> 0 | Some h \<Rightarrow> h)"

abbreviation heights :: "fetched list \<Rightarrow> int set" where
  "heights fs \<equiv> ft_height ` set fs"

text \<open>The tables hold the blocks \<open>fs\<close>, each once and in order, and nothing else.\<close>

definition holds_blocks ::
  "index_env \<Rightarrow> index_cfg \<Rightarrow> (int \<Rightarrow> rpc_block) \<Rightarrow> (int \<Rightarrow> receipt list) \<Rightarrow> (int \<Rightarrow> comet_event list list \<times> comet_event list) \<Rightarrow>
   fetched list \<Rightarrow> index_tables \<Rightarrow> bool" where
  "holds_blocks E cfg B R V fs d \<longleftrightarrow>
     d = (written E cfg fs index_empty)\<lparr>ix_cursor := ix_cursor d\<rparr> \<and>
     sorted_wrt (<) (map ft_height fs) \<and> (\<forall>f \<in> set fs. genuine B R V f \<and> 1 \<le> ft_height f)"

lemma holds_cursor:
  assumes "holds_blocks E cfg B R V fs d"
  shows "holds_blocks E cfg B R V fs (d\<lparr>ix_cursor := c\<rparr>)"
proof -
  have "d = (written E cfg fs index_empty)\<lparr>ix_cursor := ix_cursor d\<rparr>" using assms by (simp add: holds_blocks_def)
  then have "d\<lparr>ix_cursor := c\<rparr> = (written E cfg fs index_empty)\<lparr>ix_cursor := c\<rparr>" by (metis index_tables.update_convs(7) index_tables.surjective)
  with assms show ?thesis by (simp add: holds_blocks_def)
qed

text \<open>Writing a block that is there changes nothing; writing the next one appends it.\<close>

lemma write_known:
  assumes "holds_blocks E cfg B R V fs d" "genuine B R V f" "ft_height f \<in> heights fs"
  shows "insert_rows (rows_of E cfg f) d = d"
proof (rule insert_rows_known)
  fix r assume r: "r \<in> set (rows_of E cfg f)"
  obtain g where g: "g \<in> set fs" "ft_height g = ft_height f" using assms(3) by auto
  have "genuine B R V g" using assms(1) g(1) by (simp add: holds_blocks_def)
  then have "map key_of (rows_of E cfg g) = map key_of (rows_of E cfg f)"
    by (rule genuine_keys [OF _ assms(2) g(2)])
  then have "key_of ` set (rows_of E cfg g) = key_of ` set (rows_of E cfg f)" by (metis list.set_map)
  then obtain q where q: "q \<in> set (rows_of E cfg g)" "key_of q = key_of r" using r by (metis imageE imageI)
  have "has_key (key_of q) (written E cfg fs index_empty)"
    unfolding written_def by (rule insert_rows_has) (use q(1) g(1) in auto)
  then show "has_key (key_of r) d" using assms(1) q(2) unfolding holds_blocks_def by (metis has_key_cursor)
qed

lemma write_next:
  assumes "holds_blocks E cfg B R V fs d" "genuine B R V f" "\<forall>h \<in> heights fs. h < ft_height f" "1 \<le> ft_height f"
  shows "holds_blocks E cfg B R V (fs @ [f]) (insert_rows (rows_of E cfg f) d)"
proof -
  have d: "d = (written E cfg fs index_empty)\<lparr>ix_cursor := ix_cursor d\<rparr>" using assms(1) by (simp add: holds_blocks_def)
  have "insert_rows (rows_of E cfg f) d = (written E cfg (fs @ [f]) index_empty)\<lparr>ix_cursor := ix_cursor d\<rparr>"
    by (subst d) (simp add: insert_rows_cursor)
  then have "insert_rows (rows_of E cfg f) d =
      (written E cfg (fs @ [f]) index_empty)\<lparr>ix_cursor := ix_cursor (insert_rows (rows_of E cfg f) d)\<rparr>" by simp
  with assms show ?thesis by (auto simp: holds_blocks_def sorted_wrt_append)
qed

text \<open>A batch of consecutive heights, of which those up to the last one written are there.\<close>

lemma write_batch:
  assumes "holds_blocks E cfg B R V fs d" "\<forall>f \<in> set gs. genuine B R V f \<and> 1 \<le> ft_height f" "sorted_wrt (<) (map ft_height gs)"
    and "\<forall>f \<in> set gs. ft_height f \<in> heights fs \<or> (\<forall>h \<in> heights fs. h < ft_height f)"
  shows "\<exists>fs'. holds_blocks E cfg B R V fs' (written E cfg gs d) \<and> heights fs' = heights fs \<union> heights gs"
  using assms
proof (induction gs arbitrary: fs d)
  case Nil
  then show ?case by auto
next
  case (Cons g gs)
  have g: "genuine B R V g" "1 \<le> ft_height g" using Cons.prems(2) by auto
  have gs: "\<forall>f \<in> set gs. genuine B R V f \<and> 1 \<le> ft_height f" "sorted_wrt (<) (map ft_height gs)" "\<forall>f \<in> set gs. ft_height g < ft_height f"
    using Cons.prems(2,3) by auto
  show ?case
  proof (cases "ft_height g \<in> heights fs")
    case True
    then have "insert_rows (rows_of E cfg g) d = d" by (rule write_known [OF Cons.prems(1) g(1)])
    with Cons.IH [OF Cons.prems(1) gs(1,2)] Cons.prems(4) True show ?thesis by (auto simp: insert_absorb)
  next
    case False
    then have "\<forall>h \<in> heights fs. h < ft_height g" using Cons.prems(4) by auto
    then have next': "holds_blocks E cfg B R V (fs @ [g]) (insert_rows (rows_of E cfg g) d)"
      by (rule write_next [OF Cons.prems(1) g(1) _ g(2)])
    have "\<forall>f \<in> set gs. ft_height f \<in> heights (fs @ [g]) \<or> (\<forall>h \<in> heights (fs @ [g]). h < ft_height f)"
      using Cons.prems(4) gs(3) by fastforce
    from Cons.IH [OF next' gs(1,2) this] show ?thesis by (auto simp: Un_commute)
  qed
qed

text \<open>The heights written, the cursor and the next height, without the tables.\<close>

definition progress_ok :: "index_env \<Rightarrow> index_cfg \<Rightarrow> int set \<Rightarrow> int \<Rightarrow> int option \<Rightarrow> bool" where
  "progress_ok E cfg H c m \<longleftrightarrow>
     (c = 0 \<and> H = {} \<or> c \<in> H) \<and> (\<forall>h \<in> H. 1 \<le> h) \<and>
     (\<forall>hi \<in> H. \<forall>h \<le> hi. h \<notin> H \<longrightarrow> skipped E cfg h) \<and>
     (\<forall>hi \<in> H. \<forall>h \<le> hi. c < h \<longrightarrow> h \<in> H) \<and>
     (case m of None \<Rightarrow> True
      | Some n \<Rightarrow> 1 \<le> n \<and> (\<forall>hi \<in> H. \<forall>h \<le> hi. n \<le> h \<longrightarrow> h \<in> H) \<and> (\<forall>h < n. h \<notin> H \<longrightarrow> skipped E cfg h))"

lemma progress_okI:
  assumes "c = 0 \<and> H = {} \<or> c \<in> H" "\<And>h. h \<in> H \<Longrightarrow> 1 \<le> h"
    "\<And>hi h. hi \<in> H \<Longrightarrow> h \<le> hi \<Longrightarrow> h \<notin> H \<Longrightarrow> skipped E cfg h" "\<And>hi h. hi \<in> H \<Longrightarrow> h \<le> hi \<Longrightarrow> c < h \<Longrightarrow> h \<in> H"
    "\<And>n. m = Some n \<Longrightarrow> 1 \<le> n" "\<And>n hi h. m = Some n \<Longrightarrow> hi \<in> H \<Longrightarrow> h \<le> hi \<Longrightarrow> n \<le> h \<Longrightarrow> h \<in> H"
    "\<And>n h. m = Some n \<Longrightarrow> h < n \<Longrightarrow> h \<notin> H \<Longrightarrow> skipped E cfg h"
  shows "progress_ok E cfg H c m"
  unfolding progress_ok_def
proof (intro conjI)
  show "case m of None \<Rightarrow> True | Some n \<Rightarrow> 1 \<le> n \<and> (\<forall>hi \<in> H. \<forall>h \<le> hi. n \<le> h \<longrightarrow> h \<in> H) \<and> (\<forall>h < n. h \<notin> H \<longrightarrow> skipped E cfg h)"
    using assms(5-7) by (cases m) auto
qed (use assms(1-4) in auto)

lemma progress_okD:
  assumes "progress_ok E cfg H c m"
  shows "c = 0 \<and> H = {} \<or> c \<in> H" "h \<in> H \<Longrightarrow> 1 \<le> h" "hi \<in> H \<Longrightarrow> h \<le> hi \<Longrightarrow> h \<notin> H \<Longrightarrow> skipped E cfg h"
    "hi \<in> H \<Longrightarrow> h \<le> hi \<Longrightarrow> c < h \<Longrightarrow> h \<in> H"
    "m = Some n \<Longrightarrow> 1 \<le> n" "m = Some n \<Longrightarrow> hi \<in> H \<Longrightarrow> h \<le> hi \<Longrightarrow> n \<le> h \<Longrightarrow> h \<in> H"
    "m = Some n \<Longrightarrow> h < n \<Longrightarrow> h \<notin> H \<Longrightarrow> skipped E cfg h"
proof -
  note p = assms [unfolded progress_ok_def]
  show "c = 0 \<and> H = {} \<or> c \<in> H" by (rule p [THEN conjunct1])
  show "h \<in> H \<Longrightarrow> 1 \<le> h" using p [THEN conjunct2, THEN conjunct1] by blast
  show "hi \<in> H \<Longrightarrow> h \<le> hi \<Longrightarrow> h \<notin> H \<Longrightarrow> skipped E cfg h" using p [THEN conjunct2, THEN conjunct2, THEN conjunct1] by blast
  show "hi \<in> H \<Longrightarrow> h \<le> hi \<Longrightarrow> c < h \<Longrightarrow> h \<in> H" using p [THEN conjunct2, THEN conjunct2, THEN conjunct2, THEN conjunct1] by blast
  note q = p [THEN conjunct2, THEN conjunct2, THEN conjunct2, THEN conjunct2]
  have r: "1 \<le> n \<and> (\<forall>hi \<in> H. \<forall>h \<le> hi. n \<le> h \<longrightarrow> h \<in> H) \<and> (\<forall>h < n. h \<notin> H \<longrightarrow> skipped E cfg h)" if "m = Some n"
    using q [unfolded that option.case] .
  show "m = Some n \<Longrightarrow> 1 \<le> n" using r by blast
  show "m = Some n \<Longrightarrow> hi \<in> H \<Longrightarrow> h \<le> hi \<Longrightarrow> n \<le> h \<Longrightarrow> h \<in> H" using r by blast
  show "m = Some n \<Longrightarrow> h < n \<Longrightarrow> h \<notin> H \<Longrightarrow> skipped E cfg h" using r by blast
qed

lemma progress_stop: "progress_ok E cfg H c m \<Longrightarrow> progress_ok E cfg H c None"
  by (simp add: progress_ok_def)

lemma progress_start:
  assumes "progress_ok E cfg H c None"
  shows "progress_ok E cfg H c (Some (c + 1))"
proof -
  note d = progress_okD [OF assms]
  have c: "0 \<le> c" using d(1) d(2) [of c] by auto
  have "skipped E cfg h" if "h < c + 1" "h \<notin> H" for h
  proof (cases "c \<in> H")
    case True
    with d(3) [of c h] that show ?thesis by simp
  next
    case False
    with d(1) that show ?thesis by (simp add: skipped_def)
  qed
  note below = this
  show ?thesis
  proof (rule progress_okI)
    show "h \<in> H" if "Some (c + 1) = Some n" "hi \<in> H" "h \<le> hi" "n \<le> h" for n hi h
      using d(4) [of hi h] that by simp
    show "1 \<le> n" if "Some (c + 1) = Some n" for n using that c by simp
    show "skipped E cfg h" if "Some (c + 1) = Some n" "h < n" "h \<notin> H" for n h using below [of h] that by simp
  qed (fact d(1), erule d(2), erule (2) d(3), erule (2) d(4))
qed

lemma progress_skip:
  assumes "progress_ok E cfg H c (Some n)" "n \<le> n'" "\<And>h. n \<le> h \<Longrightarrow> h < n' \<Longrightarrow> skipped E cfg h"
  shows "progress_ok E cfg H c (Some n')"
proof (rule progress_okI)
  note d = progress_okD [OF assms(1)]
  show "skipped E cfg h" if "Some n' = Some k" "h < k" "h \<notin> H" for k h
    using assms(3) [of h] d(7) [of n h] that by (cases "h < n") auto
  show "h \<in> H" if "Some n' = Some k" "hi \<in> H" "h \<le> hi" "k \<le> h" for k hi h
    using d(6) [of n hi h] that assms(2) by simp
  show "1 \<le> k" if "Some n' = Some k" for k using d(5) [of n] assms(2) that by simp
qed (fact progress_okD(1) [OF assms(1)], erule progress_okD(2) [OF assms(1)], erule (2) progress_okD(3) [OF assms(1)],
    erule (2) progress_okD(4) [OF assms(1)])

lemma progress_write:
  assumes "progress_ok E cfg H c (Some n)" "n \<le> e"
  shows "m \<in> {n, e + 1} \<Longrightarrow> progress_ok E cfg (H \<union> {n..e}) e (Some m)"
    "h \<in> {n..e} \<Longrightarrow> h \<in> H \<or> (\<forall>x \<in> H. x < h)"
proof -
  note d = progress_okD [OF assms(1)]
  show "h \<in> {n..e} \<Longrightarrow> h \<in> H \<or> (\<forall>x \<in> H. x < h)" 
  proof -
    assume h: "h \<in> {n..e}"
    have "h \<in> H" if "x \<in> H" "h \<le> x" for x using d(6) [OF refl that] h by simp
    then show ?thesis by (metis linorder_not_less)
  qed
  have below: "skipped E cfg h" if "h \<notin> H \<union> {n..e}" "h \<le> e" for h using d(7) [of n h] that by auto
  have one: "1 \<le> h" if "h \<in> H \<union> {n..e}" for h using that d(2) [of h] d(5) [of n] by auto
  assume m: "m \<in> {n, e + 1}"
  show "progress_ok E cfg (H \<union> {n..e}) e (Some m)"
  proof (rule progress_okI)
    show "skipped E cfg h" if "hi \<in> H \<union> {n..e}" "h \<le> hi" "h \<notin> H \<union> {n..e}" for hi h
      using that d(3) [of hi h] below [of h] by auto
    show "h \<in> H \<union> {n..e}" if "hi \<in> H \<union> {n..e}" "h \<le> hi" "e < h" for hi h
      using that d(6) [of n hi h] assms(2) by auto
    show "1 \<le> k" if "Some m = Some k" for k using that m d(5) [of n] assms(2) by auto
    show "h \<in> H \<union> {n..e}" if "Some m = Some k" "hi \<in> H \<union> {n..e}" "h \<le> hi" "k \<le> h" for k hi h
      using that m assms(2) d(6) [of n hi h] by auto
    show "skipped E cfg h" if "Some m = Some k" "h < k" "h \<notin> H \<union> {n..e}" for k h
      using below [of h] that m assms(2) by auto
  qed (use assms(2) in simp, erule one)
qed

definition index_ok ::
  "index_env \<Rightarrow> index_cfg \<Rightarrow> (int \<Rightarrow> rpc_block) \<Rightarrow> (int \<Rightarrow> receipt list) \<Rightarrow> (int \<Rightarrow> comet_event list list \<times> comet_event list) \<Rightarrow>
   int option \<times> indexer \<Rightarrow> bool" where
  "index_ok E cfg B R V x \<longleftrightarrow>
     (\<exists>fs. holds_blocks E cfg B R V fs (ix_db (snd x)) \<and>
        progress_ok E cfg (heights fs) (cursor_of (ix_db (snd x))) (fst x))"

lemma index_heads_run:
  assumes "index_heads E s = (r, t)"
  shows "ix_db t = ix_db s" "r = Inr (l, e) \<Longrightarrow> \<exists>x y. StatusHeads E (ix_tick s) = Some (x, y) \<and> l = ParseInt x \<and> e = ParseInt y"
    "ix_tick t = Suc (ix_tick s)"
proof -
  have "r = (case StatusHeads E (ix_tick s) of None \<Rightarrow> Inl IxUpstream | Some (x, y) \<Rightarrow> Inr (ParseInt x, ParseInt y)) \<and>
      t = s\<lparr>ix_tick := Suc (ix_tick s)\<rparr>"
    using assms by (auto simp: index_heads_def bindM_def ix_observe_def need_def ret_def fail_def split: option.splits prod.splits)
  then show "ix_db t = ix_db s" "r = Inr (l, e) \<Longrightarrow> \<exists>x y. StatusHeads E (ix_tick s) = Some (x, y) \<and> l = ParseInt x \<and> e = ParseInt y"
    "ix_tick t = Suc (ix_tick s)"
    by (auto split: option.splits prod.splits)
qed

lemma first_height_skips:
  assumes "StatusHeads E k = Some (x, y)" "1 \<le> n"
  shows "n \<le> first_height cfg n (ParseInt y)" "n \<le> h \<Longrightarrow> h < first_height cfg n (ParseInt y) \<Longrightarrow> skipped E cfg h"
proof -
  show "n \<le> first_height cfg n (ParseInt y)" using assms(2) by (simp add: first_height_def Let_def)
  assume h: "n \<le> h" "h < first_height cfg n (ParseInt y)"
  then have "h < ic_StartAt cfg \<or> h < ParseInt y"
    using assms(2) by (auto simp: first_height_def Let_def split: if_splits)
  then show "skipped E cfg h" using assms(1) unfolding skipped_def by blast
qed

text \<open>A batch has at most the configured number of heights, also when its end wraps around.\<close>

lemma wrap64_le: "- (2 ^ 63) \<le> x \<Longrightarrow> wrap64 x \<le> x"
proof -
  assume "- (2 ^ 63) \<le> x"
  then have "(x + 2 ^ 63) mod 2 ^ 64 \<le> x + 2 ^ 63" by (intro zmod_le_nonneg_dividend) simp
  then show "wrap64 x \<le> x" by (simp add: wrap64_def)
qed

lemma batch_end:
  assumes "1 \<le> m"
  shows "wrap64 (m + b - 1) \<le> m + wrap64 b - 1"
proof -
  have "(m + wrap64 b - 1 + 2 ^ 63) mod 2 ^ 64 = (m + b - 1 + 2 ^ 63) mod 2 ^ 64"
  proof -
    have "wrap64 b = b - (b + 2 ^ 63) div 2 ^ 64 * 2 ^ 64" unfolding wrap64_def minus_div_mult_eq_mod [symmetric] by simp
    then have "m + wrap64 b - 1 + 2 ^ 63 = (m + b - 1 + 2 ^ 63) + (- ((b + 2 ^ 63) div 2 ^ 64)) * 2 ^ 64" by simp
    then show ?thesis by (simp only: mod_mult_self1)
  qed
  then have "wrap64 (m + b - 1) = wrap64 (m + wrap64 b - 1)" by (simp add: wrap64_def)
  moreover have "- (2 ^ 63) \<le> m + wrap64 b - 1" using wrap64_in_i64 [of b] assms by (simp add: in_i64_def)
  ultimately show ?thesis using wrap64_le [of "m + wrap64 b - 1"] by simp
qed

lemma index_turn_cases:
  assumes turn: "index_turn E cfg n s = (n', t)"
  obtains (failed) "n' = n" "ix_db t = ix_db s"
    | (idle) k x y where "StatusHeads E k = Some (x, y)" "n' = first_height cfg n (ParseInt y)" "ix_db t = ix_db s"
    | (wrote) k x y m e gs where "StatusHeads E k = Some (x, y)" "m = first_height cfg n (ParseInt y)"
        "map ft_height gs = [m..e]" "gs \<noteq> []"
        "\<And>f. f \<in> set gs \<Longrightarrow> \<exists>k b. k < ix_tick t \<and> BlockByNumber E k (ft_height f) = Some b \<and> ft_block f = (case b of None \<Rightarrow> zero_block | Some x \<Rightarrow> x)"
        "\<And>B R V f. 1 \<le> n \<Longrightarrow> node_serves E cfg B R V \<Longrightarrow> f \<in> set gs \<Longrightarrow> genuine B R V f"
        "ix_db t = set_cursor ''blocks'' (ft_height (last gs)) (written E cfg gs (ix_db s))" "n' \<in> {m, e + 1}" "e \<le> ParseInt x"
proof -
  obtain q u where q: "index_heads E s = (q, u)" by (cases "index_heads E s")
  note u = index_heads_run(1) [OF q]
  show thesis
  proof (cases q)
    case (Inl e)
    with turn q have "n' = n" "t = u" by (simp_all add: index_turn_def)
    with u show thesis by (intro failed) simp_all
  next
    case (Inr le)
    obtain l early where le: "le = (l, early)" by (cases le)
    from index_heads_run(2) [OF q, of l early] Inr le obtain x y where k: "StatusHeads E (ix_tick s) = Some (x, y)" "early = ParseInt y" "l = ParseInt x" by auto
    define m where m: "m = first_height cfg n early"
    define e where e: "e = min (wrap64 (m + ic_Batch cfg - 1)) l"
    obtain r v where r: "fetch_batch E [m..e] u = (r, v)" by (cases "fetch_batch E [m..e] u")
    from fetch_batch_Inr [OF r] obtain rs where rs: "r = Inr rs" "ix_db v = ix_db u" by blast
    have run: "(if l < m then (m, u) else case all_fetched rs of None \<Rightarrow> (m, v)
        | Some batch \<Rightarrow> (case index_write E cfg batch v of (Inl e', w) \<Rightarrow> (m, w) | (Inr x, w) \<Rightarrow> (e + 1, w))) = (n', t)"
      using turn unfolding index_turn_def q Inr le prod.case sum.case Let_def m [symmetric] e [symmetric] r rs(1) .
    have stay: thesis if "n' = m" "ix_db t = ix_db s" by (rule idle [OF k(1)]) (use that m k(2) in simp_all)
    show thesis
    proof (cases "l < m \<or> all_fetched rs = None")
      case True
      with run have "n' = m" "t = u \<or> t = v" by (auto split: if_splits)
      with stay u rs(2) show thesis by auto
    next
      case False
      then obtain gs where gs: "all_fetched rs = Some gs" by auto
      have len: "length [m..e] \<le> nat (wrap64 (ic_Batch cfg))" if "1 \<le> n"
      proof -
        have "1 \<le> m" using that by (simp add: m first_height_def Let_def)
        then have "e \<le> m + wrap64 (ic_Batch cfg) - 1" unfolding e by (intro min.coboundedI1 batch_end)
        then show ?thesis by simp
      qed
      have nn: "not_null E (ix_tick u) (ix_tick u + 4 * length [m..e]) h" if "1 \<le> n" "node_keeps_up E cfg" "h \<in> set [m..e]" for h
      proof -
        have "early \<le> m" by (simp add: m first_height_def Let_def)
        then have h: "ParseInt y \<le> h" "h \<le> ParseInt x" using that(3) k(2,3) e by simp_all
        show ?thesis
          unfolding not_null_def
        proof (intro allI impI)
          fix i assume i: "ix_tick u \<le> i" "i < ix_tick u + 4 * length [m..e]"
          then have "ix_tick s < i" "i \<le> ix_tick s + 4 * nat (wrap64 (ic_Batch cfg))"
            using len [OF that(1)] unfolding index_heads_run(3) [OF q] by linarith+
          with that(2) k(1) h show "BlockByNumber E i h \<noteq> Some None \<and> BlockReceipts E i h \<noteq> Some None"
            unfolding node_keeps_up_def by blast
        qed
      qed
      have g: "map ft_height gs = [m..e]" "1 \<le> n \<Longrightarrow> node_serves E cfg B R V \<Longrightarrow> f \<in> set gs \<Longrightarrow> genuine B R V f" for B R V f
        using fetch_batch_Inr [OF r, of B R V] rs(1) gs nn unfolding node_serves_def by auto
      obtain z w where z: "index_write E cfg gs v = (z, w)" by (cases "index_write E cfg gs v")
      have t: "t = w" "n' = (case z of Inl e' \<Rightarrow> m | Inr x \<Rightarrow> e + 1)"
        using run gs z False by (simp_all split: sum.splits)
      from index_write_cases [OF z] show thesis
      proof (elim disjE conjE exE)
        fix e' assume "ix_db w = ix_db v" "z = Inl e'"
        with stay t u rs(2) show thesis by simp
      next
        assume w: "gs \<noteq> []" "ix_db w = set_cursor ''blocks'' (ft_height (last gs)) (written E cfg gs (ix_db v))"
        show thesis
        proof (rule wrote [OF k(1) _ g(1) w(1)])
          have "ix_tick v \<le> ix_tick w" by (rule keepsD [OF ticks_write _ z]) simp
          then show "\<exists>k b. k < ix_tick t \<and> BlockByNumber E k (ft_height f) = Some b \<and> ft_block f = (case b of None \<Rightarrow> zero_block | Some x \<Rightarrow> x)"
            if "f \<in> set gs" for f
            using fetched_answers [OF r [unfolded rs(1)] gs that] t(1) by (meson less_le_trans)
          show "m = first_height cfg n (ParseInt y)" using m k(2) by simp
          show "ix_db t = set_cursor ''blocks'' (ft_height (last gs)) (written E cfg gs (ix_db s))" using w(2) t(1) u rs(2) by simp
          show "n' \<in> {m, e + 1}" using t(2) by (cases z) simp_all
          show "e \<le> ParseInt x" using k(3) e by simp
        qed (erule (2) g(2))
      qed
    qed
  qed
qed

text \<open>A turn leaves the tables, or writes blocks that are there already or lie above all others.\<close>

lemma turn_batch:
  assumes turn: "index_turn E cfg n s = (n', t)" and final: "node_serves E cfg B R V"
    and p: "progress_ok E cfg H (cursor_of (ix_db s)) (Some n)"
  obtains (same) "ix_db t = ix_db s" "progress_ok E cfg H (cursor_of (ix_db s)) (Some n')"
    | (wrote) k x y e gs where "StatusHeads E k = Some (x, y)" "e \<le> ParseInt x"
        "\<forall>f \<in> set gs. genuine B R V f \<and> 1 \<le> ft_height f" "sorted_wrt (<) (map ft_height gs)"
        "\<forall>f \<in> set gs. ft_height f \<in> H \<or> (\<forall>h \<in> H. h < ft_height f)"
        "ix_db t = set_cursor ''blocks'' e (written E cfg gs (ix_db s))" "progress_ok E cfg (H \<union> heights gs) e (Some n')"
proof -
  have one: "1 \<le> n" by (rule progress_okD(5) [OF p refl])
  have next': "progress_ok E cfg H (cursor_of (ix_db s)) (Some (first_height cfg n (ParseInt y)))"
    if "StatusHeads E k = Some (x, y)" for k x y
    by (rule progress_skip [OF p first_height_skips(1) [OF that one] first_height_skips(2) [OF that one]])
  from turn show thesis
  proof (cases rule: index_turn_cases)
    case failed
    with p same show thesis by simp
  next
    case (idle k x y)
    with next' same show thesis by simp
  next
    case (wrote k x y m e gs)
    have p': "progress_ok E cfg H (cursor_of (ix_db s)) (Some m)" using next' [OF wrote(1)] wrote(2) by simp
    have H: "heights gs = {m..e}" using wrote(3) by (metis list.set_map set_upto)
    have ne: "m \<le> e" using wrote(3,4) by (metis Nil_is_map_conv upto_empty linorder_not_less)
    have "ft_height (last gs) = last [m..e]" using wrote(3,4) by (metis last_map)
    then have last: "ft_height (last gs) = e" using ne by (simp add: upto_rec2)
    have one': "1 \<le> m" by (rule progress_okD(5) [OF p' refl])
    have range: "ft_height f \<in> {m..e}" if "f \<in> set gs" for f using that H by blast
    show thesis
    proof (rule that(2) [OF wrote(1,9)])
      show "\<forall>f \<in> set gs. genuine B R V f \<and> 1 \<le> ft_height f"
      proof
        fix f assume f: "f \<in> set gs"
        with range [OF f] one' wrote(6) [OF one final f] show "genuine B R V f \<and> 1 \<le> ft_height f" by simp
      qed
      show "sorted_wrt (<) (map ft_height gs)" unfolding wrote(3) by simp
      show "\<forall>f \<in> set gs. ft_height f \<in> H \<or> (\<forall>h \<in> H. h < ft_height f)" using progress_write(2) [OF p' ne range] by blast
      show "ix_db t = set_cursor ''blocks'' e (written E cfg gs (ix_db s))" using wrote(7) last by simp
      show "progress_ok E cfg (H \<union> heights gs) e (Some n')" unfolding H by (rule progress_write(1) [OF p' ne wrote(8)])
    qed
  qed
qed

lemma index_turn_ok:
  assumes turn: "index_turn E cfg n s = (n', t)" and ok: "index_ok E cfg B R V (Some n, s)" and final: "node_serves E cfg B R V"
  shows "index_ok E cfg B R V (Some n', t)"
proof -
  from ok obtain fs where fs: "holds_blocks E cfg B R V fs (ix_db s)"
    and p: "progress_ok E cfg (heights fs) (cursor_of (ix_db s)) (Some n)" by (auto simp: index_ok_def)
  from turn final p show ?thesis
  proof (cases rule: turn_batch)
    case same
    with fs show ?thesis by (auto simp: index_ok_def)
  next
    case (wrote k x y e gs)
    from write_batch [OF fs wrote(3-5)] obtain fs' where fs': "holds_blocks E cfg B R V fs' (written E cfg gs (ix_db s))"
      "heights fs' = heights fs \<union> heights gs" by (elim exE conjE)
    have "holds_blocks E cfg B R V fs' (ix_db t)" unfolding wrote(6) set_cursor_def by (rule holds_cursor [OF fs'(1)])
    moreover have "cursor_of (ix_db t) = e" by (simp add: wrote(6) cursor_of_def set_cursor_def)
    ultimately show ?thesis using wrote(7) unfolding fs'(2) [symmetric] index_ok_def fst_conv snd_conv by metis
  qed
qed

lemma index_start_run:
  assumes "index_start E s = (r, t)"
  shows "ix_db t = ix_db s" "r = Inr n \<Longrightarrow> n = cursor_of (ix_db s) + 1"
proof -
  have "r = (if IxDbOk E (ix_tick s) then Inr (cursor_of (ix_db s) + 1) else Inl IxDb) \<and> t = s\<lparr>ix_tick := Suc (ix_tick s)\<rparr>"
    using assms by (auto simp: index_start_def ix_Cursor_def bindM_def seqM_def ix_observe_def check_def gets_def ret_def fail_def cursor_of_def)
  then show "ix_db t = ix_db s" "r = Inr n \<Longrightarrow> n = cursor_of (ix_db s) + 1" by (auto split: if_splits)
qed

lemma index_step_ok:
  assumes "index_step E cfg x y" "index_ok E cfg B R V x" "node_serves E cfg B R V"
  shows "index_ok E cfg B R V y"
  using assms(1)
proof cases
  case (start s n t)
  from assms(2) obtain fs where "holds_blocks E cfg B R V fs (ix_db s)" "progress_ok E cfg (heights fs) (cursor_of (ix_db s)) None"
    unfolding start index_ok_def fst_conv snd_conv by blast
  with index_start_run [OF start(3)] progress_start show ?thesis unfolding start(2) index_ok_def fst_conv snd_conv by metis
next
  case (start_fails s e t)
  with index_start_run(1) [OF start_fails(3)] assms(2) show ?thesis by (simp add: index_ok_def)
next
  case (turn n s n' t)
  with index_turn_ok [OF turn(3) _ assms(3)] assms(2) show ?thesis by simp
next
  case (stop n s)
  with assms(2) progress_stop show ?thesis unfolding index_ok_def by auto
qed

lemma index_steps_ok:
  assumes "(index_step E cfg)\<^sup>*\<^sup>* (None, s0) x" "ix_db s0 = index_empty" "node_serves E cfg B R V"
  shows "index_ok E cfg B R V x"
  using assms(1)
proof induction
  case base
  have "holds_blocks E cfg B R V [] index_empty" by (simp add: holds_blocks_def index_empty_def)
  moreover have "progress_ok E cfg (heights []) (cursor_of index_empty) None"
    by (simp add: progress_ok_def cursor_of_def index_empty_def)
  ultimately show ?case using assms(2) unfolding index_ok_def fst_conv snd_conv by metis
next
  case (step y z)
  then show ?case using index_step_ok [OF step(2) _ assms(3)] by blast
qed

text \<open>
  C18. Every block is indexed exactly once. From an empty database, after any sequence of turns, restarts, failed
  queries, failed statements and commits of unknown outcome - and as long as the EVM endpoint has the heights that
  CometBFT reports, so that it answers the questions of a turn about them with the block or an error but not with
  \<open>null\<close>: the tables are what the rows of a list of blocks
  make of empty tables, one after the other; the blocks are the chain's, their heights
  strictly increase, the cursor is one of them (or there is none yet), and a height below one of them is
  missing only if it lies before the configured start or the node said that it had pruned it. An endpoint
  that lags behind CometBFT breaks this: see \<open>null_block_is_recorded\<close>.
\<close>

theorem every_block_indexed_once:
  assumes "(index_step E cfg)\<^sup>*\<^sup>* (None, s0) (m, s)" "ix_db s0 = index_empty" "node_serves E cfg B R V"
  shows "\<exists>fs. ix_db s = (written E cfg fs index_empty)\<lparr>ix_cursor := ix_cursor (ix_db s)\<rparr> \<and>
    sorted_wrt (<) (map ft_height fs) \<and>
    (\<forall>f \<in> set fs. ft_block f = B (ft_height f) \<and> ft_receipts f = R (ft_height f) \<and>
       ft_events f = concat (fst (V (ft_height f))) @ snd (V (ft_height f))) \<and>
    (cursor_of (ix_db s) = 0 \<and> fs = [] \<or> cursor_of (ix_db s) \<in> heights fs) \<and>
    (\<forall>hi \<in> heights fs. \<forall>h \<le> hi. h \<notin> heights fs \<longrightarrow> skipped E cfg h)"
proof -
  have "index_ok E cfg B R V (m, s)" by (rule index_steps_ok [OF assms])
  then obtain fs where fs: "holds_blocks E cfg B R V fs (ix_db s)" "progress_ok E cfg (heights fs) (cursor_of (ix_db s)) m"
    unfolding index_ok_def fst_conv snd_conv by blast
  have "cursor_of (ix_db s) = 0 \<and> fs = [] \<or> cursor_of (ix_db s) \<in> heights fs" using progress_okD(1) [OF fs(2)] by simp
  moreover have "\<forall>hi \<in> heights fs. \<forall>h \<le> hi. h \<notin> heights fs \<longrightarrow> skipped E cfg h" using progress_okD(3) [OF fs(2)] by blast
  ultimately show ?thesis using fs(1) unfolding holds_blocks_def genuine_def by blast
qed

section \<open>A node that lags\<close>

text \<open>A row of \<open>blocks\<close> stays.\<close>

lemma insert_keeps_block: "fmlookup (ix_blocks d) h = Some v \<Longrightarrow> fmlookup (ix_blocks (insert_row r d)) h = Some v"
  by (cases r) (auto simp: add_new_lookup)

lemma rows_keep_block: "fmlookup (ix_blocks d) h = Some v \<Longrightarrow> fmlookup (ix_blocks (insert_rows rs d)) h = Some v"
  by (induction rs arbitrary: d) (simp_all add: insert_keeps_block)

lemma write_keeps_block: "fmlookup (ix_blocks d) h = Some v \<Longrightarrow> fmlookup (ix_blocks (set_cursor n c (written E cfg fs d))) h = Some v"
  by (simp add: set_cursor_def written_def rows_keep_block)

lemma step_keeps_block:
  assumes "index_step E cfg x y" "fmlookup (ix_blocks (ix_db (snd x))) h = Some v"
  shows "fmlookup (ix_blocks (ix_db (snd y))) h = Some v"
  using assms(1)
proof cases
  case (turn n s n' t)
  from turn(3) show ?thesis
    by (cases rule: index_turn_cases) (use assms(2) turn(1,2) in \<open>simp_all add: write_keeps_block\<close>)
qed (use assms(2) index_start_run(1) in auto)

lemma block_rows_only:
  assumes "r \<in> set (rows_of E cfg f)"
  shows "r = block_row_of f \<or> (\<forall>h v. r \<noteq> RBlock h v)"
proof -
  have logs: "\<forall>h v. q \<noteq> RBlock h v" if "q \<in> set (log_rows_of E cfg g l)" for q g l
    using that by (auto simp: log_rows_of_def Let_def split: if_splits)
  have evs: "\<forall>h v. q \<noteq> RBlock h v" if "q \<in> set (event_rows_of E f e)" for q e
    using that by (auto simp: event_rows_of_def Let_def split: if_splits prod.splits)
  have txs: "\<forall>h v. tx_row_of f t \<noteq> RBlock h v" for t by (simp add: tx_row_of_def Let_def)
  consider "r = block_row_of f" | t where "r = tx_row_of f t" | l where "r \<in> set (log_rows_of E cfg (ft_height f) l)"
    | e where "r \<in> set (event_rows_of E f e)" using assms by (auto simp: rows_of_def)
  then show ?thesis
  proof cases
    case (2 t)
    with txs show ?thesis by simp
  next
    case (3 l)
    from logs [OF this] show ?thesis by blast
  next
    case (4 e)
    from evs [OF this] show ?thesis by blast
  qed simp
qed

lemma other_rows: "(\<And>r h' v. r \<in> set rs \<Longrightarrow> r = RBlock h' v \<Longrightarrow> h' \<noteq> h) \<Longrightarrow> fmlookup (ix_blocks (insert_rows rs d)) h = fmlookup (ix_blocks d) h"
proof (induction rs arbitrary: d)
  case (Cons r rs)
  have "fmlookup (ix_blocks (insert_row r d)) h = fmlookup (ix_blocks d) h"
    using Cons.prems [of r] by (cases r) (auto simp: add_new_lookup)
  moreover have "fmlookup (ix_blocks (insert_rows rs (insert_row r d))) h = fmlookup (ix_blocks (insert_row r d)) h"
    by (rule Cons.IH) (use Cons.prems in auto)
  ultimately show ?case by simp
qed simp

lemma other_block: "ft_height f \<noteq> h \<Longrightarrow> fmlookup (ix_blocks (insert_rows (rows_of E cfg f) d)) h = fmlookup (ix_blocks d) h"
  by (rule other_rows) (auto simp: block_row_of_def Let_def dest: block_rows_only)

text \<open>The row of a block that was not known yet.\<close>

definition block_values :: "fetched \<Rightarrow> block_row" where
  "block_values f = (case block_row_of f of RBlock h v \<Rightarrow> v | _ \<Rightarrow> undefined)"

lemma block_row_written:
  assumes "f \<in> set fs" "fmlookup (ix_blocks d) (ft_height f) = None" "distinct (map ft_height fs)"
  shows "fmlookup (ix_blocks (written E cfg fs d)) (ft_height f) = Some (block_values f)"
  using assms
proof (induction fs arbitrary: d)
  case (Cons g fs)
  show ?case
  proof (cases "f = g")
    case True
    have "block_row_of g = RBlock (ft_height g) (block_values g)" by (simp add: block_values_def block_row_of_def Let_def)
    then have "fmlookup (ix_blocks (insert_row (block_row_of g) d)) (ft_height g) = Some (block_values g)"
      using Cons.prems(2) True by (simp add: add_new_lookup)
    then have "fmlookup (ix_blocks (insert_rows (rows_of E cfg g) d)) (ft_height g) = Some (block_values g)"
      by (simp add: rows_of_def rows_keep_block)
    with True show ?thesis by (simp add: written_def rows_keep_block)
  next
    case False
    with Cons.prems have "ft_height g \<noteq> ft_height f" by auto
    with Cons False show ?thesis by (simp add: other_block)
  qed
qed simp

text \<open>
  C37. A node that lags behind loses blocks for good. The height of the chain comes from CometBFT, the block from the EVM
  endpoint, which answers \<open>null\<close> for a block it does not have yet. The indexer takes this for a block: when
  a turn passes such a height, it has recorded a block with an empty hash and no transactions, and whatever
  happens later - also when the node answers with the block - this row stays.
\<close>

theorem null_block_is_recorded:
  assumes turn: "index_turn E cfg n s = (n', t)" "1 < n" "n \<le> h" "h < n'"
    and kept: "\<And>k x y. StatusHeads E k = Some (x, y) \<Longrightarrow> ParseInt y \<le> n"
    and lag: "\<And>k b. k < ix_tick t \<Longrightarrow> BlockByNumber E k h = Some b \<Longrightarrow> b = None"
    and fresh: "fmlookup (ix_blocks (ix_db s)) h = None"
  shows "\<exists>v. fmlookup (ix_blocks (ix_db t)) h = Some v \<and> br_Hash v = replicate 32 0 \<and> br_TxCount v = 0 \<and>
    (\<forall>m u. (index_step E cfg)\<^sup>*\<^sup>* (Some n', t) (m, u) \<longrightarrow> fmlookup (ix_blocks (ix_db u)) h = Some v)"
proof -
  have first: "first_height cfg n (ParseInt y) = n" if "StatusHeads E k = Some (x, y)" for k x y
    using kept [OF that] turn(2) by (simp add: first_height_def Let_def)
  from turn(1) show ?thesis
  proof (cases rule: index_turn_cases)
    case failed
    with turn(3,4) show ?thesis by simp
  next
    case (idle k x y)
    with turn(3,4) first show ?thesis by simp
  next
    case (wrote k x y m e gs)
    have m: "m = n" using wrote(1,2) first by simp
    have "h \<in> set [m..e]" using turn(3,4) wrote(8) m by auto
    then obtain f where f: "f \<in> set gs" "ft_height f = h" unfolding wrote(3) [symmetric] by auto
    obtain k' b where b: "k' < ix_tick t" "BlockByNumber E k' h = Some b" "ft_block f = (case b of None \<Rightarrow> zero_block | Some x \<Rightarrow> x)"
      using wrote(5) [OF f(1)] f(2) by blast
    then have zero: "ft_block f = zero_block" using lag [OF b(1,2)] by simp
    have "distinct (map ft_height gs)" unfolding wrote(3) by simp
    then have "fmlookup (ix_blocks (written E cfg gs (ix_db s))) h = Some (block_values f)"
      using block_row_written [OF f(1)] fresh f(2) by simp
    then have row: "fmlookup (ix_blocks (ix_db t)) h = Some (block_values f)" by (simp add: wrote(7) set_cursor_def)
    have "fmlookup (ix_blocks (ix_db u)) h = Some (block_values f)" if "(index_step E cfg)\<^sup>*\<^sup>* (Some n', t) (m', u)" for m' u
    proof -
      have "fmlookup (ix_blocks (ix_db (snd (m', u)))) h = Some (block_values f)"
        using that by (induction "(m', u)" arbitrary: m' u rule: rtranclp_induct) (use row step_keeps_block in auto)
      then show ?thesis by simp
    qed
    with row zero show ?thesis by (intro exI [of _ "block_values f"]) (simp add: block_values_def block_row_of_def Let_def zero_block_def)
  qed
qed

end
