(* ===== verification/Archive.thy ===== *)
theory Archive
  imports IndexerLaws
begin

text \<open>
  The archiver of the indexer, \<open>services/indexer/internal/archive\<close>: complete ranges of blocks are written as
  Parquet files with a manifest that is written last. The file system, Parquet and SHA-256 are parameters.
\<close>

section \<open>Segments\<close>

record pq_block =
  pb_Height :: int
  pb_Hash :: "byte list"
  pb_Time :: int
  pb_TxCount :: int
  pb_GasUsed :: int
  pb_GasLimit :: int

record pq_tx =
  px_Hash :: "byte list"
  px_Height :: int
  px_Idx :: int
  px_Sender :: addr
  px_Recipient :: "addr option"
  px_Value :: int
  px_GasUsed :: int
  px_Status :: int
  px_TxType :: int

record pq_log =
  pl_Height :: int
  pl_TxHash :: "byte list"
  pl_LogIndex :: int
  pl_Address :: addr
  pl_Topics :: "byte list option list"
  pl_Data :: "byte list"

record pq_settlement =
  ps_Height :: int
  ps_Seq :: int
  ps_Time :: int
  ps_AppID :: int
  ps_Payer :: string
  ps_Payee :: string
  ps_Denom :: string
  ps_Amount :: string
  ps_Fee :: string

datatype parquet = PBlocks "pq_block list" | PTxs "pq_tx list" | PLogs "pq_log list" | PSettlements "pq_settlement list"

record manifest =
  mf_From :: int
  mf_To :: int
  mf_CreatedAt :: int
  mf_Files :: "(string, string) fmap"
  mf_Rows :: "(string, int) fmap"
  mf_Provenance :: string

text \<open>A manifest file is absent, cut short, or whole.\<close>

record segment =
  sm_files :: "(string, byte list) fmap"
  sm_manifest :: "manifest option option"

text \<open>
  Writing a file: it is there; it is not; or, for a Parquet file, it is there and reading it back fails, for
  the manifest, which is written in place, it is cut short.
\<close>

datatype file_outcome = FileWritten | FileFails | FilePartial

record archive_env =
  StatOk :: "nat \<Rightarrow> bool"
  MkdirOk :: "nat \<Rightarrow> bool"
  FileOut :: "nat \<Rightarrow> file_outcome"
  arc_clock :: "nat \<Rightarrow> int"
  EncodeParquet :: "parquet \<Rightarrow> byte list"
  Sha256Hex :: "byte list \<Rightarrow> string"

record index_service =
  is_index :: indexer
  is_segments :: "(int \<times> int, segment) fmap"

type_synonym 'a archiving = "(ix_err, index_service, 'a) run"

section \<open>The queries\<close>

text \<open>\<open>SELECT ... WHERE height BETWEEN from AND to ORDER BY ...\<close>; rows that the order leaves equal come by their key.\<close>

definition select :: "('k \<Rightarrow> 'v \<Rightarrow> bool) \<Rightarrow> ('k, 'v) fmap \<Rightarrow> ('k, 'v) fmap" where
  "select P m = fmfilter (\<lambda>k. case fmlookup m k of None \<Rightarrow> False | Some v \<Rightarrow> P k v) m"

abbreviation between :: "int \<Rightarrow> int \<Rightarrow> int \<Rightarrow> bool" where
  "between a b h \<equiv> a \<le> h \<and> h \<le> b"

definition query_blocks :: "int \<Rightarrow> int \<Rightarrow> index_tables \<Rightarrow> pq_block list" where
  "query_blocks a b d =
     map (\<lambda>(h, v). \<lparr>pb_Height = h, pb_Hash = br_Hash v, pb_Time = br_Time v, pb_TxCount = br_TxCount v,
       pb_GasUsed = br_GasUsed v, pb_GasLimit = br_GasLimit v\<rparr>)
     (entries (select (\<lambda>h v. between a b h) (ix_blocks d)))"

definition query_txs :: "int \<Rightarrow> int \<Rightarrow> index_tables \<Rightarrow> pq_tx list" where
  "query_txs a b d =
     map (\<lambda>(x, v). \<lparr>px_Hash = x, px_Height = tr_Height v, px_Idx = tr_Idx v, px_Sender = tr_Sender v,
       px_Recipient = tr_Recipient v, px_Value = tr_Value v, px_GasUsed = tr_GasUsed v, px_Status = tr_Status v, px_TxType = tr_Type v\<rparr>)
     (sort_key (\<lambda>(x, v). (tr_Height v, tr_Idx v)) (entries (select (\<lambda>x v. between a b (tr_Height v)) (ix_evm_txs d))))"

definition query_logs :: "int \<Rightarrow> int \<Rightarrow> index_tables \<Rightarrow> pq_log list" where
  "query_logs a b d =
     map (\<lambda>((h, i), v). \<lparr>pl_Height = h, pl_TxHash = lr_TxHash v, pl_LogIndex = i, pl_Address = lr_Address v,
       pl_Topics = lr_Topics v, pl_Data = lr_Data v\<rparr>)
     (entries (select (\<lambda>k v. between a b (fst k)) (ix_evm_logs d)))"

definition query_settlements :: "int \<Rightarrow> int \<Rightarrow> index_tables \<Rightarrow> pq_settlement list" where
  "query_settlements a b d =
     map (\<lambda>((h, i), v). \<lparr>ps_Height = h, ps_Seq = i, ps_Time = st_Time v, ps_AppID = st_AppID v, ps_Payer = st_Payer v,
       ps_Payee = st_Payee v, ps_Denom = st_Denom v, ps_Amount = st_Amount v, ps_Fee = st_Fee v\<rparr>)
     (entries (select (\<lambda>k v. between a b (fst k)) (ix_settlements d)))"

section \<open>Sealing\<close>

text \<open>A step of the indexer's state inside the service.\<close>

definition on_index :: "'a indexing \<Rightarrow> 'a archiving" where
  "on_index m = (\<lambda>s. case m (is_index s) of (r, t) \<Rightarrow> (r, s\<lparr>is_index := t\<rparr>))"

abbreviation arc_observe :: "(nat \<Rightarrow> 'a) \<Rightarrow> 'a archiving" where
  "arc_observe f \<equiv> on_index (ix_observe f)"

definition arc_query :: "index_env \<Rightarrow> (index_tables \<Rightarrow> 'a) \<Rightarrow> 'a archiving" where
  "arc_query E f =
     bindM (arc_observe (IxDbOk E)) (\<lambda>ok. seqM (check ok IxDb) (gets (\<lambda>s. f (ix_db (is_index s)))))"

definition segment_at :: "index_service \<Rightarrow> int \<Rightarrow> int \<Rightarrow> segment" where
  "segment_at s a b = (case fmlookup (is_segments s) (a, b) of None \<Rightarrow> \<lparr>sm_files = fmempty, sm_manifest = None\<rparr> | Some g \<Rightarrow> g)"

definition put_segment :: "int \<Rightarrow> int \<Rightarrow> (segment \<Rightarrow> segment) \<Rightarrow> unit archiving" where
  "put_segment a b f = modify (\<lambda>s. s\<lparr>is_segments := fmupd (a, b) (f (segment_at s a b)) (is_segments s)\<rparr>)"

definition writeParquet :: "archive_env \<Rightarrow> int \<Rightarrow> int \<Rightarrow> string \<Rightarrow> parquet \<Rightarrow> string archiving" where
  "writeParquet A a b path rows =
     bindM (arc_observe (FileOut A)) (\<lambda>out.
     let bytes = EncodeParquet A rows;
         put = put_segment a b (\<lambda>g. g\<lparr>sm_files := fmupd path bytes (sm_files g)\<rparr>)
     in case out of
          FileFails \<Rightarrow> fail IxUpstream
        | FilePartial \<Rightarrow> seqM put (fail IxUpstream)
        | FileWritten \<Rightarrow> seqM put (ret (Sha256Hex A bytes)))"

definition writeManifest :: "archive_env \<Rightarrow> int \<Rightarrow> int \<Rightarrow> manifest \<Rightarrow> unit archiving" where
  "writeManifest A a b m =
     bindM (arc_observe (FileOut A)) (\<lambda>out.
     case out of
       FileFails \<Rightarrow> fail IxUpstream
     | FilePartial \<Rightarrow> seqM (put_segment a b (\<lambda>g. g\<lparr>sm_manifest := Some None\<rparr>)) (fail IxUpstream)
     | FileWritten \<Rightarrow> put_segment a b (\<lambda>g. g\<lparr>sm_manifest := Some (Some m)\<rparr>))"

definition manifest_of :: "int \<Rightarrow> int \<Rightarrow> int \<Rightarrow> (string \<times> string) list \<Rightarrow> (string \<times> int) list \<Rightarrow> manifest" where
  "manifest_of a b now shas counts =
     \<lparr>mf_From = a, mf_To = b, mf_CreatedAt = now, mf_Files = fmap_of_list shas, mf_Rows = fmap_of_list counts,
      mf_Provenance = ''VAPOR-6eabb1be532bdef4''\<rparr>"

text \<open>The part of \<open>Seal\<close> after the look at the manifest.\<close>

definition seal_new :: "archive_env \<Rightarrow> index_env \<Rightarrow> int \<Rightarrow> int \<Rightarrow> unit archiving" where
  "seal_new A E a b =
     bindM (arc_observe (MkdirOk A)) (\<lambda>mk.
     seqM (check mk IxUpstream)
     (bindM (arc_query E (query_blocks a b)) (\<lambda>blocks.
     bindM (arc_query E (query_txs a b)) (\<lambda>txs.
     bindM (arc_query E (query_logs a b)) (\<lambda>logs.
     bindM (arc_query E (query_settlements a b)) (\<lambda>sets.
     bindM (arc_observe (arc_clock A)) (\<lambda>now.
     bindM (writeParquet A a b ''blocks.parquet'' (PBlocks blocks)) (\<lambda>h1.
     bindM (writeParquet A a b ''txs.parquet'' (PTxs txs)) (\<lambda>h2.
     bindM (writeParquet A a b ''logs.parquet'' (PLogs logs)) (\<lambda>h3.
     bindM (writeParquet A a b ''settlements.parquet'' (PSettlements sets)) (\<lambda>h4.
     writeManifest A a b (manifest_of a b now
       [(''blocks.parquet'', h1), (''txs.parquet'', h2), (''logs.parquet'', h3), (''settlements.parquet'', h4)]
       [(''blocks'', int (length blocks)), (''txs'', int (length txs)), (''logs'', int (length logs)),
        (''settlements'', int (length sets))]))))))))))))"

definition SealSegment :: "archive_env \<Rightarrow> index_env \<Rightarrow> int \<Rightarrow> int \<Rightarrow> unit archiving" where
  "SealSegment A E a b =
     bindM (arc_observe (StatOk A)) (\<lambda>stat.
     bindM (gets (\<lambda>s. sm_manifest (segment_at s a b) \<noteq> None)) (\<lambda>present.
     if stat \<and> present then ret () else seal_new A E a b))"

section \<open>The loop\<close>

definition set_archived :: "index_env \<Rightarrow> int \<Rightarrow> unit archiving" where
  "set_archived E b = on_index (ix_BeginFunc E (ix_exec E (set_cursor ''archive'' b)))"

text \<open>\<open>None\<close> when the loop does not end, as it does not for a segment length of 0.\<close>

partial_function (option) archive_loop :: "archive_env \<Rightarrow> index_env \<Rightarrow> int \<Rightarrow> int \<Rightarrow> int \<Rightarrow> index_service \<Rightarrow> index_service option" where
  "archive_loop A E every idx past s =
     (if add64 past every \<le> idx then
        (case SealSegment A E (add64 past 1) (add64 past every) s of
           (Inl e, t) \<Rightarrow> Some t
         | (Inr x, t) \<Rightarrow>
             (case set_archived E (add64 past every) t of
                (Inl e, u) \<Rightarrow> Some u
              | (Inr y, u) \<Rightarrow> archive_loop A E every idx (add64 past every) u))
      else Some s)"

text \<open>One tick of \<open>Run\<close>: an error of the first cursor skips the tick, one of the second is taken for 0.\<close>

definition archive_tick :: "archive_env \<Rightarrow> index_env \<Rightarrow> int \<Rightarrow> index_service \<Rightarrow> index_service option" where
  "archive_tick A E every s =
     (case on_index (ix_Cursor E ''blocks'') s of
        (Inl e, t) \<Rightarrow> Some t
      | (Inr idx, t) \<Rightarrow>
          (case on_index (ix_Cursor E ''archive'') t of
             (Inl e, u) \<Rightarrow> archive_loop A E every idx 0 u
           | (Inr past, u) \<Rightarrow> archive_loop A E every idx past u))"

end
