(* ===== verification/ArchiveLaws.thy ===== *)
theory ArchiveLaws
  imports Archive
begin

text \<open>
  What the archive promises: a segment whose manifest is whole says what the tables hold for its heights,
  now and after anything the indexer does later, and the segments up to the archive cursor are all there.
\<close>

section \<open>Queries about finished heights\<close>

fun row_height :: "row \<Rightarrow> int" where
  "row_height (RBlock h v) = h"
| "row_height (RTx x v) = tr_Height v"
| "row_height (RLog h i v) = h"
| "row_height (RSponsored h i v) = h"
| "row_height (RSettlement h i v) = h"
| "row_height (REvent h i v) = h"

lemma rows_height: "r \<in> set (rows_of E cfg f) \<Longrightarrow> row_height r = ft_height f"
  by (auto simp: rows_of_def block_row_of_def tx_row_of_def log_rows_of_def event_rows_of_def Let_def split: if_splits)

lemma select_add_new: "\<not> P k v \<Longrightarrow> select P (add_new k v m) = select P m"
  by (rule fmap_ext) (simp add: select_def add_new_lookup split: option.split)

text \<open>The four queries of a segment, with the files their results go to.\<close>

definition tables_of :: "int \<Rightarrow> int \<Rightarrow> index_tables \<Rightarrow> (string \<times> parquet) list" where
  "tables_of a b d =
     [(''blocks.parquet'', PBlocks (query_blocks a b d)), (''txs.parquet'', PTxs (query_txs a b d)),
      (''logs.parquet'', PLogs (query_logs a b d)), (''settlements.parquet'', PSettlements (query_settlements a b d))]"

definition same_upto :: "int \<Rightarrow> index_tables \<Rightarrow> index_tables \<Rightarrow> bool" where
  "same_upto c d d' \<longleftrightarrow> (\<forall>a b. b \<le> c \<longrightarrow> tables_of a b d' = tables_of a b d)"

lemma same_upto_refl [simp]: "same_upto c d d"
  by (simp add: same_upto_def)

lemma same_upto_trans: "same_upto c d e \<Longrightarrow> same_upto c e f \<Longrightarrow> same_upto c d f"
  by (simp add: same_upto_def)

lemma tables_of_cursor [simp]: "tables_of a b (d\<lparr>ix_cursor := c\<rparr>) = tables_of a b d"
  by (simp add: tables_of_def query_blocks_def query_txs_def query_logs_def query_settlements_def)

lemma insert_same:
  assumes "c < row_height r"
  shows "same_upto c d (insert_row r d)"
  unfolding same_upto_def
proof (intro allI impI)
  fix a b assume "b \<le> c"
  with assms show "tables_of a b (insert_row r d) = tables_of a b d"
    by (cases r) (simp_all add: tables_of_def query_blocks_def query_txs_def query_logs_def query_settlements_def select_add_new)
qed

lemma rows_same: "(\<And>r. r \<in> set rs \<Longrightarrow> c < row_height r) \<Longrightarrow> same_upto c d (insert_rows rs d)"
proof (induction rs arbitrary: d)
  case (Cons r rs)
  have "same_upto c d (insert_row r d)" by (rule insert_same) (use Cons.prems in simp)
  moreover have "same_upto c (insert_row r d) (insert_rows rs (insert_row r d))" by (rule Cons.IH) (use Cons.prems in simp)
  ultimately show ?case by (simp add: same_upto_trans)
qed simp

lemma batch_same:
  assumes "holds_blocks E cfg B R V fs d" "\<forall>f \<in> set gs. genuine B R V f \<and> 1 \<le> ft_height f" "sorted_wrt (<) (map ft_height gs)"
    and "\<forall>f \<in> set gs. ft_height f \<in> heights fs \<or> (\<forall>h \<in> heights fs. h < ft_height f)"
    and "\<forall>f \<in> set gs. ft_height f \<in> heights fs \<or> c < ft_height f"
  shows "same_upto c d (written E cfg gs d)"
  using assms
proof (induction gs arbitrary: fs d)
  case (Cons g gs)
  have g: "genuine B R V g" "1 \<le> ft_height g" using Cons.prems(2) by auto
  have gs: "\<forall>f \<in> set gs. genuine B R V f \<and> 1 \<le> ft_height f" "sorted_wrt (<) (map ft_height gs)" "\<forall>f \<in> set gs. ft_height g < ft_height f"
    using Cons.prems(2,3) by auto
  show ?case
  proof (cases "ft_height g \<in> heights fs")
    case True
    have "insert_rows (rows_of E cfg g) d = d" by (rule write_known [OF Cons.prems(1) g(1) True])
    moreover have "same_upto c d (written E cfg gs d)"
      by (rule Cons.IH [OF Cons.prems(1) gs(1,2)]) (use Cons.prems(4,5) in simp_all)
    ultimately show ?thesis by simp
  next
    case False
    then have "\<forall>h \<in> heights fs. h < ft_height g" "c < ft_height g" using Cons.prems(4,5) by auto
    then have next': "holds_blocks E cfg B R V (fs @ [g]) (insert_rows (rows_of E cfg g) d)"
      and same: "same_upto c d (insert_rows (rows_of E cfg g) d)"
      by (auto intro: write_next [OF Cons.prems(1) g(1) _ g(2)] rows_same simp: rows_height)
    have "\<forall>f \<in> set gs. ft_height f \<in> heights (fs @ [g]) \<or> (\<forall>h \<in> heights (fs @ [g]). h < ft_height f)"
      using Cons.prems(4) gs(3) by fastforce
    moreover have "\<forall>f \<in> set gs. ft_height f \<in> heights (fs @ [g]) \<or> c < ft_height f" using Cons.prems(5) by auto
    ultimately have "same_upto c (insert_rows (rows_of E cfg g) d) (written E cfg gs (insert_rows (rows_of E cfg g) d))"
      by (rule Cons.IH [OF next' gs(1,2)])
    with same show ?thesis by (simp add: same_upto_trans)
  qed
qed simp

text \<open>The blocks in the tables.\<close>

lemma holds_heights: "holds_blocks E cfg B R V fs d \<Longrightarrow> fmlookup (ix_blocks d) h \<noteq> None \<longleftrightarrow> h \<in> heights fs"
proof -
  assume "holds_blocks E cfg B R V fs d"
  then have d: "ix_blocks d = ix_blocks (written E cfg fs index_empty)"
    unfolding holds_blocks_def by (metis index_tables.select_convs(1) index_tables.surjective index_tables.update_convs(7))
  have "fmlookup (ix_blocks (written E cfg fs e)) h \<noteq> None \<longleftrightarrow> fmlookup (ix_blocks e) h \<noteq> None \<or> h \<in> heights fs" for e
  proof (induction fs arbitrary: e)
    case (Cons f fs)
    have "fmlookup (ix_blocks (insert_rows (rows_of E cfg f) e)) h \<noteq> None \<longleftrightarrow> fmlookup (ix_blocks e) h \<noteq> None \<or> h = ft_height f"
    proof (cases "ft_height f = h")
      case True
      have "block_row_of f \<in> set (rows_of E cfg f)" by (simp add: rows_of_def)
      from insert_rows_has [OF this, of e] True show ?thesis by (simp add: block_row_of_def Let_def)
    next
      case False
      with other_block [OF False, of E cfg e] show ?thesis by auto
    qed
    with Cons show ?case by auto
  qed simp
  with d show ?thesis by (simp add: index_empty_def)
qed

text \<open>The heights that will not change any more.\<close>

definition settled_upto :: "index_tables \<Rightarrow> int \<Rightarrow> bool" where
  "settled_upto d c \<longleftrightarrow> c \<le> 0 \<or> (\<exists>h. fmlookup (ix_blocks d) h \<noteq> None \<and> c \<le> h)"

lemma step_settled:
  assumes "index_step E cfg (m, s) (m', t)" "index_ok E cfg B R V (m, s)" "node_serves E cfg B R V" "settled_upto (ix_db s) c"
  shows "same_upto c (ix_db s) (ix_db t)" "settled_upto (ix_db t) c"
proof -
  obtain fs where fs: "holds_blocks E cfg B R V fs (ix_db s)" "progress_ok E cfg (heights fs) (cursor_of (ix_db s)) m"
    using assms(2) unfolding index_ok_def fst_conv snd_conv by blast
  have "same_upto c (ix_db s) (ix_db t)"
    using assms(1)
  proof cases
    case (turn n n')
    from turn(3) assms(3) fs(2) [unfolded turn(1)] show ?thesis
    proof (cases rule: turn_batch)
      case same
      then show ?thesis by simp
    next
      case (wrote k x y e gs)
      have above: "\<forall>f \<in> set gs. ft_height f \<in> heights fs \<or> c < ft_height f"
      proof
        fix f assume f: "f \<in> set gs"
        from assms(4) holds_heights [OF fs(1)] have "c \<le> 0 \<or> (\<exists>h \<in> heights fs. c \<le> h)" unfolding settled_upto_def by blast
        with wrote(3,5) f show "ft_height f \<in> heights fs \<or> c < ft_height f" by force
      qed
      from batch_same [OF fs(1) wrote(3-5) above] show ?thesis by (simp add: same_upto_def wrote(6) set_cursor_def)
    qed
  qed (use index_start_run(1) in auto)
  then show "same_upto c (ix_db s) (ix_db t)" .
  show "settled_upto (ix_db t) c"
    using assms(4) step_keeps_block [OF assms(1)] unfolding settled_upto_def snd_conv by fastforce
qed

section \<open>Sealing\<close>

definition segment_complete :: "archive_env \<Rightarrow> int \<Rightarrow> int \<Rightarrow> index_tables \<Rightarrow> segment \<Rightarrow> manifest \<Rightarrow> bool" where
  "segment_complete A a b d g mf \<longleftrightarrow>
     mf_From mf = a \<and> mf_To mf = b \<and>
     (\<forall>(p, rows) \<in> set (tables_of a b d).
        fmlookup (sm_files g) p = Some (EncodeParquet A rows) \<and>
        fmlookup (mf_Files mf) p = Some (Sha256Hex A (EncodeParquet A rows))) \<and>
     fmlookup (mf_Rows mf) ''blocks'' = Some (int (length (query_blocks a b d))) \<and>
     fmlookup (mf_Rows mf) ''txs'' = Some (int (length (query_txs a b d))) \<and>
     fmlookup (mf_Rows mf) ''logs'' = Some (int (length (query_logs a b d))) \<and>
     fmlookup (mf_Rows mf) ''settlements'' = Some (int (length (query_settlements a b d)))"

definition segment_right :: "archive_env \<Rightarrow> int \<Rightarrow> int \<Rightarrow> index_tables \<Rightarrow> segment \<Rightarrow> bool" where
  "segment_right A a b d g \<longleftrightarrow>
     (\<forall>mf. sm_manifest g = Some (Some mf) \<longrightarrow> settled_upto d b \<and> segment_complete A a b d g mf)"

text \<open>The database is \<open>d\<close>, the whole manifests tell the truth, and the segments \<open>H\<close> have one.\<close>

definition archive_ok :: "archive_env \<Rightarrow> (int \<times> int) set \<Rightarrow> index_tables \<Rightarrow> index_service \<Rightarrow> bool" where
  "archive_ok A H d s \<longleftrightarrow>
     ix_db (is_index s) = d \<and> (\<forall>a b. segment_right A a b d (segment_at s a b)) \<and>
     (\<forall>(a, b) \<in> H. sm_manifest (segment_at s a b) \<noteq> None)"

lemma segment_at_put: "put_segment a b f s = (r, t) \<Longrightarrow>
    r = Inr () \<and> is_index t = is_index s \<and> segment_at t x y = (if x = a \<and> y = b then f (segment_at s a b) else segment_at s x y)"
  by (auto simp: put_segment_def modify_def segment_at_def)

lemma tables_of_unique: "(p, r) \<in> set (tables_of a b d) \<Longrightarrow> (p, r') \<in> set (tables_of a b d) \<Longrightarrow> r = r'"
  by (auto simp: tables_of_def)

text \<open>A run from \<open>P\<close> ends in \<open>Q\<close>, or with an error in \<open>X\<close>.\<close>

definition triple :: "('s \<Rightarrow> bool) \<Rightarrow> ('e, 's, 'a) run \<Rightarrow> ('a \<Rightarrow> 's \<Rightarrow> bool) \<Rightarrow> ('s \<Rightarrow> bool) \<Rightarrow> bool" where
  "triple P m Q X \<longleftrightarrow> (\<forall>s r t. P s \<longrightarrow> m s = (r, t) \<longrightarrow> (case r of Inl e \<Rightarrow> X t | Inr x \<Rightarrow> Q x t))"

lemma tripleD: "triple P m Q X \<Longrightarrow> P s \<Longrightarrow> m s = (r, t) \<Longrightarrow> (case r of Inl e \<Rightarrow> X t | Inr x \<Rightarrow> Q x t)"
  unfolding triple_def by blast

lemma triple_bindM:
  assumes "triple P m R X" "\<And>x. triple (R x) (f x) Q X"
  shows "triple P (bindM m f) Q X"
  unfolding triple_def
proof (intro allI impI)
  fix s r t assume P: "P s" and run: "bindM m f s = (r, t)"
  obtain q u where q: "m s = (q, u)" by (cases "m s")
  note first = tripleD [OF assms(1) P q]
  show "case r of Inl e \<Rightarrow> X t | Inr x \<Rightarrow> Q x t"
  proof (cases q)
    case (Inl e)
    with run q first show ?thesis by (auto simp: bindM_def)
  next
    case (Inr x)
    with run q have "f x u = (r, t)" by (simp add: bindM_def)
    from tripleD [OF assms(2) _ this] first Inr show ?thesis by simp
  qed
qed

lemma triple_seqM: "triple P m (\<lambda>u. R) X \<Longrightarrow> triple R n Q X \<Longrightarrow> triple P (seqM m n) Q X"
  unfolding seqM_def by (rule triple_bindM)

lemma triple_conseq: "triple P m Q X \<Longrightarrow> (\<And>s. P' s \<Longrightarrow> P s) \<Longrightarrow> (\<And>x s. Q x s \<Longrightarrow> Q' x s) \<Longrightarrow> triple P' m Q' X"
  unfolding triple_def by (metis (no_types, lifting) sum.case_eq_if)

lemma triple_ret: "(\<And>s. P s \<Longrightarrow> Q x s) \<Longrightarrow> triple P (ret x) Q X"
  by (auto simp: triple_def)

lemma triple_fail: "(\<And>s. P s \<Longrightarrow> X s) \<Longrightarrow> triple P (fail e) Q X"
  by (auto simp: triple_def)

lemma triple_pure: "(\<And>s. P s \<Longrightarrow> C) \<Longrightarrow> (C \<Longrightarrow> triple P m Q X) \<Longrightarrow> triple P m Q X"
  by (auto simp: triple_def)

text \<open>Questions and failures leave tables and segments alone.\<close>

definition untouched :: "(index_service \<Rightarrow> bool) \<Rightarrow> bool" where
  "untouched P \<longleftrightarrow> (\<forall>s t. ix_db (is_index t) = ix_db (is_index s) \<longrightarrow> is_segments t = is_segments s \<longrightarrow> P s \<longrightarrow> P t)"

lemma triple_observe: "untouched P \<Longrightarrow> triple P (arc_observe f) (\<lambda>x. P) X"
  by (auto simp: triple_def untouched_def on_index_def ix_observe_def)

lemma triple_check: "(\<And>s. P s \<Longrightarrow> X s) \<Longrightarrow> triple P (check b e) (\<lambda>u. P) X"
  by (auto simp: triple_def check_def ret_def fail_def)

lemma triple_query:
  assumes "untouched P" "\<And>s. P s \<Longrightarrow> X s"
  shows "triple P (arc_query E f) (\<lambda>x s. P s \<and> x = f (ix_db (is_index s))) X"
  unfolding arc_query_def
  by (rule triple_bindM [OF triple_observe [OF assms(1)]], rule triple_seqM [OF triple_check])
    (use assms(2) in \<open>auto simp: triple_def gets_def\<close>)

lemma untouched_ok: "untouched (archive_ok A H d)"
  by (simp add: untouched_def archive_ok_def segment_at_def)

text \<open>The first \<open>n\<close> files of the segment are right.\<close>

definition files_ok :: "archive_env \<Rightarrow> (int \<times> int) set \<Rightarrow> index_tables \<Rightarrow> int \<Rightarrow> int \<Rightarrow> nat \<Rightarrow> index_service \<Rightarrow> bool" where
  "files_ok A H d a b n s \<longleftrightarrow>
     archive_ok A H d s \<and>
     (\<forall>(p, rows) \<in> set (take n (tables_of a b d)). fmlookup (sm_files (segment_at s a b)) p = Some (EncodeParquet A rows))"

lemma untouched_files: "untouched (files_ok A H d a b n)"
  by (simp add: untouched_def files_ok_def archive_ok_def segment_at_def)

lemma put_file:
  assumes "files_ok A H d a b n s" "n < 4" "tables_of a b d ! n = (p, rows)"
    "put_segment a b (\<lambda>g. g\<lparr>sm_files := fmupd p (EncodeParquet A rows) (sm_files g)\<rparr>) s = (r, t)"
  shows "files_ok A H d a b (Suc n) t"
proof -
  note at = segment_at_put [OF assms(4)]
  have len: "n < length (tables_of a b d)" using assms(2) by (simp add: tables_of_def)
  have here: "(p, rows) \<in> set (tables_of a b d)" using assms(3) nth_mem [OF len] by simp
  have ok: "archive_ok A H d s" using assms(1) by (simp add: files_ok_def)
  have "segment_right A x y d (segment_at t x y)" for x y
  proof (cases "x = a \<and> y = b")
    case True
    have "segment_right A a b d (segment_at s a b)" using ok by (simp add: archive_ok_def)
    with True show ?thesis
      using tables_of_unique [OF here] at by (fastforce simp: segment_right_def segment_complete_def)
  next
    case False
    with at ok show ?thesis by (auto simp: archive_ok_def)
  qed
  then have "archive_ok A H d t" using ok at by (auto simp: archive_ok_def)
  moreover have "fmlookup (sm_files (segment_at t a b)) q = Some (EncodeParquet A rs)" if "(q, rs) \<in> set (take (Suc n) (tables_of a b d))" for q rs
  proof (cases "q = p")
    case True
    have "(q, rs) \<in> set (tables_of a b d)" using that by (rule in_set_takeD)
    with True tables_of_unique [OF here] at show ?thesis by auto
  next
    case False
    with that assms(3) len have "(q, rs) \<in> set (take n (tables_of a b d))" by (auto simp: take_Suc_conv_app_nth)
    with assms(1) False at show ?thesis by (auto simp: files_ok_def)
  qed
  ultimately show ?thesis by (auto simp: files_ok_def)
qed

lemma triple_writeParquet:
  assumes "n < 4" "tables_of a b d ! n = (p, rows)"
  shows "triple (files_ok A H d a b n) (writeParquet A a b p rows)
    (\<lambda>h s. files_ok A H d a b (Suc n) s \<and> h = Sha256Hex A (EncodeParquet A rows)) (archive_ok A H d)"
proof -
  let ?put = "put_segment a b (\<lambda>g. g\<lparr>sm_files := fmupd p (EncodeParquet A rows) (sm_files g)\<rparr>)"
  have put: "triple (files_ok A H d a b n) (?put :: unit archiving) (\<lambda>u. files_ok A H d a b (Suc n)) X" for X
    unfolding triple_def using put_file [OF _ assms] segment_at_put by (metis (no_types, lifting) sum.case(2))
  have weak: "archive_ok A H d s" if "files_ok A H d a b k s" for k s using that by (simp add: files_ok_def)
  have "triple (files_ok A H d a b n)
      (case out of FileFails \<Rightarrow> fail IxUpstream | FilePartial \<Rightarrow> seqM ?put (fail IxUpstream) | FileWritten \<Rightarrow> seqM ?put (ret (Sha256Hex A (EncodeParquet A rows))))
      (\<lambda>h s. files_ok A H d a b (Suc n) s \<and> h = Sha256Hex A (EncodeParquet A rows)) (archive_ok A H d)" for out
    by (cases out) (simp_all, (rule triple_seqM [OF put] | rule triple_fail | rule triple_ret | simp | erule weak)+)
  then show ?thesis unfolding writeParquet_def Let_def
    by (rule triple_bindM [OF triple_observe [OF untouched_files]])
qed

lemma put_manifest:
  assumes "files_ok A H d a b 4 s" "put_segment a b (\<lambda>g. g\<lparr>sm_manifest := Some v\<rparr>) s = (r, t)"
    "\<And>g mf. v = Some mf \<Longrightarrow> \<forall>(p, rows) \<in> set (tables_of a b d). fmlookup (sm_files g) p = Some (EncodeParquet A rows) \<Longrightarrow>
       segment_right A a b d (g\<lparr>sm_manifest := Some (Some mf)\<rparr>)"
  shows "archive_ok A (insert (a, b) H) d t"
proof -
  note at = segment_at_put [OF assms(2)]
  have ok: "archive_ok A H d s" using assms(1) by (simp add: files_ok_def)
  have files: "\<forall>(p, rows) \<in> set (tables_of a b d). fmlookup (sm_files (segment_at s a b)) p = Some (EncodeParquet A rows)"
    using assms(1) by (simp add: files_ok_def tables_of_def)
  have "segment_right A x y d (segment_at t x y)" for x y
  proof (cases "x = a \<and> y = b")
    case True
    with at assms(3) [OF _ files] show ?thesis by (cases v) (auto simp: segment_right_def)
  next
    case False
    with at ok show ?thesis by (auto simp: archive_ok_def)
  qed
  then show ?thesis using ok at by (auto simp: archive_ok_def)
qed

lemma triple_writeManifest:
  assumes "segment_right A a b d \<lparr>sm_files = fmap_of_list (map (\<lambda>(p, rows). (p, EncodeParquet A rows)) (tables_of a b d)), sm_manifest = Some (Some mf)\<rparr>"
  shows "triple (files_ok A H d a b 4) (writeManifest A a b mf) (\<lambda>u. archive_ok A (insert (a, b) H) d) (archive_ok A H d)"
proof -
  have right: "segment_right A a b d (g\<lparr>sm_manifest := Some (Some mf)\<rparr>)"
    if "\<forall>(p, rows) \<in> set (tables_of a b d). fmlookup (sm_files g) p = Some (EncodeParquet A rows)" for g
    using assms that by (simp add: segment_right_def segment_complete_def case_prod_beta)
  have put: "triple (files_ok A H d a b 4) (put_segment a b (\<lambda>g. g\<lparr>sm_manifest := Some v\<rparr>) :: unit archiving)
      (\<lambda>u. archive_ok A (insert (a, b) H) d) X" if "v = None \<or> v = Some mf" for v X
    unfolding triple_def
  proof (intro allI impI)
    fix s t :: index_service and r :: "ix_err + unit"
    assume s: "files_ok A H d a b 4 s" and run: "put_segment a b (\<lambda>g. g\<lparr>sm_manifest := Some v\<rparr>) s = (r, t)"
    have "archive_ok A (insert (a, b) H) d t" by (rule put_manifest [OF s run]) (use that right in auto)
    with segment_at_put [OF run] show "case r of Inl e \<Rightarrow> X t | Inr u \<Rightarrow> archive_ok A (insert (a, b) H) d t" by simp
  qed
  have weak: "archive_ok A H d s" if "archive_ok A (insert (a, b) H) d s" for s using that by (auto simp: archive_ok_def)
  have "triple (files_ok A H d a b 4)
      (case out of FileFails \<Rightarrow> fail IxUpstream
       | FilePartial \<Rightarrow> seqM (put_segment a b (\<lambda>g. g\<lparr>sm_manifest := Some None\<rparr>)) (fail IxUpstream)
       | FileWritten \<Rightarrow> put_segment a b (\<lambda>g. g\<lparr>sm_manifest := Some (Some mf)\<rparr>))
      (\<lambda>u. archive_ok A (insert (a, b) H) d) (archive_ok A H d)" for out
  proof (cases out)
    case FileWritten
    with put [of "Some mf"] show ?thesis by simp
  next
    case FileFails
    then show ?thesis by (auto intro!: triple_fail simp: files_ok_def)
  next
    case FilePartial
    then show ?thesis by (auto intro!: triple_seqM [OF put] triple_fail dest: weak)
  qed
  then show ?thesis unfolding writeManifest_def
    by (rule triple_bindM [OF triple_observe [OF untouched_files]])
qed

lemma seal_new_right:
  assumes "settled_upto d b"
  shows "triple (archive_ok A H d) (seal_new A E a b) (\<lambda>u. archive_ok A (insert (a, b) H) d) (archive_ok A H d)"
proof -
  let ?Q = "\<lambda>u :: unit. archive_ok A (insert (a, b) H) d"
  let ?X = "archive_ok A H d"
  have q: "triple ?X (bindM (arc_query E f) k) ?Q ?X" if "triple ?X (k (f d)) ?Q ?X" for f :: "index_tables \<Rightarrow> 'b" and k
  proof (rule triple_bindM [OF triple_query [OF untouched_ok]])
    show "triple (\<lambda>s. ?X s \<and> x = f (ix_db (is_index s))) (k x) ?Q ?X" for x
      using that by (auto simp: triple_def archive_ok_def)
  qed simp
  have w: "triple (files_ok A H d a b n) (bindM (writeParquet A a b p rows) k) ?Q ?X"
    if "n < 4" "tables_of a b d ! n = (p, rows)" "triple (files_ok A H d a b (Suc n)) (k (Sha256Hex A (EncodeParquet A rows))) ?Q ?X" for n p rows k
    by (rule triple_bindM [OF triple_writeParquet [OF that(1,2)]]) (use that(3) in \<open>auto simp: triple_def\<close>)
  have ask: "triple ?X (bindM (arc_observe f) k) ?Q ?X" if "\<And>x. triple ?X (k x) ?Q ?X" for f :: "nat \<Rightarrow> 'b" and k
    by (rule triple_bindM [OF triple_observe [OF untouched_ok] that])
  have start: "triple ?X k ?Q ?X" if "triple (files_ok A H d a b 0) k ?Q ?X" for k :: "unit archiving"
    using that by (simp add: triple_def files_ok_def)
  have m: "triple (files_ok A H d a b 4) (writeManifest A a b mf) ?Q ?X"
    if "\<exists>now. mf = manifest_of a b now (map (\<lambda>(p, rows). (p, Sha256Hex A (EncodeParquet A rows))) (tables_of a b d))
     [(''blocks'', int (length (query_blocks a b d))), (''txs'', int (length (query_txs a b d))),
      (''logs'', int (length (query_logs a b d))), (''settlements'', int (length (query_settlements a b d)))]" for mf
    by (rule triple_writeManifest) (use assms that in \<open>auto simp: segment_right_def segment_complete_def manifest_of_def tables_of_def\<close>)
  have four: "4 = Suc (Suc (Suc (Suc 0)))" by simp
  show ?thesis
    unfolding seal_new_def
    by (rule ask, rule triple_seqM [OF triple_check], assumption, rule q, rule q, rule q, rule q, rule ask, rule start,
      (rule w, simp, simp add: tables_of_def)+, rule m [unfolded four], unfold tables_of_def list.map prod.case, rule exI, rule refl)
qed

lemma Seal_right:
  assumes "settled_upto d b"
  shows "triple (archive_ok A H d) (SealSegment A E a b) (\<lambda>u. archive_ok A (insert (a, b) H) d) (archive_ok A H d)"
proof -
  have "triple (archive_ok A H d)
      (bindM (gets (\<lambda>s. sm_manifest (segment_at s a b) \<noteq> None)) (\<lambda>present. if stat \<and> present then ret () else seal_new A E a b))
      (\<lambda>u. archive_ok A (insert (a, b) H) d) (archive_ok A H d)" for stat
    using tripleD [OF seal_new_right [OF assms]]
    by (auto simp: triple_def bindM_def gets_def archive_ok_def split: if_splits)
  then show ?thesis unfolding SealSegment_def by (rule triple_bindM [OF triple_observe [OF untouched_ok]])
qed

section \<open>The loop\<close>

definition archived :: "index_tables \<Rightarrow> int" where
  "archived d = (case fmlookup (ix_cursor d) ''archive'' of None \<Rightarrow> 0 | Some h \<Rightarrow> h)"

text \<open>The tables change at most in the archive cursor.\<close>

definition only_archived :: "index_tables \<Rightarrow> index_tables \<Rightarrow> bool" where
  "only_archived d d' \<longleftrightarrow> d' = d\<lparr>ix_cursor := ix_cursor d'\<rparr> \<and> cursor_of d' = cursor_of d"

lemma only_archived_refl [simp]: "only_archived d d"
  by (simp add: only_archived_def)

lemma only_archived_trans: "only_archived d e \<Longrightarrow> only_archived e f \<Longrightarrow> only_archived d f"
  unfolding only_archived_def by (metis index_tables.surjective index_tables.update_convs(7))

lemma only_archived_set: "only_archived d (set_cursor ''archive'' c d)"
  by (simp add: only_archived_def set_cursor_def cursor_of_def)

lemma only_archived_keeps:
  assumes "only_archived d d'"
  shows "tables_of a b d' = tables_of a b d" "settled_upto d' c = settled_upto d c"
    "segment_right A a b d' g = segment_right A a b d g" "holds_blocks E cfg B R V fs d \<Longrightarrow> holds_blocks E cfg B R V fs d'"
proof -
  obtain c where d: "d' = d\<lparr>ix_cursor := c\<rparr>" using assms by (auto simp: only_archived_def)
  show t: "tables_of a b d' = tables_of a b d" unfolding d by (rule tables_of_cursor)
  show s: "settled_upto d' c = settled_upto d c" for c by (simp add: d settled_upto_def)
  show "segment_right A a b d' g = segment_right A a b d g"
    using t by (simp add: segment_right_def segment_complete_def s) (simp add: tables_of_def)
  show "holds_blocks E cfg B R V fs d \<Longrightarrow> holds_blocks E cfg B R V fs d'" unfolding d by (rule holds_cursor)
qed

lemma set_archived_cases:
  assumes "set_archived E c s = (r, t)"
  shows "is_segments t = is_segments s \<and>
    (ix_db (is_index t) = ix_db (is_index s) \<and> (\<exists>e. r = Inl e) \<or> ix_db (is_index t) = set_cursor ''archive'' c (ix_db (is_index s)))"
proof -
  obtain q u where q: "ix_BeginFunc E (ix_exec E (set_cursor ''archive'' c)) (is_index s) = (q, u)" by fastforce
  with assms have t: "r = q" "t = s\<lparr>is_index := u\<rparr>" by (simp_all add: set_archived_def on_index_def)
  from ix_BeginFunc_cases [OF q] t show ?thesis by (auto simp: ix_exec_Inr)
qed

lemma archive_ok_db:
  assumes "archive_ok A H d s" "only_archived d (ix_db (is_index t))" "is_segments t = is_segments s"
  shows "archive_ok A H (ix_db (is_index t)) t"
  using assms only_archived_keeps(3) [OF assms(2)] by (auto simp: archive_ok_def segment_at_def)

text \<open>The segments of length \<open>every\<close> up to \<open>c\<close>.\<close>

definition segments_upto :: "int \<Rightarrow> int \<Rightarrow> (int \<times> int) set" where
  "segments_upto every c = {(a, b). \<exists>j. 0 \<le> j \<and> a = j * every + 1 \<and> b = (j + 1) * every \<and> b \<le> c}"

text \<open>The archive is right and complete up to its cursor.\<close>

definition archive_inv :: "archive_env \<Rightarrow> int \<Rightarrow> index_service \<Rightarrow> bool" where
  "archive_inv A every s \<longleftrightarrow>
     (let d = ix_db (is_index s) in
      archive_ok A (segments_upto every (archived d)) d s \<and> 0 \<le> archived d \<and> every dvd archived d \<and> archived d + every < 2 ^ 63)"

lemma archive_ok_mono: "archive_ok A H d s \<Longrightarrow> H' \<subseteq> H \<Longrightarrow> archive_ok A H' d s"
  by (auto simp: archive_ok_def)

lemma segments_next:
  assumes "0 < every" "0 \<le> c" "every dvd c"
  shows "segments_upto every (c + every) \<subseteq> insert (c + 1, c + every) (segments_upto every c)"
proof
  fix x assume "x \<in> segments_upto every (c + every)"
  then obtain j where j: "x = (j * every + 1, (j + 1) * every)" "0 \<le> j" "(j + 1) * every \<le> c + every"
    by (auto simp: segments_upto_def)
  obtain k where k: "c = k * every" using assms(3) by (metis dvd_def mult.commute)
  from j(3) k have "j * every \<le> k * every" by (simp add: algebra_simps)
  then have "j \<le> k" using assms(1) by simp
  then consider "j = k" | "j + 1 \<le> k" by linarith
  then show "x \<in> insert (c + 1, c + every) (segments_upto every c)"
  proof cases
    case 2
    then have "(j + 1) * every \<le> k * every" using assms(1) by simp
    with j k show ?thesis unfolding segments_upto_def by blast
  qed (use j k in \<open>simp add: algebra_simps\<close>)
qed

lemma segments_max: "segments_upto every (max c c') = segments_upto every c \<union> segments_upto every c'"
  by (auto simp: segments_upto_def max_def split: if_splits)

lemma segments_mono: "c \<le> c' \<Longrightarrow> segments_upto every c \<subseteq> segments_upto every c'"
  by (auto simp: segments_upto_def)

definition loop_ok :: "archive_env \<Rightarrow> int \<Rightarrow> int \<Rightarrow> index_tables \<Rightarrow> int \<Rightarrow> index_service \<Rightarrow> bool" where
  "loop_ok A every idx d0 past s \<longleftrightarrow>
     (let d = ix_db (is_index s) in
      archive_ok A (segments_upto every (max past (archived d))) d s \<and> 0 \<le> past \<and> every dvd past \<and>
      past + every < 2 ^ 63 \<and>
      0 \<le> archived d \<and> every dvd archived d \<and> archived d + every < 2 ^ 63 \<and> settled_upto d idx \<and> only_archived d0 d)"

lemma loop_turn:
  assumes ok: "loop_ok A every idx d0 past s" and every: "0 < every" "idx + every < 2 ^ 63"
    and guard: "add64 past every \<le> idx" and seal: "SealSegment A E (add64 past 1) (add64 past every) s = (r, t)"
  shows "loop_ok A every idx d0 past t"
    "r = Inr v \<Longrightarrow> set_archived E (add64 past every) t = (q, u) \<Longrightarrow> loop_ok A every idx d0 past u"
    "r = Inr v \<Longrightarrow> set_archived E (add64 past every) t = (Inr w, u) \<Longrightarrow> loop_ok A every idx d0 (add64 past every) u"
proof -
  define d where "d = ix_db (is_index s)"
  let ?H = "segments_upto every (max past (archived d))"
  have p: "archive_ok A ?H d s" "0 \<le> past" "every dvd past" "past + every < 2 ^ 63" "0 \<le> archived d" "every dvd archived d"
    "archived d + every < 2 ^ 63" "settled_upto d idx" "only_archived d0 d"
    using ok by (simp_all add: loop_ok_def d_def Let_def)
  have w: "add64 past 1 = past + 1" "add64 past every = past + every"
    using p(2,4) every(1) by (auto intro!: wrap64_id simp: in_i64_def)
  have b: "settled_upto d (past + every)" using p(8) guard w(2) by (auto simp: settled_upto_def)
  note sealed = tripleD [OF Seal_right [OF b] p(1) seal [unfolded w]]
  have t: "archive_ok A ?H d t" using sealed by (cases r) (auto simp: archive_ok_def)
  then have dt: "ix_db (is_index t) = d" by (simp add: archive_ok_def)
  show "loop_ok A every idx d0 past t" using t p by (simp add: loop_ok_def dt)
  let ?H' = "segments_upto every (max (past + every) (archived d))"
  have more: "archive_ok A ?H' d t" if "r = Inr v"
  proof (rule archive_ok_mono)
    show "archive_ok A (insert (past + 1, past + every) ?H) d t" using sealed that by simp
    show "?H' \<subseteq> insert (past + 1, past + every) ?H" unfolding segments_max using segments_next [OF every(1) p(2,3)] by blast
  qed
  have next': "0 \<le> past + every" "every dvd past + every" "past + every + every < 2 ^ 63" using p every guard w(2) by simp_all
  have after: "loop_ok A every idx d0 past u \<and> (q = Inr w \<longrightarrow> loop_ok A every idx d0 (past + every) u)"
    if r: "r = Inr v" and set: "set_archived E (past + every) t = (q, u)" for q u w
  proof -
    define e where "e = ix_db (is_index u)"
    from set_archived_cases [OF set] dt have u: "is_segments u = is_segments t"
      and e: "e = d \<and> (\<exists>x. q = Inl x) \<or> e = set_cursor ''archive'' (past + every) d" by (auto simp: e_def)
    have only: "only_archived d e" using e only_archived_set by auto
    have ok': "archive_ok A ?H' e u" using archive_ok_db [OF more [OF r], of u] only u by (simp add: e_def)
    have a: "archived e = archived d \<and> (\<exists>x. q = Inl x) \<or> archived e = past + every" using e by (auto simp: set_cursor_def archived_def)
    then have range: "0 \<le> archived e" "every dvd archived e" "archived e + every < 2 ^ 63" using p(5,6,7) next' by auto
    have sub: "segments_upto every (max past (archived e)) \<subseteq> ?H'" "q = Inr w \<Longrightarrow> segments_upto every (max (past + every) (archived e)) \<subseteq> ?H'"
      using a every(1) by (auto intro!: segments_mono)
    have rest: "settled_upto e idx" "only_archived d0 e" using only_archived_keeps(2) [OF only] p(8) only_archived_trans [OF p(9) only] by simp_all
    show ?thesis
      using archive_ok_mono [OF ok' sub(1)] archive_ok_mono [OF ok' sub(2)] p(2-4) next' range rest
      unfolding loop_ok_def Let_def e_def [symmetric] by blast
  qed
  show "r = Inr v \<Longrightarrow> set_archived E (add64 past every) t = (q, u) \<Longrightarrow> loop_ok A every idx d0 past u"
    "r = Inr v \<Longrightarrow> set_archived E (add64 past every) t = (Inr w, u) \<Longrightarrow> loop_ok A every idx d0 (add64 past every) u"
    unfolding w(2) using after by blast+
qed

lemma archive_loop_ok:
  assumes "archive_loop A E every idx past s = Some t" "loop_ok A every idx d0 past s" "0 < every" "idx + every < 2 ^ 63"
  shows "\<exists>past'. loop_ok A every idx d0 past' t"
proof -
  have "loop_ok A every idx d0 past s \<longrightarrow> 0 < every \<longrightarrow> idx + every < 2 ^ 63 \<longrightarrow> (\<exists>past'. loop_ok A every idx d0 past' t)"
    using assms(1)
  proof (rule archive_loop.raw_induct [rotated], intro impI)
    fix f A E every idx past s t
    assume IH: "\<And>A E every idx past s t. f A E every idx past s = Some t \<Longrightarrow>
        loop_ok A every idx d0 past s \<longrightarrow> 0 < every \<longrightarrow> idx + every < 2 ^ 63 \<longrightarrow> (\<exists>past'. loop_ok A every idx d0 past' t)"
      and body: "(if add64 past every \<le> idx then
          case SealSegment A E (add64 past 1) (add64 past every) s of
            (Inl e, t) \<Rightarrow> Some t
          | (Inr x, t) \<Rightarrow>
              (case set_archived E (add64 past every) t of
                 (Inl e, u) \<Rightarrow> Some u
               | (Inr y, u) \<Rightarrow> f A E every idx (add64 past every) u)
        else Some s) = Some t"
      and ok: "loop_ok A every idx d0 past s" "0 < every" "idx + every < 2 ^ 63"
    show "\<exists>past'. loop_ok A every idx d0 past' t"
    proof (cases "add64 past every \<le> idx")
      case True
      obtain r u where r: "SealSegment A E (add64 past 1) (add64 past every) s = (r, u)" by fastforce
      note turn = loop_turn [OF ok True r]
      show ?thesis
      proof (cases r)
        case (Inl e)
        with body True r turn(1) show ?thesis by auto
      next
        case (Inr x)
        obtain q v where q: "set_archived E (add64 past every) u = (q, v)" by fastforce
        show ?thesis
        proof (cases q)
          case (Inl e)
          with body True r Inr q turn(2) show ?thesis by auto
        next
          case (Inr y)
          with body True r \<open>r = Inr x\<close> q have "f A E every idx (add64 past every) v = Some t" by simp
          from IH [OF this] turn(3) [OF \<open>r = Inr x\<close> q [unfolded Inr]] ok(2,3) show ?thesis by blast
        qed
      qed
    qed (use body ok(1) in auto)
  qed
  with assms(2-4) show ?thesis by blast
qed

lemma on_index_Cursor:
  assumes "on_index (ix_Cursor E name) s = (r, t)"
  shows "ix_db (is_index t) = ix_db (is_index s)" "is_segments t = is_segments s"
    "r = Inr c \<Longrightarrow> c = (case fmlookup (ix_cursor (ix_db (is_index s))) name of None \<Rightarrow> 0 | Some h \<Rightarrow> h)"
  using assms by (auto simp: on_index_def ix_Cursor_def bindM_def seqM_def ix_observe_def check_def gets_def ret_def fail_def split: if_splits)

lemma archive_tick_ok:
  assumes tick: "archive_tick A E every s = Some t" and inv: "archive_inv A every s" and every: "0 < every"
    and blocks: "settled_upto (ix_db (is_index s)) (cursor_of (ix_db (is_index s)))" "cursor_of (ix_db (is_index s)) + every < 2 ^ 63"
  shows "archive_inv A every t \<and> only_archived (ix_db (is_index s)) (ix_db (is_index t))"
proof -
  define d where "d = ix_db (is_index s)"
  note inv' = inv [unfolded archive_inv_def Let_def d_def [symmetric]]
  obtain r u where r: "on_index (ix_Cursor E ''blocks'') s = (r, u)" by fastforce
  note u = on_index_Cursor [OF r, folded d_def]
  obtain q v where q: "on_index (ix_Cursor E ''archive'') u = (q, v)" by fastforce
  note v = on_index_Cursor [OF q, unfolded u(1)]
  have same: "archive_inv A every x \<and> only_archived d (ix_db (is_index x))" if "ix_db (is_index x) = d" "is_segments x = is_segments s" for x
    using inv' that by (simp add: archive_inv_def archive_ok_def segment_at_def)
  show ?thesis
  proof (cases r)
    case (Inl e)
    with tick r have "t = u" by (simp add: archive_tick_def)
    with same u show ?thesis by (simp add: d_def)
  next
    case (Inr idx)
    define past where "past = (case q of Inl e \<Rightarrow> 0 | Inr p \<Rightarrow> p)"
    have run: "archive_loop A E every idx past v = Some t"
      using tick r Inr q by (cases q) (simp_all add: archive_tick_def past_def)
    have idx: "idx = cursor_of d" using u(3) Inr by (simp add: cursor_of_def)
    have past: "past = 0 \<or> past = archived d" using v(3) by (cases q) (auto simp: past_def archived_def)
    then have "0 \<le> past" "every dvd past" "past + every < 2 ^ 63" "max past (archived d) = archived d" using inv' every by auto
    then have "loop_ok A every idx d past v"
      using inv' v(1,2) u(2) blocks(1) idx
      by (simp add: loop_ok_def Let_def d_def [symmetric] archive_ok_def segment_at_def)
    from archive_loop_ok [OF run this every] blocks(2) idx obtain past' where "loop_ok A every idx d past' t" by (auto simp: d_def)
    then show ?thesis
      unfolding loop_ok_def archive_inv_def Let_def d_def [symmetric]
      by (meson archive_ok_mono segments_mono max.cobounded2)
  qed
qed

section \<open>The service\<close>

text \<open>The indexer's own steps, and ticks of the archiver beside it. The state is its next height, or that it does not run.\<close>

inductive indexd_step ::
  "archive_env \<Rightarrow> index_env \<Rightarrow> index_cfg \<Rightarrow> int \<Rightarrow> int option \<times> index_service \<Rightarrow> int option \<times> index_service \<Rightarrow> bool" for A E cfg every where
  index: "index_step E cfg (m, is_index s) (m', t) \<Longrightarrow> indexd_step A E cfg every (m, s) (m', s\<lparr>is_index := t\<rparr>)"
| tick: "archive_tick A E every s = Some t \<Longrightarrow> indexd_step A E cfg every (m, s) (m, t)"

definition heads_below :: "index_env \<Rightarrow> int \<Rightarrow> bool" where
  "heads_below E n \<longleftrightarrow> (\<forall>k x y. StatusHeads E k = Some (x, y) \<longrightarrow> ParseInt x < n)"

definition indexd_ok ::
  "archive_env \<Rightarrow> index_env \<Rightarrow> index_cfg \<Rightarrow> int \<Rightarrow> (int \<Rightarrow> rpc_block) \<Rightarrow> (int \<Rightarrow> receipt list) \<Rightarrow>
   (int \<Rightarrow> comet_event list list \<times> comet_event list) \<Rightarrow> int option \<times> index_service \<Rightarrow> bool" where
  "indexd_ok A E cfg every B R V x \<longleftrightarrow>
     index_ok E cfg B R V (fst x, is_index (snd x)) \<and> archive_inv A every (snd x) \<and>
     cursor_of (ix_db (is_index (snd x))) + every < 2 ^ 63"

text \<open>A turn of the indexer leaves the archive cursor, and moves its own to a height of the chain.\<close>

lemma insert_rows_keeps_cursor: "ix_cursor (insert_rows rs d) = ix_cursor d"
proof (induction rs arbitrary: d)
  case (Cons r rs)
  have "ix_cursor (insert_row r d) = ix_cursor d" by (cases r) simp_all
  with Cons show ?case by simp
qed simp

lemma step_cursors:
  assumes "index_step E cfg (m, s) (m', t)" "index_ok E cfg B R V (m, s)" "node_serves E cfg B R V"
  shows "archived (ix_db t) = archived (ix_db s)"
    "cursor_of (ix_db t) = cursor_of (ix_db s) \<or> (\<exists>k x y. StatusHeads E k = Some (x, y) \<and> cursor_of (ix_db t) \<le> ParseInt x)"
proof -
  have "archived (ix_db t) = archived (ix_db s) \<and>
    (cursor_of (ix_db t) = cursor_of (ix_db s) \<or> (\<exists>k x y. StatusHeads E k = Some (x, y) \<and> cursor_of (ix_db t) \<le> ParseInt x))"
    using assms(1)
  proof cases
    case (turn n n')
    obtain fs where "progress_ok E cfg (heights fs) (cursor_of (ix_db s)) (Some n)"
      using assms(2) turn(1) unfolding index_ok_def fst_conv snd_conv by blast
    from turn(3) assms(3) this show ?thesis
    proof (cases rule: turn_batch)
      case (wrote k x y e gs)
      have "archived (ix_db t) = archived (ix_db s)" "cursor_of (ix_db t) = e"
        by (simp_all add: wrote(6) set_cursor_def archived_def cursor_of_def written_def insert_rows_keeps_cursor)
      with wrote(1,2) show ?thesis by blast
    qed simp
  qed (use index_start_run(1) in auto)
  then show "archived (ix_db t) = archived (ix_db s)"
    "cursor_of (ix_db t) = cursor_of (ix_db s) \<or> (\<exists>k x y. StatusHeads E k = Some (x, y) \<and> cursor_of (ix_db t) \<le> ParseInt x)" by blast+
qed

lemma right_later:
  assumes "segment_right A a b d g" "\<And>c. settled_upto d c \<Longrightarrow> same_upto c d d' \<and> settled_upto d' c"
  shows "segment_right A a b d' g"
proof -
  have "segment_complete A a b d' g mf \<and> settled_upto d' b" if mf: "sm_manifest g = Some (Some mf)" for mf
  proof -
    have b: "settled_upto d b" "segment_complete A a b d g mf" using assms(1) mf by (auto simp: segment_right_def)
    then have "tables_of a b d' = tables_of a b d" "settled_upto d' b" using assms(2) [OF b(1)] by (auto simp: same_upto_def)
    with b(2) show ?thesis by (simp add: segment_complete_def) (simp add: tables_of_def)
  qed
  then show ?thesis by (simp add: segment_right_def)
qed

lemma indexd_step_ok:
  assumes step: "indexd_step A E cfg every x y" and ok: "indexd_ok A E cfg every B R V x"
    and final: "node_serves E cfg B R V" and every: "0 < every" "heads_below E (2 ^ 63 - every)"
  shows "indexd_ok A E cfg every B R V y"
  using step
proof cases
  case (index m s m' t)
  have i: "index_ok E cfg B R V (m, is_index s)" "archive_inv A every s" "cursor_of (ix_db (is_index s)) + every < 2 ^ 63"
    using ok by (simp_all add: indexd_ok_def index(1))
  note later = step_settled [OF index(3) i(1) final]
  note cursors = step_cursors [OF index(3) i(1) final]
  have "cursor_of (ix_db t) + every < 2 ^ 63" using cursors(2) i(3) every(2) unfolding heads_below_def by force
  moreover have "index_ok E cfg B R V (m', t)" by (rule index_step_ok [OF index(3) i(1) final])
  moreover have "archive_inv A every (s\<lparr>is_index := t\<rparr>)"
    using i(2) right_later [OF _ conjI [OF later]] cursors(1)
    unfolding archive_inv_def archive_ok_def segment_at_def Let_def by simp
  ultimately show ?thesis by (simp add: indexd_ok_def index(2))
next
  case (tick s t m)
  define d where "d = ix_db (is_index s)"
  have i: "index_ok E cfg B R V (m, is_index s)" "archive_inv A every s" "cursor_of d + every < 2 ^ 63"
    using ok by (simp_all add: indexd_ok_def tick(1) d_def)
  obtain fs where fs: "holds_blocks E cfg B R V fs d" "progress_ok E cfg (heights fs) (cursor_of d) m"
    using i(1) unfolding index_ok_def fst_conv snd_conv d_def by blast
  have "settled_upto d (cursor_of d)" using progress_okD(1) [OF fs(2)] holds_heights [OF fs(1)] unfolding settled_upto_def by fastforce
  from archive_tick_ok [OF tick(3) i(2) every(1)] this i(3)
  have t: "archive_inv A every t" "only_archived d (ix_db (is_index t))" by (auto simp: d_def)
  then have "cursor_of (ix_db (is_index t)) = cursor_of d" by (simp add: only_archived_def)
  with t(1) fs(2) i(3) only_archived_keeps(4) [OF t(2) fs(1)] show ?thesis by (auto simp: indexd_ok_def index_ok_def tick(2))
qed

lemma indexd_steps_ok:
  assumes "(indexd_step A E cfg every)\<^sup>*\<^sup>* (None, s0) x" "ix_db (is_index s0) = index_empty" "is_segments s0 = fmempty"
    "node_serves E cfg B R V" "0 < every" "every < 2 ^ 63" "heads_below E (2 ^ 63 - every)"
  shows "indexd_ok A E cfg every B R V x"
  using assms(1)
proof induction
  case base
  have "index_ok E cfg B R V (None, is_index s0)" by (rule index_steps_ok [OF _ assms(2,4)]) simp
  moreover have "segments_upto every 0 = {}" using assms(5) by (auto simp: segments_upto_def mult_le_0_iff)
  then have "archive_inv A every s0" using assms(2,3,6)
    by (simp add: archive_inv_def archived_def index_empty_def archive_ok_def segment_right_def segment_at_def)
  ultimately show ?case using assms(2,6) by (simp add: indexd_ok_def cursor_of_def index_empty_def)
next
  case (step y z)
  show ?case by (rule indexd_step_ok [OF step(2,3) assms(4,5,7)])
qed

section \<open>Properties\<close>

text \<open>
  C19. A sealed segment is the chain. In every state that the service reaches from an empty database and an empty
  directory, as long as the EVM endpoint has the heights that CometBFT reports - turns, restarts, failed statements and files, ticks of the archiver in any order - a segment whose
  manifest is whole has its four files, they are the Parquet form of what the tables hold \<^emph>\<open>now\<close> for its range,
  with the right checksums and counts, and every height of the range is in the tables, unless it was skipped;
  and every segment up to the archive cursor has a manifest.
\<close>

theorem sealed_segments_are_complete:
  assumes "(indexd_step A E cfg every)\<^sup>*\<^sup>* (None, s0) (m, s)" "ix_db (is_index s0) = index_empty" "is_segments s0 = fmempty"
    "node_serves E cfg B R V" "0 < every" "every < 2 ^ 63" "heads_below E (2 ^ 63 - every)"
  shows "(\<forall>a b mf. sm_manifest (segment_at s a b) = Some (Some mf) \<longrightarrow>
      segment_complete A a b (ix_db (is_index s)) (segment_at s a b) mf \<and>
      (\<forall>h. a \<le> h \<and> h \<le> b \<longrightarrow> fmlookup (ix_blocks (ix_db (is_index s))) h \<noteq> None \<or> skipped E cfg h)) \<and>
    (\<forall>j \<ge> 0. (j + 1) * every \<le> archived (ix_db (is_index s)) \<longrightarrow> sm_manifest (segment_at s (j * every + 1) ((j + 1) * every)) \<noteq> None)"
proof -
  define d where "d = ix_db (is_index s)"
  have ok: "index_ok E cfg B R V (m, is_index s)" "archive_inv A every s"
    using indexd_steps_ok [OF assms] by (simp_all add: indexd_ok_def)
  obtain fs where fs: "holds_blocks E cfg B R V fs d" "progress_ok E cfg (heights fs) (cursor_of d) m"
    using ok(1) unfolding index_ok_def fst_conv snd_conv d_def by blast
  have range: "fmlookup (ix_blocks d) h \<noteq> None \<or> skipped E cfg h" if "settled_upto d b" "h \<le> b" for b h
    using that progress_okD(3) [OF fs(2), of _ h] holds_heights [OF fs(1)] unfolding settled_upto_def
    by (metis order_trans skipped_def le_less_trans zero_less_one)
  have "segment_complete A a b d (segment_at s a b) mf \<and> (\<forall>h. a \<le> h \<and> h \<le> b \<longrightarrow> fmlookup (ix_blocks d) h \<noteq> None \<or> skipped E cfg h)"
    if "sm_manifest (segment_at s a b) = Some (Some mf)" for a b mf
    using ok(2) that range unfolding archive_inv_def archive_ok_def segment_right_def Let_def d_def by blast
  moreover have "sm_manifest (segment_at s (j * every + 1) ((j + 1) * every)) \<noteq> None" if "0 \<le> j" "(j + 1) * every \<le> archived d" for j
    using ok(2) that unfolding archive_inv_def archive_ok_def segments_upto_def Let_def d_def by blast
  ultimately show ?thesis unfolding d_def by blast
qed

text \<open>
  C23. A tick of the archiver ends. In every such state, whatever the disk and the database do, the loop that seals the
  complete segments comes to an end.
\<close>

theorem archive_tick_ends:
  assumes "(indexd_step A E cfg every)\<^sup>*\<^sup>* (None, s0) (m, s)" "ix_db (is_index s0) = index_empty" "is_segments s0 = fmempty"
    "node_serves E cfg B R V" "0 < every" "every < 2 ^ 63" "heads_below E (2 ^ 63 - every)"
  shows "\<exists>t. archive_tick A E every s = Some t"
proof -
  have ok: "archive_inv A every s" "cursor_of (ix_db (is_index s)) + every < 2 ^ 63"
    using indexd_steps_ok [OF assms] by (simp_all add: indexd_ok_def)
  have ends: "\<exists>t. archive_loop A E every idx past v = Some t" if "0 \<le> past" "past + every < 2 ^ 63" "idx + every < 2 ^ 63" for idx past v
    using that
  proof (induction "nat (idx - past)" arbitrary: past v rule: less_induct)
    case less
    have w: "add64 past every = past + every" using less.prems assms(5) by (intro wrap64_id) (simp add: in_i64_def)
    show ?case
    proof (cases "past + every \<le> idx")
      case True
      have "\<exists>t. archive_loop A E every idx (past + every) u = Some t" for u
        by (rule less.hyps) (use True less.prems assms(5) in simp_all)
      then show ?thesis by (subst archive_loop.simps) (auto simp: w split: prod.split sum.split)
    next
      case False
      then show ?thesis by (subst archive_loop.simps) (simp add: w)
    qed
  qed
  obtain r u where r: "on_index (ix_Cursor E ''blocks'') s = (r, u)" by fastforce
  obtain q v where q: "on_index (ix_Cursor E ''archive'') u = (q, v)" by fastforce
  note c = on_index_Cursor(3) [OF r] on_index_Cursor(3) [OF q, unfolded on_index_Cursor(1) [OF r]]
  have "r = Inr idx \<Longrightarrow> idx + every < 2 ^ 63" "q = Inr past \<Longrightarrow> 0 \<le> past \<and> past + every < 2 ^ 63" for idx past
    using c ok by (auto simp: cursor_of_def archived_def archive_inv_def Let_def)
  then show ?thesis using ends assms(5,6) r q by (cases r; cases q) (auto simp: archive_tick_def)
qed

end
