(* ===== verification/IndexerExamples.thy ===== *)
theory IndexerExamples
  imports ArchiveLaws
begin

text \<open>
  Where the archive goes wrong - a manifest cut short, a segment length of 0 - and the properties of the indexer
  on concrete chains.
\<close>

section \<open>A manifest cut short\<close>

lemma segment_query [keeps_intros]:
  "keeps (\<lambda>s. segment_at s a b = g) (arc_observe f)" "keeps (\<lambda>s. segment_at s a b = g) (arc_query E q)"
  by (auto simp: keeps_def on_index_def ix_observe_def segment_at_def arc_query_def bindM_def seqM_def check_def gets_def ret_def fail_def)

lemma segment_put: "(x, y) \<noteq> (a, b) \<Longrightarrow> keeps (\<lambda>s. segment_at s a b = g) (put_segment x y f)"
  by (rule keepsI) (auto dest: segment_at_put [of _ _ _ _ _ _ a b])

lemma segment_files:
  assumes "(x, y) \<noteq> (a, b)"
  shows "keeps (\<lambda>s. segment_at s a b = g) (writeParquet A x y p rows)" "keeps (\<lambda>s. segment_at s a b = g) (writeManifest A x y mf)"
proof -
  note put = segment_put [OF assms]
  have c: "keeps I m \<Longrightarrow> keeps I m' \<Longrightarrow> keeps I m'' \<Longrightarrow> keeps I (case out of FileWritten \<Rightarrow> m | FileFails \<Rightarrow> m' | FilePartial \<Rightarrow> m'')"
    for I :: "index_service \<Rightarrow> bool" and m m' m'' :: "'b archiving" and out by (cases out) simp_all
  show "keeps (\<lambda>s. segment_at s a b = g) (writeParquet A x y p rows)"
    unfolding writeParquet_def Let_def by (intro keeps_intros c put)
  show "keeps (\<lambda>s. segment_at s a b = g) (writeManifest A x y mf)"
    unfolding writeManifest_def by (intro keeps_intros c put)
qed

lemma Seal_present:
  assumes "\<And>n. StatOk A n" "sm_manifest (segment_at s a b) \<noteq> None"
  shows "\<exists>t. SealSegment A E a b s = (Inr (), t) \<and> is_segments t = is_segments s"
  using assms by (simp add: SealSegment_def bindM_def on_index_def ix_observe_def gets_def ret_def segment_at_def)

lemma Seal_keeps_present:
  assumes stat: "\<And>n. StatOk A n" and g: "sm_manifest g \<noteq> None"
  shows "keeps (\<lambda>s. segment_at s a b = g) (SealSegment A E x y)"
proof (cases "(x, y) = (a, b)")
  case True
  show ?thesis
  proof (rule keepsI)
    fix s r t assume s: "segment_at s a b = g" and run: "SealSegment A E x y s = (r, t)"
    from Seal_present [of A s a b E] stat g s obtain u where "SealSegment A E a b s = (Inr (), u)" "is_segments u = is_segments s" by auto
    with run True s show "segment_at t a b = g" by (simp add: segment_at_def)
  qed
next
  case False
  note f = segment_files [OF False]
  show ?thesis unfolding SealSegment_def seal_new_def by (intro keeps_intros f)
qed

lemma archive_loop_keeps:
  assumes "archive_loop A E every idx past s = Some t" "\<And>n. StatOk A n" "sm_manifest (segment_at s a b) \<noteq> None"
  shows "segment_at t a b = segment_at s a b"
proof -
  have "(\<forall>n. StatOk A n) \<longrightarrow> sm_manifest (segment_at s a b) \<noteq> None \<longrightarrow> segment_at t a b = segment_at s a b"
    using assms(1)
  proof (rule archive_loop.raw_induct [rotated], intro impI)
    fix f A E every idx past s t
    assume IH: "\<And>A E every idx past s t. f A E every idx past s = Some t \<Longrightarrow>
        (\<forall>n. StatOk A n) \<longrightarrow> sm_manifest (segment_at s a b) \<noteq> None \<longrightarrow> segment_at t a b = segment_at s a b"
      and body: "(if add64 past every \<le> idx then
          case SealSegment A E (add64 past 1) (add64 past every) s of
            (Inl e, t) \<Rightarrow> Some t
          | (Inr x, t) \<Rightarrow>
              (case set_archived E (add64 past every) t of
                 (Inl e, u) \<Rightarrow> Some u
               | (Inr y, u) \<Rightarrow> f A E every idx (add64 past every) u)
        else Some s) = Some t"
      and stat: "\<forall>n. StatOk A n" and s: "sm_manifest (segment_at s a b) \<noteq> None"
    obtain r u where r: "SealSegment A E (add64 past 1) (add64 past every) s = (r, u)" by fastforce
    have u: "segment_at u a b = segment_at s a b"
      by (rule keepsD [OF Seal_keeps_present [OF spec [OF stat] s] refl r])
    obtain q v where q: "set_archived E (add64 past every) u = (q, v)" by fastforce
    have "is_segments v = is_segments u" using set_archived_cases [OF q] by simp
    then have v: "segment_at v a b = segment_at s a b" using u by (simp add: segment_at_def)
    from body r q u v s IH [of A E every idx "add64 past every" v t] stat show "segment_at t a b = segment_at s a b"
      by (auto split: if_splits sum.splits)
  qed
  with assms(2,3) show ?thesis by blast
qed

lemma archive_tick_keeps:
  assumes tick: "archive_tick A E every s = Some t" and stat: "\<And>n. StatOk A n" and s: "sm_manifest (segment_at s a b) \<noteq> None"
  shows "segment_at t a b = segment_at s a b"
proof -
  obtain r u where r: "on_index (ix_Cursor E ''blocks'') s = (r, u)" by fastforce
  obtain q v where q: "on_index (ix_Cursor E ''archive'') u = (q, v)" by fastforce
  have same: "segment_at u a b = segment_at s a b" "segment_at v a b = segment_at s a b"
    using on_index_Cursor(2) [OF r] on_index_Cursor(2) [OF q] by (simp_all add: segment_at_def)
  have loop: "segment_at t a b = segment_at s a b" if "archive_loop A E every idx past v = Some t" for idx past
    using archive_loop_keeps [OF that stat] s same by simp
  show ?thesis
    using tick r q same loop by (cases r; cases q) (auto simp: archive_tick_def)
qed

text \<open>
  The manifest is written in place. When its write is cut short, the archiver reports an error once, and from
  then on takes the segment for sealed: whatever happens next, the manifest stays as it is, and sealing
  the segment succeeds without repairing it.
\<close>

theorem truncated_manifest_is_kept:
  assumes "\<And>n. StatOk A n" "FileOut A (ix_tick (is_index s)) = FilePartial" "writeManifest A a b mf s = (r, t)"
    "(indexd_step A E cfg every)\<^sup>*\<^sup>* (m, t) (m', u)"
  shows "r = Inl IxUpstream \<and> sm_manifest (segment_at u a b) = Some None \<and>
    (\<exists>v. SealSegment A E a b u = (Inr (), v) \<and> is_segments v = is_segments u)"
proof -
  have t: "r = Inl IxUpstream \<and> sm_manifest (segment_at t a b) = Some None"
    using assms(2,3) by (auto simp: writeManifest_def bindM_def on_index_def ix_observe_def seqM_def put_segment_def modify_def fail_def segment_at_def)
  have "sm_manifest (segment_at (snd x) a b) = Some None" if "(indexd_step A E cfg every)\<^sup>*\<^sup>* (m, t) x" for x
    using that
  proof induction
    case base
    with t show ?case by simp
  next
    case (step y z)
    from step(2) show ?case
    proof cases
      case index
      with step(3) show ?thesis by (simp add: segment_at_def)
    next
      case (tick s t)
      with step(3) archive_tick_keeps [OF tick(3) assms(1)] show ?thesis by simp
    qed
  qed
  from this [OF assms(4)] t Seal_present [OF assms(1), of u a b E] show ?thesis by simp
qed

section \<open>A segment length of 0\<close>

definition succeeds :: "('e, 's, 'a) run \<Rightarrow> bool" where
  "succeeds m \<longleftrightarrow> (\<forall>s. \<exists>x t. m s = (Inr x, t))"

lemma succeeds_bindM: "succeeds m \<Longrightarrow> (\<And>x. succeeds (f x)) \<Longrightarrow> succeeds (bindM m f)"
  unfolding succeeds_def bindM_def by (metis (no_types, lifting) case_prod_conv sum.case(2))

lemma succeeds_basic: "succeeds (ret x)" "succeeds (gets f)" "succeeds (modify h)" "succeeds (arc_observe q)" "b \<Longrightarrow> succeeds (check b e)"
  by (auto simp: succeeds_def ret_def gets_def modify_def on_index_def ix_observe_def check_def)

lemma succeeds_seqM: "succeeds m \<Longrightarrow> succeeds n \<Longrightarrow> succeeds (seqM m n)"
  unfolding seqM_def by (rule succeeds_bindM)

lemmas succeeds_intros = succeeds_bindM succeeds_seqM succeeds_basic

text \<open>Nothing fails.\<close>

definition all_well :: "archive_env \<Rightarrow> index_env \<Rightarrow> bool" where
  "all_well A E \<longleftrightarrow> (\<forall>n. MkdirOk A n \<and> FileOut A n = FileWritten \<and> IxDbOk E n \<and> IxCommit E n = Committed)"

lemma observed: "(\<And>n. f n = v) \<Longrightarrow> bindM (arc_observe f) k = bindM (arc_observe (\<lambda>n. v)) (\<lambda>x. k v)"
  by (rule ext) (simp add: bindM_def on_index_def ix_observe_def)

lemma Seal_succeeds:
  assumes "all_well A E"
  shows "succeeds (SealSegment A E a b)"
proof -
  have ok: "MkdirOk A n" "FileOut A n = FileWritten" "IxDbOk E n" for n using assms by (simp_all add: all_well_def)
  have q: "succeeds (arc_query E f)" for f :: "index_tables \<Rightarrow> 'b"
    unfolding arc_query_def by (subst observed [where v = True]) (simp_all add: ok succeeds_intros)
  have w: "succeeds (writeParquet A a b p rows)" for p rows
    unfolding writeParquet_def by (subst observed [where v = FileWritten]) (simp_all add: ok Let_def put_segment_def succeeds_intros)
  have m: "succeeds (writeManifest A a b mf)" for mf
    unfolding writeManifest_def by (subst observed [where v = FileWritten]) (simp_all add: ok put_segment_def succeeds_intros)
  have "succeeds (seal_new A E a b)"
    unfolding seal_new_def by (subst observed [where v = True]) (simp_all add: ok succeeds_intros q w m)
  then show ?thesis unfolding SealSegment_def by (auto intro!: succeeds_bindM succeeds_basic)
qed

lemma set_archived_succeeds:
  assumes "all_well A E"
  shows "\<exists>t. set_archived E c s = (Inr (), t)"
  using assms by (auto simp: all_well_def set_archived_def on_index_def ix_BeginFunc_def ix_exec_def)

lemma zero_loop:
  assumes "archive_loop A E every idx past v = Some t"
  shows "\<not> (all_well A E \<and> every = 0 \<and> in_i64 past \<and> past \<le> idx)"
  using assms
proof (rule archive_loop.raw_induct [rotated])
  fix f A E every idx past s t
  assume IH: "\<And>A E every idx past s t. f A E every idx past s = Some t \<Longrightarrow> \<not> (all_well A E \<and> every = 0 \<and> in_i64 past \<and> past \<le> idx)"
    and body: "(if add64 past every \<le> idx then
        case SealSegment A E (add64 past 1) (add64 past every) s of
          (Inl e, t) \<Rightarrow> Some t
        | (Inr x, t) \<Rightarrow>
            (case set_archived E (add64 past every) t of
               (Inl e, u) \<Rightarrow> Some u
             | (Inr y, u) \<Rightarrow> f A E every idx (add64 past every) u)
      else Some s) = Some t"
  show "\<not> (all_well A E \<and> every = 0 \<and> in_i64 past \<and> past \<le> idx)"
  proof
    assume w: "all_well A E \<and> every = 0 \<and> in_i64 past \<and> past \<le> idx"
    then have p: "add64 past every = past" by (simp add: wrap64_id)
    obtain u where u: "SealSegment A E (add64 past 1) (add64 past every) s = (Inr (), u)"
      using Seal_succeeds w unfolding succeeds_def by fastforce
    obtain v where v: "set_archived E (add64 past every) u = (Inr (), v)" using set_archived_succeeds w by blast
    from body u v p w have "f A E every idx past v = Some t" by simp
    from IH [OF this] w show False by blast
  qed
qed

text \<open>
  \<open>VAPOR_ARCHIVE_EVERY\<close> is parsed without looking at the error, so a value that is not a number counts as 0,
  and nothing refuses 0. With a segment length of 0 the archiver's loop never ends, exactly when nothing
  fails: it seals an empty range at its cursor again and again.
\<close>

theorem zero_segment_length_hangs:
  assumes "all_well A E" "in_i64 (archived (ix_db (is_index s)))"
    "archived (ix_db (is_index s)) \<le> cursor_of (ix_db (is_index s))"
  shows "archive_tick A E 0 s = None"
proof -
  have hangs: "archive_loop A E 0 idx past v = None" if "in_i64 past" "past \<le> idx" for idx past v
    using zero_loop [of A E 0 idx past v] that assms(1) by (metis option.exhaust)
  obtain r u where r: "on_index (ix_Cursor E ''blocks'') s = (r, u)" by fastforce
  obtain q v where q: "on_index (ix_Cursor E ''archive'') u = (q, v)" by fastforce
  have "IxDbOk E n" for n using assms(1) by (simp add: all_well_def)
  then have "\<exists>x. r = Inr x" "\<exists>x. q = Inr x"
    using r q by (auto simp: on_index_def ix_Cursor_def bindM_def seqM_def ix_observe_def check_def gets_def ret_def split: prod.splits)
  then obtain idx past where i: "r = Inr idx" "q = Inr past" by blast
  have "idx = cursor_of (ix_db (is_index s))" "past = archived (ix_db (is_index s))"
    using on_index_Cursor(3) [OF r i(1)] on_index_Cursor(3) [OF q i(2)] on_index_Cursor(1) [OF r] by (simp_all add: cursor_of_def archived_def)
  then show ?thesis using hangs assms(2,3) r q i by (simp add: archive_tick_def)
qed

section \<open>On concrete chains\<close>

text \<open>A chain whose first block is kept, with one settlement in every block, and a disk; nothing fails.\<close>

definition ex_node :: "string \<Rightarrow> (int \<Rightarrow> rpc_block option) \<Rightarrow> index_env" where
  "ex_node tip blk = \<lparr>StatusHeads = \<lambda>n. Some (tip, ''1''), BlockByNumber = \<lambda>n h. Some (blk h), BlockReceipts = \<lambda>n h. Some (Some []),
     BlockResults = \<lambda>n h. Some ([[\<lparr>ce_Type = ''settled'', ce_Attributes = [(''app_id'', ''1''), (''amount'', ''5'')]\<rparr>]], []),
     HeaderTime = \<lambda>n h. Some 9, IxDbOk = \<lambda>n. True, IxCommit = \<lambda>n. Committed,
     BigText = \<lambda>s. s \<noteq> [], MapJSON = \<lambda>m. ''{}'', IxKeccak = \<lambda>b. replicate 32 0\<rparr>"

definition ex_icfg :: index_cfg where
  "ex_icfg = \<lparr>ic_Paymaster = zero_address, ic_Batch = 50, ic_StartAt = 1\<rparr>"

definition ex_disk :: "(nat \<Rightarrow> file_outcome) \<Rightarrow> archive_env" where
  "ex_disk out = \<lparr>StatOk = \<lambda>n. True, MkdirOk = \<lambda>n. True, FileOut = out, arc_clock = \<lambda>n. 3,
     EncodeParquet = \<lambda>p. case p of PBlocks l \<Rightarrow> [of_nat (length l)] | PTxs l \<Rightarrow> [1] | PLogs l \<Rightarrow> [2] | PSettlements l \<Rightarrow> [3, of_nat (length l)],
     Sha256Hex = \<lambda>b. replicate (length b) (CHR ''a'')\<rparr>"

definition ex_fetched :: "(int \<Rightarrow> rpc_block option) \<Rightarrow> int \<Rightarrow> fetched" where
  "ex_fetched blk h = \<lparr>ft_height = h, ft_time = 9, ft_block = (case blk h of None \<Rightarrow> zero_block | Some b \<Rightarrow> b), ft_receipts = [],
     ft_events = [\<lparr>ce_Type = ''settled'', ce_Attributes = [(''app_id'', ''1''), (''amount'', ''5'')]\<rparr>]\<rparr>"

lemma ex_number: "ParseInt ''1'' = 1" "ParseInt ''2'' = 2"
  by (simp_all add: ParseInt_def ParseUint_def is_digit_def)

lemma ex_heads: "ParseInt tip = n \<Longrightarrow> index_heads (ex_node tip blk) s = (Inr (n, 1), s\<lparr>ix_tick := Suc (ix_tick s)\<rparr>)"
  by (simp add: index_heads_def bindM_def ix_observe_def need_def ret_def ex_node_def ex_number)

lemma ex_read: "fetch (ex_node tip blk) h s = (Inr (ex_fetched blk h), s\<lparr>ix_tick := ix_tick s + 4\<rparr>)"
  by (simp add: fetch_def bindM_def ix_observe_def need_def ret_def ex_node_def ex_fetched_def numeral_eq_Suc)

lemma ex_write: "index_write (ex_node tip blk) ex_icfg [ex_fetched blk n] s =
    (Inr (), s\<lparr>ix_tick := Suc (ix_tick s + length (rows_of (ex_node tip blk) ex_icfg (ex_fetched blk n)) + 1),
      ix_db := set_cursor ''blocks'' n (written (ex_node tip blk) ex_icfg [ex_fetched blk n] (ix_db s))\<rparr>)"
proof -
  let ?E = "ex_node tip blk"
  have rows: "forM rs (\<lambda>r. ix_exec ?E (insert_row r)) u = (Inr (), u\<lparr>ix_tick := ix_tick u + length rs, ix_db := insert_rows rs (ix_db u)\<rparr>)" for rs u
    by (induction rs arbitrary: u) (simp_all add: seqM_def bindM_def ix_exec_def ex_node_def ret_def)
  show ?thesis
    by (simp add: index_write_def write_fetched_def ix_BeginFunc_def seqM_def bindM_def rows ret_def)
      (simp add: ix_exec_def ex_node_def ex_fetched_def)
qed

lemma ex_one_turn:
  assumes "ParseInt tip = n" "1 \<le> n" "n < 100"
  shows "\<exists>t. index_turn (ex_node tip blk) ex_icfg n s = (n + 1, t) \<and>
    ix_db t = set_cursor ''blocks'' n (written (ex_node tip blk) ex_icfg [ex_fetched blk n] (ix_db s))"
proof -
  have h: "first_height ex_icfg n 1 = n" using assms(2) by (simp add: first_height_def ex_icfg_def)
  have e: "min (wrap64 (n + ic_Batch ex_icfg - 1)) n = n" using assms(2,3) by (simp add: ex_icfg_def wrap64_id in_i64_def)
  show ?thesis
    by (simp add: index_turn_def ex_heads [OF assms(1)] h e bindM_def attempt_def ex_read ret_def Let_def ex_write)
qed

text \<open>The chain with one block; the node answers \<open>null\<close> for every other height.\<close>

definition ex_block :: "int \<Rightarrow> rpc_block option" where
  "ex_block h = (if h = 1 then Some (zero_block\<lparr>rb_Number := 1, rb_Hash := replicate 32 7\<rparr>) else None)"

definition ex_empty :: indexer where
  "ex_empty = \<lparr>ix_tick = 0, ix_db = index_empty\<rparr>"

definition ex_indexed :: indexer where
  "ex_indexed = snd (index_turn (ex_node ''1'' ex_block) ex_icfg 1 \<lparr>ix_tick = 1, ix_db = index_empty\<rparr>)"

lemma ex_indexed: "index_turn (ex_node ''1'' ex_block) ex_icfg 1 \<lparr>ix_tick = 1, ix_db = index_empty\<rparr> = (2, ex_indexed)"
  "ix_db ex_indexed = set_cursor ''blocks'' 1 (written (ex_node ''1'' ex_block) ex_icfg [ex_fetched ex_block 1] index_empty)"
  using ex_one_turn [OF ex_number(1), of ex_block "\<lparr>ix_tick = 1, ix_db = index_empty\<rparr>"] by (auto simp: ex_indexed_def)

lemma ex_tables: "fmlookup (ix_blocks (ix_db ex_indexed)) 1 = Some (block_values (ex_fetched ex_block 1))"
  "cursor_of (ix_db ex_indexed) = 1" "archived (ix_db ex_indexed) = 0"
proof -
  have "ft_height (ex_fetched ex_block 1) = 1" by (simp add: ex_fetched_def)
  with block_row_written [of "ex_fetched ex_block 1" "[ex_fetched ex_block 1]" index_empty "ex_node ''1'' ex_block" ex_icfg]
  show "fmlookup (ix_blocks (ix_db ex_indexed)) 1 = Some (block_values (ex_fetched ex_block 1))"
    by (simp add: ex_indexed(2) set_cursor_def index_empty_def)
  show "cursor_of (ix_db ex_indexed) = 1" "archived (ix_db ex_indexed) = 0"
    by (simp_all add: ex_indexed(2) cursor_of_def archived_def set_cursor_def insert_rows_keeps_cursor index_empty_def)
qed

lemma ex_final: "node_serves (ex_node ''1'' ex_block) ex_icfg (\<lambda>h. ft_block (ex_fetched ex_block h)) (\<lambda>h. [])
    (\<lambda>h. ([ft_events (ex_fetched ex_block h)], []))"
  by (auto simp: node_serves_def node_final_def node_keeps_up_def ex_node_def ex_fetched_def ex_block_def ex_number)

lemma ex_start: "index_step (ex_node ''1'' ex_block) ex_icfg (None, ex_empty) (Some 1, \<lparr>ix_tick = 1, ix_db = index_empty\<rparr>)"
  by (rule index_step.start)
    (simp add: index_start_def ix_Cursor_def bindM_def seqM_def ix_observe_def check_def gets_def ret_def ex_node_def ex_empty_def index_empty_def)

lemma ex_steps: "(index_step (ex_node ''1'' ex_block) ex_icfg)\<^sup>*\<^sup>* (None, ex_empty) (Some 2, ex_indexed)"
  using ex_start index_step.turn [OF ex_indexed(1)] by (meson converse_rtranclp_into_rtranclp rtranclp.rtrancl_refl)

text \<open>Sealing it.\<close>

lemma ex_well: "all_well (ex_disk (\<lambda>n. FileWritten)) (ex_node tip blk)"
  by (simp add: all_well_def ex_disk_def ex_node_def)

lemma Seal_writes:
  assumes "all_well A E" "sm_manifest (segment_at s a b) = None"
  shows "\<exists>t mf. SealSegment A E a b s = (Inr (), t) \<and> sm_manifest (segment_at t a b) = Some (Some mf) \<and> ix_db (is_index t) = ix_db (is_index s)"
  using assms
  by (simp add: all_well_def SealSegment_def seal_new_def writeParquet_def writeManifest_def put_segment_def modify_def
      bindM_def seqM_def on_index_def ix_observe_def arc_query_def check_def gets_def ret_def Let_def segment_at_def)

definition ex_service :: index_service where
  "ex_service = \<lparr>is_index = ex_indexed, is_segments = fmempty\<rparr>"

lemma ex_tick:
  "\<exists>t mf. archive_tick (ex_disk (\<lambda>n. FileWritten)) (ex_node ''1'' ex_block) 1 ex_service = Some t \<and>
     sm_manifest (segment_at t 1 1) = Some (Some mf) \<and> fmlookup (ix_blocks (ix_db (is_index t))) 1 = Some (block_values (ex_fetched ex_block 1))"
proof -
  let ?A = "ex_disk (\<lambda>n. FileWritten)" and ?E = "ex_node ''1'' ex_block"
  have c: "on_index (ix_Cursor ?E name) s = (Inr (case fmlookup (ix_cursor (ix_db (is_index s))) name of None \<Rightarrow> 0 | Some h \<Rightarrow> h),
      s\<lparr>is_index := (is_index s)\<lparr>ix_tick := Suc (ix_tick (is_index s))\<rparr>\<rparr>)" for name s
    by (simp add: on_index_def ix_Cursor_def bindM_def seqM_def ix_observe_def check_def gets_def ret_def ex_node_def)
  define u where "u = ex_service\<lparr>is_index := ex_indexed\<lparr>ix_tick := Suc (Suc (ix_tick ex_indexed))\<rparr>\<rparr>"
  have tick: "archive_tick ?A ?E 1 ex_service = archive_loop ?A ?E 1 1 0 u"
    using ex_tables(2,3) by (simp add: archive_tick_def c cursor_of_def archived_def u_def ex_service_def)
  have "sm_manifest (segment_at u 1 1) = None" by (simp add: u_def ex_service_def segment_at_def)
  then obtain v mf where v: "SealSegment ?A ?E 1 1 u = (Inr (), v)" "sm_manifest (segment_at v 1 1) = Some (Some mf)" "ix_db (is_index v) = ix_db (is_index u)"
    using Seal_writes [OF ex_well] by blast
  obtain w where w: "set_archived ?E 1 v = (Inr (), w)" using set_archived_succeeds [OF ex_well] by blast
  from set_archived_cases [OF w] have w': "is_segments w = is_segments v" "ix_db (is_index w) = set_cursor ''archive'' 1 (ix_db (is_index v))" by auto
  have n: "wrap64 1 = 1" "wrap64 2 = 2" by (simp_all add: wrap64_id in_i64_def)
  have "archive_loop ?A ?E 1 1 0 u = Some w"
    by (subst archive_loop.simps) (simp add: n v(1) w, subst archive_loop.simps, simp add: n)
  with tick v w' ex_tables(1) show ?thesis by (auto simp: segment_at_def set_cursor_def u_def)
qed

lemma ex_service_steps: "(indexd_step A (ex_node ''1'' ex_block) ex_icfg every)\<^sup>*\<^sup>* (None, \<lparr>is_index = ex_empty, is_segments = fmempty\<rparr>) (Some 2, ex_service)"
proof -
  let ?s = "\<lparr>is_index = ex_empty, is_segments = fmempty\<rparr> :: index_service"
  have "indexd_step A (ex_node ''1'' ex_block) ex_icfg every (None, ?s) (Some 1, ?s\<lparr>is_index := \<lparr>ix_tick = 1, ix_db = index_empty\<rparr>\<rparr>)"
    by (rule indexd_step.index) (use ex_start in simp)
  moreover have "indexd_step A (ex_node ''1'' ex_block) ex_icfg every (Some 1, ?s\<lparr>is_index := \<lparr>ix_tick = 1, ix_db = index_empty\<rparr>\<rparr>)
      (Some 2, (?s\<lparr>is_index := \<lparr>ix_tick = 1, ix_db = index_empty\<rparr>\<rparr>)\<lparr>is_index := ex_indexed\<rparr>)"
    by (rule indexd_step.index) (use index_step.turn [OF ex_indexed(1)] in simp)
  moreover have "(?s\<lparr>is_index := \<lparr>ix_tick = 1, ix_db = index_empty\<rparr>\<rparr>)\<lparr>is_index := ex_indexed\<rparr> = ex_service" by (simp add: ex_service_def)
  ultimately show ?thesis by (metis converse_rtranclp_into_rtranclp rtranclp.rtrancl_refl)
qed

lemma ex_below: "heads_below (ex_node ''1'' blk) (2 ^ 63 - 1)"
  by (simp add: heads_below_def ex_node_def ex_number)

section \<open>Witnesses\<close>

theorem every_block_indexed_once_witness:
  "\<exists>fs. ix_db ex_indexed = (written (ex_node ''1'' ex_block) ex_icfg fs index_empty)\<lparr>ix_cursor := ix_cursor (ix_db ex_indexed)\<rparr> \<and>
     1 \<in> heights fs \<and> fmlookup (ix_blocks (ix_db ex_indexed)) 1 = Some (block_values (ex_fetched ex_block 1))"
  using every_block_indexed_once [OF ex_steps _ ex_final] ex_tables by (auto simp: ex_empty_def)

theorem null_block_is_recorded_witness:
  "\<exists>n t v. index_turn (ex_node ''2'' (\<lambda>h. None)) ex_icfg 2 ex_empty = (n, t) \<and> fmlookup (ix_blocks (ix_db t)) 2 = Some v \<and>
     br_Hash v = replicate 32 0"
proof -
  obtain t where t: "index_turn (ex_node ''2'' (\<lambda>h. None)) ex_icfg 2 ex_empty = (3, t)"
    using ex_one_turn [OF ex_number(2), of "\<lambda>h. None" ex_empty] by auto
  from null_block_is_recorded [OF this, of 2] show ?thesis
    using t by (auto simp: ex_node_def ex_number ex_empty_def index_empty_def)
qed

theorem sealed_segments_are_complete_witness:
  "\<exists>t mf. archive_tick (ex_disk (\<lambda>n. FileWritten)) (ex_node ''1'' ex_block) 1 ex_service = Some t \<and>
     sm_manifest (segment_at t 1 1) = Some (Some mf) \<and>
     segment_complete (ex_disk (\<lambda>n. FileWritten)) 1 1 (ix_db (is_index t)) (segment_at t 1 1) mf"
proof -
  obtain t mf where t: "archive_tick (ex_disk (\<lambda>n. FileWritten)) (ex_node ''1'' ex_block) 1 ex_service = Some t"
    "sm_manifest (segment_at t 1 1) = Some (Some mf)" using ex_tick by blast
  have "(indexd_step (ex_disk (\<lambda>n. FileWritten)) (ex_node ''1'' ex_block) ex_icfg 1)\<^sup>*\<^sup>*
      (None, \<lparr>is_index = ex_empty, is_segments = fmempty\<rparr>) (Some 2, t)"
    by (rule rtranclp.rtrancl_into_rtrancl [OF ex_service_steps indexd_step.tick [OF t(1)]])
  from sealed_segments_are_complete [OF this _ _ ex_final _ _ ex_below] t show ?thesis by (auto simp: ex_empty_def)
qed

theorem archive_tick_ends_witness: "\<exists>t. archive_tick (ex_disk (\<lambda>n. FileFails)) (ex_node ''1'' ex_block) 1 ex_service = Some t"
  by (rule archive_tick_ends [OF ex_service_steps _ _ ex_final _ _ ex_below]) (simp_all add: ex_empty_def)

theorem truncated_manifest_is_kept_witness:
  "\<exists>u v. SealSegment (ex_disk (\<lambda>n. FilePartial)) (ex_node ''1'' ex_block) 1 1 u = (Inr (), v) \<and> sm_manifest (segment_at v 1 1) = Some None"
proof -
  obtain r t where t: "writeManifest (ex_disk (\<lambda>n. FilePartial)) 1 1 (manifest_of 1 1 0 [] []) ex_service = (r, t)" by fastforce
  have "StatOk (ex_disk out) n" "FileOut (ex_disk (\<lambda>n. FilePartial)) n = FilePartial" for out n by (simp_all add: ex_disk_def)
  from truncated_manifest_is_kept [where E = "ex_node ''1'' ex_block" and cfg = ex_icfg and every = 1 and m = None, OF this t rtranclp.rtrancl_refl]
  obtain v where "SealSegment (ex_disk (\<lambda>n. FilePartial)) (ex_node ''1'' ex_block) 1 1 t = (Inr (), v)" "is_segments v = is_segments t"
    "sm_manifest (segment_at t 1 1) = Some None" by blast
  then show ?thesis by (intro exI [of _ t] exI [of _ v]) (simp add: segment_at_def)
qed

theorem zero_segment_length_hangs_witness: "archive_tick (ex_disk (\<lambda>n. FileWritten)) (ex_node ''1'' ex_block) 0 ex_service = None"
  by (rule zero_segment_length_hangs [OF ex_well]) (simp_all add: ex_service_def ex_tables in_i64_def)

end
