(* ===== verification/Spec2Isabelle.thy ===== *)
theory Spec2Isabelle
  imports Fees Hll AnteGuard IbcGuard AppsTheorems SettleExamples Lane PrecompileExamples Paymaster IndexerExamples
begin

text \<open>
  VaporChain: an application chain whose modules run in Go on the Cosmos SDK (\<open>chain/\<close>), the
  service that sponsors the gas of user operations (\<open>services/sponsor/\<close>) and the indexer that keeps the
  history of the chain (\<open>services/indexer/\<close>).

  \<^bold>\<open>The program.\<close> Contracts pay each other through the Settle precompile at \<open>0x900\<close>
  (\<open>chain/precompiles/settle\<close>). Its functions call \<open>x/settle\<close>, which takes the gross amount from the
  payer, charges a fee, divides the fee between the app that the calling contract belongs to, the
  validators, the relayers and the treasury, keeps tabs of small payments, and counts what it owes in a
  running ledger. \<open>x/apps\<close> registers applications and the contracts bound to them, records which
  payers they settle with (a HyperLogLog sketch), holds their bonds, and grants each app a quota of
  sponsored gas per epoch. \<open>x/council\<close> is the proof-of-authority council: it admits and removes
  validators and pauses denoms, payments or single bridges. Three guards obey it: the ante handler
  (\<open>app/ante.go\<close>) filters messages in front of every transaction, the IBC middleware
  (\<open>x/council/ibcguard\<close>) stops paused denoms at the bridge, and \<open>x/settle\<close> asks it before it moves
  money. \<open>lane/lane.go\<close> divides the gas of a block between transactions that pay and the sponsored ones.
  The sponsor service decides which user operations it signs for, reserves their gas within the quota of
  \<open>x/apps\<close> in its own database, and reconciles the reservations with the events of the paymaster
  contract. The indexer follows the chain block by block, writes blocks, transactions, logs and the events of
  the modules into SQL tables, and seals finished ranges of blocks as Parquet files with a manifest.

  \<^bold>\<open>Theories and code.\<close>
  \<^item> \<open>Prelude\<close>, \<open>ChainTypes\<close>, \<open>RefEnv\<close>: Go's integers, runs with errors and their proof rules, ordered
    stores; the protobuf messages, errors and stores of the three modules (\<open>x/*/types/*.pb.go\<close>), the
    outside modules as the record \<open>env\<close>; one concrete environment, for examples only.
  \<^item> \<open>Fees\<close>: \<open>x/settle/types/fees.go\<close> and the validation of \<open>params.go\<close>, \<open>split.go\<close>.
  \<^item> \<open>Hll\<close>: \<open>x/apps/types/hll.go\<close>.
  \<^item> \<open>Council\<close>: \<open>x/council/keeper\<close>. \<open>AnteGuard\<close>: \<open>app/ante.go\<close>. \<open>IbcGuard\<close>: \<open>x/council/ibcguard\<close>.
  \<^item> \<open>AppsRegistry\<close>, \<open>AppsQuota\<close>, \<open>AppsGenesis\<close>: \<open>x/apps/keeper\<close> and \<open>types\<close>; \<open>AppsInvariant\<close>,
    \<open>AppsBonds\<close>, \<open>AppsTheorems\<close>: their invariants and properties.
  \<^item> \<open>Settle\<close>, \<open>SettleTreasury\<close>, \<open>SettleGenesis\<close>: \<open>x/settle/keeper\<close> and \<open>types\<close>; \<open>SettleBooks\<close>,
    \<open>SettleTabs\<close>, \<open>SettleInvariant\<close>, \<open>SettleMoney\<close>, \<open>SettlePayout\<close>, \<open>SettleSteps\<close>: the accounts, the keys of
    tabs, the interface of an invariant, what each operation does to the accounts, the payout of
    validators and what it leaves when it fails, and the steps of the module;
    \<open>SettleGenesisLaws\<close>, \<open>SettlePayments\<close>, \<open>SettleTabLaws\<close>, \<open>SettleTheorems\<close>, \<open>SettleRevenue\<close>,
    \<open>SettleExamples\<close>: the properties and the concrete runs.
  \<^item> \<open>Lane\<close>: \<open>lane/lane.go\<close> with the policy of \<open>app/mempool.go\<close>.
  \<^item> \<open>Precompile\<close>: \<open>precompiles/settle\<close>; \<open>PrecompileLaws\<close>, \<open>PrecompileExamples\<close>: its properties and
    concrete calls.
  \<^item> \<open>SponsorOp\<close>, \<open>SponsorPolicy\<close>, \<open>SponsorStore\<close>, \<open>SponsorServer\<close>: \<open>services/sponsor/internal\<close>, its
    packages \<open>userop\<close>, \<open>chain\<close> and \<open>policy\<close>, \<open>store\<close> and \<open>reconcile\<close>, \<open>server\<close>, over the state and the
    world of \<open>SponsorTypes\<close>; \<open>SponsorPolicyLaws\<close>, \<open>SponsorLedger\<close>, \<open>SponsorSync\<close>, \<open>SponsorServerLaws\<close>: what
    is sponsored, the books, the reconciler, the service over time; \<open>SponsorExamples\<close>: concrete requests.
  \<^item> \<open>Paymaster\<close>: the contract \<open>contracts/src/paymaster/VaporVerifyingPaymaster.sol\<close>, which checks the
    sponsor's signature. This theory: the sponsor over the quotas of \<open>x/apps\<close>.
  \<^item> \<open>Indexer\<close>, \<open>Archive\<close>: \<open>services/indexer/internal\<close>, its packages \<open>ingest\<close> with the tables of \<open>db\<close>, and
    \<open>archive\<close>; \<open>IndexerLaws\<close>, \<open>ArchiveLaws\<close>, \<open>IndexerExamples\<close>: what they promise, where they go wrong, and
    concrete chains.

  \<^bold>\<open>How the code is modelled.\<close> A method that returns a value or an error and writes the store is a
  \<open>run\<close>: a function from the state to a sum and the state it leaves. The state is kept when the method
  fails, because the block hooks log an error and go on with the writes made so far; a transaction is the
  same method inside \<open>atomic\<close>. Each Go function is one definition with its checks in the order of the code,
  and every early return and panic is an \<open>Inl\<close>. A \<open>collections.Map\<close> is a finite map, walked in the order
  of its keys. \<open>uint64\<close>, \<open>uint32\<close> and \<open>byte\<close> are words; \<open>int64\<close> is an integer with \<open>wrap64\<close> written
  where it is computed; \<open>math.Int\<close> and \<open>big.Int\<close> are integers. The panic of \<open>math.Int\<close> beyond 256 bits is a
  branch of the model where it could halt the chain, in the quota computation at the end of a block;
  elsewhere it is not, so that what is stated of a call that succeeds holds, and no property says that a
  payment must succeed: an amount of 244 bits or more can make the fee computation panic.

  Code outside the repository is a parameter: the bank, staking, slashing, bech32, the EVM and the hashes
  (\<open>env\<close>), the block and its transactions (\<open>lane_env\<close>), ibc-go (\<open>ibc_env\<close>), the ABI codec, the log and
  the native-action wrapper (\<open>precompile_env\<close>), the clock, the node, the database and the signer of
  the sponsor (\<open>sponsor_env\<close>), those of the indexer (\<open>index_env\<close>) and its disk (\<open>archive_env\<close>). What a proof needs of them is a named hypothesis that states
  their documented behaviour (\<open>bank_laws\<close>: a transfer moves exactly the coins named; \<open>bank_pays\<close>:
  it succeeds when the balance suffices; \<open>text_laws\<close>: bech32 texts parse back; \<open>wrapper_laws\<close>: a failed native
  action is rolled back; \<open>node_serves\<close>: a committed block does not change, and the EVM endpoint has
  the heights that CometBFT has reported to that turn; and so on), and each property with such a hypothesis is applied to a concrete
  environment in which it holds.

  \<^bold>\<open>Interfaces.\<close> \<open>settle_debits\<close> and \<open>settle_invariant\<close> say what a predicate must survive - the
  transfers, the updates of the ledger, of tabs and of parameters - and give, once, that every
  operation of \<open>x/settle\<close> keeps it; they are interpreted for the books, the credit supply, the validated
  parameters and, over the precompile, for the balance of a bystander and for the allowances.
  \<open>pause_checker\<close> is what the IBC middleware asks of the council, \<open>lane_policy\<close> what the lane asks of
  \<open>x/settle\<close>, \<open>store_invariant\<close> what a predicate on the sponsor's tables must survive; it is interpreted for
  the ledger, the quotas and daily caps, and the record of what was signed.

  \<^bold>\<open>What is shown.\<close> In every reachable state of \<open>x/settle\<close> the running ledger is what the module
  owes, and the bank covers it, less only what payouts of validators that failed in the middle had sent and
  did not book (the end of a block logs such a failure and goes on, so these states are states of the
  chain); what such a payout does is stated exactly; payments, tabs, claims, credits, payouts and withdrawals have exactly the
  stated effect; genesis round trips. In every
  reachable state of \<open>x/apps\<close> the registry, its index and its counters agree, bonds are backed and the end
  blocker does not fail while bonds and fee weights have fewer than 192 bits. A removed validator stays removed; pauses end when they should; paused denoms do
  not cross the bridge; the ante handler accepts exactly the message trees of its specification. The
  precompile takes money of others only within their allowance, credits only the app of the calling
  contract, and every successful call is a sequence of steps of \<open>x/settle\<close>, so the invariants hold under
  it. Honest validators accept what an honest proposer selects. The sponsor signs only operations whose
  calls stay inside the app, never beyond the quota that \<open>x/apps\<close> grants, never twice; what it signs commits to
  every field that costs gas, and the paymaster contract accepts it; a reconciliation turn ends and settles every
  event once. However often the indexer fails and restarts, its tables hold every block once, unless the EVM endpoint lags behind CometBFT; a sealed segment says
  what the tables hold for its range, also later; a tick of the archiver ends.

  \<^bold>\<open>Bounds.\<close> Loops are recursions over the list the code ranges over; there is no fuel. The loop of the
  reconciler may run forever when block numbers are near \<open>2 ^ 64\<close>; it is a partial function, and its
  termination is a theorem below that bound; so is the loop of the archiver, which ends when the length of a segment
  is positive and does not when it is 0. The lane adds gas in \<open>uint64\<close>: statements about the
  sum of a proposal are modulo \<open>2 ^ 64\<close>, or assume that it does not wrap.

  \<^bold>\<open>Not modelled.\<close> The wiring of the application (\<open>app/app.go\<close>, \<open>cmd\<close>), the gateways generated from the protobuf
  files and the registration of the modules, which only connect parts; \<open>rpc/vapor.go\<close>, read-only endpoints that
  forward to the queries; the EVM mempool's own set-up; of the indexer, the read-only API, the start-up and the metrics, and the interleaving of the
  workers of a batch and of the archiver's queries with the writes (a batch is used only when it is complete, and what the
  archiver reads lies below the cursor and does not change); the load
  generator (\<open>tools/loadgen\<close>); of the sponsor, the start-up (\<open>cmd\<close>), the CORS headers, the parsing of networks and the
  metrics, while HTTP, JSON and PostgreSQL are parameters; of the paymaster contract, its administration.
\<close>

section \<open>The sponsor on the chain\<close>

text \<open>The node answers questions about quotas with what \<open>x/apps\<close> computes in one of the states of the chain.\<close>

definition node_truthful :: "sponsor_env \<Rightarrow> 'x chain set \<Rightarrow> bool" where
  "node_truthful E states \<longleftrightarrow>
     (\<forall>n i q. says_quota E n i q \<longrightarrow>
        (\<exists>c \<in> states. cq_Epoch q = q_Epoch (QuotaFor c i) \<and> cq_Gas q = q_Gas (QuotaFor c i)))"

lemma QuotaFor_epoch: "q_Epoch (QuotaFor c i) = fst (CurrentEpoch c)"
  by (simp add: QuotaFor_def Let_def split: option.split)

lemma QuotaFor_active:
  assumes "q_Gas (QuotaFor c i) \<noteq> 0"
  shows "\<exists>a. find_app c i = Some a \<and> app_Status a = APP_STATUS_ACTIVE"
  using assms by (auto simp: QuotaFor_def Let_def split: option.splits if_splits)

text \<open>The largest quota of an app in an epoch, over a set of states.\<close>

definition largest_quota :: "'x chain set \<Rightarrow> u64 \<times> u64 \<Rightarrow> int" where
  "largest_quota states k =
     Max (insert 0 ((\<lambda>c. uint (q_Gas (QuotaFor c (fst k)))) ` {c \<in> states. fst (CurrentEpoch c) = snd k}))"

lemma quotas_finite: "finite ((\<lambda>c. uint (q_Gas (QuotaFor c i))) ` C)"
proof (rule finite_subset)
  show "(\<lambda>c. uint (q_Gas (QuotaFor c i))) ` C \<subseteq> {0..<2 ^ 64}"
  proof (rule image_subsetI)
    fix c assume "c \<in> C"
    show "uint (q_Gas (QuotaFor c i)) \<in> {0..<2 ^ 64}" using uint_lt2p [of "q_Gas (QuotaFor c i)"] by simp
  qed
qed simp

lemma truthful_quotas:
  assumes "node_truthful E states"
  shows "quotas_within E (largest_quota states)"
  unfolding quotas_within_def
proof (intro conjI allI impI)
  show "0 \<le> largest_quota states k" for k unfolding largest_quota_def by (rule Max_ge) (simp_all add: quotas_finite)
  fix n i q assume "says_quota E n i q"
  then obtain c where "c \<in> states" "cq_Epoch q = fst (CurrentEpoch c)" "cq_Gas q = q_Gas (QuotaFor c i)"
    using assms unfolding node_truthful_def QuotaFor_epoch by blast
  then show "uint (cq_Gas q) \<le> largest_quota states (i, cq_Epoch q)"
    unfolding largest_quota_def by (intro Max_ge) (auto simp: quotas_finite)
qed

lemma largest_quota_cases:
  "largest_quota states (i, e) = 0 \<or>
   (\<exists>c \<in> states. fst (CurrentEpoch c) = e \<and> largest_quota states (i, e) = uint (q_Gas (QuotaFor c i)))"
proof -
  have "largest_quota states (i, e) \<in> insert 0 ((\<lambda>c. uint (q_Gas (QuotaFor c i))) ` {c \<in> states. fst (CurrentEpoch c) = e})"
    unfolding largest_quota_def fst_conv snd_conv by (rule Max_in) (simp_all add: quotas_finite)
  then show ?thesis by auto
qed

text \<open>
  C3. The quota of \<open>x/apps\<close> bounds what the sponsor gives away. When the node answers with the quotas of the chain, then
  in every state the sponsor service can reach, through any requests, events and failures, it has
  reserved no gas for an app in an epoch unless the app was registered and active in a state of the chain in that
  epoch, and never more than \<open>QuotaFor\<close> granted it there. Gas that was reserved and not burned is
  counted too.
\<close>

theorem sponsor_within_chain_quota:
  assumes "service_start s0" "service_steps E J cfg sv s0 s" "node_truthful E states"
  shows "gas_at (db s) (i, e) = 0 \<or>
    (\<exists>c \<in> states. fst (CurrentEpoch c) = e \<and> (\<exists>a. find_app c i = Some a \<and> app_Status a = APP_STATUS_ACTIVE) \<and>
       0 < gas_at (db s) (i, e) \<and> gas_at (db s) (i, e) \<le> uint (q_Gas (QuotaFor c i)))"
proof -
  let ?C = "max 0 (max (cfg_SenderDailyCap cfg) (cfg_NewSenderDailyCap cfg))"
  have books: "sponsor_books_ok (largest_quota states) ?C (db s)"
    using service_books [OF assms(1,2) truthful_quotas [OF assms(3)], of ?C] by simp
  then have gas: "gas_at (db s) (i, e) \<le> largest_quota states (i, e)" unfolding sponsor_books_ok_def by blast
  have rows: "list_all row_ok (signatures (db s))" using books_ledger [OF books] by (simp add: ledger_ok_def)
  have "0 \<le> gas_at (db s) (i, e)" unfolding ledger_gas [OF books_ledger [OF books]] by (rule charged_nonneg [OF rows])
  with gas largest_quota_cases [of states i e] consider "gas_at (db s) (i, e) = 0"
    | c where "c \<in> states" "fst (CurrentEpoch c) = e" "0 < gas_at (db s) (i, e)" "gas_at (db s) (i, e) \<le> uint (q_Gas (QuotaFor c i))"
    by fastforce
  then show ?thesis
  proof cases
    case 2
    then have "q_Gas (QuotaFor c i) \<noteq> 0" by auto
    with 2 show ?thesis using QuotaFor_active by blast
  qed simp
qed

text \<open>The concrete service on a chain whose registry has given every app a quota of 1000000 in epoch 3.\<close>

definition ex_granting :: "u64 \<Rightarrow> ref_ext chain" where
  "ex_granting i = ex_gen\<lparr>apps := apps_empty\<lparr>EpochNumber := Some 3,
     Apps := fmupd i \<lparr>app_AppId = i, app_Owner = ''alice'', app_PendingOwner = [], app_RevenueRecipient = [], app_MetadataUri = [],
       app_Domain = [], app_ReferrerBps = 0, app_Status = APP_STATUS_ACTIVE, app_Version = 1, app_CreatedHeight = 0, app_ContractCount = 0\<rparr> fmempty,
     Quotas := fmupd i \<lparr>q_AppId = i, q_Epoch = 3, q_Gas = 1000000, q_UniquePayersEstimate = 1, q_DiversityBps = 10000\<rparr> fmempty\<rparr>\<rparr>"

theorem sponsor_within_chain_quota_witness:
  "\<exists>t. service_steps ex_world ex_json ex_policy ex_server ex_fresh t \<and> gas_at (db t) (7, 3) = 276000 \<and>
     (\<exists>c \<in> range ex_granting. gas_at (db t) (7, 3) \<le> uint (q_Gas (QuotaFor c 7)))"
proof -
  obtain p t where run: "rpc_dispatch ex_world ex_json ex_policy ex_server ex_request ex_fresh = (Inr (PmResult p), t)" "pm_IsFinal p"
    using ex_reply by blast
  then have steps: "service_steps ex_world ex_json ex_policy ex_server ex_fresh t"
    by (blast intro: service_step.request)
  have e: "gas_at empty_tables k = 0" for k by (simp add: empty_tables_def gas_at_def)
  have gas: "gas_at (db t) (7, 3) = 276000"
    using final_result [OF run ex_fresh_ok(1,2), unfolded ex_operation ex_asked ex_quota ex_fresh_ok(4) e]
    by (auto simp: ex_total)
  have "fst (CurrentEpoch (ex_granting i)) = 3" "q_Gas (QuotaFor (ex_granting i) i) = 1000000" for i
    by (simp_all add: QuotaFor_def CurrentEpoch_def find_app_def ex_granting_def)
  then have "node_truthful ex_world (range ex_granting)" by (auto simp: node_truthful_def ex_quota QuotaFor_epoch)
  from sponsor_within_chain_quota [OF ex_fresh_ok(3) steps this, of 7 3] gas
  have "\<exists>c \<in> range ex_granting. gas_at (db t) (7, 3) \<le> uint (q_Gas (QuotaFor c 7))" by auto
  with steps gas show ?thesis by blast
qed

end
